(* ===== verification/Prelude.thy ===== *)
theory Prelude
  imports
    Main
    "HOL-Library.List_Lexorder"
    "HOL-Library.Char_ord"
    "HOL-Library.Product_Lexorder"
    "HOL-Library.Code_Target_Nat"
begin

text \<open>
  Shared material of the development: the theorem collections, Go's maps as association
  lists kept strictly sorted by key (so that equal maps are equal lists and a range over
  the keys in sorted order is the list itself), and the little that is needed on sums,
  lists and insertion-stable filtering.

  Go iterates over a map in an unspecified order. Wherever the source sorts the keys
  afterwards or builds a set, the order does not matter; where a loop returns the first
  error it meets, the model meets the keys in sorted order.
\<close>

named_theorems omap_simps \<open>reading, writing and deleting in an ordered map\<close>
named_theorems wf_intros \<open>operations preserve well-formedness\<close>

section \<open>Ordered maps\<close>

type_synonym ('k, 'v) omap = "('k \<times> 'v) list"

text \<open>A map is well formed when its keys are strictly increasing.\<close>

definition omap_wf :: "('k::linorder, 'v) omap \<Rightarrow> bool" where
  "omap_wf m \<longleftrightarrow> sorted_wrt (<) (map fst m)"

definition om_get :: "('k, 'v) omap \<Rightarrow> 'k \<Rightarrow> 'v option" where
  "om_get m k = map_of m k"

fun om_put :: "'k::linorder \<Rightarrow> 'v \<Rightarrow> ('k, 'v) omap \<Rightarrow> ('k, 'v) omap" where
  "om_put k v [] = [(k, v)]"
| "om_put k v ((a, b) # m) =
     (if k < a then (k, v) # (a, b) # m
      else if k = a then (k, v) # m
      else (a, b) # om_put k v m)"

definition om_del :: "'k \<Rightarrow> ('k, 'v) omap \<Rightarrow> ('k, 'v) omap" where
  "om_del k m = filter (\<lambda>p. fst p \<noteq> k) m"

definition om_keys :: "('k, 'v) omap \<Rightarrow> 'k list" where
  "om_keys m = map fst m"

definition om_map :: "('v \<Rightarrow> 'w) \<Rightarrow> ('k, 'v) omap \<Rightarrow> ('k, 'w) omap" where
  "om_map f m = map (\<lambda>p. (fst p, f (snd p))) m"

lemma om_get_Nil [simp]: "om_get [] k = None"
  by (simp add: om_get_def)

lemma om_get_Cons [simp]: "om_get ((a, b) # m) k = (if k = a then Some b else om_get m k)"
  by (simp add: om_get_def)

lemma omap_wf_Nil [simp]: "omap_wf []"
  by (simp add: omap_wf_def)

lemma omap_wf_Cons [simp]:
  "omap_wf ((a, b) # m) \<longleftrightarrow> (\<forall>p \<in> set m. a < fst p) \<and> omap_wf m"
  by (simp add: omap_wf_def)

lemma om_get_put [simp, omap_simps]:
  "om_get (om_put k v m) k' = (if k' = k then Some v else om_get m k')"
  by (induction m) auto

lemma set_om_put: "set (om_put k v m) \<subseteq> insert (k, v) (set m)"
  by (induction k v m rule: om_put.induct) auto

lemma fst_om_put: "fst ` set (om_put k v m) = insert k (fst ` set m)"
  by (induction k v m rule: om_put.induct) auto

lemma om_put_wf [wf_intros]: "omap_wf m \<Longrightarrow> omap_wf (om_put k v m)"
proof (induction m)
  case Nil
  then show ?case by simp
next
  case (Cons p m)
  obtain a b where p: "p = (a, b)" by (cases p)
  have bound: "\<forall>q \<in> set (om_put k v m). a < fst q" if "a < k"
    using that Cons.prems p set_om_put [of k v m] by auto
  show ?case
    using Cons p bound by (auto simp: not_less_iff_gr_or_eq)
qed

lemma om_get_in: "om_get m k = Some v \<Longrightarrow> (k, v) \<in> set m"
  by (auto simp: om_get_def dest: map_of_SomeD)

lemma om_get_iff: "omap_wf m \<Longrightarrow> om_get m k = Some v \<longleftrightarrow> (k, v) \<in> set m"
proof (induction m)
  case (Cons p m)
  then show ?case by (cases p) force
qed simp

lemma om_get_None: "om_get m k = None \<longleftrightarrow> k \<notin> fst ` set m"
  by (simp add: om_get_def map_of_eq_None_iff)

lemma om_del_wf [wf_intros]: "omap_wf m \<Longrightarrow> omap_wf (om_del k m)"
  by (induction m) (auto simp: om_del_def)

lemma om_get_del [simp, omap_simps]:
  "om_get (om_del k m) k' = (if k' = k then None else om_get m k')"
  by (induction m) (auto simp: om_del_def)

lemma om_keys_wf: "omap_wf m \<Longrightarrow> sorted_wrt (<) (om_keys m)"
  by (simp add: omap_wf_def om_keys_def)

lemma om_map_wf [wf_intros]: "omap_wf m \<Longrightarrow> omap_wf (om_map f m)"
  by (simp add: omap_wf_def om_map_def comp_def)

lemma om_get_map [simp, omap_simps]: "om_get (om_map f m) k = map_option f (om_get m k)"
  by (induction m) (auto simp: om_map_def)

lemma om_keys_map [simp]: "om_keys (om_map f m) = om_keys m"
  by (simp add: om_keys_def om_map_def)

text \<open>Two well-formed maps that answer every lookup alike are the same list.\<close>

lemma omap_wf_distinct: "omap_wf m \<Longrightarrow> distinct (map fst m) \<and> sorted (map fst m)"
  by (simp add: omap_wf_def strict_sorted_iff)

lemma om_ext:
  assumes wf: "omap_wf m" "omap_wf n" and eq: "\<And>k. om_get m k = om_get n k"
  shows "m = n"
proof (rule map_sorted_distinct_set_unique [where f = fst])
  have *: "set m = set n"
    using om_get_iff [OF wf(1)] om_get_iff [OF wf(2)] eq by (metis subset_antisym subrelI)
  then show "set m = set n" .
  show "inj_on fst (set m \<union> set n)"
    using * omap_wf_distinct [OF wf(1)] by (simp add: distinct_map)
qed (use omap_wf_distinct wf in auto)

text \<open>Keeping the entries whose key passes.\<close>

lemma om_filter_get: "om_get (filter (\<lambda>(k, t). P k) m) j = (if P j then om_get m j else None)"
  by (induction m) auto

lemma om_filter_wf: "omap_wf m \<Longrightarrow> omap_wf (filter (\<lambda>(k, t). P k) m)"
  by (induction m) auto

text \<open>Writing the elements of a list, each under its own key.\<close>

lemma fold_om_put_wf [wf_intros]: "omap_wf m \<Longrightarrow> omap_wf (fold (\<lambda>x. om_put (f x) (g x)) xs m)"
  by (induction xs arbitrary: m) (auto intro: om_put_wf)

lemma fold_om_put_notin: "k \<notin> f ` set xs \<Longrightarrow> om_get (fold (\<lambda>x. om_put (f x) (g x)) xs m) k = om_get m k"
  by (induction xs arbitrary: m) auto

lemma fold_om_put_in:
  "distinct (map f xs) \<Longrightarrow> x \<in> set xs \<Longrightarrow> om_get (fold (\<lambda>x. om_put (f x) (g x)) xs m) (f x) = Some (g x)"
proof (induction xs arbitrary: m)
  case (Cons y ys)
  then show ?case by (cases "x = y") (auto simp: fold_om_put_notin)
qed simp

lemma fold_om_put_None:
  "om_get (fold (\<lambda>x. om_put (f x) (g x)) xs m) k = None \<longleftrightarrow> k \<notin> f ` set xs \<and> om_get m k = None"
  by (induction xs arbitrary: m) auto

lemma fold_om_del_by_get:
  "om_get (fold (\<lambda>x. om_del (f x)) xs m) k = (if k \<in> f ` set xs then None else om_get m k)"
  by (induction xs arbitrary: m) auto

lemma fold_om_del_by_wf [wf_intros]: "omap_wf m \<Longrightarrow> omap_wf (fold (\<lambda>x. om_del (f x)) xs m)"
  by (induction xs arbitrary: m) (auto intro: om_del_wf)

end
