(* ===== verification/Go_Strings.thy ===== *)
theory Go_Strings
  imports Prelude
begin

text \<open>
  What the code uses of Go's \<open>strings\<close>, \<open>strconv\<close> and \<open>fmt\<close> packages. A Go string is a
  sequence of bytes, so a \<^typ>\<open>string\<close> here is a list of \<^typ>\<open>char\<close> read as bytes; a
  character outside ASCII is its UTF-8 bytes. Trimming white space knows the multi-byte
  space characters of Unicode. Case mapping is the ASCII one: bytes from 0x80 on are left
  alone, which differs from Go only on letters outside ASCII. Quoting (the verb \<open>%q\<close>)
  escapes control bytes, quotes and backslashes and leaves bytes from 0x80 on as they are,
  which is what Go does with printable UTF-8.
\<close>

section \<open>Prefixes, suffixes, splitting and joining\<close>

fun strip_prefix :: "string \<Rightarrow> string \<Rightarrow> string option" where
  "strip_prefix [] s = Some s"
| "strip_prefix (p # ps) [] = None"
| "strip_prefix (p # ps) (c # s) = (if p = c then strip_prefix ps s else None)"

definition has_prefix :: "string \<Rightarrow> string \<Rightarrow> bool" where
  "has_prefix s p \<longleftrightarrow> strip_prefix p s \<noteq> None"

definition has_suffix :: "string \<Rightarrow> string \<Rightarrow> bool" where
  "has_suffix s p \<longleftrightarrow> has_prefix (rev s) (rev p)"

definition trim_prefix :: "string \<Rightarrow> string \<Rightarrow> string" where
  "trim_prefix s p = (case strip_prefix p s of None \<Rightarrow> s | Some r \<Rightarrow> r)"

fun split_on :: "char \<Rightarrow> string \<Rightarrow> string list" where
  "split_on c [] = [[]]"
| "split_on c (x # xs) =
     (if x = c then [] # split_on c xs
      else (case split_on c xs of [] \<Rightarrow> [[x]] | l # ls \<Rightarrow> (x # l) # ls))"

fun join_with :: "string \<Rightarrow> string list \<Rightarrow> string" where
  "join_with sep [] = []"
| "join_with sep [x] = x"
| "join_with sep (x # y # ys) = x @ sep @ join_with sep (y # ys)"

text \<open>\<open>strings.ReplaceAll(s, "\r\n", "\n")\<close>.\<close>

fun crlf_to_lf :: "string \<Rightarrow> string" where
  "crlf_to_lf [] = []"
| "crlf_to_lf [c] = [c]"
| "crlf_to_lf (c # d # s) =
     (if c = CHR 0x0D \<and> d = CHR 0x0A then CHR 0x0A # crlf_to_lf s else c # crlf_to_lf (d # s))"

definition contains_any :: "string \<Rightarrow> string \<Rightarrow> bool" where
  "contains_any s cs \<longleftrightarrow> list_ex (\<lambda>c. c \<in> set cs) s"

lemma strip_prefix_iff: "strip_prefix p s = Some r \<longleftrightarrow> s = p @ r"
  by (induction p s rule: strip_prefix.induct) auto

lemma has_prefix_iff: "has_prefix s p \<longleftrightarrow> (\<exists>r. s = p @ r)"
  by (auto simp: has_prefix_def strip_prefix_iff)

lemma has_prefix_append [simp]: "has_prefix (p @ s) p"
  by (auto simp: has_prefix_iff)

lemma has_suffix_iff: "has_suffix s p \<longleftrightarrow> (\<exists>r. s = r @ p)"
  by (auto simp: has_suffix_def has_prefix_iff rev_eq_append_conv) (metis rev_append rev_rev_ident)

lemma split_on_not_Nil [simp]: "split_on c s \<noteq> []"
  by (induction s) (auto split: list.splits)

lemma join_with_Cons_Cons [simp]: "join_with sep ((x # l) # ls) = x # join_with sep (l # ls)"
  by (cases ls) simp_all

lemma join_with_Nil_Cons: "ls \<noteq> [] \<Longrightarrow> join_with sep (l # ls) = l @ sep @ join_with sep ls"
  by (cases ls) simp_all

lemma join_split [simp]: "join_with [c] (split_on c s) = s"
proof (induction s)
  case (Cons x xs)
  then show ?case
    by (cases "split_on c xs") (auto simp: join_with_Nil_Cons dest: split_on_not_Nil [THEN notE])
qed simp

lemma split_on_no_sep: "l \<in> set (split_on c s) \<Longrightarrow> c \<notin> set l"
  by (induction s arbitrary: l) (auto split: list.splits if_splits)

lemma split_on_id [simp]: "c \<notin> set s \<Longrightarrow> split_on c s = [s]"
  by (induction s) auto

lemma split_on_append: "c \<notin> set l \<Longrightarrow> split_on c (l @ c # s) = l # split_on c s"
  by (induction l) auto

lemma split_join: "ls \<noteq> [] \<Longrightarrow> \<forall>l \<in> set ls. c \<notin> set l \<Longrightarrow> split_on c (join_with [c] ls) = ls"
proof (induction ls rule: induct_list012)
  case (3 x y zs)
  then show ?case by (simp add: split_on_append)
qed simp_all

section \<open>Trimming\<close>

definition ascii_space :: "char \<Rightarrow> bool" where
  "ascii_space c \<longleftrightarrow> c \<in> {CHR 0x09, CHR 0x0A, CHR 0x0B, CHR 0x0C, CHR 0x0D, CHR 0x20}"

text \<open>The UTF-8 encodings of the white space characters outside ASCII (\<open>unicode.IsSpace\<close>).\<close>

definition unicode_spaces :: "string list" where
  "unicode_spaces =
     [[CHR 0xC2, CHR 0x85], [CHR 0xC2, CHR 0xA0], [CHR 0xE1, CHR 0x9A, CHR 0x80],
      [CHR 0xE2, CHR 0x80, CHR 0x80], [CHR 0xE2, CHR 0x80, CHR 0x81], [CHR 0xE2, CHR 0x80, CHR 0x82],
      [CHR 0xE2, CHR 0x80, CHR 0x83], [CHR 0xE2, CHR 0x80, CHR 0x84], [CHR 0xE2, CHR 0x80, CHR 0x85],
      [CHR 0xE2, CHR 0x80, CHR 0x86], [CHR 0xE2, CHR 0x80, CHR 0x87], [CHR 0xE2, CHR 0x80, CHR 0x88],
      [CHR 0xE2, CHR 0x80, CHR 0x89], [CHR 0xE2, CHR 0x80, CHR 0x8A], [CHR 0xE2, CHR 0x80, CHR 0xA8],
      [CHR 0xE2, CHR 0x80, CHR 0xA9], [CHR 0xE2, CHR 0x80, CHR 0xAF], [CHR 0xE2, CHR 0x81, CHR 0x9F],
      [CHR 0xE3, CHR 0x80, CHR 0x80]]"

fun strip_any :: "string list \<Rightarrow> string \<Rightarrow> string option" where
  "strip_any [] s = None"
| "strip_any (p # ps) s = (case strip_prefix p s of Some r \<Rightarrow> Some r | None \<Rightarrow> strip_any ps s)"

fun trim_runes :: "string list \<Rightarrow> string \<Rightarrow> string" where
  "trim_runes us [] = []"
| "trim_runes us (c # s) =
     (if ascii_space c then trim_runes us s
      else if c < CHR 0x80 then c # s
      else (case strip_any us (c # s) of
              None \<Rightarrow> c # s
            | Some r \<Rightarrow> if length r \<le> length s then trim_runes us r else c # s))"

definition trim_left_space :: "string \<Rightarrow> string" where
  "trim_left_space s = trim_runes unicode_spaces s"

definition trim_right_space :: "string \<Rightarrow> string" where
  "trim_right_space s = rev (trim_runes (map rev unicode_spaces) (rev s))"

definition trim_space :: "string \<Rightarrow> string" where
  "trim_space s = trim_right_space (trim_left_space s)"

text \<open>\<open>strings.TrimLeft(s, cutset)\<close> and \<open>strings.TrimRight(s, cutset)\<close> for an ASCII cutset.\<close>

definition trim_left :: "string \<Rightarrow> string \<Rightarrow> string" where
  "trim_left s cs = dropWhile (\<lambda>c. c \<in> set cs) s"

definition trim_right :: "string \<Rightarrow> string \<Rightarrow> string" where
  "trim_right s cs = rev (dropWhile (\<lambda>c. c \<in> set cs) (rev s))"

text \<open>A string is left alone exactly when no white space leads it.\<close>

definition leads_space :: "string list \<Rightarrow> string \<Rightarrow> bool" where
  "leads_space us s \<longleftrightarrow>
     (case s of [] \<Rightarrow> False
      | c # _ \<Rightarrow> ascii_space c \<or> (\<not> c < CHR 0x80 \<and> strip_any us s \<noteq> None))"

lemma strip_any_Some: "strip_any us s = Some r \<Longrightarrow> \<exists>p \<in> set us. s = p @ r"
  by (induction us) (auto simp: strip_prefix_iff split: option.splits)

lemma strip_any_None: "strip_any us s = None \<longleftrightarrow> (\<forall>p \<in> set us. \<not> has_prefix s p)"
  by (induction us) (auto simp: has_prefix_def split: option.splits)

lemma strip_any_shorter:
  "strip_any us s = Some r \<Longrightarrow> [] \<notin> set us \<Longrightarrow> length r < length s"
  by (auto dest!: strip_any_Some)

lemma trim_runes_suffix: "\<exists>p. s = p @ trim_runes us s"
proof (induction us s rule: trim_runes.induct)
  case (2 us c s)
  show ?case
  proof (cases "ascii_space c \<or> c < CHR 0x80")
    case True
    with 2 show ?thesis by (auto simp: Cons_eq_append_conv)
  next
    case False
    show ?thesis
    proof (cases "strip_any us (c # s)")
      case None
      with False show ?thesis by (auto intro: exI [where x = "[]"])
    next
      case (Some r)
      then obtain p where p: "c # s = p @ r" by (auto dest: strip_any_Some)
      show ?thesis
      proof (cases "length r \<le> length s")
        case True
        with False Some 2 obtain q where "r = q @ trim_runes us r" by auto
        with p have "c # s = (p @ q) @ trim_runes us r" by (metis append.assoc)
        moreover from False Some True have "trim_runes us (c # s) = trim_runes us r" by simp
        ultimately show ?thesis by metis
      qed (use False Some in \<open>auto intro: exI [where x = "[]"]\<close>)
    qed
  qed
qed simp

lemma trim_runes_no_lead: "[] \<notin> set us \<Longrightarrow> \<not> leads_space us (trim_runes us s)"
proof (induction us s rule: trim_runes.induct)
  case (2 us c s)
  then show ?case
    by (auto simp: leads_space_def dest: strip_any_shorter split: option.splits)
qed (simp add: leads_space_def)

lemma trim_runes_id: "[] \<notin> set us \<Longrightarrow> trim_runes us s = s \<longleftrightarrow> \<not> leads_space us s"
  using trim_runes_no_lead [of us s]
  by (cases s) (auto simp: leads_space_def dest: strip_any_shorter split: option.splits if_splits)

lemma leads_space_append: "leads_space us s \<Longrightarrow> leads_space us (s @ t)"
proof -
  have "strip_any us (s @ t) \<noteq> None" if ne: "strip_any us s \<noteq> None"
    using ne unfolding strip_any_None has_prefix_iff by (metis append.assoc)
  then show "leads_space us s \<Longrightarrow> leads_space us (s @ t)"
    by (cases s) (auto simp: leads_space_def)
qed

lemma unicode_spaces_nonempty: "[] \<notin> set unicode_spaces" "[] \<notin> set (map rev unicode_spaces)"
  by (simp_all add: unicode_spaces_def)

lemma trim_space_Nil [simp]: "trim_space [] = []"
  by (simp add: trim_space_def trim_left_space_def trim_right_space_def)

lemma trim_left_space_id: "trim_left_space s = s \<longleftrightarrow> \<not> leads_space unicode_spaces s"
  by (simp add: trim_left_space_def trim_runes_id unicode_spaces_nonempty)

lemma trim_right_space_prefix: "\<exists>r. s = trim_right_space s @ r"
  using trim_runes_suffix [of "rev s" "map rev unicode_spaces"]
  by (auto simp: trim_right_space_def rev_eq_append_conv intro: exI [where x = "rev p" for p])

lemma trim_right_space_idem [simp]: "trim_right_space (trim_right_space s) = trim_right_space s"
  using trim_runes_no_lead [OF unicode_spaces_nonempty(2), of "rev s"]
    trim_runes_id [OF unicode_spaces_nonempty(2)]
  by (simp add: trim_right_space_def)

theorem trim_space_idem [simp]: "trim_space (trim_space s) = trim_space s"
proof -
  let ?t = "trim_left_space s"
  have "\<not> leads_space unicode_spaces ?t"
    by (simp add: trim_left_space_def trim_runes_no_lead unicode_spaces_nonempty)
  then have "\<not> leads_space unicode_spaces (trim_right_space ?t)"
    using trim_right_space_prefix [of ?t] leads_space_append by metis
  then have "trim_left_space (trim_right_space ?t) = trim_right_space ?t"
    by (simp add: trim_left_space_id)
  then show ?thesis by (simp add: trim_space_def)
qed

lemma trim_space_ends:
  "trim_space s \<noteq> [] \<Longrightarrow> \<not> ascii_space (hd (trim_space s)) \<and> \<not> ascii_space (last (trim_space s))"
proof -
  assume ne: "trim_space s \<noteq> []"
  have "\<not> leads_space unicode_spaces (trim_space s)"
    using trim_left_space_id [of "trim_space s"] trim_space_idem [of s]
    by (metis trim_right_space_prefix leads_space_append trim_left_space_def trim_runes_no_lead
        trim_space_def unicode_spaces_nonempty(1))
  moreover have "\<not> leads_space (map rev unicode_spaces) (rev (trim_space s))"
    using trim_runes_no_lead [OF unicode_spaces_nonempty(2)]
    by (simp add: trim_space_def trim_right_space_def)
  ultimately show ?thesis
    using ne by (auto simp: leads_space_def hd_rev [symmetric] split: list.splits)
qed

section \<open>Case\<close>

definition lower_char :: "char \<Rightarrow> char" where
  "lower_char c = (if CHR ''A'' \<le> c \<and> c \<le> CHR ''Z'' then char_of (of_char c + 32 :: nat) else c)"

definition upper_char :: "char \<Rightarrow> char" where
  "upper_char c = (if CHR ''a'' \<le> c \<and> c \<le> CHR ''z'' then char_of (of_char c - 32 :: nat) else c)"

definition to_lower :: "string \<Rightarrow> string" where
  "to_lower s = map lower_char s"

definition to_upper :: "string \<Rightarrow> string" where
  "to_upper s = map upper_char s"

definition equal_fold :: "string \<Rightarrow> string \<Rightarrow> bool" where
  "equal_fold a b \<longleftrightarrow> to_lower a = to_lower b"

section \<open>Numbers and quoting\<close>

definition is_digit :: "char \<Rightarrow> bool" where
  "is_digit c \<longleftrightarrow> CHR ''0'' \<le> c \<and> c \<le> CHR ''9''"

definition is_lower_alnum :: "char \<Rightarrow> bool" where
  "is_lower_alnum c \<longleftrightarrow> (CHR ''a'' \<le> c \<and> c \<le> CHR ''z'') \<or> is_digit c"

definition digit_val :: "char \<Rightarrow> nat" where
  "digit_val c = of_char c - 48"

definition digit_char :: "nat \<Rightarrow> char" where
  "digit_char n = char_of (48 + n mod 10)"

fun nat_of_digits :: "nat \<Rightarrow> string \<Rightarrow> nat" where
  "nat_of_digits acc [] = acc"
| "nat_of_digits acc (c # s) = nat_of_digits (10 * acc + digit_val c) s"

fun itoa :: "nat \<Rightarrow> string" where
  "itoa n = (if n < 10 then [digit_char n] else itoa (n div 10) @ [digit_char n])"

declare itoa.simps [simp del]

definition itoa_int :: "int \<Rightarrow> string" where
  "itoa_int i = (if i < 0 then CHR ''-'' # itoa (nat (- i)) else itoa (nat i))"

definition pad_zero :: "nat \<Rightarrow> string \<Rightarrow> string" where
  "pad_zero w s = replicate (w - length s) CHR ''0'' @ s"

text \<open>\<open>strconv.Atoi\<close>: an optional sign and decimal digits, within 64 bits.\<close>

definition atoi_digits :: "string \<Rightarrow> nat option" where
  "atoi_digits s = (if s \<noteq> [] \<and> list_all is_digit s then Some (nat_of_digits 0 s) else None)"

definition int64_of :: "int \<Rightarrow> int option" where
  "int64_of i = (if - (2 ^ 63) \<le> i \<and> i < 2 ^ 63 then Some i else None)"

definition atoi :: "string \<Rightarrow> int option" where
  "atoi s =
     (case s of
        c # r \<Rightarrow>
          if c = CHR ''-'' then Option.bind (atoi_digits r) (\<lambda>n. int64_of (- int n))
          else if c = CHR ''+'' then Option.bind (atoi_digits r) (\<lambda>n. int64_of (int n))
          else Option.bind (atoi_digits s) (\<lambda>n. int64_of (int n))
      | [] \<Rightarrow> None)"

definition hex_char :: "nat \<Rightarrow> char" where
  "hex_char n = (if n < 10 then char_of (48 + n) else char_of (87 + n))"

definition quote_char :: "char \<Rightarrow> string" where
  "quote_char c =
     (if c = CHR 0x22 then [CHR 0x5C, CHR 0x22]
      else if c = CHR 0x5C then [CHR 0x5C, CHR 0x5C]
      else if c = CHR 0x07 then [CHR 0x5C, CHR ''a'']
      else if c = CHR 0x08 then [CHR 0x5C, CHR ''b'']
      else if c = CHR 0x0C then [CHR 0x5C, CHR ''f'']
      else if c = CHR 0x0A then [CHR 0x5C, CHR ''n'']
      else if c = CHR 0x0D then [CHR 0x5C, CHR ''r'']
      else if c = CHR 0x09 then [CHR 0x5C, CHR ''t'']
      else if c = CHR 0x0B then [CHR 0x5C, CHR ''v'']
      else if c < CHR 0x20 \<or> c = CHR 0x7F
        then [CHR 0x5C, CHR ''x'', hex_char (of_char c div 16), hex_char (of_char c mod 16)]
      else [c])"

definition quote :: "string \<Rightarrow> string" where
  "quote s = [CHR 0x22] @ concat (map quote_char s) @ [CHR 0x22]"

section \<open>Facts about numbers\<close>

lemma is_digit_iff: "is_digit c \<longleftrightarrow> 48 \<le> (of_char c :: nat) \<and> (of_char c :: nat) \<le> 57"
  by (simp add: is_digit_def less_eq_char_def)

lemma digit_char_digit [simp]: "is_digit (digit_char n)"
  using mod_less_divisor [of 10 n] by (simp add: is_digit_iff digit_char_def)

lemma digit_val_char [simp]: "digit_val (digit_char n) = n mod 10"
proof -
  have "(48 + n mod 10) mod 256 = 48 + n mod 10"
    using mod_less_divisor [of 10 n] by (intro mod_less) linarith
  then show ?thesis by (simp add: digit_val_def digit_char_def)
qed

lemma itoa_nonempty [simp]: "itoa n \<noteq> []"
  by (subst itoa.simps) simp

lemma itoa_all_digits [simp]: "list_all is_digit (itoa n)"
proof (induction n rule: itoa.induct)
  case (1 n)
  then show ?case by (subst itoa.simps) simp
qed

lemma nat_of_digits_append:
  "nat_of_digits acc (a @ b) = nat_of_digits (nat_of_digits acc a) b"
  by (induction acc a rule: nat_of_digits.induct) simp_all

lemma nat_of_digits_itoa [simp]: "nat_of_digits 0 (itoa n) = n"
proof (induction n rule: itoa.induct)
  case (1 n)
  then show ?case
    by (cases "n < 10") (simp_all add: itoa.simps [of n] nat_of_digits_append)
qed

lemma length_itoa: "n < 10 ^ Suc k \<Longrightarrow> length (itoa n) \<le> Suc k"
proof (induction k arbitrary: n)
  case 0
  then show ?case by (simp add: itoa.simps)
next
  case (Suc k)
  have "n div 10 < 10 ^ Suc k" using Suc.prems by (simp add: less_mult_imp_div_less mult.commute)
  then have "length (itoa (n div 10)) \<le> Suc k" by (rule Suc.IH)
  then show ?case by (simp add: itoa.simps [of n])
qed

lemma nat_of_digits_zeros: "nat_of_digits 0 (replicate k CHR ''0'' @ s) = nat_of_digits 0 s"
  by (induction k) (simp_all add: digit_val_def)

lemma pad_zero_digits: "list_all is_digit s \<Longrightarrow> list_all is_digit (pad_zero w s)"
  by (auto simp: pad_zero_def is_digit_def list_all_iff)

lemma length_pad_zero: "length s \<le> w \<Longrightarrow> length (pad_zero w s) = w"
  by (simp add: pad_zero_def)

lemma nat_of_digits_pad [simp]: "nat_of_digits 0 (pad_zero w s) = nat_of_digits 0 s"
  by (simp add: pad_zero_def nat_of_digits_zeros)

lemma atoi_itoa: "n < 2 ^ 63 \<Longrightarrow> atoi (itoa n) = Some (int n)"
proof -
  assume n: "n < 2 ^ 63"
  obtain c s where cs: "itoa n = c # s" by (cases "itoa n") auto
  then have "is_digit c" using itoa_all_digits [of n] by simp
  then have "c \<noteq> CHR ''-''" "c \<noteq> CHR ''+''" by (auto simp: is_digit_def)
  moreover have "atoi_digits (c # s) = Some n"
    using itoa_all_digits [of n] nat_of_digits_itoa [of n] by (simp add: atoi_digits_def cs)
  ultimately show ?thesis
    using n by (simp add: atoi_def cs int64_of_def)
qed

section \<open>Splitting at the characters that do not pass\<close>

text \<open>Runs of the characters that pass, for texts in ASCII.\<close>

fun fields_from :: "(char \<Rightarrow> bool) \<Rightarrow> string \<Rightarrow> string \<Rightarrow> string list" where
  "fields_from P cur [] = (if cur = [] then [] else [rev cur])"
| "fields_from P cur (c # s) =
     (if P c then fields_from P (c # cur) s
      else if cur = [] then fields_from P [] s
      else rev cur # fields_from P [] s)"

section \<open>Cutting\<close>

text \<open>A string cut at the first (\<open>strings.Cut\<close>) and at the last occurrence of a character.\<close>

definition cut_first :: "char \<Rightarrow> string \<Rightarrow> (string \<times> string) option" where
  "cut_first c s =
     (case dropWhile (\<lambda>x. x \<noteq> c) s of [] \<Rightarrow> None | _ # r \<Rightarrow> Some (takeWhile (\<lambda>x. x \<noteq> c) s, r))"

definition cut_last :: "char \<Rightarrow> string \<Rightarrow> (string \<times> string) option" where
  "cut_last c s = map_option (\<lambda>(a, b). (rev b, rev a)) (cut_first c (rev s))"

lemma cut_first_Some: "cut_first c s = Some (a, b) \<longleftrightarrow> s = a @ c # b \<and> c \<notin> set a"
proof
  assume h: "cut_first c s = Some (a, b)"
  then obtain x where x: "dropWhile (\<lambda>x. x \<noteq> c) s = x # b" "a = takeWhile (\<lambda>x. x \<noteq> c) s"
    by (auto simp: cut_first_def split: list.splits)
  have "x = c" using hd_dropWhile [of "\<lambda>x. x \<noteq> c" s] x(1) by simp
  moreover have "c \<notin> set a" unfolding x(2) by (auto dest: set_takeWhileD)
  ultimately show "s = a @ c # b \<and> c \<notin> set a"
    using takeWhile_dropWhile_id [of "\<lambda>x. x \<noteq> c" s] x by simp
next
  assume h: "s = a @ c # b \<and> c \<notin> set a"
  then have "\<forall>x \<in> set a. x \<noteq> c" by auto
  with h show "cut_first c s = Some (a, b)"
    by (simp add: cut_first_def dropWhile_append2 takeWhile_append2)
qed

lemma cut_last_Some: "cut_last c s = Some (a, b) \<longleftrightarrow> s = a @ c # b \<and> c \<notin> set b"
proof -
  have "cut_last c s = Some (a, b) \<longleftrightarrow> cut_first c (rev s) = Some (rev b, rev a)"
    by (auto simp: cut_last_def)
  then show ?thesis
    by (simp add: cut_first_Some) (metis append.assoc append_Cons append_Nil rev.simps(2) rev_append rev_rev_ident)
qed

lemma cut_first_append: "c \<notin> set a \<Longrightarrow> cut_first c (a @ c # r) = Some (a, r)"
  by (simp add: cut_first_Some)

lemma cut_first_none: "c \<notin> set s \<Longrightarrow> cut_first c s = None"
  by (cases "cut_first c s") (auto simp: cut_first_Some)

lemma cut_last_append: "c \<notin> set r \<Longrightarrow> cut_last c (a @ c # r) = Some (a, r)"
  by (simp add: cut_last_Some)

lemma cut_last_none: "c \<notin> set s \<Longrightarrow> cut_last c s = None"
  by (simp add: cut_last_def cut_first_none)

lemma cut_first_length: "cut_first c s = Some (a, b) \<Longrightarrow> length s = Suc (length a + length b)"
  by (auto simp: cut_first_Some)

end
