(* ===== verification/Go_Time.thy ===== *)
theory Go_Time
  imports Go_Strings
begin

text \<open>
  Timestamps and dates. \<open>model.NormalizeTimestamp\<close> tries four layouts with Go's
  \<open>time.Parse\<close> and prints the instant in UTC with \<open>time.Format\<close>; this theory models the
  part of those two functions that the layouts of the code exercise: the fixed and the
  free digit counts, the optional fraction, the zone offset with its range test, the runs
  of spaces, the check of the day against the month, and the shift into UTC across day,
  month and year boundaries.
\<close>

record datetime =
  dt_year :: int
  dt_month :: nat
  dt_day :: nat
  dt_hour :: nat
  dt_minute :: nat
  dt_second :: nat
  dt_nanos :: nat

section \<open>The calendar\<close>

definition leap_year :: "int \<Rightarrow> bool" where
  "leap_year y \<longleftrightarrow> y mod 4 = 0 \<and> (y mod 100 \<noteq> 0 \<or> y mod 400 = 0)"

definition days_in :: "nat \<Rightarrow> int \<Rightarrow> nat" where
  "days_in m y =
     (if m = 2 then (if leap_year y then 29 else 28)
      else if m \<in> {4, 6, 9, 11} then 30 else 31)"

definition next_day :: "datetime \<Rightarrow> datetime" where
  "next_day t =
     (if dt_day t < days_in (dt_month t) (dt_year t) then t\<lparr>dt_day := dt_day t + 1\<rparr>
      else if dt_month t < 12 then t\<lparr>dt_month := dt_month t + 1, dt_day := 1\<rparr>
      else t\<lparr>dt_year := dt_year t + 1, dt_month := 1, dt_day := 1\<rparr>)"

definition prev_day :: "datetime \<Rightarrow> datetime" where
  "prev_day t =
     (if 1 < dt_day t then t\<lparr>dt_day := dt_day t - 1\<rparr>
      else if 1 < dt_month t
        then t\<lparr>dt_month := dt_month t - 1, dt_day := days_in (dt_month t - 1) (dt_year t)\<rparr>
      else t\<lparr>dt_year := dt_year t - 1, dt_month := 12, dt_day := 31\<rparr>)"

fun shift_days :: "nat \<Rightarrow> bool \<Rightarrow> datetime \<Rightarrow> datetime" where
  "shift_days 0 fwd t = t"
| "shift_days (Suc n) fwd t = shift_days n fwd (if fwd then next_day t else prev_day t)"

text \<open>Adding a number of minutes to an instant (\<open>Time.addSec\<close> with a zone offset).\<close>

definition add_minutes :: "int \<Rightarrow> datetime \<Rightarrow> datetime" where
  "add_minutes k t =
     (let total = int (dt_hour t * 60 + dt_minute t) + k;
          d = total div 1440; r = nat (total mod 1440);
          t' = t\<lparr>dt_hour := r div 60, dt_minute := r mod 60\<rparr>
      in if 0 \<le> d then shift_days (nat d) True t' else shift_days (nat (- d)) False t')"

definition datetime_wf :: "datetime \<Rightarrow> bool" where
  "datetime_wf t \<longleftrightarrow> 1 \<le> dt_month t \<and> dt_month t \<le> 12 \<and>
     1 \<le> dt_day t \<and> dt_day t \<le> days_in (dt_month t) (dt_year t) \<and>
     dt_hour t < 24 \<and> dt_minute t < 60 \<and> dt_second t < 60 \<and> dt_nanos t < 10 ^ 9"

section \<open>time.Parse\<close>

text \<open>A layout is its chunks; a literal is one byte of the layout text.\<close>

datatype layout_item = LYear | LMonth | LDay | LHour | LMinute | LSecond
  | LFrac9 | LFrac0 nat | LZone | LLit char

definition rfc3339_nano :: "layout_item list" where
  "rfc3339_nano =
     [LYear, LLit CHR ''-'', LMonth, LLit CHR ''-'', LDay, LLit CHR ''T'',
      LHour, LLit CHR '':'', LMinute, LLit CHR '':'', LSecond, LFrac9, LZone]"

definition plain_layout :: "layout_item list" where
  "plain_layout =
     [LYear, LLit CHR ''-'', LMonth, LLit CHR ''-'', LDay, LLit CHR '' '',
      LHour, LLit CHR '':'', LMinute, LLit CHR '':'', LSecond]"

definition utc_layout :: "layout_item list" where
  "utc_layout = plain_layout @ map LLit '' UTC''"

definition date_layout :: "layout_item list" where
  "date_layout = [LYear, LLit CHR ''-'', LMonth, LLit CHR ''-'', LDay]"

definition timestamp_layout :: "layout_item list" where
  "timestamp_layout =
     [LYear, LLit CHR ''-'', LMonth, LLit CHR ''-'', LDay, LLit CHR ''T'',
      LHour, LLit CHR '':'', LMinute, LLit CHR '':'', LSecond, LFrac0 3, LLit CHR ''Z'']"

text \<open>One or two digits, or exactly two when \<open>fixed\<close> (\<open>getnum\<close>).\<close>

fun get_num :: "string \<Rightarrow> bool \<Rightarrow> (nat \<times> string) option" where
  "get_num (a # b # s) fixed =
     (if \<not> is_digit a then None
      else if is_digit b then Some (10 * digit_val a + digit_val b, s)
      else if fixed then None else Some (digit_val a, b # s))"
| "get_num [a] fixed = (if is_digit a \<and> \<not> fixed then Some (digit_val a, []) else None)"
| "get_num [] fixed = None"

definition ranged :: "(nat \<times> string) option \<Rightarrow> nat \<Rightarrow> nat \<Rightarrow> (nat \<times> string) option" where
  "ranged r lo hi =
     (case r of None \<Rightarrow> None
      | Some (n, s) \<Rightarrow> if lo \<le> n \<and> n \<le> hi then Some (n, s) else None)"

definition get_year :: "string \<Rightarrow> (nat \<times> string) option" where
  "get_year s =
     (if 4 \<le> length s \<and> list_all is_digit (take 4 s)
      then Some (nat_of_digits 0 (take 4 s), drop 4 s) else None)"

definition comma_or_period :: "char \<Rightarrow> bool" where
  "comma_or_period c \<longleftrightarrow> c = CHR ''.'' \<or> c = CHR '',''"

text \<open>The digits after the separator as nanoseconds; digits past the ninth are dropped.\<close>

definition nanos_of :: "string \<Rightarrow> nat" where
  "nanos_of ds = nat_of_digits 0 (take 9 ds) * 10 ^ (9 - length (take 9 ds))"

text \<open>An optional fraction: separator and at least one digit, else nothing is consumed.\<close>

definition get_fraction :: "string \<Rightarrow> (nat \<times> string) option" where
  "get_fraction s =
     (case s of
        c # d # r \<Rightarrow>
          if comma_or_period c \<and> is_digit d
          then Some (nanos_of (takeWhile is_digit (d # r)), dropWhile is_digit (d # r))
          else None
      | _ \<Rightarrow> None)"

definition get_zone :: "string \<Rightarrow> (int \<times> string) option" where
  "get_zone s =
     (case s of [] \<Rightarrow> None
      | z # r \<Rightarrow>
          if z = CHR ''Z'' then Some (0, r)
          else if length s < 6 \<or> s ! 3 \<noteq> CHR '':'' then None
          else (case (get_num (take 2 (drop 1 s)) True, get_num (take 2 (drop 4 s)) True) of
                  (Some (hr, _), Some (mm, _)) \<Rightarrow>
                    if 24 < hr \<or> 60 < mm then None
                    else if z = CHR ''+'' then Some (int (hr * 60 + mm), drop 6 s)
                    else if z = CHR ''-'' then Some (- int (hr * 60 + mm), drop 6 s)
                    else None
                | _ \<Rightarrow> None))"

definition cut_space :: "string \<Rightarrow> string" where
  "cut_space s = dropWhile (\<lambda>c. c = CHR '' '') s"

text \<open>
  The literal byte \<open>c\<close> of a layout against the value: a space of the layout matches any
  run of spaces, none at the end of the value.
\<close>

definition skip_lit :: "char \<Rightarrow> string \<Rightarrow> string option" where
  "skip_lit c s =
     (if c = CHR '' '' then (if s \<noteq> [] \<and> hd s \<noteq> CHR '' '' then None else Some (cut_space s))
      else (case s of [] \<Rightarrow> None | d # r \<Rightarrow> if d = c then Some r else None))"

fun has_fraction_item :: "layout_item list \<Rightarrow> bool" where
  "has_fraction_item [] = False"
| "has_fraction_item (LLit c # l) = has_fraction_item l"
| "has_fraction_item (LFrac9 # l) = True"
| "has_fraction_item (LFrac0 n # l) = True"
| "has_fraction_item (i # l) = False"

text \<open>The chunks in order; the second component is the zone offset in minutes.\<close>

fun parse_items :: "layout_item list \<Rightarrow> string \<Rightarrow> datetime \<times> int \<Rightarrow> (datetime \<times> int) option" where
  "parse_items [] s st = (if s = [] then Some st else None)"
| "parse_items (LLit c # l) s st =
     (case skip_lit c s of None \<Rightarrow> None | Some r \<Rightarrow> parse_items l r st)"
| "parse_items (LYear # l) s (t, z) =
     (case get_year s of None \<Rightarrow> None | Some (n, r) \<Rightarrow> parse_items l r (t\<lparr>dt_year := int n\<rparr>, z))"
| "parse_items (LMonth # l) s (t, z) =
     (case ranged (get_num s True) 1 12 of None \<Rightarrow> None
      | Some (n, r) \<Rightarrow> parse_items l r (t\<lparr>dt_month := n\<rparr>, z))"
| "parse_items (LDay # l) s (t, z) =
     (case get_num s True of None \<Rightarrow> None | Some (n, r) \<Rightarrow> parse_items l r (t\<lparr>dt_day := n\<rparr>, z))"
| "parse_items (LHour # l) s (t, z) =
     (case ranged (get_num s False) 0 23 of None \<Rightarrow> None
      | Some (n, r) \<Rightarrow> parse_items l r (t\<lparr>dt_hour := n\<rparr>, z))"
| "parse_items (LMinute # l) s (t, z) =
     (case ranged (get_num s True) 0 59 of None \<Rightarrow> None
      | Some (n, r) \<Rightarrow> parse_items l r (t\<lparr>dt_minute := n\<rparr>, z))"
| "parse_items (LSecond # l) s (t, z) =
     (case ranged (get_num s True) 0 59 of None \<Rightarrow> None
      | Some (n, r) \<Rightarrow>
          (case (if has_fraction_item l then None else get_fraction r) of
             None \<Rightarrow> parse_items l r (t\<lparr>dt_second := n\<rparr>, z)
           | Some (f, r') \<Rightarrow> parse_items l r' (t\<lparr>dt_second := n, dt_nanos := f\<rparr>, z)))"
| "parse_items (LFrac9 # l) s (t, z) =
     (case get_fraction s of None \<Rightarrow> parse_items l s (t, z)
      | Some (f, r) \<Rightarrow> parse_items l r (t\<lparr>dt_nanos := f\<rparr>, z))"
| "parse_items (LFrac0 n # l) s (t, z) =
     (if length s < n + 1 \<or> \<not> comma_or_period (hd s) \<or> \<not> list_all is_digit (take n (tl s)) then None
      else parse_items l (drop (n + 1) s) (t\<lparr>dt_nanos := nanos_of (take n (tl s))\<rparr>, z))"
| "parse_items (LZone # l) s (t, z) =
     (case get_zone s of None \<Rightarrow> None | Some (z', r) \<Rightarrow> parse_items l r (t, z'))"

definition zero_time :: datetime where
  "zero_time = \<lparr>dt_year = 0, dt_month = 1, dt_day = 1, dt_hour = 0, dt_minute = 0,
                dt_second = 0, dt_nanos = 0\<rparr>"

text \<open>\<open>time.Parse(layout, value)\<close> followed by \<open>UTC()\<close>.\<close>

definition time_parse :: "layout_item list \<Rightarrow> string \<Rightarrow> datetime option" where
  "time_parse l s =
     (case parse_items l s (zero_time, 0) of None \<Rightarrow> None
      | Some (t, z) \<Rightarrow>
          if dt_day t < 1 \<or> days_in (dt_month t) (dt_year t) < dt_day t then None
          else Some (add_minutes (- z) t))"

section \<open>time.Format\<close>

definition pad2 :: "nat \<Rightarrow> string" where
  "pad2 n = pad_zero 2 (itoa n)"

definition fmt_year :: "int \<Rightarrow> string" where
  "fmt_year y = (if y < 0 then ''-'' else '''') @ pad_zero 4 (itoa (nat \<bar>y\<bar>))"

definition format_date :: "datetime \<Rightarrow> string" where
  "format_date t = fmt_year (dt_year t) @ ''-'' @ pad2 (dt_month t) @ ''-'' @ pad2 (dt_day t)"

definition format_timestamp :: "datetime \<Rightarrow> string" where
  "format_timestamp t =
     format_date t @ ''T'' @ pad2 (dt_hour t) @ '':'' @ pad2 (dt_minute t) @ '':'' @
     pad2 (dt_second t) @ ''.'' @ pad_zero 3 (itoa (dt_nanos t div 1000000)) @ ''Z''"

section \<open>The calendar keeps dates well formed\<close>

lemma days_in_bounds: "28 \<le> days_in m y" "days_in m y \<le> 31"
  by (auto simp: days_in_def)

lemma days_in_12 [simp]: "days_in 12 y = 31" "days_in (Suc 0) y = 31"
  by (auto simp: days_in_def)

lemma next_day_wf [wf_intros]: "datetime_wf t \<Longrightarrow> datetime_wf (next_day t)"
  using days_in_bounds(1) [of "dt_month t + 1" "dt_year t"]
  by (auto simp: datetime_wf_def next_day_def)

lemma prev_day_wf [wf_intros]: "datetime_wf t \<Longrightarrow> datetime_wf (prev_day t)"
  using days_in_bounds(1) [of "dt_month t - 1" "dt_year t"]
  by (auto simp: datetime_wf_def prev_day_def)

lemma shift_days_wf [wf_intros]: "datetime_wf t \<Longrightarrow> datetime_wf (shift_days n fwd t)"
  by (induction n fwd t rule: shift_days.induct) (simp_all add: next_day_wf prev_day_wf)

lemma clock_of_minutes: "r < 1440 \<Longrightarrow> r div 60 < (24::nat)"
  by (simp add: less_mult_imp_div_less)

lemma add_minutes_wf [wf_intros]:
  assumes "datetime_wf t"
  shows "datetime_wf (add_minutes k t)"
proof -
  let ?r = "nat ((int (dt_hour t * 60 + dt_minute t) + k) mod 1440)"
  have "?r < 1440" by simp
  then have "datetime_wf (t\<lparr>dt_hour := ?r div 60, dt_minute := ?r mod 60\<rparr>)"
    using assms clock_of_minutes [of ?r] by (simp add: datetime_wf_def)
  then show ?thesis
    by (simp add: add_minutes_def Let_def shift_days_wf)
qed

lemma add_minutes_0 [simp]:
  assumes "datetime_wf t"
  shows "add_minutes 0 t = t"
proof -
  let ?n = "dt_hour t * 60 + dt_minute t"
  have n: "?n < 1440" "?n div 60 = dt_hour t" "?n mod 60 = dt_minute t"
    using assms by (simp_all add: datetime_wf_def)
  then have "int ?n div 1440 = 0" "nat (int ?n mod 1440) = ?n"
    by (linarith, metis mod_less nat_int of_nat_mod of_nat_numeral)
  then show ?thesis
    using n by (simp only: add_minutes_def Let_def add_0_right) simp
qed

section \<open>Printing then parsing\<close>

lemma char_of_48: "char_of (48 :: nat) = CHR ''0''"
proof -
  have "of_char (CHR ''0'') = (48 :: nat)" by simp
  then show ?thesis by (metis char_of_char)
qed

lemma pad2_digits: "n < 100 \<Longrightarrow> pad2 n = [digit_char (n div 10), digit_char n]"
  by (auto simp: pad2_def pad_zero_def itoa.simps [of n] itoa.simps [of "n div 10"] digit_char_def
      char_of_48)

lemma get_num_pad2 [simp]: "n < 100 \<Longrightarrow> get_num (pad2 n @ s) f = Some (n, s)"
  by (simp add: pad2_digits) 

lemma digits_fixed: "n < 10 ^ Suc k \<Longrightarrow> list_all is_digit (pad_zero (Suc k) (itoa n)) \<and>
    length (pad_zero (Suc k) (itoa n)) = Suc k"
  by (simp add: pad_zero_digits length_pad_zero length_itoa)

lemma get_year_fmt [simp]:
  assumes "0 \<le> y" "y \<le> 9999"
  shows "get_year (fmt_year y @ s) = Some (nat y, s)"
proof -
  have "nat y < 10 ^ Suc 3" using assms by simp
  from digits_fixed [OF this] show ?thesis
    using assms by (simp add: get_year_def fmt_year_def)
qed

lemma takeWhile_digits: "list_all is_digit ds \<Longrightarrow> \<not> is_digit c \<Longrightarrow>
   takeWhile is_digit (ds @ c # s) = ds \<and> dropWhile is_digit (ds @ c # s) = c # s"
  by (induction ds) auto

lemma not_digit_Z [simp]: "\<not> is_digit CHR ''Z''"
  by (simp add: is_digit_def)

lemma nanos_of_millis:
  "k < 1000 \<Longrightarrow> nanos_of (pad_zero 3 (itoa k)) = k * 1000000"
  using digits_fixed [of k 2] by (simp add: nanos_of_def numeral_3_eq_3)

lemma get_fraction_millis:
  assumes "k < 1000"
  shows "get_fraction (CHR ''.'' # pad_zero 3 (itoa k) @ ''Z'') = Some (k * 1000000, ''Z'')"
proof -
  have d: "list_all is_digit (pad_zero 3 (itoa k))" "length (pad_zero 3 (itoa k)) = 3"
    using digits_fixed [of k 2] assms by (simp_all add: numeral_3_eq_3)
  obtain c ds where cs: "pad_zero 3 (itoa k) = c # ds"
    using d(2) by (cases "pad_zero 3 (itoa k)") auto
  have "takeWhile is_digit (c # ds @ ''Z'') = c # ds \<and> dropWhile is_digit (c # ds @ ''Z'') = ''Z''"
    using takeWhile_digits [of "c # ds" "CHR ''Z''" "[]"] d(1) cs by simp
  then show ?thesis
    using d(1) nanos_of_millis [OF assms] by (simp add: get_fraction_def comma_or_period_def cs)
qed

lemma fmt_year_Cons: "0 \<le> y \<Longrightarrow> fmt_year y = pad_zero 4 (itoa (nat y))"
  by (simp add: fmt_year_def)

text \<open>Canonical timestamps are read back exactly, up to the milliseconds they keep.\<close>

definition to_millis :: "datetime \<Rightarrow> datetime" where
  "to_millis t = t\<lparr>dt_nanos := dt_nanos t div 1000000 * 1000000\<rparr>"

lemma zero_time_upd: "zero_time\<lparr>dt_year := y, dt_month := m, dt_day := d, dt_hour := h,
    dt_minute := mi, dt_second := s, dt_nanos := n\<rparr> =
  \<lparr>dt_year = y, dt_month = m, dt_day = d, dt_hour = h, dt_minute = mi, dt_second = s, dt_nanos = n\<rparr>"
  by (simp add: zero_time_def)

lemma parse_format_items:
  assumes wf: "datetime_wf t" and y: "0 \<le> dt_year t" "dt_year t \<le> 9999"
  shows "parse_items rfc3339_nano (format_timestamp t) (zero_time, 0) = Some (to_millis t, 0)"
proof -
  have b: "dt_month t < 100" "dt_day t < 100" "dt_hour t < 100" "dt_minute t < 100" "dt_second t < 100"
    "dt_nanos t div 1000000 < 1000" "dt_day t \<le> 31"
    using wf days_in_bounds(2) [of "dt_month t" "dt_year t"]
    by (auto simp: datetime_wf_def less_mult_imp_div_less)
  have "zero_time\<lparr>dt_year := dt_year t, dt_month := dt_month t, dt_day := dt_day t, dt_hour := dt_hour t,
      dt_minute := dt_minute t, dt_second := dt_second t,
      dt_nanos := dt_nanos t div 1000000 * 1000000\<rparr> = to_millis t"
    by (cases t) (simp add: zero_time_def to_millis_def)
  then show ?thesis
    using wf y b
    by (simp add: rfc3339_nano_def format_timestamp_def format_date_def skip_lit_def ranged_def
        get_fraction_millis get_zone_def datetime_wf_def)
qed

lemma to_millis_wf [wf_intros]: "datetime_wf t \<Longrightarrow> datetime_wf (to_millis t)"
  by (auto simp: datetime_wf_def to_millis_def)

lemma to_millis_sel [simp]:
  "dt_year (to_millis t) = dt_year t" "dt_month (to_millis t) = dt_month t"
  "dt_day (to_millis t) = dt_day t"
  by (simp_all add: to_millis_def)

lemma format_to_millis [simp]: "format_timestamp (to_millis t) = format_timestamp t"
  by (simp add: format_timestamp_def format_date_def to_millis_def)

theorem time_parse_format:
  assumes "datetime_wf t" "0 \<le> dt_year t" "dt_year t \<le> 9999"
  shows "time_parse rfc3339_nano (format_timestamp t) = Some (to_millis t)"
  using parse_format_items [OF assms] assms(1) to_millis_wf [OF assms(1)]
  by (simp add: time_parse_def datetime_wf_def)

end
