(* ===== verification/Documents.thy ===== *)
theory Documents
  imports Go_Time "HOL-Library.Multiset"
begin

text \<open>
  The document model of \<open>model/model.go\<close> and \<open>model/canonical.go\<close>: plans and stories
  share one shape, a front matter and Markdown content. Here are the records, the
  identifier patterns (the regular expressions as recognisers over bytes), the file names,
  the order on section numbers, the links, and the normal forms of timestamps, dates and
  ids. A nil and an empty slice or map of the source are the same empty list here; a
  pointer that can be nil is an \<open>option\<close>. The deep copies (\<open>Clone\<close>) are the identity on
  values.
\<close>

record link =
  link_id :: string
  link_relation :: string
  link_sections :: "string list"

record repo =
  repo_remote :: string
  repo_local :: string
  repo_pull_request :: string
  repo_files :: "string list"

record links =
  ln_repo :: "repo option"
  ln_specs :: "string list"
  ln_web :: "(string, string) omap"
  ln_stories :: "link list"
  ln_plans :: "link list"

record progress_entry =
  pe_status :: string
  pe_stories :: "string list"

type_synonym progress = "(string, progress_entry) omap"

record front_matter =
  fm_id :: string
  fm_title :: string
  fm_purpose :: string
  fm_type :: string
  fm_status :: string
  fm_priority :: string
  fm_effort :: string
  fm_created :: string
  fm_updated :: string
  fm_started :: string
  fm_completed :: string
  fm_tags :: "string list"
  fm_milestone :: string
  fm_due_date :: string
  fm_planned_start :: string
  fm_planned_end :: string
  fm_order :: int
  fm_assignee :: string
  fm_links :: "links option"
  fm_progress :: progress

record document =
  doc_kind :: string
  doc_path :: string
  doc_fm :: front_matter
  doc_content :: string

record template =
  tm_kind :: string
  tm_id :: string
  tm_content :: string
  tm_updated :: string

definition doc_id :: "document \<Rightarrow> string" where
  "doc_id d = fm_id (doc_fm d)"

section \<open>Links\<close>

definition empty_repo :: repo where
  "empty_repo = \<lparr>repo_remote = '''', repo_local = '''', repo_pull_request = '''', repo_files = []\<rparr>"

definition empty_links :: links where
  "empty_links = \<lparr>ln_repo = None, ln_specs = [], ln_web = [], ln_stories = [], ln_plans = []\<rparr>"

definition repo_is_empty :: "repo \<Rightarrow> bool" where
  "repo_is_empty r \<longleftrightarrow>
     repo_remote r = '''' \<and> repo_local r = '''' \<and> repo_pull_request r = '''' \<and> repo_files r = []"

definition links_is_empty :: "links \<Rightarrow> bool" where
  "links_is_empty l \<longleftrightarrow>
     ln_repo l = None \<and> ln_specs l = [] \<and> ln_web l = [] \<and> ln_stories l = [] \<and> ln_plans l = []"

definition link_same :: "link \<Rightarrow> link \<Rightarrow> bool" where
  "link_same l x \<longleftrightarrow> link_id l = link_id x \<and> link_relation l = link_relation x"

definition plan_links :: "front_matter \<Rightarrow> link list" where
  "plan_links f = (case fm_links f of None \<Rightarrow> [] | Some l \<Rightarrow> ln_plans l)"

definition story_links :: "front_matter \<Rightarrow> link list" where
  "story_links f = (case fm_links f of None \<Rightarrow> [] | Some l \<Rightarrow> ln_stories l)"

text \<open>An empty list drops the links object when nothing else is in it.\<close>

definition set_plan_links :: "link list \<Rightarrow> front_matter \<Rightarrow> front_matter" where
  "set_plan_links ls f =
     (if ls = [] then
        (case fm_links f of None \<Rightarrow> f
         | Some l \<Rightarrow>
             let l' = l\<lparr>ln_plans := []\<rparr>
             in f\<lparr>fm_links := (if links_is_empty l' then None else Some l')\<rparr>)
      else
        (let l = (case fm_links f of None \<Rightarrow> empty_links | Some l \<Rightarrow> l)
         in f\<lparr>fm_links := Some (l\<lparr>ln_plans := ls\<rparr>)\<rparr>))"

definition set_story_links :: "link list \<Rightarrow> front_matter \<Rightarrow> front_matter" where
  "set_story_links ls f =
     (if ls = [] then
        (case fm_links f of None \<Rightarrow> f
         | Some l \<Rightarrow>
             let l' = l\<lparr>ln_stories := []\<rparr>
             in f\<lparr>fm_links := (if links_is_empty l' then None else Some l')\<rparr>)
      else
        (let l = (case fm_links f of None \<Rightarrow> empty_links | Some l \<Rightarrow> l)
         in f\<lparr>fm_links := Some (l\<lparr>ln_stories := ls\<rparr>)\<rparr>))"

text \<open>\<open>Link.set\<close>: both parts and every section non-blank, else an error.\<close>

definition link_set :: "string \<Rightarrow> string \<Rightarrow> string list \<Rightarrow> link option" where
  "link_set i r ss =
     (if trim_space i = '''' \<or> trim_space r = '''' then None
      else if list_ex (\<lambda>s. trim_space s = '''') ss then None
      else Some \<lparr>link_id = i, link_relation = r, link_sections = ss\<rparr>)"

section \<open>Identifier patterns\<close>

definition id_re :: "string \<Rightarrow> bool" where
  "id_re s \<longleftrightarrow>
     length s = 8 \<and> list_all is_digit (take 4 s) \<and> s ! 4 = CHR ''-'' \<and>
     list_all is_lower_alnum (drop 5 s)"

definition number_part :: "string \<Rightarrow> bool" where
  "number_part p \<longleftrightarrow> p \<noteq> [] \<and> list_all is_digit p"

definition section_number_re :: "string \<Rightarrow> bool" where
  "section_number_re s \<longleftrightarrow>
     (let ps = split_on CHR ''.'' s in length ps \<le> 2 \<and> list_all number_part ps)"

definition step_number_re :: "string \<Rightarrow> bool" where
  "step_number_re s \<longleftrightarrow> list_all number_part (split_on CHR ''.'' s)"

definition slug_re :: "string \<Rightarrow> bool" where
  "slug_re s \<longleftrightarrow> list_all (\<lambda>p. p \<noteq> [] \<and> list_all is_lower_alnum p) (split_on CHR ''-'' s)"

definition is_upper :: "char \<Rightarrow> bool" where
  "is_upper c \<longleftrightarrow> CHR ''A'' \<le> c \<and> c \<le> CHR ''Z''"

definition is_alnum :: "char \<Rightarrow> bool" where
  "is_alnum c \<longleftrightarrow> is_lower_alnum c \<or> is_upper c"

text \<open>A sequence part of one to three digits (\<open>shortIDRe\<close>): the digits and the suffix.\<close>

definition short_id_re :: "string \<Rightarrow> (string \<times> string) option" where
  "short_id_re s =
     (let n = length s - 4; ds = take n s; r = drop n s
      in if 5 \<le> length s \<and> length s \<le> 7 \<and> list_all is_digit ds \<and> hd r = CHR ''-'' \<and>
            list_all is_lower_alnum (tl r)
         then Some (ds, tl r) else None)"

definition normalize_id :: "string \<Rightarrow> string" where
  "normalize_id i =
     (case short_id_re i of None \<Rightarrow> i | Some (ds, sfx) \<Rightarrow> pad_zero 4 ds @ ''-'' @ sfx)"

definition sequence_of :: "string \<Rightarrow> int" where
  "sequence_of i = (if length i < 4 then 0 else case atoi (take 4 i) of None \<Rightarrow> 0 | Some n \<Rightarrow> n)"

section \<open>File names and slugs\<close>

definition base_name :: "string \<Rightarrow> string" where
  "base_name s = rev (takeWhile (\<lambda>c. c \<noteq> CHR ''/'' \<and> c \<noteq> CHR 0x5C) (rev s))"

text \<open>\<open>FileNameRe\<close>: id, type and slug of \<open>AAAA-BBB-CCCC-slug.md\<close>.\<close>

definition file_name_re :: "string \<Rightarrow> (string \<times> string \<times> string) option" where
  "file_name_re b =
     (if id_re (take 8 b) \<and> has_prefix (drop 8 b) ''-'' then
        (let rest = drop 9 b;
             typ = takeWhile (\<lambda>c. c \<noteq> CHR ''-'') rest;
             tail = drop (length typ) rest
         in if 2 \<le> length typ \<and> length typ \<le> 8 \<and> list_all is_alnum typ \<and>
               has_prefix tail ''-'' \<and> has_suffix tail ''.md'' \<and>
               slug_re (take (length tail - 4) (drop 1 tail))
            then Some (take 8 b, typ, take (length tail - 4) (drop 1 tail)) else None)
      else None)"

definition parse_file_name :: "string \<Rightarrow> (string \<times> string \<times> string) option" where
  "parse_file_name name =
     (case file_name_re (base_name name) of None \<Rightarrow> None
      | Some (i, typ, slug) \<Rightarrow> Some (i, to_lower typ, slug))"

definition file_name :: "string \<Rightarrow> string \<Rightarrow> string \<Rightarrow> string" where
  "file_name i typ slug = i @ ''-'' @ to_lower typ @ ''-'' @ slug @ ''.md''"

fun slug_chars :: "bool \<Rightarrow> string \<Rightarrow> string" where
  "slug_chars last_hyphen [] = []"
| "slug_chars last_hyphen (c # s) =
     (if is_lower_alnum c then c # slug_chars False s
      else if \<not> last_hyphen then CHR ''-'' # slug_chars True s
      else slug_chars True s)"

definition slugify :: "string \<Rightarrow> string" where
  "slugify title =
     (let s = trim_right (slug_chars True (to_lower title)) ''-''
      in if s = '''' then ''untitled'' else s)"

section \<open>The order on section numbers\<close>

definition str_compare :: "string \<Rightarrow> string \<Rightarrow> int" where
  "str_compare a b = (if a < b then -1 else if a = b then 0 else 1)"

fun compare_parts :: "string list \<Rightarrow> string list \<Rightarrow> int option" where
  "compare_parts (x # xs) (y # ys) =
     (case (atoi x, atoi y) of
        (Some a, Some b) \<Rightarrow>
          if a \<noteq> b then Some (if a < b then -1 else 1) else compare_parts xs ys
      | _ \<Rightarrow> if str_compare x y \<noteq> 0 then Some (str_compare x y) else compare_parts xs ys)"
| "compare_parts _ _ = None"

definition compare_sections :: "string \<Rightarrow> string \<Rightarrow> int" where
  "compare_sections a b =
     (let pa = split_on CHR ''.'' a; pb = split_on CHR ''.'' b
      in case compare_parts pa pb of Some c \<Rightarrow> c
         | None \<Rightarrow> int (length pa) - int (length pb))"

fun insert_section :: "string \<Rightarrow> string list \<Rightarrow> string list" where
  "insert_section x [] = [x]"
| "insert_section x (y # ys) =
     (if compare_sections y x < 0 then y # insert_section x ys else x # y # ys)"

fun sort_sections :: "string list \<Rightarrow> string list" where
  "sort_sections [] = []"
| "sort_sections (x # xs) = insert_section x (sort_sections xs)"

definition sorted_keys :: "progress \<Rightarrow> string list" where
  "sorted_keys p = sort_sections (om_keys p)"

section \<open>Normal forms of timestamps, dates and ids\<close>

text \<open>\<open>None\<close> is an error; the caller then keeps the value it had.\<close>

fun first_parse :: "layout_item list list \<Rightarrow> string \<Rightarrow> datetime option" where
  "first_parse [] s = None"
| "first_parse (l # ls) s = (case time_parse l s of Some t \<Rightarrow> Some t | None \<Rightarrow> first_parse ls s)"

definition upper_separators :: "string \<Rightarrow> string" where
  "upper_separators s =
     (let s1 = (if 10 < length s \<and> s ! 10 = CHR ''t'' then take 10 s @ ''T'' @ drop 11 s else s)
      in if has_suffix s1 ''z'' then butlast s1 @ ''Z'' else s1)"

definition normalize_timestamp :: "string \<Rightarrow> string option" where
  "normalize_timestamp s =
     (if s = '''' then Some ''''
      else map_option format_timestamp
        (first_parse [rfc3339_nano, utc_layout, plain_layout, date_layout] (upper_separators s)))"

definition normalize_date :: "string \<Rightarrow> string option" where
  "normalize_date s0 =
     (let s = trim_space s0
      in if s = '''' then Some ''''
         else (case normalize_timestamp s of None \<Rightarrow> None
               | Some ts \<Rightarrow> map_option format_date (time_parse timestamp_layout ts)))"

text \<open>Rewrites the value when it parses and keeps it when it does not.\<close>

definition norm_or_keep :: "(string \<Rightarrow> string option) \<Rightarrow> string \<Rightarrow> string" where
  "norm_or_keep f s = (case f s of Some n \<Rightarrow> n | None \<Rightarrow> s)"

definition fm_normalize_dates :: "front_matter \<Rightarrow> front_matter" where
  "fm_normalize_dates f =
     f\<lparr>fm_due_date := norm_or_keep normalize_date (fm_due_date f),
       fm_planned_start := norm_or_keep normalize_date (fm_planned_start f),
       fm_planned_end := norm_or_keep normalize_date (fm_planned_end f)\<rparr>"

definition fm_normalize_timestamps :: "front_matter \<Rightarrow> front_matter" where
  "fm_normalize_timestamps f =
     f\<lparr>fm_created := norm_or_keep normalize_timestamp (fm_created f),
       fm_updated := norm_or_keep normalize_timestamp (fm_updated f),
       fm_started := norm_or_keep normalize_timestamp (fm_started f),
       fm_completed := norm_or_keep normalize_timestamp (fm_completed f)\<rparr>"

definition link_normalize :: "link \<Rightarrow> link" where
  "link_normalize l = l\<lparr>link_id := normalize_id (link_id l)\<rparr>"

definition links_normalize_ids :: "links \<Rightarrow> links" where
  "links_normalize_ids l =
     l\<lparr>ln_stories := map link_normalize (ln_stories l), ln_plans := map link_normalize (ln_plans l)\<rparr>"

definition entry_normalize :: "progress_entry \<Rightarrow> progress_entry" where
  "entry_normalize e = e\<lparr>pe_stories := map normalize_id (pe_stories e)\<rparr>"

definition fm_normalize_ids :: "front_matter \<Rightarrow> front_matter" where
  "fm_normalize_ids f =
     f\<lparr>fm_links := map_option links_normalize_ids (fm_links f),
       fm_progress := om_map entry_normalize (fm_progress f)\<rparr>"

section \<open>Canonical ids for file names and query filters\<close>

definition id_alphabet :: string where
  "id_alphabet = ''abcdefghijklmnopqrstuvwxyz0123456789-''"

definition template_id_alphabet :: string where
  "template_id_alphabet = ''ABCDEFGHIJKLMNOPQRSTUVWXYZabcdefghijklmnopqrstuvwxyz0123456789._-''"

definition template_id_re :: "string \<Rightarrow> bool" where
  "template_id_re s \<longleftrightarrow>
     s \<noteq> [] \<and> length s \<le> 200 \<and> is_alnum (hd s) \<and>
     list_all (\<lambda>c. is_alnum c \<or> c = CHR ''.'' \<or> c = CHR ''_'' \<or> c = CHR ''-'') (tl s)"

fun index_byte :: "string \<Rightarrow> char \<Rightarrow> nat option" where
  "index_byte [] c = None"
| "index_byte (x # xs) c = (if x = c then Some 0 else map_option Suc (index_byte xs c))"

fun rebuild :: "string \<Rightarrow> string \<Rightarrow> string option" where
  "rebuild [] alphabet = Some []"
| "rebuild (c # s) alphabet =
     (case index_byte alphabet c of None \<Rightarrow> None
      | Some j \<Rightarrow> map_option (\<lambda>r. alphabet ! j # r) (rebuild s alphabet))"

definition canonical_id :: "string \<Rightarrow> string option" where
  "canonical_id i = (if id_re i then rebuild i id_alphabet else None)"

definition canonical_template_id :: "string \<Rightarrow> string option" where
  "canonical_template_id i = (if template_id_re i then rebuild i template_id_alphabet else None)"

section \<open>Facts: parsed instants are well formed\<close>

definition clock_wf :: "datetime \<Rightarrow> bool" where
  "clock_wf t \<longleftrightarrow> 1 \<le> dt_month t \<and> dt_month t \<le> 12 \<and> dt_hour t < 24 \<and> dt_minute t < 60 \<and>
     dt_second t < 60 \<and> dt_nanos t < 10 ^ 9"

lemma digit_val_less: "is_digit c \<Longrightarrow> digit_val c < 10"
  by (auto simp: is_digit_iff digit_val_def)

lemma nat_of_digits_less:
  "list_all is_digit s \<Longrightarrow> acc < a \<Longrightarrow> nat_of_digits acc s < a * 10 ^ length s"
proof (induction acc s arbitrary: a rule: nat_of_digits.induct)
  case (2 acc c s)
  have "10 * acc + digit_val c < 10 * a"
    using 2 digit_val_less [of c] by simp
  then show ?case using "2.IH" [of "10 * a"] 2 by (simp add: mult.assoc mult.left_commute)
qed simp

lemma nanos_of_less: "list_all is_digit ds \<Longrightarrow> nanos_of ds < 10 ^ 9"
proof -
  assume ds: "list_all is_digit ds"
  let ?l = "length (take 9 ds)"
  have "nat_of_digits 0 (take 9 ds) < 1 * 10 ^ ?l"
    using ds by (intro nat_of_digits_less) (auto simp: list_all_iff dest: in_set_takeD)
  then have "nanos_of ds < 10 ^ ?l * 10 ^ (9 - ?l)"
    unfolding nanos_of_def by (intro mult_strict_right_mono) auto
  also have "\<dots> = (10 :: nat) ^ 9"
    by (simp flip: power_add)
  finally show ?thesis .
qed

lemma get_fraction_less: "get_fraction s = Some (f, r) \<Longrightarrow> f < 10 ^ 9"
proof -
  have "list_all is_digit (takeWhile is_digit x)" for x
    by (auto simp: list_all_iff dest: set_takeWhileD)
  then show "get_fraction s = Some (f, r) \<Longrightarrow> f < 10 ^ 9"
    using nanos_of_less
    by (auto simp: get_fraction_def split: list.splits if_splits)
qed

lemma ranged_Some: "ranged r lo hi = Some (n, s) \<Longrightarrow> r = Some (n, s) \<and> lo \<le> n \<and> n \<le> hi"
  by (auto simp: ranged_def split: option.splits if_splits)

lemma parse_items_clock_wf:
  "parse_items l s st = Some (t', z') \<Longrightarrow> clock_wf (fst st) \<Longrightarrow> clock_wf t'"
proof (induction l s st rule: parse_items.induct)
  case (8 l s t z)
  then show ?case
    by (fastforce simp: clock_wf_def dest: ranged_Some get_fraction_less split: option.splits if_splits)
next
  case (10 n l s t z)
  then show ?case
    by (auto simp: clock_wf_def dest: nanos_of_less split: option.splits if_splits)
qed (auto simp: clock_wf_def dest: ranged_Some get_fraction_less split: option.splits if_splits)

lemma time_parse_wf [wf_intros]: "time_parse l s = Some t \<Longrightarrow> datetime_wf t"
proof -
  assume p: "time_parse l s = Some t"
  then obtain u z where u: "parse_items l s (zero_time, 0) = Some (u, z)"
    and d: "\<not> (dt_day u < 1 \<or> days_in (dt_month u) (dt_year u) < dt_day u)" "t = add_minutes (- z) u"
    by (auto simp: time_parse_def split: option.splits prod.splits if_splits)
  have "clock_wf u"
    using parse_items_clock_wf [OF u] by (simp add: clock_wf_def zero_time_def)
  then have "datetime_wf u" using d by (auto simp: clock_wf_def datetime_wf_def)
  then show ?thesis using d by (simp add: add_minutes_wf)
qed

lemma first_parse_wf: "first_parse ls s = Some t \<Longrightarrow> datetime_wf t"
  by (induction ls s rule: first_parse.induct) (auto split: option.splits intro: time_parse_wf)

section \<open>Facts: the normal forms are stable\<close>

lemma set_digits: "set (itoa n) \<subseteq> {c. is_digit c}"
  using itoa_all_digits [of n] by (auto simp: list_all_iff)

lemma set_pad_zero: "set (pad_zero w (itoa n)) \<subseteq> {c. is_digit c}"
  using set_digits [of n] by (auto simp: pad_zero_def is_digit_def)

lemma set_format_date: "set (format_date t) \<subseteq> insert CHR ''-'' {c. is_digit c}"
  using set_pad_zero by (auto simp: format_date_def fmt_year_def pad2_def split: if_splits)

lemma set_format_timestamp:
  "set (format_timestamp t) \<subseteq> {CHR ''-'', CHR '':'', CHR ''.'', CHR ''T'', CHR ''Z''} \<union> {c. is_digit c}"
  using set_pad_zero set_format_date [of t]
  by (auto simp: format_timestamp_def pad2_def)

lemma small_letters_not_digits [simp]: "\<not> is_digit CHR ''t''" "\<not> is_digit CHR ''z''" "\<not> is_digit CHR ''-''"
  by (simp_all add: is_digit_def)

lemma has_suffix_last: "has_suffix s [c] \<longleftrightarrow> s \<noteq> [] \<and> last s = c"
  by (cases s rule: rev_cases) (auto simp: has_suffix_iff)

lemma upper_separators_id:
  "CHR ''t'' \<notin> set s \<Longrightarrow> CHR ''z'' \<notin> set s \<Longrightarrow> upper_separators s = s"
proof -
  assume a: "CHR ''t'' \<notin> set s" "CHR ''z'' \<notin> set s"
  then have "10 < length s \<Longrightarrow> s ! 10 \<noteq> CHR ''t''" by (metis nth_mem)
  moreover from a have "s \<noteq> [] \<Longrightarrow> last s \<noteq> CHR ''z''" by (metis last_in_set)
  ultimately show ?thesis by (auto simp: upper_separators_def Let_def has_suffix_last)
qed

lemma upper_separators_format [simp]:
  "upper_separators (format_timestamp t) = format_timestamp t"
  "upper_separators (format_date t) = format_date t"
  using set_format_timestamp [of t] set_format_date [of t] small_letters_not_digits
  by (auto intro!: upper_separators_id)

text \<open>A year that does not fit in four digits is printed in a form no layout reads.\<close>

lemma get_year_negative: "y < 0 \<Longrightarrow> get_year (fmt_year y @ s) = None"
  by (simp add: get_year_def fmt_year_def take_Cons')

lemma itoa_long: "10000 \<le> n \<Longrightarrow> 5 \<le> length (itoa n)"
proof (rule ccontr)
  assume n: "10000 \<le> n" "\<not> 5 \<le> length (itoa n)"
  have "n < 10 ^ length (itoa n)"
    using nat_of_digits_less [of "itoa n" 0 1] by simp
  also have "\<dots> \<le> 10 ^ 4"
    using n by (intro power_increasing) auto
  finally show False using n by simp
qed

lemma get_year_long:
  assumes "9999 < y"
  shows "\<exists>n c r. get_year (fmt_year y @ s) = Some (n, c # r) \<and> is_digit c"
proof -
  let ?d = "itoa (nat y)"
  have len: "5 \<le> length ?d" using assms by (intro itoa_long) simp
  have fy: "fmt_year y @ s = ?d @ s" using assms len by (simp add: fmt_year_def pad_zero_def)
  obtain c r where cr: "drop 4 ?d = c # r" using len by (cases "drop 4 ?d") auto
  then have "c \<in> set ?d" by (metis in_set_dropD list.set_intros(1))
  then have "is_digit c" using set_digits [of "nat y"] by auto
  moreover have "list_all is_digit (take 4 ?d)"
    using set_digits [of "nat y"] by (auto simp: list_all_iff dest: in_set_takeD)
  ultimately show ?thesis
    unfolding fy using len cr by (simp add: get_year_def)
qed

lemma parse_year_out_of_range:
  assumes "\<not> (0 \<le> y \<and> y \<le> 9999)"
  shows "parse_items (LYear # LLit CHR ''-'' # l) (fmt_year y @ s) st = None"
proof (cases st)
  case (Pair t z)
  show ?thesis
  proof (cases "y < 0")
    case True
    then show ?thesis by (simp add: Pair get_year_negative)
  next
    case False
    then obtain n c r where "get_year (fmt_year y @ s) = Some (n, c # r)" "is_digit c"
      using assms get_year_long [of y s] by auto
    then show ?thesis by (auto simp: Pair skip_lit_def)
  qed
qed

definition date_first :: "layout_item list list" where
  "date_first = [rfc3339_nano, utc_layout, plain_layout, date_layout, timestamp_layout]"

lemma time_parse_out_of_range:
  assumes y: "\<not> (0 \<le> dt_year t \<and> dt_year t \<le> 9999)" and l: "l \<in> set date_first"
  shows "time_parse l (format_timestamp t) = None"
proof -
  obtain r where "l = LYear # LLit CHR ''-'' # r"
    using l by (auto simp: date_first_def rfc3339_nano_def utc_layout_def plain_layout_def
        date_layout_def timestamp_layout_def)
  then show ?thesis
    using parse_year_out_of_range [OF y]
    by (simp add: time_parse_def format_timestamp_def format_date_def del: parse_items.simps)
qed

lemma format_nonempty [simp]: "format_timestamp t \<noteq> []" "format_date t \<noteq> []"
  by (simp_all add: format_timestamp_def format_date_def)

lemma normalize_timestamp_format:
  assumes "datetime_wf t"
  shows "normalize_timestamp (format_timestamp t) =
    (if 0 \<le> dt_year t \<and> dt_year t \<le> 9999 then Some (format_timestamp t) else None)"
  using time_parse_format [OF assms] time_parse_out_of_range [of t]
  by (simp add: normalize_timestamp_def date_first_def)

lemma normalize_timestamp_cases:
  assumes "normalize_timestamp s = Some n"
  obtains "n = []" | t where "datetime_wf t" "n = format_timestamp t"
proof (cases "s = []")
  case True
  then show thesis using assms that(1) by (simp add: normalize_timestamp_def)
next
  case False
  then obtain t where "first_parse [rfc3339_nano, utc_layout, plain_layout, date_layout] (upper_separators s) = Some t"
    and "n = format_timestamp t"
    using assms by (auto simp: normalize_timestamp_def simp del: first_parse.simps)
  then show thesis using that(2) first_parse_wf by blast
qed

lemma norm_timestamp_idem [simp]:
  "norm_or_keep normalize_timestamp (norm_or_keep normalize_timestamp s) = norm_or_keep normalize_timestamp s"
proof (cases "normalize_timestamp s")
  case (Some n)
  then show ?thesis
  proof (cases rule: normalize_timestamp_cases)
    case 1
    then show ?thesis using Some by (simp add: norm_or_keep_def normalize_timestamp_def)
  next
    case (2 t)
    then show ?thesis using Some by (simp add: norm_or_keep_def normalize_timestamp_format)
  qed
qed (simp add: norm_or_keep_def)

text \<open>Dates: the canonical timestamp gives back its own day.\<close>

lemma trim_space_id_digits: "(\<And>c. c \<in> set s \<Longrightarrow> \<not> ascii_space c \<and> c < CHR 0x80) \<Longrightarrow> trim_space s = s"
proof -
  assume a: "\<And>c. c \<in> set s \<Longrightarrow> \<not> ascii_space c \<and> c < CHR 0x80"
  have "trim_left_space s = s"
    using a by (cases s) (auto simp: trim_left_space_id leads_space_def)
  moreover have "trim_runes (map rev unicode_spaces) (rev s) = rev s"
    using a by (subst trim_runes_id [OF unicode_spaces_nonempty(2)])
      (auto simp: leads_space_def split: list.splits dest: arg_cong [where f = set])
  ultimately show ?thesis by (simp add: trim_space_def trim_right_space_def)
qed

lemma digit_not_space: "is_digit c \<Longrightarrow> \<not> ascii_space c \<and> c < CHR 0x80"
  by (auto simp: is_digit_def ascii_space_def intro: le_less_trans)

lemma trim_format_date [simp]: "trim_space (format_date t) = format_date t"
  using set_format_date [of t] digit_not_space
  by (intro trim_space_id_digits) (auto simp: ascii_space_def)

lemma get_num_digit2 [simp]: "n < 100 \<Longrightarrow> get_num (pad2 n) f = Some (n, [])"
  using get_num_pad2 [of n "[]" f] by simp

definition midnight :: "datetime \<Rightarrow> datetime" where
  "midnight t = t\<lparr>dt_hour := 0, dt_minute := 0, dt_second := 0, dt_nanos := 0\<rparr>"

lemma midnight_wf [wf_intros]: "datetime_wf t \<Longrightarrow> datetime_wf (midnight t)"
  by (simp add: datetime_wf_def midnight_def)

lemma dt_year_midnight [simp]: "dt_year (midnight t) = dt_year t"
  by (simp add: midnight_def)

lemma format_date_midnight [simp]: "format_date (midnight t) = format_date t"
  by (simp add: format_date_def midnight_def)

lemma format_date_to_millis [simp]: "format_date (to_millis t) = format_date t"
  by (simp add: format_date_def)

lemma parse_date_layouts:
  assumes wf: "datetime_wf t" and y: "0 \<le> dt_year t" "dt_year t \<le> 9999"
  shows "time_parse rfc3339_nano (format_date t) = None"
    and "time_parse utc_layout (format_date t) = None"
    and "time_parse plain_layout (format_date t) = None"
    and "time_parse date_layout (format_date t) = Some (midnight t)"
proof -
  have b: "dt_month t < 100" "dt_day t < 100" "1 \<le> dt_month t" "dt_month t \<le> 12"
    using wf days_in_bounds(2) [of "dt_month t" "dt_year t"] by (auto simp: datetime_wf_def)
  note eval = time_parse_def format_date_def skip_lit_def ranged_def cut_space_def
  show "time_parse rfc3339_nano (format_date t) = None"
    using b y by (simp add: eval rfc3339_nano_def)
  show "time_parse utc_layout (format_date t) = None"
    using b y by (simp add: eval utc_layout_def plain_layout_def)
  show "time_parse plain_layout (format_date t) = None"
    using b y by (simp add: eval plain_layout_def)
  have "zero_time\<lparr>dt_year := dt_year t, dt_month := dt_month t, dt_day := dt_day t\<rparr> = midnight t"
    by (cases t) (simp add: zero_time_def midnight_def)
  then show "time_parse date_layout (format_date t) = Some (midnight t)"
    using b y wf midnight_wf [OF wf]
    by (simp add: eval date_layout_def datetime_wf_def)
qed

lemma parse_timestamp_layout:
  assumes wf: "datetime_wf t" and y: "0 \<le> dt_year t" "dt_year t \<le> 9999"
  shows "time_parse timestamp_layout (format_timestamp t) = Some (to_millis t)"
proof -
  have b: "dt_month t < 100" "dt_day t < 100" "dt_hour t < 100" "dt_minute t < 100" "dt_second t < 100"
    "dt_nanos t div 1000000 < 1000" "dt_day t \<le> 31"
    using wf days_in_bounds(2) [of "dt_month t" "dt_year t"]
    by (auto simp: datetime_wf_def less_mult_imp_div_less)
  have m: "list_all is_digit (pad_zero 3 (itoa (dt_nanos t div 1000000)))"
    "length (pad_zero 3 (itoa (dt_nanos t div 1000000))) = 3"
    using digits_fixed [of "dt_nanos t div 1000000" 2] b(6) by (simp_all add: numeral_3_eq_3)
  have z: "zero_time\<lparr>dt_year := dt_year t, dt_month := dt_month t, dt_day := dt_day t, dt_hour := dt_hour t,
      dt_minute := dt_minute t, dt_second := dt_second t,
      dt_nanos := dt_nanos t div 1000000 * 1000000\<rparr> = to_millis t"
    by (cases t) (simp add: zero_time_def to_millis_def)
  have "parse_items timestamp_layout (format_timestamp t) (zero_time, 0) = Some (to_millis t, 0)"
    using wf y b m z
    by (simp add: timestamp_layout_def format_timestamp_def format_date_def skip_lit_def ranged_def
        comma_or_period_def nanos_of_millis datetime_wf_def)
  then show ?thesis
    using wf to_millis_wf [OF wf] by (simp add: time_parse_def datetime_wf_def)
qed

lemma normalize_date_cases:
  assumes "normalize_date s = Some n"
  obtains "n = []"
  | t where "datetime_wf t" "0 \<le> dt_year t" "dt_year t \<le> 9999" "n = format_date t"
proof -
  consider "n = []" | ts u where "normalize_timestamp (trim_space s) = Some ts" "ts \<noteq> []"
      "time_parse timestamp_layout ts = Some u" "n = format_date u" "trim_space s \<noteq> []"
    using assms by (cases "normalize_timestamp (trim_space s)"; cases "the (normalize_timestamp (trim_space s)) = []")
      (auto simp: normalize_date_def Let_def normalize_timestamp_def split: if_splits option.splits)
  then show thesis
  proof cases
    case 1
    then show thesis using that(1) by simp
  next
    case 2
    from 2(1) show thesis
    proof (cases rule: normalize_timestamp_cases)
      case 1
      then show thesis using 2 by simp
    next
      case t: (2 t)
      have y: "0 \<le> dt_year t \<and> dt_year t \<le> 9999"
        using time_parse_out_of_range [of t timestamp_layout] t 2(3) by (auto simp: date_first_def)
      then have "u = to_millis t" using parse_timestamp_layout [of t] t 2(3) by simp
      then show thesis using that(2) [of t] y t 2 by simp
    qed
  qed
qed

lemma normalize_date_format:
  assumes "datetime_wf t" "0 \<le> dt_year t" "dt_year t \<le> 9999"
  shows "normalize_date (format_date t) = Some (format_date t)"
  using parse_date_layouts [OF assms] parse_timestamp_layout [OF midnight_wf [OF assms(1)]] assms(2,3)
  by (simp add: normalize_date_def normalize_timestamp_def)

lemma norm_date_idem [simp]:
  "norm_or_keep normalize_date (norm_or_keep normalize_date s) = norm_or_keep normalize_date s"
proof (cases "normalize_date s")
  case (Some n)
  then show ?thesis
  proof (cases rule: normalize_date_cases)
    case 1
    then show ?thesis
      using Some by (simp add: norm_or_keep_def normalize_date_def trim_space_id_digits)
  next
    case (2 t)
    then show ?thesis using Some by (simp add: norm_or_keep_def normalize_date_format)
  qed
qed (simp add: norm_or_keep_def)

section \<open>Facts: ids\<close>

lemma id_re_length: "id_re i \<Longrightarrow> length i = 8"
  by (simp add: id_re_def)

lemma id_re_pad:
  assumes "list_all is_digit ds" "length ds \<le> 4" "list_all is_lower_alnum sfx" "length sfx = 3"
  shows "id_re (pad_zero 4 ds @ CHR ''-'' # sfx)"
  using assms pad_zero_digits [of ds 4] length_pad_zero [of ds 4]
  by (simp add: id_re_def nth_append)

lemma short_id_re_Some:
  "short_id_re i = Some (ds, sfx) \<Longrightarrow>
     i = ds @ ''-'' @ sfx \<and> list_all is_digit ds \<and> 1 \<le> length ds \<and> length ds \<le> 3 \<and>
     list_all is_lower_alnum sfx \<and> length sfx = 3"
proof -
  assume a: "short_id_re i = Some (ds, sfx)"
  then have len: "5 \<le> length i" "length i \<le> 7" and ds: "ds = take (length i - 4) i"
    and sfx: "sfx = tl (drop (length i - 4) i)" and dash: "hd (drop (length i - 4) i) = CHR ''-''"
    and all: "list_all is_digit ds" "list_all is_lower_alnum sfx"
    by (auto simp: short_id_re_def Let_def split: if_splits)
  have "drop (length i - 4) i = CHR ''-'' # sfx"
    using len dash sfx by (cases "drop (length i - 4) i") auto
  then have "i = ds @ ''-'' @ sfx"
    using ds by (metis append_take_drop_id append_Cons append_Nil)
  then show ?thesis using len ds sfx all by auto
qed

lemma id_re_normalize: "short_id_re i = Some p \<Longrightarrow> id_re (normalize_id i)"
  by (cases p) (auto simp: normalize_id_def dest!: short_id_re_Some intro!: id_re_pad)

lemma normalize_id_id_re [simp]: "id_re i \<Longrightarrow> normalize_id i = i"
  by (simp add: normalize_id_def short_id_re_def Let_def id_re_length)

lemma normalize_id_idem [simp]: "normalize_id (normalize_id i) = normalize_id i"
proof (cases "short_id_re i")
  case None
  then have "normalize_id i = i" by (simp add: normalize_id_def)
  then show ?thesis by simp
qed (use id_re_normalize [of i] in simp)

lemma sequence_of_padded:
  assumes "n \<le> 9999"
  shows "sequence_of (pad_zero 4 (itoa n) @ s) = int n"
proof -
  have d: "list_all is_digit (pad_zero 4 (itoa n))" "length (pad_zero 4 (itoa n)) = 4"
    using digits_fixed [of n 3] assms by simp_all
  obtain c r where cr: "pad_zero 4 (itoa n) = c # r" using d(2) by (cases "pad_zero 4 (itoa n)") auto
  have "is_digit c" using d cr by simp
  then have "c \<noteq> CHR ''-''" "c \<noteq> CHR ''+''" by (auto simp: is_digit_def)
  moreover have "atoi_digits (c # r) = Some n"
    using d cr nat_of_digits_pad [of 4 "itoa n"] by (simp add: atoi_digits_def)
  ultimately have "atoi (c # r) = Some (int n)"
    using assms by (simp add: atoi_def int64_of_def)
  then show ?thesis using d cr by (simp add: sequence_of_def)
qed

lemma fm_normalize_idem [simp]:
  "fm_normalize_timestamps (fm_normalize_timestamps f) = fm_normalize_timestamps f"
  "fm_normalize_dates (fm_normalize_dates f) = fm_normalize_dates f"
  "fm_normalize_ids (fm_normalize_ids f) = fm_normalize_ids f"
proof -
  have l: "link_normalize (link_normalize l) = link_normalize l" for l
    by (simp add: link_normalize_def)
  have e: "entry_normalize (entry_normalize x) = entry_normalize x" for x
    by (simp add: entry_normalize_def comp_def)
  have "map_option links_normalize_ids (map_option links_normalize_ids x) =
      map_option links_normalize_ids x" for x
    by (cases x) (simp_all add: links_normalize_ids_def comp_def l)
  moreover have "om_map entry_normalize (om_map entry_normalize x) = om_map entry_normalize x"
    for x :: progress
    by (simp add: om_map_def comp_def e)
  ultimately show "fm_normalize_ids (fm_normalize_ids f) = fm_normalize_ids f"
    by (simp add: fm_normalize_ids_def)
qed (simp_all add: fm_normalize_timestamps_def fm_normalize_dates_def)

lemma fm_normalize_commute:
  "fm_normalize_dates (fm_normalize_timestamps f) = fm_normalize_timestamps (fm_normalize_dates f)"
  "fm_normalize_ids (fm_normalize_timestamps f) = fm_normalize_timestamps (fm_normalize_ids f)"
  "fm_normalize_ids (fm_normalize_dates f) = fm_normalize_dates (fm_normalize_ids f)"
  by (simp_all add: fm_normalize_timestamps_def fm_normalize_dates_def fm_normalize_ids_def)

section \<open>Facts: file names and slugs\<close>

lemma lower_char_id: "is_lower_alnum c \<or> \<not> is_upper c \<Longrightarrow> lower_char c = c"
  by (auto simp: lower_char_def is_upper_def is_lower_alnum_def is_digit_def less_eq_char_def)

lemma lower_char_upper: "is_upper c \<Longrightarrow> is_lower_alnum (lower_char c)"
proof -
  assume u: "is_upper c"
  then have "65 \<le> (of_char c :: nat)" "(of_char c :: nat) \<le> 90"
    by (simp_all add: is_upper_def less_eq_char_def)
  then show ?thesis
    using u by (simp add: lower_char_def is_upper_def is_lower_alnum_def less_eq_char_def)
qed

lemma lower_char_alnum: "is_alnum c \<Longrightarrow> is_lower_alnum (lower_char c)"
  using lower_char_upper [of c] lower_char_id [of c] by (auto simp: is_alnum_def)

lemma lower_char_dash: "lower_char c = CHR ''-'' \<longleftrightarrow> c = CHR ''-''"
  using lower_char_upper [of c] lower_char_id [of c]
  by (cases "is_upper c") (auto simp: is_lower_alnum_def is_upper_def is_digit_def lower_char_def)

lemma alnum_not_separator:
  "is_alnum c \<Longrightarrow> c \<noteq> CHR ''-'' \<and> c \<noteq> CHR ''/'' \<and> c \<noteq> CHR 0x5C \<and> c \<noteq> CHR ''.''"
  by (auto simp: is_alnum_def is_lower_alnum_def is_upper_def is_digit_def)

lemma lower_alnum_alnum [simp]: "is_lower_alnum c \<Longrightarrow> is_alnum c"
  by (simp add: is_alnum_def)

lemma digit_alnum [simp]: "is_digit c \<Longrightarrow> is_lower_alnum c"
  by (simp add: is_lower_alnum_def)

lemma set_join: "set (join_with sep ls) \<subseteq> set sep \<union> \<Union> (set ` set ls)"
  by (induction sep ls rule: join_with.induct) auto

lemma slug_re_set: "slug_re s \<Longrightarrow> set s \<subseteq> insert CHR ''-'' {c. is_lower_alnum c}"
  using set_join [of "''-''" "split_on CHR ''-'' s"] by (auto simp: slug_re_def list_all_iff)

lemma id_re_split:
  assumes "id_re i"
  obtains a b where "i = a @ CHR ''-'' # b" "list_all is_digit a" "list_all is_lower_alnum b"
    "length a = 4" "length b = 3"
proof -
  have "i = take 4 i @ i ! 4 # drop (Suc 4) i"
    by (rule id_take_nth_drop) (simp add: id_re_length [OF assms])
  then show thesis
    using assms by (intro that [of "take 4 i" "drop 5 i"]) (simp_all add: id_re_def)
qed

lemma id_re_set: "id_re i \<Longrightarrow> set i \<subseteq> insert CHR ''-'' {c. is_lower_alnum c}"
  by (elim id_re_split) (auto simp: list_all_iff)

lemma base_name_id: "CHR ''/'' \<notin> set s \<Longrightarrow> CHR 0x5C \<notin> set s \<Longrightarrow> base_name s = s"
  by (subst base_name_def, subst takeWhile_eq_all_conv [THEN iffD2]) auto

lemma base_name_dir: "CHR ''/'' \<notin> set s \<Longrightarrow> CHR 0x5C \<notin> set s \<Longrightarrow> base_name (d @ CHR ''/'' # s) = s"
  by (simp add: base_name_def, subst takeWhile_append2) auto

lemma file_name_re_parts:
  assumes i: "id_re i" and ty: "2 \<le> length typ" "length typ \<le> 8" "list_all is_alnum typ"
    and slug: "slug_re slug"
  shows "file_name_re (i @ ''-'' @ typ @ ''-'' @ slug @ ''.md'') = Some (i, typ, slug)"
proof -
  have nd: "\<forall>c \<in> set typ. c \<noteq> CHR ''-''"
    using ty(3) alnum_not_separator by (auto simp: list_all_iff)
  have tw: "takeWhile (\<lambda>c. c \<noteq> CHR ''-'') (typ @ CHR ''-'' # slug @ ''.md'') = typ"
    using nd by (simp add: takeWhile_append2)
  have sfx: "has_suffix (CHR ''-'' # slug @ ''.md'') ''.md''"
    by (auto simp: has_suffix_iff intro: exI [where x = "CHR ''-'' # slug"])
  have pre: "has_prefix (CHR ''-'' # x) ''-''" for x
    by (simp add: has_prefix_def)
  show ?thesis
    using i ty slug tw sfx pre id_re_length [OF i]
    by (simp add: file_name_re_def Let_def)
qed

text \<open>A file name says what it is named after: parsing the name built from a valid id, a type and a
  slug, in any directory, gives back the id, the lower-case type and the slug.\<close>

theorem parse_file_name_round_trip:
  assumes "id_re i" "2 \<le> length typ" "length typ \<le> 8" "list_all is_alnum typ" "slug_re slug"
    and "dir = [] \<or> last dir = CHR ''/''"
  shows "parse_file_name (dir @ file_name i typ slug) = Some (i, to_lower typ, slug)"
proof -
  have low: "list_all is_alnum (to_lower typ)" "length (to_lower typ) = length typ"
    using assms(4) lower_char_alnum by (auto simp: to_lower_def list_all_iff)
  have idem: "to_lower (to_lower typ) = to_lower typ"
    using assms(4) lower_char_alnum lower_char_id by (auto simp: to_lower_def list_all_iff)
  let ?f = "file_name i typ slug"
  have "set ?f \<subseteq> {CHR ''-'', CHR ''.''} \<union> {c. is_alnum c}"
    using id_re_set [OF assms(1)] slug_re_set [OF assms(5)] low(1)
    by (auto simp: file_name_def list_all_iff is_alnum_def is_lower_alnum_def)
  then have "CHR ''/'' \<notin> set ?f" "CHR 0x5C \<notin> set ?f"
    using alnum_not_separator by auto
  then have "base_name (dir @ ?f) = ?f"
    using assms(6) base_name_id base_name_dir [of ?f "butlast dir"]
    by (cases dir rule: rev_cases) auto
  moreover have "file_name_re ?f = Some (i, to_lower typ, slug)"
    using assms low file_name_re_parts [of i "to_lower typ" slug] by (simp add: file_name_def)
  ultimately show ?thesis by (simp add: parse_file_name_def idem)
qed

text \<open>A derived slug always fits the file name pattern.\<close>

fun slug_ok :: "bool \<Rightarrow> string \<Rightarrow> bool" where
  "slug_ok lh [] = True"
| "slug_ok lh (c # s) =
     (if c = CHR ''-'' then \<not> lh \<and> slug_ok True s else is_lower_alnum c \<and> slug_ok False s)"

lemma slug_chars_ok: "slug_ok lh (slug_chars lh s)"
  by (induction lh s rule: slug_chars.induct)
     (auto simp: is_lower_alnum_def is_digit_def)

lemma slug_ok_append: "slug_ok lh (a @ b) \<Longrightarrow> slug_ok lh a"
  by (induction lh a rule: slug_ok.induct) (auto split: if_splits)

lemma trim_right_props:
  "\<exists>r. s = trim_right s cs @ r" "trim_right s cs \<noteq> [] \<Longrightarrow> last (trim_right s cs) \<notin> set cs"
proof -
  have "rev s = takeWhile (\<lambda>c. c \<in> set cs) (rev s) @ dropWhile (\<lambda>c. c \<in> set cs) (rev s)" by simp
  then have "s = rev (dropWhile (\<lambda>c. c \<in> set cs) (rev s)) @ rev (takeWhile (\<lambda>c. c \<in> set cs) (rev s))"
    by (metis rev_append rev_rev_ident)
  then show "\<exists>r. s = trim_right s cs @ r" unfolding trim_right_def by blast
  show "trim_right s cs \<noteq> [] \<Longrightarrow> last (trim_right s cs) \<notin> set cs"
    using hd_dropWhile [of "\<lambda>c. c \<in> set cs" "rev s"] by (simp add: trim_right_def last_rev)
qed

lemma slug_ok_split:
  assumes "slug_ok lh s" "s = [] \<longrightarrow> \<not> lh" "s = [] \<or> last s \<noteq> CHR ''-''"
  shows "\<exists>p ps. split_on CHR ''-'' s = p # ps \<and> list_all is_lower_alnum p \<and> (lh \<longrightarrow> p \<noteq> []) \<and>
    list_all (\<lambda>q. q \<noteq> [] \<and> list_all is_lower_alnum q) ps"
  using assms
proof (induction lh s rule: slug_ok.induct)
  case (2 lh c s)
  show ?case
  proof (cases "c = CHR ''-''")
    case True
    with 2 show ?thesis by (cases s) auto
  next
    case False
    with 2 show ?thesis by (cases "s = []") auto
  qed
qed simp

text \<open>The slug of any title, the empty and the unprintable ones included, has the form every slug must
  have, so the file name built from it can be parsed again.\<close>

theorem slugify_slug: "slug_re (slugify title)"
proof -
  let ?s = "trim_right (slug_chars True (to_lower title)) ''-''"
  have "slug_ok True ?s"
    using slug_chars_ok [of True "to_lower title"] trim_right_props(1) slug_ok_append by metis
  moreover have "?s \<noteq> [] \<Longrightarrow> last ?s \<noteq> CHR ''-''"
    using trim_right_props(2) by fastforce
  ultimately have "?s \<noteq> [] \<Longrightarrow> slug_re ?s"
    using slug_ok_split [of True ?s] by (auto simp: slug_re_def)
  moreover have "slug_re ''untitled''" by code_simp
  ultimately show ?thesis by (simp add: slugify_def Let_def)
qed

section \<open>Facts: section numbers are ordered numerically\<close>

definition section_key :: "string \<Rightarrow> nat list" where
  "section_key s = map (nat_of_digits 0) (split_on CHR ''.'' s)"

definition small_number :: "string \<Rightarrow> bool" where
  "small_number s \<longleftrightarrow> step_number_re s \<and> list_all (\<lambda>n. n < 2 ^ 63) (section_key s)"

lemma atoi_number_part:
  assumes "number_part p" "nat_of_digits 0 p < 2 ^ 63"
  shows "atoi p = Some (int (nat_of_digits 0 p))"
proof -
  obtain c r where p: "p = c # r" using assms by (cases p) (auto simp: number_part_def)
  then have "is_digit c" using assms by (simp add: number_part_def)
  then have "c \<noteq> CHR ''-''" "c \<noteq> CHR ''+''" by (auto simp: is_digit_def)
  moreover have "atoi_digits (c # r) = Some (nat_of_digits 0 p)"
    using assms p by (simp add: atoi_digits_def number_part_def)
  ultimately show ?thesis
    using assms(2) p by (simp add: atoi_def int64_of_def)
qed

lemma Nil_less_iff [simp]: "([] :: nat list) < xs \<longleftrightarrow> xs \<noteq> []"
  by (cases xs) auto

lemma compare_parts_numeric:
  assumes "list_all (\<lambda>p. number_part p \<and> nat_of_digits 0 p < 2 ^ 63) xs"
    "list_all (\<lambda>p. number_part p \<and> nat_of_digits 0 p < 2 ^ 63) ys"
  defines "kx \<equiv> map (nat_of_digits 0) xs" and "ky \<equiv> map (nat_of_digits 0) ys"
  shows "(case compare_parts xs ys of Some c \<Rightarrow> c < 0 | None \<Rightarrow> length xs < length ys) \<longleftrightarrow> kx < ky"
    and "(case compare_parts xs ys of Some c \<Rightarrow> c = 0 | None \<Rightarrow> length xs = length ys) \<longleftrightarrow> kx = ky"
  using assms(1,2) unfolding kx_def ky_def
  by (induction xs ys rule: compare_parts.induct) (auto simp: atoi_number_part split: option.splits)

lemma compare_sections_numeric:
  assumes "small_number a" "small_number b"
  shows "compare_sections a b < 0 \<longleftrightarrow> section_key a < section_key b"
    and "compare_sections a b = 0 \<longleftrightarrow> section_key a = section_key b"
proof -
  have "list_all (\<lambda>p. number_part p \<and> nat_of_digits 0 p < 2 ^ 63) (split_on CHR ''.'' x)"
    if "small_number x" for x
    using that by (auto simp: small_number_def step_number_re_def section_key_def list_all_iff)
  then show "compare_sections a b < 0 \<longleftrightarrow> section_key a < section_key b"
    and "compare_sections a b = 0 \<longleftrightarrow> section_key a = section_key b"
    using assms compare_parts_numeric [of "split_on CHR ''.'' a" "split_on CHR ''.'' b"]
    by (auto simp: compare_sections_def section_key_def Let_def split: option.splits)
qed

lemma mset_insert_section: "mset (insert_section x xs) = add_mset x (mset xs)"
  by (induction xs) auto

lemma mset_sort_sections [simp]: "mset (sort_sections xs) = mset xs"
  by (induction xs) (simp_all add: mset_insert_section)

lemma set_sort_sections [simp]: "set (sort_sections xs) = set xs"
  using mset_sort_sections [of xs] by (metis mset_eq_setD)

lemma distinct_sort_sections [simp]: "distinct (sort_sections xs) = distinct xs"
  using mset_sort_sections [of xs] by (metis mset_eq_imp_distinct_iff)

lemma set_insert_section [simp]: "set (insert_section x xs) = insert x (set xs)"
  using mset_insert_section [of x xs] by (metis set_mset_add_mset_insert set_mset_mset)

lemma insert_section_sorted:
  "small_number x \<Longrightarrow> list_all small_number xs \<Longrightarrow> sorted (map section_key xs) \<Longrightarrow>
     sorted (map section_key (insert_section x xs))"
  by (induction xs) (auto simp: compare_sections_numeric not_less list_all_iff intro: less_imp_le order_trans)

lemma sort_sections_sorted:
  "list_all small_number xs \<Longrightarrow> sorted (map section_key (sort_sections xs))"
  by (induction xs) (auto intro!: insert_section_sorted simp: list_all_iff)

theorem sorted_keys_numeric:
  assumes "omap_wf p" "list_all small_number (om_keys p)"
  shows "sorted (map section_key (sorted_keys p)) \<and> mset (sorted_keys p) = mset (om_keys p)"
  using assms by (simp add: sorted_keys_def sort_sections_sorted)

section \<open>Facts: canonical ids\<close>

lemma index_byte_Some: "index_byte a c = Some j \<Longrightarrow> j < length a \<and> a ! j = c"
  by (induction a c arbitrary: j rule: index_byte.induct) (auto split: if_splits)

lemma index_byte_None: "index_byte a c = None \<longleftrightarrow> c \<notin> set a"
  by (induction a c rule: index_byte.induct) auto

lemma rebuild_iff: "rebuild s a = Some r \<longleftrightarrow> r = s \<and> set s \<subseteq> set a"
  by (induction s a arbitrary: r rule: rebuild.induct)
     (auto simp: index_byte_None dest: index_byte_Some split: option.splits)

lemma id_alphabet_chars: "\<forall>c. is_lower_alnum c \<or> c = CHR ''-'' \<longrightarrow> c \<in> set id_alphabet"
  by code_simp

lemma template_alphabet_chars:
  "\<forall>c. is_alnum c \<or> c = CHR ''.'' \<or> c = CHR ''_'' \<or> c = CHR ''-'' \<longrightarrow> c \<in> set template_id_alphabet"
  by code_simp

theorem canonical_id_iff: "canonical_id i = Some r \<longleftrightarrow> id_re i \<and> r = i"
  using id_re_set [of i] id_alphabet_chars by (auto simp: canonical_id_def rebuild_iff)

lemma template_id_re_set: "template_id_re i \<Longrightarrow> set i \<subseteq> set template_id_alphabet"
proof -
  assume i: "template_id_re i"
  have "is_alnum c \<or> c = CHR ''.'' \<or> c = CHR ''_'' \<or> c = CHR ''-''" if "c \<in> set i" for c
    using i that by (cases i) (auto simp: template_id_re_def list_all_iff)
  then show ?thesis using template_alphabet_chars by blast
qed

lemma canonical_template_id_iff: "canonical_template_id i = Some r \<longleftrightarrow> template_id_re i \<and> r = i"
  using template_id_re_set [of i] by (auto simp: canonical_template_id_def rebuild_iff)

lemma template_id_re_safe:
  assumes "template_id_re i"
  shows "CHR ''/'' \<notin> set i \<and> CHR 0x5C \<notin> set i \<and> i \<noteq> ''.'' \<and> i \<noteq> ''..'' \<and> i \<noteq> []"
proof -
  have "CHR ''/'' \<notin> set template_id_alphabet" "CHR 0x5C \<notin> set template_id_alphabet"
    by (simp_all add: template_id_alphabet_def)
  then have "CHR ''/'' \<notin> set i" "CHR 0x5C \<notin> set i"
    using template_id_re_set [OF assms] by blast+
  moreover have "is_alnum (hd i)" "i \<noteq> []"
    using assms by (simp_all add: template_id_re_def)
  then have "hd i \<noteq> CHR ''.''" using alnum_not_separator by blast
  ultimately show ?thesis using \<open>i \<noteq> []\<close> by auto
qed

end
