(* ===== verification/Kinds.thy ===== *)
theory Kinds
  imports Documents
begin

text \<open>
  The error kinds of \<open>service/errors.go\<close> and the two document kinds of \<open>kind/kind.go\<close>:
  what a plan and a story may hold and which rules apply to it. The services read every
  rule from the kind record, as the code does.
\<close>

datatype err_kind = BadRequest | ValidationError | NotFound | InvalidTransition
  | ImmutableField | UnknownSection | LinkedPlan | Conflict | StorageError
  | IncompleteCriteria | UnknownStep | UnknownCriterion | LinkedStory | BlockedByDependency

definition http_status :: "err_kind \<Rightarrow> nat" where
  "http_status k =
     (if k = NotFound then 404
      else if k \<in> {ValidationError, BadRequest, UnknownSection, UnknownStep, UnknownCriterion} then 400
      else if k \<in> {InvalidTransition, IncompleteCriteria, ImmutableField, LinkedPlan, LinkedStory,
                    Conflict, BlockedByDependency} then 409
      else 500)"

record kind =
  k_name :: string
  k_plural :: string
  k_title :: string
  k_default_dir :: string
  k_scheme :: string
  k_progress_key_re :: "string \<Rightarrow> bool"
  k_progress_key_noun :: string
  k_unknown_progress_key :: err_kind
  k_linked_error :: err_kind
  k_plan_relations :: "string list"
  k_story_relations :: "string list"
  k_progress_stories :: bool
  k_plan_link_sections :: bool
  k_has_purpose :: bool
  k_has_assignee :: bool
  k_tracks_started :: bool
  k_criteria_gate :: bool
  k_auto_complete :: bool
  k_work_log :: bool
  k_strict_progress :: bool
  k_repo_files :: bool
  k_protect_default_template :: bool
  k_link_targets_must_exist :: bool
  k_immutable :: "string list"
  k_event_prefix :: string

definition plan_kind :: kind where
  "plan_kind =
     \<lparr>k_name = ''plan'', k_plural = ''plans'', k_title = ''Plan'', k_default_dir = ''docs/plans'',
      k_scheme = ''plan://'', k_progress_key_re = section_number_re,
      k_progress_key_noun = ''section'', k_unknown_progress_key = UnknownSection,
      k_linked_error = LinkedPlan,
      k_plan_relations = [''parent'', ''included'', ''depends'', ''blocks''],
      k_story_relations = [''included'', ''depends'', ''blocks''],
      k_progress_stories = True, k_plan_link_sections = False, k_has_purpose = False,
      k_has_assignee = False, k_tracks_started = False, k_criteria_gate = False,
      k_auto_complete = False, k_work_log = False, k_strict_progress = False,
      k_repo_files = False, k_protect_default_template = False, k_link_targets_must_exist = True,
      k_immutable = [''id'', ''created'', ''updated'', ''completed''],
      k_event_prefix = ''plan''\<rparr>"

definition story_kind :: kind where
  "story_kind =
     \<lparr>k_name = ''story'', k_plural = ''stories'', k_title = ''Story'', k_default_dir = ''docs/stories'',
      k_scheme = ''story://'', k_progress_key_re = step_number_re,
      k_progress_key_noun = ''step'', k_unknown_progress_key = UnknownStep,
      k_linked_error = LinkedStory,
      k_plan_relations = [''included'', ''depends'', ''blocks''],
      k_story_relations = [''parent'', ''included'', ''depends'', ''blocks''],
      k_progress_stories = False, k_plan_link_sections = True, k_has_purpose = True,
      k_has_assignee = True, k_tracks_started = True, k_criteria_gate = True,
      k_auto_complete = True, k_work_log = True, k_strict_progress = True,
      k_repo_files = True, k_protect_default_template = True, k_link_targets_must_exist = True,
      k_immutable = [''id'', ''created'', ''updated'', ''started'', ''completed''],
      k_event_prefix = ''story''\<rparr>"

text \<open>The registry in name order (\<open>All\<close>), and lookup by name, then by plural.\<close>

definition all_kinds :: "kind list" where
  "all_kinds = [plan_kind, story_kind]"

definition get_kind :: "string \<Rightarrow> kind option" where
  "get_kind name =
     (let n = to_lower (trim_space name)
      in case find (\<lambda>k. k_name k = n) all_kinds of
           Some k \<Rightarrow> Some k
         | None \<Rightarrow> find (\<lambda>k. k_plural k = n) all_kinds)"

definition kind_event :: "kind \<Rightarrow> string \<Rightarrow> string" where
  "kind_event k action = k_event_prefix k @ ''.'' @ action"

text \<open>The kind names a store accepts and the services ask for.\<close>

lemma kind_names [simp]: "k_name plan_kind = ''plan''" "k_name story_kind = ''story''"
  by (simp_all add: plan_kind_def story_kind_def)

lemma get_kind_own [simp]: "get_kind ''plan'' = Some plan_kind" "get_kind ''story'' = Some story_kind"
proof -
  have "to_lower (trim_space ''plan'') = ''plan''" "to_lower (trim_space ''story'') = ''story''"
    by code_simp+
  then show "get_kind ''plan'' = Some plan_kind" "get_kind ''story'' = Some story_kind"
    by (simp_all add: get_kind_def all_kinds_def)
qed

lemma get_kind_mem: "get_kind n = Some k \<Longrightarrow> k = plan_kind \<or> k = story_kind"
  by (auto simp: get_kind_def all_kinds_def Let_def split: option.splits if_splits)

text \<open>
  A progress key a story accepts at any depth, a plan at two levels: a plan's keys are
  keys of a story.
\<close>

lemma section_is_step: "section_number_re s \<Longrightarrow> step_number_re s"
  by (simp add: section_number_re_def step_number_re_def Let_def)

end
