(* ===== verification/Kind_Config.thy ===== *)
theory Kind_Config
  imports Kinds
begin

text \<open>
  The per-kind configuration of \<open>config/config.go\<close>: types, statuses with their labels
  and synonyms, the workflow between statuses, priorities and efforts, how a value given
  by a user is mapped to the configured name, how a config file overlays the defaults,
  and which configurations are refused. A decoded JSON, YAML or command line value is a
  \<open>go_val\<close>; a finite float64 is \<open>m / 2 ^ k\<close>.
\<close>

datatype go_val = VNull | VBool bool | VInt int | VFloat int nat | VNumber string
  | VString string | VList "go_val list" | VMap "(string \<times> go_val) list"

record named_def =
  nd_name :: string
  nd_label :: string
  nd_synonyms :: "string list"

record priority_def =
  pr_value :: string
  pr_labels :: "string list"

record effort_def =
  ef_name :: string
  ef_labels :: "string list"
  ef_points :: int

record kind_config =
  kc_dir :: string
  kc_types :: "named_def list"
  kc_statuses :: "named_def list"
  kc_workflow :: "(string, string list) omap"
  kc_priorities :: "priority_def list"
  kc_efforts :: "effort_def list"

section \<open>The built-in configuration\<close>

definition nd :: "string \<Rightarrow> string \<Rightarrow> string list \<Rightarrow> named_def" where
  "nd n l ss = \<lparr>nd_name = n, nd_label = l, nd_synonyms = ss\<rparr>"

definition default_status :: string where
  "default_status = ''pending''"

definition default_statuses :: "named_def list" where
  "default_statuses =
     [nd ''pending'' ''Pending'' [''new'', ''draft'', ''todo''],
      nd ''validated'' ''Validated'' [''validate'', ''valid''],
      nd ''ready'' ''Ready'' [''approve'', ''approved''],
      nd ''in_progress'' ''In Progress''
        [''start'', ''started'', ''active'', ''working'', ''progress'', ''in-progress''],
      nd ''complete'' ''Complete''
        [''done'', ''completed'', ''finish'', ''finished'', ''close'', ''closed''],
      nd ''blocked'' ''Blocked'' [''block'', ''hold'', ''on_hold''],
      nd ''rejected'' ''Rejected''
        [''reject'', ''skip'', ''skipped'', ''cancel'', ''cancelled'', ''wontdo'', ''wontfix''],
      nd ''archived'' ''Archived'' [''archive'', ''shelve'', ''shelved'', ''park'', ''parked'']]"

text \<open>The map in key order; each target list in the order the code gives it.\<close>

definition default_workflow :: "(string, string list) omap" where
  "default_workflow =
     [(''archived'', [''pending'', ''ready'']),
      (''blocked'', [''pending'', ''ready'', ''rejected'']),
      (''complete'', [''archived'', ''in_progress'']),
      (''in_progress'', [''blocked'', ''rejected'', ''complete'', ''ready'']),
      (''pending'', [''blocked'', ''rejected'', ''validated'']),
      (''ready'', [''in_progress'', ''validated'', ''blocked'', ''rejected'']),
      (''rejected'', [''blocked'', ''archived'', ''pending'', ''ready'']),
      (''validated'', [''ready'', ''pending'', ''blocked'', ''rejected'', ''archived''])]"

definition default_priorities :: "priority_def list" where
  "default_priorities =
     [\<lparr>pr_value = ''0'', pr_labels = [''P0'', ''Emergency'']\<rparr>,
      \<lparr>pr_value = ''1'', pr_labels = [''P1'', ''Critical'', ''Block'']\<rparr>,
      \<lparr>pr_value = ''2'', pr_labels = [''P2'', ''Major'', ''High'']\<rparr>,
      \<lparr>pr_value = ''3'', pr_labels = [''P3'', ''Moderate'', ''Medium'']\<rparr>,
      \<lparr>pr_value = ''4'', pr_labels = [''P4'', ''Minor'', ''Low'']\<rparr>,
      \<lparr>pr_value = ''5'', pr_labels = [''P5'', ''Feature Request'', ''Informational'']\<rparr>]"

definition default_efforts :: "effort_def list" where
  "default_efforts =
     [\<lparr>ef_name = ''XS'', ef_labels = [''Extra Small''], ef_points = 2\<rparr>,
      \<lparr>ef_name = ''S'', ef_labels = [''Small''], ef_points = 3\<rparr>,
      \<lparr>ef_name = ''M'', ef_labels = [''Medium''], ef_points = 5\<rparr>,
      \<lparr>ef_name = ''L'', ef_labels = [''Large''], ef_points = 8\<rparr>,
      \<lparr>ef_name = ''XL'', ef_labels = [''Extra Large''], ef_points = 13\<rparr>]"

definition default_plans :: kind_config where
  "default_plans =
     \<lparr>kc_dir = k_default_dir plan_kind,
      kc_types = [nd ''drft'' ''Draft'' [], nd ''dsgn'' ''Design'' [], nd ''impl'' ''Implementation'' []],
      kc_statuses = default_statuses, kc_workflow = default_workflow,
      kc_priorities = default_priorities, kc_efforts = default_efforts\<rparr>"

definition default_stories :: kind_config where
  "default_stories =
     \<lparr>kc_dir = k_default_dir story_kind,
      kc_types =
        [nd ''bugs'' ''Bug'' [''bug'', ''fix''], nd ''feat'' ''Feature'' [''feature''],
         nd ''impr'' ''Improvement'' [''improvement'', ''refactor''], nd ''chor'' ''Chore'' [''chore''],
         nd ''task'' ''Task'' []],
      kc_statuses = default_statuses, kc_workflow = default_workflow,
      kc_priorities = default_priorities, kc_efforts = default_efforts\<rparr>"

section \<open>Lookups and normalisers\<close>

definition find_status :: "kind_config \<Rightarrow> string \<Rightarrow> named_def option" where
  "find_status c name = find (\<lambda>s. nd_name s = name) (kc_statuses c)"

definition status_names :: "kind_config \<Rightarrow> string list" where
  "status_names c = map nd_name (kc_statuses c)"

definition type_names :: "kind_config \<Rightarrow> string list" where
  "type_names c = map nd_name (kc_types c)"

definition norm :: "string \<Rightarrow> string" where
  "norm s = to_lower (trim_space s)"

text \<open>Primary names and labels are tried over the whole list before any synonym.\<close>

definition lookup_named :: "named_def list \<Rightarrow> string \<Rightarrow> string option" where
  "lookup_named ds n =
     (case find (\<lambda>d. n = norm (nd_name d) \<or> n = norm (nd_label d)) ds of
        Some d \<Rightarrow> Some (nd_name d)
      | None \<Rightarrow> map_option nd_name (find (\<lambda>d. list_ex (\<lambda>s. n = norm s) (nd_synonyms d)) ds))"

definition normalize_status :: "kind_config \<Rightarrow> string \<Rightarrow> string option" where
  "normalize_status c s = (let n = norm s in if n = '''' then None else lookup_named (kc_statuses c) n)"

definition normalize_type :: "kind_config \<Rightarrow> string \<Rightarrow> string option" where
  "normalize_type c s = lookup_named (kc_types c) (norm s)"

text \<open>An integral float within 64 bits is printed as its integer; a fractional one is refused.\<close>

definition float_int :: "int \<Rightarrow> nat \<Rightarrow> int option" where
  "float_int m k = (if m mod 2 ^ k = 0 then int64_of (m div 2 ^ k) else None)"

definition scalar_string :: "go_val \<Rightarrow> string option" where
  "scalar_string v =
     (case v of
        VString s \<Rightarrow> Some s
      | VFloat m k \<Rightarrow> map_option itoa_int (float_int m k)
      | VInt i \<Rightarrow> Some (itoa_int i)
      | VNumber s \<Rightarrow> Some s
      | _ \<Rightarrow> None)"

definition normalize_priority :: "kind_config \<Rightarrow> go_val \<Rightarrow> string option" where
  "normalize_priority c v =
     (case scalar_string v of None \<Rightarrow> None
      | Some s \<Rightarrow>
          let n = norm s
          in case find (\<lambda>p. n = norm (pr_value p)) (kc_priorities c) of
               Some p \<Rightarrow> Some (pr_value p)
             | None \<Rightarrow> map_option pr_value
                 (find (\<lambda>p. list_ex (\<lambda>l. n = norm l) (pr_labels p)) (kc_priorities c)))"

definition normalize_effort :: "kind_config \<Rightarrow> go_val \<Rightarrow> string option" where
  "normalize_effort c v =
     (case scalar_string v of None \<Rightarrow> None
      | Some s \<Rightarrow>
          let n = norm s
          in case find (\<lambda>e. n = norm (ef_name e)) (kc_efforts c) of
               Some e \<Rightarrow> Some (ef_name e)
             | None \<Rightarrow> map_option ef_name
                 (find (\<lambda>e. n = itoa_int (ef_points e) \<or> list_ex (\<lambda>l. n = norm l) (ef_labels e))
                    (kc_efforts c)))"

definition transitions :: "kind_config \<Rightarrow> string \<Rightarrow> string list" where
  "transitions c from = (case om_get (kc_workflow c) from of None \<Rightarrow> [] | Some ts \<Rightarrow> ts)"

definition can_transition :: "kind_config \<Rightarrow> string \<Rightarrow> string \<Rightarrow> bool" where
  "can_transition c from to \<longleftrightarrow> list_ex (\<lambda>t. t = to) (transitions c from)"

section \<open>The whole configuration, its overlay and its checks\<close>

record storage_def =
  sd_name :: string
  sd_kind :: string
  sd_enabled :: "bool option"
  sd_options :: "(string, string) omap"

record github_config =
  gh_branches :: string
  gh_active_days :: int
  gh_max_branches :: int

record config =
  cf_plans :: kind_config
  cf_stories :: kind_config
  cf_storage :: "storage_def list"
  cf_server_addr :: string
  cf_remote_project :: string
  cf_code_sync :: "bool option"
  cf_github :: github_config

definition default_config :: config where
  "default_config =
     \<lparr>cf_plans = default_plans, cf_stories = default_stories,
      cf_storage = [\<lparr>sd_name = ''file'', sd_kind = ''file'', sd_enabled = None, sd_options = []\<rparr>],
      cf_server_addr = ''127.0.0.1:8087'', cf_remote_project = '''', cf_code_sync = None,
      cf_github = \<lparr>gh_branches = '''', gh_active_days = 0, gh_max_branches = 0\<rparr>\<rparr>"

definition sd_is_enabled :: "storage_def \<Rightarrow> bool" where
  "sd_is_enabled s \<longleftrightarrow> (case sd_enabled s of None \<Rightarrow> True | Some b \<Rightarrow> b)"

text \<open>A decoded config file: every field may be absent.\<close>

record file_kind_config =
  fk_dir :: "string option"
  fk_types :: "named_def list option"
  fk_statuses :: "named_def list option"
  fk_workflow :: "(string, string list) omap option"
  fk_priorities :: "priority_def list option"
  fk_efforts :: "effort_def list option"

record file_config =
  fc_plans :: "file_kind_config option"
  fc_stories :: "file_kind_config option"
  fc_storage :: "storage_def list option"
  fc_server_addr :: "string option"
  fc_remote_project :: "string option"
  fc_code_sync :: "bool option"
  fc_github :: "github_config option"
  fc_legacy :: file_kind_config

definition or_else :: "'a option \<Rightarrow> 'a \<Rightarrow> 'a" where
  "or_else x d = (case x of None \<Rightarrow> d | Some y \<Rightarrow> y)"

definition apply_kind :: "file_kind_config option \<Rightarrow> kind_config \<Rightarrow> kind_config" where
  "apply_kind fc c =
     (case fc of None \<Rightarrow> c
      | Some f \<Rightarrow>
          \<lparr>kc_dir = or_else (fk_dir f) (kc_dir c), kc_types = or_else (fk_types f) (kc_types c),
           kc_statuses = or_else (fk_statuses f) (kc_statuses c),
           kc_workflow = or_else (fk_workflow f) (kc_workflow c),
           kc_priorities = or_else (fk_priorities f) (kc_priorities c),
           kc_efforts = or_else (fk_efforts f) (kc_efforts c)\<rparr>)"

text \<open>The legacy top-level keys apply to plans first, then the plans section.\<close>

definition overlay :: "config \<Rightarrow> file_config \<Rightarrow> config" where
  "overlay c f =
     c\<lparr>cf_plans := apply_kind (fc_plans f) (apply_kind (Some (fc_legacy f)) (cf_plans c)),
       cf_stories := apply_kind (fc_stories f) (cf_stories c),
       cf_storage := or_else (fc_storage f) (cf_storage c),
       cf_server_addr :=
         (case fc_server_addr f of None \<Rightarrow> cf_server_addr c
          | Some a \<Rightarrow> if a = '''' then cf_server_addr c else a),
       cf_remote_project :=
         (case fc_remote_project f of None \<Rightarrow> cf_remote_project c | Some p \<Rightarrow> trim_space p),
       cf_code_sync := (case fc_code_sync f of None \<Rightarrow> cf_code_sync c | Some b \<Rightarrow> Some b),
       cf_github :=
         (case fc_github f of None \<Rightarrow> cf_github c
          | Some g \<Rightarrow>
              \<lparr>gh_branches = (if gh_branches g = '''' then gh_branches (cf_github c) else gh_branches g),
               gh_active_days =
                 (if gh_active_days g = 0 then gh_active_days (cf_github c) else gh_active_days g),
               gh_max_branches =
                 (if gh_max_branches g = 0 then gh_max_branches (cf_github c) else gh_max_branches g)\<rparr>)\<rparr>"

definition code_sync_allowed :: "config \<Rightarrow> bool" where
  "code_sync_allowed c \<longleftrightarrow> (case cf_code_sync c of None \<Rightarrow> True | Some b \<Rightarrow> b)"

definition config_kind :: "config \<Rightarrow> string \<Rightarrow> kind_config option" where
  "config_kind c name =
     (if name = ''plan'' \<or> name = ''plans'' then Some (cf_plans c)
      else if name = ''story'' \<or> name = ''stories'' then Some (cf_stories c) else None)"

definition enabled_storage :: "config \<Rightarrow> storage_def list" where
  "enabled_storage c = filter sd_is_enabled (cf_storage c)"

text \<open>The problems \<open>Validate\<close> reports, each with the scope and names of its message.\<close>

datatype config_problem = EmptyDir string | NoTypes string | BadTypeName string string
  | NoStatuses string | NoDefaultStatus string | UnknownSource string string
  | UnknownTarget string string string | NoPriorities string
  | UnnamedStorage | FileStoreDisabled | BadBranches string | BadActiveDays | BadMaxBranches

definition type_name_re :: "string \<Rightarrow> bool" where
  "type_name_re s \<longleftrightarrow> 2 \<le> length s \<and> length s \<le> 8 \<and> list_all is_lower_alnum s"

definition validate_kind :: "string \<Rightarrow> kind_config \<Rightarrow> config_problem list" where
  "validate_kind scope c =
     (if kc_dir c = '''' then [EmptyDir scope] else []) @
     (if kc_types c = [] then [NoTypes scope] else []) @
     map (BadTypeName scope) (filter (\<lambda>n. \<not> type_name_re n) (type_names c)) @
     (if kc_statuses c = [] then [NoStatuses scope] else []) @
     (if find_status c default_status = None then [NoDefaultStatus scope] else []) @
     concat (map (\<lambda>(from, tos).
       (if find_status c from = None then [UnknownSource scope from] else []) @
       map (\<lambda>to. UnknownTarget scope to from) (filter (\<lambda>to. find_status c to = None) tos))
       (kc_workflow c)) @
     (if kc_priorities c = [] then [NoPriorities scope] else [])"

definition validate_github :: "github_config \<Rightarrow> config_problem list" where
  "validate_github g =
     (if norm (gh_branches g) \<in> {'''', ''active'', ''default'', ''all''} then []
      else [BadBranches (gh_branches g)]) @
     (if gh_active_days g < 0 then [BadActiveDays] else []) @
     (if gh_max_branches g < 0 then [BadMaxBranches] else [])"

definition validate_config :: "bool \<Rightarrow> config \<Rightarrow> config_problem list" where
  "validate_config allow_no_file c =
     validate_kind ''plans'' (cf_plans c) @ validate_kind ''stories'' (cf_stories c) @
     validate_github (cf_github c) @
     map (\<lambda>_. UnnamedStorage) (filter (\<lambda>s. sd_name s = '''' \<or> sd_kind s = '''') (cf_storage c)) @
     (if list_ex (\<lambda>s. sd_kind s = ''file'' \<and> sd_is_enabled s) (cf_storage c) \<or> allow_no_file then []
      else [FileStoreDisabled])"

section \<open>Facts\<close>

lemma lookup_named_Some: "lookup_named ds n = Some m \<Longrightarrow> \<exists>d \<in> set ds. nd_name d = m"
  by (auto simp: lookup_named_def find_Some_iff split: option.splits dest: nth_mem)

lemma find_status_iff: "find_status c n \<noteq> None \<longleftrightarrow> n \<in> set (status_names c)"
  by (auto simp: find_status_def status_names_def find_None_iff)

lemma normalize_status_known: "normalize_status c s = Some n \<Longrightarrow> find_status c n \<noteq> None"
  unfolding find_status_iff
  by (auto simp: normalize_status_def status_names_def Let_def dest!: lookup_named_Some split: if_splits)

lemma normalize_type_known: "normalize_type c s = Some n \<Longrightarrow> n \<in> set (type_names c)"
  by (auto simp: normalize_type_def type_names_def dest!: lookup_named_Some)

lemma can_transition_iff: "can_transition c from to \<longleftrightarrow> to \<in> set (transitions c from)"
  by (auto simp: can_transition_def list_ex_iff)

lemma validate_kind_workflow:
  assumes "validate_kind scope c = []" "can_transition c from to"
  shows "find_status c from \<noteq> None \<and> find_status c to \<noteq> None"
proof -
  obtain tos where "om_get (kc_workflow c) from = Some tos" "to \<in> set tos"
    using assms(2)
    by (cases "om_get (kc_workflow c) from") (auto simp: can_transition_iff transitions_def)
  then show ?thesis
    using assms(1)
    by (auto simp: validate_kind_def filter_empty_conv split: if_splits dest!: om_get_in bspec)
qed

text \<open>The built-in configuration passes its own checks.\<close>

lemma default_config_valid: "validate_config False default_config = []"
  by code_simp

text \<open>A file that sets nothing changes nothing, and a later section wins over the legacy keys.\<close>

lemma apply_kind_None [simp]: "apply_kind None c = c"
  by (simp add: apply_kind_def)

lemma apply_kind_types: "fk_types f = Some ts \<Longrightarrow> kc_types (apply_kind (Some f) c) = ts"
  by (simp add: apply_kind_def or_else_def)

end
