(* ===== verification/Doc_Store.thy ===== *)
theory Doc_Store
  imports Kind_Config
begin

text \<open>
  Document storage: the plugin interface, the in-memory plugin and the fan-out store
  (\<open>store/store.go\<close>, \<open>store/memstore/memstore.go\<close>). A plugin is a record of operations over
  its state, as an interface value of the source is a method table over a pointer; the
  optional interfaces (conditional put, leases) are optional fields. Each call is atomic: the
  plugins hold their mutex for the whole of it. The locale \<open>document_store\<close> states what a
  client may rely on; the in-memory plugin and the fan-out store over any such plugin are its
  interpretations.
\<close>

section \<open>The plugin interface\<close>

datatype store_error = ErrNotFound | ErrPrecondition | ErrLeased | ErrNoLease
  | ErrUnknownKind string | ErrUnknownDriver string | ErrNoStorage | ErrBackend string
  | ErrOnPrimary store_error | ErrFanout "(string, store_error) omap"

text \<open>\<open>errors.Is\<close>: a wrapped error is still what it wraps; a \<open>FanoutError\<close> wraps nothing.\<close>

fun err_is :: "store_error \<Rightarrow> store_error \<Rightarrow> bool" where
  "err_is (ErrOnPrimary e) t \<longleftrightarrow> ErrOnPrimary e = t \<or> err_is e t"
| "err_is e t \<longleftrightarrow> e = t"

fun is_fanout :: "store_error \<Rightarrow> bool" where
  "is_fanout (ErrFanout fs) \<longleftrightarrow> True"
| "is_fanout (ErrOnPrimary e) \<longleftrightarrow> is_fanout e"
| "is_fanout e \<longleftrightarrow> False"

type_synonym 's effect = "'s \<times> store_error option"

record 's leaser =
  le_acquire :: "string \<Rightarrow> string \<Rightarrow> int \<Rightarrow> int \<Rightarrow> string \<Rightarrow> 's \<Rightarrow> 's \<times> (store_error + string)"
  le_release :: "string \<Rightarrow> string \<Rightarrow> string \<Rightarrow> 's \<Rightarrow> 's effect"

record 's store_ops =
  so_name :: "'s \<Rightarrow> string"
  so_driver :: "'s \<Rightarrow> string"
  so_list :: "'s \<Rightarrow> string \<Rightarrow> store_error + document list"
  so_get :: "'s \<Rightarrow> string \<Rightarrow> string \<Rightarrow> store_error + document"
  so_put :: "document \<Rightarrow> 's \<Rightarrow> 's effect"
  so_put_if :: "(document \<Rightarrow> string \<Rightarrow> 's \<Rightarrow> 's effect) option"
  so_delete :: "string \<Rightarrow> string \<Rightarrow> 's \<Rightarrow> 's effect"
  so_list_templates :: "'s \<Rightarrow> string \<Rightarrow> store_error + template list"
  so_get_template :: "'s \<Rightarrow> string \<Rightarrow> string \<Rightarrow> store_error + template"
  so_put_template :: "template \<Rightarrow> 's \<Rightarrow> 's effect"
  so_delete_template :: "string \<Rightarrow> string \<Rightarrow> 's \<Rightarrow> 's effect"
  so_leaser :: "'s leaser option"

text \<open>The package function \<open>PutIf\<close>: atomic when the plugin can, else read, compare, put.\<close>

definition put_if :: "'s store_ops \<Rightarrow> document \<Rightarrow> string \<Rightarrow> 's \<Rightarrow> 's effect" where
  "put_if ops d prev s =
     (case so_put_if ops of
        Some f \<Rightarrow> f d prev s
      | None \<Rightarrow>
          (case so_get ops s (doc_kind d) (doc_id d) of
             Inl e \<Rightarrow> if err_is e ErrNotFound then (s, Some ErrPrecondition) else (s, Some e)
           | Inr cur \<Rightarrow>
               if fm_updated (doc_fm cur) \<noteq> prev then (s, Some ErrPrecondition)
               else so_put ops d s))"

section \<open>The plugin registry\<close>

type_synonym 's factory = "storage_def \<Rightarrow> (string, string) omap \<Rightarrow> store_error + 's"

definition register :: "string \<Rightarrow> 's factory \<Rightarrow> (string, 's factory) omap \<Rightarrow> (string, 's factory) omap" where
  "register driver f fs = om_put driver f fs"

definition drivers :: "(string, 's factory) omap \<Rightarrow> string list" where
  "drivers fs = om_keys fs"

definition open_store :: "(string, 's factory) omap \<Rightarrow> (string, string) omap \<Rightarrow> storage_def \<Rightarrow> store_error + 's" where
  "open_store fs dirs def =
     (case om_get fs (sd_kind def) of
        None \<Rightarrow> Inl (ErrUnknownDriver (sd_kind def))
      | Some f \<Rightarrow> f def dirs)"

fun open_each ::
  "('s \<Rightarrow> 's effect) \<Rightarrow> (string, 's factory) omap \<Rightarrow> (string, string) omap \<Rightarrow> storage_def list \<Rightarrow>
   's list \<Rightarrow> store_error + 's list" where
  "open_each init fs dirs [] acc = Inr acc"
| "open_each init fs dirs (def # defs) acc =
     (case open_store fs dirs def of
        Inl e \<Rightarrow> Inl e
      | Inr s \<Rightarrow>
          (case init s of
             (s', Some e) \<Rightarrow> Inl e
           | (s', None) \<Rightarrow> open_each init fs dirs defs (acc @ [s'])))"

text \<open>The stores writes fan out to: the primary, which answers reads, and the copies.\<close>

record 's multi_store =
  mu_primary :: 's
  mu_copies :: "'s list"

definition open_all ::
  "('s \<Rightarrow> 's effect) \<Rightarrow> (string, 's factory) omap \<Rightarrow> (string, string) omap \<Rightarrow> config \<Rightarrow>
   store_error + 's multi_store" where
  "open_all init fs dirs cfg =
     (case open_each init fs dirs (enabled_storage cfg) [] of
        Inl e \<Rightarrow> Inl e
      | Inr [] \<Rightarrow> Inl ErrNoStorage
      | Inr (p # cs) \<Rightarrow> Inr \<lparr>mu_primary = p, mu_copies = cs\<rparr>)"

section \<open>Leases\<close>

record mem_lease =
  ls_id :: string
  ls_expires :: int

type_synonym leases = "(string, mem_lease) omap"

definition lease_key :: "string \<Rightarrow> string \<Rightarrow> string" where
  "lease_key k i = k @ ''/'' @ i"

text \<open>The clock reading and the random lease id are arguments.\<close>

definition acquire_lease ::
  "string \<Rightarrow> string \<Rightarrow> int \<Rightarrow> int \<Rightarrow> string \<Rightarrow> leases \<Rightarrow> leases \<times> (store_error + string)" where
  "acquire_lease k i ttl now fresh ls =
     (case om_get ls (lease_key k i) of
        Some cur \<Rightarrow>
          if now < ls_expires cur then (ls, Inl ErrLeased)
          else (om_put (lease_key k i) \<lparr>ls_id = fresh, ls_expires = now + ttl\<rparr> ls, Inr fresh)
      | None \<Rightarrow> (om_put (lease_key k i) \<lparr>ls_id = fresh, ls_expires = now + ttl\<rparr> ls, Inr fresh))"

definition release_lease :: "string \<Rightarrow> string \<Rightarrow> string \<Rightarrow> leases \<Rightarrow> leases" where
  "release_lease k i lease ls =
     (case om_get ls (lease_key k i) of
        Some cur \<Rightarrow> if ls_id cur = lease then om_del (lease_key k i) ls else ls
      | None \<Rightarrow> ls)"

text \<open>
  \<open>LeaseLock\<close> tries until it holds the lease or its context is done. Each attempt is one
  poll: what the other processes did to the store since the last one, the clock and the
  random id drawn; the attempts end where the context does.
\<close>

record 's poll =
  po_env :: "'s \<Rightarrow> 's"
  po_now :: int
  po_fresh :: string

definition default_lease_ttl :: int where
  "default_lease_ttl = 30 * 10 ^ 9"

fun lease_lock ::
  "'s leaser \<Rightarrow> string \<Rightarrow> string \<Rightarrow> int \<Rightarrow> 's poll list \<Rightarrow> 's \<Rightarrow> 's \<times> (store_error + string)" where
  "lease_lock l k i ttl [] s = (s, Inl ErrLeased)"
| "lease_lock l k i ttl (p # ps) s =
     (case le_acquire l k i ttl (po_now p) (po_fresh p) (po_env p s) of
        (s', Inr lease) \<Rightarrow> (s', Inr lease)
      | (s', Inl e) \<Rightarrow> if err_is e ErrLeased then lease_lock l k i ttl ps s' else (s', Inl e))"

section \<open>The in-memory plugin\<close>

record mem_store =
  ms_name :: string
  ms_docs :: "(string \<times> string, document) omap"
  ms_templates :: "(string \<times> string, template) omap"
  ms_fail_writes :: "string option"
  ms_leases :: leases

definition mem_new :: "string \<Rightarrow> mem_store" where
  "mem_new name =
     \<lparr>ms_name = (if name = '''' then ''memory'' else name), ms_docs = [], ms_templates = [],
      ms_fail_writes = None, ms_leases = []\<rparr>"

definition check_kind :: "string \<Rightarrow> store_error option" where
  "check_kind k = (if get_kind k = None then Some (ErrUnknownKind k) else None)"

definition mem_list :: "mem_store \<Rightarrow> string \<Rightarrow> store_error + document list" where
  "mem_list s k =
     (case check_kind k of
        Some e \<Rightarrow> Inl e
      | None \<Rightarrow> Inr (sort_key doc_id (map snd (filter (\<lambda>p. fst (fst p) = k) (ms_docs s)))))"

definition mem_get :: "mem_store \<Rightarrow> string \<Rightarrow> string \<Rightarrow> store_error + document" where
  "mem_get s k i = (case om_get (ms_docs s) (k, i) of None \<Rightarrow> Inl ErrNotFound | Some d \<Rightarrow> Inr d)"

definition mem_put :: "document \<Rightarrow> mem_store \<Rightarrow> mem_store effect" where
  "mem_put d s =
     (case ms_fail_writes s of
        Some e \<Rightarrow> (s, Some (ErrBackend e))
      | None \<Rightarrow>
          (case check_kind (doc_kind d) of
             Some e \<Rightarrow> (s, Some e)
           | None \<Rightarrow> (s\<lparr>ms_docs := om_put (doc_kind d, doc_id d) d (ms_docs s)\<rparr>, None)))"

definition mem_put_if :: "document \<Rightarrow> string \<Rightarrow> mem_store \<Rightarrow> mem_store effect" where
  "mem_put_if d prev s =
     (case ms_fail_writes s of
        Some e \<Rightarrow> (s, Some (ErrBackend e))
      | None \<Rightarrow>
          (case check_kind (doc_kind d) of
             Some e \<Rightarrow> (s, Some e)
           | None \<Rightarrow>
               (case om_get (ms_docs s) (doc_kind d, doc_id d) of
                  None \<Rightarrow> (s, Some ErrPrecondition)
                | Some cur \<Rightarrow>
                    if fm_updated (doc_fm cur) \<noteq> prev then (s, Some ErrPrecondition)
                    else (s\<lparr>ms_docs := om_put (doc_kind d, doc_id d) d (ms_docs s)\<rparr>, None))))"

definition mem_delete :: "string \<Rightarrow> string \<Rightarrow> mem_store \<Rightarrow> mem_store effect" where
  "mem_delete k i s =
     (case ms_fail_writes s of
        Some e \<Rightarrow> (s, Some (ErrBackend e))
      | None \<Rightarrow>
          if om_get (ms_docs s) (k, i) = None then (s, Some ErrNotFound)
          else (s\<lparr>ms_docs := om_del (k, i) (ms_docs s)\<rparr>, None))"

definition mem_list_templates :: "mem_store \<Rightarrow> string \<Rightarrow> store_error + template list" where
  "mem_list_templates s k =
     Inr (sort_key tm_id (map snd (filter (\<lambda>p. fst (fst p) = k) (ms_templates s))))"

definition mem_get_template :: "mem_store \<Rightarrow> string \<Rightarrow> string \<Rightarrow> store_error + template" where
  "mem_get_template s k i =
     (case om_get (ms_templates s) (k, i) of None \<Rightarrow> Inl ErrNotFound | Some t \<Rightarrow> Inr t)"

definition mem_put_template :: "template \<Rightarrow> mem_store \<Rightarrow> mem_store effect" where
  "mem_put_template t s =
     (case ms_fail_writes s of
        Some e \<Rightarrow> (s, Some (ErrBackend e))
      | None \<Rightarrow>
          (case check_kind (tm_kind t) of
             Some e \<Rightarrow> (s, Some e)
           | None \<Rightarrow> (s\<lparr>ms_templates := om_put (tm_kind t, tm_id t) t (ms_templates s)\<rparr>, None)))"

definition mem_delete_template :: "string \<Rightarrow> string \<Rightarrow> mem_store \<Rightarrow> mem_store effect" where
  "mem_delete_template k i s =
     (case ms_fail_writes s of
        Some e \<Rightarrow> (s, Some (ErrBackend e))
      | None \<Rightarrow>
          if om_get (ms_templates s) (k, i) = None then (s, Some ErrNotFound)
          else (s\<lparr>ms_templates := om_del (k, i) (ms_templates s)\<rparr>, None))"

definition mem_leaser :: "mem_store leaser" where
  "mem_leaser =
     \<lparr>le_acquire = (\<lambda>k i ttl now fresh s.
        (case acquire_lease k i ttl now fresh (ms_leases s) of
           (ls, r) \<Rightarrow> (s\<lparr>ms_leases := ls\<rparr>, r))),
      le_release = (\<lambda>k i lease s. (s\<lparr>ms_leases := release_lease k i lease (ms_leases s)\<rparr>, None))\<rparr>"

definition mem_ops :: "mem_store store_ops" where
  "mem_ops =
     \<lparr>so_name = ms_name, so_driver = (\<lambda>_. ''memory''), so_list = mem_list, so_get = mem_get,
      so_put = mem_put, so_put_if = Some mem_put_if, so_delete = mem_delete,
      so_list_templates = mem_list_templates, so_get_template = mem_get_template,
      so_put_template = mem_put_template, so_delete_template = mem_delete_template,
      so_leaser = Some mem_leaser\<rparr>"

section \<open>The fan-out store\<close>

definition multi_stores :: "'s multi_store \<Rightarrow> 's list" where
  "multi_stores m = mu_primary m # mu_copies m"

definition multi_find :: "'s store_ops \<Rightarrow> string \<Rightarrow> 's multi_store \<Rightarrow> 's option" where
  "multi_find ops name m = find (\<lambda>s. so_name ops s = name) (multi_stores m)"

text \<open>
  The write on the copies: each is tried, a missing document is not an error there, and what
  failed is collected by store name.
\<close>

fun fanout_copies ::
  "('s \<Rightarrow> string) \<Rightarrow> ('s \<Rightarrow> 's effect) \<Rightarrow> 's list \<Rightarrow> (string, store_error) omap \<Rightarrow>
   's list \<times> (string, store_error) omap" where
  "fanout_copies name f [] failed = ([], failed)"
| "fanout_copies name f (s # ss) failed =
     (let (s', r) = f s;
          failed' = (case r of None \<Rightarrow> failed
                     | Some e \<Rightarrow> if err_is e ErrNotFound then failed
                                 else om_put (name s) e failed);
          (ss', failed'') = fanout_copies name f ss failed'
      in (s' # ss', failed''))"

text \<open>
  \<open>fanout\<close>: the first call of the closure is \<open>f\<close>, the later ones \<open>g\<close>. The primary must
  succeed, and its \<open>ErrNotFound\<close> is returned as it is.
\<close>

definition fanout ::
  "('s \<Rightarrow> string) \<Rightarrow> ('s \<Rightarrow> 's effect) \<Rightarrow> ('s \<Rightarrow> 's effect) \<Rightarrow> 's multi_store \<Rightarrow>
   's multi_store effect" where
  "fanout name f g m =
     (case f (mu_primary m) of
        (p, Some e) \<Rightarrow>
          (m\<lparr>mu_primary := p\<rparr>,
           Some (if err_is e ErrNotFound then ErrNotFound else ErrOnPrimary e))
      | (p, None) \<Rightarrow>
          (case fanout_copies name g (mu_copies m) [] of
             (cs, failed) \<Rightarrow>
               (\<lparr>mu_primary = p, mu_copies = cs\<rparr>,
                if failed = [] then None else Some (ErrFanout failed))))"

definition multi_put :: "'s store_ops \<Rightarrow> document \<Rightarrow> 's multi_store \<Rightarrow> 's multi_store effect" where
  "multi_put ops d m = fanout (so_name ops) (so_put ops d) (so_put ops d) m"

definition multi_put_if ::
  "'s store_ops \<Rightarrow> document \<Rightarrow> string \<Rightarrow> 's multi_store \<Rightarrow> 's multi_store effect" where
  "multi_put_if ops d prev m = fanout (so_name ops) (put_if ops d prev) (so_put ops d) m"

definition multi_delete ::
  "'s store_ops \<Rightarrow> string \<Rightarrow> string \<Rightarrow> 's multi_store \<Rightarrow> 's multi_store effect" where
  "multi_delete ops k i m = fanout (so_name ops) (so_delete ops k i) (so_delete ops k i) m"

definition multi_put_template ::
  "'s store_ops \<Rightarrow> template \<Rightarrow> 's multi_store \<Rightarrow> 's multi_store effect" where
  "multi_put_template ops t m =
     fanout (so_name ops) (so_put_template ops t) (so_put_template ops t) m"

definition multi_delete_template ::
  "'s store_ops \<Rightarrow> string \<Rightarrow> string \<Rightarrow> 's multi_store \<Rightarrow> 's multi_store effect" where
  "multi_delete_template ops k i m =
     fanout (so_name ops) (so_delete_template ops k i) (so_delete_template ops k i) m"

definition multi_acquire_lease ::
  "'s store_ops \<Rightarrow> string \<Rightarrow> string \<Rightarrow> int \<Rightarrow> int \<Rightarrow> string \<Rightarrow> 's multi_store \<Rightarrow>
   's multi_store \<times> (store_error + string)" where
  "multi_acquire_lease ops k i ttl now fresh m =
     (case so_leaser ops of
        None \<Rightarrow> (m, Inl ErrNoLease)
      | Some l \<Rightarrow>
          (case le_acquire l k i ttl now fresh (mu_primary m) of
             (p, r) \<Rightarrow> (m\<lparr>mu_primary := p\<rparr>, r)))"

definition multi_release_lease ::
  "'s store_ops \<Rightarrow> string \<Rightarrow> string \<Rightarrow> string \<Rightarrow> 's multi_store \<Rightarrow> 's multi_store effect" where
  "multi_release_lease ops k i lease m =
     (case so_leaser ops of
        None \<Rightarrow> (m, Some ErrNoLease)
      | Some l \<Rightarrow>
          (case le_release l k i lease (mu_primary m) of
             (p, r) \<Rightarrow> (m\<lparr>mu_primary := p\<rparr>, r)))"

text \<open>\<open>Lock\<close> for a primary that is a leaser; one that is neither locks nothing.\<close>

definition multi_lock ::
  "'s store_ops \<Rightarrow> string \<Rightarrow> string \<Rightarrow> 's poll list \<Rightarrow> 's multi_store \<Rightarrow>
   's multi_store \<times> (store_error + string option)" where
  "multi_lock ops k i polls m =
     (case so_leaser ops of
        None \<Rightarrow> (m, Inr None)
      | Some l \<Rightarrow>
          (case lease_lock l k i default_lease_ttl polls (mu_primary m) of
             (p, Inl e) \<Rightarrow> (m\<lparr>mu_primary := p\<rparr>, Inl e)
           | (p, Inr lease) \<Rightarrow> (m\<lparr>mu_primary := p\<rparr>, Inr (Some lease))))"

definition multi_unlock ::
  "'s store_ops \<Rightarrow> string \<Rightarrow> string \<Rightarrow> string option \<Rightarrow> 's multi_store \<Rightarrow> 's multi_store" where
  "multi_unlock ops k i lease m =
     (case lease of None \<Rightarrow> m | Some l \<Rightarrow> fst (multi_release_lease ops k i l m))"

definition multi_ops :: "'s store_ops \<Rightarrow> 's multi_store store_ops" where
  "multi_ops ops =
     \<lparr>so_name = (\<lambda>_. ''multi''), so_driver = (\<lambda>_. ''multi''),
      so_list = (\<lambda>m. so_list ops (mu_primary m)), so_get = (\<lambda>m. so_get ops (mu_primary m)),
      so_put = multi_put ops, so_put_if = Some (multi_put_if ops),
      so_delete = multi_delete ops,
      so_list_templates = (\<lambda>m. so_list_templates ops (mu_primary m)),
      so_get_template = (\<lambda>m. so_get_template ops (mu_primary m)),
      so_put_template = multi_put_template ops,
      so_delete_template = multi_delete_template ops,
      so_leaser = Some \<lparr>le_acquire = multi_acquire_lease ops, le_release = multi_release_lease ops\<rparr>\<rparr>"


section \<open>What a client may rely on\<close>

text \<open>
  A write took effect on the store that answers reads: it returned no error, or only copies
  failed.
\<close>

definition accepted :: "store_error option \<Rightarrow> bool" where
  "accepted r \<longleftrightarrow> (case r of None \<Rightarrow> True | Some e \<Rightarrow> is_fanout e)"

lemma accepted_simps [simp]: "accepted None" "accepted (Some e) \<longleftrightarrow> is_fanout e"
  by (simp_all add: accepted_def)

locale document_store =
  fixes ops :: "'s store_ops"
    and inv :: "'s \<Rightarrow> bool"
  assumes put_inv: "\<lbrakk>inv s; so_put ops d s = (s', r)\<rbrakk> \<Longrightarrow> inv s'"
    and put_accepted: "\<lbrakk>inv s; so_put ops d s = (s', r); accepted r\<rbrakk> \<Longrightarrow>
      so_get ops s' k i = (if k = doc_kind d \<and> i = doc_id d then Inr d else so_get ops s k i)"
    and put_refused: "\<lbrakk>so_put ops d s = (s', r); \<not> accepted r\<rbrakk> \<Longrightarrow> s' = s"
    and delete_inv: "\<lbrakk>inv s; so_delete ops k i s = (s', r)\<rbrakk> \<Longrightarrow> inv s'"
    and delete_accepted: "\<lbrakk>inv s; so_delete ops k i s = (s', r); accepted r\<rbrakk> \<Longrightarrow>
      so_get ops s' k' i' = (if k' = k \<and> i' = i then Inl ErrNotFound else so_get ops s k' i')"
    and delete_refused: "\<lbrakk>so_delete ops k i s = (s', r); \<not> accepted r\<rbrakk> \<Longrightarrow> s' = s"
    and get_key: "\<lbrakk>inv s; so_get ops s k i = Inr d\<rbrakk> \<Longrightarrow> doc_kind d = k \<and> doc_id d = i"
    and get_error: "so_get ops s k i = Inl e \<Longrightarrow> e = ErrNotFound"
    and list_iff: "\<lbrakk>inv s; so_list ops s k = Inr ds\<rbrakk> \<Longrightarrow>
      d \<in> set ds \<longleftrightarrow> doc_kind d = k \<and> so_get ops s k (doc_id d) = Inr d"
    and list_sorted: "\<lbrakk>inv s; so_list ops s k = Inr ds\<rbrakk> \<Longrightarrow> sorted_wrt (<) (map doc_id ds)"
    and list_kind: "(\<exists>ds. so_list ops s k = Inr ds) \<longleftrightarrow> get_kind k \<noteq> None"
    and put_template_docs: "\<lbrakk>inv s; so_put_template ops t s = (s', r)\<rbrakk> \<Longrightarrow>
      inv s' \<and> so_get ops s' = so_get ops s"
begin

lemma put_get_same:
  "\<lbrakk>inv s; so_put ops d s = (s', r); accepted r\<rbrakk> \<Longrightarrow> so_get ops s' (doc_kind d) (doc_id d) = Inr d"
  by (simp add: put_accepted)

lemma put_get_other:
  "\<lbrakk>inv s; so_put ops d s = (s', r); k \<noteq> doc_kind d \<or> i \<noteq> doc_id d\<rbrakk> \<Longrightarrow>
   so_get ops s' k i = so_get ops s k i"
  by (cases "accepted r") (auto dest: put_refused simp: put_accepted)

lemma get_listed:
  "\<lbrakk>inv s; so_list ops s k = Inr ds; so_get ops s k i = Inr d\<rbrakk> \<Longrightarrow> d \<in> set ds \<and> doc_id d = i"
  using get_key list_iff by metis

lemma list_distinct: "\<lbrakk>inv s; so_list ops s k = Inr ds\<rbrakk> \<Longrightarrow> distinct (map doc_id ds)"
  using list_sorted strict_sorted_iff by blast

text \<open>The listing is determined by what lookups answer.\<close>

lemma list_ext:
  assumes "inv s" "inv t" "\<And>i. so_get ops s k i = so_get ops t k i"
    and "so_list ops s k = Inr ds" "so_list ops t k = Inr es"
  shows "ds = es"
proof (rule map_sorted_distinct_set_unique [where f = doc_id])
  have "d \<in> set ds \<longleftrightarrow> d \<in> set es" for d
    using list_iff [OF assms(1,4), of d] list_iff [OF assms(2,5), of d] assms(3) by simp
  then have eq: "set ds = set es" by blast
  show "inj_on doc_id (set ds \<union> set es)"
    using list_distinct [OF assms(1,4)] eq by (simp add: distinct_map)
  show "set ds = set es" by (rule eq)
qed (use list_sorted [OF assms(1,4)] list_sorted [OF assms(2,5)] strict_sorted_iff in blast)+

lemma list_after_put:
  assumes "inv s" "so_put ops d s = (s', r)" "accepted r" "so_list ops s k = Inr ds"
    and "so_list ops s' k = Inr es"
  shows "set es = (if k = doc_kind d then {x \<in> set ds. doc_id x \<noteq> doc_id d} \<union> {d} else set ds)"
proof -
  have "x \<in> set es \<longleftrightarrow>
      x \<in> (if k = doc_kind d then {x \<in> set ds. doc_id x \<noteq> doc_id d} \<union> {d} else set ds)" for x
    using list_iff [OF put_inv [OF assms(1,2)] assms(5), of x] list_iff [OF assms(1,4), of x]
      put_accepted [OF assms(1,2,3), of k "doc_id x"] by auto
  then show ?thesis by blast
qed

lemma list_after_delete:
  assumes "inv s" "so_delete ops k i s = (s', r)" "accepted r" "so_list ops s k = Inr ds"
    and "so_list ops s' k = Inr es"
  shows "set es = {x \<in> set ds. doc_id x \<noteq> i}"
proof -
  have "x \<in> set es \<longleftrightarrow> x \<in> set ds \<and> doc_id x \<noteq> i" for x
    using list_iff [OF delete_inv [OF assms(1,2)] assms(5), of x] list_iff [OF assms(1,4), of x]
      delete_accepted [OF assms(1,2,3), of k "doc_id x"] by auto
  then show ?thesis by blast
qed

end

section \<open>The in-memory plugin meets the contract\<close>

text \<open>Every document is stored under its own kind and id.\<close>

definition mem_inv :: "mem_store \<Rightarrow> bool" where
  "mem_inv s \<longleftrightarrow>
     omap_wf (ms_docs s) \<and> list_all (\<lambda>((k, i), d). doc_kind d = k \<and> doc_id d = i) (ms_docs s)"

lemma mem_inv_new [simp]: "mem_inv (mem_new n)"
  by (simp add: mem_inv_def mem_new_def)

lemma mem_inv_get: "mem_inv s \<Longrightarrow> om_get (ms_docs s) (k, i) = Some d \<Longrightarrow> doc_kind d = k \<and> doc_id d = i"
  by (auto simp: mem_inv_def list_all_iff dest!: om_get_in)

lemma mem_inv_put:
  "mem_inv s \<Longrightarrow> mem_inv (s\<lparr>ms_docs := om_put (doc_kind d, doc_id d) d (ms_docs s)\<rparr>)"
  using set_om_put [of "(doc_kind d, doc_id d)" d "ms_docs s"]
  by (auto simp: mem_inv_def list_all_iff om_put_wf)

lemma mem_inv_del: "mem_inv s \<Longrightarrow> mem_inv (s\<lparr>ms_docs := om_del k (ms_docs s)\<rparr>)"
  by (auto simp: mem_inv_def om_del_wf list_all_iff) (auto simp: om_del_def)

lemmas mem_write_defs = mem_put_def mem_put_if_def mem_delete_def check_kind_def

lemma mem_list_Inr: "mem_list s k = Inr ds \<longleftrightarrow> get_kind k \<noteq> None \<and>
    ds = sort_key doc_id (map snd (filter (\<lambda>p. fst (fst p) = k) (ms_docs s)))"
  by (auto simp: mem_list_def check_kind_def)

lemma mem_docs_ids:
  assumes "mem_inv s"
  shows "map doc_id (map snd (filter (\<lambda>p. fst (fst p) = k) (ms_docs s))) =
    map (snd \<circ> fst) (filter (\<lambda>p. fst (fst p) = k) (ms_docs s))"
  using assms by (auto simp: mem_inv_def list_all_iff)

lemma mem_docs_ids_distinct:
  assumes "mem_inv s"
  shows "distinct (map doc_id (map snd (filter (\<lambda>p. fst (fst p) = k) (ms_docs s))))"
proof -
  have "distinct (map fst (ms_docs s))"
    using assms omap_wf_distinct by (auto simp: mem_inv_def)
  then have "distinct (map fst (filter (\<lambda>p. fst (fst p) = k) (ms_docs s)))"
    by (rule distinct_map_filter)
  then have "distinct (map snd (map fst (filter (\<lambda>p. fst (fst p) = k) (ms_docs s))))"
    by (subst distinct_map) (auto simp: inj_on_def)
  then show ?thesis
    unfolding mem_docs_ids [OF assms] by (simp add: comp_def)
qed

lemma mem_list_mem:
  assumes "mem_inv s" "mem_list s k = Inr ds"
  shows "d \<in> set ds \<longleftrightarrow> doc_kind d = k \<and> mem_get s k (doc_id d) = Inr d"
proof -
  have wf: "omap_wf (ms_docs s)" using assms by (simp add: mem_inv_def)
  have "d \<in> set ds \<longleftrightarrow> (\<exists>i. ((k, i), d) \<in> set (ms_docs s))"
    using assms(2) by (force simp: mem_list_Inr)
  also have "\<dots> \<longleftrightarrow> (\<exists>i. om_get (ms_docs s) (k, i) = Some d)"
    by (simp add: om_get_iff [OF wf])
  also have "\<dots> \<longleftrightarrow> doc_kind d = k \<and> om_get (ms_docs s) (k, doc_id d) = Some d"
    using mem_inv_get [OF assms(1)] by blast
  finally show ?thesis
    by (auto simp: mem_get_def split: option.splits)
qed

lemma mem_put_cases:
  assumes "mem_put d s = (s', r)"
  obtains (put) "r = None" "s' = s\<lparr>ms_docs := om_put (doc_kind d, doc_id d) d (ms_docs s)\<rparr>"
    | (refused) e where "r = Some e" "\<not> is_fanout e" "s' = s"
  using assms by (auto simp: mem_put_def check_kind_def split: option.splits if_splits)

lemma mem_delete_cases:
  assumes "mem_delete k i s = (s', r)"
  obtains (deleted) "r = None" "s' = s\<lparr>ms_docs := om_del (k, i) (ms_docs s)\<rparr>"
    | (refused) e where "r = Some e" "\<not> is_fanout e" "s' = s"
  using assms by (auto simp: mem_delete_def split: option.splits if_splits)

lemma mem_get_docs: "mem_get (s\<lparr>ms_docs := m\<rparr>) k i = (case om_get m (k, i) of None \<Rightarrow> Inl ErrNotFound | Some d \<Rightarrow> Inr d)"
  by (simp add: mem_get_def)

lemma mem_ops_sel [simp]:
  "so_name mem_ops = ms_name" "so_driver mem_ops = (\<lambda>_. ''memory'')" "so_list mem_ops = mem_list"
  "so_get mem_ops = mem_get" "so_put mem_ops = mem_put" "so_put_if mem_ops = Some mem_put_if"
  "so_delete mem_ops = mem_delete" "so_list_templates mem_ops = mem_list_templates"
  "so_get_template mem_ops = mem_get_template" "so_put_template mem_ops = mem_put_template"
  "so_delete_template mem_ops = mem_delete_template" "so_leaser mem_ops = Some mem_leaser"
  by (simp_all add: mem_ops_def)

lemma mem_get_Inr: "mem_get s k i = Inr d \<longleftrightarrow> om_get (ms_docs s) (k, i) = Some d"
  by (auto simp: mem_get_def split: option.splits)

lemma mem_get_Inl: "mem_get s k i = Inl e \<longleftrightarrow> om_get (ms_docs s) (k, i) = None \<and> e = ErrNotFound"
  by (auto simp: mem_get_def split: option.splits)

interpretation mem: document_store mem_ops mem_inv
proof (unfold_locales, unfold mem_ops_sel)
  fix s d s' r
  assume *: "mem_inv s" "mem_put d s = (s', r)"
  then show "mem_inv s'" by (auto elim: mem_put_cases simp: mem_inv_put)
  show "mem_get s' k i = (if k = doc_kind d \<and> i = doc_id d then Inr d else mem_get s k i)"
    if "accepted r" for k i
    using *(2) that by (cases rule: mem_put_cases) (auto simp: mem_get_def)
next
  fix s d s' r
  assume "mem_put d s = (s', r)" "\<not> accepted r"
  then show "s' = s" by (cases rule: mem_put_cases) auto
next
  fix s k i s' r
  assume *: "mem_inv s" "mem_delete k i s = (s', r)"
  then show "mem_inv s'" by (auto elim: mem_delete_cases simp: mem_inv_del)
  show "mem_get s' k' i' = (if k' = k \<and> i' = i then Inl ErrNotFound else mem_get s k' i')"
    if "accepted r" for k' i'
    using *(2) that by (cases rule: mem_delete_cases) (auto simp: mem_get_def)
next
  fix s k i s' r
  assume "mem_delete k i s = (s', r)" "\<not> accepted r"
  then show "s' = s" by (cases rule: mem_delete_cases) auto
next
  fix s k i d
  assume "mem_inv s" "mem_get s k i = Inr d"
  then show "doc_kind d = k \<and> doc_id d = i" by (simp add: mem_get_Inr mem_inv_get)
next
  fix s k i e
  assume "mem_get s k i = Inl e"
  then show "e = ErrNotFound" by (simp add: mem_get_Inl)
next
  fix s k
  show "(\<exists>ds. mem_list s k = Inr ds) \<longleftrightarrow> get_kind k \<noteq> None" by (simp add: mem_list_Inr)
next
  fix s t s' r
  assume "mem_inv s" "mem_put_template t s = (s', r)"
  then show "mem_inv s' \<and> mem_get s' = mem_get s"
    by (auto simp: mem_put_template_def mem_inv_def mem_get_def fun_eq_iff split: option.splits)
next
  fix s k ds
  assume *: "mem_inv s" "mem_list s k = Inr ds"
  show "d \<in> set ds \<longleftrightarrow> doc_kind d = k \<and> mem_get s k (doc_id d) = Inr d" for d
    by (rule mem_list_mem [OF *])
  have "mset (map doc_id ds) =
      mset (map doc_id (map snd (filter (\<lambda>p. fst (fst p) = k) (ms_docs s))))"
    using * by (simp add: mem_list_Inr del: map_map)
  then have "distinct (map doc_id ds)"
    using mem_docs_ids_distinct [OF *(1)] mset_eq_imp_distinct_iff by blast
  moreover have "sorted (map doc_id ds)"
    using * by (simp add: mem_list_Inr)
  ultimately show "sorted_wrt (<) (map doc_id ds)"
    by (simp add: strict_sorted_iff)
qed


section \<open>The fan-out store meets it over any plugin that does\<close>

lemma fanout_not_missing: "is_fanout e \<Longrightarrow> \<not> err_is e ErrNotFound"
  by (induction e) auto

lemma fanout_accepted_iff:
  assumes "fanout n f g m = (m', r)" "f (mu_primary m) = (p, r0)"
  shows "mu_primary m' = p \<and> (accepted r \<longleftrightarrow> accepted r0)"
  using assms
  by (cases r0) (auto simp: fanout_def dest: fanout_not_missing split: prod.splits if_splits)

lemma fanout_refused:
  assumes "fanout n f g m = (m', r)" "f (mu_primary m) = (p, Some e)"
  shows "m' = m\<lparr>mu_primary := p\<rparr>"
  using assms by (auto simp: fanout_def)

lemma multi_ops_sel [simp]:
  "so_list (multi_ops ops) = (\<lambda>m. so_list ops (mu_primary m))"
  "so_get (multi_ops ops) = (\<lambda>m. so_get ops (mu_primary m))"
  "so_put (multi_ops ops) = multi_put ops"
  "so_put_if (multi_ops ops) = Some (multi_put_if ops)"
  "so_delete (multi_ops ops) = multi_delete ops"
  "so_put_template (multi_ops ops) = multi_put_template ops"
  "so_name (multi_ops ops) = (\<lambda>_. ''multi'')"
  by (simp_all add: multi_ops_def)

lemma multi_same: "m\<lparr>mu_primary := mu_primary m\<rparr> = m"
  by simp

context document_store
begin

lemma multi_put_primary:
  assumes "multi_put ops d m = (m', r)"
  obtains p r0 where "so_put ops d (mu_primary m) = (p, r0)" "mu_primary m' = p"
    "accepted r \<longleftrightarrow> accepted r0" "\<not> accepted r \<Longrightarrow> m' = m"
proof -
  obtain p r0 where p: "so_put ops d (mu_primary m) = (p, r0)" by fastforce
  note * = fanout_accepted_iff [OF assms [unfolded multi_put_def] p]
  have "m' = m" if "\<not> accepted r"
  proof -
    obtain e where e: "r0 = Some e" using * \<open>\<not> accepted r\<close> by (cases r0) auto
    show ?thesis
      using fanout_refused [OF assms [unfolded multi_put_def] p [unfolded e]] put_refused [OF p] * that
      by simp
  qed
  then show ?thesis using that [OF p] * by blast
qed

lemma multi_delete_primary:
  assumes "multi_delete ops k i m = (m', r)"
  obtains p r0 where "so_delete ops k i (mu_primary m) = (p, r0)" "mu_primary m' = p"
    "accepted r \<longleftrightarrow> accepted r0" "\<not> accepted r \<Longrightarrow> m' = m"
proof -
  obtain p r0 where p: "so_delete ops k i (mu_primary m) = (p, r0)" by fastforce
  note * = fanout_accepted_iff [OF assms [unfolded multi_delete_def] p]
  have "m' = m" if "\<not> accepted r"
  proof -
    obtain e where e: "r0 = Some e" using * \<open>\<not> accepted r\<close> by (cases r0) auto
    show ?thesis
      using fanout_refused [OF assms [unfolded multi_delete_def] p [unfolded e]] delete_refused [OF p] * that
      by simp
  qed
  then show ?thesis using that [OF p] * by blast
qed

lemma multi_store: "document_store (multi_ops ops) (\<lambda>m. inv (mu_primary m))"
proof (unfold_locales, unfold multi_ops_sel)
  fix m d m' r
  assume i: "inv (mu_primary m)" and u: "multi_put ops d m = (m', r)"
  from u obtain p r0 where *: "so_put ops d (mu_primary m) = (p, r0)" "mu_primary m' = p"
    "accepted r \<longleftrightarrow> accepted r0" by (rule multi_put_primary)
  show "inv (mu_primary m')" using put_inv [OF i *(1)] *(2) by simp
  show "so_get ops (mu_primary m') k j =
      (if k = doc_kind d \<and> j = doc_id d then Inr d else so_get ops (mu_primary m) k j)"
    if "accepted r" for k j
    using put_accepted [OF i *(1)] that * by simp
next
  fix m d m' r
  assume "multi_put ops d m = (m', r)" "\<not> accepted r"
  then show "m' = m" by (auto elim: multi_put_primary)
next
  fix m k j m' r
  assume i: "inv (mu_primary m)" and u: "multi_delete ops k j m = (m', r)"
  from u obtain p r0 where *: "so_delete ops k j (mu_primary m) = (p, r0)" "mu_primary m' = p"
    "accepted r \<longleftrightarrow> accepted r0" by (rule multi_delete_primary)
  show "inv (mu_primary m')" using delete_inv [OF i *(1)] *(2) by simp
  show "so_get ops (mu_primary m') k' j' =
      (if k' = k \<and> j' = j then Inl ErrNotFound else so_get ops (mu_primary m) k' j')"
    if "accepted r" for k' j'
    using delete_accepted [OF i *(1)] that * by simp
next
  fix m k j m' r
  assume "multi_delete ops k j m = (m', r)" "\<not> accepted r"
  then show "m' = m" by (auto elim: multi_delete_primary)
next
  fix m t m' r
  assume i: "inv (mu_primary m)" and u: "multi_put_template ops t m = (m', r)"
  obtain p r0 where p: "so_put_template ops t (mu_primary m) = (p, r0)" by fastforce
  show "inv (mu_primary m') \<and> so_get ops (mu_primary m') = so_get ops (mu_primary m)"
    using put_template_docs [OF i p] fanout_accepted_iff [OF u [unfolded multi_put_template_def] p] by simp
qed (use get_key get_error list_iff list_sorted list_kind in blast)+

end

interpretation multi: document_store "multi_ops mem_ops" "\<lambda>m. mem_inv (mu_primary m)"
  by (rule mem.multi_store)

section \<open>The copies\<close>

lemma fanout_copies_states: "fst (fanout_copies n f ss failed) = map (\<lambda>s. fst (f s)) ss"
  by (induction ss arbitrary: failed) (simp_all add: case_prod_unfold Let_def)

definition copy_error :: "('s \<Rightarrow> 's effect) \<Rightarrow> 's \<Rightarrow> store_error option" where
  "copy_error f s =
     (case snd (f s) of None \<Rightarrow> None | Some e \<Rightarrow> if err_is e ErrNotFound then None else Some e)"

lemma fanout_copies_failed:
  assumes "distinct (map n ss)"
  shows "om_get (snd (fanout_copies n f ss failed)) x =
    (case find (\<lambda>s. n s = x) ss of None \<Rightarrow> om_get failed x
     | Some s \<Rightarrow> (case copy_error f s of None \<Rightarrow> om_get failed x | Some e \<Rightarrow> Some e))"
  using assms
proof (induction ss arbitrary: failed)
  case (Cons s ss)
  have none: "find (\<lambda>s'. n s' = n s) ss = None"
    using Cons.prems by (auto simp: find_None_iff image_iff)
  show ?case
    using Cons by (auto simp: Let_def case_prod_unfold copy_error_def none split: option.splits)
qed simp

lemma find_by_name: "distinct (map n ss) \<Longrightarrow> s \<in> set ss \<Longrightarrow> find (\<lambda>t. n t = n s) ss = Some s"
  by (induction ss) (auto simp: image_iff)

lemma fanout_None:
  assumes "fanout n f g m = (m', None)" "distinct (map n (mu_copies m))" "s \<in> set (mu_copies m)"
  shows "copy_error g s = None"
proof -
  have nil: "snd (fanout_copies n g (mu_copies m) []) = []"
    using assms(1) by (auto simp: fanout_def split: prod.splits option.splits if_splits)
  show ?thesis
    using fanout_copies_failed [OF assms(2), of g "[]" "n s"] nil find_by_name [OF assms(2,3)]
    by (simp split: option.splits)
qed


text \<open>What a put leaves on each copy of memory stores.\<close>

lemma mem_put_frame: "mem_put d s = (s', r) \<Longrightarrow> ms_name s' = ms_name s \<and> ms_templates s' = ms_templates s \<and>
    ms_fail_writes s' = ms_fail_writes s \<and> ms_leases s' = ms_leases s"
  by (auto elim: mem_put_cases)

lemma mem_put_error: "snd (mem_put d s) = Some e \<Longrightarrow> \<not> err_is e ErrNotFound"
  by (auto simp: mem_put_def check_kind_def split: option.splits if_splits)

lemma mem_put_copy:
  "copy_error (mem_put d) s = None \<Longrightarrow> mem_get (fst (mem_put d s)) (doc_kind d) (doc_id d) = Inr d"
  "copy_error (mem_put d) s = Some e \<Longrightarrow> fst (mem_put d s) = s"
  by (auto simp: copy_error_def mem_put_def check_kind_def mem_get_def split: option.splits if_splits)

lemma multi_put_states:
  assumes "multi_put mem_ops d m = (m', r)" "accepted r" "mem_inv (mu_primary m)"
  shows "mu_copies m' = map (\<lambda>s. fst (mem_put d s)) (mu_copies m)"
    "mem_get (mu_primary m') (doc_kind d) (doc_id d) = Inr d"
    "r = (let failed = snd (fanout_copies ms_name (mem_put d) (mu_copies m) [])
          in if failed = [] then None else Some (ErrFanout failed))"
proof -
  obtain p r0 where p: "mem_put d (mu_primary m) = (p, r0)" by fastforce
  have r0: "r0 = None"
    using fanout_accepted_iff [OF assms(1) [unfolded multi_put_def mem_ops_sel] p] assms(2) p
    by (auto elim: mem_put_cases)
  show "mem_get (mu_primary m') (doc_kind d) (doc_id d) = Inr d"
    using multi.put_get_same [OF assms(3)] assms(1,2) by simp
  show "mu_copies m' = map (\<lambda>s. fst (mem_put d s)) (mu_copies m)"
    "r = (let failed = snd (fanout_copies ms_name (mem_put d) (mu_copies m) [])
          in if failed = [] then None else Some (ErrFanout failed))"
    using assms(1) p r0 fanout_copies_states [of ms_name "mem_put d" "mu_copies m" "[]"]
    by (auto simp: multi_put_def fanout_def Let_def split: prod.splits)
qed

text \<open>C29. A fan-out put that the primary accepts leaves the document on the primary and on every copy
  whose name the \<open>FanoutError\<close> does not list; a listed copy is left as it was. So a put that
  reports no error has written every store.\<close>

theorem multi_put_report:
  assumes "multi_put mem_ops d m = (m', r)" "accepted r" "mem_inv (mu_primary m)"
    and "distinct (map ms_name (mu_copies m))" "j < length (mu_copies m)"
  shows "mem_get (mu_primary m') (doc_kind d) (doc_id d) = Inr d \<and>
    (case r of
       Some (ErrFanout failed) \<Rightarrow>
         if om_get failed (ms_name (mu_copies m ! j)) = None
         then mem_get (mu_copies m' ! j) (doc_kind d) (doc_id d) = Inr d
         else mu_copies m' ! j = mu_copies m ! j
     | _ \<Rightarrow> mem_get (mu_copies m' ! j) (doc_kind d) (doc_id d) = Inr d)"
proof -
  note st = multi_put_states [OF assms(1-3)]
  define s where "s = mu_copies m ! j"
  have s: "s \<in> set (mu_copies m)" using assms(5) by (simp add: s_def)
  have s': "mu_copies m' ! j = fst (mem_put d s)" using assms(5) st(1) by (simp add: s_def)
  have *: "om_get (snd (fanout_copies ms_name (mem_put d) (mu_copies m) [])) (ms_name s) =
      copy_error (mem_put d) s"
    using fanout_copies_failed [OF assms(4), of "mem_put d" "[]" "ms_name s"]
      find_by_name [OF assms(4) s] by (simp split: option.splits)
  show ?thesis
    using st(2,3) s' * mem_put_copy [of d s]
    by (cases "copy_error (mem_put d) s") (auto simp: Let_def s_def [symmetric] split: if_splits)
qed

lemma mem_put_if_cases:
  assumes "mem_put_if d prev s = (s', r)"
  obtains (put) cur where "r = None" "om_get (ms_docs s) (doc_kind d, doc_id d) = Some cur"
      "fm_updated (doc_fm cur) = prev" "ms_fail_writes s = None" "check_kind (doc_kind d) = None"
      "s' = s\<lparr>ms_docs := om_put (doc_kind d, doc_id d) d (ms_docs s)\<rparr>"
    | (refused) e where "r = Some e" "\<not> is_fanout e" "s' = s"
  using assms by (auto simp: mem_put_if_def check_kind_def split: option.splits if_splits)

text \<open>The conditional put of the memory plugin, one atomic step, gives the same store and the
  same answer as the generic read-compare-put that \<open>PutIf\<close> uses for a plugin without one,
  as long as writes are not set to fail and the kind is known.\<close>

theorem mem_put_if_generic:
  assumes "ms_fail_writes s = None" "get_kind (doc_kind d) \<noteq> None"
  shows "mem_put_if d prev s = put_if (mem_ops\<lparr>so_put_if := None\<rparr>) d prev s"
  using assms
  by (auto simp: put_if_def mem_put_if_def mem_put_def mem_get_def check_kind_def split: option.splits)

text \<open>C30. No lost update: of two conditional puts of the same document that were prepared from the
  same reading (the same \<open>updated\<close>), the second fails the precondition once the first has
  stored another \<open>updated\<close>, and it changes no store, primary or copy.\<close>

theorem multi_put_if_no_lost_update:
  assumes "multi_put_if mem_ops d prev m = (m', r)" "accepted r"
    and "doc_kind e = doc_kind d" "doc_id e = doc_id d" "fm_updated (doc_fm d) \<noteq> prev"
  shows "multi_put_if mem_ops e prev m' = (m', Some (ErrOnPrimary ErrPrecondition))"
proof -
  obtain p r0 where p: "mem_put_if d prev (mu_primary m) = (p, r0)" by fastforce
  have *: "put_if mem_ops d prev (mu_primary m) = (p, r0)" using p by (simp add: put_if_def)
  have acc: "accepted r0" and m': "mu_primary m' = p"
    using fanout_accepted_iff [OF assms(1) [unfolded multi_put_if_def mem_ops_sel] *] assms(2) by simp_all
  from p have "om_get (ms_docs p) (doc_kind d, doc_id d) = Some d \<and> ms_fail_writes p = None \<and>
      check_kind (doc_kind d) = None"
    by (cases rule: mem_put_if_cases) (use acc in auto)
  then have "mem_put_if e prev (mu_primary m') = (mu_primary m', Some ErrPrecondition)"
    using assms m' by (simp add: mem_put_if_def)
  then show ?thesis
    by (simp add: multi_put_if_def fanout_def put_if_def)
qed


section \<open>Leases exclude each other\<close>

text \<open>
  Processes sharing one store take and release leases while the clock runs. What a process
  believes to hold is a ticket: the key, the lease id it was given and when it expires. The
  random ids are 128 bits; that they do not repeat is a condition of the step.
\<close>

record ticket =
  ti_process :: string
  ti_key :: string
  ti_lease :: string
  ti_expires :: int

record lease_world =
  lw_leases :: leases
  lw_now :: int
  lw_used :: "string list"
  lw_tickets :: "ticket list"

inductive lease_step :: "lease_world \<Rightarrow> lease_world \<Rightarrow> bool" where
  acquire: "\<lbrakk>fresh \<notin> set (lw_used w); acquire_lease k i ttl (lw_now w) fresh (lw_leases w) = (ls, Inr l)\<rbrakk> \<Longrightarrow>
    lease_step w (w\<lparr>lw_leases := ls, lw_used := fresh # lw_used w,
      lw_tickets := \<lparr>ti_process = p, ti_key = lease_key k i, ti_lease = l, ti_expires = lw_now w + ttl\<rparr>
        # lw_tickets w\<rparr>)"
| busy: "acquire_lease k i ttl (lw_now w) fresh (lw_leases w) = (ls, Inl e) \<Longrightarrow>
    lease_step w (w\<lparr>lw_leases := ls\<rparr>)"
| release: "\<lbrakk>t \<in> set (lw_tickets w); ti_key t = lease_key k i\<rbrakk> \<Longrightarrow>
    lease_step w (w\<lparr>lw_leases := release_lease k i (ti_lease t) (lw_leases w),
      lw_tickets := filter (\<lambda>u. ti_lease u \<noteq> ti_lease t) (lw_tickets w)\<rparr>)"
| tick: "0 \<le> d \<Longrightarrow> lease_step w (w\<lparr>lw_now := lw_now w + d\<rparr>)"

definition lease_start :: "int \<Rightarrow> lease_world" where
  "lease_start now = \<lparr>lw_leases = [], lw_now = now, lw_used = [], lw_tickets = []\<rparr>"

inductive lease_reachable :: "lease_world \<Rightarrow> bool" where
  start: "lease_reachable (lease_start now)"
| step: "\<lbrakk>lease_reachable w; lease_step w w'\<rbrakk> \<Longrightarrow> lease_reachable w'"

inductive_cases lease_stepE: "lease_step w w'"

text \<open>An unexpired ticket is the entry of the store, and a lease id names one ticket.\<close>

definition lease_inv :: "lease_world \<Rightarrow> bool" where
  "lease_inv w \<longleftrightarrow>
     (\<forall>t \<in> set (lw_tickets w). ti_lease t \<in> set (lw_used w) \<and>
        (lw_now w < ti_expires t \<longrightarrow>
           om_get (lw_leases w) (ti_key t) = Some \<lparr>ls_id = ti_lease t, ls_expires = ti_expires t\<rparr>)) \<and>
     distinct (map ti_lease (lw_tickets w))"

lemma acquire_lease_cases:
  assumes "acquire_lease k i ttl now fresh ls = (ls', r)"
  obtains (taken) "r = Inr fresh" "ls' = om_put (lease_key k i) \<lparr>ls_id = fresh, ls_expires = now + ttl\<rparr> ls"
      "\<And>cur. om_get ls (lease_key k i) = Some cur \<Longrightarrow> \<not> now < ls_expires cur"
    | (held) cur where "r = Inl ErrLeased" "ls' = ls" "om_get ls (lease_key k i) = Some cur"
      "now < ls_expires cur"
  using assms by (auto simp: acquire_lease_def split: option.splits if_splits)

lemma lease_inv_start: "lease_inv (lease_start now)"
  by (simp add: lease_inv_def lease_start_def)

lemma lease_inv_step: "lease_step w w' \<Longrightarrow> lease_inv w \<Longrightarrow> lease_inv w'"
proof (induction rule: lease_step.induct)
  case (acquire fresh w k i ttl ls l p)
  from acquire(2) have l: "l = fresh"
      "ls = om_put (lease_key k i) \<lparr>ls_id = fresh, ls_expires = lw_now w + ttl\<rparr> (lw_leases w)"
    and free: "\<And>cur. om_get (lw_leases w) (lease_key k i) = Some cur \<Longrightarrow> \<not> lw_now w < ls_expires cur"
    by (auto elim: acquire_lease_cases)
  have "ti_key t \<noteq> lease_key k i" if "t \<in> set (lw_tickets w)" "lw_now w < ti_expires t" for t
    using that acquire(3) free [of "\<lparr>ls_id = ti_lease t, ls_expires = ti_expires t\<rparr>"]
    by (auto simp: lease_inv_def)
  then show ?case
    using acquire(1,3) l by (auto simp: lease_inv_def)
next
  case (busy k i ttl w fresh ls e)
  then show ?case by (auto elim: acquire_lease_cases)
next
  case (release t w k i)
  have "om_get (release_lease k i (ti_lease t) (lw_leases w)) (ti_key u) = om_get (lw_leases w) (ti_key u)"
    if "u \<in> set (lw_tickets w)" "ti_lease u \<noteq> ti_lease t" "lw_now w < ti_expires u" for u
    using that release(3) by (fastforce simp: lease_inv_def release_lease_def split: option.splits)
  then show ?case
    using release(3) by (auto simp: lease_inv_def distinct_map_filter)
qed (auto simp: lease_inv_def)

lemma lease_inv_reachable: "lease_reachable w \<Longrightarrow> lease_inv w"
  by (induction rule: lease_reachable.induct) (auto intro: lease_inv_start lease_inv_step)

text \<open>C31. Mutual exclusion: in every state that processes acquiring, releasing and waiting can reach,
  two unexpired tickets for the same document are the same ticket, so no two processes hold
  the lease of a document at the same time.\<close>

theorem lease_mutual_exclusion:
  assumes "lease_reachable w" "t \<in> set (lw_tickets w)" "u \<in> set (lw_tickets w)"
    and "ti_key t = ti_key u" "lw_now w < ti_expires t" "lw_now w < ti_expires u"
  shows "t = u"
proof -
  have "om_get (lw_leases w) (ti_key t) = Some \<lparr>ls_id = ti_lease t, ls_expires = ti_expires t\<rparr>"
    "om_get (lw_leases w) (ti_key u) = Some \<lparr>ls_id = ti_lease u, ls_expires = ti_expires u\<rparr>"
    using lease_inv_reachable [OF assms(1)] assms(2,3,5,6) by (simp_all add: lease_inv_def)
  then have "ti_lease t = ti_lease u" using assms(4) by simp
  then show ?thesis
    using lease_inv_reachable [OF assms(1)] assms(2,3) by (auto simp: lease_inv_def distinct_map inj_on_def)
qed

lemma err_leased_taken: "acquire_lease k i ttl now fresh ls = (ls', Inl e) \<Longrightarrow> e = ErrLeased \<and> ls' = ls"
  by (auto elim: acquire_lease_cases)

text \<open>C38. Waiting for a lease ends with it: with at least one poll at which the document has no
  unexpired lease, \<open>LeaseLock\<close> on the memory plugin returns a lease, and the
  store then holds exactly the lease it returned.\<close>

theorem lease_lock_succeeds:
  assumes free: "\<And>s cur. om_get (ms_leases (po_env p s)) (lease_key k i) = Some cur \<Longrightarrow> ls_expires cur \<le> po_now p"
    and p: "p \<in> set polls"
  shows "\<exists>s' l e. lease_lock mem_leaser k i ttl polls s = (s', Inr l) \<and>
    om_get (ms_leases s') (lease_key k i) = Some \<lparr>ls_id = l, ls_expires = e\<rparr>"
  using p
proof (induction polls arbitrary: s)
  case (Cons q qs)
  obtain ls r where a: "acquire_lease k i ttl (po_now q) (po_fresh q) (ms_leases (po_env q s)) = (ls, r)"
    by fastforce
  show ?case
  proof (cases r)
    case (Inr l)
    then show ?thesis using a by (auto simp: mem_leaser_def elim: acquire_lease_cases)
  next
    case (Inl e)
    then have "q \<noteq> p" using a free by (force elim: acquire_lease_cases)
    then show ?thesis
      using Cons a Inl by (auto simp: mem_leaser_def dest: err_leased_taken)
  qed
qed simp

end
