(* ===== verification/Doc_Sync.thy ===== *)
theory Doc_Sync
  imports Doc_Store
begin

text \<open>
  Copying every document and template from one store into another (\<open>store/sync.go\<close>): the
  conflict modes, the comparison of two copies, the run with its report and its first error,
  and what holds after it. The lemmas on a run are proved once for any plugin that meets
  \<open>document_store\<close> and hold of the memory plugin by its interpretation.
\<close>

datatype conflict_mode = ConflictError | ConflictSkip | ConflictOverwrite | ConflictNewer

definition parse_conflict_mode :: "string \<Rightarrow> conflict_mode option" where
  "parse_conflict_mode s =
     (if s \<in> {'''', ''error'', ''fail'', ''abort''} then Some ConflictError
      else if s \<in> {''skip'', ''report''} then Some ConflictSkip
      else if s \<in> {''overwrite'', ''force'', ''source''} then Some ConflictOverwrite
      else if s \<in> {''newer'', ''latest''} then Some ConflictNewer
      else None)"

record kind_sync =
  ks_copied :: "string list"
  ks_unchanged :: "string list"
  ks_overwritten :: "string list"
  ks_conflicts :: "string list"

definition new_kind_sync :: kind_sync where
  "new_kind_sync = \<lparr>ks_copied = [], ks_unchanged = [], ks_overwritten = [], ks_conflicts = []\<rparr>"

record sync_report =
  sr_from :: string
  sr_to :: string
  sr_mode :: conflict_mode
  sr_documents :: "(string, kind_sync) omap"
  sr_templates :: "string list"
  sr_template_conflicts :: "string list"

definition report_conflicts :: "sync_report \<Rightarrow> string list" where
  "report_conflicts r =
     concat (map (\<lambda>k. case om_get (sr_documents r) (k_name k) of
                        None \<Rightarrow> []
                      | Some ks \<Rightarrow> map (\<lambda>i. k_name k @ '' '' @ i) (ks_conflicts ks)) all_kinds)"

datatype sync_error = SyncConflict string | SyncStore store_error

section \<open>Comparing two copies\<close>

text \<open>
  A nil and an empty list are one value here, so of the normalisation there remains the
  empty links object, which counts as absent.
\<close>

definition normalize_fm :: "front_matter \<Rightarrow> front_matter" where
  "normalize_fm f =
     f\<lparr>fm_links := (case fm_links f of None \<Rightarrow> None
                    | Some l \<Rightarrow> if links_is_empty l then None else Some l)\<rparr>"

definition documents_equal :: "document \<Rightarrow> document \<Rightarrow> bool" where
  "documents_equal a b \<longleftrightarrow>
     doc_kind a = doc_kind b \<and> doc_path a = doc_path b \<and> doc_content a = doc_content b \<and>
     normalize_fm (doc_fm a) = normalize_fm (doc_fm b)"

definition parse_updated :: "string \<Rightarrow> datetime option" where
  "parse_updated v =
     (if v = '''' then None
      else case normalize_timestamp v of None \<Rightarrow> None | Some n \<Rightarrow> time_parse timestamp_layout n)"

definition datetime_before :: "datetime \<Rightarrow> datetime \<Rightarrow> bool" where
  "datetime_before a b \<longleftrightarrow>
     (dt_year a, dt_month a, dt_day a, dt_hour a, dt_minute a, dt_second a, dt_nanos a) <
     (dt_year b, dt_month b, dt_day b, dt_hour b, dt_minute b, dt_second b, dt_nanos b)"

definition source_is_newer :: "string \<Rightarrow> string \<Rightarrow> bool" where
  "source_is_newer source target \<longleftrightarrow>
     (case parse_updated source of None \<Rightarrow> False
      | Some s \<Rightarrow> (case parse_updated target of None \<Rightarrow> False
                   | Some t \<Rightarrow> \<not> datetime_before s t))"

section \<open>The run\<close>

text \<open>One document of the source: the target store, the summary and the error after it.\<close>

definition sync_document ::
  "'s store_ops \<Rightarrow> conflict_mode \<Rightarrow> string \<Rightarrow> document \<Rightarrow> 's \<Rightarrow> kind_sync \<Rightarrow>
   's \<times> kind_sync \<times> sync_error option" where
  "sync_document ops mode k d to ks =
     (case so_get ops to k (doc_id d) of
        Inl e \<Rightarrow>
          if err_is e ErrNotFound then
            (case so_put ops d to of
               (to', Some e') \<Rightarrow> (to', ks, Some (SyncStore e'))
             | (to', None) \<Rightarrow> (to', ks\<lparr>ks_copied := ks_copied ks @ [doc_id d]\<rparr>, None))
          else (to, ks, Some (SyncStore e))
      | Inr existing \<Rightarrow>
          if documents_equal existing d then
            (to, ks\<lparr>ks_unchanged := ks_unchanged ks @ [doc_id d]\<rparr>, None)
          else if mode = ConflictNewer \<and>
                  \<not> source_is_newer (fm_updated (doc_fm d)) (fm_updated (doc_fm existing)) then
            (to, ks\<lparr>ks_conflicts := ks_conflicts ks @ [doc_id d]\<rparr>, None)
          else
            (case mode of
               ConflictSkip \<Rightarrow> (to, ks\<lparr>ks_conflicts := ks_conflicts ks @ [doc_id d]\<rparr>, None)
             | ConflictError \<Rightarrow>
                 (to, ks\<lparr>ks_conflicts := ks_conflicts ks @ [doc_id d]\<rparr>,
                  Some (SyncConflict (k @ '' '' @ doc_id d)))
             | _ \<Rightarrow>
                 (case so_put ops d to of
                    (to', Some e') \<Rightarrow> (to', ks, Some (SyncStore e'))
                  | (to', None) \<Rightarrow>
                      (to', ks\<lparr>ks_overwritten := ks_overwritten ks @ [doc_id d]\<rparr>, None))))"

fun sync_each ::
  "'s store_ops \<Rightarrow> conflict_mode \<Rightarrow> string \<Rightarrow> document list \<Rightarrow> 's \<Rightarrow> kind_sync \<Rightarrow>
   's \<times> kind_sync \<times> sync_error option" where
  "sync_each ops mode k [] to ks = (to, ks, None)"
| "sync_each ops mode k (d # ds) to ks =
     (case sync_document ops mode k d to ks of
        (to', ks', Some e) \<Rightarrow> (to', ks', Some e)
      | (to', ks', None) \<Rightarrow> sync_each ops mode k ds to' ks')"

definition sync_documents ::
  "'s store_ops \<Rightarrow> conflict_mode \<Rightarrow> string \<Rightarrow> 's \<Rightarrow> 's \<Rightarrow> kind_sync \<Rightarrow>
   's \<times> kind_sync \<times> sync_error option" where
  "sync_documents ops mode k from to ks =
     (case so_list ops from k of
        Inl e \<Rightarrow> (to, ks, Some (SyncStore e))
      | Inr docs \<Rightarrow> sync_each ops mode k (sort_key doc_id docs) to ks)"

fun sync_template_each ::
  "'s store_ops \<Rightarrow> conflict_mode \<Rightarrow> string \<Rightarrow> template list \<Rightarrow> 's \<Rightarrow> sync_report \<Rightarrow>
   's \<times> sync_report \<times> sync_error option" where
  "sync_template_each ops mode k [] to rep = (to, rep, None)"
| "sync_template_each ops mode k (t # ts) to rep =
     (let label = k @ ''/'' @ tm_id t;
          copied = rep\<lparr>sr_templates := sr_templates rep @ [label]\<rparr>;
          conflict = rep\<lparr>sr_template_conflicts := sr_template_conflicts rep @ [label]\<rparr>;
          put = (case so_put_template ops t to of
                     (to', Some e) \<Rightarrow> (to', rep, Some (SyncStore e))
                   | (to', None) \<Rightarrow> (to', copied, None));
          outcome =
            (case so_get_template ops to k (tm_id t) of
               Inl e \<Rightarrow> if err_is e ErrNotFound then put else (to, rep, Some (SyncStore e))
             | Inr existing \<Rightarrow>
                 if tm_content existing = tm_content t then (to, rep, None)
                 else if mode = ConflictNewer \<and>
                         \<not> source_is_newer (tm_updated t) (tm_updated existing) then
                   (to, conflict, None)
                 else
                   (case mode of
                      ConflictSkip \<Rightarrow> (to, conflict, None)
                    | ConflictError \<Rightarrow> (to, conflict, Some (SyncConflict label))
                    | _ \<Rightarrow> put))
      in case outcome of
           (to', rep', Some e) \<Rightarrow> (to', rep', Some e)
         | (to', rep', None) \<Rightarrow> sync_template_each ops mode k ts to' rep')"

definition sync_templates ::
  "'s store_ops \<Rightarrow> conflict_mode \<Rightarrow> string \<Rightarrow> 's \<Rightarrow> 's \<Rightarrow> sync_report \<Rightarrow>
   's \<times> sync_report \<times> sync_error option" where
  "sync_templates ops mode k from to rep =
     (case so_list_templates ops from k of
        Inl e \<Rightarrow> (to, rep, Some (SyncStore e))
      | Inr ts \<Rightarrow> sync_template_each ops mode k ts to rep)"

fun sync_kinds ::
  "'s store_ops \<Rightarrow> conflict_mode \<Rightarrow> kind list \<Rightarrow> 's \<Rightarrow> 's \<Rightarrow> sync_report \<Rightarrow>
   's \<times> sync_report \<times> sync_error option" where
  "sync_kinds ops mode [] from to rep = (to, rep, None)"
| "sync_kinds ops mode (k # ks) from to rep =
     (case sync_documents ops mode (k_name k) from to new_kind_sync of
        (to', s, e) \<Rightarrow>
          (let rep' = rep\<lparr>sr_documents := om_put (k_name k) s (sr_documents rep)\<rparr>
           in case e of Some err \<Rightarrow> (to', rep', Some err)
              | None \<Rightarrow> sync_kinds ops mode ks from to' rep'))"

fun sync_template_kinds ::
  "'s store_ops \<Rightarrow> conflict_mode \<Rightarrow> kind list \<Rightarrow> 's \<Rightarrow> 's \<Rightarrow> sync_report \<Rightarrow>
   's \<times> sync_report \<times> sync_error option" where
  "sync_template_kinds ops mode [] from to rep = (to, rep, None)"
| "sync_template_kinds ops mode (k # ks) from to rep =
     (case sync_templates ops mode (k_name k) from to rep of
        (to', rep', Some e) \<Rightarrow> (to', rep', Some e)
      | (to', rep', None) \<Rightarrow> sync_template_kinds ops mode ks from to' rep')"

definition sync ::
  "'s store_ops \<Rightarrow> conflict_mode \<Rightarrow> 's \<Rightarrow> 's \<Rightarrow> 's \<times> sync_report \<times> sync_error option" where
  "sync ops mode from to =
     (let rep = \<lparr>sr_from = so_name ops from, sr_to = so_name ops to, sr_mode = mode,
                 sr_documents = [], sr_templates = [], sr_template_conflicts = []\<rparr>
      in case sync_kinds ops mode all_kinds from to rep of
           (to', rep', Some e) \<Rightarrow> (to', rep', Some e)
         | (to', rep', None) \<Rightarrow> sync_template_kinds ops mode all_kinds from to' rep')"

section \<open>Facts\<close>

lemma documents_equal_refl [simp]: "documents_equal d d"
  by (simp add: documents_equal_def)

lemma documents_equal_sym: "documents_equal a b \<longleftrightarrow> documents_equal b a"
  by (auto simp: documents_equal_def)

lemma documents_equal_trans: "documents_equal a b \<Longrightarrow> documents_equal b c \<Longrightarrow> documents_equal a c"
  by (simp add: documents_equal_def)

lemma datetime_before_total: "\<not> datetime_before a b \<Longrightarrow> \<not> datetime_before b a \<Longrightarrow> (a :: datetime) = b"
  by (simp add: datetime_before_def not_less prod_eq_iff)

text \<open>The summary lists every id it has dealt with, in one of its four lists.\<close>

definition ks_all :: "kind_sync \<Rightarrow> string multiset" where
  "ks_all ks = mset (ks_copied ks) + mset (ks_unchanged ks) + mset (ks_overwritten ks) + mset (ks_conflicts ks)"

text \<open>When a run may write a document: the target has none, or its mode lets the source win.\<close>

definition may_write :: "'s store_ops \<Rightarrow> conflict_mode \<Rightarrow> string \<Rightarrow> document \<Rightarrow> 's \<Rightarrow> bool" where
  "may_write ops mode k d to \<longleftrightarrow>
     (case so_get ops to k (doc_id d) of
        Inl _ \<Rightarrow> True
      | Inr x \<Rightarrow> mode = ConflictOverwrite \<or>
          mode = ConflictNewer \<and> source_is_newer (fm_updated (doc_fm d)) (fm_updated (doc_fm x)))"

context document_store
begin

text \<open>The ways a document can go, with the target after it.\<close>

lemma sync_document_cases:
  assumes "sync_document ops mode k d to ks = (to', ks', None)" "inv to" "doc_kind d = k"
  obtains (copied) "so_get ops to k (doc_id d) = Inl ErrNotFound" "so_put ops d to = (to', None)"
      "ks' = ks\<lparr>ks_copied := ks_copied ks @ [doc_id d]\<rparr>"
    | (unchanged) x where "so_get ops to k (doc_id d) = Inr x" "documents_equal x d" "to' = to"
      "ks' = ks\<lparr>ks_unchanged := ks_unchanged ks @ [doc_id d]\<rparr>"
    | (conflict) x where "so_get ops to k (doc_id d) = Inr x" "\<not> documents_equal x d" "to' = to"
      "ks' = ks\<lparr>ks_conflicts := ks_conflicts ks @ [doc_id d]\<rparr>"
      "mode = ConflictSkip \<or>
       mode = ConflictNewer \<and> \<not> source_is_newer (fm_updated (doc_fm d)) (fm_updated (doc_fm x))"
    | (overwritten) x where "so_get ops to k (doc_id d) = Inr x" "\<not> documents_equal x d"
      "so_put ops d to = (to', None)" "ks' = ks\<lparr>ks_overwritten := ks_overwritten ks @ [doc_id d]\<rparr>"
      "mode = ConflictOverwrite \<or>
       mode = ConflictNewer \<and> source_is_newer (fm_updated (doc_fm d)) (fm_updated (doc_fm x))"
proof (cases "so_get ops to k (doc_id d)")
  case (Inl e)
  then have "e = ErrNotFound" by (rule get_error)
  then show ?thesis
    using Inl assms(1) by (intro copied) (auto simp: sync_document_def split: prod.splits option.splits)
next
  case (Inr x)
  show ?thesis
  proof (cases mode)
    case ConflictError
    then show ?thesis
      using Inr assms(1) by (intro unchanged) (auto simp: sync_document_def split: if_splits)
  next
    case ConflictSkip
    then show ?thesis
      using Inr assms(1) unchanged conflict by (auto simp: sync_document_def split: if_splits)
  next
    case ConflictOverwrite
    then show ?thesis
      using Inr assms(1) unchanged overwritten
      by (auto simp: sync_document_def split: if_splits prod.splits option.splits)
  next
    case ConflictNewer
    then show ?thesis
      using Inr assms(1) unchanged conflict overwritten
      by (auto simp: sync_document_def split: if_splits prod.splits option.splits)
  qed
qed

text \<open>What one step writes: nothing, or this document.\<close>

lemma sync_document_effect:
  assumes "sync_document ops mode k d to ks = (to', ks', e)" "inv to"
  shows "inv to' \<and> (to' = to \<or> (\<exists>r. so_put ops d to = (to', r) \<and> (e = None \<longleftrightarrow> r = None)))"
  using assms put_inv [OF assms(2), of d]
  by (auto simp: sync_document_def split: sum.splits if_splits prod.splits option.splits conflict_mode.splits)

lemma sync_document_conflicts:
  "sync_document ops mode k d to ks = (to', ks', e) \<Longrightarrow> set (ks_conflicts ks) \<subseteq> set (ks_conflicts ks')"
  by (auto simp: sync_document_def split: sum.splits if_splits prod.splits option.splits conflict_mode.splits)

lemma sync_each_conflicts:
  "sync_each ops mode k ds to ks = (to', ks', e) \<Longrightarrow> set (ks_conflicts ks) \<subseteq> set (ks_conflicts ks')"
proof (induction ds arbitrary: to ks)
  case (Cons d ds)
  obtain t s r where st: "sync_document ops mode k d to ks = (t, s, r)" by (metis prod_cases3)
  show ?case
    using Cons st sync_document_conflicts [OF st] by (cases r) fastforce+
qed simp

lemma sync_document_other:
  assumes "sync_document ops mode k d to ks = (to', ks', e)" "inv to"
    and "k' \<noteq> doc_kind d \<or> i \<noteq> doc_id d"
  shows "so_get ops to' k' i = so_get ops to k' i"
  using sync_document_effect [OF assms(1,2)] put_get_other [OF assms(2) _ assms(3)] by auto

lemma sync_each_inv: "sync_each ops mode k ds to ks = (to', ks', e) \<Longrightarrow> inv to \<Longrightarrow> inv to'"
proof (induction ds arbitrary: to ks)
  case (Cons d ds)
  then show ?case
    by (auto split: prod.splits option.splits dest: sync_document_effect)
qed simp

lemma sync_each_other:
  assumes "sync_each ops mode k ds to ks = (to', ks', e)" "inv to"
    and "\<forall>d \<in> set ds. doc_kind d = k" "k' \<noteq> k \<or> i \<notin> doc_id ` set ds"
  shows "so_get ops to' k' i = so_get ops to k' i"
  using assms
proof (induction ds arbitrary: to ks)
  case (Cons d ds)
  obtain t s r where st: "sync_document ops mode k d to ks = (t, s, r)" by (metis prod_cases3)
  have "so_get ops t k' i = so_get ops to k' i"
    using sync_document_other [OF st Cons.prems(2), of k' i] Cons.prems(3,4) by auto
  moreover have "inv t" using sync_document_effect [OF st Cons.prems(2)] by blast
  ultimately show ?case
    using Cons st by (cases r) auto
qed simp

text \<open>
  A run over distinct documents without error puts each of them where the lookup finds an
  equal copy, or reports it as a conflict and leaves the target's copy.
\<close>

lemma sync_each_result:
  assumes "sync_each ops mode k ds to ks = (to', ks', None)" "inv to"
    and "\<forall>d \<in> set ds. doc_kind d = k" "distinct (map doc_id ds)" "d \<in> set ds"
  shows "(\<exists>x. so_get ops to' k (doc_id d) = Inr x \<and> documents_equal x d \<and>
            (so_get ops to k (doc_id d) = Inr x \<or> x = d \<and> may_write ops mode k d to)) \<or>
         (\<exists>x. so_get ops to k (doc_id d) = Inr x \<and> so_get ops to' k (doc_id d) = Inr x \<and>
            doc_id d \<in> set (ks_conflicts ks') \<and>
            (mode = ConflictSkip \<or>
             mode = ConflictNewer \<and> \<not> source_is_newer (fm_updated (doc_fm d)) (fm_updated (doc_fm x))))"
    (is "?ok to' \<or> ?conflict to' ks'")
  using assms
proof (induction ds arbitrary: to ks)
  case (Cons c ds)
  obtain t s where st: "sync_document ops mode k c to ks = (t, s, None)"
    and rest: "sync_each ops mode k ds t s = (to', ks', None)"
    using Cons.prems(1) by (auto split: prod.splits option.splits)
  have t: "inv t" using sync_document_effect [OF st Cons.prems(2)] by blast
  have kept: "set (ks_conflicts s) \<subseteq> set (ks_conflicts ks')"
    by (rule sync_each_conflicts [OF rest])
  show ?case
  proof (cases "d = c")
    case True
    have same: "so_get ops to' k (doc_id c) = so_get ops t k (doc_id c)"
      using sync_each_other [OF rest t] Cons.prems(3,4) by (simp add: image_iff)
    have ck: "doc_kind c = k" using Cons.prems(3) by simp
    from st Cons.prems(2) ck show ?thesis
    proof (cases rule: sync_document_cases)
      case copied
      then show ?thesis using same True put_get_same [OF Cons.prems(2) copied(2)] ck
        by (auto simp: may_write_def)
    next
      case overwritten
      then show ?thesis using same True put_get_same [OF Cons.prems(2) overwritten(3)] ck
        by (auto simp: may_write_def)
    qed (use same True kept in auto)
  next
    case False
    then have d: "d \<in> set ds" using Cons.prems(5) by simp
    have "doc_id d \<noteq> doc_id c" using Cons.prems(4) d by (auto simp: image_iff)
    then have same: "so_get ops t k (doc_id d) = so_get ops to k (doc_id d)"
      using sync_document_other [OF st Cons.prems(2)] by simp
    show ?thesis
      using Cons.IH [OF rest t] Cons.prems(3,4) d same by (simp add: may_write_def)
  qed
qed simp

lemma sync_each_report:
  "sync_each ops mode k ds to ks = (to', ks', None) \<Longrightarrow> ks_all ks' = ks_all ks + mset (map doc_id ds)"
proof (induction ds arbitrary: to ks)
  case (Cons c ds)
  obtain t s where st: "sync_document ops mode k c to ks = (t, s, None)"
    and rest: "sync_each ops mode k ds t s = (to', ks', None)"
    using Cons.prems(1) by (auto split: prod.splits option.splits)
  have "ks_all s = ks_all ks + {# doc_id c #}"
    using st by (auto simp: sync_document_def ks_all_def
      split: sum.splits if_splits prod.splits option.splits conflict_mode.splits)
  then show ?case using Cons.IH [OF rest] by simp
qed (simp add: ks_all_def)

text \<open>A run over documents the target already has in an equal copy does nothing.\<close>

lemma sync_each_fixed:
  assumes "\<forall>d \<in> set ds. \<exists>x. so_get ops to k (doc_id d) = Inr x \<and> documents_equal x d"
  shows "sync_each ops mode k ds to ks =
    (to, ks\<lparr>ks_unchanged := ks_unchanged ks @ map doc_id ds\<rparr>, None)"
  using assms
proof (induction ds arbitrary: ks)
  case (Cons c ds)
  then obtain x where "so_get ops to k (doc_id c) = Inr x" "documents_equal x c" by auto
  then have "sync_document ops mode k c to ks =
      (to, ks\<lparr>ks_unchanged := ks_unchanged ks @ [doc_id c]\<rparr>, None)"
    by (simp add: sync_document_def)
  then show ?case using Cons by simp
qed simp

end


context document_store
begin

lemma sorted_list:
  assumes "inv s" "so_list ops s k = Inr ds"
  shows "sort_key doc_id ds = ds"
  using list_sorted [OF assms] by (intro sort_key_id_if_sorted) (simp add: strict_sorted_iff)

lemma sync_documents_Inr:
  assumes "sync_documents ops mode k from to ks = (to', ks', None)" "inv from"
  obtains ds where "so_list ops from k = Inr ds" "sync_each ops mode k ds to ks = (to', ks', None)"
    "\<forall>d \<in> set ds. doc_kind d = k" "distinct (map doc_id ds)"
proof -
  obtain ds where ds: "so_list ops from k = Inr ds"
    using assms(1) by (auto simp: sync_documents_def split: sum.splits)
  then have "sync_each ops mode k ds to ks = (to', ks', None)"
    using assms by (simp add: sync_documents_def sorted_list)
  then show ?thesis
    using that [OF ds] list_distinct [OF assms(2) ds] list_iff [OF assms(2) ds] by blast
qed

lemma sync_documents_frame:
  assumes "sync_documents ops mode k from to ks = (to', ks', e)" "inv from" "inv to"
  shows "inv to' \<and> (\<forall>k' i. k' \<noteq> k \<longrightarrow> so_get ops to' k' i = so_get ops to k' i)"
proof (cases "so_list ops from k")
  case (Inl err)
  then show ?thesis using assms by (auto simp: sync_documents_def)
next
  case (Inr ds)
  then have "sync_each ops mode k ds to ks = (to', ks', e)"
    using assms by (simp add: sync_documents_def sorted_list)
  then show ?thesis
    using sync_each_inv sync_each_other assms(3) list_iff [OF assms(2) Inr] by blast
qed

lemma sync_templates_frame:
  "sync_template_each ops mode k ts to rep = (to', rep', e) \<Longrightarrow> inv to \<Longrightarrow>
   inv to' \<and> so_get ops to' = so_get ops to \<and> sr_documents rep' = sr_documents rep"
proof (induction ts arbitrary: to rep)
  case (Cons t ts)
  obtain p r where p: "so_put_template ops t to = (p, r)" by fastforce
  show ?case
    using Cons.prems Cons.IH put_template_docs [OF Cons.prems(2) p]
    by (auto simp: p Let_def split: sum.splits if_splits option.splits conflict_mode.splits)
qed simp

lemma sync_template_kinds_frame:
  "sync_template_kinds ops mode ks from to rep = (to', rep', e) \<Longrightarrow> inv to \<Longrightarrow>
   inv to' \<and> so_get ops to' = so_get ops to \<and> sr_documents rep' = sr_documents rep"
proof (induction ks arbitrary: to rep)
  case (Cons k ks)
  obtain t s r where st: "sync_templates ops mode (k_name k) from to rep = (t, s, r)" by (metis prod_cases3)
  then have "inv t \<and> so_get ops t = so_get ops to \<and> sr_documents s = sr_documents rep"
    using sync_templates_frame Cons.prems(2) by (auto simp: sync_templates_def split: sum.splits)
  then show ?case
    using Cons st by (cases r) auto
qed simp

text \<open>A run without error: what it did to the documents of either kind.\<close>

lemma sync_Done:
  assumes "sync ops mode from to = (to', rep, None)" "inv from" "inv to"
  obtains t u ps ss where
    "sync_documents ops mode ''plan'' from to new_kind_sync = (t, ps, None)" "inv t"
    "sync_documents ops mode ''story'' from t new_kind_sync = (u, ss, None)" "inv u"
    "so_get ops to' = so_get ops u" "inv to'"
    "sr_documents rep = [(''plan'', ps), (''story'', ss)]"
proof -
  define rep0 where "rep0 = \<lparr>sr_from = so_name ops from, sr_to = so_name ops to, sr_mode = mode,
    sr_documents = [], sr_templates = [], sr_template_conflicts = []\<rparr>"
  obtain u rep1 where k: "sync_kinds ops mode all_kinds from to rep0 = (u, rep1, None)"
    and tm: "sync_template_kinds ops mode all_kinds from u rep1 = (to', rep, None)"
    using assms(1) unfolding sync_def Let_def rep0_def [symmetric]
    by (auto split: prod.splits option.splits)
  obtain t ps e1 where 1: "sync_documents ops mode ''plan'' from to new_kind_sync = (t, ps, e1)"
    by (metis prod_cases3)
  obtain t2 ss e2 where 2: "sync_documents ops mode ''story'' from t new_kind_sync = (t2, ss, e2)"
    by (metis prod_cases3)
  have e1: "e1 = None"
    using k 1 by (cases e1) (simp_all add: all_kinds_def Let_def)
  have e2: "e2 = None"
    using k 1 2 e1 by (cases e2) (simp_all add: all_kinds_def Let_def)
  have u: "u = t2" "sr_documents rep1 = [(''plan'', ps), (''story'', ss)]"
    using k 1 2 e1 e2 by (auto simp: all_kinds_def Let_def rep0_def)
  have i: "inv t" "inv t2"
    using sync_documents_frame [OF 1 assms(2,3)] sync_documents_frame [OF 2 assms(2)] by blast+
  note f = sync_template_kinds_frame [OF tm [unfolded u(1)] i(2)]
  show ?thesis
    by (rule that [of t ps t2 ss]) (use 1 2 e1 e2 i f u in simp_all)
qed

end


text \<open>Each document of the source, after a run without error.\<close>

definition synced :: "'s store_ops \<Rightarrow> conflict_mode \<Rightarrow> 's \<Rightarrow> 's \<Rightarrow> string list \<Rightarrow> document \<Rightarrow> bool" where
  "synced ops mode to to' conflicts d \<longleftrightarrow>
     (\<exists>x. so_get ops to' (doc_kind d) (doc_id d) = Inr x \<and> documents_equal x d \<and>
        (so_get ops to (doc_kind d) (doc_id d) = Inr x \<or> x = d \<and> may_write ops mode (doc_kind d) d to)) \<or>
     (\<exists>x. so_get ops to (doc_kind d) (doc_id d) = Inr x \<and>
        so_get ops to' (doc_kind d) (doc_id d) = Inr x \<and> doc_id d \<in> set conflicts \<and>
        (mode = ConflictSkip \<or>
         mode = ConflictNewer \<and> \<not> source_is_newer (fm_updated (doc_fm d)) (fm_updated (doc_fm x))))"

definition summary_of :: "sync_report \<Rightarrow> string \<Rightarrow> kind_sync" where
  "summary_of rep k = (case om_get (sr_documents rep) k of Some ks \<Rightarrow> ks | None \<Rightarrow> new_kind_sync)"

context document_store
begin

lemma sync_documents_result:
  assumes "sync_documents ops mode k from to ks = (to', ks', None)" "inv from" "inv to"
    and "so_get ops from k i = Inr d"
  shows "synced ops mode to to' (ks_conflicts ks') d"
proof -
  obtain ds where ds: "so_list ops from k = Inr ds" "sync_each ops mode k ds to ks = (to', ks', None)"
    "\<forall>d \<in> set ds. doc_kind d = k" "distinct (map doc_id ds)"
    by (rule sync_documents_Inr [OF assms(1,2)])
  have d: "d \<in> set ds" "doc_kind d = k"
    using get_listed [OF assms(2) ds(1) assms(4)] get_key [OF assms(2,4)] by simp_all
  show ?thesis
    using sync_each_result [OF ds(2) assms(3) ds(3,4) d(1)] d(2) by (simp add: synced_def)
qed

lemma sync_result:
  assumes "sync ops mode from to = (to', rep, None)" "inv from" "inv to"
    and "so_get ops from k i = Inr d" "k = ''plan'' \<or> k = ''story''"
  shows "synced ops mode to to' (ks_conflicts (summary_of rep k)) d"
proof -
  obtain t u ps ss where
    *: "sync_documents ops mode ''plan'' from to new_kind_sync = (t, ps, None)" "inv t"
    "sync_documents ops mode ''story'' from t new_kind_sync = (u, ss, None)" "inv u"
    "so_get ops to' = so_get ops u" "inv to'" "sr_documents rep = [(''plan'', ps), (''story'', ss)]"
    by (rule sync_Done [OF assms(1-3)])
  have k: "doc_kind d = k" using get_key [OF assms(2,4)] by simp
  have plan: "so_get ops u ''plan'' i = so_get ops t ''plan'' i" for i
    using sync_documents_frame [OF *(3) assms(2) *(2)] by simp
  have story: "so_get ops t ''story'' i = so_get ops to ''story'' i" for i
    using sync_documents_frame [OF *(1) assms(2,3)] by simp
  from assms(5) show ?thesis
  proof
    assume kk: "k = ''plan''"
    have "synced ops mode to t (ks_conflicts ps) d"
      by (rule sync_documents_result [OF *(1) assms(2,3) assms(4) [unfolded kk]])
    then show ?thesis
      unfolding synced_def may_write_def k kk *(5) plan by (simp add: summary_of_def *(7))
  next
    assume kk: "k = ''story''"
    have "synced ops mode t u (ks_conflicts ss) d"
      by (rule sync_documents_result [OF *(3) assms(2) *(2) assms(4) [unfolded kk]])
    then show ?thesis
      unfolding synced_def may_write_def k kk *(5) story by (simp add: summary_of_def *(7))
  qed
qed

lemma sync_documents_absent:
  assumes "sync_documents ops mode k from to ks = (to', ks', None)" "inv from" "inv to"
    and "so_get ops from k' i = Inl e"
  shows "so_get ops to' k' i = so_get ops to k' i"
proof -
  obtain ds where ds: "so_list ops from k = Inr ds" "sync_each ops mode k ds to ks = (to', ks', None)"
    "\<forall>d \<in> set ds. doc_kind d = k" "distinct (map doc_id ds)"
    by (rule sync_documents_Inr [OF assms(1,2)])
  have "k' \<noteq> k \<or> i \<notin> doc_id ` set ds"
  proof (rule ccontr)
    assume "\<not> ?thesis"
    then obtain d where "d \<in> set ds" "i = doc_id d" "k' = k" by blast
    then show False using list_iff [OF assms(2) ds(1), of d] assms(4) by simp
  qed
  then show ?thesis by (rule sync_each_other [OF ds(2) assms(3) ds(3)])
qed

lemma sync_absent:
  assumes "sync ops mode from to = (to', rep, None)" "inv from" "inv to"
    and "so_get ops from k i = Inl e"
  shows "so_get ops to' k i = so_get ops to k i"
proof -
  obtain t u ps ss where
    *: "sync_documents ops mode ''plan'' from to new_kind_sync = (t, ps, None)" "inv t"
    "sync_documents ops mode ''story'' from t new_kind_sync = (u, ss, None)" "inv u"
    "so_get ops to' = so_get ops u" "inv to'" "sr_documents rep = [(''plan'', ps), (''story'', ss)]"
    by (rule sync_Done [OF assms(1-3)])
  have "so_get ops u k i = so_get ops t k i"
    by (rule sync_documents_absent [OF *(3) assms(2) *(2) assms(4)])
  also have "\<dots> = so_get ops to k i"
    by (rule sync_documents_absent [OF *(1) assms(2,3) assms(4)])
  finally show ?thesis by (simp only: *(5))
qed

text \<open>After a run that left no conflict, any further run over the documents finds nothing to do.\<close>

lemma sync_documents_again:
  assumes "sync ops mode from to = (to', rep, None)" "inv from" "inv to"
    and "k = ''plan'' \<or> k = ''story''" "mode = ConflictOverwrite"
    and "so_list ops from k = Inr ds"
  shows "sync_documents ops mode' k from to' new_kind_sync =
    (to', new_kind_sync\<lparr>ks_unchanged := map doc_id ds\<rparr>, None)"
proof -
  have "\<exists>x. so_get ops to' k (doc_id d) = Inr x \<and> documents_equal x d" if "d \<in> set ds" for d
  proof -
    have d: "so_get ops from k (doc_id d) = Inr d" "doc_kind d = k"
      using that list_iff [OF assms(2,6)] by auto
    show ?thesis
      using sync_result [OF assms(1-3) d(1) assms(4)] unfolding synced_def d(2) assms(5) by auto
  qed
  then show ?thesis
    using sync_each_fixed [of ds to' k mode' new_kind_sync]
    by (simp add: sync_documents_def new_kind_sync_def assms(6) sorted_list [OF assms(2,6)])
qed

end

text \<open>A run in overwrite mode that reports no error leaves, for every plan and story of the source
  memory store, an equal copy in the target, and leaves every document the source does not
  have as it was.\<close>

theorem sync_overwrite_complete:
  assumes "sync mem_ops ConflictOverwrite from to = (to', rep, None)" "mem_inv from" "mem_inv to"
    and "k = ''plan'' \<or> k = ''story''"
  shows "case mem_get from k i of
      Inr d \<Rightarrow> \<exists>x. mem_get to' k i = Inr x \<and> documents_equal x d
    | Inl _ \<Rightarrow> mem_get to' k i = mem_get to k i"
proof (cases "mem_get from k i")
  case (Inl e)
  then show ?thesis
    using mem.sync_absent [OF assms(1-3), unfolded mem_ops_sel, OF Inl] by simp
next
  case (Inr d)
  then have "doc_kind d = k" "doc_id d = i"
    using mem.get_key [OF assms(2), unfolded mem_ops_sel, OF Inr] by simp_all
  then show ?thesis
    using mem.sync_result [OF assms(1-3), unfolded mem_ops_sel, OF Inr assms(4)] Inr
    by (auto simp: synced_def)
qed

text \<open>In newer mode a target copy is never replaced by an older one: if the copies differ and the
  source's \<open>updated\<close> is earlier than the target's, or either does not parse, a run without
  error keeps the target's copy and reports the id as a conflict.\<close>

theorem sync_newer_keeps_newer:
  assumes "sync mem_ops ConflictNewer from to = (to', rep, None)" "mem_inv from" "mem_inv to"
    and "k = ''plan'' \<or> k = ''story''" "mem_get from k i = Inr d" "mem_get to k i = Inr x"
    and "\<not> documents_equal x d" "\<not> source_is_newer (fm_updated (doc_fm d)) (fm_updated (doc_fm x))"
  shows "mem_get to' k i = Inr x \<and> i \<in> set (ks_conflicts (summary_of rep k))"
proof -
  have "doc_kind d = k" "doc_id d = i"
    using mem.get_key [OF assms(2), unfolded mem_ops_sel, OF assms(5)] by simp_all
  then show ?thesis
    using mem.sync_result [OF assms(1-3), unfolded mem_ops_sel, OF assms(5,4)] assms(6-8)
    by (auto simp: synced_def may_write_def)
qed

text \<open>Synchronising is idempotent: after a run in overwrite mode without error, a second run over
  the documents of a kind, in any mode, changes nothing and reports every id as unchanged.\<close>

theorem sync_idempotent:
  assumes "sync mem_ops ConflictOverwrite from to = (to', rep, None)" "mem_inv from" "mem_inv to"
    and "k = ''plan'' \<or> k = ''story''" "mem_list from k = Inr ds"
  shows "sync_documents mem_ops mode k from to' new_kind_sync =
    (to', new_kind_sync\<lparr>ks_unchanged := map doc_id ds\<rparr>, None)"
  using mem.sync_documents_again [OF assms(1-4) refl, unfolded mem_ops_sel, OF assms(5)] .

end
