(* ===== verification/Event_Bus.thy ===== *)
theory Event_Bus
  imports Documents
begin

text \<open>
  The publish/subscribe bus of \<open>events/events.go\<close>. A subscription is an entry of the bus under its
  id with its filter, the events queued on its channel (\<open>su_queue\<close>, oldest first) and the
  channel's capacity; the ids grow and are never reused. A publisher never blocks: an event
  that does not fit is dropped for that subscriber only.
\<close>

record event =
  ev_type :: string
  ev_kind :: string
  ev_id :: string
  ev_template_id :: string
  ev_document :: "document option"
  ev_operation :: string
  ev_at :: string

record subscription =
  su_kind :: string
  su_ids :: "string list option"
  su_capacity :: nat
  su_queue :: "event list"

record bus =
  bus_subs :: "(nat, subscription) omap"
  bus_next :: nat

definition bus_new :: bus where
  "bus_new = \<lparr>bus_subs = [], bus_next = 0\<rparr>"

definition su_matches :: "subscription \<Rightarrow> event \<Rightarrow> bool" where
  "su_matches s e \<longleftrightarrow>
     (if su_kind s \<noteq> '''' \<and> ev_kind e \<noteq> su_kind s then False
      else case su_ids s of None \<Rightarrow> True
           | Some ids \<Rightarrow> ev_id e \<noteq> '''' \<and> ev_id e \<in> set ids)"

text \<open>The three filter updates of a live subscription.\<close>

definition su_set_filter :: "string list option \<Rightarrow> subscription \<Rightarrow> subscription" where
  "su_set_filter ids s = s\<lparr>su_ids := ids\<rparr>"

definition su_add :: "string list \<Rightarrow> subscription \<Rightarrow> subscription" where
  "su_add ids s = s\<lparr>su_ids := map_option (\<lambda>old. old @ ids) (su_ids s)\<rparr>"

definition su_remove :: "string list \<Rightarrow> subscription \<Rightarrow> subscription" where
  "su_remove ids s = s\<lparr>su_ids := map_option (filter (\<lambda>i. i \<notin> set ids)) (su_ids s)\<rparr>"

definition bus_update :: "nat \<Rightarrow> (subscription \<Rightarrow> subscription) \<Rightarrow> bus \<Rightarrow> bus" where
  "bus_update n f b =
     (case om_get (bus_subs b) n of None \<Rightarrow> b
      | Some s \<Rightarrow> b\<lparr>bus_subs := om_put n (f s) (bus_subs b)\<rparr>)"

definition subscribe :: "string \<Rightarrow> string list option \<Rightarrow> int \<Rightarrow> bus \<Rightarrow> nat \<times> bus" where
  "subscribe kd ids buffer b =
     (let n = bus_next b + 1;
          s = su_set_filter ids
                \<lparr>su_kind = kd, su_ids = None, su_capacity = (if buffer \<le> 0 then 64 else nat buffer),
                 su_queue = []\<rparr>
      in (n, b\<lparr>bus_next := n, bus_subs := om_put n s (bus_subs b)\<rparr>))"

definition unsubscribe :: "nat \<Rightarrow> bus \<Rightarrow> bus" where
  "unsubscribe n b = b\<lparr>bus_subs := om_del n (bus_subs b)\<rparr>"

definition deliver :: "event \<Rightarrow> subscription \<Rightarrow> subscription" where
  "deliver e s =
     (if \<not> su_matches s e then s
      else if length (su_queue s) < su_capacity s then s\<lparr>su_queue := su_queue s @ [e]\<rparr>
      else s)"

definition publish :: "event \<Rightarrow> bus \<Rightarrow> bus" where
  "publish e b = b\<lparr>bus_subs := om_map (deliver e) (bus_subs b)\<rparr>"

text \<open>A subscriber reads the oldest event from its channel.\<close>

definition receive :: "nat \<Rightarrow> bus \<Rightarrow> event option \<times> bus" where
  "receive n b =
     (case om_get (bus_subs b) n of
        None \<Rightarrow> (None, b)
      | Some s \<Rightarrow>
          (case su_queue s of [] \<Rightarrow> (None, b)
           | e # es \<Rightarrow> (Some e, bus_update n (\<lambda>s. s\<lparr>su_queue := es\<rparr>) b)))"

definition bus_len :: "bus \<Rightarrow> nat" where
  "bus_len b = length (bus_subs b)"

section \<open>Facts\<close>

definition bus_wf :: "bus \<Rightarrow> bool" where
  "bus_wf b \<longleftrightarrow> omap_wf (bus_subs b) \<and>
     list_all (\<lambda>(n, s). 1 \<le> n \<and> n \<le> bus_next b \<and> length (su_queue s) \<le> su_capacity s \<and> 0 < su_capacity s)
       (bus_subs b)"

lemma bus_wf_get:
  "bus_wf b \<Longrightarrow> om_get (bus_subs b) n = Some s \<Longrightarrow>
   1 \<le> n \<and> n \<le> bus_next b \<and> length (su_queue s) \<le> su_capacity s \<and> 0 < su_capacity s"
  by (auto simp: bus_wf_def list_all_iff dest!: om_get_in)

lemma bus_wfI:
  assumes "omap_wf (bus_subs b)"
    and "\<And>n s. om_get (bus_subs b) n = Some s \<Longrightarrow>
      1 \<le> n \<and> n \<le> bus_next b \<and> length (su_queue s) \<le> su_capacity s \<and> 0 < su_capacity s"
  shows "bus_wf b"
  using assms by (auto simp: bus_wf_def list_all_iff om_get_iff)

lemma bus_wf_new [wf_intros]: "bus_wf bus_new"
  by (simp add: bus_wf_def bus_new_def)

lemma bus_wf_omap: "bus_wf b \<Longrightarrow> omap_wf (bus_subs b)"
  by (simp add: bus_wf_def)

lemma subscribe_wf [wf_intros]: "bus_wf b \<Longrightarrow> bus_wf (snd (subscribe kd ids buffer b))"
  by (rule bus_wfI)
    (auto simp: subscribe_def Let_def su_set_filter_def om_put_wf bus_wf_omap split: if_splits dest: bus_wf_get)

lemma unsubscribe_wf [wf_intros]: "bus_wf b \<Longrightarrow> bus_wf (unsubscribe n b)"
  by (rule bus_wfI)
    (auto simp: unsubscribe_def om_del_wf bus_wf_omap split: if_splits dest: bus_wf_get)

lemma publish_wf [wf_intros]: "bus_wf b \<Longrightarrow> bus_wf (publish e b)"
  by (rule bus_wfI)
    (auto simp: publish_def om_map_wf bus_wf_omap deliver_def split: if_splits dest: bus_wf_get)

lemma bus_update_wf:
  "bus_wf b \<Longrightarrow> (\<And>s. su_queue (f s) = su_queue s \<and> su_capacity (f s) = su_capacity s) \<Longrightarrow>
   bus_wf (bus_update n f b)"
  by (rule bus_wfI)
    (auto simp: bus_update_def om_put_wf bus_wf_omap split: option.splits if_splits dest: bus_wf_get)

lemma receive_wf [wf_intros]: "bus_wf b \<Longrightarrow> bus_wf (snd (receive n b))"
  by (rule bus_wfI)
    (auto simp: receive_def bus_update_def om_put_wf bus_wf_omap split: option.splits if_splits list.splits
      dest: bus_wf_get)

lemma publish_len [simp]: "bus_len (publish e b) = bus_len b"
  by (simp add: bus_len_def publish_def om_map_def)

lemma om_put_new_length: "om_get m k = None \<Longrightarrow> length (om_put k v m) = Suc (length m)"
  by (induction k v m rule: om_put.induct) (auto split: if_splits)

text \<open>Publishing delivers an event to exactly the live subscriptions whose filter matches it and
  whose buffer has room, at the end of their queue; every other queue, every filter and the
  set of subscriptions stay as they were. So a slow subscriber loses the event but neither
  blocks the publisher nor costs another subscriber the event.\<close>

theorem publish_delivers:
  "om_get (bus_subs (publish e b)) n =
     map_option (\<lambda>s. if su_matches s e \<and> length (su_queue s) < su_capacity s
                     then s\<lparr>su_queue := su_queue s @ [e]\<rparr> else s)
       (om_get (bus_subs b) n)"
  by (simp add: publish_def deliver_def cong: map_option_cong) (auto simp: deliver_def fun_eq_iff intro!: map_option_cong)

text \<open>A new subscription gets an id that no live subscription has, starts with an empty queue of
  positive capacity and leaves the others alone; after it is closed the bus answers lookups
  as before it was made.\<close>

theorem subscribe_unsubscribe:
  assumes "bus_wf b" "subscribe kd ids buffer b = (n, b')"
  shows "om_get (bus_subs b) n = None \<and> bus_len b' = bus_len b + 1 \<and>
    (\<exists>s. om_get (bus_subs b') n = Some s \<and> su_queue s = [] \<and> su_ids s = ids \<and> su_kind s = kd \<and> 0 < su_capacity s) \<and>
    bus_subs (unsubscribe n b') = bus_subs b"
proof -
  have n: "n = bus_next b + 1" using assms(2) by (auto simp: subscribe_def Let_def)
  have new: "om_get (bus_subs b) n = None"
    using bus_wf_get [OF assms(1), of n] n by (cases "om_get (bus_subs b) n") auto
  have wf: "bus_wf b'" using subscribe_wf [OF assms(1)] assms(2) by (metis snd_conv)
  have "bus_subs (unsubscribe n b') = bus_subs b"
  proof (rule om_ext)
    show "om_get (bus_subs (unsubscribe n b')) k = om_get (bus_subs b) k" for k
      using assms(2) new by (auto simp: subscribe_def Let_def unsubscribe_def)
  qed (use wf assms(1) bus_wf_omap unsubscribe_wf in blast)+
  then show ?thesis
    using assms(2) new om_put_new_length [OF new]
    by (auto simp: subscribe_def Let_def su_set_filter_def bus_len_def)
qed

text \<open>
  What happens to a bus: subscribers come, go and change their filters, events are
  published and read.
\<close>

inductive bus_step :: "bus \<Rightarrow> bus \<Rightarrow> bool" where
  sub: "bus_step b (snd (subscribe kd ids buffer b))"
| unsub: "bus_step b (unsubscribe n b)"
| set_filter: "bus_step b (bus_update n (su_set_filter ids) b)"
| add: "bus_step b (bus_update n (su_add extra) b)"
| remove: "bus_step b (bus_update n (su_remove gone) b)"
| pub: "bus_step b (publish e b)"
| recv: "bus_step b (snd (receive n b))"

inductive bus_reachable :: "bus \<Rightarrow> bool" where
  new: "bus_reachable bus_new"
| step: "\<lbrakk>bus_reachable b; bus_step b b'\<rbrakk> \<Longrightarrow> bus_reachable b'"

lemma bus_step_wf: "bus_step b b' \<Longrightarrow> bus_wf b \<Longrightarrow> bus_wf b'"
  by (induction rule: bus_step.induct)
    (auto intro: wf_intros bus_update_wf simp: su_set_filter_def su_add_def su_remove_def)

text \<open>In every state a bus can reach, no queue exceeds the capacity it was subscribed with, every
  capacity is positive, and the ids given out are distinct and never beyond the counter.\<close>

theorem bus_bounded:
  assumes "bus_reachable b"
  shows "bus_wf b"
  using assms by (induction rule: bus_reachable.induct) (auto intro: bus_wf_new bus_step_wf)

lemma su_matches_add: "su_ids s = Some ids \<Longrightarrow> su_matches (su_add extra s) e \<longleftrightarrow>
    su_matches s e \<or> (su_kind s = '''' \<or> ev_kind e = su_kind s) \<and> ev_id e \<noteq> '''' \<and> ev_id e \<in> set extra"
  by (auto simp: su_matches_def su_add_def)

lemma su_matches_remove: "su_matches (su_remove gone s) e \<Longrightarrow> su_matches s e"
  by (auto simp: su_matches_def su_remove_def split: option.splits if_splits)

end
