(* ===== verification/Markdown_Doc.thy ===== *)
theory Markdown_Doc
  imports Documents
begin

text \<open>
  The Markdown side of a document (\<open>markdown/markdown.go\<close>, \<open>markdown/sections.go\<close>): the
  front matter block and the content, fenced code blocks, the title heading, the numbered
  headings that progress keys name, the acceptance criteria checklist and the work log.
  The regular expressions of the source are recognisers here; each follows the
  leftmost-first choice of Go's engine, which matters for the lazy heading text and for a
  heading number followed by other text. YAML decoding is third-party code and not
  modelled.
\<close>

abbreviation nl :: char where "nl \<equiv> CHR 0x0A"

definition is_blank :: "char \<Rightarrow> bool" where
  "is_blank c \<longleftrightarrow> c = CHR '' '' \<or> c = CHR 0x09"

section \<open>The front matter block\<close>

definition bom :: string where
  "bom = [CHR 0xEF, CHR 0xBB, CHR 0xBF]"

definition is_delimiter :: "string \<Rightarrow> bool" where
  "is_delimiter line \<longleftrightarrow> trim_right line [CHR '' '', CHR 0x09] = ''---''"

text \<open>The lines before the closing delimiter and those after it.\<close>

fun find_close :: "string list \<Rightarrow> (string list \<times> string list) option" where
  "find_close [] = None"
| "find_close (l # ls) =
     (if is_delimiter l then Some ([], ls)
      else map_option (\<lambda>(a, b). (l # a, b)) (find_close ls))"

definition end_lines :: "string list \<Rightarrow> string" where
  "end_lines ls = concat (map (\<lambda>l. l @ [nl]) ls)"

text \<open>\<open>Split\<close>: the raw front matter and the content, \<open>None\<close> when there is no closed block.\<close>

definition split_doc :: "string \<Rightarrow> (string \<times> string) option" where
  "split_doc doc =
     (let s = trim_prefix (crlf_to_lf doc) bom
      in case strip_prefix (''---'' @ [nl]) s of
           None \<Rightarrow> None
         | Some rest \<Rightarrow>
             (case find_close (split_on nl rest) of
                None \<Rightarrow> None
              | Some (before, after) \<Rightarrow>
                  Some (end_lines before, trim_left (join_with [nl] after) [nl])))"

text \<open>\<open>Render\<close>, from the encoded front matter.\<close>

definition render_doc :: "string \<Rightarrow> string \<Rightarrow> string" where
  "render_doc raw content0 =
     (let content = trim_left content0 [nl];
          content' = (if content \<noteq> [] \<and> \<not> has_suffix content [nl] then content @ [nl] else content)
      in ''---'' @ [nl] @ raw @ ''---'' @ [nl, nl] @ content')"

section \<open>Headings\<close>

text \<open>
  \<open>[ \t]*#*[ \t]*$\<close> matches the whole of what is left; the lazy group before it is the
  shortest prefix after which it does.
\<close>

definition closing_tail :: "string \<Rightarrow> bool" where
  "closing_tail s \<longleftrightarrow>
     dropWhile is_blank (dropWhile (\<lambda>c. c = CHR ''#'') (dropWhile is_blank s)) = []"

fun strip_closing :: "string \<Rightarrow> string" where
  "strip_closing [] = []"
| "strip_closing (c # s) = (if closing_tail (c # s) then [] else c # strip_closing s)"

text \<open>The group of \<open>^#[ \t]+(.*?)[ \t]*#*[ \t]*$\<close> (and of \<open>^##...\<close>) on one line.\<close>

definition heading_text :: "string \<Rightarrow> string \<Rightarrow> string option" where
  "heading_text marks line =
     (case strip_prefix marks line of
        Some (c # r) \<Rightarrow> if is_blank c then Some (strip_closing (dropWhile is_blank r)) else None
      | _ \<Rightarrow> None)"

definition h1_text :: "string \<Rightarrow> string option" where
  "h1_text line = heading_text ''#'' line"

definition h2_text :: "string \<Rightarrow> string option" where
  "h2_text line = heading_text ''##'' line"

text \<open>\<open>#{1,6}[ \t]+\<close>: what follows the marks and the blanks.\<close>

definition after_marks :: "string \<Rightarrow> string option" where
  "after_marks line =
     (let n = length (takeWhile (\<lambda>c. c = CHR ''#'') line); r = drop n line
      in if 1 \<le> n \<and> n \<le> 6 \<and> r \<noteq> [] \<and> is_blank (hd r) then Some (dropWhile is_blank r) else None)"

definition skip_word :: "string \<Rightarrow> string \<Rightarrow> string option" where
  "skip_word w s =
     (case strip_prefix w s of
        Some (c # r) \<Rightarrow> if is_blank c then Some (dropWhile is_blank r) else None
      | _ \<Rightarrow> None)"

fun first_some :: "('a \<Rightarrow> 'b option) list \<Rightarrow> 'a \<Rightarrow> 'b option" where
  "first_some [] x = None"
| "first_some (f # fs) x = (case f x of Some y \<Rightarrow> Some y | None \<Rightarrow> first_some fs x)"

definition skip_phase :: "string \<Rightarrow> string" where
  "skip_phase s =
     (case first_some (map skip_word [''Phase'', ''phase'', ''Section'', ''section'']) s of
        Some r \<Rightarrow> r | None \<Rightarrow> s)"

text \<open>The longest \<open>[0-9]+(\.[0-9]+)*\<close>: its parts and the rest.\<close>

function number_parts :: "string \<Rightarrow> string list \<times> string" where
  "number_parts s =
     (let d = takeWhile is_digit s; r = dropWhile is_digit s
      in if d = [] then ([], s)
         else (case r of
                 c # r' \<Rightarrow>
                   if c = CHR ''.'' \<and> r' \<noteq> [] \<and> is_digit (hd r')
                   then (let (ps, rest) = number_parts r' in (d # ps, rest))
                   else ([d], r)
               | [] \<Rightarrow> ([d], r)))"
  by pat_completeness auto
termination
proof (relation "measure length", simp)
  fix s d r c r'
  assume "d = takeWhile is_digit s" "r = dropWhile is_digit (s :: string)" "r = c # r'"
  then show "(r', s) \<in> measure length"
    using length_dropWhile_le [of is_digit s] by (auto dest!: arg_cong [where f = length])
qed

declare number_parts.simps [simp del]

text \<open>\<open>[:.\-\<close>, en dash, em dash, \<open>)]\<close>, a blank, or the end of the line.\<close>

definition number_ends :: "string \<Rightarrow> bool" where
  "number_ends r \<longleftrightarrow>
     (case r of [] \<Rightarrow> True
      | c # _ \<Rightarrow> c \<in> {CHR '':'', CHR ''.'', CHR ''-'', CHR '')''} \<or> is_blank c \<or>
                has_prefix r [CHR 0xE2, CHR 0x80, CHR 0x93] \<or>
                has_prefix r [CHR 0xE2, CHR 0x80, CHR 0x94])"

text \<open>
  \<open>numberedHeadingRe\<close>: when the text after the longest number does not end it, the engine
  gives back the last part, whose dot then ends the number; a single part is no match.
\<close>

definition numbered_heading :: "string \<Rightarrow> string option" where
  "numbered_heading line =
     (case after_marks line of None \<Rightarrow> None
      | Some s \<Rightarrow>
          (let (ps, rest) = number_parts (skip_phase s)
           in if ps = [] then None
              else if number_ends rest then Some (join_with ''.'' ps)
              else if 2 \<le> length ps then Some (join_with ''.'' (butlast ps))
              else None))"

definition timestamp_heading :: "string \<Rightarrow> bool" where
  "timestamp_heading line \<longleftrightarrow>
     (case after_marks line of None \<Rightarrow> False
      | Some s \<Rightarrow>
          10 \<le> length s \<and> list_all is_digit (take 4 s) \<and> s ! 4 = CHR ''-'' \<and>
          list_all is_digit (take 2 (drop 5 s)) \<and> s ! 7 = CHR ''-'' \<and>
          list_all is_digit (take 2 (drop 8 s)))"

section \<open>Fenced code blocks\<close>

text \<open>\<open>^[ ]{0,3}(`{3,}|~{3,})(.*)$\<close>: fence character, run length, info string.\<close>

definition fence_match :: "string \<Rightarrow> (char \<times> nat \<times> string) option" where
  "fence_match l =
     (let n = length (takeWhile (\<lambda>c. c = CHR '' '') l); r = drop n l
      in case r of [] \<Rightarrow> None
         | f # _ \<Rightarrow>
             let k = length (takeWhile (\<lambda>c. c = f) r)
             in if n \<le> 3 \<and> (f = CHR 0x60 \<or> f = CHR ''~'') \<and> 3 \<le> k
                then Some (f, k, drop k r) else None)"

definition closes_fence :: "char \<times> nat \<Rightarrow> string \<Rightarrow> bool" where
  "closes_fence fl l \<longleftrightarrow>
     (case fence_match l of None \<Rightarrow> False
      | Some (f, k, info) \<Rightarrow> f = fst fl \<and> snd fl \<le> k \<and> trim_space info = [])"

text \<open>Each line with whether it is inside a fenced block, fences included.\<close>

fun mark_lines :: "(char \<times> nat) option \<Rightarrow> string list \<Rightarrow> (string \<times> bool) list" where
  "mark_lines st [] = []"
| "mark_lines None (l # ls) =
     (case fence_match l of
        Some (f, k, info) \<Rightarrow> (l, True) # mark_lines (Some (f, k)) ls
      | None \<Rightarrow> (l, False) # mark_lines None ls)"
| "mark_lines (Some fl) (l # ls) =
     (l, True) # mark_lines (if closes_fence fl l then None else Some fl) ls"

definition md_lines :: "string \<Rightarrow> (string \<times> bool) list" where
  "md_lines content = mark_lines None (split_on nl content)"

definition content_lines :: "string \<Rightarrow> string list" where
  "content_lines content = map fst (filter (\<lambda>l. \<not> snd l) (md_lines content))"

section \<open>The title heading and the numbered headings\<close>

fun find_h1 :: "string list \<Rightarrow> string option" where
  "find_h1 [] = None"
| "find_h1 (l # ls) = (case h1_text l of Some t \<Rightarrow> Some (trim_space t) | None \<Rightarrow> find_h1 ls)"

definition first_h1 :: "string \<Rightarrow> string option" where
  "first_h1 content = find_h1 (content_lines content)"

fun replace_h1 :: "string \<Rightarrow> (string \<times> bool) list \<Rightarrow> string list option" where
  "replace_h1 title [] = None"
| "replace_h1 title ((t, fenced) # ls) =
     (if \<not> fenced \<and> h1_text t \<noteq> None then Some ((''# '' @ title) # map fst ls)
      else map_option (\<lambda>r. t # r) (replace_h1 title ls))"

definition set_h1 :: "string \<Rightarrow> string \<Rightarrow> string" where
  "set_h1 content title =
     (case replace_h1 title (md_lines content) of
        Some ls \<Rightarrow> join_with [nl] ls
      | None \<Rightarrow> ''# '' @ title @ [nl, nl] @ trim_left content [nl])"

fun add_numbers :: "string list \<Rightarrow> string list \<Rightarrow> string list" where
  "add_numbers seen [] = []"
| "add_numbers seen (l # ls) =
     (if timestamp_heading l then add_numbers seen ls
      else (case numbered_heading l of
              None \<Rightarrow> add_numbers seen ls
            | Some n \<Rightarrow> if n \<in> set seen then add_numbers seen ls
                        else n # add_numbers (n # seen) ls))"

definition section_numbers :: "string \<Rightarrow> string list" where
  "section_numbers content = add_numbers [] (content_lines content)"

definition has_section :: "string \<Rightarrow> string \<Rightarrow> bool" where
  "has_section content number \<longleftrightarrow> number \<in> set (section_numbers content)"

section \<open>Sections under a second-level heading\<close>

definition ends_section :: "string \<Rightarrow> bool" where
  "ends_section line \<longleftrightarrow>
     (let t = trim_space line
      in has_prefix t ''# '' \<or> has_prefix t ''## '' \<or> t = ''#'' \<or> t = ''##'')"

definition is_heading :: "string \<Rightarrow> string \<Rightarrow> bool" where
  "is_heading heading line \<longleftrightarrow>
     (case h2_text line of None \<Rightarrow> False | Some t \<Rightarrow> equal_fold (trim_space t) heading)"

fun find_start :: "string \<Rightarrow> (string \<times> bool) list \<Rightarrow> nat option" where
  "find_start heading [] = None"
| "find_start heading ((t, fenced) # ls) =
     (if \<not> fenced \<and> is_heading heading t then Some 0 else map_option Suc (find_start heading ls))"

fun section_length :: "(string \<times> bool) list \<Rightarrow> nat" where
  "section_length [] = 0"
| "section_length ((t, fenced) # ls) =
     (if \<not> fenced \<and> ends_section t then 0 else Suc (section_length ls))"

text \<open>\<open>FindSection\<close>: the index of the heading line and the index after the last line.\<close>

definition find_section :: "string \<Rightarrow> string \<Rightarrow> (nat \<times> nat) option" where
  "find_section content heading =
     (let ls = md_lines content
      in case find_start heading ls of None \<Rightarrow> None
         | Some i \<Rightarrow> Some (i, Suc i + section_length (drop (Suc i) ls)))"

text \<open>The lines of a section after its heading, with their indices.\<close>

definition section_body :: "string \<Rightarrow> nat \<times> nat \<Rightarrow> (nat \<times> string \<times> bool) list" where
  "section_body content sec =
     (case sec of (s, e) \<Rightarrow>
        zip [Suc s ..< e] (take (e - Suc s) (drop (Suc s) (md_lines content))))"

section \<open>Acceptance criteria\<close>

definition criteria_heading :: string where
  "criteria_heading = ''Acceptance Criteria''"

definition work_log_heading :: string where
  "work_log_heading = ''Work Log''"

datatype criterion_state = StateOpen | StateDone | StateNotApplicable

datatype criterion_kind = NoKind | KindVerify | KindManual

record criterion =
  cr_position :: nat
  cr_text :: string
  cr_kind :: criterion_kind
  cr_state :: criterion_state
  cr_line :: nat

definition re_space :: "char \<Rightarrow> bool" where
  "re_space c \<longleftrightarrow> c \<in> {CHR 0x09, CHR 0x0A, CHR 0x0C, CHR 0x0D, CHR 0x20}"

text \<open>\<open>^(\s*[-*+]\s+)\[([ xX~])\](\s+)(.*)$\<close>: the four groups.\<close>

definition check_item :: "string \<Rightarrow> (string \<times> char \<times> string \<times> string) option" where
  "check_item line =
     (let lead = takeWhile re_space line
      in case dropWhile re_space line of
           m # r \<Rightarrow>
             if m \<in> {CHR ''-'', CHR ''*'', CHR ''+''} then
               (let gap = takeWhile re_space r
                in case dropWhile re_space r of
                     a # x # b # tail \<Rightarrow>
                       if gap \<noteq> [] \<and> a = CHR ''['' \<and> b = CHR '']'' \<and>
                          x \<in> {CHR '' '', CHR ''x'', CHR ''X'', CHR ''~''} \<and>
                          takeWhile re_space tail \<noteq> []
                       then Some (lead @ m # gap, x, takeWhile re_space tail, dropWhile re_space tail)
                       else None
                   | _ \<Rightarrow> None)
             else None
         | [] \<Rightarrow> None)"

definition state_of :: "char \<Rightarrow> criterion_state" where
  "state_of m =
     (if m = CHR ''x'' \<or> m = CHR ''X'' then StateDone
      else if m = CHR ''~'' then StateNotApplicable else StateOpen)"

definition mark_of :: "criterion_state \<Rightarrow> char" where
  "mark_of s = (case s of StateDone \<Rightarrow> CHR ''x'' | StateNotApplicable \<Rightarrow> CHR ''~'' | StateOpen \<Rightarrow> CHR '' '')"

definition split_criterion :: "string \<Rightarrow> criterion_kind \<times> string" where
  "split_criterion text =
     (let t = trim_space text
      in if has_prefix (to_upper t) ''VERIFY:'' then (KindVerify, trim_space (drop 7 t))
         else if has_prefix (to_upper t) ''[MANUAL]'' then (KindManual, trim_space (drop 8 t))
         else (NoKind, t))"

definition format_criterion :: "criterion_state \<Rightarrow> criterion_kind \<Rightarrow> string \<Rightarrow> string" where
  "format_criterion st k text =
     ''- ['' @ [mark_of st] @ ''] '' @
     (case k of KindVerify \<Rightarrow> ''VERIFY: '' | KindManual \<Rightarrow> ''[MANUAL] '' | NoKind \<Rightarrow> '''') @
     trim_space text"

fun collect_items :: "nat \<Rightarrow> (nat \<times> string \<times> bool) list \<Rightarrow> criterion list" where
  "collect_items pos [] = []"
| "collect_items pos ((i, t, fenced) # ls) =
     (if fenced then collect_items pos ls
      else (case check_item t of
              None \<Rightarrow> collect_items pos ls
            | Some (g1, m, g3, g4) \<Rightarrow>
                \<lparr>cr_position = pos, cr_text = snd (split_criterion g4),
                 cr_kind = fst (split_criterion g4), cr_state = state_of m, cr_line = i\<rparr>
                # collect_items (Suc pos) ls))"

text \<open>\<open>None\<close> when the section is missing.\<close>

definition criteria :: "string \<Rightarrow> criterion list option" where
  "criteria content =
     (case find_section content criteria_heading of None \<Rightarrow> None
      | Some sec \<Rightarrow> Some (collect_items 1 (section_body content sec)))"

fun checklist_problems :: "(nat \<times> string \<times> bool) list \<Rightarrow> string list \<times> nat" where
  "checklist_problems [] = ([], 0)"
| "checklist_problems ((i, t, fenced) # ls) =
     (let (ps, n) = checklist_problems ls; s = trim_space t
      in if fenced \<or> s = '''' \<or> has_prefix s ''<!--'' then (ps, n)
         else if check_item t \<noteq> None then (ps, Suc n)
         else ((''/content: line '' @ itoa (i + 1) @ '' under '' @ criteria_heading @
                '' is not a checklist item: '' @ quote s) # ps, n))"

definition criteria_problems :: "string \<Rightarrow> string list" where
  "criteria_problems content =
     (case find_section content criteria_heading of
        None \<Rightarrow> [''/content: no '' @ [CHR 0x22] @ ''## '' @ criteria_heading @ [CHR 0x22] @ '' section'']
      | Some sec \<Rightarrow>
          (let (ps, n) = checklist_problems (section_body content sec)
           in if n = 0 then ps @ [''/content: '' @ criteria_heading @ '' has no checklist items''] else ps))"

text \<open>The edits; \<open>None\<close> is the error of a missing section or position.\<close>

definition item_at :: "criterion list \<Rightarrow> int \<Rightarrow> criterion option" where
  "item_at items pos =
     (if pos < 1 \<or> int (length items) < pos then None else Some (items ! nat (pos - 1)))"

definition md_set_criterion :: "string \<Rightarrow> int \<Rightarrow> criterion_state \<Rightarrow> string option" where
  "md_set_criterion content pos st =
     (case criteria content of None \<Rightarrow> None
      | Some items \<Rightarrow>
          (case item_at items pos of None \<Rightarrow> None
           | Some it \<Rightarrow>
               (let ls = split_on nl content
                in case check_item (ls ! cr_line it) of None \<Rightarrow> None
                   | Some (g1, m, g3, g4) \<Rightarrow>
                       Some (join_with [nl]
                         (ls[cr_line it := g1 @ ''['' @ [mark_of st] @ '']'' @ g3 @ g4])))))"

definition md_remove_criterion :: "string \<Rightarrow> int \<Rightarrow> string option" where
  "md_remove_criterion content pos =
     (case criteria content of None \<Rightarrow> None
      | Some items \<Rightarrow>
          (case item_at items pos of None \<Rightarrow> None
           | Some it \<Rightarrow>
               (let ls = split_on nl content
                in Some (join_with [nl] (take (cr_line it) ls @ drop (Suc (cr_line it)) ls)))))"

text \<open>A new item goes after the last item of the section, or after its heading.\<close>

definition last_item_end :: "string \<Rightarrow> nat \<times> nat \<Rightarrow> nat option" where
  "last_item_end content sec =
     (case filter (\<lambda>(i, t, fenced). \<not> fenced \<and> check_item t \<noteq> None) (section_body content sec) of
        [] \<Rightarrow> None | xs \<Rightarrow> Some (Suc (fst (last xs))))"

definition md_add_criterion :: "string \<Rightarrow> string \<Rightarrow> criterion_kind \<Rightarrow> string" where
  "md_add_criterion content text k =
     (let item = format_criterion StateOpen k text
      in case find_section content criteria_heading of
           None \<Rightarrow> trim_right content [nl] @ [nl, nl] @ ''## '' @ criteria_heading @ [nl, nl] @ item @ [nl]
         | Some sec \<Rightarrow>
             (let ls = map fst (md_lines content)
              in case last_item_end content sec of
                   None \<Rightarrow> join_with [nl] (take (Suc (fst sec)) ls @ [[], item] @ drop (Suc (fst sec)) ls)
                 | Some at \<Rightarrow> join_with [nl] (take at ls @ [item] @ drop at ls)))"

section \<open>The work log\<close>

text \<open>Moves up over blank lines, never past the line after the heading.\<close>

fun skip_blank_up :: "string list \<Rightarrow> nat \<Rightarrow> nat \<Rightarrow> nat" where
  "skip_blank_up ls floor 0 = 0"
| "skip_blank_up ls floor (Suc n) =
     (if floor < Suc n \<and> trim_space (ls ! n) = '''' then skip_blank_up ls floor n else Suc n)"

definition md_append_work_log :: "string \<Rightarrow> string \<Rightarrow> string \<Rightarrow> string" where
  "md_append_work_log content timestamp entry =
     (let line = ''### '' @ timestamp @ '' - '' @ trim_space entry
      in case find_section content work_log_heading of
           None \<Rightarrow> trim_right content [nl] @ [nl, nl] @ ''## '' @ work_log_heading @ [nl, nl] @ line @ [nl]
         | Some (s, e0) \<Rightarrow>
             (let ls = split_on nl content;
                  e = min e0 (length ls);
                  ins = skip_blank_up ls (Suc s) e;
                  tail0 = drop ins ls;
                  tail = (if e = length ls \<and> (tail0 = [] \<or> trim_space (concat tail0) = '''')
                          then [[]] else tail0)
              in join_with [nl] (take ins ls @ [[], line] @ tail)))"

definition work_log_entries :: "string \<Rightarrow> string list" where
  "work_log_entries content =
     (case find_section content work_log_heading of None \<Rightarrow> []
      | Some sec \<Rightarrow>
          List.map_filter (\<lambda>(i, t, fenced).
            let s = trim_space t
            in if \<not> fenced \<and> has_prefix s ''### '' then Some (trim_space (drop 4 s)) else None)
            (section_body content sec))"

section \<open>Facts: lines and the title\<close>

lemma map_fst_mark_lines [simp]: "map fst (mark_lines st ls) = ls"
  by (induction st ls rule: mark_lines.induct) (auto split: option.splits)

lemma map_fst_md_lines [simp]: "map fst (md_lines c) = split_on nl c"
  by (simp add: md_lines_def)

lemma length_md_lines [simp]: "length (md_lines c) = length (split_on nl c)"
  by (metis length_map map_fst_md_lines)

lemma fence_match_Cons: "fence_match (c # l) = Some r \<Longrightarrow> c = CHR '' '' \<or> c = CHR 0x60 \<or> c = CHR ''~''"
  by (auto simp: fence_match_def Let_def split: list.splits if_splits)

lemma no_fence_hash [simp]: "fence_match (CHR ''#'' # l) = None"
  using fence_match_Cons by (cases "fence_match (CHR ''#'' # l)") fastforce+

lemma h1_text_hash: "h1_text t = Some x \<Longrightarrow> \<exists>r. t = CHR ''#'' # r"
  by (auto simp: h1_text_def heading_text_def strip_prefix_iff split: option.splits)

lemma strip_prefix_self [simp]: "strip_prefix p (p @ s) = Some s"
  by (simp add: strip_prefix_iff)

text \<open>
  A title survives as the text of its heading when it starts with no blank and ends
  neither in a blank nor in a hash; white space around it is trimmed anyway.
\<close>

definition plain_title :: "string \<Rightarrow> bool" where
  "plain_title t \<longleftrightarrow> nl \<notin> set t \<and> trim_space t = t \<and> (t = [] \<or> last t \<noteq> CHR ''#'')"

lemma dropWhile_Nil_iff: "dropWhile P xs = [] \<longleftrightarrow> (\<forall>x \<in> set xs. P x)"
  by (simp add: dropWhile_eq_Nil_conv)

lemma closing_tail_last: "closing_tail s \<Longrightarrow> s = [] \<or> is_blank (last s) \<or> last s = CHR ''#''"
proof -
  assume c: "closing_tail s"
  have "x \<in> set s \<Longrightarrow> is_blank x \<or> x = CHR ''#''" for x
  proof -
    assume x: "x \<in> set s"
    let ?a = "dropWhile is_blank s" and ?b = "dropWhile (\<lambda>c. c = CHR ''#'') (dropWhile is_blank s)"
    have "set s = set (takeWhile is_blank s) \<union> set (takeWhile (\<lambda>c. c = CHR ''#'') ?a) \<union> set ?b"
      by (metis set_append takeWhile_dropWhile_id Un_assoc)
    then show ?thesis
      using x c by (auto simp: closing_tail_def dropWhile_eq_Nil_conv dest: set_takeWhileD)
  qed
  then show ?thesis by (cases "s = []") auto
qed

lemma strip_closing_id: "s = [] \<or> (\<not> is_blank (last s) \<and> last s \<noteq> CHR ''#'') \<Longrightarrow> strip_closing s = s"
proof (induction s)
  case (Cons c s)
  then have "\<not> closing_tail (c # s)" using closing_tail_last [of "c # s"] by auto
  then show ?case using Cons by (cases "s = []") auto
qed simp

lemma blank_space: "is_blank c \<Longrightarrow> ascii_space c"
  by (auto simp: is_blank_def ascii_space_def)

lemma plain_title_ends: "plain_title t \<Longrightarrow> t \<noteq> [] \<Longrightarrow> \<not> is_blank (hd t) \<and> \<not> is_blank (last t)"
  using trim_space_ends [of t] blank_space by (auto simp: plain_title_def)

lemma h1_text_title: "plain_title t \<Longrightarrow> h1_text (''# '' @ t) = Some t"
proof -
  assume t: "plain_title t"
  have "dropWhile is_blank t = t"
    using plain_title_ends [OF t] by (cases t) auto
  then show ?thesis
    using t plain_title_ends [OF t] strip_closing_id [of t]
    by (auto simp: h1_text_def heading_text_def is_blank_def plain_title_def)
qed

lemma replace_h1_lines:
  assumes "replace_h1 title (mark_lines st ls) = Some out" "plain_title title"
  shows "find_h1 (map fst (filter (\<lambda>l. \<not> snd l) (mark_lines st out))) = Some title"
  using assms
proof (induction st ls arbitrary: out rule: mark_lines.induct)
  case (2 l ls)
  show ?case
  proof (cases "fence_match l")
    case None
    show ?thesis
    proof (cases "h1_text l")
      case h: None
      then show ?thesis using 2 None by auto
    next
      case (Some x)
      then have "out = (''# '' @ title) # ls" using 2 None by simp
      then show ?thesis
        using 2(4) h1_text_title [of title] by (simp add: plain_title_def)
    qed
  next
    case (Some a)
    then show ?thesis using 2 by (cases a) auto
  qed
qed auto

lemma replace_h1_None:
  "replace_h1 title (mark_lines st ls) = None \<Longrightarrow> find_h1 (map fst (filter (\<lambda>l. \<not> snd l) (mark_lines st ls))) = None"
  by (induction st ls rule: mark_lines.induct) (auto split: option.splits if_splits)

lemma replace_h1_no_nl:
  "replace_h1 title ls = Some out \<Longrightarrow> nl \<notin> set title \<Longrightarrow> \<forall>l \<in> set ls. nl \<notin> set (fst l) \<Longrightarrow>
     out \<noteq> [] \<and> (\<forall>l \<in> set out. nl \<notin> set l)"
  by (induction title ls arbitrary: out rule: replace_h1.induct) (auto split: if_splits)

lemma md_lines_no_nl: "l \<in> set (md_lines c) \<Longrightarrow> nl \<notin> set (fst l)"
  using split_on_no_sep [of "fst l" nl c] map_fst_md_lines [of c] by (metis image_eqI list.set_map)

text \<open>A title set as the first heading is read back as the first heading, whatever the content was,
  with or without a first heading or fenced code before it, if the title is one trimmed line
  that does not end in a hash mark.\<close>

theorem first_h1_set_h1:
  assumes t: "plain_title title"
  shows "first_h1 (set_h1 content title) = Some title"
proof (cases "replace_h1 title (md_lines content)")
  case None
  have n: "nl \<notin> set (''# '' @ title)" using t by (simp add: plain_title_def)
  have "split_on nl (set_h1 content title) = (''# '' @ title) # split_on nl (nl # trim_left content [nl])"
    using None split_on_append [OF n] by (simp add: set_h1_def)
  then show ?thesis
    using t h1_text_title [OF t]
    by (simp add: first_h1_def content_lines_def md_lines_def plain_title_def)
next
  case (Some out)
  have "out \<noteq> [] \<and> (\<forall>l \<in> set out. nl \<notin> set l)"
    using replace_h1_no_nl [OF Some] md_lines_no_nl t by (auto simp: plain_title_def)
  then have "split_on nl (set_h1 content title) = out"
    using Some by (simp add: set_h1_def split_join)
  then show ?thesis
    using replace_h1_lines [of title None "split_on nl content" out] Some t
    by (simp add: first_h1_def content_lines_def md_lines_def)
qed

end
