(* ===== verification/Palace_Core.thy ===== *)
theory Palace_Core
  imports Doc_Sync Event_Bus Markdown_Doc
begin

text \<open>
  The palace and its services (\<open>service/service.go\<close>, \<open>service/errors.go\<close>): the state every
  operation shares, finding a document, the checks before a write, the write itself and the
  event it publishes, and synchronisation between two configured stores.

  The JSON Schema validator of a service is third-party code; it is a field of the service
  from front matter to the problems it reports. The clock and the random suffixes are
  streams that the operations read one after another. The text of an error message is left
  out; its kind, its list of problems and whether a write was partial are kept.
\<close>

section \<open>State and results\<close>

record svc_error =
  se_kind :: err_kind
  se_problems :: "string list"
  se_partial :: bool

definition new_err :: "err_kind \<Rightarrow> svc_error" where
  "new_err k = \<lparr>se_kind = k, se_problems = [], se_partial = False\<rparr>"

definition err_with :: "err_kind \<Rightarrow> string list \<Rightarrow> svc_error" where
  "err_with k ps = \<lparr>se_kind = k, se_problems = ps, se_partial = False\<rparr>"

definition storage_err :: svc_error where
  "storage_err = new_err StorageError"

definition partial_err :: svc_error where
  "partial_err = \<lparr>se_kind = StorageError, se_problems = [], se_partial = True\<rparr>"

text \<open>A partial result carries both a value and an error: the primary wrote, a copy did not.\<close>

datatype 'a outcome = Done 'a | Partial 'a svc_error | Fail svc_error

record service =
  sv_kind :: kind
  sv_cfg :: kind_config
  sv_stored_problems :: "front_matter \<Rightarrow> string list"

record palace =
  pl_cfg :: config
  pl_plans :: service
  pl_stories :: service
  pl_store :: "mem_store multi_store"
  pl_bus :: bus
  pl_now :: "nat \<Rightarrow> datetime"
  pl_ticks :: nat
  pl_random :: "nat \<Rightarrow> string"
  pl_draws :: nat

abbreviation palace_ops :: "mem_store multi_store store_ops" where
  "palace_ops \<equiv> multi_ops mem_ops"

definition palace_services :: "palace \<Rightarrow> service list" where
  "palace_services p = [pl_plans p, pl_stories p]"

text \<open>The service of a kind name or plural (\<open>Palace.Service\<close>).\<close>

definition palace_service :: "palace \<Rightarrow> string \<Rightarrow> svc_error + service" where
  "palace_service p name =
     (case get_kind name of
        None \<Rightarrow> Inl (new_err BadRequest)
      | Some k \<Rightarrow> Inr (if k_name k = ''plan'' then pl_plans p else pl_stories p))"

text \<open>\<open>NewPalace\<close>: a service for every kind, from its section of the configuration.\<close>

definition new_palace ::
  "config \<Rightarrow> (string \<Rightarrow> kind_config \<Rightarrow> front_matter \<Rightarrow> string list) \<Rightarrow> mem_store multi_store \<Rightarrow>
   (nat \<Rightarrow> datetime) \<Rightarrow> (nat \<Rightarrow> string) \<Rightarrow> palace" where
  "new_palace cfg schema store now rnd =
     \<lparr>pl_cfg = cfg,
      pl_plans = \<lparr>sv_kind = plan_kind, sv_cfg = cf_plans cfg,
                  sv_stored_problems = schema ''plan'' (cf_plans cfg)\<rparr>,
      pl_stories = \<lparr>sv_kind = story_kind, sv_cfg = cf_stories cfg,
                    sv_stored_problems = schema ''story'' (cf_stories cfg)\<rparr>,
      pl_store = store, pl_bus = bus_new, pl_now = now, pl_ticks = 0,
      pl_random = rnd, pl_draws = 0\<rparr>"

definition timestamp :: "palace \<Rightarrow> string \<times> palace" where
  "timestamp p = (format_timestamp (pl_now p (pl_ticks p)), p\<lparr>pl_ticks := Suc (pl_ticks p)\<rparr>)"

text \<open>Three bytes of randomness, each reduced to a letter or digit.\<close>

definition random_alphabet :: string where
  "random_alphabet = ''abcdefghijklmnopqrstuvwxyz0123456789''"

definition random_id :: "nat list \<Rightarrow> string" where
  "random_id bytes = map (\<lambda>b. random_alphabet ! (b mod length random_alphabet)) bytes"

definition draw_id :: "palace \<Rightarrow> string \<times> palace" where
  "draw_id p = (pl_random p (pl_draws p), p\<lparr>pl_draws := Suc (pl_draws p)\<rparr>)"

section \<open>Finding a document\<close>

definition lookup :: "palace \<Rightarrow> string \<Rightarrow> string \<Rightarrow> store_error + document" where
  "lookup p k i = so_get palace_ops (pl_store p) k i"

definition list_docs :: "palace \<Rightarrow> string \<Rightarrow> store_error + document list" where
  "list_docs p k = so_list palace_ops (pl_store p) k"

definition resolve :: "service \<Rightarrow> string \<Rightarrow> palace \<Rightarrow> svc_error + document" where
  "resolve s identifier p =
     (if trim_space identifier = '''' then Inl (new_err BadRequest)
      else
        (let i0 = normalize_id (trim_space identifier);
             found = (if id_re i0 then Some i0 else map_option fst (parse_file_name i0))
         in case found of
              None \<Rightarrow> Inl (new_err NotFound)
            | Some i \<Rightarrow>
                (case lookup p (k_name (sv_kind s)) i of
                   Inl e \<Rightarrow> if err_is e ErrNotFound then Inl (new_err NotFound) else Inl storage_err
                 | Inr d \<Rightarrow>
                     Inr (d\<lparr>doc_kind := k_name (sv_kind s),
                            doc_fm := fm_normalize_dates (doc_fm d)\<rparr>))))"

definition doc_exists :: "service \<Rightarrow> string \<Rightarrow> palace \<Rightarrow> svc_error + bool" where
  "doc_exists s i p =
     (case lookup p (k_name (sv_kind s)) i of
        Inl e \<Rightarrow> if err_is e ErrNotFound then Inr False else Inl storage_err
      | Inr _ \<Rightarrow> Inr True)"

section \<open>Checks before a write\<close>

text \<open>The canonical path; an empty slug keeps the current one or makes one from the title.\<close>

definition path_for :: "document \<Rightarrow> string \<Rightarrow> string" where
  "path_for d slug0 =
     (let slug = (if slug0 = '''' then
                    (case parse_file_name (doc_path d) of
                       Some (_, _, cur) \<Rightarrow> cur
                     | None \<Rightarrow> slugify (fm_title (doc_fm d)))
                  else slug0);
          name = file_name (fm_id (doc_fm d)) (fm_type (doc_fm d)) slug
      in if fm_status (doc_fm d) = ''archived'' then ''archive/'' @ name else name)"

definition planned_dates_bad :: "front_matter \<Rightarrow> bool" where
  "planned_dates_bad f \<longleftrightarrow>
     fm_planned_start f \<noteq> '''' \<and> fm_planned_end f \<noteq> '''' \<and> fm_planned_end f < fm_planned_start f"

definition same_kind_links :: "service \<Rightarrow> front_matter \<Rightarrow> link list" where
  "same_kind_links s f = (if k_name (sv_kind s) = ''story'' then story_links f else plan_links f)"

definition path_problems :: "service \<Rightarrow> document \<Rightarrow> string list" where
  "path_problems s d =
     (case parse_file_name (doc_path d) of
        None \<Rightarrow> [''/path: '' @ quote (doc_path d) @ '' is not a valid '' @ k_name (sv_kind s) @ '' file name'']
      | Some (i, t, _) \<Rightarrow>
          (if i \<noteq> fm_id (doc_fm d) then
             [''/path: file name id '' @ quote i @ '' does not match id '' @ quote (fm_id (doc_fm d))]
           else if t \<noteq> fm_type (doc_fm d) then
             [''/path: file name type '' @ quote t @ '' does not match type '' @ quote (fm_type (doc_fm d))]
           else []) @
          (if has_prefix (doc_path d) ''archive/'' \<noteq> (fm_status (doc_fm d) = ''archived'') then
             [''/path: '' @ quote (doc_path d) @ '' is inconsistent with status '' @ quote (fm_status (doc_fm d))]
           else []))"

definition invariants :: "service \<Rightarrow> document \<Rightarrow> string list" where
  "invariants s d =
     (let f = doc_fm d; kn = k_name (sv_kind s); h1 = first_h1 (doc_content d)
      in (if normalize_type (sv_cfg s) (fm_type f) = None
          then [''/type: unknown '' @ kn @ '' type '' @ quote (fm_type f)] else []) @
         (if find_status (sv_cfg s) (fm_status f) = None
          then [''/status: unknown status '' @ quote (fm_status f)] else []) @
         (if h1 \<noteq> Some (fm_title f)
          then [''/content: H1 '' @ quote (case h1 of Some t \<Rightarrow> t | None \<Rightarrow> '''') @
                '' does not match title '' @ quote (fm_title f)] else []) @
         (if planned_dates_bad f
          then [''/planned_end: BadRequest: planned_end '' @ fm_planned_end f @
                '' is before planned_start '' @ fm_planned_start f] else []) @
         (if fm_assignee f \<noteq> '''' \<and> \<not> k_has_assignee (sv_kind s)
          then [''/assignee: '' @ kn @ ''s have no assignee field''] else []) @
         path_problems s d @
         map (\<lambda>_. ''/links/'' @ k_plural (sv_kind s) @ '': a '' @ kn @ '' cannot link to itself'')
           (filter (\<lambda>l. link_id l = fm_id f) (same_kind_links s f)))"

definition fm_canonical :: "front_matter \<Rightarrow> front_matter" where
  "fm_canonical f = fm_normalize_ids (fm_normalize_dates (fm_normalize_timestamps f))"

text \<open>\<open>check\<close>: the document in its normal form, and the problems in sorted order.\<close>

definition check :: "service \<Rightarrow> document \<Rightarrow> document \<times> string list" where
  "check s d =
     (let d' = d\<lparr>doc_fm := fm_canonical (doc_fm d)\<rparr>
      in (d', sort (sv_stored_problems s (doc_fm d') @ invariants s d')))"

section \<open>Writing\<close>

definition publish_event :: "service \<Rightarrow> string \<Rightarrow> document \<Rightarrow> string \<Rightarrow> palace \<Rightarrow> palace" where
  "publish_event s action d op p =
     (case timestamp p of
        (t, p') \<Rightarrow>
          p'\<lparr>pl_bus := publish
            \<lparr>ev_type = kind_event (sv_kind s) action, ev_kind = k_name (sv_kind s), ev_id = doc_id d,
             ev_template_id = '''', ev_document = (if action = ''deleted'' then None else Some d),
             ev_operation = op, ev_at = t\<rparr> (pl_bus p')\<rparr>)"

text \<open>The document as it is checked: stamped, and its first heading made the title.\<close>

definition stamped :: "service \<Rightarrow> string \<Rightarrow> document \<Rightarrow> document" where
  "stamped s updated d =
     d\<lparr>doc_kind := k_name (sv_kind s), doc_fm := (doc_fm d)\<lparr>fm_updated := updated\<rparr>,
       doc_content := set_h1 (doc_content d) (fm_title (doc_fm d))\<rparr>"

definition save :: "service \<Rightarrow> document \<Rightarrow> string \<Rightarrow> string \<Rightarrow> palace \<Rightarrow> document outcome \<times> palace" where
  "save s d op action p =
     (let (updated, p1) = (if action = ''created'' then (fm_created (doc_fm d), p) else timestamp p);
          (d', problems) = check s (stamped s updated d)
      in if problems \<noteq> [] then (Fail (err_with ValidationError problems), p1)
         else
           (case so_put palace_ops d' (pl_store p1) of
              (m, None) \<Rightarrow> (Done d', publish_event s action d' op (p1\<lparr>pl_store := m\<rparr>))
            | (m, Some e) \<Rightarrow>
                if is_fanout e
                then (Partial d' partial_err, publish_event s action d' op (p1\<lparr>pl_store := m\<rparr>))
                else (Fail storage_err, p1\<lparr>pl_store := m\<rparr>)))"

section \<open>Synchronising two configured stores\<close>

text \<open>The position of the store with a name, the primary being the first.\<close>

definition store_index :: "string \<Rightarrow> mem_store multi_store \<Rightarrow> nat option" where
  "store_index name m =
     (let names = map ms_name (multi_stores m)
      in if name \<in> set names then Some (length (takeWhile (\<lambda>n. n \<noteq> name) names)) else None)"

definition set_store :: "nat \<Rightarrow> mem_store \<Rightarrow> mem_store multi_store \<Rightarrow> mem_store multi_store" where
  "set_store n s m =
     (case n of 0 \<Rightarrow> m\<lparr>mu_primary := s\<rparr> | Suc j \<Rightarrow> m\<lparr>mu_copies := (mu_copies m)[j := s]\<rparr>)"

definition palace_sync :: "string \<Rightarrow> string \<Rightarrow> string \<Rightarrow> palace \<Rightarrow> sync_report outcome \<times> palace" where
  "palace_sync from_name to_name mode p =
     (case store_index from_name (pl_store p) of
        None \<Rightarrow> (Fail (new_err NotFound), p)
      | Some i \<Rightarrow>
          (case store_index to_name (pl_store p) of
             None \<Rightarrow> (Fail (new_err NotFound), p)
           | Some j \<Rightarrow>
               if i = j then (Fail (new_err BadRequest), p)
               else
                 (case parse_conflict_mode mode of
                    None \<Rightarrow> (Fail (new_err BadRequest), p)
                  | Some cm \<Rightarrow>
                      (case sync mem_ops cm (multi_stores (pl_store p) ! i) (multi_stores (pl_store p) ! j) of
                         (dst, rep, err) \<Rightarrow>
                           (let p' = p\<lparr>pl_store := set_store j dst (pl_store p)\<rparr>
                            in case err of
                                 None \<Rightarrow> (Done rep, p')
                               | Some (SyncConflict _) \<Rightarrow>
                                   (Partial rep (err_with Conflict (report_conflicts rep)), p')
                               | Some (SyncStore _) \<Rightarrow> (Partial rep storage_err, p'))))))"


section \<open>One operation: find the document, edit it, save it\<close>

text \<open>
  Most operations resolve a document, edit their copy of it and save that. The edit may
  refuse, may find nothing to do (\<open>Inr None\<close>, the document is returned as it was read), or
  gives the document to save; it may read the palace and take timestamps.
\<close>

type_synonym edit = "document \<Rightarrow> palace \<Rightarrow> (svc_error + document option) \<times> palace"

definition edit_with :: "service \<Rightarrow> string \<Rightarrow> string \<Rightarrow> edit \<Rightarrow> palace \<Rightarrow> document outcome \<times> palace" where
  "edit_with s identifier op f p =
     (case resolve s identifier p of
        Inl e \<Rightarrow> (Fail e, p)
      | Inr d \<Rightarrow>
          (case f d p of
             (Inl e, p') \<Rightarrow> (Fail e, p')
           | (Inr None, p') \<Rightarrow> (Done d, p')
           | (Inr (Some d'), p') \<Rightarrow> save s d' op ''updated'' p'))"

text \<open>An edit that neither reads the clock nor changes anything but its document.\<close>

definition pure_edit :: "(document \<Rightarrow> palace \<Rightarrow> svc_error + document option) \<Rightarrow> edit" where
  "pure_edit f d p = (f d p, p)"

definition set_fm :: "(front_matter \<Rightarrow> front_matter) \<Rightarrow> document \<Rightarrow> document" where
  "set_fm f d = d\<lparr>doc_fm := f (doc_fm d)\<rparr>"

section \<open>Facts: what does not change the documents\<close>

text \<open>Only leases, the clock and the random stream have moved.\<close>


definition same_env :: "palace \<Rightarrow> palace \<Rightarrow> bool" where
  "same_env p p' \<longleftrightarrow>
     pl_cfg p' = pl_cfg p \<and> pl_plans p' = pl_plans p \<and> pl_stories p' = pl_stories p \<and>
     pl_now p' = pl_now p \<and> pl_random p' = pl_random p"

definition quiet :: "palace \<Rightarrow> palace \<Rightarrow> bool" where
  "quiet p p' \<longleftrightarrow>
     same_env p p' \<and> pl_bus p' = pl_bus p \<and>
     mu_copies (pl_store p') = mu_copies (pl_store p) \<and>
     ms_name (mu_primary (pl_store p')) = ms_name (mu_primary (pl_store p)) \<and>
     ms_docs (mu_primary (pl_store p')) = ms_docs (mu_primary (pl_store p)) \<and>
     ms_templates (mu_primary (pl_store p')) = ms_templates (mu_primary (pl_store p)) \<and>
     ms_fail_writes (mu_primary (pl_store p')) = ms_fail_writes (mu_primary (pl_store p))"

lemma same_env_refl [simp, intro]: "same_env p p"
  by (simp add: same_env_def)

lemma same_env_trans: "same_env p q \<Longrightarrow> same_env q r \<Longrightarrow> same_env p r"
  by (simp add: same_env_def)

lemma quiet_refl [simp, intro]: "quiet p p"
  by (simp add: quiet_def)

lemma quiet_trans: "quiet p q \<Longrightarrow> quiet q r \<Longrightarrow> quiet p r"
  by (auto simp: quiet_def intro: same_env_trans)

lemma quiet_env: "quiet p p' \<Longrightarrow> same_env p p'"
  by (simp add: quiet_def)

lemma same_env_ticks [simp]: "same_env p (p\<lparr>pl_ticks := n\<rparr>)" "same_env p (p\<lparr>pl_draws := n\<rparr>)"
  "same_env p (p\<lparr>pl_store := m\<rparr>)" "same_env p (p\<lparr>pl_bus := b\<rparr>)"
  by (simp_all add: same_env_def)

lemma timestamp_quiet: "timestamp p = (t, p') \<Longrightarrow> quiet p p'"
  by (auto simp: timestamp_def quiet_def)

lemma draw_quiet: "draw_id p = (t, p') \<Longrightarrow> quiet p p'"
  by (auto simp: draw_id_def quiet_def)

lemma lookup_eq: "lookup p k i = mem_get (mu_primary (pl_store p)) k i"
  by (simp add: lookup_def)

lemma list_docs_eq: "list_docs p k = mem_list (mu_primary (pl_store p)) k"
  by (simp add: list_docs_def)

lemma quiet_lookup: "quiet p p' \<Longrightarrow> lookup p' k i = lookup p k i"
  by (simp add: lookup_eq quiet_def mem_get_def)

lemma quiet_list: "quiet p p' \<Longrightarrow> list_docs p' k = list_docs p k"
  by (simp add: list_docs_eq quiet_def mem_list_def split: option.split)

lemma quiet_resolve: "quiet p p' \<Longrightarrow> resolve s i p' = resolve s i p"
  by (simp add: resolve_def quiet_lookup)

section \<open>Facts: finding a document\<close>

lemma file_name_re_id: "file_name_re b = Some (i, t, g) \<Longrightarrow> id_re i"
  by (auto simp: file_name_re_def Let_def split: if_splits)

lemma parse_file_name_id: "parse_file_name n = Some (i, t, g) \<Longrightarrow> id_re i"
  by (auto simp: parse_file_name_def split: option.splits dest: file_name_re_id)

lemma resolve_Inr:
  assumes "resolve s identifier p = Inr d"
  obtains i d0 where "id_re i" "lookup p (k_name (sv_kind s)) i = Inr d0"
    "d = d0\<lparr>doc_kind := k_name (sv_kind s), doc_fm := fm_normalize_dates (doc_fm d0)\<rparr>"
proof -
  let ?i = "normalize_id (trim_space identifier)"
  define found where "found = (if id_re ?i then Some ?i else map_option fst (parse_file_name ?i))"
  have r: "(case found of None \<Rightarrow> Inl (new_err NotFound)
      | Some i \<Rightarrow> (case lookup p (k_name (sv_kind s)) i of
           Inl e \<Rightarrow> if err_is e ErrNotFound then Inl (new_err NotFound) else Inl storage_err
         | Inr d \<Rightarrow> Inr (d\<lparr>doc_kind := k_name (sv_kind s), doc_fm := fm_normalize_dates (doc_fm d)\<rparr>))) = Inr d"
    using assms by (simp add: resolve_def Let_def found_def split: if_splits)
  then obtain i d0 where i: "found = Some i" and d0: "lookup p (k_name (sv_kind s)) i = Inr d0"
      "d = d0\<lparr>doc_kind := k_name (sv_kind s), doc_fm := fm_normalize_dates (doc_fm d0)\<rparr>"
    by (auto split: option.splits sum.splits if_splits)
  have "id_re i"
    using i by (auto simp: found_def dest: parse_file_name_id split: if_splits)
  then show ?thesis using that d0 by blast
qed

text \<open>A document is found under its id.\<close>

lemma resolve_id:
  assumes "id_re i" "lookup p (k_name (sv_kind s)) i = Inr d"
  shows "resolve s i p = Inr (d\<lparr>doc_kind := k_name (sv_kind s), doc_fm := fm_normalize_dates (doc_fm d)\<rparr>)"
proof -
  have t: "trim_space i = i"
    using assms(1) id_re_set [of i] by (intro trim_space_id_digits)
      (auto simp: is_lower_alnum_def ascii_space_def is_digit_def less_eq_char_def less_char_def)
  have "i \<noteq> []" using id_re_length [OF assms(1)] by auto
  then show ?thesis using assms by (simp add: resolve_def t)
qed

section \<open>Facts: the checks\<close>

lemma fm_canonical_idem [simp]: "fm_canonical (fm_canonical f) = fm_canonical f"
  by (simp add: fm_canonical_def fm_normalize_commute)

lemma fm_canonical_sel [simp]:
  "fm_id (fm_canonical f) = fm_id f" "fm_title (fm_canonical f) = fm_title f"
  "fm_type (fm_canonical f) = fm_type f" "fm_status (fm_canonical f) = fm_status f"
  "fm_assignee (fm_canonical f) = fm_assignee f" "fm_tags (fm_canonical f) = fm_tags f"
  by (simp_all add: fm_canonical_def fm_normalize_ids_def fm_normalize_dates_def fm_normalize_timestamps_def)

lemma fm_canonical_created: "fm_created (fm_canonical f) = norm_or_keep normalize_timestamp (fm_created f)"
  by (simp add: fm_canonical_def fm_normalize_ids_def fm_normalize_dates_def fm_normalize_timestamps_def)

lemma fm_canonical_dates: "fm_canonical (fm_normalize_dates f) = fm_canonical f"
  by (simp add: fm_canonical_def fm_normalize_commute)

lemma check_fst: "fst (check s d) = d\<lparr>doc_fm := fm_canonical (doc_fm d)\<rparr>"
  by (simp add: check_def Let_def)

lemma check_idem: "check s (fst (check s d)) = check s d"
  by (simp add: check_def Let_def)

text \<open>A document in its normal form that passes the checks of its service.\<close>

definition valid_doc :: "service \<Rightarrow> document \<Rightarrow> bool" where
  "valid_doc s d \<longleftrightarrow> doc_kind d = k_name (sv_kind s) \<and> check s d = (d, [])"

lemma sort_Nil_iff [simp]: "sort xs = [] \<longleftrightarrow> xs = []"
  by (metis set_empty set_sort)

lemma valid_doc_iff:
  "valid_doc s d \<longleftrightarrow> doc_kind d = k_name (sv_kind s) \<and> fm_canonical (doc_fm d) = doc_fm d \<and>
     sv_stored_problems s (doc_fm d) = [] \<and> invariants s d = []"
  by (cases d) (auto simp: valid_doc_def check_def Let_def)

lemma valid_path:
  assumes "valid_doc s d"
  obtains slug where "parse_file_name (doc_path d) = Some (doc_id d, fm_type (doc_fm d), slug)"
    "has_prefix (doc_path d) ''archive/'' \<longleftrightarrow> fm_status (doc_fm d) = ''archived''" "id_re (doc_id d)"
proof -
  have "path_problems s d = []"
    using assms by (simp add: valid_doc_iff invariants_def Let_def)
  then obtain slug where "parse_file_name (doc_path d) = Some (doc_id d, fm_type (doc_fm d), slug)"
      "has_prefix (doc_path d) ''archive/'' \<longleftrightarrow> fm_status (doc_fm d) = ''archived''"
    by (auto simp: path_problems_def doc_id_def split: option.splits if_splits)
  then show ?thesis using that parse_file_name_id by blast
qed

lemma valid_id: "valid_doc s d \<Longrightarrow> id_re (doc_id d)"
  by (erule valid_path)

lemma valid_facts:
  assumes "valid_doc s d"
  shows "normalize_type (sv_cfg s) (fm_type (doc_fm d)) \<noteq> None"
    "find_status (sv_cfg s) (fm_status (doc_fm d)) \<noteq> None"
    "first_h1 (doc_content d) = Some (fm_title (doc_fm d))"
    "\<not> planned_dates_bad (doc_fm d)"
    "fm_assignee (doc_fm d) \<noteq> '''' \<Longrightarrow> k_has_assignee (sv_kind s)"
    "l \<in> set (same_kind_links s (doc_fm d)) \<Longrightarrow> link_id l \<noteq> doc_id d"
  using assms by (auto simp: valid_doc_iff invariants_def Let_def doc_id_def filter_empty_conv split: if_splits)


section \<open>Facts: the write\<close>

lemma publish_event_sel [simp]:
  "pl_store (publish_event s a d op p) = pl_store p" "same_env p (publish_event s a d op p)"
  by (auto simp: publish_event_def timestamp_def same_env_def split: prod.splits)

lemma lookup_publish [simp]: "lookup (publish_event s a d op p) = lookup p"
  by (simp add: lookup_def fun_eq_iff)

definition save_form :: "service \<Rightarrow> document \<Rightarrow> string \<Rightarrow> document" where
  "save_form s d updated = fst (check s (stamped s updated d))"

lemma save_form_sel [simp]:
  "doc_kind (save_form s d u) = k_name (sv_kind s)" "doc_id (save_form s d u) = doc_id d"
  "doc_path (save_form s d u) = doc_path d" "fm_id (doc_fm (save_form s d u)) = fm_id (doc_fm d)"
  "fm_status (doc_fm (save_form s d u)) = fm_status (doc_fm d)"
  "fm_title (doc_fm (save_form s d u)) = fm_title (doc_fm d)"
  "fm_type (doc_fm (save_form s d u)) = fm_type (doc_fm d)"
  "fm_assignee (doc_fm (save_form s d u)) = fm_assignee (doc_fm d)"
  "fm_tags (doc_fm (save_form s d u)) = fm_tags (doc_fm d)"
  "doc_content (save_form s d u) = set_h1 (doc_content d) (fm_title (doc_fm d))"
  by (simp_all add: save_form_def check_fst stamped_def doc_id_def)

lemma save_form_created:
  "fm_created (doc_fm (save_form s d u)) = norm_or_keep normalize_timestamp (fm_created (doc_fm d))"
  by (simp add: save_form_def check_fst stamped_def fm_canonical_created)

text \<open>
  The three ways a save can end: refused by the checks, refused by the primary, or written
  and published. The stamp is the creation time for a new document and the clock otherwise.
\<close>

lemma save_cases:
  assumes "save s d op action p = (r, p')"
  obtains (invalid) problems where "r = Fail (err_with ValidationError problems)" "problems \<noteq> []" "quiet p p'"
    | (refused) "r = Fail storage_err" "quiet p p'"
    | (written) d' u p1 m w where "quiet p p1" "d' = save_form s d u" "valid_doc s d'"
        "u = (if action = ''created'' then fm_created (doc_fm d) else fst (timestamp p))"
        "so_put palace_ops d' (pl_store p1) = (m, w)" "accepted w"
        "p' = publish_event s action d' op (p1\<lparr>pl_store := m\<rparr>)"
        "r = (case w of None \<Rightarrow> Done d' | Some _ \<Rightarrow> Partial d' partial_err)"
proof -
  obtain u p1 where st: "(if action = ''created'' then (fm_created (doc_fm d), p) else timestamp p) = (u, p1)"
    by fastforce
  have q: "quiet p p1" using st timestamp_quiet by (auto split: if_splits)
  have u: "u = (if action = ''created'' then fm_created (doc_fm d) else fst (timestamp p))"
    using st by (auto split: if_splits)
  obtain d' ps where c: "check s (stamped s u d) = (d', ps)" by fastforce
  obtain m w where m: "multi_put mem_ops d' (pl_store p1) = (m, w)" by fastforce
  note sv = assms [unfolded save_def Let_def st prod.case c]
  show ?thesis
  proof (cases "ps = []")
    case False
    then show ?thesis using sv q by (intro invalid [of ps]) simp_all
  next
    case ps: True
    have d': "d' = save_form s d u" using c by (simp add: save_form_def)
    have v: "valid_doc s d'"
      using check_idem [of s "stamped s u d"] c ps d' by (simp add: valid_doc_def)
    show ?thesis
    proof (cases "accepted w")
      case True
      then show ?thesis
        using sv ps m by (intro written [OF q d' v u _ True]) (auto split: option.splits)
    next
      case False
      then have "m = pl_store p1" using multi.put_refused [of d' "pl_store p1" m w] m by simp
      then show ?thesis
        using sv ps m False q by (intro refused) (auto split: option.splits simp: quiet_def same_env_def)
    qed
  qed
qed

section \<open>Facts: the invariant of a palace\<close>

text \<open>
  Each service has its kind, the primary store is consistent, and every document in it
  passes the checks of its service in its normal form.
\<close>

definition service_for :: "palace \<Rightarrow> string \<Rightarrow> service" where
  "service_for p k = (if k = ''plan'' then pl_plans p else pl_stories p)"

definition palace_wf :: "palace \<Rightarrow> bool" where
  "palace_wf p \<longleftrightarrow>
     sv_kind (pl_plans p) = plan_kind \<and> sv_kind (pl_stories p) = story_kind \<and>
     mem_inv (mu_primary (pl_store p)) \<and>
     (\<forall>k i d. lookup p k i = Inr d \<longrightarrow> (k = ''plan'' \<or> k = ''story'') \<and> valid_doc (service_for p k) d)"

definition is_service :: "palace \<Rightarrow> service \<Rightarrow> bool" where
  "is_service p s \<longleftrightarrow> s = pl_plans p \<or> s = pl_stories p"

lemma is_service_kind:
  "palace_wf p \<Longrightarrow> is_service p s \<Longrightarrow>
   (k_name (sv_kind s) = ''plan'' \<or> k_name (sv_kind s) = ''story'') \<and> service_for p (k_name (sv_kind s)) = s"
  by (auto simp: palace_wf_def is_service_def service_for_def)

lemma palace_wf_lookup:
  assumes "palace_wf p" "lookup p k i = Inr d"
  shows "doc_kind d = k \<and> doc_id d = i \<and> id_re i \<and> (k = ''plan'' \<or> k = ''story'') \<and> valid_doc (service_for p k) d"
  using assms mem.get_key [of "mu_primary (pl_store p)" k i d] valid_id
  by (fastforce simp: palace_wf_def lookup_eq)

lemma palace_wf_quiet:
  assumes "quiet p p'" "palace_wf p"
  shows "palace_wf p'"
proof -
  have "service_for p' = service_for p"
    using assms(1) by (simp add: quiet_def same_env_def service_for_def fun_eq_iff)
  then show ?thesis
    using assms quiet_lookup [OF assms(1)]
    by (simp add: palace_wf_def quiet_def same_env_def mem_inv_def)
qed

text \<open>A valid document of a service may be written.\<close>

lemma palace_wf_put:
  assumes "palace_wf p" "is_service p s" "valid_doc s d"
    and "so_put palace_ops d (pl_store p) = (m, w)" "accepted w" "same_env p p'" "pl_store p' = m"
  shows "palace_wf p'"
    and "lookup p' k i = (if k = k_name (sv_kind s) \<and> i = doc_id d then Inr d else lookup p k i)"
proof -
  have i: "mem_inv (mu_primary (pl_store p))" using assms(1) by (simp add: palace_wf_def)
  have kd: "doc_kind d = k_name (sv_kind s)" using assms(3) by (simp add: valid_doc_iff)
  have *: "lookup p' k i = (if k = k_name (sv_kind s) \<and> i = doc_id d then Inr d else lookup p k i)" for k i
    using multi.put_accepted [OF i assms(4,5), of k i] kd assms(7) by (simp add: lookup_def)
  then show "lookup p' k i = (if k = k_name (sv_kind s) \<and> i = doc_id d then Inr d else lookup p k i)" .
  have "service_for p' = service_for p"
    using assms(6) by (simp add: same_env_def service_for_def fun_eq_iff)
  then show "palace_wf p'"
    using assms(1,3,6,7) is_service_kind [OF assms(1,2)] * multi.put_inv [OF i assms(4)]
    by (auto simp: palace_wf_def same_env_def split: if_splits)
qed


section \<open>The contract of an operation on one document\<close>

text \<open>
  An operation either leaves the documents as they are, answering with an error or with the
  document it found, or saves an edit of a document it found that keeps the id and the
  creation time.
\<close>

definition same_identity :: "document \<Rightarrow> document \<Rightarrow> bool" where
  "same_identity d d' \<longleftrightarrow>
     fm_id (doc_fm d') = fm_id (doc_fm d) \<and> fm_created (doc_fm d') = fm_created (doc_fm d)"

definition edit_contract :: "service \<Rightarrow> palace \<Rightarrow> document outcome \<Rightarrow> palace \<Rightarrow> bool" where
  "edit_contract s p r p' \<longleftrightarrow>
     quiet p p' \<and> (case r of Fail _ \<Rightarrow> True | Done d \<Rightarrow> \<exists>i. resolve s i p = Inr d | Partial _ _ \<Rightarrow> False) \<or>
     (\<exists>i d0 d q q' op. quiet p q \<and> resolve s i p = Inr d0 \<and> same_identity d0 d \<and>
        save s d op ''updated'' q = (r, q') \<and> quiet q' p')"

definition safe_edit :: "edit \<Rightarrow> bool" where
  "safe_edit f \<longleftrightarrow>
     (\<forall>d p r p'. f d p = (r, p') \<longrightarrow> quiet p p' \<and> (\<forall>d'. r = Inr (Some d') \<longrightarrow> same_identity d d'))"

lemma same_identity_refl [simp]: "same_identity d d"
  by (simp add: same_identity_def)

lemma same_identity_sel [simp]:
  "same_identity d (d'\<lparr>doc_path := x\<rparr>) = same_identity d d'"
  "same_identity d (d'\<lparr>doc_content := x\<rparr>) = same_identity d d'"
  by (simp_all add: same_identity_def)

lemma safe_editI:
  "(\<And>d p r p'. f d p = (r, p') \<Longrightarrow> quiet p p' \<and> (\<forall>d'. r = Inr (Some d') \<longrightarrow> same_identity d d')) \<Longrightarrow>
   safe_edit f"
  by (simp add: safe_edit_def)

lemma safe_editD:
  "safe_edit f \<Longrightarrow> f d p = (r, p') \<Longrightarrow> quiet p p' \<and> (\<forall>d'. r = Inr (Some d') \<longrightarrow> same_identity d d')"
  by (simp add: safe_edit_def)

lemma edit_with_contract:
  assumes "safe_edit f" "edit_with s i op f p = (r, p')"
  shows "edit_contract s p r p'"
proof (cases "resolve s i p")
  case (Inl e)
  then show ?thesis using assms(2) by (auto simp: edit_with_def edit_contract_def)
next
  case (Inr d)
  obtain x q where f: "f d p = (x, q)" by fastforce
  have q: "quiet p q" "\<And>d'. x = Inr (Some d') \<Longrightarrow> same_identity d d'"
    using safe_editD [OF assms(1) f] by simp_all
  consider (quiet) "p' = q" "(\<exists>e. r = Fail e) \<or> r = Done d"
    | (save) d' where "x = Inr (Some d')" "save s d' op ''updated'' q = (r, p')"
    using assms(2) Inr f by (auto simp: edit_with_def split: sum.splits option.splits)
  then show ?thesis
  proof cases
    case quiet
    then show ?thesis using q(1) Inr unfolding edit_contract_def by auto
  next
    case save
    then show ?thesis using q Inr quiet_refl unfolding edit_contract_def by blast
  qed
qed

lemma fail_contract: "(Fail e, p) = (r, p') \<Longrightarrow> edit_contract s p r p'"
  by (auto simp: edit_contract_def)

lemma safe_pure_edit:
  "(\<And>d p d'. f d p = Inr (Some d') \<Longrightarrow> same_identity d d') \<Longrightarrow> safe_edit (pure_edit f)"
  by (auto simp: safe_edit_def pure_edit_def)

text \<open>What a save with the action \<open>updated\<close> does to a well-formed palace.\<close>

lemma valid_doc_dates: "valid_doc s d \<Longrightarrow> fm_normalize_dates (doc_fm d) = doc_fm d"
  using fm_canonical_dates [of "doc_fm d"] fm_normalize_idem(2)
  by (metis fm_canonical_def fm_normalize_commute(1,3) valid_doc_iff)

lemma canonical_resolve:
  assumes "palace_wf p" "is_service p s" "resolve s i p = Inr d"
  shows "lookup p (k_name (sv_kind s)) (doc_id d) = Inr d \<and> valid_doc s d"
proof -
  obtain j d0 where *: "id_re j" "lookup p (k_name (sv_kind s)) j = Inr d0"
      "d = d0\<lparr>doc_kind := k_name (sv_kind s), doc_fm := fm_normalize_dates (doc_fm d0)\<rparr>"
    by (rule resolve_Inr [OF assms(3)])
  note k = palace_wf_lookup [OF assms(1) *(2)]
  have v: "valid_doc s d0" using k is_service_kind [OF assms(1,2)] by simp
  then have "fm_normalize_dates (doc_fm d0) = doc_fm d0" by (rule valid_doc_dates)
  then have "d = d0" using *(3) v by (cases d0) (simp add: valid_doc_iff)
  then show ?thesis using * k v by simp
qed

lemma resolve_stored:
  assumes "valid_doc s d" "lookup p (k_name (sv_kind s)) (doc_id d) = Inr d"
  shows "resolve s (doc_id d) p = Inr d"
  using resolve_id [OF valid_id [OF assms(1)] assms(2)] valid_doc_dates [OF assms(1)] assms(1)
  by (simp add: valid_doc_iff)

lemma save_updated:
  assumes "palace_wf p" "is_service p s" "quiet p q" "save s d op a q = (r, p')"
  shows "palace_wf p' \<and> same_env p p' \<and>
    (case r of
       Fail e \<Rightarrow> quiet p p'
     | Done d' \<Rightarrow> doc_id d' = doc_id d \<and> valid_doc s d' \<and> (\<exists>u. d' = save_form s d u) \<and>
         lookup p' = (\<lambda>k i. if k = k_name (sv_kind s) \<and> i = doc_id d then Inr d' else lookup p k i)
     | Partial d' e \<Rightarrow> doc_id d' = doc_id d \<and> valid_doc s d' \<and> (\<exists>u. d' = save_form s d u) \<and>
         lookup p' = (\<lambda>k i. if k = k_name (sv_kind s) \<and> i = doc_id d then Inr d' else lookup p k i))"
  using assms(4)
proof (cases rule: save_cases)
  case (invalid problems)
  then have "quiet p p'" using quiet_trans assms(3) by blast
  then show ?thesis using invalid palace_wf_quiet assms(1) quiet_env by simp
next
  case refused
  then have "quiet p p'" using quiet_trans assms(3) by blast
  then show ?thesis using refused palace_wf_quiet assms(1) quiet_env by simp
next
  case (written d' u p1 m w)
  have q1: "quiet p p1" using quiet_trans assms(3) written(1) by blast
  have wf1: "palace_wf p1" "is_service p1 s"
    using palace_wf_quiet [OF q1 assms(1)] assms(2) q1 by (auto simp: is_service_def quiet_def same_env_def)
  have env: "same_env p1 p'" using written(7) same_env_trans by (metis publish_event_sel(2) same_env_ticks(3))
  have st: "pl_store p' = m" using written(7) by simp
  have lk: "lookup p' = (\<lambda>k i. if k = k_name (sv_kind s) \<and> i = doc_id d then Inr d' else lookup p k i)"
    using palace_wf_put(2) [OF wf1 written(3,5,6) env st] quiet_lookup [OF q1] written(2) by (auto simp: fun_eq_iff)
  have "palace_wf p'" by (rule palace_wf_put(1) [OF wf1 written(3,5,6) env st])
  then show ?thesis
    using written lk same_env_trans [OF quiet_env [OF q1] env] by (auto split: option.splits)
qed

locale document_operation =
  fixes s :: service
    and run :: "palace \<Rightarrow> document outcome \<times> palace"
  assumes contract: "\<lbrakk>palace_wf p; is_service p s; run p = (r, p')\<rbrakk> \<Longrightarrow> edit_contract s p r p'"
begin

lemma env_wf:
  assumes "palace_wf p" "is_service p s" "run p = (r, p')"
  shows "palace_wf p' \<and> same_env p p'"
proof -
  have "palace_wf p' \<and> same_env p p'" if "quiet p p'"
    using palace_wf_quiet [OF that assms(1)] quiet_env [OF that] by simp
  moreover have "palace_wf p' \<and> same_env p p'"
    if "quiet p q" "save s d op ''updated'' q = (r, q')" "quiet q' p'" for q q' d op
    using save_updated [OF assms(1,2) that(1,2)] palace_wf_quiet [OF that(3)] quiet_env [OF that(3)] same_env_trans
    by blast
  ultimately show ?thesis using contract [OF assms] unfolding edit_contract_def by blast
qed

text \<open>A failing operation leaves every document, the bus and the copies as they were.\<close>

lemma fail_quiet:
  assumes "palace_wf p" "is_service p s" "run p = (Fail e, p')"
  shows "quiet p p'"
proof -
  have "quiet p p'"
    if "quiet p q" "save s d op ''updated'' q = (Fail e, q')" "quiet q' p'" for q q' d op
    using save_updated [OF assms(1,2) that(1,2)] quiet_trans that(3) by auto
  then show ?thesis using contract [OF assms] unfolding edit_contract_def by blast
qed

text \<open>The returned document is the stored one, and no other document has changed.\<close>

lemma done_effect:
  assumes "palace_wf p" "is_service p s" "run p = (r, p')" "r = Done d \<or> r = Partial d e"
  shows "lookup p' (k_name (sv_kind s)) (doc_id d) = Inr d \<and> valid_doc s d \<and>
    (\<exists>d0. lookup p (k_name (sv_kind s)) (doc_id d) = Inr d0 \<and>
       fm_created (doc_fm d) = fm_created (doc_fm d0)) \<and>
    (\<forall>k i. k \<noteq> k_name (sv_kind s) \<or> i \<noteq> doc_id d \<longrightarrow> lookup p' k i = lookup p k i)"
proof -
  consider (same) i where "quiet p p'" "resolve s i p = Inr d" "r = Done d"
    | (saved) i d0 c q q' op where "quiet p q" "resolve s i p = Inr d0" "same_identity d0 c"
        "save s c op ''updated'' q = (r, q')" "quiet q' p'"
    using contract [OF assms(1-3)] assms(4) unfolding edit_contract_def by (auto split: outcome.splits)
  then show ?thesis
  proof cases
    case same
    then show ?thesis
      using canonical_resolve [OF assms(1,2) same(2)] quiet_lookup [OF same(1)] by auto
  next
    case saved
    note r = canonical_resolve [OF assms(1,2) saved(2)]
    have sv: "doc_id d = doc_id c" "valid_doc s d" "\<exists>u. d = save_form s c u"
        "lookup q' = (\<lambda>k i. if k = k_name (sv_kind s) \<and> i = doc_id c then Inr d else lookup p k i)"
      using save_updated [OF assms(1,2) saved(1,4)] assms(4) by auto
    have "doc_id c = doc_id d0" using saved(3) by (simp add: same_identity_def doc_id_def)
    moreover have "fm_created (doc_fm d) = fm_created (doc_fm d0)"
      using sv(3) saved(3) r fm_canonical_created [of "doc_fm d0"]
      by (auto simp: save_form_created same_identity_def valid_doc_iff)
    moreover have "lookup p' = lookup q'" using quiet_lookup [OF saved(5)] by (simp add: fun_eq_iff)
    ultimately show ?thesis using sv r by auto
  qed
qed

text \<open>Documents are neither made nor lost, and keep the id and the creation time they have.\<close>

lemma identity:
  assumes "palace_wf p" "is_service p s" "run p = (r, p')"
  shows "case lookup p k i of
      Inl e \<Rightarrow> lookup p' k i = Inl e
    | Inr d0 \<Rightarrow> \<exists>d1. lookup p' k i = Inr d1 \<and> doc_id d1 = i \<and> fm_created (doc_fm d1) = fm_created (doc_fm d0)"
proof -
  have same: ?thesis if "lookup p' k i = lookup p k i"
    using that palace_wf_lookup [OF assms(1)] by (auto split: sum.splits)
  have written: ?thesis if "r = Done d \<or> r = Partial d e" for d e
  proof (cases "k = k_name (sv_kind s) \<and> i = doc_id d")
    case True
    then show ?thesis using done_effect [OF assms that] by auto
  next
    case False
    then show ?thesis using done_effect [OF assms that] by (intro same) blast
  qed
  show ?thesis
  proof (cases r)
    case (Fail e)
    then show ?thesis using fail_quiet [OF assms(1,2)] assms(3) quiet_lookup same by blast
  qed (use written in blast)+
qed

end

text \<open>An operation that is an edit after a guard meets the contract.\<close>

lemma edit_operation: "safe_edit f \<Longrightarrow> document_operation s (edit_with s i op f)"
  by unfold_locales (rule edit_with_contract)

lemma guarded_operation:
  "safe_edit f \<Longrightarrow> document_operation s (\<lambda>p. if b then (Fail e, p) else edit_with s i op f p)"
  by unfold_locales (auto split: if_splits intro: edit_with_contract fail_contract)

end
