(* ===== verification/Service_Workflow.thy ===== *)
theory Service_Workflow
  imports Palace_Core
begin

text \<open>
  The workflow of a document: what it depends on and what blocks it
  (\<open>service/dependencies.go\<close>), the acceptance criteria gate, and the status change that
  \<open>setStatus\<close>, a patch, a claim and auto-completion share (\<open>service/fields.go\<close>).
\<close>

section \<open>Dependencies\<close>

record dependency =
  dp_kind :: string
  dp_id :: string
  dp_title :: string
  dp_status :: string
  dp_relation :: string

definition dependency_string :: "dependency \<Rightarrow> string" where
  "dependency_string d =
     dp_kind d @ '' '' @ dp_id d @ '' ('' @ dp_status d @ '') '' @
     (if dp_relation d = ''blocked_by'' then ''blocks it'' else ''must finish first'')"

definition finished :: "string \<Rightarrow> bool" where
  "finished status \<longleftrightarrow> status = ''complete'' \<or> status = ''rejected'' \<or> status = ''archived''"

text \<open>The unfinished targets of the \<open>depends\<close> links to documents of one kind.\<close>

fun open_targets :: "service \<Rightarrow> link list \<Rightarrow> palace \<Rightarrow> svc_error + dependency list" where
  "open_targets other [] p = Inr []"
| "open_targets other (l # ls) p =
     (if link_relation l \<noteq> ''depends'' then open_targets other ls p
      else
        (case resolve other (link_id l) p of
           Inl e \<Rightarrow>
             if se_kind e = NotFound then
               map_sum id (\<lambda>ds. \<lparr>dp_kind = k_name (sv_kind other), dp_id = link_id l, dp_title = '''',
                                 dp_status = ''not found'', dp_relation = ''depends''\<rparr> # ds)
                 (open_targets other ls p)
             else Inl e
         | Inr dep \<Rightarrow>
             if finished (fm_status (doc_fm dep)) then open_targets other ls p
             else
               map_sum id (\<lambda>ds. \<lparr>dp_kind = k_name (sv_kind other), dp_id = doc_id dep,
                                 dp_title = fm_title (doc_fm dep), dp_status = fm_status (doc_fm dep),
                                 dp_relation = ''depends''\<rparr> # ds)
                 (open_targets other ls p)))"

text \<open>The unfinished documents of one kind with a \<open>blocks\<close> link to the document.\<close>

definition blocks_doc :: "service \<Rightarrow> document \<Rightarrow> service \<Rightarrow> document \<Rightarrow> bool" where
  "blocks_doc s d other e \<longleftrightarrow>
     \<not> (k_name (sv_kind other) = k_name (sv_kind s) \<and> doc_id e = doc_id d) \<and>
     \<not> finished (fm_status (doc_fm e)) \<and>
     list_ex (\<lambda>l. link_relation l = ''blocks'' \<and> normalize_id (link_id l) = doc_id d)
       (if k_name (sv_kind s) = ''story'' then story_links (doc_fm e) else plan_links (doc_fm e))"

fun open_blockers :: "service \<Rightarrow> document \<Rightarrow> service list \<Rightarrow> palace \<Rightarrow> svc_error + dependency list" where
  "open_blockers s d [] p = Inr []"
| "open_blockers s d (other # os) p =
     (case list_docs p (k_name (sv_kind other)) of
        Inl _ \<Rightarrow> Inl storage_err
      | Inr docs \<Rightarrow>
          map_sum id
            (append (map (\<lambda>e. \<lparr>dp_kind = k_name (sv_kind other), dp_id = doc_id e,
                               dp_title = fm_title (doc_fm e), dp_status = fm_status (doc_fm e),
                               dp_relation = ''blocked_by''\<rparr>)
                      (filter (blocks_doc s d other) docs)))
            (open_blockers s d os p))"

definition open_dependencies :: "service \<Rightarrow> document \<Rightarrow> bool \<Rightarrow> palace \<Rightarrow> svc_error + dependency list" where
  "open_dependencies s d completing p =
     (case open_targets (pl_plans p) (plan_links (doc_fm d)) p of
        Inl e \<Rightarrow> Inl e
      | Inr ps \<Rightarrow>
          (case open_targets (pl_stories p) (story_links (doc_fm d)) p of
             Inl e \<Rightarrow> Inl e
           | Inr ss \<Rightarrow>
               if completing then
                 map_sum id (append (ps @ ss)) (open_blockers s d (palace_services p) p)
               else Inr (ps @ ss)))"

definition dependency_gate :: "service \<Rightarrow> document \<Rightarrow> bool \<Rightarrow> palace \<Rightarrow> svc_error option" where
  "dependency_gate s d completing p =
     (case open_dependencies s d completing p of
        Inl e \<Rightarrow> Some e
      | Inr [] \<Rightarrow> None
      | Inr ds \<Rightarrow> Some (err_with BlockedByDependency (map dependency_string ds)))"

definition dependencies :: "service \<Rightarrow> string \<Rightarrow> palace \<Rightarrow> svc_error + dependency list" where
  "dependencies s identifier p =
     (case resolve s identifier p of
        Inl e \<Rightarrow> Inl e
      | Inr d \<Rightarrow> open_dependencies s d True p)"

section \<open>The acceptance criteria gate\<close>

definition criteria_gate :: "service \<Rightarrow> document \<Rightarrow> svc_error option" where
  "criteria_gate s d =
     (if \<not> k_criteria_gate (sv_kind s) then None
      else
        (case criteria (doc_content d) of
           None \<Rightarrow> Some (new_err IncompleteCriteria)
         | Some items \<Rightarrow>
             if items = [] then Some (new_err IncompleteCriteria)
             else
               (let opn = filter (\<lambda>c. cr_state c = StateOpen) items
                in if opn \<noteq> [] then
                     Some (err_with IncompleteCriteria
                       (map (\<lambda>c. itoa (cr_position c) @ '': '' @ cr_text c) opn))
                   else None)))"

section \<open>Status changes\<close>

definition apply_status :: "service \<Rightarrow> string \<Rightarrow> bool \<Rightarrow> edit" where
  "apply_status s status force d p =
     (case normalize_status (sv_cfg s) status of
        None \<Rightarrow> (Inl (new_err BadRequest), p)
      | Some to \<Rightarrow>
          (let from = fm_status (doc_fm d)
           in if to = from then (Inr None, p)
              else if \<not> force \<and> \<not> can_transition (sv_cfg s) from to then
                (Inl (new_err InvalidTransition), p)
              else
                (case (if to = ''complete'' then criteria_gate s d else None) of
                   Some e \<Rightarrow> (Inl e, p)
                 | None \<Rightarrow>
                     (case (if \<not> force \<and> (to = ''in_progress'' \<or> to = ''complete'')
                            then dependency_gate s d (to = ''complete'') p else None) of
                        Some e \<Rightarrow> (Inl e, p)
                      | None \<Rightarrow>
                          (let (now, p') = timestamp p;
                               f1 = (doc_fm d)\<lparr>fm_status := to\<rparr>;
                               f2 = (if to = ''in_progress'' \<and> k_tracks_started (sv_kind s)
                                     then f1\<lparr>fm_started := now\<rparr> else f1);
                               f3 = (if to = ''complete'' then f2\<lparr>fm_completed := now\<rparr> else f2)
                           in (Inr (Some (d\<lparr>doc_fm := f3\<rparr>)), p'))))))"

text \<open>The canonical path after an edit; an edit that changed nothing keeps it.\<close>

definition then_path :: "edit \<Rightarrow> edit" where
  "then_path f d p =
     (case f d p of
        (Inr (Some d'), p') \<Rightarrow> (Inr (Some (d'\<lparr>doc_path := path_for d' ''''\<rparr>)), p')
      | r \<Rightarrow> r)"

definition set_status :: "service \<Rightarrow> string \<Rightarrow> string \<Rightarrow> bool \<Rightarrow> palace \<Rightarrow> document outcome \<times> palace" where
  "set_status s identifier status force =
     edit_with s identifier ''setStatus'' (then_path (apply_status s status force))"

definition get_transitions :: "service \<Rightarrow> string \<Rightarrow> palace \<Rightarrow> svc_error + (string \<times> string \<times> string list)" where
  "get_transitions s identifier p =
     (case resolve s identifier p of
        Inl e \<Rightarrow> Inl e
      | Inr d \<Rightarrow>
          Inr (doc_id d, fm_status (doc_fm d), transitions (sv_cfg s) (fm_status (doc_fm d))))"

section \<open>Facts\<close>

lemma same_identity_fm:
  "same_identity d (d'\<lparr>doc_fm := f\<rparr>) \<longleftrightarrow> fm_id f = fm_id (doc_fm d) \<and> fm_created f = fm_created (doc_fm d)"
  by (simp add: same_identity_def)

text \<open>Every way a status change can end.\<close>

lemma apply_status_cases:
  assumes "apply_status s status force d p = (r, p')"
  obtains (refused) e where "r = Inl e" "p' = p"
    | (same) "r = Inr None" "p' = p" "normalize_status (sv_cfg s) status = Some (fm_status (doc_fm d))"
    | (moved) to now f where "r = Inr (Some (d\<lparr>doc_fm := f\<rparr>))" "timestamp p = (now, p')"
        "normalize_status (sv_cfg s) status = Some to" "to \<noteq> fm_status (doc_fm d)"
        "force \<or> can_transition (sv_cfg s) (fm_status (doc_fm d)) to"
        "to = ''complete'' \<Longrightarrow> criteria_gate s d = None"
        "\<not> force \<Longrightarrow> to = ''in_progress'' \<or> to = ''complete'' \<Longrightarrow> dependency_gate s d (to = ''complete'') p = None"
        "f = (doc_fm d)\<lparr>fm_status := to,
           fm_started := (if to = ''in_progress'' \<and> k_tracks_started (sv_kind s) then now else fm_started (doc_fm d)),
           fm_completed := (if to = ''complete'' then now else fm_completed (doc_fm d))\<rparr>"
proof (cases "normalize_status (sv_cfg s) status")
  case None
  then show ?thesis using assms by (intro refused) (auto simp: apply_status_def)
next
  case (Some to)
  note as = assms [unfolded apply_status_def Some option.case Let_def]
  let ?c = "if to = ''complete'' then criteria_gate s d else None"
  let ?g = "if \<not> force \<and> (to = ''in_progress'' \<or> to = ''complete'') then dependency_gate s d (to = ''complete'') p else None"
  show ?thesis
  proof (cases "to = fm_status (doc_fm d)")
    case True
    then show ?thesis using as Some by (intro same) simp_all
  next
    case False
    show ?thesis
    proof (cases "(force \<or> can_transition (sv_cfg s) (fm_status (doc_fm d)) to) \<and> ?c = None \<and> ?g = None")
      case ok: True
      obtain now q where t: "timestamp p = (now, q)" by fastforce
      let ?f = "(doc_fm d)\<lparr>fm_status := to,
           fm_started := (if to = ''in_progress'' \<and> k_tracks_started (sv_kind s) then now else fm_started (doc_fm d)),
           fm_completed := (if to = ''complete'' then now else fm_completed (doc_fm d))\<rparr>"
      have "(r, p') = (Inr (Some (d\<lparr>doc_fm := ?f\<rparr>)), q)"
        using as False ok
        by (cases "to = ''in_progress''"; cases "to = ''complete''"; cases "k_tracks_started (sv_kind s)")
          (auto simp: t)
      then show ?thesis
        using t Some False ok by (intro moved [of ?f now to]) (auto split: if_splits)
    next
      case no: False
      then have "\<exists>e. r = Inl e \<and> p' = p" using as False by (auto split: if_splits option.splits)
      then show ?thesis using refused by blast
    qed
  qed
qed

lemma apply_status_safe: "safe_edit (apply_status s status force)"
proof (rule safe_editI)
  fix d p r p'
  assume "apply_status s status force d p = (r, p')"
  then show "quiet p p' \<and> (\<forall>d'. r = Inr (Some d') \<longrightarrow> same_identity d d')"
    by (cases rule: apply_status_cases) (auto simp: same_identity_fm timestamp_quiet)
qed

lemma then_path_safe: "safe_edit f \<Longrightarrow> safe_edit (then_path f)"
  by (rule safe_editI) (auto simp: then_path_def dest: safe_editD split: prod.splits sum.splits option.splits)

interpretation set_status: document_operation s "set_status s i status force" for s i status force
  unfolding set_status_def by (intro edit_operation then_path_safe apply_status_safe)


text \<open>Nothing holds a document up exactly when every target is finished and no blocker is open.\<close>

lemma open_targets_Nil:
  "open_targets other ls p = Inr [] \<longleftrightarrow>
     (\<forall>l \<in> set ls. link_relation l = ''depends'' \<longrightarrow>
        (\<exists>dep. resolve other (link_id l) p = Inr dep \<and> finished (fm_status (doc_fm dep))))"
proof (induction ls)
  case (Cons l ls)
  show ?case
    using Cons.IH
    by (cases "open_targets other ls p") (auto split: sum.splits)
qed simp

lemma open_blockers_Nil:
  "open_blockers s d os p = Inr [] \<longleftrightarrow>
     (\<forall>other \<in> set os. \<exists>docs. list_docs p (k_name (sv_kind other)) = Inr docs \<and>
        (\<forall>e \<in> set docs. \<not> blocks_doc s d other e))"
proof (induction os)
  case (Cons other os)
  show ?case
    using Cons.IH
    by (cases "open_blockers s d os p") (auto simp: filter_empty_conv split: sum.splits)
qed simp

definition targets_finished :: "service \<Rightarrow> link list \<Rightarrow> palace \<Rightarrow> bool" where
  "targets_finished other ls p \<longleftrightarrow>
     (\<forall>l \<in> set ls. link_relation l = ''depends'' \<longrightarrow>
        (\<exists>dep. resolve other (link_id l) p = Inr dep \<and> finished (fm_status (doc_fm dep))))"

definition unblocked :: "service \<Rightarrow> document \<Rightarrow> palace \<Rightarrow> bool" where
  "unblocked s d p \<longleftrightarrow>
     (\<forall>other \<in> {pl_plans p, pl_stories p}. \<exists>docs. list_docs p (k_name (sv_kind other)) = Inr docs \<and>
        (\<forall>e \<in> set docs. \<not> blocks_doc s d other e))"

lemma open_dependencies_Nil:
  "open_dependencies s d completing p = Inr [] \<longleftrightarrow>
     targets_finished (pl_plans p) (plan_links (doc_fm d)) p \<and>
     targets_finished (pl_stories p) (story_links (doc_fm d)) p \<and>
     (completing \<longrightarrow> unblocked s d p)"
proof -
  have *: "unblocked s d p \<longleftrightarrow> open_blockers s d (palace_services p) p = Inr []"
    by (simp only: open_blockers_Nil) (simp add: unblocked_def palace_services_def)
  show ?thesis
    unfolding targets_finished_def open_targets_Nil [symmetric] *
    by (cases "open_blockers s d (palace_services p) p")
      (auto simp: open_dependencies_def split: sum.splits)
qed

lemma dependency_gate_None:
  "dependency_gate s d completing p = None \<longleftrightarrow> open_dependencies s d completing p = Inr []"
  by (auto simp: dependency_gate_def split: sum.splits list.splits)

lemma criteria_gate_None:
  "criteria_gate s d = None \<longleftrightarrow> \<not> k_criteria_gate (sv_kind s) \<or>
     (\<exists>items. criteria (doc_content d) = Some items \<and> items \<noteq> [] \<and> (\<forall>c \<in> set items. cr_state c \<noteq> StateOpen))"
  by (auto simp: criteria_gate_def Let_def filter_empty_conv split: option.splits)

lemma edit_with_Done:
  assumes "edit_with s i op f p = (Done d, p')" "resolve s i p = Inr d0"
  obtains (same) "fst (f d0 p) = Inr None" "d = d0" "p' = snd (f d0 p)"
    | (saved) d1 q where "f d0 p = (Inr (Some d1), q)" "save s d1 op ''updated'' q = (Done d, p')"
  using assms by (auto simp: edit_with_def split: prod.splits sum.splits option.splits)

lemma save_Done:
  assumes "save s d op a p = (Done d', p')"
  obtains u where "d' = save_form s d u" "valid_doc s d'"
  using assms by (cases rule: save_cases) (auto split: option.splits)

text \<open>C4. A status change that succeeds obeys the rules: either the document already had the status,
  or the new status is a configured one that the workflow allows from the old one (unless
  forced); completing a story needs a non-empty list of acceptance criteria none of which is
  open, forced or not; and without force, starting needs every document it depends on
  finished and completing also needs every unfinished blocker gone.\<close>

theorem set_status_rules:
  assumes "set_status s i status force p = (Done d, p')" "resolve s i p = Inr d0"
    and "fm_status (doc_fm d) \<noteq> fm_status (doc_fm d0)"
  shows "normalize_status (sv_cfg s) status = Some (fm_status (doc_fm d)) \<and>
    find_status (sv_cfg s) (fm_status (doc_fm d)) \<noteq> None \<and>
    (\<not> force \<longrightarrow> can_transition (sv_cfg s) (fm_status (doc_fm d0)) (fm_status (doc_fm d))) \<and>
    (fm_status (doc_fm d) = ''complete'' \<and> k_criteria_gate (sv_kind s) \<longrightarrow>
       (\<exists>items. criteria (doc_content d0) = Some items \<and> items \<noteq> [] \<and> (\<forall>c \<in> set items. cr_state c \<noteq> StateOpen))) \<and>
    (\<not> force \<and> fm_status (doc_fm d) \<in> {''in_progress'', ''complete''} \<longrightarrow>
       targets_finished (pl_plans p) (plan_links (doc_fm d0)) p \<and>
       targets_finished (pl_stories p) (story_links (doc_fm d0)) p \<and>
       (fm_status (doc_fm d) = ''complete'' \<longrightarrow> unblocked s d0 p))"
proof -
  obtain d1 q where 1: "then_path (apply_status s status force) d0 p = (Inr (Some d1), q)"
      "save s d1 ''setStatus'' ''updated'' q = (Done d, p')"
    using edit_with_Done [OF assms(1) [unfolded set_status_def] assms(2)] assms(3) by blast
  obtain u where u: "d = save_form s d1 u" by (rule save_Done [OF 1(2)])
  obtain d2 where 2: "apply_status s status force d0 p = (Inr (Some d2), q)"
      "d1 = d2\<lparr>doc_path := path_for d2 ''''\<rparr>"
    using 1(1) by (auto simp: then_path_def split: prod.splits sum.splits option.splits)
  have st: "fm_status (doc_fm d) = fm_status (doc_fm d2)" using u 2 by simp
  show ?thesis
    using 2(1)
  proof (cases rule: apply_status_cases)
    case (moved to now f)
    have "fm_status (doc_fm d) = to" using st moved(1,8) by simp
    then show ?thesis
      using moved normalize_status_known [OF moved(3)]
      by (auto simp: criteria_gate_None dependency_gate_None open_dependencies_Nil)
  qed simp_all
qed

text \<open>The stamps of a status change: entering \<open>in_progress\<close> records the start of a story, entering
  \<open>complete\<close> the completion, with the time the clock gave; otherwise both stay, also when the
  document moves on, and title, type and content do too.\<close>

theorem apply_status_stamps:
  assumes "apply_status s status force d p = (Inr (Some d'), p')"
  shows "doc_content d' = doc_content d \<and> doc_path d' = doc_path d \<and>
    doc_fm d' = (doc_fm d)\<lparr>fm_status := fm_status (doc_fm d'),
      fm_started := (if fm_status (doc_fm d') = ''in_progress'' \<and> k_tracks_started (sv_kind s)
                     then fst (timestamp p) else fm_started (doc_fm d)),
      fm_completed := (if fm_status (doc_fm d') = ''complete'' then fst (timestamp p)
                       else fm_completed (doc_fm d))\<rparr>"
  using assms by (cases rule: apply_status_cases) auto


section \<open>The built-in workflow\<close>

lemma default_transitions:
  "can_transition default_stories ''pending'' ''validated''" "can_transition default_stories ''pending'' ''blocked''"
  "can_transition default_stories ''pending'' ''rejected''" "can_transition default_stories ''validated'' ''ready''"
  "can_transition default_stories ''validated'' ''pending''" "can_transition default_stories ''ready'' ''in_progress''"
  "can_transition default_stories ''ready'' ''validated''" "can_transition default_stories ''in_progress'' ''complete''"
  "can_transition default_stories ''in_progress'' ''ready''" "can_transition default_stories ''complete'' ''archived''"
  "can_transition default_stories ''archived'' ''pending''" "can_transition default_stories ''blocked'' ''pending''"
  "can_transition default_stories ''rejected'' ''pending''"
  by code_simp+

lemma default_status_names:
  "set (status_names default_stories) = {''pending'', ''validated'', ''ready'', ''in_progress'', ''complete'',
     ''blocked'', ''rejected'', ''archived''}"
  by (simp add: status_names_def default_stories_def default_statuses_def nd_def)

lemma default_to_pending:
  assumes "a \<in> set (status_names default_stories)"
  shows "(can_transition default_stories)\<^sup>*\<^sup>* a ''pending''"
proof -
  note step = converse_rtranclp_into_rtranclp [of "can_transition default_stories"]
  have v: "(can_transition default_stories)\<^sup>*\<^sup>* ''validated'' ''pending''"
    by (rule step [OF default_transitions(5)]) simp
  have r: "(can_transition default_stories)\<^sup>*\<^sup>* ''ready'' ''pending''"
    by (rule step [OF default_transitions(7) v])
  have i: "(can_transition default_stories)\<^sup>*\<^sup>* ''in_progress'' ''pending''"
    by (rule step [OF default_transitions(9) r])
  have c: "(can_transition default_stories)\<^sup>*\<^sup>* ''complete'' ''pending''"
    by (rule step [OF default_transitions(10)]) (rule step [OF default_transitions(11)], simp)
  show ?thesis
    using assms v r i c step [OF default_transitions(11)] step [OF default_transitions(12)]
      step [OF default_transitions(13)]
    unfolding default_status_names by auto
qed

lemma default_from_pending:
  assumes "b \<in> set (status_names default_stories)"
  shows "(can_transition default_stories)\<^sup>*\<^sup>* ''pending'' b"
proof -
  note step = rtranclp.rtrancl_into_rtrancl [of "can_transition default_stories"]
  have v: "(can_transition default_stories)\<^sup>*\<^sup>* ''pending'' ''validated''"
    by (rule step [OF _ default_transitions(1)]) simp
  have r: "(can_transition default_stories)\<^sup>*\<^sup>* ''pending'' ''ready''"
    by (rule step [OF v default_transitions(4)])
  have i: "(can_transition default_stories)\<^sup>*\<^sup>* ''pending'' ''in_progress''"
    by (rule step [OF r default_transitions(6)])
  have c: "(can_transition default_stories)\<^sup>*\<^sup>* ''pending'' ''complete''"
    by (rule step [OF i default_transitions(8)])
  have a: "(can_transition default_stories)\<^sup>*\<^sup>* ''pending'' ''archived''"
    by (rule step [OF c default_transitions(10)])
  show ?thesis
    using assms v r i c a step [OF _ default_transitions(2)] step [OF _ default_transitions(3)]
    unfolding default_status_names by auto
qed

text \<open>The built-in workflow has no dead end: from every status every status can be reached by
  allowed moves.\<close>

theorem default_workflow_connected:
  assumes "a \<in> set (status_names default_stories)" "b \<in> set (status_names default_stories)"
  shows "(can_transition default_stories)\<^sup>*\<^sup>* a b"
  using default_to_pending [OF assms(1)] default_from_pending [OF assms(2)] by (rule rtranclp_trans)

text \<open>In the built-in workflow, of plans and of stories, work can only be completed from
  \<open>in_progress\<close> and only be started from \<open>ready\<close> or taken up again from \<open>complete\<close>.\<close>

theorem default_workflow_entries:
  "(can_transition default_stories from ''complete'' \<longleftrightarrow> from = ''in_progress'') \<and>
   (can_transition default_stories from ''in_progress'' \<longleftrightarrow> from \<in> {''ready'', ''complete''}) \<and>
   can_transition default_plans = can_transition default_stories"
  by (auto simp: can_transition_def transitions_def default_stories_def default_plans_def default_workflow_def
      fun_eq_iff split: if_splits option.splits)

end
