(* ===== verification/Service_Planning.thy ===== *)
theory Service_Planning
  imports Service_Workflow
begin

text \<open>
  The planning fields every kind has: tags, milestone, dates, order, and the assignee of a
  story (\<open>service/schedule.go\<close>). Every setter is an interpretation of \<open>document_operation\<close>.
\<close>

definition blank_chars :: string where
  "blank_chars = [CHR '' '', CHR 0x09, CHR 0x0D, CHR 0x0A]"

fun tags_from :: "string list \<Rightarrow> string list \<Rightarrow> string list option" where
  "tags_from seen [] = Some []"
| "tags_from seen (t0 # ts) =
     (let t = trim_space t0
      in if t = '''' then tags_from seen ts
         else if contains_any t blank_chars then None
         else if t \<in> set seen then tags_from seen ts
         else map_option (\<lambda>r. t # r) (tags_from (t # seen) ts))"

definition normalize_tags :: "string list \<Rightarrow> svc_error + string list" where
  "normalize_tags ts = (case tags_from [] ts of None \<Rightarrow> Inl (new_err BadRequest) | Some r \<Rightarrow> Inr r)"

definition date_field :: "string \<Rightarrow> svc_error + string" where
  "date_field v = (case normalize_date v of None \<Rightarrow> Inl (new_err BadRequest) | Some n \<Rightarrow> Inr n)"

definition normalize_assignee :: "string \<Rightarrow> svc_error + string" where
  "normalize_assignee a =
     (if contains_any (trim_space a) blank_chars then Inl (new_err BadRequest) else Inr (trim_space a))"

text \<open>The integer forms of a JSON or command line value; a float must be integral.\<close>

definition to_int :: "go_val \<Rightarrow> svc_error + int" where
  "to_int v =
     (let bad = Inl (new_err BadRequest);
          ok = (\<lambda>r. case r of None \<Rightarrow> bad | Some i \<Rightarrow> Inr i)
      in case v of
           VInt i \<Rightarrow> Inr i
         | VFloat m k \<Rightarrow> ok (float_int m k)
         | VNumber s \<Rightarrow> ok (atoi s)
         | VString s \<Rightarrow>
             (case atoi (trim_space s) of
                None \<Rightarrow> bad
              | Some i \<Rightarrow> if itoa_int i \<noteq> trim_space s then bad else Inr i)
         | _ \<Rightarrow> bad)"

section \<open>Setters\<close>

definition set_tags :: "service \<Rightarrow> string \<Rightarrow> string list \<Rightarrow> palace \<Rightarrow> document outcome \<times> palace" where
  "set_tags s identifier tags =
     edit_with s identifier ''setTags'' (pure_edit (\<lambda>d p.
       map_sum id (\<lambda>t. Some (set_fm (fm_tags_update (\<lambda>_. t)) d)) (normalize_tags tags)))"

definition add_tag :: "service \<Rightarrow> string \<Rightarrow> string \<Rightarrow> palace \<Rightarrow> document outcome \<times> palace" where
  "add_tag s identifier tag =
     edit_with s identifier ''addTag'' (pure_edit (\<lambda>d p.
       if trim_space tag = '''' then Inl (new_err BadRequest)
       else
         (case normalize_tags (fm_tags (doc_fm d) @ [tag]) of
            Inl e \<Rightarrow> Inl e
          | Inr t \<Rightarrow>
              if length t = length (fm_tags (doc_fm d)) then Inr None
              else Inr (Some (set_fm (fm_tags_update (\<lambda>_. t)) d)))))"

definition remove_tag :: "service \<Rightarrow> string \<Rightarrow> string \<Rightarrow> palace \<Rightarrow> document outcome \<times> palace" where
  "remove_tag s identifier tag =
     edit_with s identifier ''removeTag'' (pure_edit (\<lambda>d p.
       (let kept = filter (\<lambda>t. t \<noteq> trim_space tag) (fm_tags (doc_fm d))
        in if length kept = length (fm_tags (doc_fm d)) then Inr None
           else Inr (Some (set_fm (fm_tags_update (\<lambda>_. kept)) d)))))"

definition set_milestone :: "service \<Rightarrow> string \<Rightarrow> string \<Rightarrow> palace \<Rightarrow> document outcome \<times> palace" where
  "set_milestone s identifier milestone =
     edit_with s identifier ''setMilestone'' (pure_edit (\<lambda>d p.
       Inr (Some (set_fm (fm_milestone_update (\<lambda>_. trim_space milestone)) d))))"

definition set_due_date :: "service \<Rightarrow> string \<Rightarrow> string \<Rightarrow> palace \<Rightarrow> document outcome \<times> palace" where
  "set_due_date s identifier date =
     edit_with s identifier ''setDueDate'' (pure_edit (\<lambda>d p.
       map_sum id (\<lambda>n. Some (set_fm (fm_due_date_update (\<lambda>_. n)) d)) (date_field date)))"

definition set_planned_dates ::
  "service \<Rightarrow> string \<Rightarrow> string \<Rightarrow> string \<Rightarrow> palace \<Rightarrow> document outcome \<times> palace" where
  "set_planned_dates s identifier start finish =
     edit_with s identifier ''setPlannedDates'' (pure_edit (\<lambda>d p.
       (case date_field start of
          Inl e \<Rightarrow> Inl e
        | Inr a \<Rightarrow>
            (case date_field finish of
               Inl e \<Rightarrow> Inl e
             | Inr b \<Rightarrow>
                 (let f = (doc_fm d)\<lparr>fm_planned_start := a, fm_planned_end := b\<rparr>
                  in if planned_dates_bad f then Inl (new_err BadRequest)
                     else Inr (Some (d\<lparr>doc_fm := f\<rparr>)))))))"

definition set_order :: "service \<Rightarrow> string \<Rightarrow> int \<Rightarrow> palace \<Rightarrow> document outcome \<times> palace" where
  "set_order s identifier n =
     edit_with s identifier ''setOrder'' (pure_edit (\<lambda>d p.
       Inr (Some (set_fm (fm_order_update (\<lambda>_. n)) d))))"

definition set_assignee :: "service \<Rightarrow> string \<Rightarrow> string \<Rightarrow> palace \<Rightarrow> document outcome \<times> palace" where
  "set_assignee s identifier assignee p =
     (if \<not> k_has_assignee (sv_kind s) then (Fail (new_err BadRequest), p)
      else edit_with s identifier ''setAssignee'' (pure_edit (\<lambda>d p.
        map_sum id (\<lambda>a. Some (set_fm (fm_assignee_update (\<lambda>_. a)) d)) (normalize_assignee assignee))) p)"

section \<open>Planning fields of a patch\<close>

text \<open>A Go string element decoded from JSON: \<open>null\<close> leaves the empty string.\<close>

definition decode_string :: "go_val \<Rightarrow> string option" where
  "decode_string v = (case v of VString s \<Rightarrow> Some s | VNull \<Rightarrow> Some '''' | _ \<Rightarrow> None)"

fun decode_all :: "(go_val \<Rightarrow> 'a option) \<Rightarrow> go_val list \<Rightarrow> 'a list option" where
  "decode_all f [] = Some []"
| "decode_all f (v # vs) =
     (case f v of None \<Rightarrow> None | Some x \<Rightarrow> map_option (Cons x) (decode_all f vs))"

definition decode_strings :: "go_val \<Rightarrow> string list option" where
  "decode_strings v = (case v of VNull \<Rightarrow> Some [] | VList vs \<Rightarrow> decode_all decode_string vs | _ \<Rightarrow> None)"

text \<open>A field that must be a string or null.\<close>

definition string_field :: "go_val \<Rightarrow> svc_error + string" where
  "string_field v =
     (case v of VNull \<Rightarrow> Inr '''' | VString s \<Rightarrow> Inr s | _ \<Rightarrow> Inl (new_err BadRequest))"

text \<open>\<open>Inr None\<close>: the key is none of the planning fields.\<close>

definition patch_planning :: "service \<Rightarrow> string \<Rightarrow> go_val \<Rightarrow> front_matter \<Rightarrow> svc_error + front_matter option" where
  "patch_planning s key v f =
     (if key = ''tags'' then
        (if v = VNull then Inr (Some (f\<lparr>fm_tags := []\<rparr>))
         else
           (case decode_strings v of
              None \<Rightarrow> Inl (new_err BadRequest)
            | Some ts \<Rightarrow> map_sum id (\<lambda>t. Some (f\<lparr>fm_tags := t\<rparr>)) (normalize_tags ts)))
      else if key = ''milestone'' then
        map_sum id (\<lambda>m. Some (f\<lparr>fm_milestone := trim_space m\<rparr>)) (string_field v)
      else if key = ''due_date'' \<or> key = ''planned_start'' \<or> key = ''planned_end'' then
        (case string_field v of
           Inl e \<Rightarrow> Inl e
         | Inr str \<Rightarrow>
             map_sum id
               (\<lambda>n. Some (if key = ''due_date'' then f\<lparr>fm_due_date := n\<rparr>
                          else if key = ''planned_start'' then f\<lparr>fm_planned_start := n\<rparr>
                          else f\<lparr>fm_planned_end := n\<rparr>))
               (date_field str))
      else if key = ''order'' then
        (if v = VNull then Inr (Some (f\<lparr>fm_order := 0\<rparr>))
         else map_sum id (\<lambda>n. Some (f\<lparr>fm_order := n\<rparr>)) (to_int v))
      else if key = ''assignee'' then
        (if \<not> k_has_assignee (sv_kind s) then Inl (new_err BadRequest)
         else
           (case string_field v of
              Inl e \<Rightarrow> Inl e
            | Inr str \<Rightarrow> map_sum id (\<lambda>a. Some (f\<lparr>fm_assignee := a\<rparr>)) (normalize_assignee str)))
      else Inr None)"

section \<open>Facts\<close>

lemma map_sum_Inr: "map_sum id g x = Inr y \<longleftrightarrow> (\<exists>z. x = Inr z \<and> y = g z)"
  by (cases x) auto

lemma same_identity_set_fm:
  "same_identity d (set_fm g d) \<longleftrightarrow>
     fm_id (g (doc_fm d)) = fm_id (doc_fm d) \<and> fm_created (g (doc_fm d)) = fm_created (doc_fm d)"
  by (auto simp: same_identity_def set_fm_def)

lemmas identity_simps = same_identity_set_fm same_identity_fm map_sum_Inr Let_def

interpretation set_tags: document_operation s "set_tags s i ts" for s i ts
  unfolding set_tags_def by (intro edit_operation safe_pure_edit) (auto simp: identity_simps)

interpretation add_tag: document_operation s "add_tag s i t" for s i t
  unfolding add_tag_def
  by (intro edit_operation safe_pure_edit) (auto simp: identity_simps split: if_splits sum.splits)

interpretation remove_tag: document_operation s "remove_tag s i t" for s i t
  unfolding remove_tag_def
  by (intro edit_operation safe_pure_edit) (auto simp: identity_simps split: if_splits)

interpretation set_milestone: document_operation s "set_milestone s i m" for s i m
  unfolding set_milestone_def by (intro edit_operation safe_pure_edit) (auto simp: identity_simps)

interpretation set_due_date: document_operation s "set_due_date s i t" for s i t
  unfolding set_due_date_def by (intro edit_operation safe_pure_edit) (auto simp: identity_simps)

interpretation set_planned_dates: document_operation s "set_planned_dates s i a b" for s i a b
  unfolding set_planned_dates_def
  by (intro edit_operation safe_pure_edit) (auto simp: identity_simps split: if_splits sum.splits)

interpretation set_order: document_operation s "set_order s i n" for s i n
  unfolding set_order_def by (intro edit_operation safe_pure_edit) (auto simp: identity_simps)

interpretation set_assignee: document_operation s "set_assignee s i a" for s i a
  unfolding set_assignee_def [abs_def]
  by (intro guarded_operation safe_pure_edit) (auto simp: identity_simps)

text \<open>One field at a time.\<close>

lemma patch_planning_other:
  "k \<notin> {''tags'', ''milestone'', ''due_date'', ''planned_start'', ''planned_end'', ''order'', ''assignee''} \<Longrightarrow>
   patch_planning s k v f = Inr None"
  by (simp add: patch_planning_def)

lemma patch_planning_field:
  "patch_planning s ''tags'' v f = Inr (Some g) \<Longrightarrow> fm_id g = fm_id f \<and> fm_created g = fm_created f"
  "patch_planning s ''milestone'' v f = Inr (Some g) \<Longrightarrow> fm_id g = fm_id f \<and> fm_created g = fm_created f"
  "patch_planning s ''due_date'' v f = Inr (Some g) \<Longrightarrow> fm_id g = fm_id f \<and> fm_created g = fm_created f"
  "patch_planning s ''planned_start'' v f = Inr (Some g) \<Longrightarrow> fm_id g = fm_id f \<and> fm_created g = fm_created f"
  "patch_planning s ''planned_end'' v f = Inr (Some g) \<Longrightarrow> fm_id g = fm_id f \<and> fm_created g = fm_created f"
  "patch_planning s ''order'' v f = Inr (Some g) \<Longrightarrow> fm_id g = fm_id f \<and> fm_created g = fm_created f"
  "patch_planning s ''assignee'' v f = Inr (Some g) \<Longrightarrow> fm_id g = fm_id f \<and> fm_created g = fm_created f"
        apply (cases "v = VNull"; cases "decode_strings v"; auto simp: patch_planning_def map_sum_Inr)
       apply (auto simp: patch_planning_def map_sum_Inr)[1]
      apply (cases "string_field v"; auto simp: patch_planning_def map_sum_Inr)
     apply (cases "string_field v"; auto simp: patch_planning_def map_sum_Inr)
    apply (cases "string_field v"; auto simp: patch_planning_def map_sum_Inr)
   apply (cases "v = VNull"; auto simp: patch_planning_def map_sum_Inr)
  apply (cases "k_has_assignee (sv_kind s)"; cases "string_field v"; auto simp: patch_planning_def map_sum_Inr)
  done

lemma patch_planning_identity:
  assumes "patch_planning s k v f = Inr (Some g)"
  shows "fm_id g = fm_id f \<and> fm_created g = fm_created f"
proof (cases "k \<in> {''tags'', ''milestone'', ''due_date'', ''planned_start'', ''planned_end'', ''order'', ''assignee''}")
  case False
  show ?thesis using assms unfolding patch_planning_other [OF False] by simp
next
  case True
  then show ?thesis
    using assms by (elim insertE emptyE; hypsubst; elim patch_planning_field)
qed

text \<open>Tags come out trimmed, without blanks and without repetition, in order of first occurrence.\<close>

definition tag_ok :: "string \<Rightarrow> bool" where
  "tag_ok t \<longleftrightarrow> t \<noteq> '''' \<and> trim_space t = t \<and> \<not> contains_any t blank_chars"

lemma tags_from_props:
  "tags_from seen ts = Some r \<Longrightarrow> list_all tag_ok r \<and> distinct r \<and> set r \<inter> set seen = {} \<and>
     set r \<union> set seen = {t \<in> trim_space ` set ts. t \<noteq> ''''} \<union> set seen"
proof (induction seen ts arbitrary: r rule: tags_from.induct)
  case (2 seen t0 ts)
  let ?t = "trim_space t0"
  consider (skip) "?t = '''' \<or> ?t \<in> set seen" "tags_from seen ts = Some r"
    | (new) r' where "?t \<noteq> ''''" "?t \<notin> set seen" "\<not> contains_any ?t blank_chars" "r = ?t # r'"
      "tags_from (?t # seen) ts = Some r'"
    using 2(4) by (auto simp: Let_def split: if_splits)
  then show ?case
  proof cases
    case skip
    then have "list_all tag_ok r \<and> distinct r \<and> set r \<inter> set seen = {} \<and>
        set r \<union> set seen = {t \<in> trim_space ` set ts. t \<noteq> ''''} \<union> set seen"
      using 2(1,2,4) by (cases "?t = ''''") (auto simp: Let_def split: if_splits)
    then show ?thesis using skip(1) by auto
  next
    case new
    then have "list_all tag_ok r' \<and> distinct r' \<and> set r' \<inter> set (?t # seen) = {} \<and>
        set r' \<union> set (?t # seen) = {t \<in> trim_space ` set ts. t \<noteq> ''''} \<union> set (?t # seen)"
      using 2(3) by (auto simp: Let_def)
    moreover have "tag_ok ?t" using new by (simp add: tag_ok_def)
    ultimately show ?thesis using new by auto
  qed
qed simp

text \<open>Normalised tags are exactly the non-empty trimmed inputs, each once, none containing a blank;
  normalising them again changes nothing.\<close>

theorem normalize_tags_set:
  assumes "normalize_tags ts = Inr r"
  shows "set r = {t \<in> trim_space ` set ts. t \<noteq> ''''} \<and> distinct r \<and> list_all tag_ok r \<and> normalize_tags r = Inr r"
proof -
  have again: "list_all tag_ok r \<Longrightarrow> distinct r \<Longrightarrow> set r \<inter> set seen = {} \<Longrightarrow> tags_from seen r = Some r" for seen r
    by (induction r arbitrary: seen) (auto simp: tag_ok_def)
  show ?thesis
    using assms tags_from_props [of "[]" ts r] again [of r "[]"]
    by (auto simp: normalize_tags_def split: option.splits)
qed

end
