(* ===== verification/Service_Links.thy ===== *)
theory Service_Links
  imports Service_Planning
begin

text \<open>
  The links of a document (\<open>service/links.go\<close>): to plans with the sections a story implements,
  to stories, to specs, to the web and to the repository. The checks read the palace; each
  operation is an interpretation of \<open>document_operation\<close>.
\<close>

section \<open>Checks\<close>

fun check_plan_sections :: "document \<Rightarrow> string list \<Rightarrow> svc_error option" where
  "check_plan_sections plan [] = None"
| "check_plan_sections plan (sec # secs) =
     (if \<not> section_number_re sec then Some (new_err BadRequest)
      else if om_get (fm_progress (doc_fm plan)) sec = None then Some (new_err UnknownSection)
      else check_plan_sections plan secs)"

text \<open>The plan a link leads to; a missing one is reported as such.\<close>

definition linked_plan :: "string \<Rightarrow> palace \<Rightarrow> svc_error + document" where
  "linked_plan i p =
     (case resolve (pl_plans p) i p of
        Inl e \<Rightarrow> if se_kind e = NotFound then Inl (new_err NotFound) else Inl e
      | Inr d \<Rightarrow> Inr d)"

definition check_plan_link :: "service \<Rightarrow> string \<Rightarrow> link \<Rightarrow> palace \<Rightarrow> svc_error option" where
  "check_plan_link s self l p =
     (if \<not> id_re (link_id l) then Some (new_err BadRequest)
      else if k_name (sv_kind s) = ''plan'' \<and> link_id l = self then Some (new_err BadRequest)
      else if link_relation l \<notin> set (k_plan_relations (sv_kind s)) then Some (new_err BadRequest)
      else if link_sections l \<noteq> [] \<and> \<not> k_plan_link_sections (sv_kind s) then Some (new_err BadRequest)
      else
        (case linked_plan (link_id l) p of
           Inl e \<Rightarrow> Some e
         | Inr plan \<Rightarrow> check_plan_sections plan (link_sections l)))"

definition check_story_link :: "service \<Rightarrow> string \<Rightarrow> link \<Rightarrow> palace \<Rightarrow> svc_error option" where
  "check_story_link s self l p =
     (if \<not> id_re (link_id l) then Some (new_err BadRequest)
      else if k_name (sv_kind s) = ''story'' \<and> link_id l = self then Some (new_err BadRequest)
      else if link_relation l \<notin> set (k_story_relations (sv_kind s)) then Some (new_err BadRequest)
      else if link_sections l \<noteq> [] then Some (new_err BadRequest)
      else if k_name (sv_kind s) = ''story'' \<and> k_link_targets_must_exist (sv_kind s) then
        (case doc_exists s (link_id l) p of
           Inl e \<Rightarrow> Some e
         | Inr ok \<Rightarrow> if ok then None else Some (new_err NotFound))
      else None)"

fun clean_parts :: "string list \<Rightarrow> string list \<Rightarrow> string list" where
  "clean_parts out [] = out"
| "clean_parts out (q # qs) =
     (let t = trim_space q
      in if t \<noteq> '''' \<and> t \<notin> set out then clean_parts (out @ [t]) qs else clean_parts out qs)"

definition clean_sections :: "string list \<Rightarrow> string list" where
  "clean_sections ins = clean_parts [] (concat (map (split_on CHR '','') ins))"

section \<open>Links to plans\<close>

definition with_plan_links :: "link list \<Rightarrow> document \<Rightarrow> document" where
  "with_plan_links ls = set_fm (set_plan_links ls)"

definition with_story_links :: "link list \<Rightarrow> document \<Rightarrow> document" where
  "with_story_links ls = set_fm (set_story_links ls)"

text \<open>The first link to the same target with the same relation decides.\<close>

fun merge_sections :: "link \<Rightarrow> link list \<Rightarrow> link list option option" where
  "merge_sections l [] = None"
| "merge_sections l (x # xs) =
     (if link_same x l then
        (if link_sections l = [] \<or> link_sections x = link_sections l then Some None
         else Some (Some (x\<lparr>link_sections := link_sections l\<rparr> # xs)))
      else map_option (map_option (Cons x)) (merge_sections l xs))"

definition add_plan_link ::
  "service \<Rightarrow> string \<Rightarrow> string \<Rightarrow> string \<Rightarrow> string list \<Rightarrow> palace \<Rightarrow> document outcome \<times> palace" where
  "add_plan_link s identifier target relation sections =
     edit_with s identifier ''addPlanLink'' (pure_edit (\<lambda>d p.
       (let l = \<lparr>link_id = normalize_id target, link_relation = relation,
                 link_sections = clean_sections sections\<rparr>;
            links = plan_links (doc_fm d)
        in case check_plan_link s (doc_id d) l p of
             Some e \<Rightarrow> Inl e
           | None \<Rightarrow>
               (case merge_sections l links of
                  Some None \<Rightarrow> Inr None
                | Some (Some links') \<Rightarrow> Inr (Some (with_plan_links links' d))
                | None \<Rightarrow> Inr (Some (with_plan_links (links @ [l]) d))))))"

definition set_plan_sections ::
  "service \<Rightarrow> string \<Rightarrow> string \<Rightarrow> string list \<Rightarrow> palace \<Rightarrow> document outcome \<times> palace" where
  "set_plan_sections s identifier target0 sections0 p =
     (if \<not> k_plan_link_sections (sv_kind s) then (Fail (new_err BadRequest), p)
      else edit_with s identifier ''setPlanSections'' (pure_edit (\<lambda>d p.
        (let target = normalize_id target0; sections = clean_sections sections0;
             links = plan_links (doc_fm d);
             links' = map (\<lambda>l. if link_id l = target then l\<lparr>link_sections := sections\<rparr> else l) links
         in if \<not> list_ex (\<lambda>l. link_id l = target) links then Inl (new_err NotFound)
            else
              (case (if sections = [] then None
                     else case linked_plan target p of
                            Inl e \<Rightarrow> Some e
                          | Inr plan \<Rightarrow> check_plan_sections plan sections) of
                 Some e \<Rightarrow> Inl e
               | None \<Rightarrow> Inr (Some (with_plan_links links' d)))))) p)"

definition link_hit :: "string \<Rightarrow> string \<Rightarrow> link \<Rightarrow> bool" where
  "link_hit target relation l \<longleftrightarrow> link_id l = target \<and> (relation = '''' \<or> link_relation l = relation)"

text \<open>The links kept and how many were removed.\<close>

definition filter_links :: "link list \<Rightarrow> string \<Rightarrow> string \<Rightarrow> link list \<times> nat" where
  "filter_links links target relation =
     (filter (\<lambda>l. \<not> link_hit target relation l) links, length (filter (link_hit target relation) links))"

definition remove_plan_link :: "service \<Rightarrow> string \<Rightarrow> string \<Rightarrow> string \<Rightarrow> palace \<Rightarrow> document outcome \<times> palace" where
  "remove_plan_link s identifier target relation =
     edit_with s identifier ''removePlanLink'' (pure_edit (\<lambda>d p.
       (case filter_links (plan_links (doc_fm d)) (normalize_id target) relation of
          (kept, removed) \<Rightarrow>
            if removed = 0 then Inl (new_err NotFound) else Inr (Some (with_plan_links kept d)))))"

section \<open>Links to stories\<close>

definition add_story_link :: "service \<Rightarrow> string \<Rightarrow> string \<Rightarrow> string \<Rightarrow> palace \<Rightarrow> document outcome \<times> palace" where
  "add_story_link s identifier target relation =
     edit_with s identifier ''addStoryLink'' (pure_edit (\<lambda>d p.
       (let l = \<lparr>link_id = normalize_id target, link_relation = relation, link_sections = []\<rparr>;
            links = story_links (doc_fm d)
        in case check_story_link s (doc_id d) l p of
             Some e \<Rightarrow> Inl e
           | None \<Rightarrow>
               if list_ex (\<lambda>x. link_same x l) links then Inr None
               else Inr (Some (with_story_links (links @ [l]) d)))))"

definition remove_story_link :: "service \<Rightarrow> string \<Rightarrow> string \<Rightarrow> string \<Rightarrow> palace \<Rightarrow> document outcome \<times> palace" where
  "remove_story_link s identifier target relation =
     edit_with s identifier ''removeStoryLink'' (pure_edit (\<lambda>d p.
       (case filter_links (story_links (doc_fm d)) (normalize_id target) relation of
          (kept, removed) \<Rightarrow>
            if removed = 0 then Inl (new_err NotFound) else Inr (Some (with_story_links kept d)))))"

section \<open>Specs, web links and the repository\<close>

definition ensure_links :: "front_matter \<Rightarrow> links" where
  "ensure_links f = (case fm_links f of None \<Rightarrow> empty_links | Some l \<Rightarrow> l)"

definition with_links :: "links \<Rightarrow> document \<Rightarrow> document" where
  "with_links l = set_fm (fm_links_update (\<lambda>_. Some l))"

text \<open>\<open>tidyLinks\<close>: an empty links object is dropped.\<close>

definition with_tidy_links :: "links \<Rightarrow> document \<Rightarrow> document" where
  "with_tidy_links l = set_fm (fm_links_update (\<lambda>_. if links_is_empty l then None else Some l))"

definition add_spec :: "service \<Rightarrow> string \<Rightarrow> string \<Rightarrow> palace \<Rightarrow> document outcome \<times> palace" where
  "add_spec s identifier spec0 =
     edit_with s identifier ''addSpec'' (pure_edit (\<lambda>d p.
       (let spec = trim_space spec0; l = ensure_links (doc_fm d)
        in if spec = '''' then Inl (new_err BadRequest)
           else if spec \<in> set (ln_specs l) then Inr None
           else Inr (Some (with_links (l\<lparr>ln_specs := ln_specs l @ [spec]\<rparr>) d)))))"

definition remove_spec :: "service \<Rightarrow> string \<Rightarrow> string \<Rightarrow> palace \<Rightarrow> document outcome \<times> palace" where
  "remove_spec s identifier spec =
     edit_with s identifier ''removeSpec'' (pure_edit (\<lambda>d p.
       (case fm_links (doc_fm d) of
          None \<Rightarrow> Inl (new_err NotFound)
        | Some l \<Rightarrow>
            if spec \<notin> set (ln_specs l) then Inl (new_err NotFound)
            else Inr (Some (with_tidy_links (l\<lparr>ln_specs := filter (\<lambda>x. x \<noteq> spec) (ln_specs l)\<rparr>) d)))))"

definition set_web_link :: "service \<Rightarrow> string \<Rightarrow> string \<Rightarrow> string \<Rightarrow> palace \<Rightarrow> document outcome \<times> palace" where
  "set_web_link s identifier label url =
     edit_with s identifier ''setWebLink'' (pure_edit (\<lambda>d p.
       (let l = ensure_links (doc_fm d)
        in if trim_space label = '''' \<or> trim_space url = '''' then Inl (new_err BadRequest)
           else Inr (Some (with_links
                  (l\<lparr>ln_web := om_put (trim_space label) (trim_space url) (ln_web l)\<rparr>) d)))))"

definition remove_web_link :: "service \<Rightarrow> string \<Rightarrow> string \<Rightarrow> palace \<Rightarrow> document outcome \<times> palace" where
  "remove_web_link s identifier label =
     edit_with s identifier ''removeWebLink'' (pure_edit (\<lambda>d p.
       (case fm_links (doc_fm d) of
          None \<Rightarrow> Inl (new_err NotFound)
        | Some l \<Rightarrow>
            (case om_get (ln_web l) label of
               None \<Rightarrow> Inl (new_err NotFound)
             | Some url \<Rightarrow>
                 if url = '''' then Inl (new_err NotFound)
                 else Inr (Some (with_tidy_links (l\<lparr>ln_web := om_del label (ln_web l)\<rparr>) d))))))"

definition ensure_repo :: "links \<Rightarrow> repo" where
  "ensure_repo l = (case ln_repo l of None \<Rightarrow> empty_repo | Some r \<Rightarrow> r)"

definition set_repo ::
  "service \<Rightarrow> string \<Rightarrow> string \<Rightarrow> string \<Rightarrow> string \<Rightarrow> palace \<Rightarrow> document outcome \<times> palace" where
  "set_repo s identifier remote0 local0 pull0 =
     edit_with s identifier ''setRepo'' (pure_edit (\<lambda>d p.
       (let remote = trim_space remote0; loc = trim_space local0; pull = trim_space pull0;
            l = ensure_links (doc_fm d); r = ensure_repo l
        in if remote = '''' \<and> loc = '''' \<and> pull = '''' then Inl (new_err BadRequest)
           else if pull \<noteq> '''' \<and> \<not> k_repo_files (sv_kind s) then Inl (new_err BadRequest)
           else
             (let r1 = (if remote \<noteq> '''' then r\<lparr>repo_remote := remote\<rparr> else r);
                  r2 = (if loc \<noteq> '''' then r1\<lparr>repo_local := loc\<rparr> else r1);
                  r3 = (if pull \<noteq> '''' then r2\<lparr>repo_pull_request := pull\<rparr> else r2)
              in Inr (Some (with_links (l\<lparr>ln_repo := Some r3\<rparr>) d))))))"

definition clear_repo :: "service \<Rightarrow> string \<Rightarrow> palace \<Rightarrow> document outcome \<times> palace" where
  "clear_repo s identifier =
     edit_with s identifier ''clearRepo'' (pure_edit (\<lambda>d p.
       (case fm_links (doc_fm d) of
          None \<Rightarrow> Inr None
        | Some l \<Rightarrow>
            if ln_repo l = None then Inr None
            else Inr (Some (with_tidy_links (l\<lparr>ln_repo := None\<rparr>) d)))))"

definition add_file :: "service \<Rightarrow> string \<Rightarrow> string \<Rightarrow> palace \<Rightarrow> document outcome \<times> palace" where
  "add_file s identifier path0 p =
     (if \<not> k_repo_files (sv_kind s) then (Fail (new_err BadRequest), p)
      else edit_with s identifier ''addFile'' (pure_edit (\<lambda>d p.
        (let path = trim_space path0; l = ensure_links (doc_fm d); r = ensure_repo l
         in if path = '''' then Inl (new_err BadRequest)
            else if path \<in> set (repo_files r) then Inr None
            else Inr (Some (with_links
                   (l\<lparr>ln_repo := Some (r\<lparr>repo_files := repo_files r @ [path]\<rparr>)\<rparr>) d))))) p)"

definition remove_file :: "service \<Rightarrow> string \<Rightarrow> string \<Rightarrow> palace \<Rightarrow> document outcome \<times> palace" where
  "remove_file s identifier path p =
     (if \<not> k_repo_files (sv_kind s) then (Fail (new_err BadRequest), p)
      else edit_with s identifier ''removeFile'' (pure_edit (\<lambda>d p.
        (case fm_links (doc_fm d) of
           None \<Rightarrow> Inl (new_err NotFound)
         | Some l \<Rightarrow>
             (case ln_repo l of
                None \<Rightarrow> Inl (new_err NotFound)
              | Some r \<Rightarrow>
                  if path \<notin> set (repo_files r) then Inl (new_err NotFound)
                  else
                    (let r' = r\<lparr>repo_files := filter (\<lambda>x. x \<noteq> path) (repo_files r)\<rparr>
                     in Inr (Some (with_tidy_links
                          (l\<lparr>ln_repo := if repo_is_empty r' then None else Some r'\<rparr>) d))))))) p)"

section \<open>Facts\<close>

lemma with_links_identity [simp]:
  "same_identity d (with_plan_links ls d)" "same_identity d (with_story_links ls d)"
  "same_identity d (with_links l d)" "same_identity d (with_tidy_links l d)"
  by (simp_all add: same_identity_set_fm with_plan_links_def with_story_links_def with_links_def
      with_tidy_links_def set_plan_links_def set_story_links_def Let_def split: option.splits)

lemmas link_op_splits = if_splits option.splits sum.splits prod.splits

interpretation add_plan_link: document_operation s "add_plan_link s i t r ss" for s i t r ss
  unfolding add_plan_link_def Let_def
  by (intro edit_operation safe_pure_edit) (auto split: link_op_splits)

interpretation set_plan_sections: document_operation s "set_plan_sections s i t ss" for s i t ss
  unfolding set_plan_sections_def [abs_def] Let_def
  by (intro guarded_operation safe_pure_edit) (auto split: link_op_splits)

interpretation remove_plan_link: document_operation s "remove_plan_link s i t r" for s i t r
  unfolding remove_plan_link_def
  by (intro edit_operation safe_pure_edit) (auto split: link_op_splits)

interpretation add_story_link: document_operation s "add_story_link s i t r" for s i t r
  unfolding add_story_link_def Let_def
  by (intro edit_operation safe_pure_edit) (auto split: link_op_splits)

interpretation remove_story_link: document_operation s "remove_story_link s i t r" for s i t r
  unfolding remove_story_link_def
  by (intro edit_operation safe_pure_edit) (auto split: link_op_splits)

interpretation add_spec: document_operation s "add_spec s i x" for s i x
  unfolding add_spec_def Let_def by (intro edit_operation safe_pure_edit) (auto split: link_op_splits)

interpretation remove_spec: document_operation s "remove_spec s i x" for s i x
  unfolding remove_spec_def by (intro edit_operation safe_pure_edit) (auto split: link_op_splits)

interpretation set_web_link: document_operation s "set_web_link s i x u" for s i x u
  unfolding set_web_link_def Let_def by (intro edit_operation safe_pure_edit) (auto split: link_op_splits)

interpretation remove_web_link: document_operation s "remove_web_link s i x" for s i x
  unfolding remove_web_link_def by (intro edit_operation safe_pure_edit) (auto split: link_op_splits)

interpretation set_repo: document_operation s "set_repo s i r l u" for s i r l u
  unfolding set_repo_def Let_def by (intro edit_operation safe_pure_edit) (auto split: if_splits)

interpretation clear_repo: document_operation s "clear_repo s i" for s i
  unfolding clear_repo_def by (intro edit_operation safe_pure_edit) (auto split: link_op_splits)

interpretation add_file: document_operation s "add_file s i x" for s i x
  unfolding add_file_def [abs_def] Let_def
  by (intro guarded_operation safe_pure_edit) (auto split: link_op_splits)

interpretation remove_file: document_operation s "remove_file s i x" for s i x
  unfolding remove_file_def [abs_def] Let_def
  by (intro guarded_operation safe_pure_edit) (auto split: link_op_splits)


lemma id_re_trim: "id_re i \<Longrightarrow> trim_space i = i"
  using id_re_set [of i]
  by (intro trim_space_id_digits)
    (auto simp: is_lower_alnum_def ascii_space_def is_digit_def less_eq_char_def less_char_def)

text \<open>A lookup by id and a resolution by id agree in a well-formed palace.\<close>

lemma resolve_by_id:
  assumes "palace_wf p" "is_service p s" "id_re i" "resolve s i p = Inr d"
  shows "lookup p (k_name (sv_kind s)) i = Inr d \<and> doc_id d = i"
proof -
  have "i \<noteq> []" using id_re_length [OF assms(3)] by auto
  then obtain d0 where d0: "lookup p (k_name (sv_kind s)) i = Inr d0"
    using assms(3,4) by (auto simp: resolve_def id_re_trim split: sum.splits if_splits)
  then have "resolve s i p = Inr (d0\<lparr>doc_kind := k_name (sv_kind s), doc_fm := fm_normalize_dates (doc_fm d0)\<rparr>)"
    by (rule resolve_id [OF assms(3)])
  then have "doc_id d = doc_id d0" using assms(4) by (simp add: doc_id_def fm_normalize_dates_def)
  then show ?thesis
    using canonical_resolve [OF assms(1,2,4)] palace_wf_lookup [OF assms(1) d0] by simp
qed

lemma check_plan_sections_None:
  "check_plan_sections plan secs = None \<longleftrightarrow>
     (\<forall>sec \<in> set secs. section_number_re sec \<and> om_get (fm_progress (doc_fm plan)) sec \<noteq> None)"
  by (induction secs) auto

lemma linked_plan_Inr: "linked_plan i p = Inr d \<longleftrightarrow> resolve (pl_plans p) i p = Inr d"
  by (auto simp: linked_plan_def split: sum.splits)

lemma check_plan_link_None:
  "check_plan_link s self l p = None \<longleftrightarrow>
     id_re (link_id l) \<and> \<not> (k_name (sv_kind s) = ''plan'' \<and> link_id l = self) \<and>
     link_relation l \<in> set (k_plan_relations (sv_kind s)) \<and>
     (link_sections l \<noteq> [] \<longrightarrow> k_plan_link_sections (sv_kind s)) \<and>
     (\<exists>plan. resolve (pl_plans p) (link_id l) p = Inr plan \<and>
        (\<forall>sec \<in> set (link_sections l). section_number_re sec \<and> om_get (fm_progress (doc_fm plan)) sec \<noteq> None))"
proof (cases "linked_plan (link_id l) p")
  case (Inl e)
  then have "\<nexists>plan. resolve (pl_plans p) (link_id l) p = Inr plan"
    using linked_plan_Inr [of "link_id l" p] by auto
  then show ?thesis using Inl by (simp add: check_plan_link_def)
next
  case (Inr plan)
  then have "resolve (pl_plans p) (link_id l) p = Inr plan" by (simp add: linked_plan_Inr)
  then show ?thesis using Inr by (auto simp: check_plan_link_def check_plan_sections_None)
qed

lemma merge_sections_cases:
  "case merge_sections l xs of
     None \<Rightarrow> \<forall>x \<in> set xs. \<not> link_same x l
   | Some None \<Rightarrow> \<exists>x \<in> set xs. link_same x l \<and> (link_sections l = [] \<or> link_sections x = link_sections l)
   | Some (Some ys) \<Rightarrow> \<exists>x \<in> set ys. link_same x l \<and> link_sections x = link_sections l"
  by (induction xs) (auto simp: link_same_def split: option.splits)

lemma plan_links_set [simp]: "plan_links (set_plan_links ls f) = ls"
  by (auto simp: plan_links_def set_plan_links_def Let_def empty_links_def split: option.splits)

lemma story_links_set [simp]: "story_links (set_story_links ls f) = ls"
  by (auto simp: story_links_def set_story_links_def Let_def empty_links_def split: option.splits)

lemma links_canonical:
  "plan_links (fm_canonical f) = map link_normalize (plan_links f)"
  "story_links (fm_canonical f) = map link_normalize (story_links f)"
  by (simp_all add: plan_links_def story_links_def fm_canonical_def fm_normalize_ids_def fm_normalize_dates_def
      fm_normalize_timestamps_def links_normalize_ids_def split: option.splits)

lemma plan_links_save_form: "plan_links (doc_fm (save_form s d u)) = map link_normalize (plan_links (doc_fm d))"
proof -
  have "plan_links ((doc_fm d)\<lparr>fm_updated := u\<rparr>) = plan_links (doc_fm d)" by (simp add: plan_links_def)
  then show ?thesis by (simp add: save_form_def check_fst stamped_def links_canonical)
qed

lemma story_links_save_form: "story_links (doc_fm (save_form s d u)) = map link_normalize (story_links (doc_fm d))"
proof -
  have "story_links ((doc_fm d)\<lparr>fm_updated := u\<rparr>) = story_links (doc_fm d)" by (simp add: story_links_def)
  then show ?thesis by (simp add: save_form_def check_fst stamped_def links_canonical)
qed

lemma link_normalize_same: "id_re (link_id l) \<Longrightarrow> link_same x l \<Longrightarrow> link_normalize x = x"
  by (simp add: link_normalize_def link_same_def)

lemma pure_edit_Done:
  assumes "edit_with s i op (pure_edit f) p = (Done d, p')"
  obtains (same) "resolve s i p = Inr d" "f d p = Inr None" "p' = p"
    | (saved) d0 d1 u where "resolve s i p = Inr d0" "f d0 p = Inr (Some d1)" "d = save_form s d1 u" "valid_doc s d"
proof (cases "resolve s i p")
  case (Inl e)
  then show ?thesis using assms by (simp add: edit_with_def)
next
  case (Inr d0)
  show ?thesis
    using assms Inr
  proof (cases rule: edit_with_Done)
    case same
    then show ?thesis using Inr by (intro that(1)) (simp_all add: pure_edit_def)
  next
    case (saved d1 q)
    then show ?thesis
      using save_Done [OF saved(2)] that(2) [OF Inr] by (metis Pair_inject pure_edit_def)
  qed
qed

text \<open>A link to a plan that \<open>addPlanLink\<close> leaves in a document leads somewhere: it carries the
  requested relation, one the kind of the document allows; the plan exists, is not the
  document itself, and has every requested section in its progress map.\<close>

theorem add_plan_link_sound:
  assumes "palace_wf p" "is_service p s" "add_plan_link s i target relation sections p = (Done d, p')"
  shows "\<exists>l \<in> set (plan_links (doc_fm d)).
    link_id l = normalize_id target \<and> link_relation l = relation \<and>
    relation \<in> set (k_plan_relations (sv_kind s)) \<and>
    (clean_sections sections \<noteq> [] \<longrightarrow> link_sections l = clean_sections sections) \<and>
    (k_name (sv_kind s) = ''plan'' \<longrightarrow> link_id l \<noteq> doc_id d) \<and>
    (\<exists>plan. lookup p ''plan'' (link_id l) = Inr plan \<and>
       set (clean_sections sections) \<subseteq> set (om_keys (fm_progress (doc_fm plan))))"
proof -
  define l where "l = \<lparr>link_id = normalize_id target, link_relation = relation,
    link_sections = clean_sections sections\<rparr>"
  define f where "f = (\<lambda>d p. case check_plan_link s (doc_id d) l p of
      Some e \<Rightarrow> Inl e
    | None \<Rightarrow> (case merge_sections l (plan_links (doc_fm d)) of
          Some None \<Rightarrow> Inr None
        | Some (Some ls) \<Rightarrow> Inr (Some (with_plan_links ls d))
        | None \<Rightarrow> Inr (Some (with_plan_links (plan_links (doc_fm d) @ [l]) d))))"
  have op: "edit_with s i ''addPlanLink'' (pure_edit f) p = (Done d, p')"
    using assms(3) unfolding add_plan_link_def Let_def f_def l_def .
  have goal: ?thesis
    if c: "check_plan_link s (doc_id d) l p = None" and x: "x \<in> set (plan_links (doc_fm d))" "link_same x l"
      "link_sections l = [] \<or> link_sections x = link_sections l" for x
  proof -
    obtain plan where plan: "resolve (pl_plans p) (link_id l) p = Inr plan"
        "\<forall>sec \<in> set (link_sections l). om_get (fm_progress (doc_fm plan)) sec \<noteq> None"
      using c by (auto simp: check_plan_link_None)
    have "lookup p ''plan'' (link_id l) = Inr plan"
      using resolve_by_id [OF assms(1) _ _ plan(1)] c assms(1)
      by (simp add: check_plan_link_None is_service_def palace_wf_def)
    then show ?thesis
      using c x plan by (intro bexI [OF _ x(1)]) (auto simp: check_plan_link_None link_same_def l_def om_get_None om_keys_def)
  qed
  show ?thesis
    using op
  proof (cases rule: pure_edit_Done)
    case same
    then have "check_plan_link s (doc_id d) l p = None" "merge_sections l (plan_links (doc_fm d)) = Some None"
      by (auto simp: f_def split: option.splits)
    then show ?thesis using merge_sections_cases [where l = l and xs = "plan_links (doc_fm d)"] goal by auto
  next
    case (saved d0 d1 u)
    have id: "doc_id d = doc_id d0"
      using saved(2,3) by (auto simp: f_def with_plan_links_def set_fm_def doc_id_def set_plan_links_def Let_def
          split: option.splits)
    have c: "check_plan_link s (doc_id d) l p = None"
      using saved(2) id by (auto simp: f_def split: option.splits)
    obtain x where x: "x \<in> set (plan_links (doc_fm d1))" "link_same x l" "link_sections x = link_sections l"
      using saved(2) merge_sections_cases [where l = l and xs = "plan_links (doc_fm d0)"]
      by (auto simp: f_def with_plan_links_def set_fm_def link_same_def split: option.splits)
    then have "x \<in> set (plan_links (doc_fm d))"
      using c saved(3) link_normalize_same [where l = l and x = x]
      by (force simp: plan_links_save_form check_plan_link_None)
    then show ?thesis using goal [OF c _ x(2)] x(3) by blast
  qed
qed

end
