(* ===== verification/Service_Fields.thy ===== *)
theory Service_Fields
  imports Service_Links
begin

text \<open>
  The field operations of \<open>service/fields.go\<close>: title, purpose, type, priority, effort, and
  \<open>patchFrontMatter\<close>, which applies several changes in one write. A patch value is decoded
  JSON; where the source encodes it and decodes it into a typed field, the decoding is
  written out here (\<open>null\<close> leaves a zero value, object keys match their field in any case).
\<close>

section \<open>Setters\<close>

definition set_title :: "service \<Rightarrow> string \<Rightarrow> string \<Rightarrow> bool \<Rightarrow> palace \<Rightarrow> document outcome \<times> palace" where
  "set_title s identifier title0 rename_file =
     edit_with s identifier ''setTitle'' (pure_edit (\<lambda>d p.
       (let title = trim_space title0; d' = set_fm (fm_title_update (\<lambda>_. title)) d
        in if title = '''' then Inl (new_err BadRequest)
           else Inr (Some (d'\<lparr>doc_path := path_for d' (if rename_file then slugify title else '''')\<rparr>)))))"

definition set_purpose :: "service \<Rightarrow> string \<Rightarrow> string \<Rightarrow> palace \<Rightarrow> document outcome \<times> palace" where
  "set_purpose s identifier purpose p =
     (if \<not> k_has_purpose (sv_kind s) then (Fail (new_err BadRequest), p)
      else edit_with s identifier ''setPurpose'' (pure_edit (\<lambda>d p.
        if trim_space purpose = '''' then Inl (new_err BadRequest)
        else Inr (Some (set_fm (fm_purpose_update (\<lambda>_. trim_space purpose)) d)))) p)"

definition set_type :: "service \<Rightarrow> string \<Rightarrow> string \<Rightarrow> palace \<Rightarrow> document outcome \<times> palace" where
  "set_type s identifier t0 =
     edit_with s identifier ''setType'' (then_path (pure_edit (\<lambda>d p.
       (case normalize_type (sv_cfg s) t0 of
          None \<Rightarrow> Inl (new_err BadRequest)
        | Some t \<Rightarrow> Inr (Some (set_fm (fm_type_update (\<lambda>_. t)) d))))))"

definition set_priority :: "service \<Rightarrow> string \<Rightarrow> go_val \<Rightarrow> palace \<Rightarrow> document outcome \<times> palace" where
  "set_priority s identifier v =
     edit_with s identifier ''setPriority'' (pure_edit (\<lambda>d p.
       (case normalize_priority (sv_cfg s) v of
          None \<Rightarrow> Inl (new_err BadRequest)
        | Some x \<Rightarrow> Inr (Some (set_fm (fm_priority_update (\<lambda>_. x)) d)))))"

definition set_effort :: "service \<Rightarrow> string \<Rightarrow> go_val \<Rightarrow> palace \<Rightarrow> document outcome \<times> palace" where
  "set_effort s identifier v =
     edit_with s identifier ''setEffort'' (pure_edit (\<lambda>d p.
       (case normalize_effort (sv_cfg s) v of
          None \<Rightarrow> Inl (new_err BadRequest)
        | Some x \<Rightarrow> Inr (Some (set_fm (fm_effort_update (\<lambda>_. x)) d)))))"

definition clear_effort :: "service \<Rightarrow> string \<Rightarrow> palace \<Rightarrow> document outcome \<times> palace" where
  "clear_effort s identifier =
     edit_with s identifier ''clearEffort'' (pure_edit (\<lambda>d p.
       Inr (Some (set_fm (fm_effort_update (\<lambda>_. '''')) d))))"

section \<open>Decoding patch values\<close>

text \<open>Assigns every key that matches the field, in key order; a \<open>null\<close> leaves a string as it is.\<close>

fun object_string :: "string \<Rightarrow> (string \<times> go_val) list \<Rightarrow> string \<Rightarrow> string option" where
  "object_string name [] acc = Some acc"
| "object_string name ((k, v) # m) acc =
     (if equal_fold k name then
        (case v of VString t \<Rightarrow> object_string name m t
         | VNull \<Rightarrow> object_string name m acc
         | _ \<Rightarrow> None)
      else object_string name m acc)"

fun object_strings :: "string \<Rightarrow> (string \<times> go_val) list \<Rightarrow> string list \<Rightarrow> string list option" where
  "object_strings name [] acc = Some acc"
| "object_strings name ((k, v) # m) acc =
     (if equal_fold k name then
        (case decode_strings v of None \<Rightarrow> None | Some l \<Rightarrow> object_strings name m l)
      else object_strings name m acc)"

definition decode_link :: "go_val \<Rightarrow> link option" where
  "decode_link v =
     (case v of
        VList [i, r] \<Rightarrow>
          (case (decode_string i, decode_string r) of
             (Some a, Some b) \<Rightarrow> link_set a b []
           | _ \<Rightarrow> None)
      | VList [i, r, ss] \<Rightarrow>
          (case (decode_string i, decode_string r, decode_strings ss) of
             (Some a, Some b, Some c) \<Rightarrow> link_set a b c
           | _ \<Rightarrow> None)
      | VMap m \<Rightarrow>
          (case (object_string ''id'' m '''', object_string ''relation'' m '''', object_strings ''sections'' m []) of
             (Some a, Some b, Some c) \<Rightarrow> link_set a b c
           | _ \<Rightarrow> None)
      | _ \<Rightarrow> None)"

text \<open>The links decoded before the first bad one, and whether there was none.\<close>

fun decode_link_prefix :: "go_val list \<Rightarrow> link list \<times> bool" where
  "decode_link_prefix [] = ([], True)"
| "decode_link_prefix (v # vs) =
     (case decode_link v of
        None \<Rightarrow> ([], False)
      | Some l \<Rightarrow> (case decode_link_prefix vs of (ls, ok) \<Rightarrow> (l # ls, ok)))"

definition decode_links :: "go_val \<Rightarrow> link list \<times> bool" where
  "decode_links v = (case v of VNull \<Rightarrow> ([], True) | VList vs \<Rightarrow> decode_link_prefix vs | _ \<Rightarrow> ([], False))"

definition decode_repo :: "go_val \<Rightarrow> repo option" where
  "decode_repo v =
     (case v of
        VMap m \<Rightarrow>
          (case (object_string ''remote'' m '''', object_string ''local'' m '''',
                 object_string ''pull_request'' m '''', object_strings ''files'' m []) of
             (Some a, Some b, Some c, Some f) \<Rightarrow>
               Some \<lparr>repo_remote = a, repo_local = b, repo_pull_request = c, repo_files = f\<rparr>
           | _ \<Rightarrow> None)
      | _ \<Rightarrow> None)"

fun decode_entries :: "(go_val \<Rightarrow> 'a option) \<Rightarrow> (string \<times> go_val) list \<Rightarrow> (string, 'a) omap option" where
  "decode_entries f [] = Some []"
| "decode_entries f ((k, v) # m) =
     (case (f v, decode_entries f m) of (Some x, Some r) \<Rightarrow> Some (om_put k x r) | _ \<Rightarrow> None)"

definition decode_progress_entry :: "go_val \<Rightarrow> progress_entry option" where
  "decode_progress_entry v =
     (case v of
        VNull \<Rightarrow> Some \<lparr>pe_status = '''', pe_stories = []\<rparr>
      | VMap m \<Rightarrow>
          (case (object_string ''status'' m '''', object_strings ''stories'' m []) of
             (Some a, Some b) \<Rightarrow> Some \<lparr>pe_status = a, pe_stories = b\<rparr>
           | _ \<Rightarrow> None)
      | _ \<Rightarrow> None)"

definition decode_progress :: "go_val \<Rightarrow> progress option" where
  "decode_progress v =
     (case v of VNull \<Rightarrow> Some [] | VMap m \<Rightarrow> decode_entries decode_progress_entry m | _ \<Rightarrow> None)"

section \<open>Patches\<close>

fun first_err :: "('a \<Rightarrow> svc_error option) \<Rightarrow> 'a list \<Rightarrow> svc_error option" where
  "first_err f [] = None"
| "first_err f (x # xs) = (case f x of Some e \<Rightarrow> Some e | None \<Rightarrow> first_err f xs)"

text \<open>The checked links, or the first error: of a check, else of the decoding.\<close>

definition checked_links :: "(link \<Rightarrow> svc_error option) \<Rightarrow> go_val \<Rightarrow> svc_error + link list" where
  "checked_links chk v =
     (case decode_links v of
        (ls, ok) \<Rightarrow>
          (case first_err chk ls of
             Some e \<Rightarrow> Inl e
           | None \<Rightarrow> if ok then Inr ls else Inl (new_err BadRequest)))"

fun patch_link_kinds ::
  "service \<Rightarrow> string \<Rightarrow> (string \<times> go_val) list \<Rightarrow> links \<Rightarrow> palace \<Rightarrow> svc_error + links" where
  "patch_link_kinds s self [] l p = Inr l"
| "patch_link_kinds s self ((k, v) # m) l p =
     (let bad = Inl (new_err BadRequest);
          step =
            (if k = ''repo'' then
               (if v = VNull then Inr (l\<lparr>ln_repo := None\<rparr>)
                else case decode_repo v of None \<Rightarrow> bad | Some r \<Rightarrow> Inr (l\<lparr>ln_repo := Some r\<rparr>))
             else if k = ''specs'' then
               (case decode_strings v of None \<Rightarrow> bad | Some x \<Rightarrow> Inr (l\<lparr>ln_specs := x\<rparr>))
             else if k = ''web'' then
               (case v of VNull \<Rightarrow> Inr (l\<lparr>ln_web := []\<rparr>)
                | VMap w \<Rightarrow>
                    (case decode_entries decode_string w of None \<Rightarrow> bad | Some x \<Rightarrow> Inr (l\<lparr>ln_web := x\<rparr>))
                | _ \<Rightarrow> bad)
             else if k = ''stories'' then
               map_sum id (\<lambda>x. l\<lparr>ln_stories := x\<rparr>) (checked_links (\<lambda>x. check_story_link s self x p) v)
             else if k = ''plans'' then
               map_sum id (\<lambda>x. l\<lparr>ln_plans := x\<rparr>) (checked_links (\<lambda>x. check_plan_link s self x p) v)
             else bad)
      in case step of Inl e \<Rightarrow> Inl e | Inr l' \<Rightarrow> patch_link_kinds s self m l' p)"

definition patch_progress :: "service \<Rightarrow> go_val \<Rightarrow> document \<Rightarrow> svc_error + progress" where
  "patch_progress s v d =
     (case decode_progress v of
        None \<Rightarrow> Inl (new_err BadRequest)
      | Some pr \<Rightarrow>
          if list_ex (\<lambda>k. \<not> has_section (doc_content d) k) (om_keys pr)
          then Inl (new_err (k_unknown_progress_key (sv_kind s)))
          else Inr (om_map (\<lambda>e. case normalize_status (sv_cfg s) (pe_status e) of
                                   None \<Rightarrow> e | Some n \<Rightarrow> e\<lparr>pe_status := n\<rparr>) pr))"

definition as_string :: "go_val \<Rightarrow> string" where
  "as_string v = (case v of VString t \<Rightarrow> t | _ \<Rightarrow> '''')"

text \<open>One key of a patch; only a status change reads the clock.\<close>

definition patch_field :: "service \<Rightarrow> bool \<Rightarrow> string \<Rightarrow> go_val \<Rightarrow> document \<Rightarrow> palace \<Rightarrow> (svc_error + document) \<times> palace" where
  "patch_field s force k v d p =
     (let bad = Inl (new_err BadRequest);
          upd = (\<lambda>g. Inr (set_fm g d));
          cleared = (v = VNull \<or> v = VString '''')
      in if k = ''status'' then
           (case apply_status s (as_string v) force d p of
              (Inl e, p') \<Rightarrow> (Inl e, p')
            | (Inr None, p') \<Rightarrow> (Inr d, p')
            | (Inr (Some d'), p') \<Rightarrow> (Inr d', p'))
         else
           (if k = ''title'' then
              (if trim_space (as_string v) = '''' then bad
               else upd (fm_title_update (\<lambda>_. trim_space (as_string v))))
            else if k = ''purpose'' then
              (if \<not> k_has_purpose (sv_kind s) then bad
               else if cleared then upd (fm_purpose_update (\<lambda>_. ''''))
               else if trim_space (as_string v) = '''' then bad
               else upd (fm_purpose_update (\<lambda>_. trim_space (as_string v))))
            else if k = ''type'' then
              (case normalize_type (sv_cfg s) (as_string v) of
                 None \<Rightarrow> bad | Some t \<Rightarrow> upd (fm_type_update (\<lambda>_. t)))
            else if k = ''priority'' then
              (case normalize_priority (sv_cfg s) v of
                 None \<Rightarrow> bad | Some t \<Rightarrow> upd (fm_priority_update (\<lambda>_. t)))
            else if k = ''effort'' then
              (if cleared then upd (fm_effort_update (\<lambda>_. ''''))
               else case normalize_effort (sv_cfg s) v of
                      None \<Rightarrow> bad | Some t \<Rightarrow> upd (fm_effort_update (\<lambda>_. t)))
            else if k = ''plans'' then
              (if \<not> snd (decode_links v) then bad
               else map_sum id (\<lambda>ls. with_plan_links ls d)
                      (checked_links (\<lambda>x. check_plan_link s (doc_id d) x p) v))
            else if k = ''links'' then
              (case v of
                 VNull \<Rightarrow> upd (fm_links_update (\<lambda>_. None))
               | VMap m \<Rightarrow>
                   map_sum id (\<lambda>l. with_tidy_links l d)
                     (patch_link_kinds s (doc_id d) m (ensure_links (doc_fm d)) p)
               | _ \<Rightarrow> bad)
            else if k = ''progress'' then
              map_sum id (\<lambda>pr. set_fm (fm_progress_update (\<lambda>_. pr)) d) (patch_progress s v d)
            else
              (case patch_planning s k v (doc_fm d) of
                 Inl e \<Rightarrow> Inl e
               | Inr None \<Rightarrow> bad
               | Inr (Some f) \<Rightarrow> Inr (d\<lparr>doc_fm := f\<rparr>)), p))"

fun patch_fields :: "service \<Rightarrow> bool \<Rightarrow> (string \<times> go_val) list \<Rightarrow> document \<Rightarrow> palace \<Rightarrow> (svc_error + document) \<times> palace" where
  "patch_fields s force [] d p = (Inr d, p)"
| "patch_fields s force ((k, v) # m) d p =
     (case patch_field s force k v d p of
        (Inl e, p') \<Rightarrow> (Inl e, p')
      | (Inr d', p') \<Rightarrow> patch_fields s force m d' p')"

definition patch_edit :: "service \<Rightarrow> (string, go_val) omap \<Rightarrow> bool \<Rightarrow> edit" where
  "patch_edit s patch force d p =
     (if list_ex (\<lambda>k. om_get patch k \<noteq> None) (k_immutable (sv_kind s)) then (Inl (new_err ImmutableField), p)
      else
        (case patch_fields s force patch d p of
           (Inl e, p') \<Rightarrow> (Inl e, p')
         | (Inr d', p') \<Rightarrow>
             if planned_dates_bad (doc_fm d') then (Inl (new_err BadRequest), p')
             else (Inr (Some (d'\<lparr>doc_path := path_for d' ''''\<rparr>)), p')))"

definition patch_front_matter ::
  "service \<Rightarrow> string \<Rightarrow> (string, go_val) omap \<Rightarrow> bool \<Rightarrow> palace \<Rightarrow> document outcome \<times> palace" where
  "patch_front_matter s identifier patch force =
     edit_with s identifier ''patchFrontMatter'' (patch_edit s patch force)"

section \<open>Facts\<close>

interpretation set_title: document_operation s "set_title s i t r" for s i t r
  unfolding set_title_def Let_def
  by (intro edit_operation safe_pure_edit) (auto simp: same_identity_set_fm split: if_splits)

interpretation set_purpose: document_operation s "set_purpose s i t" for s i t
  unfolding set_purpose_def [abs_def]
  by (intro guarded_operation safe_pure_edit) (auto simp: same_identity_set_fm split: if_splits)

interpretation set_type: document_operation s "set_type s i t" for s i t
  unfolding set_type_def
  by (intro edit_operation then_path_safe safe_pure_edit) (auto simp: same_identity_set_fm split: option.splits)

interpretation set_priority: document_operation s "set_priority s i v" for s i v
  unfolding set_priority_def
  by (intro edit_operation safe_pure_edit) (auto simp: same_identity_set_fm split: option.splits)

interpretation set_effort: document_operation s "set_effort s i v" for s i v
  unfolding set_effort_def
  by (intro edit_operation safe_pure_edit) (auto simp: same_identity_set_fm split: option.splits)

interpretation clear_effort: document_operation s "clear_effort s i" for s i
  unfolding clear_effort_def
  by (intro edit_operation safe_pure_edit) (auto simp: same_identity_set_fm)


text \<open>A patch keeps the identity: no field of it writes the id or the creation time.\<close>

lemma same_identity_trans: "same_identity a b \<Longrightarrow> same_identity b c \<Longrightarrow> same_identity a c"
  by (simp add: same_identity_def)

definition patch_field_keeps :: "service \<Rightarrow> bool \<Rightarrow> string \<Rightarrow> go_val \<Rightarrow> document \<Rightarrow> palace \<Rightarrow> bool" where
  "patch_field_keeps s force k v d p \<longleftrightarrow>
     quiet p (snd (patch_field s force k v d p)) \<and>
     (\<forall>d'. fst (patch_field s force k v d p) = Inr d' \<longrightarrow> same_identity d d')"

lemma patch_field_status: "patch_field_keeps s force ''status'' v d p"
proof -
  obtain r p' where r: "apply_status s (as_string v) force d p = (r, p')" by fastforce
  note safe_editD [OF apply_status_safe r]
  then show ?thesis
    by (auto simp: patch_field_keeps_def patch_field_def Let_def r split: sum.splits option.splits)
qed

lemma patch_field_direct:
  "patch_field_keeps s force ''title'' v d p" "patch_field_keeps s force ''purpose'' v d p"
  "patch_field_keeps s force ''type'' v d p" "patch_field_keeps s force ''priority'' v d p"
  "patch_field_keeps s force ''effort'' v d p" "patch_field_keeps s force ''plans'' v d p"
  "patch_field_keeps s force ''progress'' v d p"
  by (auto simp: patch_field_keeps_def patch_field_def Let_def same_identity_set_fm map_sum_Inr
      split: if_splits option.splits)

lemma patch_field_links: "patch_field_keeps s force ''links'' v d p"
  by (cases v) (auto simp: patch_field_keeps_def patch_field_def Let_def same_identity_set_fm map_sum_Inr)

lemma patch_field_other:
  assumes "k \<notin> {''status'', ''title'', ''purpose'', ''type'', ''priority'', ''effort'', ''plans'', ''links'', ''progress''}"
  shows "patch_field s force k v d p =
    ((case patch_planning s k v (doc_fm d) of
        Inl e \<Rightarrow> Inl e | Inr None \<Rightarrow> Inl (new_err BadRequest) | Inr (Some f) \<Rightarrow> Inr (d\<lparr>doc_fm := f\<rparr>)), p)"
  using assms by (simp add: patch_field_def Let_def)

lemma patch_field_keeps: "patch_field_keeps s force k v d p"
proof (cases "k \<in> {''status'', ''title'', ''purpose'', ''type'', ''priority'', ''effort'', ''plans'', ''links'', ''progress''}")
  case True
  then show ?thesis
    by (elim insertE emptyE; hypsubst; intro patch_field_status patch_field_direct patch_field_links)
next
  case False
  show ?thesis
    unfolding patch_field_keeps_def patch_field_other [OF False]
    by (auto simp: same_identity_fm dest: patch_planning_identity split: sum.splits option.splits)
qed

lemma patch_fields_keeps:
  "patch_fields s force m d p = (r, p') \<Longrightarrow> quiet p p' \<and> (\<forall>d'. r = Inr d' \<longrightarrow> same_identity d d')"
proof (induction m arbitrary: d p)
  case (Cons kv m)
  obtain k v where kv: "kv = (k, v)" by fastforce
  obtain x q where x: "patch_field s force k v d p = (x, q)" by fastforce
  note k = patch_field_keeps [of s force k v d p, unfolded patch_field_keeps_def x fst_conv snd_conv]
  show ?case
    using Cons.prems Cons.IH k quiet_trans same_identity_trans
    by (cases x) (fastforce simp: kv x)+
qed auto

lemma patch_edit_safe: "safe_edit (patch_edit s patch force)"
proof (rule safe_editI)
  fix d p r p'
  assume r: "patch_edit s patch force d p = (r, p')"
  obtain x q where x: "patch_fields s force patch d p = (x, q)" by fastforce
  show "quiet p p' \<and> (\<forall>d'. r = Inr (Some d') \<longrightarrow> same_identity d d')"
    using r patch_fields_keeps [OF x] by (auto simp: patch_edit_def x split: if_splits sum.splits)
qed

interpretation patch_front_matter: document_operation s "patch_front_matter s i m f" for s i m f
  unfolding patch_front_matter_def by (intro edit_operation patch_edit_safe)

text \<open>A patch that names a managed field (\<open>id\<close>, \<open>created\<close>, \<open>updated\<close>, \<open>completed\<close>, and \<open>started\<close> of
  a story) is refused as \<open>ImmutableField\<close> whatever else it holds, and nothing changes.\<close>

theorem patch_immutable_refused:
  assumes "resolve s i p = Inr d" "k \<in> set (k_immutable (sv_kind s))" "om_get m k \<noteq> None"
  shows "patch_front_matter s i m force p = (Fail (new_err ImmutableField), p)"
  using assms by (auto simp: patch_front_matter_def edit_with_def patch_edit_def list_ex_iff)

text \<open>A status in a patch goes through the same gates as \<open>setStatus\<close>: the patch of a status alone
  changes the document exactly as setting that status does, errors included, save for a
  repeated status, which the patch saves and \<open>setStatus\<close> does not.\<close>

theorem patch_status_is_set_status:
  assumes "k_immutable (sv_kind s) = k_immutable plan_kind \<or> k_immutable (sv_kind s) = k_immutable story_kind"
    and "resolve s i p = Inr d" "fst (apply_status s st force d p) \<noteq> Inr None" "\<not> planned_dates_bad (doc_fm d)"
  shows "(case patch_front_matter s i [(''status'', VString st)] force p of
            (Fail e, q) \<Rightarrow> set_status s i st force p = (Fail e, q)
          | (Done d', q) \<Rightarrow> \<exists>q'. set_status s i st force p = (Done d', q')
          | (Partial d' e, q) \<Rightarrow> \<exists>q'. set_status s i st force p = (Partial d' e, q'))"
proof -
  have im: "\<not> list_ex (\<lambda>k. om_get [(''status'', VString st)] k \<noteq> None) (k_immutable (sv_kind s))"
    using assms(1) by (auto simp: plan_kind_def story_kind_def)
  obtain r q where r: "apply_status s st force d p = (r, q)" by fastforce
  show ?thesis
  proof (cases r)
    case (Inl e)
    then show ?thesis
      using assms(2) im r
      by (simp add: patch_front_matter_def set_status_def edit_with_def patch_edit_def then_path_def
          patch_field_def Let_def as_string_def)
  next
    case (Inr x)
    then obtain d' where d': "r = Inr (Some d')" using assms(3) r by (cases x) auto
    have dates: "\<not> planned_dates_bad (doc_fm d')"
      using r [unfolded d'] assms(4) by (cases rule: apply_status_cases) (auto simp: planned_dates_bad_def)
    have p: "patch_front_matter s i [(''status'', VString st)] force p =
        save s (d'\<lparr>doc_path := path_for d' ''''\<rparr>) ''patchFrontMatter'' ''updated'' q"
      using assms(2) im r d' dates
      by (simp add: patch_front_matter_def edit_with_def patch_edit_def patch_field_def Let_def as_string_def)
    have s: "set_status s i st force p = save s (d'\<lparr>doc_path := path_for d' ''''\<rparr>) ''setStatus'' ''updated'' q"
      using assms(2) r d' by (simp add: set_status_def edit_with_def then_path_def)
    show ?thesis
      unfolding p s by (auto simp: save_def Let_def split: prod.splits outcome.splits if_splits option.splits)
  qed
qed

end
