(* ===== verification/Service_Progress.thy ===== *)
theory Service_Progress
  imports Service_Fields
begin

text \<open>
  Progress on numbered headings (\<open>service/progress.go\<close>), acceptance criteria and the work log
  (\<open>service/criteria.go\<close>), with the automatic completion of a story whose last step is done.
\<close>

section \<open>Progress\<close>

definition get_progress :: "service \<Rightarrow> string \<Rightarrow> palace \<Rightarrow> svc_error + (string \<times> string \<times> string list \<times> progress)" where
  "get_progress s identifier p =
     map_sum id (\<lambda>d. (doc_id d, fm_status (doc_fm d), section_numbers (doc_content d), fm_progress (doc_fm d)))
       (resolve s identifier p)"

definition require_section :: "service \<Rightarrow> document \<Rightarrow> string \<Rightarrow> svc_error + string" where
  "require_section s d section0 =
     (let sec = trim_space section0
      in if \<not> k_progress_key_re (sv_kind s) sec then Inl (new_err BadRequest)
         else if \<not> has_section (doc_content d) sec then Inl (new_err (k_unknown_progress_key (sv_kind s)))
         else Inr sec)"

definition entry_status :: "document \<Rightarrow> string \<Rightarrow> string" where
  "entry_status d n = (case om_get (fm_progress (doc_fm d)) n of None \<Rightarrow> '''' | Some e \<Rightarrow> pe_status e)"

definition all_steps_complete :: "document \<Rightarrow> bool" where
  "all_steps_complete d \<longleftrightarrow>
     section_numbers (doc_content d) \<noteq> [] \<and>
     list_all (\<lambda>n. entry_status d n = ''complete'') (section_numbers (doc_content d))"

definition put_entry :: "string \<Rightarrow> progress_entry \<Rightarrow> document \<Rightarrow> document" where
  "put_entry sec e d = set_fm (\<lambda>f. f\<lparr>fm_progress := om_put sec e (fm_progress f)\<rparr>) d"

definition new_entry :: progress_entry where
  "new_entry = \<lparr>pe_status = '''', pe_stories = []\<rparr>"

text \<open>The entry's status is set; then a story in progress may complete itself.\<close>

definition set_progress_edit :: "service \<Rightarrow> string \<Rightarrow> string \<Rightarrow> edit" where
  "set_progress_edit s section0 status d p =
     (case require_section s d section0 of
        Inl e \<Rightarrow> (Inl e, p)
      | Inr sec \<Rightarrow>
          (case normalize_status (sv_cfg s) status of
             None \<Rightarrow> (Inl (new_err BadRequest), p)
           | Some st \<Rightarrow>
               (let e = (case om_get (fm_progress (doc_fm d)) sec of None \<Rightarrow> new_entry | Some e \<Rightarrow> e);
                    d1 = put_entry sec (e\<lparr>pe_status := st\<rparr>) d
                in if k_auto_complete (sv_kind s) \<and> st = ''complete'' \<and>
                      fm_status (doc_fm d1) = ''in_progress'' \<and> all_steps_complete d1 then
                     (case open_dependencies s d1 True p of
                        Inl err \<Rightarrow> (Inl err, p)
                      | Inr opn \<Rightarrow>
                          if criteria_gate s d1 = None \<and> opn = [] then
                            (case apply_status s ''complete'' True d1 p of
                               (Inl err, p') \<Rightarrow> (Inl err, p')
                             | (Inr None, p') \<Rightarrow> (Inr (Some (d1\<lparr>doc_path := path_for d1 ''''\<rparr>)), p')
                             | (Inr (Some d2), p') \<Rightarrow> (Inr (Some (d2\<lparr>doc_path := path_for d2 ''''\<rparr>)), p'))
                          else (Inr (Some d1), p))
                   else (Inr (Some d1), p))))"

definition set_progress :: "service \<Rightarrow> string \<Rightarrow> string \<Rightarrow> string \<Rightarrow> palace \<Rightarrow> document outcome \<times> palace" where
  "set_progress s identifier sec status =
     edit_with s identifier ''setProgress'' (set_progress_edit s sec status)"

definition add_progress_story ::
  "service \<Rightarrow> string \<Rightarrow> string \<Rightarrow> string \<Rightarrow> palace \<Rightarrow> document outcome \<times> palace" where
  "add_progress_story s identifier section0 story0 p =
     (if \<not> k_progress_stories (sv_kind s) then (Fail (new_err BadRequest), p)
      else edit_with s identifier ''addProgressStory'' (pure_edit (\<lambda>d p.
        (case require_section s d section0 of
           Inl e \<Rightarrow> Inl e
         | Inr sec \<Rightarrow>
             (let story = normalize_id story0;
                  e = (case om_get (fm_progress (doc_fm d)) sec of
                         None \<Rightarrow> new_entry\<lparr>pe_status := default_status\<rparr> | Some e \<Rightarrow> e)
              in if \<not> id_re story then Inl (new_err BadRequest)
                 else if story \<in> set (pe_stories e) then Inr None
                 else Inr (Some (put_entry sec (e\<lparr>pe_stories := pe_stories e @ [story]\<rparr>) d)))))) p)"

text \<open>Unlike the other operations this one takes the section as it is given, untrimmed.\<close>

definition remove_progress_story ::
  "service \<Rightarrow> string \<Rightarrow> string \<Rightarrow> string \<Rightarrow> palace \<Rightarrow> document outcome \<times> palace" where
  "remove_progress_story s identifier sec story0 p =
     (if \<not> k_progress_stories (sv_kind s) then (Fail (new_err BadRequest), p)
      else edit_with s identifier ''removeProgressStory'' (pure_edit (\<lambda>d p.
        (case om_get (fm_progress (doc_fm d)) sec of
           None \<Rightarrow> Inl (new_err (k_unknown_progress_key (sv_kind s)))
         | Some e \<Rightarrow>
             if normalize_id story0 \<notin> set (pe_stories e) then Inl (new_err NotFound)
             else Inr (Some (put_entry sec
                    (e\<lparr>pe_stories := filter (\<lambda>x. x \<noteq> normalize_id story0) (pe_stories e)\<rparr>) d))))) p)"

definition remove_progress :: "service \<Rightarrow> string \<Rightarrow> string \<Rightarrow> palace \<Rightarrow> document outcome \<times> palace" where
  "remove_progress s identifier section0 =
     edit_with s identifier ''removeProgress'' (pure_edit (\<lambda>d p.
       if om_get (fm_progress (doc_fm d)) (trim_space section0) = None
       then Inl (new_err (k_unknown_progress_key (sv_kind s)))
       else Inr (Some (set_fm (\<lambda>f. f\<lparr>fm_progress := om_del (trim_space section0) (fm_progress f)\<rparr>) d))))"

section \<open>Acceptance criteria and the work log\<close>

text \<open>The items, and how many are open.\<close>

definition get_criteria :: "service \<Rightarrow> string \<Rightarrow> palace \<Rightarrow> svc_error + (criterion list \<times> nat)" where
  "get_criteria s identifier p =
     (if \<not> k_criteria_gate (sv_kind s) then Inl (new_err BadRequest)
      else
        map_sum id (\<lambda>d. let items = (case criteria (doc_content d) of None \<Rightarrow> [] | Some cs \<Rightarrow> cs)
                        in (items, length (filter (\<lambda>c. cr_state c = StateOpen) items)))
          (resolve s identifier p))"

definition normalize_criterion_state :: "string \<Rightarrow> criterion_state option" where
  "normalize_criterion_state state =
     (let t = to_lower (trim_space state)
      in if t \<in> {''open'', ''todo'', ''unchecked'', '''', '' ''} then Some StateOpen
         else if t \<in> {''done'', ''checked'', ''complete'', ''completed'', ''x''} then Some StateDone
         else if t \<in> {''not_applicable'', ''not-applicable'', ''na'', ''n/a'', ''skip'', ''skipped'', ''~''}
         then Some StateNotApplicable
         else None)"

definition with_content :: "string option \<Rightarrow> document \<Rightarrow> svc_error + document option" where
  "with_content c d =
     (case c of None \<Rightarrow> Inl (new_err UnknownCriterion) | Some t \<Rightarrow> Inr (Some (d\<lparr>doc_content := t\<rparr>)))"

definition set_criterion :: "service \<Rightarrow> string \<Rightarrow> int \<Rightarrow> string \<Rightarrow> palace \<Rightarrow> document outcome \<times> palace" where
  "set_criterion s identifier position state p =
     (if \<not> k_criteria_gate (sv_kind s) then (Fail (new_err BadRequest), p)
      else edit_with s identifier ''setCriterion'' (pure_edit (\<lambda>d p.
        (case normalize_criterion_state state of
           None \<Rightarrow> Inl (new_err BadRequest)
         | Some st \<Rightarrow> with_content (md_set_criterion (doc_content d) position st) d))) p)"

definition criterion_kind_of :: "string \<Rightarrow> criterion_kind option" where
  "criterion_kind_of name =
     (let t = to_lower (trim_space name)
      in if t = '''' then Some NoKind else if t = ''verify'' then Some KindVerify
         else if t = ''manual'' then Some KindManual else None)"

definition add_criterion :: "service \<Rightarrow> string \<Rightarrow> string \<Rightarrow> string \<Rightarrow> palace \<Rightarrow> document outcome \<times> palace" where
  "add_criterion s identifier text0 kind_name p =
     (if \<not> k_criteria_gate (sv_kind s) then (Fail (new_err BadRequest), p)
      else edit_with s identifier ''addCriterion'' (pure_edit (\<lambda>d p.
        if trim_space text0 = '''' then Inl (new_err BadRequest)
        else
          (case criterion_kind_of kind_name of
             None \<Rightarrow> Inl (new_err BadRequest)
           | Some k \<Rightarrow>
               Inr (Some (d\<lparr>doc_content := md_add_criterion (doc_content d) (trim_space text0) k\<rparr>))))) p)"

definition remove_criterion :: "service \<Rightarrow> string \<Rightarrow> int \<Rightarrow> palace \<Rightarrow> document outcome \<times> palace" where
  "remove_criterion s identifier position p =
     (if \<not> k_criteria_gate (sv_kind s) then (Fail (new_err BadRequest), p)
      else edit_with s identifier ''removeCriterion'' (pure_edit (\<lambda>d p.
        with_content (md_remove_criterion (doc_content d) position) d)) p)"

definition append_work_log_edit :: "string \<Rightarrow> edit" where
  "append_work_log_edit entry0 d p =
     (let entry = trim_space entry0
      in if entry = '''' then (Inl (new_err BadRequest), p)
         else if nl \<in> set entry then (Inl (new_err BadRequest), p)
         else (case timestamp p of
                 (now, p') \<Rightarrow>
                   (Inr (Some (d\<lparr>doc_content := md_append_work_log (doc_content d) now entry\<rparr>)), p')))"

definition append_work_log :: "service \<Rightarrow> string \<Rightarrow> string \<Rightarrow> palace \<Rightarrow> document outcome \<times> palace" where
  "append_work_log s identifier entry p =
     (if \<not> k_work_log (sv_kind s) then (Fail (new_err BadRequest), p)
      else edit_with s identifier ''appendWorkLog'' (append_work_log_edit entry) p)"

section \<open>Facts\<close>

lemma put_entry_identity [simp]: "same_identity d (put_entry sec e d)"
  by (simp add: put_entry_def same_identity_set_fm)

lemma set_progress_safe: "safe_edit (set_progress_edit s sec0 st0)"
proof (rule safe_editI)
  fix d p r p'
  assume r: "set_progress_edit s sec0 st0 d p = (r, p')"
  have ap: "quiet p q \<and> (\<forall>d2. x = Inr (Some d2) \<longrightarrow> same_identity (put_entry sec e d) d2)"
    if "apply_status s ''complete'' True (put_entry sec e d) p = (x, q)" for x q sec e
    by (rule safe_editD [OF apply_status_safe that])
  show "quiet p p' \<and> (\<forall>d'. r = Inr (Some d') \<longrightarrow> same_identity d d')"
    using r by (auto simp: set_progress_edit_def Let_def split: sum.splits option.splits if_splits prod.splits
        dest!: ap intro: same_identity_trans [OF put_entry_identity])
qed

interpretation set_progress: document_operation s "set_progress s i sec st" for s i sec st
  unfolding set_progress_def by (intro edit_operation set_progress_safe)

interpretation add_progress_story: document_operation s "add_progress_story s i sec st" for s i sec st
  unfolding add_progress_story_def [abs_def] Let_def
  by (intro guarded_operation safe_pure_edit) (auto split: if_splits sum.splits)

interpretation remove_progress_story: document_operation s "remove_progress_story s i sec st" for s i sec st
  unfolding remove_progress_story_def [abs_def]
  by (intro guarded_operation safe_pure_edit) (auto split: if_splits option.splits)

interpretation remove_progress: document_operation s "remove_progress s i sec" for s i sec
  unfolding remove_progress_def
  by (intro edit_operation safe_pure_edit) (auto simp: same_identity_set_fm split: if_splits)

interpretation set_criterion: document_operation s "set_criterion s i n st" for s i n st
  unfolding set_criterion_def [abs_def]
  by (intro guarded_operation safe_pure_edit) (auto simp: with_content_def split: option.splits)

interpretation add_criterion: document_operation s "add_criterion s i t k" for s i t k
  unfolding add_criterion_def [abs_def]
  by (intro guarded_operation safe_pure_edit) (auto split: if_splits option.splits)

interpretation remove_criterion: document_operation s "remove_criterion s i n" for s i n
  unfolding remove_criterion_def [abs_def]
  by (intro guarded_operation safe_pure_edit) (auto simp: with_content_def split: option.splits)

lemma append_work_log_safe: "safe_edit (append_work_log_edit e)"
  by (rule safe_editI)
    (auto simp: append_work_log_edit_def Let_def split: if_splits prod.splits dest: timestamp_quiet)

interpretation append_work_log: document_operation s "append_work_log s i e" for s i e
  unfolding append_work_log_def [abs_def] by (intro guarded_operation append_work_log_safe)

lemma set_progress_completed:
  assumes "set_progress_edit s sec st d p = (Inr (Some d'), p')"
    and "normalize_status (sv_cfg s) ''complete'' = Some ''complete''"
  shows "fm_status (doc_fm d') = fm_status (doc_fm d) \<or>
    fm_status (doc_fm d) = ''in_progress'' \<and> fm_status (doc_fm d') = ''complete'' \<and>
    k_auto_complete (sv_kind s) \<and> all_steps_complete d' \<and> criteria_gate s d' = None \<and>
    open_dependencies s d True p = Inr []"
proof -
  have st: "fm_status (doc_fm (put_entry sec e d)) = fm_status (doc_fm d)"
    and lk: "plan_links (doc_fm (put_entry sec e d)) = plan_links (doc_fm d)"
      "story_links (doc_fm (put_entry sec e d)) = story_links (doc_fm d)"
      "doc_id (put_entry sec e d) = doc_id d" for sec e
    by (simp_all add: put_entry_def set_fm_def plan_links_def story_links_def doc_id_def)
  have "blocks_doc s (put_entry sec e d) = blocks_doc s d" for sec e
    by (simp add: fun_eq_iff blocks_doc_def lk)
  then have od: "open_dependencies s (put_entry sec e d) True p = Inr [] \<longleftrightarrow> open_dependencies s d True p = Inr []" for sec e
    by (simp add: open_dependencies_Nil lk unblocked_def)
  have ap: "fm_status (doc_fm d2) = ''complete'' \<and> doc_content d2 = doc_content d1 \<and>
      fm_progress (doc_fm d2) = fm_progress (doc_fm d1)"
    if "apply_status s ''complete'' True d1 p = (Inr (Some d2), q)" for d1 d2 q
    using that assms(2) by (cases rule: apply_status_cases) auto
  have same: "apply_status s ''complete'' True d1 p \<noteq> (Inr None, q)"
    if "fm_status (doc_fm d1) = ''in_progress''" for d1 q
    using that assms(2) by (auto elim: apply_status_cases)
  obtain se where se: "require_section s d sec = Inr se"
    using assms(1) by (auto simp: set_progress_edit_def split: sum.splits)
  obtain to where to: "normalize_status (sv_cfg s) st = Some to"
    using assms(1) se by (auto simp: set_progress_edit_def split: option.splits)
  define e where "e = (case om_get (fm_progress (doc_fm d)) se of None \<Rightarrow> new_entry | Some e \<Rightarrow> e)"
  define d1 where "d1 = put_entry se (e\<lparr>pe_status := to\<rparr>) d"
  note r = assms(1) [unfolded set_progress_edit_def se to sum.case option.case Let_def, folded e_def, folded d1_def]
  show ?thesis
  proof (cases "k_auto_complete (sv_kind s) \<and> to = ''complete'' \<and>
      fm_status (doc_fm d1) = ''in_progress'' \<and> all_steps_complete d1 \<and>
      open_dependencies s d1 True p = Inr [] \<and> criteria_gate s d1 = None")
    case False
    then have "d' = d1" using r by (auto split: if_splits sum.splits)
    then show ?thesis by (simp add: d1_def st)
  next
    case True
    obtain x q where x: "apply_status s ''complete'' True d1 p = (x, q)" by fastforce
    obtain d2 where d2: "x = Inr (Some d2)" "d' = d2\<lparr>doc_path := path_for d2 ''''\<rparr>"
      using r True x same [of d1 q] by (auto split: sum.splits option.splits)
    note a = ap [OF x [unfolded d2(1)]]
    have "all_steps_complete d' \<and> criteria_gate s d' = None"
      using True a d2(2) by (simp add: all_steps_complete_def entry_status_def criteria_gate_None)
    then show ?thesis
      using True a d2(2) od [of se "e\<lparr>pe_status := to\<rparr>"] st [of se "e\<lparr>pe_status := to\<rparr>"] by (simp add: d1_def)
  qed
qed

text \<open>C28. A story completes itself only when everything is done: if \<open>setProgress\<close> turns a document
  that was in progress into a complete one, every numbered heading of its content has a
  complete entry, its acceptance criteria are closed, and nothing it depends on or that
  blocks it is open. Any other status stays as it is.\<close>

theorem set_progress_auto_complete:
  assumes "set_progress_edit s sec st d p = (Inr (Some d'), p')"
    and "normalize_status (sv_cfg s) ''complete'' = Some ''complete''"
  shows "fm_status (doc_fm d') = fm_status (doc_fm d) \<or>
    fm_status (doc_fm d) = ''in_progress'' \<and> fm_status (doc_fm d') = ''complete'' \<and> k_auto_complete (sv_kind s) \<and>
    section_numbers (doc_content d') \<noteq> [] \<and>
    (\<forall>n \<in> set (section_numbers (doc_content d')). entry_status d' n = ''complete'') \<and>
    (k_criteria_gate (sv_kind s) \<longrightarrow>
       (\<exists>items. criteria (doc_content d') = Some items \<and> items \<noteq> [] \<and> (\<forall>c \<in> set items. cr_state c \<noteq> StateOpen))) \<and>
    targets_finished (pl_plans p) (plan_links (doc_fm d)) p \<and>
    targets_finished (pl_stories p) (story_links (doc_fm d)) p \<and> unblocked s d p"
  using set_progress_completed [OF assms]
  by (auto simp: all_steps_complete_def open_dependencies_Nil criteria_gate_None list_all_iff)

end
