(* ===== verification/Service_Claims.thy ===== *)
theory Service_Claims
  imports Service_Planning
begin

text \<open>
  The ready queue and claiming (\<open>service/dependencies.go\<close>). A claim holds the store's lease on
  the document while it reads, checks and writes; in the meantime other holders of leases
  may come and go, which is what the polls carry.
\<close>

section \<open>The ready queue\<close>

record summary =
  sm_kind :: string
  sm_path :: string
  sm_fm :: front_matter

record ready_filter =
  rf_tag :: string
  rf_milestone :: string
  rf_unassigned :: bool
  rf_limit :: int

definition priority_rank :: "string \<Rightarrow> int" where
  "priority_rank s = (case atoi s of Some n \<Rightarrow> n | None \<Rightarrow> 99)"

definition order_rank :: "int \<Rightarrow> int" where
  "order_rank n = (if n \<le> 0 then 2 ^ 63 - 1 else n)"

definition ready_candidate :: "service \<Rightarrow> ready_filter \<Rightarrow> document \<Rightarrow> bool" where
  "ready_candidate s f d \<longleftrightarrow>
     (let m = doc_fm d
      in fm_status m \<noteq> ''in_progress'' \<and> can_transition (sv_cfg s) (fm_status m) ''in_progress'' \<and>
         (rf_tag f = '''' \<or> rf_tag f \<in> set (fm_tags m)) \<and>
         (rf_milestone f = '''' \<or> fm_milestone m = rf_milestone f) \<and>
         (\<not> rf_unassigned f \<or> fm_assignee m = ''''))"

fun ready_docs :: "service \<Rightarrow> ready_filter \<Rightarrow> document list \<Rightarrow> palace \<Rightarrow> svc_error + document list" where
  "ready_docs s f [] p = Inr []"
| "ready_docs s f (d # ds) p =
     (if \<not> ready_candidate s f d then ready_docs s f ds p
      else
        (case open_dependencies s d False p of
           Inl e \<Rightarrow> Inl e
         | Inr [] \<Rightarrow> map_sum id (Cons d) (ready_docs s f ds p)
         | Inr _ \<Rightarrow> ready_docs s f ds p))"

definition ready_key :: "document \<Rightarrow> int \<times> int \<times> string" where
  "ready_key d = (priority_rank (fm_priority (doc_fm d)), order_rank (fm_order (doc_fm d)), fm_id (doc_fm d))"

definition summarise :: "service \<Rightarrow> document \<Rightarrow> summary" where
  "summarise s d = \<lparr>sm_kind = k_name (sv_kind s), sm_path = doc_path d, sm_fm = doc_fm d\<rparr>"

definition ready :: "service \<Rightarrow> ready_filter \<Rightarrow> palace \<Rightarrow> svc_error + summary list" where
  "ready s f p =
     (case list_docs p (k_name (sv_kind s)) of
        Inl _ \<Rightarrow> Inl storage_err
      | Inr docs \<Rightarrow>
          map_sum id
            (\<lambda>ds. let sorted = sort_key ready_key ds
                  in map (summarise s) (if 0 < rf_limit f then take (nat (rf_limit f)) sorted else sorted))
            (ready_docs s f docs p))"

section \<open>Claiming\<close>

text \<open>An attempt at the lease: what other holders did to the leases, the clock, the new id.\<close>

record lease_try =
  lt_others :: "leases \<Rightarrow> leases"
  lt_now :: int
  lt_fresh :: string

definition lease_poll :: "lease_try \<Rightarrow> mem_store poll" where
  "lease_poll t =
     \<lparr>po_env = (\<lambda>s. s\<lparr>ms_leases := lt_others t (ms_leases s)\<rparr>), po_now = lt_now t, po_fresh = lt_fresh t\<rparr>"

text \<open>The part of a claim that runs under the lock, from the second reading on.\<close>

definition claim_locked :: "service \<Rightarrow> string \<Rightarrow> string \<Rightarrow> bool \<Rightarrow> palace \<Rightarrow> document outcome \<times> palace" where
  "claim_locked s i a force p =
     (case resolve s i p of
        Inl e \<Rightarrow> (Fail e, p)
      | Inr d \<Rightarrow>
          (let held = fm_assignee (doc_fm d)
           in if held = a \<and> fm_status (doc_fm d) = ''in_progress'' then (Done d, p)
              else if held \<noteq> '''' \<and> held \<noteq> a \<and> \<not> force then (Fail (new_err Conflict), p)
              else
                (let d1 = set_fm (fm_assignee_update (\<lambda>_. a)) d
                 in case apply_status s ''in_progress'' force d1 p of
                      (Inl e, p1) \<Rightarrow> (Fail e, p1)
                    | (Inr r, p1) \<Rightarrow>
                        (let d2 = (case r of None \<Rightarrow> d1 | Some x \<Rightarrow> x)
                         in case save s (d2\<lparr>doc_path := path_for d2 ''''\<rparr>) ''claim'' ''updated'' p1 of
                              (Done saved, p2) \<Rightarrow>
                                (case resolve s (doc_id d) p2 of
                                   Inr after \<Rightarrow>
                                     if fm_assignee (doc_fm after) \<noteq> a then (Fail (new_err Conflict), p2)
                                     else (Done saved, p2)
                                 | Inl _ \<Rightarrow> (Done saved, p2))
                            | r2 \<Rightarrow> r2))))"

definition claim ::
  "service \<Rightarrow> string \<Rightarrow> string \<Rightarrow> bool \<Rightarrow> lease_try list \<Rightarrow> palace \<Rightarrow> document outcome \<times> palace" where
  "claim s identifier assignee force tries p =
     (if \<not> k_has_assignee (sv_kind s) then (Fail (new_err BadRequest), p)
      else
        (case normalize_assignee assignee of
           Inl e \<Rightarrow> (Fail e, p)
         | Inr a \<Rightarrow>
             if a = '''' then (Fail (new_err BadRequest), p)
             else
               (case resolve s identifier p of
                  Inl e \<Rightarrow> (Fail e, p)
                | Inr first \<Rightarrow>
                    (case multi_lock mem_ops (k_name (sv_kind s)) (doc_id first) (map lease_poll tries) (pl_store p) of
                       (m, Inl _) \<Rightarrow> (Fail (new_err Conflict), p\<lparr>pl_store := m\<rparr>)
                     | (m, Inr lease) \<Rightarrow>
                         (case claim_locked s (doc_id first) a force (p\<lparr>pl_store := m\<rparr>) of
                            (r, p2) \<Rightarrow>
                              (r, p2\<lparr>pl_store := multi_unlock mem_ops (k_name (sv_kind s)) (doc_id first)
                                       lease (pl_store p2)\<rparr>))))))"

section \<open>Facts: the queue\<close>

lemma ready_docs_set:
  "ready_docs s f ds p = Inr rs \<Longrightarrow>
   rs = filter (\<lambda>d. ready_candidate s f d \<and> open_dependencies s d False p = Inr []) ds"
  by (induction ds arbitrary: rs) (auto simp: map_sum_Inr split: if_splits sum.splits list.splits)


text \<open>A limit only cuts the queue: the limited queue is the beginning of the unlimited one.\<close>

theorem ready_limit:
  assumes "ready s (f\<lparr>rf_limit := 0\<rparr>) p = Inr q" "0 < n"
  shows "ready s (f\<lparr>rf_limit := n\<rparr>) p = Inr (take (nat n) q)"
proof -
  have c: "ready_candidate s (f\<lparr>rf_limit := m\<rparr>) = ready_candidate s f" for m
    by (simp add: fun_eq_iff ready_candidate_def)
  have r: "ready_docs s (f\<lparr>rf_limit := m\<rparr>) ds p = ready_docs s f ds p" for m ds
    by (induction ds) (auto simp: c split: sum.splits list.splits)
  show ?thesis
    using assms by (auto simp: ready_def r map_sum_Inr Let_def take_map split: sum.splits)
qed

section \<open>Facts: the lock\<close>

lemma lease_lock_quiet:
  assumes "lease_lock mem_leaser k i ttl (map lease_poll ts) s = (s', r)"
  shows "\<exists>ls. s' = s\<lparr>ms_leases := ls\<rparr>"
  using assms
proof (induction ts arbitrary: s)
  case Nil
  then show ?case by (auto intro: exI [of _ "ms_leases s"])
next
  case (Cons t ts)
  obtain ls x where a: "acquire_lease k i ttl (lt_now t) (lt_fresh t) (lt_others t (ms_leases s)) = (ls, x)"
    by fastforce
  have st: "le_acquire mem_leaser k i ttl (po_now (lease_poll t)) (po_fresh (lease_poll t))
      (po_env (lease_poll t) s) = (s\<lparr>ms_leases := ls\<rparr>, x)"
    using a by (simp add: mem_leaser_def lease_poll_def)
  show ?case
    using Cons.prems Cons.IH [of "s\<lparr>ms_leases := ls\<rparr>"] st by (auto split: sum.splits if_splits)
qed

lemma multi_lock_quiet:
  assumes "multi_lock mem_ops k i (map lease_poll ts) (pl_store p) = (m, r)"
  shows "quiet p (p\<lparr>pl_store := m\<rparr>)"
proof -
  obtain q x where q: "lease_lock mem_leaser k i default_lease_ttl (map lease_poll ts) (mu_primary (pl_store p)) = (q, x)"
    by fastforce
  obtain ls where "q = (mu_primary (pl_store p))\<lparr>ms_leases := ls\<rparr>"
    using lease_lock_quiet [OF q] by blast
  then show ?thesis
    using assms q by (auto simp: multi_lock_def quiet_def same_env_def split: sum.splits)
qed

lemma multi_unlock_quiet: "quiet p (p\<lparr>pl_store := multi_unlock mem_ops k i l (pl_store p)\<rparr>)"
  by (auto simp: multi_unlock_def multi_release_lease_def mem_leaser_def quiet_def same_env_def split: option.splits)

section \<open>Facts: claims\<close>

lemma save_form_assignee: "fm_assignee (doc_fm (save_form s d u)) = fm_assignee (doc_fm d)"
  by simp

text \<open>Under the lock: an error, the document as it is, or a save for this assignee.\<close>

lemma claim_locked_cases:
  assumes "palace_wf p" "is_service p s" "claim_locked s i a force p = (r, p')"
  obtains (failed) e where "r = Fail e" "quiet p p'"
    | (own) d where "r = Done d" "p' = p" "resolve s i p = Inr d" "fm_assignee (doc_fm d) = a"
        "fm_status (doc_fm d) = ''in_progress''"
    | (saved) d d2 q where "resolve s i p = Inr d" "quiet p q" "same_identity d d2"
        "fm_assignee (doc_fm d2) = a" "save s d2 ''claim'' ''updated'' q = (r, p')"
        "normalize_status (sv_cfg s) ''in_progress'' = Some (fm_status (doc_fm d2))"
        "force \<or> fm_assignee (doc_fm d) = '''' \<or> fm_assignee (doc_fm d) = a"
proof (cases "resolve s i p")
  case (Inl e)
  then show ?thesis using assms(3) by (intro failed) (auto simp: claim_locked_def)
next
  case (Inr d)
  let ?held = "fm_assignee (doc_fm d)"
  note c = assms(3) [unfolded claim_locked_def Inr sum.case Let_def]
  show ?thesis
  proof (cases "?held = a \<and> fm_status (doc_fm d) = ''in_progress''")
    case True
    then show ?thesis using c Inr by (intro own) auto
  next
    case other: False
    show ?thesis
    proof (cases "?held \<noteq> '''' \<and> ?held \<noteq> a \<and> \<not> force")
      case True
      then show ?thesis using c other by (intro failed) auto
    next
      case free: False
      define d1 where "d1 = set_fm (fm_assignee_update (\<lambda>_. a)) d"
      obtain x q where x: "apply_status s ''in_progress'' force d1 p = (x, q)" by fastforce
      have q: "quiet p q" using safe_editD [OF apply_status_safe x] by blast
      have d1: "same_identity d d1" "fm_assignee (doc_fm d1) = a" "fm_status (doc_fm d1) = fm_status (doc_fm d)"
        by (simp_all add: d1_def same_identity_set_fm) (simp_all add: set_fm_def)
      note c1 = c [unfolded if_not_P [OF other] if_not_P [OF free] d1_def [symmetric] x prod.case]
      show ?thesis
      proof (cases x)
        case (Inl e)
        then show ?thesis using c1 q by (intro failed) auto
      next
        case y: (Inr y)
        define d2 where "d2 = (case y of None \<Rightarrow> d1 | Some z \<Rightarrow> z)"
        have d2: "same_identity d d2" "fm_assignee (doc_fm d2) = a"
            "normalize_status (sv_cfg s) ''in_progress'' = Some (fm_status (doc_fm d2))"
          using x [unfolded y] d1
          by (cases rule: apply_status_cases; auto simp: d2_def same_identity_fm same_identity_def)+
        let ?d2 = "d2\<lparr>doc_path := path_for d2 ''''\<rparr>"
        obtain w z where w: "save s ?d2 ''claim'' ''updated'' q = (w, z)" by fastforce
        have held: "force \<or> ?held = '''' \<or> ?held = a" using free by blast
        have "r = w \<and> p' = z"
        proof (cases w)
          case (Done sv)
          note su = save_updated [OF assms(1,2) q w, unfolded Done outcome.case]
          then obtain u where u: "sv = save_form s ?d2 u" by blast
          have wf: "palace_wf z" "is_service z s"
            using su assms(2) by (auto simp: is_service_def same_env_def)
          have "fm_assignee (doc_fm after) = a" if "resolve s (doc_id d) z = Inr after" for after
          proof -
            have "lookup z (k_name (sv_kind s)) (doc_id d) = Inr sv"
              using su d2(1) by (simp add: same_identity_def doc_id_def)
            moreover have "id_re (doc_id d)"
              using canonical_resolve [OF assms(1,2) Inr] valid_id by blast
            ultimately have "doc_fm after = fm_normalize_dates (doc_fm sv)"
              using resolve_id [of "doc_id d" z s sv] that by auto
            then show ?thesis using u d2(2) by (simp add: fm_normalize_dates_def)
          qed
          then show ?thesis
            using c1 w Done by (auto simp: y d2_def [symmetric] split: sum.splits)
        qed (use c1 w in \<open>auto simp: y d2_def [symmetric]\<close>)
        then show ?thesis
          using saved [OF Inr q _ _ _ _ held, of ?d2] d2 w by simp
      qed
    qed
  qed
qed

lemma saved_contract:
  "\<lbrakk>quiet p q; resolve s i p = Inr d0; same_identity d0 d; save s d op ''updated'' q = (r, q'); quiet q' p'\<rbrakk> \<Longrightarrow>
   edit_contract s p r p'"
  unfolding edit_contract_def by blast

interpretation claim: document_operation s "claim s i a f ts" for s i a f ts
proof
  fix p r p'
  assume wf: "palace_wf p" "is_service p s" and c: "claim s i a f ts p = (r, p')"
  show "edit_contract s p r p'"
  proof (cases "k_has_assignee (sv_kind s) \<and> (\<exists>b. normalize_assignee a = Inr b \<and> b \<noteq> '''') \<and> (\<exists>d. resolve s i p = Inr d)")
    case False
    then have "\<exists>e. r = Fail e \<and> p' = p"
      using c by (auto simp: claim_def split: sum.splits if_splits)
    then show ?thesis by (auto simp: edit_contract_def)
  next
    case True
    then obtain b d where b: "normalize_assignee a = Inr b" "b \<noteq> ''''" "resolve s i p = Inr d" by blast
    obtain m l where l: "multi_lock mem_ops (k_name (sv_kind s)) (doc_id d) (map lease_poll ts) (pl_store p) = (m, l)"
      by fastforce
    note q = multi_lock_quiet [OF l]
    note c1 = c [unfolded claim_def b sum.case l prod.case] 
    show ?thesis
    proof (cases l)
      case (Inl e)
      then have "r = Fail (new_err Conflict)" "p' = p\<lparr>pl_store := m\<rparr>" using c1 True b(2) by simp_all
      then show ?thesis using q by (simp add: edit_contract_def)
    next
      case (Inr lease)
      let ?p1 = "p\<lparr>pl_store := m\<rparr>"
      obtain x z where x: "claim_locked s (doc_id d) b f ?p1 = (x, z)" by fastforce
      have r: "r = x" "quiet z p'"
        using c1 True b(2) Inr x multi_unlock_quiet [of z] by auto
      have wf1: "palace_wf ?p1" "is_service ?p1 s"
        using palace_wf_quiet [OF q wf(1)] wf(2) by (simp_all add: is_service_def)
      show ?thesis
        using wf1 x
      proof (cases rule: claim_locked_cases)
        case (failed e)
        have "quiet p p'" by (rule quiet_trans [OF q quiet_trans [OF failed(2) r(2)]])
        then show ?thesis using r(1) failed(1) by (simp add: edit_contract_def)
      next
        case (own d')
        have "quiet p p'" using quiet_trans [OF q] r(2) own(2) by simp
        moreover have "resolve s (doc_id d) p = Inr d'" using own(3) quiet_resolve [OF q] by simp
        ultimately show ?thesis using r(1) own(1) by (auto simp: edit_contract_def)
      next
        case (saved d0 d2 q2)
        have "edit_contract s p x p'"
          by (rule saved_contract [OF quiet_trans [OF q saved(2)] _ saved(3,5) r(2)])
            (use saved(1) quiet_resolve [OF q] in simp)
        then show ?thesis using r by simp
      qed
    qed
  qed
qed


text \<open>What a claim reads first is what it reads under the lock, when only leases move in between.\<close>

lemma claim_cases:
  assumes "claim s i a0 force ts p = (r, p')"
  obtains (refused) e where "r = Fail e" "quiet p p'"
    | (locked) a first p1 p2 where "normalize_assignee a0 = Inr a" "a \<noteq> ''''" "resolve s i p = Inr first"
        "quiet p p1" "claim_locked s (doc_id first) a force p1 = (r, p2)" "quiet p2 p'"
        "k_has_assignee (sv_kind s)"
proof (cases "k_has_assignee (sv_kind s) \<and> (\<exists>b. normalize_assignee a0 = Inr b \<and> b \<noteq> '''') \<and> (\<exists>d. resolve s i p = Inr d)")
  case False
  then have "\<exists>e. r = Fail e \<and> p' = p"
    using assms by (auto simp: claim_def split: sum.splits if_splits)
  then show ?thesis using refused by auto
next
  case True
  then obtain b d where b: "normalize_assignee a0 = Inr b" "b \<noteq> ''''" "resolve s i p = Inr d" by blast
  obtain m l where l: "multi_lock mem_ops (k_name (sv_kind s)) (doc_id d) (map lease_poll ts) (pl_store p) = (m, l)"
    by fastforce
  note q = multi_lock_quiet [OF l]
  note c1 = assms [unfolded claim_def b sum.case l prod.case]
  show ?thesis
  proof (cases l)
    case (Inl e)
    then show ?thesis using c1 True b(2) q by (intro refused [of "new_err Conflict"]) simp_all
  next
    case (Inr lease)
    obtain x z where x: "claim_locked s (doc_id d) b force (p\<lparr>pl_store := m\<rparr>) = (x, z)" by fastforce
    have "r = x" "quiet z p'"
      using c1 True b(2) Inr x multi_unlock_quiet [of z] by auto
    then show ?thesis using locked [OF b q _ _ ] x True by blast
  qed
qed

lemma claim_Done:
  assumes "palace_wf p" "is_service p s" "claim s i a0 force ts p = (Done d, p')"
    and "normalize_status (sv_cfg s) ''in_progress'' = Some ''in_progress''"
  shows "\<exists>a d0. normalize_assignee a0 = Inr a \<and> a \<noteq> '''' \<and> fm_assignee (doc_fm d) = a \<and>
    fm_status (doc_fm d) = ''in_progress'' \<and> resolve s i p = Inr d0 \<and> doc_id d = doc_id d0 \<and>
    (force \<or> fm_assignee (doc_fm d0) = '''' \<or> fm_assignee (doc_fm d0) = a)"
  using assms(3)
proof (cases rule: claim_cases)
  case (locked a first p1 p2)
  have wf: "palace_wf p1" "is_service p1 s"
    using palace_wf_quiet [OF locked(4) assms(1)] assms(2) quiet_env [OF locked(4)]
    by (simp_all add: is_service_def same_env_def)
  have again: "resolve s (doc_id first) p = Inr first"
    using canonical_resolve [OF assms(1,2) locked(3)] resolve_stored by blast
  have same: "resolve s (doc_id first) p1 = Inr first"
    using again quiet_resolve [OF locked(4)] by simp
  show ?thesis
    using wf locked(5)
  proof (cases rule: claim_locked_cases)
    case (own d')
    then show ?thesis using locked same by auto
  next
    case (saved d0 d2 q)
    obtain u where u: "d = save_form s d2 u" by (rule save_Done [OF saved(5)])
    have "d0 = first" using saved(1) same by simp
    then show ?thesis
      using locked saved u assms(4) by (auto simp: same_identity_def doc_id_def)
  qed simp
qed simp

lemma claim_taken:
  assumes "palace_wf p" "is_service p s" "claim s i a force ts p = (Done d, p')"
    and "normalize_status (sv_cfg s) ''in_progress'' = Some ''in_progress''"
  shows "lookup p' (k_name (sv_kind s)) (doc_id d) = Inr d \<and>
    fm_status (doc_fm d) = ''in_progress'' \<and> normalize_assignee a = Inr (fm_assignee (doc_fm d)) \<and>
    fm_assignee (doc_fm d) \<noteq> '''' \<and>
    (\<exists>d0. resolve s i p = Inr d0 \<and> doc_id d0 = doc_id d \<and>
       (force \<or> fm_assignee (doc_fm d0) = '''' \<or> fm_assignee (doc_fm d0) = fm_assignee (doc_fm d)))"
  using claim_Done [OF assms] claim.done_effect [OF assms(1-3), of d] by auto

text \<open>C25. A claim that succeeds leaves the story in progress and assigned to the claimant, and without
  force it never takes a story that someone else held: the story was unassigned or already
  the claimant's own.\<close>

theorem claim_takes:
  assumes "palace_wf p" "is_service p s" "claim s i a force ts p = (Done d, p')"
    and "normalize_status (sv_cfg s) ''in_progress'' = Some ''in_progress''"
  shows "lookup p' (k_name (sv_kind s)) (doc_id d) = Inr d \<and>
    fm_status (doc_fm d) = ''in_progress'' \<and> normalize_assignee a = Inr (fm_assignee (doc_fm d)) \<and>
    fm_assignee (doc_fm d) \<noteq> '''' \<and>
    (\<exists>d0. resolve s i p = Inr d0 \<and> doc_id d0 = doc_id d \<and>
       (force \<or> fm_assignee (doc_fm d0) = '''' \<or> fm_assignee (doc_fm d0) = fm_assignee (doc_fm d)))"
  using assms by (rule claim_taken)

text \<open>C3. Claims exclude each other: once one assignee has claimed a story, an unforced claim of it by
  another one is refused as a Conflict, whatever the leases do meanwhile, and changes no
  document.\<close>

theorem claim_exclusive:
  assumes "palace_wf p" "is_service p s" "claim s i a force ts p = (Done d, p')"
    and "normalize_status (sv_cfg s) ''in_progress'' = Some ''in_progress''"
    and "normalize_assignee b = Inr c" "c \<noteq> ''''" "c \<noteq> fm_assignee (doc_fm d)"
  shows "\<exists>q. claim s (doc_id d) b False ts' p' = (Fail (new_err Conflict), q) \<and> quiet p' q"
proof -
  note t = claim_taken [OF assms(1-4)]
  have wf: "palace_wf p'" "is_service p' s"
    using claim.env_wf [OF assms(1-3)] assms(2) by (auto simp: is_service_def same_env_def)
  have kd: "k_has_assignee (sv_kind s)"
    using assms(3) by (auto simp: claim_def split: if_splits)
  have v: "valid_doc s d" "lookup p' (k_name (sv_kind s)) (doc_id d) = Inr d"
    using claim.done_effect [OF assms(1-3), of d] by auto
  have res: "resolve s (doc_id d) p' = Inr d" by (rule resolve_stored [OF v])
  obtain m l where l: "multi_lock mem_ops (k_name (sv_kind s)) (doc_id d) (map lease_poll ts') (pl_store p') = (m, l)"
    by fastforce
  note q = multi_lock_quiet [OF l]
  have lockd: "claim_locked s (doc_id d) c False (p'\<lparr>pl_store := m\<rparr>) = (Fail (new_err Conflict), p'\<lparr>pl_store := m\<rparr>)"
    using t assms(7) quiet_resolve [OF q] res by (auto simp: claim_locked_def)
  show ?thesis
  proof (cases l)
    case (Inl e)
    then show ?thesis using kd assms(5,6) res l q by (simp add: claim_def)
  next
    case (Inr lease)
    then show ?thesis
      using kd assms(5,6) res l quiet_trans [OF q multi_unlock_quiet] lockd by (simp add: claim_def)
  qed
qed

end
