(* ===== verification/Service_Documents.thy ===== *)
theory Service_Documents
  imports Service_Progress Service_Claims
begin

text \<open>
  Creating, listing, replacing, deleting and validating documents (\<open>service/documents.go\<close>) and
  the templates a new document is rendered from (\<open>service/templates.go\<close>). JSON Schema
  validation, the typed decoding of the input and the execution of a text template are
  arguments of \<open>create\<close>.
\<close>

section \<open>Templates\<close>

definition default_template_id :: string where
  "default_template_id = ''default''"

text \<open>The built-in template texts by kind name are files the build embeds: an argument.\<close>

type_synonym builtin = "string \<Rightarrow> string"

definition get_template :: "builtin \<Rightarrow> service \<Rightarrow> string \<Rightarrow> palace \<Rightarrow> svc_error + template" where
  "get_template bi s i0 p =
     (let i = (if i0 = '''' then default_template_id else i0); kn = k_name (sv_kind s)
      in case so_get_template palace_ops (pl_store p) kn i of
           Inr t \<Rightarrow> Inr (t\<lparr>tm_kind := kn\<rparr>)
         | Inl e \<Rightarrow>
             if \<not> err_is e ErrNotFound then Inl storage_err
             else if i = default_template_id then
               Inr \<lparr>tm_kind = kn, tm_id = i, tm_content = bi kn, tm_updated = ''''\<rparr>
             else Inl (new_err NotFound))"

definition list_templates :: "builtin \<Rightarrow> service \<Rightarrow> palace \<Rightarrow> svc_error + template list" where
  "list_templates bi s p =
     (let kn = k_name (sv_kind s)
      in case so_list_templates palace_ops (pl_store p) kn of
           Inl _ \<Rightarrow> Inl storage_err
         | Inr ts0 \<Rightarrow>
             (let ts = map (\<lambda>t. t\<lparr>tm_kind := kn\<rparr>) ts0
              in Inr (if list_ex (\<lambda>t. tm_id t = default_template_id) ts then ts
                      else \<lparr>tm_kind = kn, tm_id = default_template_id, tm_content = bi kn, tm_updated = ''''\<rparr> # ts)))"

definition template_id_ok :: "string \<Rightarrow> bool" where
  "template_id_ok i \<longleftrightarrow>
     \<not> (i = '''' \<or> contains_any i [CHR ''/'', CHR 0x5C, CHR '' ''] \<or> i = ''.'' \<or> i = ''..'')"

definition template_event :: "service \<Rightarrow> string \<Rightarrow> string \<Rightarrow> palace \<Rightarrow> palace" where
  "template_event s etype tid p =
     (case timestamp p of
        (t, p') \<Rightarrow>
          p'\<lparr>pl_bus := publish
            \<lparr>ev_type = etype, ev_kind = k_name (sv_kind s), ev_id = '''', ev_template_id = tid,
             ev_document = None, ev_operation = '''', ev_at = t\<rparr> (pl_bus p')\<rparr>)"

text \<open>A partial write is reported, and, unlike for a document, not published.\<close>

definition put_template :: "service \<Rightarrow> template \<Rightarrow> palace \<Rightarrow> template outcome \<times> palace" where
  "put_template s t0 p =
     (case timestamp p of
        (now, p1) \<Rightarrow>
          (let t = t0\<lparr>tm_updated := now\<rparr>
           in case so_put_template palace_ops t (pl_store p1) of
                (m, None) \<Rightarrow> (Done t, template_event s ''template.updated'' (tm_id t) (p1\<lparr>pl_store := m\<rparr>))
              | (m, Some e) \<Rightarrow>
                  (if is_fanout e then Partial t partial_err else Fail storage_err, p1\<lparr>pl_store := m\<rparr>)))"

text \<open>Whether a template text parses is for the template engine to say: \<open>parses\<close>.\<close>

definition create_template ::
  "(string \<Rightarrow> string option) \<Rightarrow> service \<Rightarrow> string \<Rightarrow> string \<Rightarrow> palace \<Rightarrow> template outcome \<times> palace" where
  "create_template parses s i content p =
     (let kn = k_name (sv_kind s)
      in if \<not> template_id_ok i then (Fail (new_err BadRequest), p)
         else
           (case parses content of
              Some problem \<Rightarrow> (Fail (err_with ValidationError [problem]), p)
            | None \<Rightarrow>
                (case so_get_template palace_ops (pl_store p) kn i of
                   Inr _ \<Rightarrow> (Fail (new_err Conflict), p)
                 | Inl _ \<Rightarrow>
                     put_template s \<lparr>tm_kind = kn, tm_id = i, tm_content = content, tm_updated = ''''\<rparr> p)))"

definition update_template ::
  "builtin \<Rightarrow> (string \<Rightarrow> string option) \<Rightarrow> service \<Rightarrow> string \<Rightarrow> string \<Rightarrow> palace \<Rightarrow> template outcome \<times> palace" where
  "update_template bi parses s i content p =
     (if \<not> template_id_ok i then (Fail (new_err BadRequest), p)
      else
        (case parses content of
           Some problem \<Rightarrow> (Fail (err_with ValidationError [problem]), p)
         | None \<Rightarrow>
             (case get_template bi s i p of
                Inl e \<Rightarrow> (Fail e, p)
              | Inr _ \<Rightarrow>
                  put_template s
                    \<lparr>tm_kind = k_name (sv_kind s), tm_id = i, tm_content = content, tm_updated = ''''\<rparr> p)))"

definition delete_template :: "service \<Rightarrow> string \<Rightarrow> palace \<Rightarrow> unit outcome \<times> palace" where
  "delete_template s i p =
     (if \<not> template_id_ok i then (Fail (new_err BadRequest), p)
      else if i = default_template_id \<and> k_protect_default_template (sv_kind s) then
        (Fail (new_err Conflict), p)
      else
        (case so_delete_template palace_ops (k_name (sv_kind s)) i (pl_store p) of
           (m, None) \<Rightarrow> (Done (), template_event s ''template.deleted'' i (p\<lparr>pl_store := m\<rparr>))
         | (m, Some e) \<Rightarrow>
             (Fail (if err_is e ErrNotFound then new_err NotFound
                    else if is_fanout e then partial_err else storage_err), p\<lparr>pl_store := m\<rparr>)))"

section \<open>Allocating an id\<close>

definition next_sequence :: "document list \<Rightarrow> int" where
  "next_sequence docs = fold (\<lambda>d n. if n < sequence_of (doc_id d) then sequence_of (doc_id d) else n) docs 0 + 1"

definition sequence_id :: "int \<Rightarrow> string \<Rightarrow> string" where
  "sequence_id seq sfx = pad_zero 4 (itoa (nat seq)) @ ''-'' @ sfx"

fun draw_free :: "nat \<Rightarrow> int \<Rightarrow> string list \<Rightarrow> palace \<Rightarrow> string option \<times> palace" where
  "draw_free 0 seq used p = (None, p)"
| "draw_free (Suc n) seq used p =
     (case draw_id p of
        (sfx, p') \<Rightarrow>
          if sequence_id seq sfx \<notin> set used then (Some (sequence_id seq sfx), p')
          else draw_free n seq used p')"

definition allocate_id :: "service \<Rightarrow> string \<Rightarrow> palace \<Rightarrow> (svc_error + string) \<times> palace" where
  "allocate_id s requested p =
     (case list_docs p (k_name (sv_kind s)) of
        Inl _ \<Rightarrow> (Inl storage_err, p)
      | Inr docs \<Rightarrow>
          (let used = map doc_id docs; seq = next_sequence docs
           in if requested \<noteq> '''' then
                (if requested \<in> set used then (Inl (new_err Conflict), p) else (Inr requested, p))
              else if 9999 < seq then (Inl (new_err Conflict), p)
              else
                (case draw_free 100 seq used p of
                   (Some i, p') \<Rightarrow> (Inr i, p')
                 | (None, p') \<Rightarrow> (Inl (new_err Conflict), p'))))"

section \<open>Creating a document\<close>

text \<open>
  The decoded input. A progress map that is given, even an empty one, is not seeded, so
  whether it is there is kept.
\<close>

record create_input =
  ci_slug :: string
  ci_fm :: front_matter
  ci_has_progress :: bool
  ci_body :: go_val

record create_env =
  ce_builtin :: builtin
  ce_schema :: "go_val \<Rightarrow> string list"
  ce_decode :: "go_val \<Rightarrow> create_input option"
  ce_sections :: "go_val \<Rightarrow> string list option"
  ce_render :: "string \<Rightarrow> string \<Rightarrow> front_matter \<Rightarrow> go_val \<Rightarrow> string option"

text \<open>The front matter as it is created: new id, stamps set by the service.\<close>

definition created_fm :: "service \<Rightarrow> string \<Rightarrow> string \<Rightarrow> front_matter \<Rightarrow> front_matter" where
  "created_fm s i now f =
     f\<lparr>fm_id := i, fm_created := now, fm_updated := now,
       fm_started := (if fm_status f = ''in_progress'' \<and> k_tracks_started (sv_kind s) then now else ''''),
       fm_completed := (if fm_status f = ''complete'' then now else '''')\<rparr>"

definition seed_progress :: "string list \<Rightarrow> progress" where
  "seed_progress secs = foldl (\<lambda>m n. om_put n \<lparr>pe_status = default_status, pe_stories = []\<rparr> m) [] secs"

definition create_document ::
  "create_env \<Rightarrow> service \<Rightarrow> create_input \<Rightarrow> string list \<Rightarrow> template \<Rightarrow> string \<Rightarrow> palace \<Rightarrow> document outcome \<times> palace" where
  "create_document env s inp sections tmpl now p =
     (case first_err (\<lambda>l. check_plan_link s '''' l p) (plan_links (ci_fm inp)) of
        Some e \<Rightarrow> (Fail e, p)
      | None \<Rightarrow>
     (case first_err (\<lambda>l. check_story_link s '''' l p) (story_links (ci_fm inp)) of
        Some e \<Rightarrow> (Fail e, p)
      | None \<Rightarrow>
     (case allocate_id s (fm_id (ci_fm inp)) p of
        (Inl e, p1) \<Rightarrow> (Fail e, p1)
      | (Inr i, p1) \<Rightarrow>
          (let f = created_fm s i now (ci_fm inp);
               slug = (if ci_slug inp = '''' then slugify (fm_title f) else ci_slug inp)
           in case ce_render env (tm_content tmpl) i f (ci_body inp) of
                None \<Rightarrow> (Fail (new_err BadRequest), p1)
              | Some content \<Rightarrow>
                  (let f1 = (if ci_has_progress inp then f else f\<lparr>fm_progress := seed_progress sections\<rparr>);
                       d0 = \<lparr>doc_kind = k_name (sv_kind s), doc_path = '''', doc_fm = f1, doc_content = content\<rparr>
                   in if ci_has_progress inp \<and>
                         list_ex (\<lambda>k. \<not> has_section content k) (sorted_keys (fm_progress f)) then
                        (Fail (new_err (k_unknown_progress_key (sv_kind s))), p1)
                      else
                        (case (if fm_status f1 = ''complete'' then criteria_gate s d0 else None) of
                           Some e \<Rightarrow> (Fail e, p1)
                         | None \<Rightarrow> save s (d0\<lparr>doc_path := path_for d0 slug\<rparr>) ''create'' ''created'' p1))))))"

section \<open>The creation input\<close>

text \<open>
  The raw input is a decoded JSON object; its members are kept in key order. Numbers come
  as their text (\<open>VNumber\<close>). Synonyms become primary names, absent planning fields their empty
  defaults, managed fields are dropped, and what cannot be mapped is reported.
\<close>

type_synonym json_obj = "(string, go_val) omap"

text \<open>\<open>%v\<close> of a decoded JSON value.\<close>

fun show_val :: "go_val \<Rightarrow> string" where
  "show_val VNull = ''<nil>''"
| "show_val (VBool b) = (if b then ''true'' else ''false'')"
| "show_val (VString t) = t"
| "show_val (VNumber t) = t"
| "show_val (VInt n) = itoa_int n"
| "show_val (VFloat m k) = (case float_int m k of Some n \<Rightarrow> itoa_int n | None \<Rightarrow> '''')"
| "show_val (VList vs) = ''['' @ join_with '' '' (map show_val vs) @ '']''"
| "show_val (VMap m) = ''map['' @ join_with '' '' (map (\<lambda>(k, v). k @ '':'' @ show_val v) m) @ '']''"

text \<open>Each step takes the front matter and gives it with the problems found.\<close>

type_synonym norm_step = "json_obj \<Rightarrow> json_obj \<times> string list"

definition norm_status_field :: "service \<Rightarrow> norm_step" where
  "norm_status_field s fm =
     (case om_get fm ''status'' of
        Some (VString t) \<Rightarrow>
          if t = '''' then (om_put ''status'' (VString default_status) fm, [])
          else
            (case normalize_status (sv_cfg s) t of
               Some n \<Rightarrow> (om_put ''status'' (VString n) fm, [])
             | None \<Rightarrow> (fm, [''/frontMatter/status: unknown status '' @ quote t @ '' (known: '' @
                             join_with '', '' (status_names (sv_cfg s)) @ '')'']))
      | None \<Rightarrow> (om_put ''status'' (VString default_status) fm, [])
      | Some VNull \<Rightarrow> (om_put ''status'' (VString default_status) fm, [])
      | Some _ \<Rightarrow> (fm, []))"

definition norm_type_field :: "service \<Rightarrow> norm_step" where
  "norm_type_field s fm =
     (case om_get fm ''type'' of
        Some (VString t) \<Rightarrow>
          (case normalize_type (sv_cfg s) t of
             Some n \<Rightarrow> (om_put ''type'' (VString n) fm, [])
           | None \<Rightarrow> (fm, [''/frontMatter/type: unknown '' @ k_name (sv_kind s) @ '' type '' @ quote t @
                           '' (known: '' @ join_with '', '' (type_names (sv_cfg s)) @ '')'']))
      | _ \<Rightarrow> (fm, []))"

definition norm_priority_field :: "service \<Rightarrow> norm_step" where
  "norm_priority_field s fm =
     (case om_get fm ''priority'' of
        None \<Rightarrow> (fm, [])
      | Some v \<Rightarrow>
          if v = VNull then (fm, [])
          else
            (case normalize_priority (sv_cfg s) v of
               Some n \<Rightarrow> (om_put ''priority'' (VString n) fm, [])
             | None \<Rightarrow> (fm, [''/frontMatter/priority: unknown priority '' @ show_val v])))"

definition norm_effort_field :: "service \<Rightarrow> norm_step" where
  "norm_effort_field s fm =
     (case om_get fm ''effort'' of
        None \<Rightarrow> (fm, [])
      | Some v \<Rightarrow>
          if v = VNull \<or> v = VString '''' then (om_del ''effort'' fm, [])
          else
            (case normalize_effort (sv_cfg s) v of
               Some n \<Rightarrow> (om_put ''effort'' (VString n) fm, [])
             | None \<Rightarrow> (fm, [''/frontMatter/effort: unknown effort '' @ show_val v])))"

fun all_strings :: "go_val list \<Rightarrow> string list option" where
  "all_strings [] = Some []"
| "all_strings (VString t # vs) = map_option (Cons t) (all_strings vs)"
| "all_strings (_ # vs) = None"

definition first_bad_tag :: "string list \<Rightarrow> string" where
  "first_bad_tag ts =
     (case find (\<lambda>t. contains_any (trim_space t) blank_chars) ts of Some t \<Rightarrow> trim_space t | None \<Rightarrow> '''')"

definition norm_tags_field :: norm_step where
  "norm_tags_field fm =
     (case om_get fm ''tags'' of
        None \<Rightarrow> (om_put ''tags'' (VList []) fm, [])
      | Some VNull \<Rightarrow> (om_put ''tags'' (VList []) fm, [])
      | Some (VList vs) \<Rightarrow>
          (case all_strings vs of
             None \<Rightarrow> (fm, [])
           | Some ts \<Rightarrow>
               (case normalize_tags ts of
                  Inr t \<Rightarrow> (om_put ''tags'' (VList (map VString t)) fm, [])
                | Inl _ \<Rightarrow> (fm, [''/frontMatter/tags: BadRequest: tag '' @ quote (first_bad_tag ts) @
                                '' must not contain whitespace''])))
      | Some _ \<Rightarrow> (fm, []))"

definition norm_milestone_field :: norm_step where
  "norm_milestone_field fm =
     (case om_get fm ''milestone'' of
        None \<Rightarrow> (om_put ''milestone'' (VString '''') fm, [])
      | Some VNull \<Rightarrow> (om_put ''milestone'' (VString '''') fm, [])
      | Some (VString t) \<Rightarrow> (om_put ''milestone'' (VString (trim_space t)) fm, [])
      | Some _ \<Rightarrow> (fm, []))"

definition norm_date_field :: "string \<Rightarrow> norm_step" where
  "norm_date_field k fm =
     (case om_get fm k of
        None \<Rightarrow> (om_put k (VString '''') fm, [])
      | Some VNull \<Rightarrow> (om_put k (VString '''') fm, [])
      | Some (VString t) \<Rightarrow>
          (case normalize_date t of
             Some n \<Rightarrow> (om_put k (VString n) fm, [])
           | None \<Rightarrow> (fm, [''/frontMatter/'' @ k @ '': unrecognised date '' @ quote (trim_space t) @
                           '' (want YYYY-MM-DD)'']))
      | Some _ \<Rightarrow> (fm, []))"

definition norm_order_field :: norm_step where
  "norm_order_field fm =
     (case om_get fm ''order'' of
        None \<Rightarrow> (om_put ''order'' (VNumber ''0'') fm, [])
      | Some VNull \<Rightarrow> (om_put ''order'' (VNumber ''0'') fm, [])
      | Some (VString t) \<Rightarrow>
          (case to_int (VString t) of
             Inr n \<Rightarrow> (om_put ''order'' (VNumber (itoa_int n)) fm, [])
           | Inl _ \<Rightarrow> (fm, []))
      | Some _ \<Rightarrow> (fm, []))"

definition norm_assignee_field :: "service \<Rightarrow> norm_step" where
  "norm_assignee_field s fm =
     (if \<not> k_has_assignee (sv_kind s) then (fm, [])
      else
        (case om_get fm ''assignee'' of
           None \<Rightarrow> (fm, [])
         | Some VNull \<Rightarrow> (om_del ''assignee'' fm, [])
         | Some (VString t) \<Rightarrow>
             if t = '''' then (om_del ''assignee'' fm, [])
             else
               (case normalize_assignee t of
                  Inr a \<Rightarrow> (om_put ''assignee'' (VString a) fm, [])
                | Inl _ \<Rightarrow> (fm, [''/frontMatter/assignee: BadRequest: assignee '' @ quote (trim_space t) @
                     '' must not contain whitespace (use provider:handle, e.g. github:octocat)'']))
         | Some _ \<Rightarrow> (fm, [])))"

definition norm_planned_order :: norm_step where
  "norm_planned_order fm =
     (case (om_get fm ''planned_start'', om_get fm ''planned_end'') of
        (Some (VString a), Some (VString b)) \<Rightarrow>
          if a \<noteq> '''' \<and> b \<noteq> '''' \<and> b < a then
            (fm, [''/frontMatter/planned_end: '' @ b @ '' is before planned_start '' @ a])
          else (fm, [])
      | _ \<Rightarrow> (fm, []))"

definition drop_managed :: norm_step where
  "drop_managed fm =
     (fold om_del [''created'', ''updated'', ''started'', ''completed''] fm, [])"

text \<open>A top-level plans list is merged into \<open>links.plans\<close>, the legacy entries first.\<close>

definition merge_legacy_plans :: norm_step where
  "merge_legacy_plans fm =
     (case om_get fm ''plans'' of
        None \<Rightarrow> (fm, [])
      | Some legacy \<Rightarrow>
          (let links0 = (case om_get fm ''links'' of None \<Rightarrow> Some [] | Some VNull \<Rightarrow> Some []
                         | Some (VMap m) \<Rightarrow> Some m | Some _ \<Rightarrow> None)
           in case links0 of
                None \<Rightarrow> (fm, [])
              | Some links \<Rightarrow>
                  (let old = (case legacy of VList l \<Rightarrow> Some l | _ \<Rightarrow> None);
                       merged = (case om_get links ''plans'' of
                                   Some (VList c) \<Rightarrow>
                                     (if old = None \<and> c = [] then None
                                      else Some ((case old of None \<Rightarrow> [] | Some l \<Rightarrow> l) @ c))
                                 | _ \<Rightarrow> old);
                       plans = (case merged of Some l \<Rightarrow> VList l | None \<Rightarrow> legacy)
                   in (om_put ''links'' (VMap (om_put ''plans'' plans links)) (om_del ''plans'' fm), []))))"

definition norm_progress_val :: "service \<Rightarrow> go_val \<Rightarrow> go_val" where
  "norm_progress_val s v =
     (case v of
        VMap e \<Rightarrow>
          (let e1 = (case om_get e ''status'' of
                       Some (VString st) \<Rightarrow>
                         (case normalize_status (sv_cfg s) st of Some n \<Rightarrow> om_put ''status'' (VString n) e | None \<Rightarrow> e)
                     | _ \<Rightarrow> e);
               e2 = (case om_get e1 ''stories'' of
                       Some (VList ss) \<Rightarrow>
                         om_put ''stories''
                           (VList (map (\<lambda>x. case x of VString t \<Rightarrow> VString (normalize_id t) | _ \<Rightarrow> x) ss)) e1
                     | _ \<Rightarrow> e1)
           in VMap e2)
      | _ \<Rightarrow> v)"

definition norm_progress_field :: "service \<Rightarrow> norm_step" where
  "norm_progress_field s fm =
     (case om_get fm ''progress'' of
        Some (VMap m) \<Rightarrow> (om_put ''progress'' (VMap (om_map (norm_progress_val s) m)) fm, [])
      | _ \<Rightarrow> (fm, []))"

definition norm_tuple :: "go_val \<Rightarrow> go_val" where
  "norm_tuple v =
     (case v of VList (VString t # r) \<Rightarrow> VList (VString (normalize_id t) # r) | _ \<Rightarrow> v)"

definition norm_link_list :: "string \<Rightarrow> json_obj \<Rightarrow> json_obj" where
  "norm_link_list k m =
     (case om_get m k of Some (VList l) \<Rightarrow> om_put k (VList (map norm_tuple l)) m | _ \<Rightarrow> m)"

definition norm_links_field :: norm_step where
  "norm_links_field fm =
     (case om_get fm ''links'' of
        Some (VMap m) \<Rightarrow> (om_put ''links'' (VMap (norm_link_list ''plans'' (norm_link_list ''stories'' m))) fm, [])
      | _ \<Rightarrow> (fm, []))"

definition run_steps :: "norm_step list \<Rightarrow> json_obj \<Rightarrow> json_obj \<times> string list" where
  "run_steps steps fm =
     fold (\<lambda>f (m, ps). case f m of (m', qs) \<Rightarrow> (m', ps @ qs)) steps (fm, [])"

definition input_steps :: "service \<Rightarrow> norm_step list" where
  "input_steps s =
     [norm_status_field s, norm_type_field s, norm_priority_field s, norm_effort_field s, norm_tags_field,
      norm_milestone_field, norm_date_field ''due_date'', norm_date_field ''planned_start'',
      norm_date_field ''planned_end'', norm_order_field, norm_assignee_field s, norm_planned_order,
      drop_managed, merge_legacy_plans, norm_progress_field s, norm_links_field]"

text \<open>The input must be an object with a front matter object.\<close>

definition normalize_create_input :: "service \<Rightarrow> go_val option \<Rightarrow> json_obj \<times> string list" where
  "normalize_create_input s input =
     (case input of
        Some (VMap raw) \<Rightarrow>
          (case om_get raw ''frontMatter'' of
             Some (VMap fm) \<Rightarrow>
               (case run_steps (input_steps s) fm of
                  (fm', ps) \<Rightarrow> (om_put ''frontMatter'' (VMap fm') raw, ps))
           | _ \<Rightarrow> (raw, [''/frontMatter: required'']))
      | Some VNull \<Rightarrow> ([], [''/frontMatter: required''])
      | _ \<Rightarrow> ([], [''/: input must be a JSON object'']))"

text \<open>The stamps the schema will ask for of a document created as started or complete.\<close>

definition supply_stamps :: "service \<Rightarrow> string \<Rightarrow> json_obj \<Rightarrow> json_obj" where
  "supply_stamps s now raw =
     (case om_get raw ''frontMatter'' of
        Some (VMap fm) \<Rightarrow>
          (let fm1 = (if om_get fm ''status'' = Some (VString ''in_progress'') \<and> k_tracks_started (sv_kind s)
                      then om_put ''started'' (VString now) fm else fm);
               fm2 = (if om_get fm1 ''status'' = Some (VString ''complete'')
                      then om_put ''completed'' (VString now) fm1 else fm1)
           in om_put ''frontMatter'' (VMap fm2) raw)
      | _ \<Rightarrow> raw)"

definition create :: "create_env \<Rightarrow> service \<Rightarrow> go_val option \<Rightarrow> string \<Rightarrow> palace \<Rightarrow> document outcome \<times> palace" where
  "create env s input template_id p =
     (case normalize_create_input s input of
        (raw, problems) \<Rightarrow>
          if problems \<noteq> [] then (Fail (err_with ValidationError problems), p)
          else
            (case timestamp p of
               (now, p1) \<Rightarrow>
                 (let v = VMap (supply_stamps s now raw); ps = ce_schema env v
                  in if ps \<noteq> [] then (Fail (err_with ValidationError ps), p1)
                     else
                       (case ce_decode env v of
                          None \<Rightarrow> (Fail (new_err BadRequest), p1)
                        | Some inp \<Rightarrow>
                            (case ce_sections env (ci_body inp) of
                               None \<Rightarrow> (Fail (new_err BadRequest), p1)
                             | Some sections \<Rightarrow>
                                 (case get_template (ce_builtin env) s template_id p1 of
                                    Inl e \<Rightarrow> (Fail e, p1)
                                  | Inr tmpl \<Rightarrow> create_document env s inp sections tmpl now p1))))))"

section \<open>Reading and listing\<close>

definition get_front_matter :: "service \<Rightarrow> string \<Rightarrow> palace \<Rightarrow> svc_error + front_matter" where
  "get_front_matter s i p = map_sum id doc_fm (resolve s i p)"

definition get_content :: "service \<Rightarrow> string \<Rightarrow> palace \<Rightarrow> svc_error + string" where
  "get_content s i p = map_sum id doc_content (resolve s i p)"

record list_filter =
  lf_type :: string
  lf_status :: string
  lf_priority :: string
  lf_plan :: string
  lf_story :: string
  lf_tag :: string
  lf_milestone :: string
  lf_assignee :: string
  lf_include_archived :: bool

definition has_tag :: "front_matter \<Rightarrow> string \<Rightarrow> bool" where
  "has_tag f t \<longleftrightarrow> t \<in> set (fm_tags f)"

definition has_plan_link :: "front_matter \<Rightarrow> string \<Rightarrow> bool" where
  "has_plan_link f i \<longleftrightarrow> list_ex (\<lambda>l. link_id l = i) (plan_links f)"

definition has_story :: "front_matter \<Rightarrow> string \<Rightarrow> bool" where
  "has_story f i \<longleftrightarrow>
     list_ex (\<lambda>l. link_id l = i) (story_links f) \<or>
     list_ex (\<lambda>e. i \<in> set (pe_stories (snd e))) (fm_progress f)"

text \<open>The filter with its names made primary; \<open>None\<close> for an unknown one.\<close>

definition primary_or_none :: "(string \<Rightarrow> string option) \<Rightarrow> string \<Rightarrow> string option" where
  "primary_or_none f s = (if s = '''' then Some '''' else f s)"

definition normalize_filter :: "service \<Rightarrow> list_filter \<Rightarrow> list_filter option" where
  "normalize_filter s f =
     (case (primary_or_none (normalize_type (sv_cfg s)) (lf_type f),
            primary_or_none (normalize_status (sv_cfg s)) (lf_status f),
            primary_or_none (\<lambda>x. normalize_priority (sv_cfg s) (VString x)) (lf_priority f)) of
        (Some t, Some st, Some pr) \<Rightarrow>
          Some (f\<lparr>lf_type := t, lf_status := st, lf_priority := pr,
                  lf_story := if lf_story f = '''' then '''' else normalize_id (lf_story f),
                  lf_plan := if lf_plan f = '''' then '''' else normalize_id (lf_plan f)\<rparr>)
      | _ \<Rightarrow> None)"

definition filter_matches :: "list_filter \<Rightarrow> front_matter \<Rightarrow> bool" where
  "filter_matches f m \<longleftrightarrow>
     (lf_type f = '''' \<or> fm_type m = lf_type f) \<and>
     (lf_status f = '''' \<or> fm_status m = lf_status f) \<and>
     (lf_status f \<noteq> '''' \<or> lf_include_archived f \<or> fm_status m \<noteq> ''archived'') \<and>
     (lf_priority f = '''' \<or> fm_priority m = lf_priority f) \<and>
     (lf_plan f = '''' \<or> has_plan_link m (lf_plan f)) \<and>
     (lf_story f = '''' \<or> has_story m (lf_story f)) \<and>
     (lf_tag f = '''' \<or> has_tag m (lf_tag f)) \<and>
     (lf_milestone f = '''' \<or> fm_milestone m = lf_milestone f) \<and>
     (lf_assignee f = '''' \<or> fm_assignee m = lf_assignee f)"

definition list_documents :: "service \<Rightarrow> list_filter \<Rightarrow> palace \<Rightarrow> svc_error + summary list" where
  "list_documents s f0 p =
     (case normalize_filter s f0 of
        None \<Rightarrow> Inl (new_err BadRequest)
      | Some f \<Rightarrow>
          (case list_docs p (k_name (sv_kind s)) of
             Inl _ \<Rightarrow> Inl storage_err
           | Inr docs \<Rightarrow>
               Inr (sort_key (\<lambda>m. fm_id (sm_fm m))
                 (map (\<lambda>d. \<lparr>sm_kind = k_name (sv_kind s), sm_path = doc_path d,
                            sm_fm = fm_normalize_dates (doc_fm d)\<rparr>)
                   (filter (\<lambda>d. filter_matches f (doc_fm d)) docs)))))"

section \<open>Replacing the content\<close>

fun trim_bom :: "nat \<Rightarrow> string \<Rightarrow> string" where
  "trim_bom 0 s = s"
| "trim_bom (Suc n) s = (case strip_prefix bom s of Some r \<Rightarrow> trim_bom n r | None \<Rightarrow> s)"

text \<open>A whole document supplied as content is reduced to its body.\<close>

definition body_of :: "string \<Rightarrow> string" where
  "body_of content =
     (if has_prefix (trim_bom (length content) content) (''---'' @ [nl]) then
        (case split_doc content of Some (_, body) \<Rightarrow> body | None \<Rightarrow> content)
      else content)"

definition update_document :: "service \<Rightarrow> string \<Rightarrow> string \<Rightarrow> palace \<Rightarrow> document outcome \<times> palace" where
  "update_document s identifier content0 =
     edit_with s identifier ''update'' (pure_edit (\<lambda>d p.
       (let content = body_of content0;
            orphans = filter (\<lambda>k. \<not> has_section content k) (sorted_keys (fm_progress (doc_fm d)))
        in if k_strict_progress (sv_kind s) \<and> orphans \<noteq> [] then
             Inl (err_with (k_unknown_progress_key (sv_kind s)) orphans)
           else Inr (Some (d\<lparr>doc_content := content\<rparr>)))))"

section \<open>Deleting a document\<close>

definition links_to :: "service \<Rightarrow> string \<Rightarrow> service \<Rightarrow> document \<Rightarrow> bool" where
  "links_to s i other d \<longleftrightarrow>
     \<not> (k_name (sv_kind other) = k_name (sv_kind s) \<and> doc_id d = i) \<and>
     (if k_name (sv_kind s) = ''story'' then has_story (doc_fm d) i else has_plan_link (doc_fm d) i)"

fun linked_names :: "service \<Rightarrow> string \<Rightarrow> service list \<Rightarrow> palace \<Rightarrow> svc_error + string list" where
  "linked_names s i [] p = Inr []"
| "linked_names s i (other # os) p =
     (case list_docs p (k_name (sv_kind other)) of
        Inl _ \<Rightarrow> Inl storage_err
      | Inr docs \<Rightarrow>
          map_sum id
            (append (map (\<lambda>d. k_name (sv_kind other) @ '' '' @ doc_id d) (filter (links_to s i other) docs)))
            (linked_names s i os p))"

definition linked_by :: "service \<Rightarrow> string \<Rightarrow> palace \<Rightarrow> svc_error + string list" where
  "linked_by s i p = map_sum id sort (linked_names s i (palace_services p) p)"

record delete_result =
  dr_kind :: string
  dr_id :: string
  dr_path :: string
  dr_linked_by :: "string list"

definition delete_document :: "service \<Rightarrow> string \<Rightarrow> bool \<Rightarrow> palace \<Rightarrow> delete_result outcome \<times> palace" where
  "delete_document s identifier force p =
     (case resolve s identifier p of
        Inl e \<Rightarrow> (Fail e, p)
      | Inr d \<Rightarrow>
          (case linked_by s (doc_id d) p of
             Inl e \<Rightarrow> (Fail e, p)
           | Inr linked \<Rightarrow>
               if linked \<noteq> [] \<and> \<not> force then (Fail (err_with (k_linked_error (sv_kind s)) linked), p)
               else
                 (let res = \<lparr>dr_kind = k_name (sv_kind s), dr_id = doc_id d, dr_path = doc_path d, dr_linked_by = linked\<rparr>
                  in case so_delete palace_ops (k_name (sv_kind s)) (doc_id d) (pl_store p) of
                       (m, None) \<Rightarrow> (Done res, publish_event s ''deleted'' d ''delete'' (p\<lparr>pl_store := m\<rparr>))
                     | (m, Some e) \<Rightarrow>
                         if is_fanout e then
                           (Partial res partial_err, publish_event s ''deleted'' d ''delete'' (p\<lparr>pl_store := m\<rparr>))
                         else (Fail storage_err, p\<lparr>pl_store := m\<rparr>))))"

section \<open>Validating a document\<close>

record validation_report =
  vr_kind :: string
  vr_id :: string
  vr_path :: string
  vr_problems :: "string list"

definition missing_links :: "service \<Rightarrow> string \<Rightarrow> string \<Rightarrow> link list \<Rightarrow> palace \<Rightarrow> string list" where
  "missing_links target field noun ls p =
     map (\<lambda>l. ''/links/'' @ field @ '': linked '' @ noun @ '' '' @ link_id l @ '' does not exist'')
       (filter (\<lambda>l. doc_exists target (link_id l) p = Inr False) ls)"

definition validate_document :: "service \<Rightarrow> string \<Rightarrow> palace \<Rightarrow> svc_error + validation_report" where
  "validate_document s identifier p =
     (case resolve s identifier p of
        Inl e \<Rightarrow> Inl e
      | Inr d0 \<Rightarrow>
          (let (d, ps) = check s d0;
               ps1 = ps @ map (\<lambda>k. ''/progress/'' @ k @ '': no numbered heading '' @ quote k @ '' in the content'')
                            (filter (\<lambda>k. \<not> has_section (doc_content d) k) (sorted_keys (fm_progress (doc_fm d))));
               ps2 = ps1 @ missing_links (pl_plans p) ''plans'' ''plan'' (plan_links (doc_fm d)) p;
               ps3 = (if k_link_targets_must_exist (sv_kind s) \<and> k_name (sv_kind s) = ''story''
                      then ps2 @ missing_links s ''stories'' ''story'' (story_links (doc_fm d)) p else ps2);
               ps4 = (if k_criteria_gate (sv_kind s) then ps3 @ criteria_problems (doc_content d) else ps3)
           in Inr \<lparr>vr_kind = k_name (sv_kind s), vr_id = doc_id d, vr_path = doc_path d, vr_problems = sort ps4\<rparr>))"

interpretation update_document: document_operation s "update_document s i c" for s i c
  unfolding update_document_def Let_def by (intro edit_operation safe_pure_edit) (auto split: if_splits)

section \<open>Facts: allocating an id\<close>

lemma fold_max: "fold (\<lambda>d n. if n < f d then f d else n) ds m = fold max (map f ds) (m :: int)"
  by (induction ds arbitrary: m) (simp_all add: max_def)

lemma fold_max_ge: "m \<le> fold max xs (m :: int)"
proof (induction xs arbitrary: m)
  case (Cons x xs)
  then show ?case using Cons [of "max x m"] by (simp, linarith)
qed simp

lemma fold_max_mem: "x \<in> set xs \<Longrightarrow> x \<le> fold max xs (m :: int)"
proof (induction xs arbitrary: m)
  case (Cons y ys)
  then show ?case using fold_max_ge [of "max y m" ys] by auto
qed simp

lemma next_sequence_gt: "d \<in> set docs \<Longrightarrow> sequence_of (doc_id d) < next_sequence docs"
  using fold_max_mem [of "sequence_of (doc_id d)" "map (\<lambda>d. sequence_of (doc_id d)) docs" 0]
  by (simp add: next_sequence_def fold_max)

lemma next_sequence_pos: "1 \<le> next_sequence docs"
  using fold_max_ge [of 0 "map (\<lambda>d. sequence_of (doc_id d)) docs"]
  by (simp add: next_sequence_def fold_max)

lemma sequence_of_id:
  assumes "0 \<le> seq" "seq \<le> 9999"
  shows "sequence_of (sequence_id seq sfx) = seq"
  using sequence_of_padded [of "nat seq"] assms by (simp add: sequence_id_def)

text \<open>A fresh sequence number makes the first draw a free id.\<close>

lemma draw_free_first:
  assumes "next_sequence docs \<le> 9999"
  shows "draw_free (Suc n) (next_sequence docs) (map doc_id docs) p =
    (Some (sequence_id (next_sequence docs) (pl_random p (pl_draws p))), p\<lparr>pl_draws := Suc (pl_draws p)\<rparr>)"
proof -
  have "sequence_id (next_sequence docs) sfx \<noteq> doc_id d" if "d \<in> set docs" for d sfx
    using next_sequence_gt [OF that] sequence_of_id [of "next_sequence docs" sfx] next_sequence_pos [of docs] assms
    by auto
  then show ?thesis by (auto simp: draw_id_def)
qed

lemma allocate_id_quiet:
  assumes "allocate_id s r p = (x, p')"
  shows "quiet p p'"
proof -
  have "quiet p p'" if "draw_free n seq used p = (y, p')" for n seq used y
    using that
    by (induction n seq used p rule: draw_free.induct)
      (auto simp: draw_quiet quiet_trans split: prod.splits if_splits dest: draw_quiet)
  then show ?thesis
    using assms by (auto simp: allocate_id_def Let_def split: sum.splits if_splits option.splits prod.splits)
qed

lemma allocate_id_unused:
  assumes "allocate_id s r p = (Inr i, p')"
  obtains docs where "list_docs p (k_name (sv_kind s)) = Inr docs" "i \<notin> doc_id ` set docs"
proof -
  have free: "i \<notin> set used" if "draw_free n seq used p = (Some i, p')" for n seq used
    using that by (induction n seq used p rule: draw_free.induct) (auto split: prod.splits if_splits)
  obtain docs where docs: "list_docs p (k_name (sv_kind s)) = Inr docs"
    using assms by (auto simp: allocate_id_def split: sum.splits)
  then have "i \<notin> set (map doc_id docs)"
    using assms free [of 100 "next_sequence docs" "map doc_id docs"]
    by (auto simp: allocate_id_def Let_def split: if_splits option.splits prod.splits)
  then show ?thesis using that [OF docs] by simp
qed

lemma list_docs_lookup:
  assumes "palace_wf p" "list_docs p k = Inr docs"
  shows "lookup p k i = Inr d \<longleftrightarrow> d \<in> set docs \<and> doc_id d = i"
  using mem.list_iff [of "mu_primary (pl_store p)" k docs] assms mem.get_key [of "mu_primary (pl_store p)" k i d]
  by (auto simp: lookup_eq list_docs_eq palace_wf_def)

lemma lookup_missing: "lookup p k i = Inl e \<Longrightarrow> e = ErrNotFound"
  using mem.get_error by (simp add: lookup_eq)

lemma lookup_unused:
  assumes "palace_wf p" "list_docs p k = Inr docs" "i \<notin> doc_id ` set docs"
  shows "lookup p k i = Inl ErrNotFound"
  using list_docs_lookup [OF assms(1,2), of i] assms(3) lookup_missing [of p k i]
  by (cases "lookup p k i") (auto dest: sym)

lemma id_re_sequence:
  assumes "1 \<le> seq" "seq \<le> 9999" "length sfx = 3" "list_all is_lower_alnum sfx"
  shows "id_re (sequence_id seq sfx)"
proof -
  have "length (itoa (nat seq)) \<le> 4"
    using length_itoa [of "nat seq" 3] assms by simp
  then show ?thesis
    using id_re_pad [of "itoa (nat seq)" sfx] assms by (simp add: sequence_id_def)
qed
text \<open>Allocation never fails while numbers are left, and never collides: without a requested id the
  new id is the next sequence number with the suffix drawn first, no document of the kind has
  it, and its number exceeds that of every document of the kind.\<close>

theorem allocate_id_exact:
  assumes "palace_wf p" "list_docs p (k_name (sv_kind s)) = Inr docs" "next_sequence docs \<le> 9999"
  shows "\<exists>i. allocate_id s '''' p = (Inr i, p\<lparr>pl_draws := Suc (pl_draws p)\<rparr>) \<and>
    i = sequence_id (next_sequence docs) (pl_random p (pl_draws p)) \<and>
    lookup p (k_name (sv_kind s)) i = Inl ErrNotFound \<and>
    (\<forall>j d. lookup p (k_name (sv_kind s)) j = Inr d \<longrightarrow> sequence_of j < sequence_of i)"
proof -
  define i where "i = sequence_id (next_sequence docs) (pl_random p (pl_draws p))"
  have a: "allocate_id s '''' p = (Inr i, p\<lparr>pl_draws := Suc (pl_draws p)\<rparr>)"
    using draw_free_first [OF assms(3), of 99 p] assms(2,3)
    by (simp add: allocate_id_def Let_def i_def)
  have n: "sequence_of i = next_sequence docs"
    using sequence_of_id next_sequence_pos [of docs] assms(3) by (simp add: i_def)
  have "i \<notin> doc_id ` set docs"
    using allocate_id_unused [OF a] assms(2) by (metis Inr_inject)
  then have "lookup p (k_name (sv_kind s)) i = Inl ErrNotFound"
    by (rule lookup_unused [OF assms(1,2)])
  moreover have "sequence_of j < sequence_of i" if "lookup p (k_name (sv_kind s)) j = Inr d" for j d
    using that list_docs_lookup [OF assms(1,2)] next_sequence_gt n by metis
  ultimately show ?thesis using a i_def by blast
qed

section \<open>Facts: creating a document\<close>

lemma get_service_list:
  assumes "palace_wf p" "is_service p s"
  obtains docs where "list_docs p (k_name (sv_kind s)) = Inr docs"
proof -
  have "get_kind ''plan'' \<noteq> None" "get_kind ''story'' \<noteq> None" by code_simp+
  then have "get_kind (k_name (sv_kind s)) \<noteq> None"
    using is_service_kind [OF assms] by auto
  then show ?thesis using that mem.list_kind by (fastforce simp: list_docs_eq)
qed

lemma is_service_env: "is_service p s \<Longrightarrow> same_env p p' \<Longrightarrow> is_service p' s"
  by (simp add: is_service_def same_env_def)

lemma create_document_cases:
  assumes "create_document env s inp sections tmpl now p = (r, p')"
  obtains (failed) e where "r = Fail e" "quiet p p'"
    | (saved) d q docs where "quiet p q" "list_docs p (k_name (sv_kind s)) = Inr docs"
        "doc_id d \<notin> doc_id ` set docs" "fm_created (doc_fm d) = now"
        "save s d ''create'' ''created'' q = (r, p')"
proof -
  obtain x q where a: "allocate_id s (fm_id (ci_fm inp)) p = (x, q)" by fastforce
  note q = allocate_id_quiet [OF a]
  let ?links = "case first_err (\<lambda>l. check_plan_link s '''' l p) (plan_links (ci_fm inp)) of
      Some e \<Rightarrow> Some e
    | None \<Rightarrow> first_err (\<lambda>l. check_story_link s '''' l p) (story_links (ci_fm inp))"
  show ?thesis
  proof (cases ?links)
    case (Some e)
    then show ?thesis using assms failed by (auto simp: create_document_def split: option.splits)
  next
    case None
    note c = assms [unfolded create_document_def]
    show ?thesis
    proof (cases x)
      case (Inl e)
      then show ?thesis using c None a q failed by (auto split: option.splits)
    next
      case (Inr i)
      obtain docs where docs: "list_docs p (k_name (sv_kind s)) = Inr docs" "i \<notin> doc_id ` set docs"
        by (rule allocate_id_unused [OF a [unfolded Inr]])
      define g where "g = created_fm s i now (ci_fm inp)"
      define slug where "slug = (if ci_slug inp = '''' then slugify (fm_title g) else ci_slug inp)"
      define g1 where "g1 = (if ci_has_progress inp then g else g\<lparr>fm_progress := seed_progress sections\<rparr>)"
      have g1: "fm_id g1 = i" "fm_created g1 = now" by (simp_all add: g1_def g_def created_fm_def)
      show ?thesis
      proof (cases "ce_render env (tm_content tmpl) i g (ci_body inp)")
        case None
        then show ?thesis using c \<open>?links = None\<close> a q Inr failed
          by (auto simp: Let_def g_def split: option.splits)
      next
        case (Some content)
        define d0 where "d0 = \<lparr>doc_kind = k_name (sv_kind s), doc_path = '''', doc_fm = g1, doc_content = content\<rparr>"
        have "(\<exists>e. r = Fail e \<and> p' = q) \<or>
            save s (d0\<lparr>doc_path := path_for d0 slug\<rparr>) ''create'' ''created'' q = (r, p')"
          using c \<open>?links = None\<close> a Inr Some
          unfolding Let_def g_def [symmetric] slug_def [symmetric] g1_def [symmetric] d0_def [symmetric]
          by (auto simp: d0_def g_def slug_def g1_def Let_def split: option.splits if_splits)
        then show ?thesis
          using failed saved [OF q docs(1), of "d0\<lparr>doc_path := path_for d0 slug\<rparr>"] docs(2) q g1
          by (auto simp: d0_def doc_id_def)
      qed
    qed
  qed
qed

text \<open>What a document that was added looks like from outside.\<close>

definition added :: "service \<Rightarrow> palace \<Rightarrow> document \<Rightarrow> palace \<Rightarrow> bool" where
  "added s p d p' \<longleftrightarrow>
     lookup p (k_name (sv_kind s)) (doc_id d) = Inl ErrNotFound \<and> valid_doc s d \<and>
     fm_updated (doc_fm d) = fm_created (doc_fm d) \<and>
     lookup p' = (\<lambda>k i. if k = k_name (sv_kind s) \<and> i = doc_id d then Inr d else lookup p k i)"

lemma save_created_stamps:
  assumes "save s d op ''created'' q = (r, p')" "r = Done d' \<or> r = Partial d' e"
  shows "fm_updated (doc_fm d') = fm_created (doc_fm d')"
  using assms(1)
proof (cases rule: save_cases)
  case (written x u p1 m w)
  have "d' = save_form s d (fm_created (doc_fm d))"
    using written(2,4,8) assms(2) by (auto split: option.splits)
  then show ?thesis
    by (simp add: save_form_def check_fst stamped_def fm_canonical_def fm_normalize_ids_def
        fm_normalize_dates_def fm_normalize_timestamps_def)
qed (use assms(2) in auto)

lemma create_document_effect:
  assumes "palace_wf p" "is_service p s" "create_document env s inp sections tmpl now p = (r, p')"
  shows "palace_wf p' \<and> same_env p p' \<and>
    (case r of Fail e \<Rightarrow> quiet p p' | Done d \<Rightarrow> added s p d p' | Partial d e \<Rightarrow> added s p d p')"
  using assms(3)
proof (cases rule: create_document_cases)
  case (failed e)
  then show ?thesis using palace_wf_quiet [OF failed(2) assms(1)] quiet_env by simp
next
  case (saved d q docs)
  note sv = save_updated [OF assms(1,2) saved(1,5)]
  have "lookup p (k_name (sv_kind s)) (doc_id d) = Inl ErrNotFound"
    by (rule lookup_unused [OF assms(1) saved(2,3)])
  then show ?thesis
    using sv save_created_stamps [OF saved(5)] by (auto simp: added_def split: outcome.splits)
qed

lemma create_cases:
  assumes "create env s input tid p = (r, p')"
  obtains (failed) e where "r = Fail e" "quiet p p'"
    | (made) p1 inp sections tmpl where "timestamp p = (fst (timestamp p), p1)"
        "create_document env s inp sections tmpl (fst (timestamp p)) p1 = (r, p')"
proof -
  obtain now p1 where t: "timestamp p = (now, p1)" by fastforce
  note q = timestamp_quiet [OF t]
  show ?thesis
    using assms failed made [unfolded t] q
    by (auto simp: create_def t Let_def split: prod.splits if_splits option.splits sum.splits)
qed

lemma create_effect:
  assumes "palace_wf p" "is_service p s" "create env s input tid p = (r, p')"
  shows "palace_wf p' \<and>
    (case r of Fail e \<Rightarrow> quiet p p' | Done d \<Rightarrow> added s p d p' | Partial d e \<Rightarrow> added s p d p')"
  using assms(3)
proof (cases rule: create_cases)
  case (failed e)
  then show ?thesis using palace_wf_quiet [OF failed(2) assms(1)] by simp
next
  case (made p1 inp sections tmpl)
  have q: "quiet p p1" using timestamp_quiet made(1) by blast
  have "lookup p1 = lookup p" using quiet_lookup [OF q] by (simp add: fun_eq_iff)
  then have "added s p1 d p' \<Longrightarrow> added s p d p'" for d
    by (simp add: added_def fun_eq_iff)
  then show ?thesis
    using create_document_effect [OF palace_wf_quiet [OF q assms(1)] is_service_env [OF assms(2) quiet_env [OF q]] made(2)]
      quiet_trans [OF q] by (auto split: outcome.splits)
qed

text \<open>C26. Creating either adds exactly one document or changes none: a failed creation leaves every
  document, copy and the event bus alone; otherwise the new document is valid for its kind,
  is stored under an id that had no document, carries the same creation and update time, and
  every other document is as it was. The palace stays well formed.\<close>

theorem create_adds_one:
  assumes "palace_wf p" "is_service p s" "create env s input tid p = (r, p')"
  shows "palace_wf p' \<and>
    (case r of Fail e \<Rightarrow> quiet p p' | Done d \<Rightarrow> added s p d p' | Partial d e \<Rightarrow> added s p d p')"
  using assms by (rule create_effect)

section \<open>Facts: deleting a document\<close>

text \<open>\<open>other\<close> of kind \<open>k\<close> names document \<open>i\<close> as a target of its links or progress entries.\<close>

definition names_doc :: "service \<Rightarrow> string \<Rightarrow> document \<Rightarrow> bool" where
  "names_doc s i other \<longleftrightarrow>
     (if k_name (sv_kind s) = ''story'' then has_story (doc_fm other) i else has_plan_link (doc_fm other) i)"

lemma linked_names_mem:
  assumes "palace_wf p" "linked_names s i svs p = Inr names"
  shows "names = [] \<longleftrightarrow> (\<forall>o1 \<in> set svs. \<forall>j d. lookup p (k_name (sv_kind o1)) j = Inr d \<longrightarrow> \<not> links_to s i o1 d)"
  using assms(2)
proof (induction svs arbitrary: names)
  case (Cons other svs)
  obtain docs where docs: "list_docs p (k_name (sv_kind other)) = Inr docs"
    using Cons.prems by (auto split: sum.splits)
  obtain rest where rest: "linked_names s i svs p = Inr rest"
    using Cons.prems docs by (cases "linked_names s i svs p") auto
  have "names = map (\<lambda>d. k_name (sv_kind other) @ '' '' @ doc_id d) (filter (links_to s i other) docs) @ rest"
    using Cons.prems docs rest by simp
  moreover have "filter (links_to s i other) docs = [] \<longleftrightarrow>
      (\<forall>j d. lookup p (k_name (sv_kind other)) j = Inr d \<longrightarrow> \<not> links_to s i other d)"
    using list_docs_lookup [OF assms(1) docs] by (auto simp: filter_empty_conv)
  ultimately show ?case using Cons.IH [OF rest] by auto
qed simp

text \<open>No other document links to it.\<close>

definition unlinked :: "service \<Rightarrow> string \<Rightarrow> palace \<Rightarrow> bool" where
  "unlinked s i p \<longleftrightarrow>
     (\<forall>k j d. lookup p k j = Inr d \<and> (k \<noteq> k_name (sv_kind s) \<or> j \<noteq> i) \<longrightarrow> \<not> names_doc s i d)"

lemma linked_by_iff:
  assumes "palace_wf p" "linked_by s i p = Inr names"
  shows "names = [] \<longleftrightarrow> unlinked s i p"
proof -
  obtain ns where ns: "linked_names s i (palace_services p) p = Inr ns" "names = sort ns"
    using assms(2) by (cases "linked_names s i (palace_services p) p") (auto simp: linked_by_def)
  have kinds: "k_name (sv_kind (pl_plans p)) = ''plan''" "k_name (sv_kind (pl_stories p)) = ''story''"
    using assms(1) by (simp_all add: palace_wf_def plan_kind_def story_kind_def)
  have eq: "links_to s i o1 d \<longleftrightarrow> (k_name (sv_kind o1) \<noteq> k_name (sv_kind s) \<or> j \<noteq> i) \<and> names_doc s i d"
    if "lookup p (k_name (sv_kind o1)) j = Inr d" for o1 j d
    using palace_wf_lookup [OF assms(1) that] by (auto simp: links_to_def names_doc_def)
  have found: "\<exists>o1 \<in> set (palace_services p). k_name (sv_kind o1) = k" if "lookup p k j = Inr d" for k j d
    using palace_wf_lookup [OF assms(1) that] kinds by (auto simp: palace_services_def)
  have "unlinked s i p \<longleftrightarrow> (\<forall>o1 \<in> set (palace_services p). \<forall>j d.
      lookup p (k_name (sv_kind o1)) j = Inr d \<longrightarrow> \<not> links_to s i o1 d)" (is "_ = ?R")
  proof
    assume "unlinked s i p"
    then show ?R using eq unfolding unlinked_def by blast
  next
    assume r: ?R
    show "unlinked s i p"
      unfolding unlinked_def using found r eq by blast
  qed
  then show ?thesis using linked_names_mem [OF assms(1) ns(1)] ns(2) by simp
qed

definition removed :: "service \<Rightarrow> palace \<Rightarrow> string \<Rightarrow> palace \<Rightarrow> bool" where
  "removed s p i p' \<longleftrightarrow>
     (\<exists>d. lookup p (k_name (sv_kind s)) i = Inr d) \<and>
     lookup p' = (\<lambda>k j. if k = k_name (sv_kind s) \<and> j = i then Inl ErrNotFound else lookup p k j)"

lemma palace_wf_delete:
  assumes "palace_wf p" "so_delete palace_ops k i (pl_store p) = (m, w)" "accepted w" "same_env p p'" "pl_store p' = m"
  shows "palace_wf p'"
    and "lookup p' = (\<lambda>k' j. if k' = k \<and> j = i then Inl ErrNotFound else lookup p k' j)"
proof -
  have inv: "mem_inv (mu_primary (pl_store p))" using assms(1) by (simp add: palace_wf_def)
  show l: "lookup p' = (\<lambda>k' j. if k' = k \<and> j = i then Inl ErrNotFound else lookup p k' j)"
    using multi.delete_accepted [OF inv assms(2,3)] assms(5) by (simp add: lookup_def fun_eq_iff)
  have "service_for p' = service_for p"
    using assms(4) by (simp add: same_env_def service_for_def fun_eq_iff)
  then show "palace_wf p'"
    using assms(1,4,5) l multi.delete_inv [OF inv assms(2)]
    by (auto simp: palace_wf_def same_env_def split: if_splits)
qed

lemma delete_effect:
  assumes "palace_wf p" "is_service p s" "delete_document s identifier force p = (r, p')"
  shows "palace_wf p' \<and>
    (case r of
       Fail e \<Rightarrow> quiet p p'
     | Done x \<Rightarrow> removed s p (dr_id x) p' \<and> (force \<or> unlinked s (dr_id x) p)
     | Partial x e \<Rightarrow> removed s p (dr_id x) p' \<and> (force \<or> unlinked s (dr_id x) p))"
proof (cases "resolve s identifier p")
  case (Inl e)
  then show ?thesis using assms(1,3) by (auto simp: delete_document_def)
next
  case (Inr d)
  note at = canonical_resolve [OF assms(1,2) Inr]
  show ?thesis
  proof (cases "linked_by s (doc_id d) p")
    case (Inl e)
    then show ?thesis using assms(1,3) \<open>resolve s identifier p = Inr d\<close> by (auto simp: delete_document_def)
  next
    case linked: (Inr names)
    note free = linked_by_iff [OF assms(1) linked]
    obtain m w where m: "so_delete palace_ops (k_name (sv_kind s)) (doc_id d) (pl_store p) = (m, w)" by fastforce
    note del = assms(3) [unfolded delete_document_def Inr sum.case linked Let_def m prod.case]
    show ?thesis
    proof (cases "accepted w")
      case True
      have env: "same_env p (publish_event s ''deleted'' d ''delete'' (p\<lparr>pl_store := m\<rparr>))"
        using same_env_trans [OF same_env_ticks(3) publish_event_sel(2)] by blast
      note * = palace_wf_delete [OF assms(1) m True env] palace_wf_delete [OF assms(1) m True same_env_ticks(3)]
      show ?thesis
        using del * at free True assms(1)
        by (auto simp: removed_def split: if_splits option.splits)
    next
      case False
      then have "m = pl_store p" using multi.delete_refused [OF m] by simp
      then show ?thesis using del False assms(1) by (auto simp: quiet_def same_env_def split: if_splits option.splits)
    qed
  qed
qed


section \<open>Facts: listing\<close>

lemma valid_summary:
  "valid_doc s d \<Longrightarrow>
   \<lparr>sm_kind = k_name (sv_kind s), sm_path = doc_path d, sm_fm = fm_normalize_dates (doc_fm d)\<rparr> = summarise s d"
  by (simp add: summarise_def valid_doc_dates)

text \<open>Listing gives the summaries of exactly the documents of the kind that match the filter with its
  names made primary, each once and in the order of their ids; archived documents only when
  the filter asks for them.\<close>

theorem list_documents_exact:
  assumes "palace_wf p" "is_service p s" "list_documents s f p = Inr q"
  shows "\<exists>g. normalize_filter s f = Some g \<and> sorted_wrt (<) (map (\<lambda>m. fm_id (sm_fm m)) q) \<and>
    set q = {summarise s d | d i. lookup p (k_name (sv_kind s)) i = Inr d \<and> filter_matches g (doc_fm d)}"
proof -
  obtain g where g: "normalize_filter s f = Some g"
    using assms(3) by (auto simp: list_documents_def split: option.splits)
  obtain docs where docs: "list_docs p (k_name (sv_kind s)) = Inr docs"
    by (rule get_service_list [OF assms(1,2)])
  have valid: "valid_doc s d" if "d \<in> set docs" for d
    using that list_docs_lookup [OF assms(1) docs] palace_wf_lookup [OF assms(1)] is_service_kind [OF assms(1,2)]
    by metis
  let ?ds = "filter (\<lambda>d. filter_matches g (doc_fm d)) docs"
  have sm: "map (\<lambda>d. \<lparr>sm_kind = k_name (sv_kind s), sm_path = doc_path d, sm_fm = fm_normalize_dates (doc_fm d)\<rparr>) ?ds
      = map (summarise s) ?ds"
    using valid valid_summary by (intro map_cong) auto
  have ids: "map (\<lambda>m. fm_id (sm_fm m)) (map (summarise s) ?ds) = map doc_id ?ds"
    by (simp add: summarise_def doc_id_def)
  have "sorted_wrt (<) (map doc_id docs)"
    using mem.list_sorted [of "mu_primary (pl_store p)" _ docs] assms(1) docs by (simp add: list_docs_eq palace_wf_def)
  then have st: "sorted_wrt (<) (map doc_id ?ds)"
    by (simp add: sorted_wrt_map sorted_wrt_filter)
  then have "sort_key (\<lambda>m. fm_id (sm_fm m)) (map (summarise s) ?ds) = map (summarise s) ?ds"
    using ids by (intro sort_key_id_if_sorted) (simp only: strict_sorted_iff)
  then have q: "q = map (summarise s) ?ds"
    using assms(3) g docs sm by (simp add: list_documents_def)
  show ?thesis
    using g st list_docs_lookup [OF assms(1) docs] unfolding q ids
    by (intro exI [of _ g] conjI) (auto simp: set_eq_iff)
qed

section \<open>Facts: replacing the content\<close>

lemma fm_canonical_updated:
  "fm_canonical (f\<lparr>fm_updated := u\<rparr>) = (fm_canonical f)\<lparr>fm_updated := norm_or_keep normalize_timestamp u\<rparr>"
  by (simp add: fm_canonical_def fm_normalize_ids_def fm_normalize_dates_def fm_normalize_timestamps_def)

text \<open>Replacing the content touches nothing of the front matter but \<open>updated\<close>: the new content is the
  body supplied under the title as its first heading, the path stays, and for a story every
  progress key has a numbered heading in the body supplied.\<close>

theorem update_content_only:
  assumes "palace_wf p" "is_service p s" "update_document s i c p = (Done d, p')" "resolve s i p = Inr d0"
  shows "doc_content d = set_h1 (body_of c) (fm_title (doc_fm d0)) \<and> doc_path d = doc_path d0 \<and>
    doc_fm d = (doc_fm d0)\<lparr>fm_updated := fm_updated (doc_fm d)\<rparr> \<and>
    (k_strict_progress (sv_kind s) \<longrightarrow> (\<forall>k \<in> set (om_keys (fm_progress (doc_fm d0))). has_section (body_of c) k))"
proof -
  note at = canonical_resolve [OF assms(1,2,4)]
  obtain q where sv: "save s (d0\<lparr>doc_content := body_of c\<rparr>) ''update'' ''updated'' p = (Done d, q)"
      and keys: "\<not> (k_strict_progress (sv_kind s) \<and>
        filter (\<lambda>k. \<not> has_section (body_of c) k) (sorted_keys (fm_progress (doc_fm d0))) \<noteq> [])"
    using assms(3,4)
    by (auto simp: update_document_def edit_with_def pure_edit_def Let_def split: if_splits)
  obtain u where d: "d = save_form s (d0\<lparr>doc_content := body_of c\<rparr>) u"
    using save_updated [OF assms(1,2) quiet_refl sv] by auto
  have "doc_fm d = (doc_fm d0)\<lparr>fm_updated := fm_updated (doc_fm d)\<rparr>"
    using at by (simp add: d save_form_def check_fst stamped_def fm_canonical_updated valid_doc_iff)
  then show ?thesis using keys by (auto simp: d filter_empty_conv sorted_keys_def)
qed

section \<open>Facts: validating\<close>

lemma missing_links_Nil:
  "missing_links t fld noun ls p = [] \<longleftrightarrow>
   (\<forall>l \<in> set ls. \<exists>d. lookup p (k_name (sv_kind t)) (link_id l) = Inr d)"
proof -
  have "doc_exists t i p = Inr False \<longleftrightarrow> (\<nexists>d. lookup p (k_name (sv_kind t)) i = Inr d)" for i
    using lookup_missing [of p "k_name (sv_kind t)" i]
    by (auto simp: doc_exists_def split: sum.splits if_splits)
  then show ?thesis by (auto simp: missing_links_def filter_empty_conv)
qed

text \<open>Validation of a stored document reports no problem exactly when every progress key has a
  numbered heading in the content, every linked plan exists, every linked story of a story
  exists, and the acceptance criteria of a story parse as a non-empty checklist.\<close>

theorem validate_exact:
  assumes "palace_wf p" "is_service p s" "validate_document s i p = Inr r" "resolve s i p = Inr d"
  shows "vr_id r = doc_id d \<and> (vr_problems r = [] \<longleftrightarrow>
    (\<forall>k \<in> set (om_keys (fm_progress (doc_fm d))). has_section (doc_content d) k) \<and>
    (\<forall>l \<in> set (plan_links (doc_fm d)). \<exists>x. lookup p ''plan'' (link_id l) = Inr x) \<and>
    (k_name (sv_kind s) = ''story'' \<longrightarrow>
       (\<forall>l \<in> set (story_links (doc_fm d)). \<exists>x. lookup p ''story'' (link_id l) = Inr x) \<and>
       criteria_problems (doc_content d) = []))"
proof -
  have c: "check s d = (d, [])"
    using canonical_resolve [OF assms(1,2,4)] by (simp add: valid_doc_def)
  have kinds: "k_name (sv_kind (pl_plans p)) = ''plan''"
    using assms(1) by (simp add: palace_wf_def plan_kind_def)
  have story: "k_link_targets_must_exist (sv_kind s)" "k_criteria_gate (sv_kind s) \<longleftrightarrow> k_name (sv_kind s) = ''story''"
    using assms(1,2) by (auto simp: palace_wf_def is_service_def plan_kind_def story_kind_def)
  show ?thesis
    using assms(3,4) c story kinds
    by (auto simp: validate_document_def Let_def missing_links_Nil filter_empty_conv sorted_keys_def
        split: if_splits)
qed

section \<open>Facts: templates\<close>

lemma template_event_store [simp]: "pl_store (template_event s e t p) = pl_store p"
  by (simp add: template_event_def timestamp_def)

lemma multi_template_sel:
  "so_get_template palace_ops m k i = mem_get_template (mu_primary m) k i"
  by (simp add: multi_ops_def mem_ops_def)

lemma multi_put_template_get:
  assumes "so_put_template palace_ops t m = (m', r)" "accepted r"
  shows "mem_get_template (mu_primary m') k i =
      (if k = tm_kind t \<and> i = tm_id t then Inr t else mem_get_template (mu_primary m) k i) \<and>
    mem_get (mu_primary m') = mem_get (mu_primary m)"
proof -
  obtain q r0 where q: "mem_put_template t (mu_primary m) = (q, r0)" by fastforce
  note * = fanout_accepted_iff [OF assms(1) [unfolded multi_ops_sel multi_put_template_def mem_ops_sel] q]
  have "q = (mu_primary m)\<lparr>ms_templates := om_put (tm_kind t, tm_id t) t (ms_templates (mu_primary m))\<rparr>"
    using q * assms(2) by (auto simp: mem_put_template_def check_kind_def split: option.splits if_splits)
  then show ?thesis using * by (auto simp: mem_get_template_def mem_get_def fun_eq_iff)
qed

text \<open>A template that was created is served back: with its content, under its id, at the time the
  clock gave; creating it again is a Conflict, other templates are as before, and no document
  has changed.\<close>

theorem create_template_served:
  assumes "create_template parses s i content p = (Done t, p')"
  shows "get_template bi s i p' = Inr t \<and> tm_content t = content \<and> tm_updated t = fst (timestamp p) \<and>
    (parses text = None \<longrightarrow> create_template parses s i text p' = (Fail (new_err Conflict), p')) \<and>
    (j \<noteq> i \<and> (j = '''' \<longrightarrow> i \<noteq> default_template_id) \<longrightarrow> get_template bi s j p' = get_template bi s j p) \<and>
    lookup p' = lookup p"
proof -
  let ?t = "\<lparr>tm_kind = k_name (sv_kind s), tm_id = i, tm_content = content, tm_updated = fst (timestamp p)\<rparr>"
  obtain now p1 where ts: "timestamp p = (now, p1)" by fastforce
  obtain m w where put: "so_put_template palace_ops ?t (pl_store p1) = (m, w)" by fastforce
  have st: "pl_store p1 = pl_store p" using ts by (auto simp: timestamp_def)
  have ok: "template_id_ok i" and t: "t = ?t" and w: "accepted w" and p': "pl_store p' = m"
    using assms ts put
    by (auto simp: create_template_def put_template_def Let_def split: if_splits option.splits sum.splits)
  have get: "so_get_template palace_ops (pl_store p') k j =
      (if k = k_name (sv_kind s) \<and> j = i then Inr ?t else so_get_template palace_ops (pl_store p) k j)"
    and docs: "mem_get (mu_primary (pl_store p')) = mem_get (mu_primary (pl_store p))" for k j
    using multi_put_template_get [OF put w, of k j] st p' by (simp_all add: multi_template_sel)
  have "i \<noteq> ''''" using ok by (simp add: template_id_ok_def)
  then show ?thesis
    using t get docs ok
    by (auto simp: get_template_def create_template_def Let_def lookup_eq fun_eq_iff split: sum.splits)
qed

section \<open>Facts: the creation input\<close>

lemma run_steps_fst: "fst (fold (\<lambda>f (m, ps). case f m of (m', qs) \<Rightarrow> (m', ps @ qs)) fs (m, ps)) = fold (\<lambda>f m. fst (f m)) fs m"
  by (induction fs arbitrary: m ps) (auto split: prod.splits)

lemmas step_defs = norm_type_field_def norm_priority_field_def norm_effort_field_def norm_tags_field_def
  norm_milestone_field_def norm_date_field_def norm_order_field_def norm_assignee_field_def
  norm_planned_order_def drop_managed_def merge_legacy_plans_def norm_progress_field_def norm_links_field_def

text \<open>Every step changes its own key only.\<close>

lemma steps_keep:
  "k \<noteq> ''type'' \<Longrightarrow> om_get (fst (norm_type_field s m)) k = om_get m k"
  "k \<noteq> ''priority'' \<Longrightarrow> om_get (fst (norm_priority_field s m)) k = om_get m k"
  "k \<noteq> ''effort'' \<Longrightarrow> om_get (fst (norm_effort_field s m)) k = om_get m k"
  "k \<noteq> ''tags'' \<Longrightarrow> om_get (fst (norm_tags_field m)) k = om_get m k"
  "k \<noteq> ''milestone'' \<Longrightarrow> om_get (fst (norm_milestone_field m)) k = om_get m k"
  "k \<noteq> j \<Longrightarrow> om_get (fst (norm_date_field j m)) k = om_get m k"
  "k \<noteq> ''order'' \<Longrightarrow> om_get (fst (norm_order_field m)) k = om_get m k"
  "k \<noteq> ''assignee'' \<Longrightarrow> om_get (fst (norm_assignee_field s m)) k = om_get m k"
  "om_get (fst (norm_planned_order m)) k = om_get m k"
  "k \<notin> {''created'', ''updated'', ''started'', ''completed''} \<Longrightarrow> om_get (fst (drop_managed m)) k = om_get m k"
  "k \<noteq> ''plans'' \<Longrightarrow> k \<noteq> ''links'' \<Longrightarrow> om_get (fst (merge_legacy_plans m)) k = om_get m k"
  "k \<noteq> ''progress'' \<Longrightarrow> om_get (fst (norm_progress_field s m)) k = om_get m k"
  "k \<noteq> ''links'' \<Longrightarrow> om_get (fst (norm_links_field m)) k = om_get m k"
  by (auto simp: step_defs Let_def split: option.splits go_val.splits sum.splits prod.splits if_splits)

text \<open>A key that holds something.\<close>

definition given :: "go_val option \<Rightarrow> bool" where
  "given v \<longleftrightarrow> v \<noteq> None \<and> v \<noteq> Some VNull"

lemma steps_give:
  "given (om_get (fst (norm_status_field s m)) ''status'')"
  "given (om_get (fst (norm_tags_field m)) ''tags'')"
  "given (om_get (fst (norm_milestone_field m)) ''milestone'')"
  "given (om_get (fst (norm_date_field j m)) j)"
  "given (om_get (fst (norm_order_field m)) ''order'')"
  by (auto simp: given_def norm_status_field_def step_defs split: option.splits go_val.splits sum.splits)

lemma drop_managed_None:
  "k \<in> {''created'', ''updated'', ''started'', ''completed''} \<Longrightarrow> om_get (fst (drop_managed m)) k = None"
  by (auto simp: drop_managed_def)

text \<open>What the steps leave of the managed and of the planning keys.\<close>

lemma managed_dropped:
  "list_all (\<lambda>k. om_get (fold (\<lambda>f m. fst (f m)) (input_steps s) m) k = None)
     [''created'', ''updated'', ''started'', ''completed'']"
  unfolding input_steps_def by (simp add: steps_keep drop_managed_None)

lemma planning_given:
  "list_all (\<lambda>k. given (om_get (fold (\<lambda>f m. fst (f m)) (input_steps s) m) k))
     [''status'', ''tags'', ''milestone'', ''due_date'', ''planned_start'', ''planned_end'', ''order'']"
  unfolding input_steps_def by (simp add: steps_keep steps_give)

text \<open>The creation input is made canonical before the schema sees it: the fields the service manages
  are gone whatever the caller sent, and status and every planning field are present, with
  their defaults when the caller left them out or sent null.\<close>

theorem create_input_normal:
  assumes "normalize_create_input s (Some (VMap raw0)) = (raw, ps)" "om_get raw0 ''frontMatter'' = Some (VMap fm0)"
  shows "\<exists>fm. om_get raw ''frontMatter'' = Some (VMap fm) \<and>
    list_all (\<lambda>k. om_get fm k = None) [''created'', ''updated'', ''started'', ''completed''] \<and>
    list_all (\<lambda>k. given (om_get fm k))
      [''status'', ''tags'', ''milestone'', ''due_date'', ''planned_start'', ''planned_end'', ''order'']"
proof -
  define fm where "fm = fst (run_steps (input_steps s) fm0)"
  have "om_get raw ''frontMatter'' = Some (VMap fm)"
    using assms by (auto simp: normalize_create_input_def fm_def split: prod.splits)
  moreover have "fm = fold (\<lambda>f m. fst (f m)) (input_steps s) fm0"
    by (simp only: fm_def run_steps_def run_steps_fst)
  ultimately show ?thesis using managed_dropped planning_given by blast
qed

end
