(* ===== verification/Service_Review.thy ===== *)
theory Service_Review
  imports Service_Documents
begin

text \<open>
  The review (\<open>service/review.go\<close>): documents whose work is finished while their status is
  still open. Options that attach notes are a list of strings.
\<close>

section \<open>Definitions\<close>

record review_item =
  ri_kind :: string
  ri_id :: string
  ri_title :: string
  ri_status :: string
  ri_path :: string
  ri_reason :: string
  ri_stories :: "string list"

record review_result =
  rv_plans :: "review_item list"
  rv_stories :: "review_item list"
  rv_notes :: "string list"

definition review_is_empty :: "review_result \<Rightarrow> bool" where
  "review_is_empty r \<longleftrightarrow> rv_plans r = [] \<and> rv_stories r = []"

definition settled :: "string \<Rightarrow> bool" where
  "settled st \<longleftrightarrow> st = ''complete'' \<or> st = ''archived'' \<or> st = ''rejected''"

text \<open>The sorted ids of the stories attached to a plan.\<close>

definition plan_stories :: "document \<Rightarrow> document list \<Rightarrow> string list" where
  "plan_stories plan stories =
     sort (remdups
       (map link_id (story_links (doc_fm plan)) @
        concat (map (\<lambda>e. pe_stories (snd e)) (fm_progress (doc_fm plan))) @
        map doc_id (filter (\<lambda>s. has_plan_link (doc_fm s) (doc_id plan)) stories)))"

definition story_item :: "document \<Rightarrow> review_item option" where
  "story_item d =
     (if settled (fm_status (doc_fm d)) \<or> \<not> all_steps_complete d then None
      else
        (case criteria (doc_content d) of
           None \<Rightarrow> None
         | Some items \<Rightarrow>
             if items = [] \<or> list_ex (\<lambda>c. cr_state c = StateOpen) items then None
             else
               Some \<lparr>ri_kind = ''story'', ri_id = doc_id d, ri_title = fm_title (doc_fm d),
                     ri_status = fm_status (doc_fm d), ri_path = doc_path d,
                     ri_reason = ''all '' @ itoa (length (section_numbers (doc_content d))) @
                       '' steps are complete and all '' @ itoa (length items) @ '' acceptance criteria are done'',
                     ri_stories = []\<rparr>))"

text \<open>The last story with an id is the one the index keeps.\<close>

definition story_complete :: "document list \<Rightarrow> string \<Rightarrow> bool" where
  "story_complete stories i \<longleftrightarrow>
     (case find (\<lambda>s. doc_id s = i) (rev stories) of
        None \<Rightarrow> False | Some s \<Rightarrow> fm_status (doc_fm s) = ''complete'')"

definition plan_item :: "document list \<Rightarrow> document \<Rightarrow> review_item option" where
  "plan_item stories d =
     (let ids = plan_stories d stories
      in if settled (fm_status (doc_fm d)) \<or> ids = [] \<or> \<not> list_all (story_complete stories) ids then None
         else
           Some \<lparr>ri_kind = ''plan'', ri_id = doc_id d, ri_title = fm_title (doc_fm d),
                 ri_status = fm_status (doc_fm d), ri_path = doc_path d,
                 ri_reason = ''all '' @ itoa (length ids) @ '' linked stories are complete'',
                 ri_stories = ids\<rparr>)"

text \<open>A failed listing is returned as the store gave it.\<close>

definition review :: "string list \<Rightarrow> palace \<Rightarrow> store_error + review_result" where
  "review notes p =
     (case list_docs p ''plan'' of
        Inl e \<Rightarrow> Inl e
      | Inr plans \<Rightarrow>
          (case list_docs p ''story'' of
             Inl e \<Rightarrow> Inl e
           | Inr stories \<Rightarrow>
               Inr \<lparr>rv_plans = List.map_filter (plan_item stories) plans,
                    rv_stories = List.map_filter story_item stories,
                    rv_notes = filter (\<lambda>n. n \<noteq> '''') notes\<rparr>))"

section \<open>Facts\<close>

lemma list_docs_palace:
  assumes "palace_wf p" "k = ''plan'' \<or> k = ''story''"
  obtains docs where "list_docs p k = Inr docs"
proof -
  have "get_kind k \<noteq> None" using assms(2) by auto
  then show ?thesis using that mem.list_kind by (fastforce simp: list_docs_eq)
qed

text \<open>The stories attached to a plan, and the story that is finished work.\<close>

definition attached :: "palace \<Rightarrow> document \<Rightarrow> string set" where
  "attached p d =
     link_id ` set (story_links (doc_fm d)) \<union> \<Union> (set ` pe_stories ` snd ` set (fm_progress (doc_fm d))) \<union>
     {i. \<exists>s. lookup p ''story'' i = Inr s \<and> has_plan_link (doc_fm s) (doc_id d)}"

definition done_work :: "document \<Rightarrow> bool" where
  "done_work d \<longleftrightarrow>
     all_steps_complete d \<and>
     (\<exists>items. criteria (doc_content d) = Some items \<and> items \<noteq> [] \<and> (\<forall>c \<in> set items. cr_state c \<noteq> StateOpen))"

lemma set_plan_stories:
  assumes "palace_wf p" "list_docs p ''story'' = Inr stories"
  shows "set (plan_stories d stories) = attached p d"
  using list_docs_lookup [OF assms]
  by (auto simp: plan_stories_def attached_def image_iff)

lemma story_complete_iff:
  assumes "palace_wf p" "list_docs p ''story'' = Inr stories"
  shows "story_complete stories i \<longleftrightarrow>
    (\<exists>s. lookup p ''story'' i = Inr s \<and> fm_status (doc_fm s) = ''complete'')"
proof (cases "find (\<lambda>s. doc_id s = i) (rev stories)")
  case None
  then show ?thesis
    using list_docs_lookup [OF assms, of i] None [unfolded find_None_iff]
    unfolding story_complete_def None by auto
next
  case (Some s)
  then have "s \<in> set stories \<and> doc_id s = i" by (auto simp: find_Some_iff rev_nth)
  then have "lookup p ''story'' i = Inr s" using list_docs_lookup [OF assms] by simp
  then show ?thesis using Some by (simp add: story_complete_def)
qed

lemma plan_item_iff:
  "(\<exists>x. plan_item stories d = Some x \<and> ri_id x = i) \<longleftrightarrow>
   doc_id d = i \<and> \<not> settled (fm_status (doc_fm d)) \<and> set (plan_stories d stories) \<noteq> {} \<and>
   (\<forall>j \<in> set (plan_stories d stories). story_complete stories j)"
  by (auto simp: plan_item_def Let_def list_all_iff)

lemma story_item_iff:
  "(\<exists>x. story_item d = Some x \<and> ri_id x = i) \<longleftrightarrow>
   doc_id d = i \<and> \<not> settled (fm_status (doc_fm d)) \<and> done_work d"
  by (auto simp: story_item_def done_work_def list_ex_iff split: option.splits)

lemma ids_map_filter:
  "ri_id ` set (List.map_filter f ds) = {i. \<exists>d \<in> set ds. \<exists>x. f d = Some x \<and> ri_id x = i}"
  by (force simp: map_filter_def image_iff)

text \<open>The review reports exactly the open documents whose work is finished: a plan that has stories
  attached, all of them complete, and a story whose numbered steps are all complete and whose
  acceptance criteria are a non-empty list without an open one.\<close>

theorem review_exact:
  assumes "palace_wf p" "review notes p = Inr r"
  shows "ri_id ` set (rv_plans r) =
      {i. \<exists>d. lookup p ''plan'' i = Inr d \<and> \<not> settled (fm_status (doc_fm d)) \<and> attached p d \<noteq> {} \<and>
         (\<forall>j \<in> attached p d. \<exists>s. lookup p ''story'' j = Inr s \<and> fm_status (doc_fm s) = ''complete'')} \<and>
    ri_id ` set (rv_stories r) =
      {i. \<exists>d. lookup p ''story'' i = Inr d \<and> \<not> settled (fm_status (doc_fm d)) \<and> done_work d}"
proof -
  obtain plans where pl: "list_docs p ''plan'' = Inr plans" using list_docs_palace [OF assms(1)] by blast
  obtain stories where st: "list_docs p ''story'' = Inr stories" using list_docs_palace [OF assms(1)] by blast
  have r: "rv_plans r = List.map_filter (plan_item stories) plans" "rv_stories r = List.map_filter story_item stories"
    using assms(2) pl st by (auto simp: review_def)
  show ?thesis
    unfolding r ids_map_filter plan_item_iff story_item_iff set_plan_stories [OF assms(1) st]
      story_complete_iff [OF assms(1) st]
    using list_docs_lookup [OF assms(1) pl] list_docs_lookup [OF assms(1) st] by blast
qed

end
