(* ===== verification/Palace_Run.thy ===== *)
theory Palace_Run
  imports Service_Review
begin

text \<open>
  What can happen to a palace: the requests that change one document, creations, deletions,
  template writes, synchronisation into a copy, and subscribers at work on the event bus.
  A palace is reached from a start when a sequence of such steps leads to it. The
  invariants of the services are lifted to every reachable palace here.
\<close>

section \<open>Requests\<close>

text \<open>One constructor per operation: on the fields, on the links, on the work itself.\<close>

datatype field_request =
    SetTitle string string bool
  | SetPurpose string string
  | SetType string string
  | SetPriority string go_val
  | SetEffort string go_val
  | ClearEffort string
  | SetTags string "string list"
  | AddTag string string
  | RemoveTag string string
  | SetMilestone string string
  | SetDueDate string string
  | SetPlannedDates string string string
  | SetOrder string int
  | SetAssignee string string

datatype link_request =
    AddPlanLink string string string "string list"
  | SetPlanSections string string "string list"
  | RemovePlanLink string string string
  | AddStoryLink string string string
  | RemoveStoryLink string string string
  | AddSpec string string
  | RemoveSpec string string
  | SetWebLink string string string
  | RemoveWebLink string string
  | SetRepo string string string string
  | ClearRepo string
  | AddFile string string
  | RemoveFile string string

datatype work_request =
    SetStatus string string bool
  | PatchFrontMatter string "(string, go_val) omap" bool
  | SetProgress string string string
  | AddProgressStory string string string
  | RemoveProgressStory string string string
  | RemoveProgress string string
  | SetCriterion string int string
  | AddCriterion string string string
  | RemoveCriterion string int
  | AppendWorkLog string string
  | UpdateContent string string
  | Claim string string bool "lease_try list"

primrec run_field :: "service \<Rightarrow> field_request \<Rightarrow> palace \<Rightarrow> document outcome \<times> palace" where
  "run_field s (SetTitle i t r) = set_title s i t r"
| "run_field s (SetPurpose i t) = set_purpose s i t"
| "run_field s (SetType i t) = set_type s i t"
| "run_field s (SetPriority i v) = set_priority s i v"
| "run_field s (SetEffort i v) = set_effort s i v"
| "run_field s (ClearEffort i) = clear_effort s i"
| "run_field s (SetTags i ts) = set_tags s i ts"
| "run_field s (AddTag i t) = add_tag s i t"
| "run_field s (RemoveTag i t) = remove_tag s i t"
| "run_field s (SetMilestone i m) = set_milestone s i m"
| "run_field s (SetDueDate i t) = set_due_date s i t"
| "run_field s (SetPlannedDates i a b) = set_planned_dates s i a b"
| "run_field s (SetOrder i n) = set_order s i n"
| "run_field s (SetAssignee i a) = set_assignee s i a"

primrec run_link :: "service \<Rightarrow> link_request \<Rightarrow> palace \<Rightarrow> document outcome \<times> palace" where
  "run_link s (AddPlanLink i t r ss) = add_plan_link s i t r ss"
| "run_link s (SetPlanSections i t ss) = set_plan_sections s i t ss"
| "run_link s (RemovePlanLink i t r) = remove_plan_link s i t r"
| "run_link s (AddStoryLink i t r) = add_story_link s i t r"
| "run_link s (RemoveStoryLink i t r) = remove_story_link s i t r"
| "run_link s (AddSpec i x) = add_spec s i x"
| "run_link s (RemoveSpec i x) = remove_spec s i x"
| "run_link s (SetWebLink i x u) = set_web_link s i x u"
| "run_link s (RemoveWebLink i x) = remove_web_link s i x"
| "run_link s (SetRepo i r l u) = set_repo s i r l u"
| "run_link s (ClearRepo i) = clear_repo s i"
| "run_link s (AddFile i x) = add_file s i x"
| "run_link s (RemoveFile i x) = remove_file s i x"

primrec run_work :: "service \<Rightarrow> work_request \<Rightarrow> palace \<Rightarrow> document outcome \<times> palace" where
  "run_work s (SetStatus i t f) = set_status s i t f"
| "run_work s (PatchFrontMatter i m f) = patch_front_matter s i m f"
| "run_work s (SetProgress i sec st) = set_progress s i sec st"
| "run_work s (AddProgressStory i sec st) = add_progress_story s i sec st"
| "run_work s (RemoveProgressStory i sec st) = remove_progress_story s i sec st"
| "run_work s (RemoveProgress i sec) = remove_progress s i sec"
| "run_work s (SetCriterion i n st) = set_criterion s i n st"
| "run_work s (AddCriterion i t k) = add_criterion s i t k"
| "run_work s (RemoveCriterion i n) = remove_criterion s i n"
| "run_work s (AppendWorkLog i e) = append_work_log s i e"
| "run_work s (UpdateContent i c) = update_document s i c"
| "run_work s (Claim i a f ts) = claim s i a f ts"

datatype request = Field field_request | Link link_request | Work work_request

primrec run_request :: "service \<Rightarrow> request \<Rightarrow> palace \<Rightarrow> document outcome \<times> palace" where
  "run_request s (Field x) = run_field s x"
| "run_request s (Link x) = run_link s x"
| "run_request s (Work x) = run_work s x"

lemmas operation_facts =
  set_title.document_operation_axioms set_purpose.document_operation_axioms
  set_type.document_operation_axioms set_status.document_operation_axioms
  set_priority.document_operation_axioms set_effort.document_operation_axioms
  clear_effort.document_operation_axioms patch_front_matter.document_operation_axioms
  add_plan_link.document_operation_axioms set_plan_sections.document_operation_axioms
  remove_plan_link.document_operation_axioms add_story_link.document_operation_axioms
  remove_story_link.document_operation_axioms add_spec.document_operation_axioms
  remove_spec.document_operation_axioms set_web_link.document_operation_axioms
  remove_web_link.document_operation_axioms set_repo.document_operation_axioms
  clear_repo.document_operation_axioms add_file.document_operation_axioms
  remove_file.document_operation_axioms set_tags.document_operation_axioms
  add_tag.document_operation_axioms remove_tag.document_operation_axioms
  set_milestone.document_operation_axioms set_due_date.document_operation_axioms
  set_planned_dates.document_operation_axioms set_order.document_operation_axioms
  set_assignee.document_operation_axioms set_progress.document_operation_axioms
  add_progress_story.document_operation_axioms remove_progress_story.document_operation_axioms
  remove_progress.document_operation_axioms set_criterion.document_operation_axioms
  add_criterion.document_operation_axioms remove_criterion.document_operation_axioms
  append_work_log.document_operation_axioms update_document.document_operation_axioms
  claim.document_operation_axioms

interpretation fields: document_operation s "run_field s x" for s x
  by (cases x) (simp_all only: run_field.simps operation_facts)

interpretation links: document_operation s "run_link s x" for s x
  by (cases x) (simp_all only: run_link.simps operation_facts)

interpretation works: document_operation s "run_work s x" for s x
  by (cases x) (simp_all only: run_work.simps operation_facts)

interpretation requests: document_operation s "run_request s x" for s x
  by (cases x)
    (simp_all only: run_request.simps fields.document_operation_axioms links.document_operation_axioms
      works.document_operation_axioms)

section \<open>Steps\<close>

text \<open>A request to a service: it ends with a palace whatever its result was.\<close>

inductive served_step :: "palace \<Rightarrow> palace \<Rightarrow> bool" where
  edit: "is_service p s \<Longrightarrow> served_step p (snd (run_request s x p))"
| create: "is_service p s \<Longrightarrow> served_step p (snd (create env s input tid p))"
| delete: "is_service p s \<Longrightarrow> served_step p (snd (delete_document s i force p))"
| create_template: "is_service p s \<Longrightarrow> served_step p (snd (create_template parses s i c p))"
| update_template: "is_service p s \<Longrightarrow> served_step p (snd (update_template bi parses s i c p))"
| delete_template: "is_service p s \<Longrightarrow> served_step p (snd (delete_template s i p))"

text \<open>
  Synchronising into the primary imports whatever the other store holds, unchecked, so only
  synchronisation into a copy is a step.
\<close>

inductive palace_step :: "palace \<Rightarrow> palace \<Rightarrow> bool" where
  served: "served_step p p' \<Longrightarrow> palace_step p p'"
| sync_copy: "store_index to (pl_store p) \<noteq> Some 0 \<Longrightarrow> palace_step p (snd (palace_sync from to mode p))"
| subscriber: "bus_step (pl_bus p) b \<Longrightarrow> palace_step p (p\<lparr>pl_bus := b\<rparr>)"

inductive_cases served_stepE: "served_step p p'"
inductive_cases palace_stepE: "palace_step p p'"

abbreviation palace_run :: "palace \<Rightarrow> palace \<Rightarrow> bool" where
  "palace_run \<equiv> palace_step\<^sup>*\<^sup>*"

section \<open>Facts: steps keep a palace well formed\<close>

lemma palace_wf_same_docs:
  assumes "same_env p p'" "ms_docs (mu_primary (pl_store p')) = ms_docs (mu_primary (pl_store p))"
  shows "lookup p' = lookup p" "palace_wf p \<Longrightarrow> palace_wf p'"
proof -
  show l: "lookup p' = lookup p" using assms(2) by (simp add: lookup_eq mem_get_def fun_eq_iff)
  have "service_for p' = service_for p"
    using assms(1) by (simp add: same_env_def service_for_def fun_eq_iff)
  then show "palace_wf p \<Longrightarrow> palace_wf p'"
    using assms l by (simp add: palace_wf_def same_env_def mem_inv_def)
qed

text \<open>Template writes leave the documents of the primary alone.\<close>

lemma template_event_env: "same_env q (template_event s e t p) \<longleftrightarrow> same_env q p"
  by (simp add: template_event_def timestamp_def same_env_def)

lemma same_env_sel [simp]:
  "same_env q (p\<lparr>pl_store := m\<rparr>) \<longleftrightarrow> same_env q p" "same_env q (p\<lparr>pl_bus := b\<rparr>) \<longleftrightarrow> same_env q p"
  by (simp_all add: same_env_def)

lemma multi_template_docs:
  assumes "so_put_template palace_ops t m = (m', r)"
  shows "ms_docs (mu_primary m') = ms_docs (mu_primary m)"
proof -
  obtain q r0 where q: "mem_put_template t (mu_primary m) = (q, r0)" by fastforce
  have "mu_primary m' = q"
    using fanout_accepted_iff [OF assms [unfolded multi_ops_sel multi_put_template_def mem_ops_sel] q] by simp
  moreover have "ms_docs q = ms_docs (mu_primary m)"
    using q by (auto simp: mem_put_template_def split: option.splits)
  ultimately show ?thesis by simp
qed

lemma multi_delete_template_docs:
  assumes "so_delete_template palace_ops k i m = (m', r)"
  shows "ms_docs (mu_primary m') = ms_docs (mu_primary m)"
proof -
  obtain q r0 where q: "mem_delete_template k i (mu_primary m) = (q, r0)" by fastforce
  have "fanout (so_name mem_ops) (mem_delete_template k i) (mem_delete_template k i) m = (m', r)"
    using assms by (simp add: multi_ops_def multi_delete_template_def)
  then have "mu_primary m' = q" using fanout_accepted_iff [where f = "mem_delete_template k i"] q by blast
  moreover have "ms_docs q = ms_docs (mu_primary m)"
    using q by (auto simp: mem_delete_template_def split: option.splits if_splits)
  ultimately show ?thesis by simp
qed

definition templates_only :: "palace \<Rightarrow> palace \<Rightarrow> bool" where
  "templates_only p p' \<longleftrightarrow>
     same_env p p' \<and> ms_docs (mu_primary (pl_store p')) = ms_docs (mu_primary (pl_store p))"

lemma put_template_only: "templates_only p (snd (put_template s t p))"
proof -
  obtain now p1 where ts: "timestamp p = (now, p1)" by fastforce
  have q: "quiet p p1" by (rule timestamp_quiet [OF ts])
  obtain m w where m: "so_put_template palace_ops (t\<lparr>tm_updated := now\<rparr>) (pl_store p1) = (m, w)" by fastforce
  have "pl_store (snd (put_template s t p)) = m \<and> same_env p1 (snd (put_template s t p))"
    using ts m by (auto simp: put_template_def Let_def template_event_env split: option.splits)
  then show ?thesis
    using multi_template_docs [OF m] q by (auto simp: templates_only_def quiet_def intro: same_env_trans)
qed

lemma templates_only_refl [simp]: "templates_only p p"
  by (simp add: templates_only_def)

lemma create_template_only: "templates_only p (snd (create_template parses s i c p))"
  using put_template_only by (auto simp: create_template_def Let_def split: option.splits sum.splits)

lemma update_template_only: "templates_only p (snd (update_template bi parses s i c p))"
  using put_template_only by (auto simp: update_template_def split: option.splits sum.splits)

lemma delete_template_only: "templates_only p (snd (delete_template s i p))"
proof -
  obtain m w where m: "so_delete_template palace_ops (k_name (sv_kind s)) i (pl_store p) = (m, w)" by fastforce
  show ?thesis
    using multi_delete_template_docs [OF m] m
    by (auto simp: delete_template_def templates_only_def template_event_env split: option.splits)
qed

text \<open>Synchronising into a copy leaves the primary alone.\<close>

lemma palace_sync_only:
  assumes "store_index to (pl_store p) \<noteq> Some 0"
  shows "templates_only p (snd (palace_sync from to mode p))"
  using assms
  by (auto simp: palace_sync_def templates_only_def set_store_def Let_def same_env_def
      split: option.splits prod.splits sync_error.splits nat.splits)

section \<open>Facts: what one step changes\<close>

text \<open>At most one document differs, and a document that is still there keeps its creation time.\<close>

definition one_change :: "palace \<Rightarrow> palace \<Rightarrow> bool" where
  "one_change p p' \<longleftrightarrow>
     (\<exists>k i. (\<forall>k' i'. k' \<noteq> k \<or> i' \<noteq> i \<longrightarrow> lookup p' k' i' = lookup p k' i') \<and>
        (\<forall>d d'. lookup p k i = Inr d \<and> lookup p' k i = Inr d' \<longrightarrow>
           fm_created (doc_fm d') = fm_created (doc_fm d)))"

lemma one_change_same: "lookup p' = lookup p \<Longrightarrow> one_change p p'"
  unfolding one_change_def by (rule exI [of _ "[]"], rule exI [of _ "[]"]) auto

lemma templates_step:
  "templates_only p p' \<Longrightarrow> palace_wf p \<Longrightarrow> palace_wf p' \<and> one_change p p'"
  using palace_wf_same_docs [of p p'] one_change_same by (auto simp: templates_only_def)

lemma one_change_quiet: "quiet p p' \<Longrightarrow> one_change p p'"
  using quiet_lookup by (intro one_change_same) (simp add: fun_eq_iff)

lemma one_changeI:
  "\<lbrakk>\<And>k' i'. k' \<noteq> k \<or> i' \<noteq> i \<Longrightarrow> lookup p' k' i' = lookup p k' i';
    \<And>d d'. lookup p k i = Inr d \<Longrightarrow> lookup p' k i = Inr d' \<Longrightarrow> fm_created (doc_fm d') = fm_created (doc_fm d)\<rbrakk> \<Longrightarrow>
   one_change p p'"
  unfolding one_change_def by blast

lemma request_one_change:
  assumes "palace_wf p" "is_service p s" "run_request s x p = (r, p')"
  shows "one_change p p'"
proof -
  have written: "one_change p p'" if "r = Done d \<or> r = Partial d e" for d e
    using requests.done_effect [OF assms that] by (intro one_changeI [of "k_name (sv_kind s)" "doc_id d"]) auto
  show ?thesis
  proof (cases r)
    case (Fail e)
    then show ?thesis using requests.fail_quiet [OF assms(1,2)] assms(3) one_change_quiet by blast
  qed (use written in blast)+
qed

lemma added_one_change: "added s p d p' \<Longrightarrow> one_change p p'"
  by (intro one_changeI [of "k_name (sv_kind s)" "doc_id d"]) (auto simp: added_def)

lemma removed_one_change: "removed s p i p' \<Longrightarrow> one_change p p'"
  by (intro one_changeI [of "k_name (sv_kind s)" i]) (auto simp: removed_def)

lemma served_step_one:
  assumes "served_step p p'" "palace_wf p"
  shows "palace_wf p' \<and> one_change p p'"
  using assms
proof (cases rule: served_step.cases)
  case (edit s x)
  obtain r where r: "run_request s x p = (r, p')" using edit(1) by (metis prod.collapse)
  show ?thesis using requests.env_wf [OF assms(2) edit(2) r] request_one_change [OF assms(2) edit(2) r] by simp
next
  case (create s env input tid)
  obtain r where r: "create env s input tid p = (r, p')" using create(1) by (metis prod.collapse)
  show ?thesis
    using create_effect [OF assms(2) create(2) r] added_one_change one_change_quiet by (auto split: outcome.splits)
next
  case (delete s i force)
  obtain r where r: "delete_document s i force p = (r, p')" using delete(1) by (metis prod.collapse)
  show ?thesis
    using delete_effect [OF assms(2) delete(2) r] removed_one_change one_change_quiet
    by (auto split: outcome.splits)
qed (use assms templates_step create_template_only update_template_only delete_template_only in blast)+

lemma palace_step_one:
  assumes "palace_step p p'" "palace_wf p"
  shows "palace_wf p' \<and> one_change p p'"
  using assms
proof (cases rule: palace_step.cases)
  case served
  then show ?thesis using served_step_one assms(2) by blast
next
  case sync_copy
  then show ?thesis using templates_step [OF palace_sync_only assms(2)] by blast
next
  case (subscriber b)
  then have "templates_only p p'" by (simp add: templates_only_def)
  then show ?thesis by (rule templates_step [OF _ assms(2)])
qed

lemma palace_run_wf: "palace_run p p' \<Longrightarrow> palace_wf p \<Longrightarrow> palace_wf p'"
  by (induction rule: rtranclp_induct) (auto dest: palace_step_one)

end
