(* ===== verification/Examples.thy ===== *)
theory Examples
  imports Palace_Run
begin

text \<open>
  A small palace, with a plan, two stories and a copy of the store, on which every property with a
  hypothesis is applied once.
\<close>

section \<open>The palace\<close>

definition ex_fm :: "string \<Rightarrow> string \<Rightarrow> string \<Rightarrow> string \<Rightarrow> front_matter" where
  "ex_fm i title typ st =
     \<lparr>fm_id = i, fm_title = title, fm_purpose = '''', fm_type = typ, fm_status = st,
      fm_priority = ''2'', fm_effort = '''', fm_created = ''2026-01-01T00:00:00.000Z'',
      fm_updated = ''2026-01-01T00:00:00.000Z'', fm_started = '''', fm_completed = '''', fm_tags = [],
      fm_milestone = '''', fm_due_date = '''', fm_planned_start = '''', fm_planned_end = '''',
      fm_order = 0, fm_assignee = '''', fm_links = None, fm_progress = []\<rparr>"

definition ex_plan :: document where
  "ex_plan =
     \<lparr>doc_kind = ''plan'', doc_path = ''0001-pla-feat-stores.md'',
      doc_fm = (ex_fm ''0001-pla'' ''Stores'' ''feat'' ''in_progress'')
        \<lparr>fm_progress := [(''1'', \<lparr>pe_status = ''pending'', pe_stories = [''0001-aaa'']\<rparr>)]\<rparr>,
      doc_content = ''# Stores'' @ [nl, nl] @ ''## 1: Memory'' @ [nl]\<rparr>"

definition ex_content :: string where
  "ex_content =
     ''# Keep'' @ [nl, nl] @ ''## 1: Write'' @ [nl, nl] @ ''## Acceptance Criteria'' @ [nl, nl] @
     ''- [x] VERIFY: it is kept'' @ [nl]"

definition ex_story :: document where
  "ex_story =
     \<lparr>doc_kind = ''story'', doc_path = ''0001-aaa-feat-keep.md'',
      doc_fm = (ex_fm ''0001-aaa'' ''Keep'' ''feat'' ''ready'')
        \<lparr>fm_progress := [(''1'', \<lparr>pe_status = ''complete'', pe_stories = []\<rparr>)]\<rparr>,
      doc_content = ex_content\<rparr>"

definition ex_other :: document where
  "ex_other =
     \<lparr>doc_kind = ''story'', doc_path = ''0002-bbb-feat-keep.md'',
      doc_fm = (ex_fm ''0002-bbb'' ''Keep'' ''feat'' ''ready'')
        \<lparr>fm_links := Some (empty_links\<lparr>ln_stories := [\<lparr>link_id = ''0001-aaa'', link_relation = ''depends'',
                                                      link_sections = []\<rparr>]\<rparr>)\<rparr>,
      doc_content = ex_content\<rparr>"

definition ex_store :: mem_store where
  "ex_store =
     (mem_new ''one'')\<lparr>ms_docs := [((''plan'', ''0001-pla''), ex_plan), ((''story'', ''0001-aaa''), ex_story),
                                 ((''story'', ''0002-bbb''), ex_other)]\<rparr>"

definition ex_kind_config :: kind_config where
  "ex_kind_config =
     \<lparr>kc_dir = ''docs'', kc_types = [nd ''feat'' '''' []],
      kc_statuses = [nd ''pending'' '''' [], nd ''ready'' '''' [], nd ''in_progress'' '''' [], nd ''complete'' '''' []],
      kc_workflow = [(''in_progress'', [''complete'']), (''pending'', [''ready'']), (''ready'', [''in_progress''])],
      kc_priorities = [\<lparr>pr_value = ''2'', pr_labels = []\<rparr>], kc_efforts = []\<rparr>"

definition ex_palace :: palace where
  "ex_palace =
     new_palace (default_config\<lparr>cf_plans := ex_kind_config, cf_stories := ex_kind_config\<rparr>) (\<lambda>_ _ _. [])
       \<lparr>mu_primary = ex_store, mu_copies = [mem_new ''two'']\<rparr>
       (\<lambda>n. \<lparr>dt_year = 2026, dt_month = 2, dt_day = 1, dt_hour = 0, dt_minute = 0, dt_second = n, dt_nanos = 0\<rparr>)
       (\<lambda>n. ''xyz'')"

section \<open>Running it\<close>

text \<open>An edit whose steps are known, so that each can be evaluated by itself.\<close>

lemma edit_with_run:
  assumes "resolve s i p = Inr d" "case fst (f d p) of Inr (Some _) \<Rightarrow> True | _ \<Rightarrow> False"
  shows "edit_with s i op f p = save s (the (projr (fst (f d p)))) op ''updated'' (snd (f d p))"
  using assms by (cases "f d p") (auto simp: edit_with_def split: sum.splits option.splits)

lemma done_ex: "(case fst x of Done d \<Rightarrow> P d | _ \<Rightarrow> False) \<Longrightarrow> \<exists>d q. x = (Done d, q) \<and> P d"
  by (cases x) (auto split: outcome.splits)

lemma pure_edit_run: "pure_edit f d p = (f d p, p)"
  by (simp add: pure_edit_def)

text \<open>A claim that finds the story free and ends with the claimant holding it.\<close>

lemma claim_locked_run:
  assumes "resolve s i p = Inr d" "fm_assignee (doc_fm d) = ''''" "a \<noteq> ''''"
    and "d1 = set_fm (fm_assignee_update (\<lambda>_. a)) d"
    and "case fst (apply_status s ''in_progress'' force d1 p) of Inr (Some _) \<Rightarrow> True | _ \<Rightarrow> False"
    and "d2 = the (projr (fst (apply_status s ''in_progress'' force d1 p)))"
    and "x = save s (d2\<lparr>doc_path := path_for d2 ''''\<rparr>) ''claim'' ''updated'' (snd (apply_status s ''in_progress'' force d1 p))"
    and "case fst x of Done _ \<Rightarrow> True | _ \<Rightarrow> False"
    and "case resolve s (doc_id d) (snd x) of Inr e \<Rightarrow> fm_assignee (doc_fm e) = a | _ \<Rightarrow> False"
  shows "claim_locked s i a force p = x"
proof -
  obtain d3 q where ap: "apply_status s ''in_progress'' force d1 p = (Inr (Some d3), q)"
    using assms(5) by (cases "apply_status s ''in_progress'' force d1 p") (auto split: sum.splits option.splits)
  obtain d4 q' where sv: "x = (Done d4, q')" using assms(8) by (cases x) (auto split: outcome.splits)
  have d3: "d3 = d2" using assms(6) ap by simp
  show ?thesis
    using assms(1-3,9) ap sv assms(7) unfolding d3 claim_locked_def
    by (auto simp: Let_def assms(4) [symmetric] split: sum.splits)
qed

lemma claim_run:
  assumes "k_has_assignee (sv_kind s)" "normalize_assignee a0 = Inr a" "a \<noteq> ''''" "resolve s i p = Inr d"
    and "multi_lock mem_ops (k_name (sv_kind s)) (doc_id d) (map lease_poll ts) (pl_store p) = (m, Inr l)"
    and "claim_locked s (doc_id d) a force (p\<lparr>pl_store := m\<rparr>) = (r, q)"
  shows "claim s i a0 force ts p = (r, q\<lparr>pl_store := multi_unlock mem_ops (k_name (sv_kind s)) (doc_id d) l (pl_store q)\<rparr>)"
  using assms by (simp add: claim_def)

section \<open>Facts about the palace\<close>

lemma ex_parts: "is_service ex_palace (pl_plans ex_palace)" "is_service ex_palace (pl_stories ex_palace)"
    "sv_kind (pl_plans ex_palace) = plan_kind" "sv_kind (pl_stories ex_palace) = story_kind"
    "sv_cfg (pl_stories ex_palace) = ex_kind_config"
  by (simp_all add: is_service_def ex_palace_def new_palace_def)

lemma ex_valid:
  "valid_doc (pl_plans ex_palace) ex_plan" "valid_doc (pl_stories ex_palace) ex_story"
  "valid_doc (pl_stories ex_palace) ex_other"
  by (code_simp, code_simp, code_simp)

lemma ex_lookup:
  "lookup ex_palace k i =
     (if (k, i) = (''plan'', ''0001-pla'') then Inr ex_plan
      else if (k, i) = (''story'', ''0001-aaa'') then Inr ex_story
      else if (k, i) = (''story'', ''0002-bbb'') then Inr ex_other else Inl ErrNotFound)"
  by (simp add: lookup_eq mem_get_def ex_palace_def new_palace_def ex_store_def)

lemma ex_inv: "mem_inv ex_store"
  by (simp add: mem_inv_def ex_store_def ex_plan_def ex_story_def ex_other_def ex_fm_def doc_id_def)

lemma ex_wf: "palace_wf ex_palace"
  unfolding palace_wf_def using ex_inv ex_valid
  by (auto simp: ex_parts ex_lookup service_for_def split: if_splits)
    (simp add: ex_palace_def new_palace_def)

lemma ex_resolve:
  "resolve (pl_stories ex_palace) ''0001-aaa'' ex_palace = Inr ex_story"
  "resolve (pl_stories ex_palace) ''0002-bbb'' ex_palace = Inr ex_other"
  by (code_simp, code_simp)

section \<open>Status, claims and progress\<close>

lemma ex_started:
  "\<exists>d q. set_status (pl_stories ex_palace) ''0001-aaa'' ''in_progress'' False ex_palace = (Done d, q) \<and>
     fm_status (doc_fm d) = ''in_progress''"
  unfolding set_status_def
  by (rule done_ex, subst edit_with_run [OF ex_resolve(1)]; code_simp)

theorem set_status_rules_witness:
  "\<exists>d q. set_status (pl_stories ex_palace) ''0001-aaa'' ''in_progress'' False ex_palace = (Done d, q) \<and>
     can_transition ex_kind_config ''ready'' ''in_progress'' \<and>
     targets_finished (pl_plans ex_palace) (plan_links (doc_fm ex_story)) ex_palace"
proof -
  obtain d q where s: "set_status (pl_stories ex_palace) ''0001-aaa'' ''in_progress'' False ex_palace = (Done d, q)"
      "fm_status (doc_fm d) = ''in_progress''"
    using ex_started by blast
  have st: "fm_status (doc_fm ex_story) = ''ready''" by code_simp
  show ?thesis
    using set_status_rules [OF s(1) ex_resolve(1)] s st by (auto simp: ex_parts)
qed

theorem apply_status_stamps_witness:
  "\<exists>d q. apply_status (pl_stories ex_palace) ''in_progress'' False ex_story ex_palace = (Inr (Some d), q) \<and>
     fm_started (doc_fm d) = fst (timestamp ex_palace)"
proof -
  have "case fst (apply_status (pl_stories ex_palace) ''in_progress'' False ex_story ex_palace) of
      Inr (Some d) \<Rightarrow> fm_status (doc_fm d) = ''in_progress'' | _ \<Rightarrow> False"
    by code_simp
  then obtain d q where s: "apply_status (pl_stories ex_palace) ''in_progress'' False ex_story ex_palace = (Inr (Some d), q)"
      "fm_status (doc_fm d) = ''in_progress''"
    by (cases "apply_status (pl_stories ex_palace) ''in_progress'' False ex_story ex_palace")
      (auto split: sum.splits option.splits)
  have "k_tracks_started story_kind" by code_simp
  then have "fm_started (doc_fm d) = fst (timestamp ex_palace)"
    using arg_cong [OF conjunct2 [OF conjunct2 [OF apply_status_stamps [OF s(1)]]], of fm_started] s(2)
    by (simp add: ex_parts)
  then show ?thesis using s(1) by blast
qed

theorem default_workflow_connected_witness:
  "''archived'' \<in> set (status_names default_stories) \<and> ''complete'' \<in> set (status_names default_stories) \<and>
   (can_transition default_stories)\<^sup>*\<^sup>* ''archived'' ''complete''"
proof -
  have h: "''archived'' \<in> set (status_names default_stories)" "''complete'' \<in> set (status_names default_stories)"
    by (code_simp, code_simp)
  show ?thesis using h default_workflow_connected [OF h] by blast
qed

text \<open>Bob claims the first story, Eve is refused.\<close>

definition ex_try :: lease_try where
  "ex_try = \<lparr>lt_others = id, lt_now = 0, lt_fresh = ''k''\<rparr>"

definition ex_locked :: palace where
  "ex_locked = ex_palace\<lparr>pl_store := fst (multi_lock mem_ops ''story'' ''0001-aaa'' [lease_poll ex_try] (pl_store ex_palace))\<rparr>"

definition ex_held :: document where
  "ex_held = set_fm (fm_assignee_update (\<lambda>_. ''gh:bob'')) ex_story"

definition ex_taking :: "(svc_error + document option) \<times> palace" where
  "ex_taking = apply_status (pl_stories ex_palace) ''in_progress'' False ex_held ex_locked"

definition ex_taken :: "document outcome \<times> palace" where
  "ex_taken =
     (let d = the (projr (fst ex_taking))
      in save (pl_stories ex_palace) (d\<lparr>doc_path := path_for d ''''\<rparr>) ''claim'' ''updated'' (snd ex_taking))"

lemma ex_claim_steps:
  "resolve (pl_stories ex_palace) ''0001-aaa'' ex_locked = Inr ex_story"
  "case fst ex_taking of Inr (Some _) \<Rightarrow> True | _ \<Rightarrow> False"
  "case fst ex_taken of Done d \<Rightarrow> fm_assignee (doc_fm d) = ''gh:bob'' \<and> doc_id d = ''0001-aaa'' | _ \<Rightarrow> False"
  "case resolve (pl_stories ex_palace) ''0001-aaa'' (snd ex_taken) of
     Inr e \<Rightarrow> fm_assignee (doc_fm e) = ''gh:bob'' | _ \<Rightarrow> False"
  "snd (multi_lock mem_ops ''story'' ''0001-aaa'' [lease_poll ex_try] (pl_store ex_palace)) = Inr (Some ''k'')"
  "normalize_assignee ''gh:bob'' = Inr ''gh:bob''" "normalize_assignee ''gh:eve'' = Inr ''gh:eve''"
  "doc_id ex_story = ''0001-aaa''" "fm_assignee (doc_fm ex_story) = ''''"
  "k_name story_kind = ''story''" "k_has_assignee story_kind"
  "normalize_status ex_kind_config ''in_progress'' = Some ''in_progress''"
  by (code_simp+)

lemma ex_claimed:
  "\<exists>d q. claim (pl_stories ex_palace) ''0001-aaa'' ''gh:bob'' False [ex_try] ex_palace = (Done d, q) \<and>
     fm_assignee (doc_fm d) = ''gh:bob'' \<and> doc_id d = ''0001-aaa''"
proof -
  note e = ex_claim_steps
  have lock: "multi_lock mem_ops ''story'' ''0001-aaa'' (map lease_poll [ex_try]) (pl_store ex_palace) =
      (fst (multi_lock mem_ops ''story'' ''0001-aaa'' [lease_poll ex_try] (pl_store ex_palace)), Inr (Some ''k''))"
    using e(5) by (simp add: prod_eq_iff)
  have "claim_locked (pl_stories ex_palace) ''0001-aaa'' ''gh:bob'' False ex_locked = ex_taken"
    by (rule claim_locked_run [OF e(1,9) _ ex_held_def])
      (use e in \<open>auto simp: ex_taking_def ex_taken_def Let_def split: outcome.splits\<close>)
  then have "claim (pl_stories ex_palace) ''0001-aaa'' ''gh:bob'' False [ex_try] ex_palace =
      (fst ex_taken, (snd ex_taken)\<lparr>pl_store := multi_unlock mem_ops ''story'' ''0001-aaa'' (Some ''k'') (pl_store (snd ex_taken))\<rparr>)"
    using claim_run [OF _ e(6) _ ex_resolve(1), of "[ex_try]" _ "Some ''k''" False "fst ex_taken" "snd ex_taken"] lock e
    by (simp add: ex_parts ex_locked_def)
  then show ?thesis using e(3) by (auto split: outcome.splits)
qed

theorem claim_takes_witness:
  "\<exists>d q. claim (pl_stories ex_palace) ''0001-aaa'' ''gh:bob'' False [ex_try] ex_palace = (Done d, q) \<and>
     lookup q ''story'' ''0001-aaa'' = Inr d \<and> fm_status (doc_fm d) = ''in_progress''"
proof -
  obtain d q where c: "claim (pl_stories ex_palace) ''0001-aaa'' ''gh:bob'' False [ex_try] ex_palace = (Done d, q)"
      "doc_id d = ''0001-aaa''"
    using ex_claimed by blast
  show ?thesis
    using claim_takes [OF ex_wf ex_parts(2) c(1)] c ex_claim_steps(10,12) by (auto simp: ex_parts)
qed

theorem claim_exclusive_witness:
  "\<exists>d q q'. claim (pl_stories ex_palace) ''0001-aaa'' ''gh:bob'' False [ex_try] ex_palace = (Done d, q) \<and>
     claim (pl_stories ex_palace) ''0001-aaa'' ''gh:eve'' False [ex_try] q = (Fail (new_err Conflict), q')"
proof -
  obtain d q where c: "claim (pl_stories ex_palace) ''0001-aaa'' ''gh:bob'' False [ex_try] ex_palace = (Done d, q)"
      "doc_id d = ''0001-aaa''" "fm_assignee (doc_fm d) = ''gh:bob''"
    using ex_claimed by blast
  show ?thesis
    using claim_exclusive [OF ex_wf ex_parts(2) c(1), of "''gh:eve''" "''gh:eve''" "[ex_try]"] c ex_claim_steps(7,12)
    by (auto simp: ex_parts)
qed

section \<open>Stores and leases\<close>

text \<open>Three stores, one of which refuses writes.\<close>

definition ex_multi :: "mem_store multi_store" where
  "ex_multi = \<lparr>mu_primary = ex_store, mu_copies = [mem_new ''two'', (mem_new ''tre'')\<lparr>ms_fail_writes := Some ''full''\<rparr>]\<rparr>"

definition ex_newer :: document where
  "ex_newer = set_fm (fm_updated_update (\<lambda>_. ''2026-02-02T00:00:00.000Z'')) ex_story"

lemma ex_put:
  "case snd (multi_put mem_ops ex_newer ex_multi) of Some (ErrFanout f) \<Rightarrow> om_get f ''two'' = None | _ \<Rightarrow> False"
  "case snd (multi_put mem_ops ex_newer ex_multi) of Some (ErrFanout f) \<Rightarrow> om_get f ''tre'' \<noteq> None | _ \<Rightarrow> False"
  "accepted (snd (multi_put mem_ops ex_newer ex_multi))"
  "accepted (snd (multi_put_if mem_ops ex_newer (fm_updated (doc_fm ex_story)) ex_multi))"
  "doc_kind ex_newer = doc_kind ex_story" "doc_id ex_newer = doc_id ex_story"
  "doc_kind ex_newer = ''story''" "doc_id ex_newer = ''0001-aaa''"
  "fm_updated (doc_fm ex_newer) \<noteq> fm_updated (doc_fm ex_story)"
  by (code_simp+)

theorem multi_put_report_witness:
  "\<exists>m. fst (multi_put mem_ops ex_newer ex_multi) = m \<and> mem_get (mu_primary m) ''story'' ''0001-aaa'' = Inr ex_newer \<and>
     mem_get (mu_copies m ! 0) ''story'' ''0001-aaa'' = Inr ex_newer \<and> mu_copies m ! 1 = mu_copies ex_multi ! 1"
proof -
  let ?m = "fst (multi_put mem_ops ex_newer ex_multi)" and ?r = "snd (multi_put mem_ops ex_newer ex_multi)"
  have p: "multi_put mem_ops ex_newer ex_multi = (?m, ?r)" by simp
  have h: "mem_inv (mu_primary ex_multi)" "distinct (map ms_name (mu_copies ex_multi))"
    "length (mu_copies ex_multi) = 2" "ms_name (mu_copies ex_multi ! 0) = ''two''" "ms_name (mu_copies ex_multi ! 1) = ''tre''"
    by (simp_all add: ex_multi_def ex_inv mem_new_def)
  show ?thesis
    using multi_put_report [OF p ex_put(3) h(1,2), of 0] multi_put_report [OF p ex_put(3) h(1,2), of 1] h ex_put(1,2,7,8)
    by (auto split: option.splits store_error.splits)
qed

theorem mem_put_if_generic_witness:
  "mem_put_if ex_newer '''' ex_store = put_if (mem_ops\<lparr>so_put_if := None\<rparr>) ex_newer '''' ex_store"
  by (rule mem_put_if_generic) (code_simp+)

theorem multi_put_if_no_lost_update_witness:
  "\<exists>m r. multi_put_if mem_ops ex_newer (fm_updated (doc_fm ex_story)) ex_multi = (m, r) \<and> accepted r \<and>
     multi_put_if mem_ops ex_story (fm_updated (doc_fm ex_story)) m = (m, Some (ErrOnPrimary ErrPrecondition))"
proof -
  obtain m r where p: "multi_put_if mem_ops ex_newer (fm_updated (doc_fm ex_story)) ex_multi = (m, r)"
    by (meson prod.exhaust_sel)
  then have a: "accepted r" using ex_put(4) by simp
  show ?thesis
    using multi_put_if_no_lost_update [OF p a ex_put(5,6) [symmetric] ex_put(9)] p a by blast
qed

theorem lease_mutual_exclusion_witness:
  "\<exists>w t. lease_reachable w \<and> t \<in> set (lw_tickets w) \<and> lw_now w < ti_expires t \<and>
     (\<forall>u \<in> set (lw_tickets w). ti_key u = ti_key t \<longrightarrow> lw_now w < ti_expires u \<longrightarrow> t = u)"
proof -
  let ?k = "lease_key ''story'' ''0001-aaa''"
  let ?t = "\<lparr>ti_process = ''bob'', ti_key = ?k, ti_lease = ''k'', ti_expires = 5\<rparr>"
  let ?w = "\<lparr>lw_leases = om_put ?k \<lparr>ls_id = ''k'', ls_expires = 5\<rparr> [], lw_now = 0, lw_used = [''k''], lw_tickets = [?t]\<rparr>"
  have "lease_step (lease_start 0) ?w"
    using lease_step.acquire [of "''k''" "lease_start 0" "''story''" "''0001-aaa''" 5 _ "''k''" "''bob''"]
    by (simp add: lease_start_def acquire_lease_def)
  then have w: "lease_reachable ?w" by (rule lease_reachable.step [OF lease_reachable.start])
  show ?thesis
    using lease_mutual_exclusion [OF w, of ?t] by (intro exI [of _ ?w] exI [of _ ?t]) (use w in \<open>simp\<close>)
qed

theorem lease_lock_succeeds_witness:
  "\<exists>s l e. lease_lock mem_leaser ''story'' ''0001-aaa'' 30 [\<lparr>po_env = (\<lambda>s. s\<lparr>ms_leases := []\<rparr>), po_now = 0, po_fresh = ''k''\<rparr>] ex_store = (s, Inr l) \<and>
     om_get (ms_leases s) (lease_key ''story'' ''0001-aaa'') = Some \<lparr>ls_id = l, ls_expires = e\<rparr>"
  by (rule lease_lock_succeeds [of "\<lparr>po_env = (\<lambda>s. s\<lparr>ms_leases := []\<rparr>), po_now = 0, po_fresh = ''k''\<rparr>"])
    simp_all

section \<open>Synchronisation\<close>

definition ex_target :: mem_store where
  "ex_target = (mem_new ''to'')\<lparr>ms_docs := [((''story'', ''0001-aaa''), ex_newer)]\<rparr>"

lemma ex_sync:
  "case sync mem_ops ConflictOverwrite ex_store ex_target of (_, _, e) \<Rightarrow> e = None"
  "case sync mem_ops ConflictNewer ex_store ex_target of (_, _, e) \<Rightarrow> e = None"
  "mem_get ex_store ''story'' ''0001-aaa'' = Inr ex_story" "mem_get ex_target ''story'' ''0001-aaa'' = Inr ex_newer"
  "\<not> documents_equal ex_newer ex_story"
  "\<not> source_is_newer (fm_updated (doc_fm ex_story)) (fm_updated (doc_fm ex_newer))"
  "mem_list ex_store ''story'' = Inr [ex_story, ex_other]"
  by (code_simp+)

lemma ex_target_inv: "mem_inv ex_target"
  using ex_put(8) by (simp add: mem_inv_def ex_target_def ex_newer_def set_fm_def ex_story_def mem_new_def)

lemma ex_synced: "\<exists>to' rep. sync mem_ops ConflictOverwrite ex_store ex_target = (to', rep, None)"
  using ex_sync(1) by (cases "sync mem_ops ConflictOverwrite ex_store ex_target") auto

theorem sync_overwrite_complete_witness:
  "\<exists>to' rep x. sync mem_ops ConflictOverwrite ex_store ex_target = (to', rep, None) \<and>
     mem_get to' ''story'' ''0001-aaa'' = Inr x \<and> documents_equal x ex_story"
proof -
  obtain to' rep where s: "sync mem_ops ConflictOverwrite ex_store ex_target = (to', rep, None)"
    using ex_synced by blast
  show ?thesis
    using sync_overwrite_complete [OF s ex_inv ex_target_inv, of "''story''" "''0001-aaa''"] s ex_sync(3) by auto
qed

theorem sync_newer_keeps_newer_witness:
  "\<exists>to' rep. sync mem_ops ConflictNewer ex_store ex_target = (to', rep, None) \<and>
     mem_get to' ''story'' ''0001-aaa'' = Inr ex_newer \<and> ''0001-aaa'' \<in> set (ks_conflicts (summary_of rep ''story''))"
proof -
  obtain to' rep where s: "sync mem_ops ConflictNewer ex_store ex_target = (to', rep, None)"
    using ex_sync(2) by (cases "sync mem_ops ConflictNewer ex_store ex_target") auto
  show ?thesis
    using sync_newer_keeps_newer [OF s ex_inv ex_target_inv disjI2 [OF refl] ex_sync(3-6)] s by blast
qed

theorem sync_idempotent_witness:
  "\<exists>to' rep. sync mem_ops ConflictOverwrite ex_store ex_target = (to', rep, None) \<and>
     sync_documents mem_ops ConflictError ''story'' ex_store to' new_kind_sync =
       (to', new_kind_sync\<lparr>ks_unchanged := [''0001-aaa'', ''0002-bbb'']\<rparr>, None)"
proof -
  obtain to' rep where s: "sync mem_ops ConflictOverwrite ex_store ex_target = (to', rep, None)"
    using ex_synced by blast
  have "map doc_id [ex_story, ex_other] = [''0001-aaa'', ''0002-bbb'']" by code_simp
  then show ?thesis
    using sync_idempotent [OF s ex_inv ex_target_inv disjI2 [OF refl] ex_sync(7), of ConflictError] s by auto
qed

section \<open>Events\<close>

theorem subscribe_unsubscribe_witness:
  "\<exists>n b. subscribe ''story'' None 0 bus_new = (n, b) \<and> bus_len b = 1 \<and> bus_subs (unsubscribe n b) = []"
proof -
  obtain n b where s: "subscribe ''story'' None 0 bus_new = (n, b)" by (meson prod.exhaust_sel)
  have "bus_wf bus_new" by code_simp
  from subscribe_unsubscribe [OF this s] show ?thesis
    using s by (auto simp: bus_new_def bus_len_def)
qed

theorem bus_bounded_witness: "bus_wf bus_new"
  by (rule bus_bounded) (rule bus_reachable.new)

section \<open>Links, fields and progress\<close>

lemma add_plan_link_run:
  assumes "resolve s i p = Inr d"
    and "check_plan_link s (doc_id d) \<lparr>link_id = normalize_id t, link_relation = r, link_sections = clean_sections ss\<rparr> p = None"
    and "merge_sections \<lparr>link_id = normalize_id t, link_relation = r, link_sections = clean_sections ss\<rparr> (plan_links (doc_fm d)) = None"
  shows "add_plan_link s i t r ss p =
    save s (with_plan_links (plan_links (doc_fm d) @
      [\<lparr>link_id = normalize_id t, link_relation = r, link_sections = clean_sections ss\<rparr>]) d) ''addPlanLink'' ''updated'' p"
  using assms by (simp add: add_plan_link_def edit_with_def pure_edit_run Let_def)

lemma ex_link_added:
  "\<exists>d q. add_plan_link (pl_stories ex_palace) ''0001-aaa'' ''0001-pla'' ''included'' [''1''] ex_palace = (Done d, q) \<and>
     fm_title (doc_fm d) = ''Keep''"
  by (rule done_ex, subst add_plan_link_run [OF ex_resolve(1)]; code_simp)

theorem add_plan_link_sound_witness:
  "\<exists>d q. add_plan_link (pl_stories ex_palace) ''0001-aaa'' ''0001-pla'' ''included'' [''1''] ex_palace = (Done d, q) \<and>
     (\<exists>l \<in> set (plan_links (doc_fm d)). link_id l = ''0001-pla'' \<and> link_relation l = ''included'' \<and> link_sections l = [''1''])"
proof -
  obtain d q where
    a: "add_plan_link (pl_stories ex_palace) ''0001-aaa'' ''0001-pla'' ''included'' [''1''] ex_palace = (Done d, q)"
    using ex_link_added by blast
  have n: "normalize_id ''0001-pla'' = ''0001-pla''" "clean_sections [''1''] = [''1'']" by code_simp+
  show ?thesis using add_plan_link_sound [OF ex_wf ex_parts(2) a] a n by fastforce
qed

theorem patch_immutable_refused_witness:
  "patch_front_matter (pl_stories ex_palace) ''0001-aaa'' [(''id'', VString ''0009-zzz''), (''title'', VString ''x'')] True ex_palace =
     (Fail (new_err ImmutableField), ex_palace)"
  by (rule patch_immutable_refused [OF ex_resolve(1), of "''id''"]) (code_simp+)

theorem patch_status_is_set_status_witness:
  "\<exists>d q q'. patch_front_matter (pl_stories ex_palace) ''0001-aaa'' [(''status'', VString ''in_progress'')] False ex_palace = (Done d, q) \<and>
     set_status (pl_stories ex_palace) ''0001-aaa'' ''in_progress'' False ex_palace = (Done d, q')"
proof -
  have h: "k_immutable (sv_kind (pl_stories ex_palace)) = k_immutable story_kind"
    "fst (apply_status (pl_stories ex_palace) ''in_progress'' False ex_story ex_palace) \<noteq> Inr None"
    "\<not> planned_dates_bad (doc_fm ex_story)"
    by (code_simp, code_simp, code_simp)
  obtain d q where "set_status (pl_stories ex_palace) ''0001-aaa'' ''in_progress'' False ex_palace = (Done d, q)"
    using ex_started by blast
  then show ?thesis
    using patch_status_is_set_status [OF disjI2 [OF h(1)] ex_resolve(1) h(2,3)]
    by (auto split: prod.splits outcome.splits)
qed

theorem normalize_tags_set_witness:
  "\<exists>r. normalize_tags ['' go '', '''', ''go'', ''cli''] = Inr r \<and> set r = {''go'', ''cli''} \<and> distinct r"
proof -
  have n: "normalize_tags ['' go '', '''', ''go'', ''cli''] = Inr [''go'', ''cli'']" by code_simp
  show ?thesis using normalize_tags_set [OF n] n by auto
qed

definition ex_working :: document where
  "ex_working = set_fm (\<lambda>f. f\<lparr>fm_status := ''in_progress'', fm_progress := [(''1'', new_entry)]\<rparr>) ex_story"

theorem set_progress_auto_complete_witness:
  "\<exists>d q. set_progress_edit (pl_stories ex_palace) ''1'' ''complete'' ex_working ex_palace = (Inr (Some d), q) \<and>
     fm_status (doc_fm d) = ''complete'' \<and> section_numbers (doc_content d) \<noteq> [] \<and>
     (\<forall>n \<in> set (section_numbers (doc_content d)). entry_status d n = ''complete'')"
proof -
  have "case fst (set_progress_edit (pl_stories ex_palace) ''1'' ''complete'' ex_working ex_palace) of
      Inr (Some d) \<Rightarrow> fm_status (doc_fm d) = ''complete'' | _ \<Rightarrow> False"
    by code_simp
  then obtain d q where s: "set_progress_edit (pl_stories ex_palace) ''1'' ''complete'' ex_working ex_palace = (Inr (Some d), q)"
      "fm_status (doc_fm d) = ''complete''"
    by (cases "set_progress_edit (pl_stories ex_palace) ''1'' ''complete'' ex_working ex_palace")
      (auto split: sum.splits option.splits)
  have h: "normalize_status (sv_cfg (pl_stories ex_palace)) ''complete'' = Some ''complete''"
    "fm_status (doc_fm ex_working) = ''in_progress''"
    by (code_simp, code_simp)
  show ?thesis using set_progress_auto_complete [OF s(1) h(1)] s h(2) by auto
qed

section \<open>The ready queue and the review\<close>

definition ex_filter :: ready_filter where
  "ex_filter = \<lparr>rf_tag = '''', rf_milestone = '''', rf_unassigned = True, rf_limit = 0\<rparr>"


theorem review_exact_witness:
  "\<exists>r. review [] ex_palace = Inr r \<and> ''0001-aaa'' \<in> ri_id ` set (rv_stories r)"
proof -
  have r: "case review [] ex_palace of Inr _ \<Rightarrow> True | _ \<Rightarrow> False"
    and w: "\<not> settled (fm_status (doc_fm ex_story))" "all_steps_complete ex_story"
    and c: "case criteria (doc_content ex_story) of Some items \<Rightarrow> items \<noteq> [] \<and> list_all (\<lambda>c. cr_state c \<noteq> StateOpen) items | _ \<Rightarrow> False"
    by (code_simp, code_simp, code_simp, code_simp)
  have k: "done_work ex_story"
    using w(2) c by (auto simp: done_work_def list_all_iff split: option.splits)
  from r obtain r where q: "review [] ex_palace = Inr r" by (auto split: sum.splits)
  have "lookup ex_palace ''story'' ''0001-aaa'' = Inr ex_story" by (simp add: ex_lookup)
  then show ?thesis using review_exact [OF ex_wf q] q w(1) k by blast
qed

section \<open>Creating, deleting and updating documents\<close>

definition ex_input :: create_input where
  "ex_input = \<lparr>ci_slug = '''', ci_fm = ex_fm '''' ''New'' ''feat'' ''pending'', ci_has_progress = False, ci_body = VNull\<rparr>"

definition ex_env :: create_env where
  "ex_env =
     \<lparr>ce_builtin = (\<lambda>k. ''# {{.title}}''), ce_schema = (\<lambda>v. []), ce_decode = (\<lambda>v. Some ex_input),
      ce_sections = (\<lambda>v. Some [''1'']), ce_render = (\<lambda>t i f b. Some (''# '' @ fm_title f @ [nl, nl] @ ''## 1: Write'' @ [nl]))\<rparr>"

definition ex_raw :: go_val where
  "ex_raw = VMap [(''frontMatter'', VMap [(''title'', VString ''New''), (''type'', VString ''feat'')])]"

definition ex_template :: template where
  "ex_template = the (projr (map_sum id Some (get_template (ce_builtin ex_env) (pl_stories ex_palace) '''' ex_palace)))"

lemma create_run:
  assumes "normalize_create_input s input = (raw, [])" "timestamp p = (now, p1)"
    and "ce_schema env (VMap (supply_stamps s now raw)) = []" "ce_decode env (VMap (supply_stamps s now raw)) = Some inp"
    and "ce_sections env (ci_body inp) = Some secs" "get_template (ce_builtin env) s t p1 = Inr tmpl"
  shows "create env s input t p = create_document env s inp secs tmpl now p1"
  using assms by (simp add: create_def)

lemma create_document_run:
  assumes "plan_links (ci_fm inp) = []" "story_links (ci_fm inp) = []" "allocate_id s (fm_id (ci_fm inp)) p = (Inr i, p1)"
    and "ce_render env (tm_content tmpl) i (created_fm s i now (ci_fm inp)) (ci_body inp) = Some content"
    and "\<not> ci_has_progress inp" "fm_status (ci_fm inp) \<noteq> ''complete''" "ci_slug inp = ''''"
  shows "create_document env s inp secs tmpl now p =
    (let f = (created_fm s i now (ci_fm inp))\<lparr>fm_progress := seed_progress secs\<rparr>;
         d = \<lparr>doc_kind = k_name (sv_kind s), doc_path = '''', doc_fm = f, doc_content = content\<rparr>
     in save s (d\<lparr>doc_path := path_for d (slugify (fm_title f))\<rparr>) ''create'' ''created'' p1)"
  using assms by (simp add: create_document_def Let_def created_fm_def)

lemma ex_create_steps:
  "snd (normalize_create_input (pl_stories ex_palace) (Some ex_raw)) = []"
  "plan_links (ci_fm ex_input) = []" "story_links (ci_fm ex_input) = []"
  "\<not> ci_has_progress ex_input" "fm_status (ci_fm ex_input) \<noteq> ''complete''" "ci_slug ex_input = ''''"
  "fst (allocate_id (pl_stories ex_palace) (fm_id (ci_fm ex_input)) (snd (timestamp ex_palace))) = Inr ''0003-xyz''"
  "case get_template (ce_builtin ex_env) (pl_stories ex_palace) '''' (snd (timestamp ex_palace)) of Inr _ \<Rightarrow> True | _ \<Rightarrow> False"
  by (code_simp+)

definition ex_new :: document where
  "ex_new =
     (let f = (created_fm (pl_stories ex_palace) ''0003-xyz'' (fst (timestamp ex_palace)) (ci_fm ex_input))
                \<lparr>fm_progress := seed_progress [''1'']\<rparr>;
          d = \<lparr>doc_kind = ''story'', doc_path = '''', doc_fm = f, doc_content = ''# New'' @ [nl, nl] @ ''## 1: Write'' @ [nl]\<rparr>
      in d\<lparr>doc_path := path_for d (slugify (fm_title f))\<rparr>)"

lemma ex_new_saved:
  "case fst (save (pl_stories ex_palace) ex_new ''create'' ''created''
     (snd (allocate_id (pl_stories ex_palace) '''' (snd (timestamp ex_palace))))) of Done d \<Rightarrow> doc_id d = ''0003-xyz'' | _ \<Rightarrow> False"
  by code_simp

lemma ex_created:
  "\<exists>d q. create ex_env (pl_stories ex_palace) (Some ex_raw) '''' ex_palace = (Done d, q) \<and> doc_id d = ''0003-xyz''"
proof -
  obtain raw where raw: "normalize_create_input (pl_stories ex_palace) (Some ex_raw) = (raw, [])"
    using ex_create_steps(1) by (cases "normalize_create_input (pl_stories ex_palace) (Some ex_raw)") auto
  obtain tmpl where t: "get_template (ce_builtin ex_env) (pl_stories ex_palace) '''' (snd (timestamp ex_palace)) = Inr tmpl"
    using ex_create_steps(8) by (auto split: sum.splits)
  have env: "ce_schema ex_env v = []" "ce_decode ex_env v = Some ex_input" "ce_sections ex_env b = Some [''1'']"
      "ce_render ex_env x i f b = Some (''# '' @ fm_title f @ [nl, nl] @ ''## 1: Write'' @ [nl])" for v b x i f
    by (simp_all add: ex_env_def)
  let ?p = "snd (allocate_id (pl_stories ex_palace) (fm_id (ci_fm ex_input)) (snd (timestamp ex_palace)))"
  have a: "allocate_id (pl_stories ex_palace) (fm_id (ci_fm ex_input)) (snd (timestamp ex_palace)) = (Inr ''0003-xyz'', ?p)"
    using ex_create_steps(7) by (simp add: prod_eq_iff)
  have title: "fm_title (created_fm s i now (ci_fm ex_input)) = ''New''" "fm_id (ci_fm ex_input) = ''''" for s i now
    by (simp_all add: created_fm_def ex_input_def ex_fm_def)
  have "create ex_env (pl_stories ex_palace) (Some ex_raw) '''' ex_palace =
      save (pl_stories ex_palace) ex_new ''create'' ''created'' ?p"
    unfolding create_run [OF raw surjective_pairing env(1,2,3) t]
      create_document_run [OF ex_create_steps(2,3) a env(4) ex_create_steps(4-6)]
    by (simp add: ex_new_def Let_def title ex_parts ex_claim_steps(10))
  then show ?thesis
    using done_ex [OF ex_new_saved] title(2) by simp
qed

theorem create_adds_one_witness:
  "\<exists>d q. create ex_env (pl_stories ex_palace) (Some ex_raw) '''' ex_palace = (Done d, q) \<and> palace_wf q \<and>
     added (pl_stories ex_palace) ex_palace d q"
proof -
  obtain d q where c: "create ex_env (pl_stories ex_palace) (Some ex_raw) '''' ex_palace = (Done d, q)"
    using ex_created by blast
  show ?thesis using create_adds_one [OF ex_wf ex_parts(2) c] c by auto
qed

theorem allocate_id_exact_witness:
  "allocate_id (pl_stories ex_palace) '''' ex_palace = (Inr ''0003-xyz'', ex_palace\<lparr>pl_draws := 1\<rparr>) \<and>
   lookup ex_palace ''story'' ''0003-xyz'' = Inl ErrNotFound"
proof -
  have l: "list_docs ex_palace (k_name (sv_kind (pl_stories ex_palace))) = Inr [ex_story, ex_other]"
    and n: "next_sequence [ex_story, ex_other] \<le> 9999"
    and i: "sequence_id (next_sequence [ex_story, ex_other]) (pl_random ex_palace (pl_draws ex_palace)) = ''0003-xyz''"
    and z: "pl_draws ex_palace = 0"
    by (code_simp, code_simp, code_simp, code_simp)
  show ?thesis using allocate_id_exact [OF ex_wf l n] i z ex_claim_steps(10) by (auto simp: ex_parts)
qed


definition ex_list_filter :: list_filter where
  "ex_list_filter =
     \<lparr>lf_type = '''', lf_status = ''ready'', lf_priority = '''', lf_plan = '''', lf_story = '''', lf_tag = '''',
      lf_milestone = '''', lf_assignee = '''', lf_include_archived = False\<rparr>"

theorem list_documents_exact_witness:
  "\<exists>q. list_documents (pl_stories ex_palace) ex_list_filter ex_palace = Inr q \<and> summarise (pl_stories ex_palace) ex_story \<in> set q \<and>
     sorted_wrt (<) (map (\<lambda>m. fm_id (sm_fm m)) q)"
proof -
  have "case list_documents (pl_stories ex_palace) ex_list_filter ex_palace of Inr q \<Rightarrow> True | _ \<Rightarrow> False"
    and n: "case normalize_filter (pl_stories ex_palace) ex_list_filter of
        Some g \<Rightarrow> filter_matches g (doc_fm ex_story) | None \<Rightarrow> False"
    by (code_simp, code_simp)
  then obtain q where q: "list_documents (pl_stories ex_palace) ex_list_filter ex_palace = Inr q"
    by (auto split: sum.splits)
  have l: "lookup ex_palace (k_name (sv_kind (pl_stories ex_palace))) ''0001-aaa'' = Inr ex_story"
    by (simp add: ex_parts ex_claim_steps(10) ex_lookup)
  show ?thesis
    using list_documents_exact [OF ex_wf ex_parts(2) q] q n l by (auto split: option.splits)
qed

definition ex_body :: string where
  "ex_body = ''## 1: Write again'' @ [nl, nl] @ ''## Acceptance Criteria'' @ [nl, nl] @ ''- [ ] VERIFY: it is kept'' @ [nl]"

lemma update_document_run:
  assumes "resolve s i p = Inr d"
    and "filter (\<lambda>k. \<not> has_section (body_of c) k) (sorted_keys (fm_progress (doc_fm d))) = []"
  shows "update_document s i c p = save s (d\<lparr>doc_content := body_of c\<rparr>) ''update'' ''updated'' p"
  using assms by (simp add: update_document_def edit_with_def pure_edit_run Let_def)

lemma ex_updated:
  "\<exists>d q. update_document (pl_stories ex_palace) ''0001-aaa'' ex_body ex_palace = (Done d, q) \<and> doc_id d = ''0001-aaa''"
  by (rule done_ex, subst update_document_run [OF ex_resolve(1)]; code_simp)

theorem update_content_only_witness:
  "\<exists>d q. update_document (pl_stories ex_palace) ''0001-aaa'' ex_body ex_palace = (Done d, q) \<and>
     doc_content d = set_h1 ex_body ''Keep'' \<and> doc_path d = ''0001-aaa-feat-keep.md''"
proof -
  obtain d q where u: "update_document (pl_stories ex_palace) ''0001-aaa'' ex_body ex_palace = (Done d, q)"
    using ex_updated by blast
  have b: "body_of ex_body = ex_body" "fm_title (doc_fm ex_story) = ''Keep''" "doc_path ex_story = ''0001-aaa-feat-keep.md''"
    by (code_simp, code_simp, code_simp)
  show ?thesis using update_content_only [OF ex_wf ex_parts(2) u ex_resolve(1)] u b by auto
qed

theorem validate_exact_witness:
  "\<exists>r. validate_document (pl_stories ex_palace) ''0002-bbb'' ex_palace = Inr r \<and> vr_id r = ''0002-bbb'' \<and>
     (vr_problems r = [] \<longrightarrow> (\<exists>x. lookup ex_palace ''story'' ''0001-aaa'' = Inr x))"
proof -
  have "case validate_document (pl_stories ex_palace) ''0002-bbb'' ex_palace of Inr r \<Rightarrow> True | _ \<Rightarrow> False"
    and o: "doc_id ex_other = ''0002-bbb''" "list_ex (\<lambda>l. link_id l = ''0001-aaa'') (story_links (doc_fm ex_other))"
    by (code_simp, code_simp, code_simp)
  then obtain r where r: "validate_document (pl_stories ex_palace) ''0002-bbb'' ex_palace = Inr r"
    by (auto split: sum.splits)
  show ?thesis
    using validate_exact [OF ex_wf ex_parts(2) r ex_resolve(2)] r o ex_claim_steps(10)
    by (auto simp: ex_parts list_ex_iff)
qed

section \<open>Templates and the creation input\<close>

theorem create_template_served_witness:
  "\<exists>t q. create_template (\<lambda>c. None) (pl_stories ex_palace) ''bug'' ''# {{.title}}'' ex_palace = (Done t, q) \<and>
     get_template (ce_builtin ex_env) (pl_stories ex_palace) ''bug'' q = Inr t \<and>
     create_template (\<lambda>c. None) (pl_stories ex_palace) ''bug'' ''other'' q = (Fail (new_err Conflict), q)"
proof -
  have "case fst (create_template (\<lambda>c. None) (pl_stories ex_palace) ''bug'' ''# {{.title}}'' ex_palace) of
      Done _ \<Rightarrow> True | _ \<Rightarrow> False"
    by code_simp
  then obtain t q where t: "create_template (\<lambda>c. None) (pl_stories ex_palace) ''bug'' ''# {{.title}}'' ex_palace = (Done t, q)"
    by (cases "create_template (\<lambda>c. None) (pl_stories ex_palace) ''bug'' ''# {{.title}}'' ex_palace") (auto split: outcome.splits)
  show ?thesis using create_template_served [OF t, of "ce_builtin ex_env" "''other''"] t by blast
qed

theorem create_input_normal_witness:
  "\<exists>raw ps fm. normalize_create_input (pl_stories ex_palace) (Some ex_raw) = (raw, ps) \<and>
     om_get raw ''frontMatter'' = Some (VMap fm) \<and> given (om_get fm ''tags'') \<and> om_get fm ''created'' = None"
proof -
  let ?raw = "[(''frontMatter'', VMap [(''title'', VString ''New''), (''type'', VString ''feat'')])]"
  obtain raw ps where n: "normalize_create_input (pl_stories ex_palace) (Some (VMap ?raw)) = (raw, ps)"
    by (meson prod.exhaust_sel)
  show ?thesis
    using create_input_normal [OF n, of "[(''title'', VString ''New''), (''type'', VString ''feat'')]"] n
    by (auto simp: ex_raw_def)
qed

section \<open>File names and titles\<close>

theorem parse_file_name_round_trip_witness:
  "parse_file_name (''archive/'' @ file_name ''0001-aaa'' ''Feat'' ''keep-it'') = Some (''0001-aaa'', ''feat'', ''keep-it'')"
proof -
  have "parse_file_name (''archive/'' @ file_name ''0001-aaa'' ''Feat'' ''keep-it'') = Some (''0001-aaa'', to_lower ''Feat'', ''keep-it'')"
    by (rule parse_file_name_round_trip) (code_simp+)
  moreover have "to_lower ''Feat'' = ''feat''" by code_simp
  ultimately show ?thesis by simp
qed

theorem first_h1_set_h1_witness: "first_h1 (set_h1 (''Some text'' @ [nl]) ''Keep'') = Some ''Keep''"
  by (rule first_h1_set_h1) code_simp

end
