(* ===== verification/Job_Queue.thy ===== *)
theory Job_Queue
  imports Go_Strings "HOL-Library.Multiset"
begin

text \<open>
  The job queue of the GitHub synchronisation (\<open>ghsync/jobs.go\<close>, \<open>ghsync/memjobs.go\<close>): jobs with
  their order key, the back-off, and the queue in memory with leases, retries, dead letters and
  paused installations; then the runs of the queue under any interleaving of its callers.

  An instant is the number of nanoseconds since Go's zero time, so the zero instant is 0. The
  mutex makes an operation one step; an operation that reads the clock twice takes both
  readings. A cancelled context makes every operation fail at once. The random tokens are a
  stream, with a count of the draws.
\<close>

section \<open>Jobs\<close>

record delivery =
  dv_id :: string
  dv_event :: string
  dv_action :: string
  dv_installation :: int
  dv_repository :: int
  dv_repository_name :: string
  dv_ref :: string
  dv_before :: string
  dv_after :: string
  dv_sender :: string
  dv_payload :: string
  dv_received :: int

record job =
  jb_id :: string
  jb_kind :: string
  jb_installation :: int
  jb_repository :: int
  jb_ref :: string
  jb_delivery :: "delivery option"
  jb_attempts :: int
  jb_enqueued :: int
  jb_not_before :: int
  jb_last_error :: string

definition job_kind_valid :: "string \<Rightarrow> bool" where
  "job_kind_valid k \<longleftrightarrow> k \<in> set [''delivery'', ''import'', ''reconcile'', ''sweep'']"

definition max_attempts :: int where
  "max_attempts = 10"

definition second :: int where
  "second = 1000000000"

definition backoff_base :: int where
  "backoff_base = 30 * second"

definition backoff_max :: int where
  "backoff_max = 3600 * second"

fun backoff_loop :: "nat \<Rightarrow> int \<Rightarrow> int" where
  "backoff_loop 0 d = d"
| "backoff_loop (Suc n) d =
     (let d' = d * 2 in if backoff_max \<le> d' then backoff_max else backoff_loop n d')"

definition backoff :: "int \<Rightarrow> int" where
  "backoff attempts0 =
     (let attempts = (if attempts0 < 1 then 1 else attempts0)
      in backoff_loop (nat (attempts - 1)) backoff_base)"

definition order_key :: "job \<Rightarrow> string" where
  "order_key j =
     (if jb_repository j \<noteq> 0 then CHR ''r'' # itoa_int (jb_repository j)
      else CHR ''i'' # itoa_int (jb_installation j))"

datatype jobs_error = ErrCancelled | ErrNoJob | ErrLeaseLost | ErrDeadLettered | ErrInvalidJob

definition validate_job :: "job \<Rightarrow> jobs_error option" where
  "validate_job j =
     (if \<not> job_kind_valid (jb_kind j) then Some ErrInvalidJob
      else if jb_installation j \<le> 0 then Some ErrInvalidJob
      else if jb_repository j < 0 then Some ErrInvalidJob
      else if jb_kind j = ''delivery'' \<and> jb_delivery j = None then Some ErrInvalidJob
      else None)"

section \<open>The queue in memory\<close>

record mem_job =
  mq_job :: job
  mq_token :: string
  mq_until :: int

record mem_jobs =
  mj_seq :: nat
  mj_queue :: "mem_job list"
  mj_paused :: "(int, int) omap"
  mj_dead :: "job list"
  mj_tokens :: "nat \<Rightarrow> string"
  mj_draws :: nat

record worker_lease =
  wl_job :: job
  wl_token :: string
  wl_until :: int

definition new_mem_jobs :: "(nat \<Rightarrow> string) \<Rightarrow> mem_jobs" where
  "new_mem_jobs tokens =
     \<lparr>mj_seq = 0, mj_queue = [], mj_paused = [], mj_dead = [], mj_tokens = tokens, mj_draws = 0\<rparr>"

definition job_name :: "nat \<Rightarrow> string" where
  "job_name n = ''job_'' @ itoa n"

definition enqueue :: "bool \<Rightarrow> int \<Rightarrow> job \<Rightarrow> mem_jobs \<Rightarrow> mem_jobs \<times> (jobs_error + string)" where
  "enqueue cancelled now j m =
     (if cancelled then (m, Inl ErrCancelled)
      else
        (case validate_job j of
           Some e \<Rightarrow> (m, Inl e)
         | None \<Rightarrow>
             (let n = mj_seq m + 1;
                  j' = j\<lparr>jb_id := job_name n, jb_enqueued := now, jb_attempts := 0\<rparr>
              in (m\<lparr>mj_seq := n, mj_queue := mj_queue m @ [\<lparr>mq_job = j', mq_token = '''', mq_until = 0\<rparr>]\<rparr>,
                  Inr (jb_id j')))))"

text \<open>Expired leases are taken back; a job whose last attempt that was goes to the dead letters.\<close>

fun expire_queue :: "int \<Rightarrow> mem_job list \<Rightarrow> mem_job list \<times> job list" where
  "expire_queue now [] = ([], [])"
| "expire_queue now (q # qs) =
     (let (kept, dead) = expire_queue now qs
      in if mq_token q \<noteq> '''' \<and> \<not> now < mq_until q then
           (let j = (mq_job q)\<lparr>jb_attempts := jb_attempts (mq_job q) + 1, jb_last_error := ''lease expired''\<rparr>
            in if max_attempts \<le> jb_attempts j then (kept, j # dead)
               else (q\<lparr>mq_job := j, mq_token := ''''\<rparr> # kept, dead))
         else (q # kept, dead))"

definition expire :: "int \<Rightarrow> mem_jobs \<Rightarrow> mem_jobs" where
  "expire now m =
     (let (kept, dead) = expire_queue now (mj_queue m)
      in m\<lparr>mj_queue := kept, mj_dead := mj_dead m @ dead\<rparr>)"

text \<open>
  The scan for the oldest ready job. A key is seen with its first job, so a later job of the
  key waits for it; a pause that is over is dropped when the job of its installation is taken.
\<close>

fun claim_scan ::
  "int \<Rightarrow> int \<Rightarrow> string \<Rightarrow> string list \<Rightarrow> (int, int) omap \<Rightarrow> mem_job list \<Rightarrow>
   mem_job option \<times> (int, int) omap \<times> mem_job list" where
  "claim_scan now lease token seen paused [] = (None, paused, [])"
| "claim_scan now lease token seen paused (q # qs) =
     (let key = order_key (mq_job q);
          q' = q\<lparr>mq_token := token, mq_until := now + lease\<rparr>;
          skip = (\<lambda>seen'. case claim_scan now lease token seen' paused qs of (r, p, qs') \<Rightarrow> (r, p, q # qs'))
      in if key \<in> set seen then skip seen
         else if mq_token q \<noteq> '''' \<or> now < jb_not_before (mq_job q) then skip (key # seen)
         else
           (case om_get paused (jb_installation (mq_job q)) of
              Some until \<Rightarrow>
                if now < until then skip (key # seen)
                else (Some q', om_del (jb_installation (mq_job q)) paused, q' # qs)
            | None \<Rightarrow> (Some q', paused, q' # qs)))"

definition claim_job :: "bool \<Rightarrow> int \<Rightarrow> int \<Rightarrow> mem_jobs \<Rightarrow> mem_jobs \<times> (jobs_error + worker_lease)" where
  "claim_job cancelled now lease m0 =
     (if cancelled then (m0, Inl ErrCancelled)
      else
        (let m = expire now m0
         in case claim_scan now lease (mj_tokens m (mj_draws m)) [] (mj_paused m) (mj_queue m) of
              (None, _, _) \<Rightarrow> (m, Inl ErrNoJob)
            | (Some q, paused, queue) \<Rightarrow>
                (m\<lparr>mj_queue := queue, mj_paused := paused, mj_draws := mj_draws m + 1\<rparr>,
                 Inr \<lparr>wl_job = mq_job q, wl_token = mq_token q, wl_until = mq_until q\<rparr>)))"

text \<open>The position of the job a lease holds, none when the lease is no longer current.\<close>

fun find_from :: "nat \<Rightarrow> int \<Rightarrow> worker_lease \<Rightarrow> mem_job list \<Rightarrow> nat option" where
  "find_from i now l [] = None"
| "find_from i now l (q # qs) =
     (if jb_id (mq_job q) = jb_id (wl_job l) then
        (if mq_token q = '''' \<or> mq_token q \<noteq> wl_token l \<or> \<not> now < mq_until q then None else Some i)
      else find_from (Suc i) now l qs)"

definition find_lease :: "int \<Rightarrow> worker_lease \<Rightarrow> mem_jobs \<Rightarrow> nat option" where
  "find_lease now l m = find_from 0 now l (mj_queue m)"

definition remove_at :: "nat \<Rightarrow> mem_jobs \<Rightarrow> mem_jobs" where
  "remove_at i m = m\<lparr>mj_queue := take i (mj_queue m) @ drop (Suc i) (mj_queue m)\<rparr>"

definition extend_lease ::
  "bool \<Rightarrow> int \<Rightarrow> int \<Rightarrow> worker_lease \<Rightarrow> int \<Rightarrow> mem_jobs \<Rightarrow> mem_jobs \<times> (jobs_error + worker_lease)" where
  "extend_lease cancelled now now' l d m =
     (if cancelled then (m, Inl ErrCancelled)
      else
        (case find_lease now l m of
           None \<Rightarrow> (m, Inl ErrLeaseLost)
         | Some i \<Rightarrow>
             (m\<lparr>mj_queue := (mj_queue m)[i := (mj_queue m ! i)\<lparr>mq_until := now' + d\<rparr>]\<rparr>,
              Inr (l\<lparr>wl_until := now' + d\<rparr>))))"

definition finish_job :: "bool \<Rightarrow> int \<Rightarrow> worker_lease \<Rightarrow> mem_jobs \<Rightarrow> mem_jobs \<times> jobs_error option" where
  "finish_job cancelled now l m =
     (if cancelled then (m, Some ErrCancelled)
      else
        (case find_lease now l m of
           None \<Rightarrow> (m, Some ErrLeaseLost)
         | Some i \<Rightarrow> (remove_at i m, None)))"

definition retry_job ::
  "bool \<Rightarrow> int \<Rightarrow> int \<Rightarrow> worker_lease \<Rightarrow> int \<Rightarrow> string option \<Rightarrow> mem_jobs \<Rightarrow> mem_jobs \<times> jobs_error option" where
  "retry_job cancelled now now' l after cause m =
     (if cancelled then (m, Some ErrCancelled)
      else
        (case find_lease now l m of
           None \<Rightarrow> (m, Some ErrLeaseLost)
         | Some i \<Rightarrow>
             (let q = mj_queue m ! i;
                  j = (mq_job q)\<lparr>jb_attempts := jb_attempts (mq_job q) + 1,
                               jb_last_error := (case cause of None \<Rightarrow> '''' | Some c \<Rightarrow> c)\<rparr>
              in if max_attempts \<le> jb_attempts j then
                   ((remove_at i m)\<lparr>mj_dead := mj_dead m @ [j]\<rparr>, Some ErrDeadLettered)
                 else
                   (m\<lparr>mj_queue := (mj_queue m)[i := q\<lparr>mq_job := j\<lparr>jb_not_before := now' + after\<rparr>, mq_token := ''''\<rparr>]\<rparr>,
                    None))))"

definition pause_job :: "bool \<Rightarrow> int \<Rightarrow> worker_lease \<Rightarrow> int \<Rightarrow> mem_jobs \<Rightarrow> mem_jobs \<times> jobs_error option" where
  "pause_job cancelled now l until m =
     (if cancelled then (m, Some ErrCancelled)
      else
        (case find_lease now l m of
           None \<Rightarrow> (m, Some ErrLeaseLost)
         | Some i \<Rightarrow>
             (let q = mj_queue m ! i;
                  inst = jb_installation (mq_job q);
                  q' = q\<lparr>mq_job := (mq_job q)\<lparr>jb_not_before := until\<rparr>, mq_token := ''''\<rparr>;
                  paused = (case om_get (mj_paused m) inst of
                              None \<Rightarrow> om_put inst until (mj_paused m)
                            | Some cur \<Rightarrow> if cur < until then om_put inst until (mj_paused m) else mj_paused m)
              in (m\<lparr>mj_queue := (mj_queue m)[i := q'], mj_paused := paused\<rparr>, None))))"

definition jobs_len :: "mem_jobs \<Rightarrow> nat" where
  "jobs_len m = length (mj_queue m)"

definition dead_letters :: "mem_jobs \<Rightarrow> job list" where
  "dead_letters m = mj_dead m"

section \<open>Facts: the back-off\<close>

lemma backoff_loop_eq:
  "d < backoff_max \<Longrightarrow> 0 < d \<Longrightarrow> backoff_loop n d = min backoff_max (d * 2 ^ n)"
proof (induction n arbitrary: d)
  case (Suc n)
  show ?case
  proof (cases "backoff_max \<le> d * 2")
    case True
    have "d * 2 * 1 \<le> d * 2 * 2 ^ n" using Suc.prems by (intro mult_left_mono) auto
    then have "backoff_max \<le> d * 2 ^ Suc n" using True by (simp add: mult.assoc)
    then show ?thesis using True by simp
  next
    case False
    then show ?thesis using Suc.IH [of "d * 2"] Suc.prems by (simp add: mult.assoc)
  qed
qed simp

text \<open>The back-off after the n-th failed attempt is 30 seconds doubled n - 1 times and never more
  than an hour: the loop stops at the bound, so the doubling cannot overflow. Counts below
  one are taken as one.\<close>

theorem backoff_closed: "backoff n = min backoff_max (backoff_base * 2 ^ nat (n - 1))"
proof -
  have "backoff_base < backoff_max" "0 < backoff_base"
    by (simp_all add: backoff_base_def backoff_max_def second_def)
  from backoff_loop_eq [OF this] show ?thesis by (auto simp: backoff_def)
qed

section \<open>Facts: what an operation does to the queue\<close>

abbreviation qid :: "mem_job \<Rightarrow> string" where
  "qid q \<equiv> jb_id (mq_job q)"

abbreviation qkey :: "mem_job \<Rightarrow> string" where
  "qkey q \<equiv> order_key (mq_job q)"

lemma find_from_split:
  "find_from i now l qs = Some k \<Longrightarrow>
     \<exists>xs q ys. qs = xs @ q # ys \<and> k = i + length xs \<and> qid q = jb_id (wl_job l) \<and>
       mq_token q = wl_token l \<and> mq_token q \<noteq> '''' \<and> now < mq_until q"
proof (induction i now l qs rule: find_from.induct)
  case (2 i now l q qs)
  show ?case
  proof (cases "qid q = jb_id (wl_job l)")
    case True
    then show ?thesis using 2(2) by (intro exI [of _ "[]"] exI [of _ q] exI [of _ qs]) (auto split: if_splits)
  next
    case False
    then obtain xs r ys where "qs = xs @ r # ys" "k = Suc i + length xs" "qid r = jb_id (wl_job l)"
        "mq_token r = wl_token l" "mq_token r \<noteq> ''''" "now < mq_until r"
      using 2 by auto
    then show ?thesis by (intro exI [of _ "q # xs"] exI [of _ r] exI [of _ ys]) auto
  qed
qed simp

lemma find_lease_split:
  assumes "find_lease now l m = Some k"
  obtains xs q ys where "mj_queue m = xs @ q # ys" "k = length xs" "qid q = jb_id (wl_job l)"
    "mq_token q = wl_token l" "mq_token q \<noteq> ''''" "now < mq_until q"
  using find_from_split [of 0 now l "mj_queue m" k] assms by (auto simp: find_lease_def)

text \<open>A job that the scan may take: the first of its key, free, due, and of an installation not paused.\<close>

definition job_ready :: "int \<Rightarrow> (int, int) omap \<Rightarrow> mem_job list \<Rightarrow> mem_job \<Rightarrow> bool" where
  "job_ready now paused earlier q \<longleftrightarrow>
     qkey q \<notin> qkey ` set earlier \<and> mq_token q = '''' \<and> jb_not_before (mq_job q) \<le> now \<and>
     (\<forall>u. om_get paused (jb_installation (mq_job q)) = Some u \<longrightarrow> u \<le> now)"

lemma claim_scan_cases:
  "claim_scan now lease token seen paused qs = (r, p, qs') \<Longrightarrow>
     (case r of
        None \<Rightarrow> p = paused \<and> qs' = qs \<and>
          (\<forall>xs q ys. qs = xs @ q # ys \<longrightarrow> qkey q \<in> set seen \<or> \<not> job_ready now paused xs q)
      | Some q' \<Rightarrow> \<exists>xs q ys. qs = xs @ q # ys \<and> qs' = xs @ q' # ys \<and>
          q' = q\<lparr>mq_token := token, mq_until := now + lease\<rparr> \<and> qkey q \<notin> set seen \<and> job_ready now paused xs q)"
proof (induction qs arbitrary: seen r p qs')
  case Nil
  then show ?case by simp
next
  case (Cons q qs)
  let ?k = "qkey q"
  let ?now = "job_ready now paused [] q \<and> ?k \<notin> set seen"
  show ?case
  proof (cases ?now)
    case True
    then have "claim_scan now lease token seen paused (q # qs) =
        (Some (q\<lparr>mq_token := token, mq_until := now + lease\<rparr>),
         snd (claim_scan now lease token seen paused (q # qs)))"
      and "snd (snd (claim_scan now lease token seen paused (q # qs))) =
        q\<lparr>mq_token := token, mq_until := now + lease\<rparr> # qs"
      by (auto simp: job_ready_def Let_def not_less split: option.splits)
    then show ?thesis using Cons.prems True by (auto intro!: exI [of _ "[]"])
  next
    case False
    define seen' where "seen' = (if ?k \<in> set seen then seen else ?k # seen)"
    obtain r' p' qs'' where s: "claim_scan now lease token seen' paused qs = (r', p', qs'')"
      by (metis prod_cases3)
    have "claim_scan now lease token seen paused (q # qs) = (r', p', q # qs'')"
      using False s by (auto simp: seen'_def job_ready_def Let_def not_less not_le split: option.splits if_splits)
    then have eq: "r = r'" "p = p'" "qs' = q # qs''" using Cons.prems by auto
    have in': "x \<in> set seen' \<longleftrightarrow> x \<in> set seen \<or> x = ?k" for x by (auto simp: seen'_def)
    have ready: "job_ready now paused (q # xs) y \<longleftrightarrow> ?k \<noteq> qkey y \<and> job_ready now paused xs y" for xs y
      by (auto simp: job_ready_def)
    show ?thesis
    proof (cases r')
      case None
      have rest: "qkey y \<in> set seen' \<or> \<not> job_ready now paused zs y" if "qs = zs @ y # ys" for zs y ys
        using Cons.IH [OF s] None that by simp
      have "qkey y \<in> set seen \<or> \<not> job_ready now paused xs y" if "q # qs = xs @ y # ys" for xs y ys
      proof (cases xs)
        case Nil
        then show ?thesis using that False by auto
      next
        case tail: (Cons z zs)
        then have "qs = zs @ y # ys" "z = q" using that by auto
        then show ?thesis using rest [of zs y ys] ready [of zs y] tail by (auto simp: in')
      qed
      then show ?thesis using Cons.IH [OF s] None eq by auto
    next
      case (Some q')
      then obtain xs y ys where "qs = xs @ y # ys" "qs'' = xs @ q' # ys"
          "q' = y\<lparr>mq_token := token, mq_until := now + lease\<rparr>" "qkey y \<notin> set seen'" "job_ready now paused xs y"
        using Cons.IH [OF s] by auto
      then have "q # qs = (q # xs) @ y # ys \<and> qs' = (q # xs) @ q' # ys \<and>
          q' = y\<lparr>mq_token := token, mq_until := now + lease\<rparr> \<and> qkey y \<notin> set seen \<and> job_ready now paused (q # xs) y"
        using eq ready [of xs y] by (auto simp: in')
      then show ?thesis unfolding Some eq(1) option.case by blast
    qed
  qed
qed

text \<open>Only the first job of a key can be leased.\<close>

fun leased_first :: "mem_job list \<Rightarrow> bool" where
  "leased_first [] \<longleftrightarrow> True"
| "leased_first (q # qs) \<longleftrightarrow> (\<forall>r \<in> set qs. qkey r = qkey q \<longrightarrow> mq_token r = '''') \<and> leased_first qs"

lemma leased_first_append:
  "leased_first (xs @ ys) \<longleftrightarrow> leased_first xs \<and> leased_first ys \<and>
     (\<forall>x \<in> set xs. \<forall>y \<in> set ys. qkey y = qkey x \<longrightarrow> mq_token y = '''')"
  by (induction xs) auto

lemma leased_first_split:
  "leased_first (xs @ q # ys) \<Longrightarrow> mq_token q \<noteq> '''' \<Longrightarrow>
     qkey q \<notin> qkey ` set xs \<and> (\<forall>y \<in> set ys. qkey y = qkey q \<longrightarrow> mq_token y = '''')"
  by (auto simp: leased_first_append)

lemma leased_first_update:
  "leased_first (xs @ q # ys) \<Longrightarrow> qkey q' = qkey q \<Longrightarrow> mq_token q' = '''' \<or> mq_token q' = mq_token q \<Longrightarrow>
     leased_first (xs @ q' # ys)"
  by (auto simp: leased_first_append)

lemma leased_first_take:
  "leased_first (xs @ q # ys) \<Longrightarrow> qkey q' = qkey q \<Longrightarrow> qkey q \<notin> qkey ` set xs \<Longrightarrow> leased_first (xs @ q' # ys)"
  by (auto simp: leased_first_append)

text \<open>Names of jobs, in the order in which they were given.\<close>

lemma job_name_inj [simp]: "job_name m = job_name n \<longleftrightarrow> m = n"
  unfolding job_name_def by (metis nat_of_digits_itoa same_append_eq)

definition job_before :: "string \<Rightarrow> string \<Rightarrow> bool" where
  "job_before a b \<longleftrightarrow> (\<exists>m n. m < n \<and> a = job_name m \<and> b = job_name n)"

lemma order_key_same [simp]: "order_key (j\<lparr>jb_attempts := a, jb_last_error := e\<rparr>) = order_key j"
  by (simp add: order_key_def)

lemma expire_queue_cases:
  assumes "expire_queue now (q # qs) = (kept, dead)"
  obtains k d where "expire_queue now qs = (k, d)" "kept = q # k" "dead = d"
  | k d q' where "expire_queue now qs = (k, d)" "kept = q' # k" "dead = d" "qid q' = qid q" "qkey q' = qkey q"
      "mq_token q' = ''''" "jb_attempts (mq_job q') < max_attempts"
  | k d j where "expire_queue now qs = (k, d)" "kept = k" "dead = j # d" "jb_id j = qid q"
      "max_attempts \<le> jb_attempts j" "jb_attempts j = jb_attempts (mq_job q) + 1"
  using assms by (auto simp: Let_def split: prod.splits if_splits)

lemma expire_queue_kept:
  "expire_queue now qs = (kept, dead) \<Longrightarrow> r \<in> set kept \<Longrightarrow>
     \<exists>q \<in> set qs. qkey r = qkey q \<and> qid r = qid q \<and> (mq_token r = '''' \<or> mq_token r = mq_token q)"
proof (induction qs arbitrary: kept dead)
  case (Cons q qs)
  show ?case by (rule expire_queue_cases [OF Cons.prems(1)]) (use Cons in auto)
qed simp

lemma expire_queue_ids:
  "expire_queue now qs = (kept, dead) \<Longrightarrow> mset (map qid qs) = mset (map qid kept) + mset (map jb_id dead)"
proof (induction qs arbitrary: kept dead)
  case (Cons q qs)
  show ?case by (rule expire_queue_cases [OF Cons.prems]) (use Cons.IH in auto)
qed simp

lemma expire_queue_sorted:
  "expire_queue now qs = (kept, dead) \<Longrightarrow> sorted_wrt job_before (map qid qs) \<Longrightarrow>
     sorted_wrt job_before (map qid kept)"
proof (induction qs arbitrary: kept dead)
  case (Cons q qs)
  have sub: "set (map qid k) \<subseteq> set (map qid qs)" if "expire_queue now qs = (k, d)" for k d
    using expire_queue_kept [OF that] by force
  have all: "sorted_wrt job_before (map qid k)" if "expire_queue now qs = (k, d)" for k d
    using Cons.IH [OF that] Cons.prems(2) by simp
  have hd: "\<forall>x \<in> set (map qid k). job_before (qid q) x" if "expire_queue now qs = (k, d)" for k d
    using sub [OF that] Cons.prems(2) by auto
  show ?case
  proof (rule expire_queue_cases [OF Cons.prems(1)])
    fix k d assume e: "expire_queue now qs = (k, d)" "kept = q # k"
    show ?thesis using all [OF e(1)] hd [OF e(1)] e(2) by simp
  next
    fix k d q' assume e: "expire_queue now qs = (k, d)" "kept = q' # k" "qid q' = qid q"
    show ?thesis using all [OF e(1)] hd [OF e(1)] e(2,3) by simp
  next
    fix k d assume e: "expire_queue now qs = (k, d)" "kept = k"
    show ?thesis using all [OF e(1)] e(2) by simp
  qed
qed simp

lemma expire_queue_first:
  "expire_queue now qs = (kept, dead) \<Longrightarrow> leased_first qs \<Longrightarrow> leased_first kept"
proof (induction qs arbitrary: kept dead)
  case (Cons q qs)
  have sub: "mq_token r = ''''" if "expire_queue now qs = (k, d)" "r \<in> set k" "qkey r = qkey q" for k d r
    using expire_queue_kept [OF that(1,2)] that(3) Cons.prems(2) by auto
  show ?case by (rule expire_queue_cases [OF Cons.prems(1)]) (use Cons sub in auto)
qed simp

lemma expire_queue_attempts:
  "expire_queue now qs = (kept, dead) \<Longrightarrow> \<forall>q \<in> set qs. jb_attempts (mq_job q) < max_attempts \<Longrightarrow>
     (\<forall>q \<in> set kept. jb_attempts (mq_job q) < max_attempts) \<and> (\<forall>j \<in> set dead. jb_attempts j = max_attempts)"
proof (induction qs arbitrary: kept dead)
  case (Cons q qs)
  have all: "(\<forall>q \<in> set k. jb_attempts (mq_job q) < max_attempts) \<and> (\<forall>j \<in> set d. jb_attempts j = max_attempts)"
    if "expire_queue now qs = (k, d)" for k d
    using Cons.IH [OF that] Cons.prems(2) by simp
  have hd: "jb_attempts (mq_job q) < max_attempts" using Cons.prems(2) by simp
  show ?case
  proof (rule expire_queue_cases [OF Cons.prems(1)])
    fix k d assume e: "expire_queue now qs = (k, d)" "kept = q # k" "dead = d"
    show ?thesis using all [OF e(1)] hd e(2,3) by simp
  next
    fix k d q'
    assume e: "expire_queue now qs = (k, d)" "kept = q' # k" "dead = d" "jb_attempts (mq_job q') < max_attempts"
    show ?thesis using all [OF e(1)] e(2-4) by simp
  next
    fix k d j assume e: "expire_queue now qs = (k, d)" "kept = k" "dead = j # d"
      "max_attempts \<le> jb_attempts j" "jb_attempts j = jb_attempts (mq_job q) + 1"
    have "jb_attempts j = max_attempts" using hd e(4,5) by linarith
    then show ?thesis using all [OF e(1)] e(2,3) by simp
  qed
qed simp

section \<open>The queue and its workers\<close>

text \<open>
  The queue with the clock, the ids of the finished jobs and the leases the workers were given.
  A worker uses a lease it was given; between two readings of the clock by one operation time
  may pass.
\<close>

record job_world =
  jw_jobs :: mem_jobs
  jw_now :: int
  jw_done :: "string list"
  jw_leases :: "worker_lease list"

definition given_leases :: "(jobs_error + worker_lease) \<Rightarrow> worker_lease list \<Rightarrow> worker_lease list" where
  "given_leases r ls = (case r of Inr l \<Rightarrow> l # ls | Inl _ \<Rightarrow> ls)"

inductive job_step :: "job_world \<Rightarrow> job_world \<Rightarrow> bool" where
  enqueue: "enqueue c (jw_now w) j (jw_jobs w) = (m, r) \<Longrightarrow> job_step w (w\<lparr>jw_jobs := m\<rparr>)"
| claim: "claim_job c (jw_now w) d (jw_jobs w) = (m, r) \<Longrightarrow>
    job_step w (w\<lparr>jw_jobs := m, jw_leases := given_leases r (jw_leases w)\<rparr>)"
| extend: "\<lbrakk>l \<in> set (jw_leases w); jw_now w \<le> t; extend_lease c (jw_now w) t l d (jw_jobs w) = (m, r)\<rbrakk> \<Longrightarrow>
    job_step w (w\<lparr>jw_jobs := m, jw_now := t, jw_leases := given_leases r (jw_leases w)\<rparr>)"
| finish: "\<lbrakk>l \<in> set (jw_leases w); finish_job c (jw_now w) l (jw_jobs w) = (m, r)\<rbrakk> \<Longrightarrow>
    job_step w (w\<lparr>jw_jobs := m, jw_done := (if r = None then jb_id (wl_job l) # jw_done w else jw_done w)\<rparr>)"
| retry: "\<lbrakk>l \<in> set (jw_leases w); jw_now w \<le> t; retry_job c (jw_now w) t l d e (jw_jobs w) = (m, r)\<rbrakk> \<Longrightarrow>
    job_step w (w\<lparr>jw_jobs := m, jw_now := t\<rparr>)"
| pause: "\<lbrakk>l \<in> set (jw_leases w); pause_job c (jw_now w) l u (jw_jobs w) = (m, r)\<rbrakk> \<Longrightarrow>
    job_step w (w\<lparr>jw_jobs := m\<rparr>)"
| tick: "jw_now w \<le> t \<Longrightarrow> job_step w (w\<lparr>jw_now := t\<rparr>)"

text \<open>Tokens are never empty and never drawn twice.\<close>

definition fresh_tokens :: "(nat \<Rightarrow> string) \<Rightarrow> bool" where
  "fresh_tokens f \<longleftrightarrow> inj f \<and> '''' \<notin> range f"

inductive job_reachable :: "job_world \<Rightarrow> bool" where
  start: "fresh_tokens f \<Longrightarrow>
    job_reachable \<lparr>jw_jobs = new_mem_jobs f, jw_now = t, jw_done = [], jw_leases = []\<rparr>"
| step: "\<lbrakk>job_reachable w; job_step w w'\<rbrakk> \<Longrightarrow> job_reachable w'"

text \<open>Every job that was enqueued is queued, dead or finished, and only one of these.\<close>

definition accounted :: "mem_job list \<Rightarrow> job list \<Rightarrow> string list \<Rightarrow> nat \<Rightarrow> bool" where
  "accounted q dead finished n \<longleftrightarrow>
     mset (map qid q) + mset (map jb_id dead) + mset finished = mset (map job_name [1..<Suc n])"

lemma accounted_names: "accounted q dead finished n \<Longrightarrow> x \<in> set q \<Longrightarrow> qid x \<in> job_name ` {1..n}"
proof -
  assume a: "accounted q dead finished n" and x: "x \<in> set q"
  have "qid x \<in># mset (map qid q) + mset (map jb_id dead) + mset finished" using x by simp
  then have "qid x \<in># mset (map job_name [1..<Suc n])" using a unfolding accounted_def by (simp only:)
  then show ?thesis by (auto simp del: upt_Suc)
qed

lemma accounted_enqueue:
  "accounted q dead finished n \<Longrightarrow> qid x = job_name (Suc n) \<Longrightarrow> accounted (q @ [x]) dead finished (Suc n)"
  by (simp add: accounted_def)

lemma accounted_update: "accounted (xs @ q # ys) dead finished n \<Longrightarrow> qid q' = qid q \<Longrightarrow> accounted (xs @ q' # ys) dead finished n"
  by (simp add: accounted_def)

lemma accounted_finish: "accounted (xs @ q # ys) dead finished n \<Longrightarrow> accounted (xs @ ys) dead (qid q # finished) n"
  by (simp add: accounted_def)

lemma accounted_bury:
  "accounted (xs @ q # ys) dead finished n \<Longrightarrow> jb_id j = qid q \<Longrightarrow> accounted (xs @ ys) (dead @ [j]) finished n"
  by (simp add: accounted_def)

lemma accounted_expire:
  "accounted q dead finished n \<Longrightarrow> expire_queue t q = (kept, lost) \<Longrightarrow> accounted kept (dead @ lost) finished n"
  using expire_queue_ids [of t q kept lost] unfolding accounted_def mset_append map_append by (simp only: ac_simps)

definition jobs_inv :: "job_world \<Rightarrow> bool" where
  "jobs_inv w \<longleftrightarrow>
     (let m = jw_jobs w; q = mj_queue m
      in accounted q (mj_dead m) (jw_done w) (mj_seq m) \<and>
         sorted_wrt job_before (map qid q) \<and> leased_first q \<and>
         (\<forall>x \<in> set q. jb_attempts (mq_job x) < max_attempts) \<and> (\<forall>j \<in> set (mj_dead m). jb_attempts j = max_attempts) \<and>
         fresh_tokens (mj_tokens m) \<and>
         (\<forall>l \<in> set (jw_leases w). wl_token l \<in> mj_tokens m ` {..<mj_draws m} \<and>
            jb_id (wl_job l) \<in> job_name ` {1..mj_seq m} \<and>
            (\<forall>x \<in> set q. qid x = jb_id (wl_job l) \<longrightarrow> qkey x = order_key (wl_job l))))"

lemma jobs_inv_names:
  "jobs_inv w \<Longrightarrow> x \<in> set (mj_queue (jw_jobs w)) \<Longrightarrow> qid x \<in> job_name ` {1..mj_seq (jw_jobs w)}"
  by (auto simp: jobs_inv_def Let_def dest: accounted_names)

lemma jobs_inv_enqueue:
  assumes i: "jobs_inv w" and e: "enqueue c t j (jw_jobs w) = (m, r)"
  shows "jobs_inv (w\<lparr>jw_jobs := m\<rparr>)"
proof (cases "m = jw_jobs w")
  case True
  then show ?thesis using i by simp
next
  case False
  define n where "n = mj_seq (jw_jobs w)"
  obtain q where m: "m = (jw_jobs w)\<lparr>mj_seq := Suc n, mj_queue := mj_queue (jw_jobs w) @ [q]\<rparr>"
    and q: "qid q = job_name (Suc n)" "mq_token q = ''''" "jb_attempts (mq_job q) = 0"
    using False e by (auto simp: enqueue_def n_def Let_def split: if_splits option.splits)
  have names: "job_before (qid x) (qid q)" if "x \<in> set (mj_queue (jw_jobs w))" for x
    using jobs_inv_names [OF i that] q(1) by (force simp: job_before_def n_def)
  have other: "jb_id (wl_job l) \<noteq> qid q" if "l \<in> set (jw_leases w)" for l
    using i that q(1) by (auto simp: jobs_inv_def Let_def n_def)
  show ?thesis
    using i names other q unfolding jobs_inv_def m
    by (auto simp: Let_def n_def sorted_wrt_append leased_first_append max_attempts_def accounted_enqueue)
qed

lemma jobs_inv_update:
  assumes "jobs_inv w" "mj_queue (jw_jobs w) = xs @ q # ys" "qid q' = qid q" "qkey q' = qkey q"
    and "mq_token q' = '''' \<or> mq_token q' = mq_token q" "jb_attempts (mq_job q') < max_attempts"
  shows "jobs_inv (w\<lparr>jw_jobs := (jw_jobs w)\<lparr>mj_queue := xs @ q' # ys, mj_paused := p\<rparr>, jw_now := t\<rparr>)"
  using assms leased_first_update [of xs q ys q'] accounted_update [of xs q ys _ _ _ q'] unfolding jobs_inv_def Let_def
  by auto

lemma jobs_inv_remove:
  assumes "jobs_inv w" "mj_queue (jw_jobs w) = xs @ q # ys"
  shows "jobs_inv (w\<lparr>jw_jobs := (jw_jobs w)\<lparr>mj_queue := xs @ ys\<rparr>, jw_done := qid q # jw_done w\<rparr>)"
    and "jb_id j = qid q \<Longrightarrow> jb_attempts j = max_attempts \<Longrightarrow>
      jobs_inv (w\<lparr>jw_jobs := (jw_jobs w)\<lparr>mj_queue := xs @ ys, mj_dead := mj_dead (jw_jobs w) @ [j]\<rparr>, jw_now := t\<rparr>)"
  using assms unfolding jobs_inv_def Let_def
  by (auto simp: leased_first_append sorted_wrt_append accounted_finish accounted_bury)

lemma jobs_inv_lease:
  assumes "jobs_inv w" "l \<in> set (jw_leases w)" "wl_token l' = wl_token l" "wl_job l' = wl_job l"
  shows "jobs_inv (w\<lparr>jw_leases := l' # jw_leases w\<rparr>)"
  using assms by (simp add: jobs_inv_def Let_def)

lemma jobs_inv_now: "jobs_inv w \<Longrightarrow> jobs_inv (w\<lparr>jw_now := t\<rparr>)"
  by (simp add: jobs_inv_def)

lemma jobs_inv_expire:
  assumes "jobs_inv w"
  shows "jobs_inv (w\<lparr>jw_jobs := expire t (jw_jobs w)\<rparr>)"
proof -
  let ?q = "mj_queue (jw_jobs w)"
  obtain k d where e: "expire_queue t ?q = (k, d)" by fastforce
  have i: "sorted_wrt job_before (map qid ?q)" "leased_first ?q"
    "\<forall>q \<in> set ?q. jb_attempts (mq_job q) < max_attempts"
    using assms by (auto simp: jobs_inv_def Let_def)
  note f = expire_queue_sorted [OF e i(1)] expire_queue_first [OF e i(2)] expire_queue_attempts [OF e i(3)]
  have keys: "\<exists>q \<in> set ?q. qkey r = qkey q \<and> qid r = qid q" if "r \<in> set k" for r
    using expire_queue_kept [OF e that] by blast
  have keep: "\<forall>x \<in> set k. qid x = i \<longrightarrow> qkey x = key" if "\<forall>x \<in> set ?q. qid x = i \<longrightarrow> qkey x = key" for i key
  proof (intro ballI impI)
    fix x assume "x \<in> set k" "qid x = i"
    then obtain y where "y \<in> set ?q" "qkey x = qkey y" "qid y = i" using keys by metis
    then show "qkey x = key" using that by simp
  qed
  show ?thesis
    using assms f keep accounted_expire [OF _ e] unfolding jobs_inv_def Let_def expire_def e prod.case
    by simp blast
qed

lemma claim_job_cases:
  assumes "claim_job c now lease m0 = (m, r)"
  obtains (cancelled) "c" "m = m0" "r = Inl ErrCancelled"
  | (none) "\<not> c" "m = expire now m0" "r = Inl ErrNoJob"
      "\<And>xs q ys. mj_queue m = xs @ q # ys \<Longrightarrow> \<not> job_ready now (mj_paused m) xs q"
  | (taken) xs q ys q' p where "\<not> c" "mj_queue (expire now m0) = xs @ q # ys"
      "q' = q\<lparr>mq_token := mj_tokens m0 (mj_draws m0), mq_until := now + lease\<rparr>"
      "job_ready now (mj_paused m0) xs q"
      "m = (expire now m0)\<lparr>mj_queue := xs @ q' # ys, mj_paused := p, mj_draws := mj_draws m0 + 1\<rparr>"
      "r = Inr \<lparr>wl_job = mq_job q', wl_token = mq_token q', wl_until = now + lease\<rparr>"
proof (cases c)
  case True
  then show ?thesis using assms cancelled by (simp add: claim_job_def)
next
  case False
  let ?m = "expire now m0"
  have same: "mj_tokens ?m = mj_tokens m0" "mj_draws ?m = mj_draws m0" "mj_paused ?m = mj_paused m0"
    by (simp_all add: expire_def split: prod.splits)
  obtain o' p qs where s: "claim_scan now lease (mj_tokens m0 (mj_draws m0)) [] (mj_paused m0) (mj_queue ?m) = (o', p, qs)"
    by (metis prod_cases3)
  note sc = claim_scan_cases [OF s]
  show ?thesis
  proof (cases o')
    case None
    then show ?thesis using False assms s same sc none by (auto simp: claim_job_def)
  next
    case (Some q')
    then obtain xs q ys where t: "mj_queue ?m = xs @ q # ys" "qs = xs @ q' # ys"
        "q' = q\<lparr>mq_token := mj_tokens m0 (mj_draws m0), mq_until := now + lease\<rparr>" "job_ready now (mj_paused m0) xs q"
      using sc by auto
    show ?thesis
      by (rule taken [where p = p, OF False t(1,3,4)]) (use assms False s same Some t(2,3) in \<open>simp_all add: claim_job_def\<close>)
  qed
qed

lemma jobs_inv_take:
  assumes "jobs_inv w" "mj_queue (jw_jobs w) = xs @ q # ys" "qkey q \<notin> qkey ` set xs"
    and "q' = q\<lparr>mq_token := mj_tokens (jw_jobs w) (mj_draws (jw_jobs w)), mq_until := u\<rparr>"
  shows "jobs_inv (w\<lparr>jw_jobs := (jw_jobs w)\<lparr>mj_queue := xs @ q' # ys, mj_paused := p, mj_draws := mj_draws (jw_jobs w) + 1\<rparr>,
    jw_leases := \<lparr>wl_job = mq_job q', wl_token = mq_token q', wl_until = v\<rparr> # jw_leases w\<rparr>)"
proof -
  have s: "sorted_wrt job_before (map qid (xs @ q # ys))" and a: "leased_first (xs @ q # ys)"
    using assms(1,2) by (auto simp: jobs_inv_def Let_def)
  have irr: "\<not> job_before i i" for i by (auto simp: job_before_def)
  have uniq: "qid x \<noteq> qid q" if "x \<in> set xs \<union> set ys" for x
    using s that irr by (auto simp: sorted_wrt_append)
  have id: "qid q \<in> job_name ` {1..mj_seq (jw_jobs w)}"
    using jobs_inv_names [OF assms(1), of q] assms(2) by simp
  have tok: "mj_tokens (jw_jobs w) (mj_draws (jw_jobs w)) \<in> mj_tokens (jw_jobs w) ` {..<Suc (mj_draws (jw_jobs w))}"
    by simp
  have old: "x \<in> mj_tokens (jw_jobs w) ` {..<Suc (mj_draws (jw_jobs w))}"
    if "x \<in> mj_tokens (jw_jobs w) ` {..<mj_draws (jw_jobs w)}" for x
    using that by auto
  show ?thesis
    using assms(1,2) uniq id tok old leased_first_take [OF a _ assms(3), of q'] accounted_update [of xs q ys _ _ _ q'] assms(4)
    unfolding jobs_inv_def Let_def by auto
qed

lemma jobs_inv_start:
  "fresh_tokens f \<Longrightarrow> jobs_inv \<lparr>jw_jobs = new_mem_jobs f, jw_now = t, jw_done = [], jw_leases = []\<rparr>"
  by (simp add: jobs_inv_def new_mem_jobs_def accounted_def)

lemma jobs_inv_claim:
  assumes i: "jobs_inv w" and e: "claim_job c t d (jw_jobs w) = (m, r)"
  shows "jobs_inv (w\<lparr>jw_jobs := m, jw_leases := given_leases r (jw_leases w)\<rparr>)"
  using e
proof (cases rule: claim_job_cases)
  case cancelled
  then show ?thesis using i by (simp add: given_leases_def)
next
  case none
  then show ?thesis using jobs_inv_expire [OF i, of t] by (simp add: given_leases_def)
next
  case (taken xs q ys q' p)
  have same: "mj_tokens (expire t (jw_jobs w)) = mj_tokens (jw_jobs w)" "mj_draws (expire t (jw_jobs w)) = mj_draws (jw_jobs w)"
    by (simp_all add: expire_def split: prod.splits)
  have "qkey q \<notin> qkey ` set xs" using taken(4) by (simp add: job_ready_def)
  then show ?thesis
    using jobs_inv_take [OF jobs_inv_expire [OF i, of t], where q' = q' and u = "t + d" and p = p and v = "t + d"] taken same
    by (simp add: given_leases_def)
qed

lemma update_nth_split: "qs = xs @ q # ys \<Longrightarrow> k = length xs \<Longrightarrow> qs[k := q'] = xs @ q' # ys \<and> qs ! k = q"
  by simp

lemma remove_at_split: "mj_queue m = xs @ q # ys \<Longrightarrow> remove_at (length xs) m = m\<lparr>mj_queue := xs @ ys\<rparr>"
  by (simp add: remove_at_def)

lemma jobs_inv_attempts:
  "jobs_inv w \<Longrightarrow> mj_queue (jw_jobs w) = xs @ q # ys \<Longrightarrow> jb_attempts (mq_job q) < max_attempts"
  by (auto simp: jobs_inv_def Let_def)

lemma order_key_keep [simp]:
  "order_key (j\<lparr>jb_not_before := t\<rparr>) = order_key j"
  "order_key (j\<lparr>jb_attempts := a, jb_not_before := t, jb_last_error := e\<rparr>) = order_key j"
  by (simp_all add: order_key_def)

lemma jobs_inv_extend:
  assumes i: "jobs_inv w" and l: "l \<in> set (jw_leases w)"
    and e: "extend_lease c now t l d (jw_jobs w) = (m, r)"
  shows "jobs_inv (w\<lparr>jw_jobs := m, jw_now := t, jw_leases := given_leases r (jw_leases w)\<rparr>)"
proof (cases "c \<or> find_lease now l (jw_jobs w) = None")
  case True
  then show ?thesis
    using e i by (auto simp: extend_lease_def given_leases_def jobs_inv_now split: if_splits)
next
  case False
  then obtain k where k: "find_lease now l (jw_jobs w) = Some k" by auto
  then obtain xs q ys where f: "mj_queue (jw_jobs w) = xs @ q # ys" "k = length xs"
    by (rule find_lease_split)
  let ?q = "q\<lparr>mq_until := t + d\<rparr>"
  have m: "m = (jw_jobs w)\<lparr>mj_queue := xs @ ?q # ys\<rparr>" and r: "r = Inr (l\<lparr>wl_until := t + d\<rparr>)"
    using e False k f by (simp_all add: extend_lease_def)
  have "jobs_inv (w\<lparr>jw_jobs := (jw_jobs w)\<lparr>mj_queue := xs @ ?q # ys, mj_paused := mj_paused (jw_jobs w)\<rparr>, jw_now := t\<rparr>)"
    by (rule jobs_inv_update [OF i f(1)]) (use jobs_inv_attempts [OF i f(1)] in simp_all)
  from jobs_inv_lease [OF this, of l "l\<lparr>wl_until := t + d\<rparr>"] show ?thesis
    using l by (simp add: m r given_leases_def)
qed

lemma jobs_inv_finish:
  assumes i: "jobs_inv w" and e: "finish_job c now l (jw_jobs w) = (m, r)"
  shows "jobs_inv (w\<lparr>jw_jobs := m, jw_done := (if r = None then jb_id (wl_job l) # jw_done w else jw_done w)\<rparr>)"
proof (cases "c \<or> find_lease now l (jw_jobs w) = None")
  case True
  then show ?thesis using e i by (auto simp: finish_job_def split: if_splits)
next
  case False
  then obtain k where k: "find_lease now l (jw_jobs w) = Some k" by auto
  then obtain xs q ys where f: "mj_queue (jw_jobs w) = xs @ q # ys" "k = length xs" "qid q = jb_id (wl_job l)"
    by (rule find_lease_split)
  then show ?thesis
    using jobs_inv_remove(1) [OF i f(1)] e False k by (simp add: finish_job_def remove_at_split)
qed

lemma jobs_inv_retry:
  assumes i: "jobs_inv w" and e: "retry_job c now t l d cause (jw_jobs w) = (m, r)"
  shows "jobs_inv (w\<lparr>jw_jobs := m, jw_now := t\<rparr>)"
proof (cases "c \<or> find_lease now l (jw_jobs w) = None")
  case True
  then show ?thesis using e i by (auto simp: retry_job_def jobs_inv_now split: if_splits)
next
  case False
  then obtain k where k: "find_lease now l (jw_jobs w) = Some k" by auto
  then obtain xs q ys where f: "mj_queue (jw_jobs w) = xs @ q # ys" "k = length xs"
    by (rule find_lease_split)
  define j where "j = (mq_job q)\<lparr>jb_attempts := jb_attempts (mq_job q) + 1,
    jb_last_error := (case cause of None \<Rightarrow> '''' | Some c \<Rightarrow> c)\<rparr>"
  have j: "jb_id j = qid q" "order_key (j\<lparr>jb_not_before := t + d\<rparr>) = qkey q" "jb_attempts j = jb_attempts (mq_job q) + 1"
    by (simp_all add: j_def order_key_def)
  show ?thesis
  proof (cases "max_attempts \<le> jb_attempts j")
    case True
    then have "jb_attempts j = max_attempts" using jobs_inv_attempts [OF i f(1)] j(3) by linarith
    then show ?thesis
      using jobs_inv_remove(2) [OF i f(1) j(1)] e False k f True [unfolded j(3)]
      by (auto simp: retry_job_def Let_def remove_at_split j_def [symmetric])
  next
    case less: False
    let ?q = "q\<lparr>mq_job := j\<lparr>jb_not_before := t + d\<rparr>, mq_token := ''''\<rparr>"
    have "jobs_inv (w\<lparr>jw_jobs := (jw_jobs w)\<lparr>mj_queue := xs @ ?q # ys, mj_paused := mj_paused (jw_jobs w)\<rparr>, jw_now := t\<rparr>)"
      by (rule jobs_inv_update [OF i f(1)]) (use less j in simp_all)
    moreover have "m = (jw_jobs w)\<lparr>mj_queue := xs @ ?q # ys\<rparr>"
      using e False k f less j(3) by (simp add: retry_job_def Let_def j_def)
    ultimately show ?thesis by simp
  qed
qed

lemma jobs_inv_pause:
  assumes i: "jobs_inv w" and e: "pause_job c now l u (jw_jobs w) = (m, r)"
  shows "jobs_inv (w\<lparr>jw_jobs := m\<rparr>)"
proof (cases "c \<or> find_lease now l (jw_jobs w) = None")
  case True
  then show ?thesis using e i by (auto simp: pause_job_def split: if_splits)
next
  case False
  then obtain k where k: "find_lease now l (jw_jobs w) = Some k" by auto
  then obtain xs q ys where f: "mj_queue (jw_jobs w) = xs @ q # ys" "k = length xs"
    by (rule find_lease_split)
  let ?q = "q\<lparr>mq_job := (mq_job q)\<lparr>jb_not_before := u\<rparr>, mq_token := ''''\<rparr>"
  obtain p where m: "m = (jw_jobs w)\<lparr>mj_queue := xs @ ?q # ys, mj_paused := p\<rparr>"
    using e False k f by (auto simp: pause_job_def Let_def)
  have "jobs_inv (w\<lparr>jw_jobs := (jw_jobs w)\<lparr>mj_queue := xs @ ?q # ys, mj_paused := p\<rparr>, jw_now := jw_now w\<rparr>)"
    by (rule jobs_inv_update [OF i f(1)]) (use jobs_inv_attempts [OF i f(1)] in simp_all)
  then show ?thesis by (simp add: m)
qed

lemma jobs_inv_step: "job_step w w' \<Longrightarrow> jobs_inv w \<Longrightarrow> jobs_inv w'"
  by (induction rule: job_step.induct)
    (simp_all add: jobs_inv_enqueue jobs_inv_claim jobs_inv_extend jobs_inv_finish jobs_inv_retry
      jobs_inv_pause jobs_inv_now)

lemma jobs_inv_reachable: "job_reachable w \<Longrightarrow> jobs_inv w"
  by (induction rule: job_reachable.induct) (auto intro: jobs_inv_start jobs_inv_step)

text \<open>C2. No job is lost and none is duplicated, whatever the callers do and however leases run out: the
  ids given out are exactly, each once, those of the queued, the dead-lettered and the finished
  jobs; a dead letter has failed ten times and a queued job fewer.\<close>

theorem jobs_accounted:
  assumes "job_reachable w"
  shows "mset (map qid (mj_queue (jw_jobs w))) + mset (map jb_id (mj_dead (jw_jobs w))) + mset (jw_done w) =
      mset (map job_name [1..<Suc (mj_seq (jw_jobs w))]) \<and>
    distinct (map qid (mj_queue (jw_jobs w)) @ map jb_id (mj_dead (jw_jobs w)) @ jw_done w) \<and>
    (\<forall>q \<in> set (mj_queue (jw_jobs w)). jb_attempts (mq_job q) < 10) \<and>
    (\<forall>j \<in> set (mj_dead (jw_jobs w)). jb_attempts j = 10)"
proof -
  have i: "jobs_inv w" by (rule jobs_inv_reachable [OF assms])
  have a: "mset (map qid (mj_queue (jw_jobs w))) + mset (map jb_id (mj_dead (jw_jobs w))) + mset (jw_done w) =
      mset (map job_name [1..<Suc (mj_seq (jw_jobs w))])"
    using i by (simp only: jobs_inv_def Let_def accounted_def)
  have "mset (map qid (mj_queue (jw_jobs w)) @ map jb_id (mj_dead (jw_jobs w)) @ jw_done w) =
      mset (map job_name [1..<Suc (mj_seq (jw_jobs w))])"
    using a by (simp only: mset_append ac_simps)
  moreover have "distinct (map job_name [1..<Suc (mj_seq (jw_jobs w))])"
    by (simp add: distinct_map inj_on_def)
  ultimately have "distinct (map qid (mj_queue (jw_jobs w)) @ map jb_id (mj_dead (jw_jobs w)) @ jw_done w)"
    by (metis mset_eq_imp_distinct_iff)
  then show ?thesis using a i by (simp add: jobs_inv_def Let_def max_attempts_def)
qed

text \<open>C32. One worker per key: of the leases that were ever given out, two that the queue still honours and
  whose jobs have the same key (the same repository) are leases of the same job with the same
  token, so no two workers run jobs of one repository at the same time.\<close>

theorem one_worker_per_key:
  assumes "job_reachable w" "l \<in> set (jw_leases w)" "k \<in> set (jw_leases w)"
    and "find_lease t l (jw_jobs w) \<noteq> None" "find_lease t k (jw_jobs w) \<noteq> None"
    and "order_key (wl_job l) = order_key (wl_job k)"
  shows "jb_id (wl_job l) = jb_id (wl_job k) \<and> wl_token l = wl_token k"
proof -
  have i: "jobs_inv w" by (rule jobs_inv_reachable [OF assms(1)])
  obtain xs q ys where l: "mj_queue (jw_jobs w) = xs @ q # ys" "qid q = jb_id (wl_job l)"
      "mq_token q = wl_token l" "mq_token q \<noteq> ''''"
    using assms(4) by (auto elim: find_lease_split)
  obtain xs' q' ys' where k: "mj_queue (jw_jobs w) = xs' @ q' # ys'" "qid q' = jb_id (wl_job k)"
      "mq_token q' = wl_token k" "mq_token q' \<noteq> ''''"
    using assms(5) by (auto elim: find_lease_split)
  have key: "qkey x = order_key (wl_job v)"
    if "v \<in> set (jw_leases w)" "x \<in> set (mj_queue (jw_jobs w))" "qid x = jb_id (wl_job v)" for v x
    using i that by (simp add: jobs_inv_def Let_def)
  have q: "q \<in> set (mj_queue (jw_jobs w))" unfolding l(1) by simp
  have q': "q' \<in> set (mj_queue (jw_jobs w))" unfolding k(1) by simp
  note keys = key [OF assms(2) q l(2)] key [OF assms(3) q' k(2)]
  have "q' \<in> set (xs @ q # ys)" using q' by (simp only: l(1))
  moreover have "leased_first (xs @ q # ys)" using i l(1) by (simp add: jobs_inv_def Let_def)
  ultimately have "q' = q"
    using leased_first_split [of xs q ys] l(4) k(4) keys assms(6) by (auto simp: image_iff)
  then show ?thesis using l k by simp
qed

text \<open>Claims keep the order: a claim takes a job that is due, whose installation is not paused and
  whose key no job enqueued earlier still has, and gives it a token no lease had before; a
  claim that finds no job leaves none such in the queue. The queue is in the order of enqueuing.\<close>

theorem claim_in_order:
  assumes "job_reachable w" "claim_job False (jw_now w) d (jw_jobs w) = (m, r)"
  shows "sorted_wrt job_before (map qid (mj_queue m)) \<and>
    (case r of
       Inr l \<Rightarrow> wl_token l \<notin> wl_token ` set (jw_leases w) \<and>
         (\<exists>xs q ys. mj_queue m = xs @ q # ys \<and> mq_job q = wl_job l \<and> mq_token q = wl_token l \<and>
            qkey q \<notin> qkey ` set xs \<and> jb_not_before (wl_job l) \<le> jw_now w \<and>
            (\<forall>u. om_get (mj_paused (jw_jobs w)) (jb_installation (wl_job l)) = Some u \<longrightarrow> u \<le> jw_now w))
     | Inl e \<Rightarrow> e = ErrNoJob \<and>
         (\<forall>xs q ys. mj_queue m = xs @ q # ys \<longrightarrow> \<not> job_ready (jw_now w) (mj_paused m) xs q))"
proof -
  have i: "jobs_inv w" by (rule jobs_inv_reachable [OF assms(1)])
  have sorted: "sorted_wrt job_before (map qid (mj_queue m))"
    using jobs_inv_claim [OF i assms(2)] by (simp add: jobs_inv_def Let_def)
  have inj: "inj (mj_tokens (jw_jobs w))"
    and old: "\<forall>l \<in> set (jw_leases w). wl_token l \<in> mj_tokens (jw_jobs w) ` {..<mj_draws (jw_jobs w)}"
    using i by (simp_all add: jobs_inv_def Let_def fresh_tokens_def)
  have fresh: "mj_tokens (jw_jobs w) (mj_draws (jw_jobs w)) \<notin> wl_token ` set (jw_leases w)"
    using old injD [OF inj] by fastforce
  show ?thesis
    using assms(2)
  proof (cases rule: claim_job_cases)
    case none
    then show ?thesis using sorted by simp
  next
    case (taken xs q ys q' p)
    obtain v where v: "r = Inr v" "wl_job v = mq_job q'" "wl_token v = mq_token q'" "mq_job q' = mq_job q"
        "wl_token v = mj_tokens (jw_jobs w) (mj_draws (jw_jobs w))"
      using taken(3,6) by simp
    have "mj_queue m = xs @ q' # ys \<and> mq_job q' = wl_job v \<and> mq_token q' = wl_token v \<and>
        qkey q' \<notin> qkey ` set xs \<and> jb_not_before (wl_job v) \<le> jw_now w \<and>
        (\<forall>u. om_get (mj_paused (jw_jobs w)) (jb_installation (wl_job v)) = Some u \<longrightarrow> u \<le> jw_now w)"
      using taken(4,5) v by (simp add: job_ready_def)
    then show ?thesis using sorted fresh v(5) unfolding v(1) sum.case by metis
  qed simp
qed

end
