(* ===== verification/Branch_Policy.thy ===== *)
theory Branch_Policy
  imports Go_Strings "HOL-Library.Multiset"
begin

text \<open>
  The branch policy of the GitHub synchronisation (\<open>ghsync/policy.go\<close>): its modes and defaults, the
  layers it is put together from, the rule for one branch and the selection among all branches
  of a repository. Decoding the YAML of the repository's config file is left to the caller;
  \<open>parse_repo_config\<close> starts at the decoded fields.

  An instant is the number of nanoseconds since Go's zero time. A duration is a signed 64-bit
  number of nanoseconds, so the product that turns days into a duration wraps.
\<close>

section \<open>Modes and policies\<close>

record branch_policy =
  bp_mode :: string
  bp_active_days :: int
  bp_max_branches :: int

definition branch_modes :: "string list" where
  "branch_modes = [''active'', ''default'', ''all'']"

definition parse_branch_mode :: "string \<Rightarrow> string option" where
  "parse_branch_mode s =
     (let m = to_lower (trim_space s) in if m \<in> set branch_modes then Some m else None)"

definition default_branch_policy :: branch_policy where
  "default_branch_policy = \<lparr>bp_mode = ''active'', bp_active_days = 14, bp_max_branches = 200\<rparr>"

definition normalize_policy :: "branch_policy \<Rightarrow> branch_policy" where
  "normalize_policy p =
     \<lparr>bp_mode = (if bp_mode p = '''' then bp_mode default_branch_policy else bp_mode p),
      bp_active_days = (if bp_active_days p = 0 then bp_active_days default_branch_policy else bp_active_days p),
      bp_max_branches = (if bp_max_branches p = 0 then bp_max_branches default_branch_policy else bp_max_branches p)\<rparr>"

definition policy_ok :: "branch_policy \<Rightarrow> bool" where
  "policy_ok p \<longleftrightarrow>
     (bp_mode p = '''' \<or> bp_mode p \<in> set branch_modes) \<and> \<not> bp_active_days p < 0 \<and> \<not> bp_max_branches p < 0"

definition policy_over :: "branch_policy \<Rightarrow> branch_policy \<Rightarrow> branch_policy" where
  "policy_over p q =
     \<lparr>bp_mode = (if bp_mode q \<noteq> '''' then bp_mode q else bp_mode p),
      bp_active_days = (if bp_active_days q \<noteq> 0 then bp_active_days q else bp_active_days p),
      bp_max_branches = (if bp_max_branches q \<noteq> 0 then bp_max_branches q else bp_max_branches p)\<rparr>"

section \<open>The config file\<close>

record repo_config =
  rc_github :: branch_policy
  rc_code_sync :: "bool option"
  rc_project :: string

record github_section =
  gs_branches :: "string option"
  gs_active_days :: "int option"
  gs_max_branches :: "int option"

record repo_config_file =
  rf_github :: "github_section option"
  rf_code_sync :: "bool option"
  rf_project :: "string option"

datatype policy_problem = BadBranches | BadActiveDays | BadMaxBranches

definition no_policy :: branch_policy where
  "no_policy = \<lparr>bp_mode = '''', bp_active_days = 0, bp_max_branches = 0\<rparr>"

definition github_policy :: "github_section \<Rightarrow> policy_problem + branch_policy" where
  "github_policy g =
     (case (case gs_branches g of None \<Rightarrow> Some '''' | Some b \<Rightarrow> parse_branch_mode b) of
        None \<Rightarrow> Inl BadBranches
      | Some m \<Rightarrow>
          (case gs_active_days g of
             Some d \<Rightarrow> if d \<le> 0 then Inl BadActiveDays
                       else (case gs_max_branches g of
                               Some n \<Rightarrow> if n \<le> 0 then Inl BadMaxBranches else Inr \<lparr>bp_mode = m, bp_active_days = d, bp_max_branches = n\<rparr>
                             | None \<Rightarrow> Inr \<lparr>bp_mode = m, bp_active_days = d, bp_max_branches = 0\<rparr>)
           | None \<Rightarrow> (case gs_max_branches g of
                         Some n \<Rightarrow> if n \<le> 0 then Inl BadMaxBranches else Inr \<lparr>bp_mode = m, bp_active_days = 0, bp_max_branches = n\<rparr>
                       | None \<Rightarrow> Inr \<lparr>bp_mode = m, bp_active_days = 0, bp_max_branches = 0\<rparr>)))"

definition parse_repo_config :: "repo_config_file \<Rightarrow> policy_problem + repo_config" where
  "parse_repo_config f =
     (let rest = \<lparr>rc_github = no_policy, rc_code_sync = rf_code_sync f,
                  rc_project = (case rf_project f of None \<Rightarrow> '''' | Some t \<Rightarrow> trim_space t)\<rparr>
      in case rf_github f of
           None \<Rightarrow> Inr rest
         | Some g \<Rightarrow> map_sum id (\<lambda>p. rest\<lparr>rc_github := p\<rparr>) (github_policy g))"

definition effective_policy :: "branch_policy \<Rightarrow> repo_config \<Rightarrow> branch_policy" where
  "effective_policy page file = normalize_policy (policy_over page (rc_github file))"

section \<open>Branches\<close>

record branch =
  br_name :: string
  br_last_push :: int
  br_open_pr :: bool

definition wrap64 :: "int \<Rightarrow> int" where
  "wrap64 n = (n + 2 ^ 63) mod 2 ^ 64 - 2 ^ 63"

definition day_ns :: int where
  "day_ns = 24 * 3600 * 1000000000"

definition wants :: "branch_policy \<Rightarrow> string \<Rightarrow> branch \<Rightarrow> int \<Rightarrow> bool" where
  "wants p0 main b now =
     (let p = normalize_policy p0
      in if br_name b = main then True
         else if bp_mode p = ''all'' then True
         else if bp_mode p = ''active'' then
           br_open_pr b \<or>
           br_last_push b \<noteq> 0 \<and> \<not> br_last_push b < now + wrap64 (- wrap64 (bp_active_days p * day_ns))
         else False)"

record selection =
  se_active :: "string list"
  se_inactive :: "string list"

definition sorted_names :: "branch list \<Rightarrow> string list" where
  "sorted_names bs = sort (map br_name bs)"

definition by_recency :: "branch list \<Rightarrow> branch list" where
  "by_recency bs = sort_key (\<lambda>b. (- br_last_push b, br_name b)) bs"

definition select_branches :: "branch_policy \<Rightarrow> string \<Rightarrow> branch list \<Rightarrow> int \<Rightarrow> selection" where
  "select_branches p0 main bs now =
     (let p = normalize_policy p0;
          others = filter (\<lambda>b. br_name b \<noteq> main) bs;
          active = filter (\<lambda>b. wants p main b now) others;
          inactive = filter (\<lambda>b. \<not> wants p main b now) others;
          limit0 = (if main \<noteq> '''' then bp_max_branches p - 1 else bp_max_branches p);
          limit = nat (if limit0 < 0 then 0 else limit0);
          (act, inact) =
            (if bp_mode p = ''all'' \<and> limit < length active
             then (take limit (by_recency active), inactive @ drop limit (by_recency active))
             else (active, inactive))
      in \<lparr>se_active = (if main \<noteq> '''' then [main] else []) @ sorted_names act,
          se_inactive = sorted_names inact\<rparr>)"

section \<open>Facts\<close>

lemma normalize_policy_idem [simp]: "normalize_policy (normalize_policy p) = normalize_policy p"
  by (simp add: normalize_policy_def default_branch_policy_def)

lemma normalize_max: "policy_ok p \<Longrightarrow> 0 < bp_max_branches (normalize_policy p)"
  by (auto simp: policy_ok_def normalize_policy_def default_branch_policy_def)

text \<open>Days up to a century keep the duration within 64 bits.\<close>

lemma wrap64_id: "- (2 ^ 63) \<le> n \<Longrightarrow> n < 2 ^ 63 \<Longrightarrow> wrap64 n = n"
  by (simp add: wrap64_def)

lemma active_window:
  assumes "0 \<le> d" "d \<le> 106751"
  shows "wrap64 (- wrap64 (d * day_ns)) = - (d * day_ns)"
proof -
  have "0 \<le> d * day_ns" "d * day_ns \<le> 106751 * day_ns"
    using assms by (simp_all add: day_ns_def)
  then show ?thesis by (simp add: wrap64_id day_ns_def)
qed

lemma by_recency_perm [simp]: "mset (by_recency bs) = mset bs" "length (by_recency bs) = length bs" "set (by_recency bs) = set bs"
  by (simp_all add: by_recency_def)

lemma by_recency_first:
  assumes "a \<in> set (take n (by_recency bs))" "b \<in> set (drop n (by_recency bs))"
  shows "br_last_push b \<le> br_last_push a"
proof -
  have "sorted_wrt (\<lambda>a b. (- br_last_push a, br_name a) \<le> (- br_last_push b, br_name b)) (by_recency bs)"
    using sorted_sort_key [of "\<lambda>b. (- br_last_push b, br_name b)" bs] by (simp add: by_recency_def sorted_map)
  then have "sorted_wrt (\<lambda>a b. (- br_last_push a, br_name a) \<le> (- br_last_push b, br_name b))
      (take n (by_recency bs) @ drop n (by_recency bs))" by simp
  then have "(- br_last_push a, br_name a) \<le> (- br_last_push b, br_name b)"
    using assms unfolding sorted_wrt_append by blast
  then show ?thesis by (auto simp: less_eq_prod_def less_prod_def)
qed

text \<open>The selection splits the branches of a repository in two sorted lists without losing or
  repeating one: the default branch comes first among the active ones; apart from the mode \<open>all\<close>
  a branch is active exactly when the policy wants it; in the mode \<open>all\<close> at most the allowed number
  is active, and no inactive branch was pushed to more recently than an active one.\<close>

theorem select_branches_splits:
  fixes main :: string and bs :: "branch list" and now :: int
  assumes "policy_ok p"
  defines "sel \<equiv> select_branches p main bs now" and "q \<equiv> normalize_policy p"
  shows "\<exists>act inact. mset act + mset inact = mset (filter (\<lambda>b. br_name b \<noteq> main) bs) \<and>
    se_active sel = (if main = '''' then [] else [main]) @ sort (map br_name act) \<and>
    se_inactive sel = sort (map br_name inact) \<and>
    (bp_mode q \<noteq> ''all'' \<longrightarrow> (\<forall>b \<in> set act. wants p main b now) \<and> (\<forall>b \<in> set inact. \<not> wants p main b now)) \<and>
    (bp_mode q = ''all'' \<longrightarrow> int (length (se_active sel)) \<le> bp_max_branches q \<and>
       (\<forall>a \<in> set act. \<forall>b \<in> set inact. br_last_push b \<le> br_last_push a))"
proof -
  define others where "others = filter (\<lambda>b. br_name b \<noteq> main) bs"
  define active where "active = filter (\<lambda>b. wants p main b now) others"
  define inactive where "inactive = filter (\<lambda>b. \<not> wants p main b now) others"
  define limit where "limit = nat (if main \<noteq> '''' then bp_max_branches q - 1 else bp_max_branches q)"
  define cut where "cut \<longleftrightarrow> bp_mode q = ''all'' \<and> limit < length active"
  define act where "act = (if cut then take limit (by_recency active) else active)"
  define inact where "inact = (if cut then inactive @ drop limit (by_recency active) else inactive)"
  have w: "wants q main b now = wants p main b now" for b
    by (simp add: wants_def q_def)
  have max: "0 < bp_max_branches q" using normalize_max [OF assms(1)] by (simp add: q_def)
  have limit': "nat (if (if main \<noteq> '''' then bp_max_branches q - 1 else bp_max_branches q) < 0 then 0
      else (if main \<noteq> '''' then bp_max_branches q - 1 else bp_max_branches q)) = limit"
    using max by (auto simp: limit_def)
  have sel: "se_active sel = (if main = '''' then [] else [main]) @ sort (map br_name act)"
    "se_inactive sel = sort (map br_name inact)"
    unfolding sel_def select_branches_def Let_def q_def [symmetric] limit' w
    by (simp_all add: sorted_names_def act_def inact_def cut_def active_def inactive_def others_def)
  have all: "inactive = []" if "bp_mode q = ''all''"
    using that by (simp add: inactive_def filter_empty_conv wants_def q_def)
  have parts: "mset active + mset inactive = mset others"
    by (simp add: active_def inactive_def multiset_partition [symmetric])
  have "mset act + mset inact = mset others"
  proof (cases cut)
    case True
    have "mset (take limit (by_recency active)) + mset (drop limit (by_recency active)) = mset active"
      by (simp flip: mset_append)
    then show ?thesis using True parts by (simp add: act_def inact_def ac_simps)
  qed (simp add: act_def inact_def parts)
  moreover have "int (length (se_active sel)) \<le> bp_max_branches q" if "bp_mode q = ''all''"
    using that max by (auto simp: sel act_def cut_def limit_def)
  moreover have "br_last_push b \<le> br_last_push a" if "bp_mode q = ''all''" "a \<in> set act" "b \<in> set inact" for a b
    using that all by_recency_first [of a limit active b] by (auto simp: act_def inact_def split: if_splits)
  moreover have "(\<forall>b \<in> set act. wants p main b now) \<and> (\<forall>b \<in> set inact. \<not> wants p main b now)"
    if "bp_mode q \<noteq> ''all''"
    using that by (simp add: act_def inact_def cut_def active_def inactive_def)
  ultimately show ?thesis
    using sel unfolding others_def by (intro exI [of _ act] exI [of _ inact]) blast
qed

end
