(* ===== verification/Go_Path.thy ===== *)
theory Go_Path
  imports Go_Strings
begin

text \<open>
  What the program uses of the Go packages \<open>unicode/utf8\<close>, \<open>path\<close> and \<open>path/filepath\<close> (on a system
  whose separator is the slash), from their documentation: decoding and validity of UTF-8,
  cleaning, base, directory and extension of a slash-separated path, local paths, and
  matching against shell patterns.
\<close>

section \<open>UTF-8\<close>

abbreviation byte :: "char \<Rightarrow> nat" where
  "byte c \<equiv> of_char c"

text \<open>The length of a sequence by its first byte, and the range of its second byte.\<close>

definition utf8_head :: "nat \<Rightarrow> (nat \<times> nat \<times> nat) option" where
  "utf8_head b =
     (if b < 128 then Some (1, 0, 0)
      else if b < 194 then None
      else if b < 224 then Some (2, 128, 191)
      else if b = 224 then Some (3, 160, 191)
      else if b = 237 then Some (3, 128, 159)
      else if b < 240 then Some (3, 128, 191)
      else if b = 240 then Some (4, 144, 191)
      else if b < 244 then Some (4, 128, 191)
      else if b = 244 then Some (4, 128, 143)
      else None)"

definition cont_byte :: "char \<Rightarrow> bool" where
  "cont_byte c \<longleftrightarrow> 128 \<le> byte c \<and> byte c < 192"

text \<open>The number of bytes of the valid sequence a string starts with, none when there is none.\<close>

definition rune_size :: "string \<Rightarrow> nat option" where
  "rune_size s =
     (case s of
        [] \<Rightarrow> None
      | c # r \<Rightarrow>
          (case utf8_head (byte c) of
             None \<Rightarrow> None
           | Some (n, lo, hi) \<Rightarrow>
               if n = 1 then Some 1
               else if length r < n - 1 then None
               else if lo \<le> byte (r ! 0) \<and> byte (r ! 0) \<le> hi \<and> list_all cont_byte (take (n - 2) (tl r)) then Some n
               else None))"

text \<open>The rune a string starts with and its width; an invalid byte is \<open>RuneError\<close> of width 1.\<close>

definition rune_error :: nat where
  "rune_error = 65533"

definition decode_rune :: "string \<Rightarrow> nat \<times> nat" where
  "decode_rune s =
     (case rune_size s of
        None \<Rightarrow> (rune_error, if s = [] then 0 else 1)
      | Some n \<Rightarrow>
          (let b = map byte (take n s)
           in (if n = 1 then b ! 0
               else if n = 2 then (b ! 0 - 192) * 64 + (b ! 1 - 128)
               else if n = 3 then ((b ! 0 - 224) * 64 + (b ! 1 - 128)) * 64 + (b ! 2 - 128)
               else (((b ! 0 - 240) * 64 + (b ! 1 - 128)) * 64 + (b ! 2 - 128)) * 64 + (b ! 3 - 128), n)))"

lemma rune_size_bounds: "rune_size s = Some n \<Longrightarrow> 1 \<le> n \<and> n \<le> 4 \<and> n \<le> length s"
  by (cases s) (auto simp: rune_size_def utf8_head_def Suc_le_eq split: if_splits option.splits)

function utf8_valid :: "string \<Rightarrow> bool" where
  "utf8_valid s =
     (if s = [] then True
      else (case rune_size s of None \<Rightarrow> False | Some n \<Rightarrow> utf8_valid (drop n s)))"
  by pat_completeness auto
termination
  by (relation "measure length") (auto dest: rune_size_bounds)

declare utf8_valid.simps [simp del]

text \<open>\<open>utf8.FullRune\<close>: whether more bytes could not change how the string starts.\<close>

definition full_rune :: "string \<Rightarrow> bool" where
  "full_rune s =
     (case s of
        [] \<Rightarrow> False
      | c # r \<Rightarrow>
          (case utf8_head (byte c) of
             None \<Rightarrow> True
           | Some (n, lo, hi) \<Rightarrow>
               n \<le> length s \<or> (1 < length s \<and> (byte (r ! 0) < lo \<or> hi < byte (r ! 0))) \<or>
               (2 < length s \<and> \<not> cont_byte (r ! 1))))"

definition rune_start :: "char \<Rightarrow> bool" where
  "rune_start c \<longleftrightarrow> \<not> cont_byte c"

section \<open>Paths\<close>

fun clean_parts :: "bool \<Rightarrow> string list \<Rightarrow> string list \<Rightarrow> string list" where
  "clean_parts rooted out [] = rev out"
| "clean_parts rooted out (p # ps) =
     (if p = '''' \<or> p = ''.'' then clean_parts rooted out ps
      else if p = ''..'' then
        (case out of
           [] \<Rightarrow> clean_parts rooted (if rooted then [] else [p]) ps
         | q # qs \<Rightarrow> clean_parts rooted (if q = ''..'' then p # out else qs) ps)
      else clean_parts rooted (p # out) ps)"

definition is_abs :: "string \<Rightarrow> bool" where
  "is_abs p \<longleftrightarrow> has_prefix p ''/''"

definition path_clean :: "string \<Rightarrow> string" where
  "path_clean p =
     (let s = (if is_abs p then ''/'' else '''') @ join_with ''/'' (clean_parts (is_abs p) [] (split_on CHR ''/'' p))
      in if s = '''' then ''.'' else s)"

text \<open>The part after the last slash and the part up to it.\<close>

definition after_slash :: "string \<Rightarrow> string" where
  "after_slash p = rev (takeWhile (\<lambda>c. c \<noteq> CHR ''/'') (rev p))"

definition upto_slash :: "string \<Rightarrow> string" where
  "upto_slash p = rev (dropWhile (\<lambda>c. c \<noteq> CHR ''/'') (rev p))"

definition path_base :: "string \<Rightarrow> string" where
  "path_base p =
     (if p = '''' then ''.''
      else
        (let b = after_slash (rev (dropWhile (\<lambda>c. c = CHR ''/'') (rev p)))
         in if b = '''' then ''/'' else b))"

definition path_dir :: "string \<Rightarrow> string" where
  "path_dir p = path_clean (upto_slash p)"

definition path_ext :: "string \<Rightarrow> string" where
  "path_ext p =
     (let b = after_slash p
      in if CHR ''.'' \<in> set b then CHR ''.'' # rev (takeWhile (\<lambda>c. c \<noteq> CHR ''.'') (rev b)) else '''')"

definition is_local :: "string \<Rightarrow> bool" where
  "is_local p \<longleftrightarrow>
     \<not> is_abs p \<and> p \<noteq> '''' \<and>
     (let q = (if list_ex (\<lambda>x. x = ''.'' \<or> x = ''..'') (split_on CHR ''/'' p) then path_clean p else p)
      in q \<noteq> ''..'' \<and> \<not> has_prefix q ''../'')"

section \<open>Shell patterns\<close>

text \<open>
  A pattern is read into its elements first; reading fails on a pattern with bad syntax. A class
  is a list of ranges of runes, possibly negated. A star matches bytes other than a slash, a
  question mark one rune other than a slash.
\<close>

datatype glob = Star | AnyRune | Literal char | Class bool "(nat \<times> nat) list"

definition get_esc :: "string \<Rightarrow> (nat \<times> string) option" where
  "get_esc s0 =
     (case s0 of
        [] \<Rightarrow> None
      | c # r \<Rightarrow>
          if c = CHR ''-'' \<or> c = CHR '']'' then None
          else
            (let s = (if c = CHR 0x5C then r else s0)
             in if s = [] then None
                else
                  (let (x, n) = decode_rune s
                   in if x = rune_error \<and> n = 1 then None
                      else if drop n s = [] then None
                      else Some (x, drop n s))))"

lemma get_esc_shorter: "get_esc s = Some (x, r) \<Longrightarrow> length r < length s"
  by (auto simp: get_esc_def decode_rune_def Let_def split: list.splits if_splits option.splits dest: rune_size_bounds)

function get_ranges :: "(nat \<times> nat) list \<Rightarrow> string \<Rightarrow> ((nat \<times> nat) list \<times> string) option" where
  "get_ranges acc s =
     (if acc \<noteq> [] \<and> has_prefix s '']'' then Some (rev acc, tl s)
      else
        (case get_esc s of
           None \<Rightarrow> None
         | Some (lo, r) \<Rightarrow>
             if has_prefix r ''-'' then
               (case get_esc (tl r) of
                  None \<Rightarrow> None
                | Some (hi, r') \<Rightarrow> get_ranges ((lo, hi) # acc) r')
             else get_ranges ((lo, lo) # acc) r))"
  by pat_completeness auto
termination
proof (relation "measure (\<lambda>(acc, s). length s)", goal_cases)
  case (2 acc s x2 lo r x2a hi r')
  then show ?case using get_esc_shorter [of s lo r] get_esc_shorter [of "tl r" hi r'] by auto
next
  case (3 acc s x2 lo r)
  then show ?case using get_esc_shorter [of s lo r] by auto
qed simp

declare get_ranges.simps [simp del]

lemma get_ranges_shorter: "get_ranges acc s = Some (rs, r) \<Longrightarrow> length r \<le> length s"
proof (induction acc s rule: get_ranges.induct)
  case (1 acc s)
  show ?case
  proof (cases "acc \<noteq> [] \<and> has_prefix s '']''")
    case True
    then show ?thesis using 1(3) by (subst (asm) get_ranges.simps) auto
  next
    case False
    then obtain lo r1 where e: "get_esc s = Some (lo, r1)"
      using 1(3) by (subst (asm) get_ranges.simps) (auto split: option.splits)
    note sh = get_esc_shorter [OF e]
    show ?thesis
    proof (cases "has_prefix r1 ''-''")
      case True
      then obtain hi r2 where e2: "get_esc (tl r1) = Some (hi, r2)" "get_ranges ((lo, hi) # acc) r2 = Some (rs, r)"
        using 1(3) False e by (subst (asm) get_ranges.simps) (auto split: option.splits)
      then have "length r \<le> length r2" using 1(1) False e True by auto
      then show ?thesis using get_esc_shorter [OF e2(1)] sh by simp
    next
      case nodash: False
      then have "get_ranges ((lo, lo) # acc) r1 = Some (rs, r)"
        using 1(3) False e by (subst (asm) get_ranges.simps) auto
      then have "length r \<le> length r1" using 1(2) False e nodash by auto
      then show ?thesis using sh by simp
    qed
  qed
qed

function parse_glob :: "string \<Rightarrow> glob list option" where
  "parse_glob [] = Some []"
| "parse_glob (c # s) =
     (if c = CHR ''*'' then map_option (Cons Star) (parse_glob s)
      else if c = CHR ''?'' then map_option (Cons AnyRune) (parse_glob s)
      else if c = CHR ''['' then
        (let neg = has_prefix s ''^''
         in case get_ranges [] (if neg then tl s else s) of
              None \<Rightarrow> None
            | Some (rs, r) \<Rightarrow> map_option (Cons (Class neg rs)) (parse_glob r))
      else if c = CHR 0x5C then
        (case s of [] \<Rightarrow> None | d # r \<Rightarrow> map_option (Cons (Literal d)) (parse_glob r))
      else map_option (Cons (Literal c)) (parse_glob s))"
  by pat_completeness auto
termination
proof (relation "measure length", goal_cases)
  case (4 c s neg x2 rs r)
  then have "length r \<le> length (if neg then tl s else s)" using get_ranges_shorter by metis
  also have "\<dots> \<le> length s" by simp
  finally show ?case by simp
qed auto

fun glob_match :: "glob list \<Rightarrow> string \<Rightarrow> bool" where
  "glob_match [] s \<longleftrightarrow> s = []"
| "glob_match (Literal c # gs) s \<longleftrightarrow> (case s of [] \<Rightarrow> False | d # r \<Rightarrow> d = c \<and> glob_match gs r)"
| "glob_match (AnyRune # gs) s \<longleftrightarrow>
     s \<noteq> [] \<and> hd s \<noteq> CHR ''/'' \<and> glob_match gs (drop (snd (decode_rune s)) s)"
| "glob_match (Class neg rs # gs) s \<longleftrightarrow>
     s \<noteq> [] \<and> (list_ex (\<lambda>(lo, hi). lo \<le> fst (decode_rune s) \<and> fst (decode_rune s) \<le> hi) rs \<noteq> neg) \<and>
     glob_match gs (drop (snd (decode_rune s)) s)"
| "glob_match (Star # gs) s \<longleftrightarrow>
     list_ex (\<lambda>n. CHR ''/'' \<notin> set (take n s) \<and> glob_match gs (drop n s)) [0..<Suc (length s)]"

text \<open>\<open>path.Match\<close>: none is \<open>ErrBadPattern\<close>.\<close>

definition path_match :: "string \<Rightarrow> string \<Rightarrow> bool option" where
  "path_match pat s = map_option (\<lambda>gs. glob_match gs s) (parse_glob pat)"


text \<open>\<open>strings.Contains\<close>.\<close>

definition str_contains :: "string \<Rightarrow> string \<Rightarrow> bool" where
  "str_contains s t \<longleftrightarrow> list_ex (\<lambda>n. has_prefix (drop n s) t) [0..<Suc (length s)]"

lemma str_contains_iff: "str_contains s t \<longleftrightarrow> (\<exists>a b. s = a @ t @ b)"
proof
  assume "str_contains s t"
  then obtain n where "has_prefix (drop n s) t" by (auto simp: str_contains_def list_ex_iff simp del: upt_Suc)
  then show "\<exists>a b. s = a @ t @ b" by (metis append_take_drop_id has_prefix_iff)
next
  assume "\<exists>a b. s = a @ t @ b"
  then obtain a b where s: "s = a @ t @ b" by blast
  then have "has_prefix (drop (length a) s) t" "length a \<in> set [0..<Suc (length s)]" by auto
  then show "str_contains s t" unfolding str_contains_def list_ex_iff by blast
qed

section \<open>Facts: the length of a cleaned path\<close>

definition weight :: "string list \<Rightarrow> nat" where
  "weight ps = sum_list (map (\<lambda>p. Suc (length p)) ps)"

lemma weight_simps [simp]: "weight [] = 0" "weight (p # ps) = Suc (length p) + weight ps"
    "weight (ps @ qs) = weight ps + weight qs" "weight (rev ps) = weight ps"
  by (simp_all add: weight_def rev_map [symmetric])

lemma weight_clean: "weight (clean_parts r out ps) + length (filter (\<lambda>p. p = '''') ps) \<le> weight out + weight ps"
proof (induction r out ps rule: clean_parts.induct)
  case (2 r out p ps)
  show ?case
  proof (cases "p = ''..'' \<and> out \<noteq> []")
    case True
    then obtain q qs where "out = q # qs" by (cases out) auto
    then show ?thesis using 2 True by (auto split: if_splits)
  next
    case False
    then show ?thesis using 2 by (auto split: list.splits)
  qed
qed simp

lemma length_join: "ps \<noteq> [] \<Longrightarrow> Suc (length (join_with ''/'' ps)) = weight ps"
proof (induction ps)
  case (Cons p ps)
  then show ?case by (cases ps) auto
qed simp

lemma weight_split: "weight (split_on c s) = Suc (length s)"
  by (induction s) (auto simp: split_on.simps split: list.splits)

lemma path_clean_shorter:
  assumes "s \<noteq> ''''" "last s = CHR ''/''" "s \<noteq> ''/''" "path_clean s \<noteq> ''.''"
  shows "length (path_clean s) < length s"
proof -
  obtain t where s: "s = t @ ''/''" using assms(1,2) by (metis append_butlast_last_id)
  have sp: "split_on CHR ''/'' (t @ ''/'') = split_on CHR ''/'' t @ ['''']" for t
    by (induction t) (auto split: list.splits)
  let ?ps = "split_on CHR ''/'' s"
  let ?c = "clean_parts (is_abs s) [] ?ps"
  have e: "filter (\<lambda>p. p = '''') ?ps \<noteq> []" by (simp add: s sp)
  have w: "weight ?c + length (filter (\<lambda>p. p = '''') ?ps) \<le> Suc (length s)"
    using weight_clean [of "is_abs s" "[]" ?ps] by (simp add: weight_split)
  show ?thesis
  proof (cases "is_abs s")
    case True
    then obtain u where u: "t = CHR ''/'' # u"
      using assms(3) s by (cases t) (auto simp: is_abs_def has_prefix_def split: if_splits)
    have "2 \<le> length (filter (\<lambda>p. p = '''') ?ps)"
      by (simp add: s sp u)
    then have "weight ?c < length s" using w by simp
    then show ?thesis
      using True length_join [of ?c] assms(3) s u by (cases "?c = []") (auto simp: path_clean_def)
  next
    case False
    have "1 \<le> length (filter (\<lambda>p. p = '''') ?ps)" using e by (cases "filter (\<lambda>p. p = '''') ?ps") auto
    then have "weight ?c \<le> length s" using w by simp
    moreover have "?c \<noteq> []" using False assms(4) by (auto simp: path_clean_def)
    ultimately show ?thesis
      using False length_join [of ?c] assms(4) by (auto simp: path_clean_def Let_def split: if_splits)
  qed
qed

lemma upto_slash_props: "length (upto_slash p) \<le> length p" "upto_slash p = '''' \<or> last (upto_slash p) = CHR ''/''"
proof -
  show "length (upto_slash p) \<le> length p" using length_dropWhile_le [of "\<lambda>c. c \<noteq> CHR ''/''" "rev p"] by (simp add: upto_slash_def)
  show "upto_slash p = '''' \<or> last (upto_slash p) = CHR ''/''"
    by (cases "dropWhile (\<lambda>c. c \<noteq> CHR ''/'') (rev p)")
      (auto simp: upto_slash_def dest: dropWhile_eq_Cons_conv [THEN iffD1])
qed

lemma path_dir_shorter:
  assumes "p \<noteq> ''''" "p \<noteq> ''/''" "path_dir p \<noteq> ''.''"
  shows "length (path_dir p) < length p"
proof (cases "upto_slash p = '''' \<or> upto_slash p = ''/''")
  case True
  then show ?thesis
  proof
    assume "upto_slash p = ''/''"
    moreover have "path_clean ''/'' = ''/''" by code_simp
    ultimately show ?thesis using assms(1,2) upto_slash_props(1) [of p]
      by (cases p; cases "tl p") (auto simp: path_dir_def upto_slash_def)
  qed (use assms(3) in \<open>simp add: path_dir_def path_clean_def is_abs_def has_prefix_def\<close>)
next
  case False
  then show ?thesis
    using path_clean_shorter [of "upto_slash p"] upto_slash_props [of p] assms(3)
    by (auto simp: path_dir_def)
qed


section \<open>Facts: paths in normal form\<close>

definition normal_part :: "string \<Rightarrow> bool" where
  "normal_part p \<longleftrightarrow> p \<noteq> '''' \<and> p \<noteq> ''.'' \<and> p \<noteq> ''..'' \<and> CHR ''/'' \<notin> set p"

definition normal_path :: "string list \<Rightarrow> bool" where
  "normal_path ps \<longleftrightarrow> ps \<noteq> [] \<and> list_all normal_part ps"

lemma join_append: "ps \<noteq> [] \<Longrightarrow> qs \<noteq> [] \<Longrightarrow> join_with ''/'' (ps @ qs) = join_with ''/'' ps @ ''/'' @ join_with ''/'' qs"
proof (induction ps)
  case (Cons p ps)
  then show ?case by (cases ps; cases qs) auto
qed simp

lemma split_normal: "normal_path ps \<Longrightarrow> split_on CHR ''/'' (join_with ''/'' ps) = ps"
  by (intro split_join) (auto simp: normal_path_def normal_part_def list_all_iff)

lemma not_abs_normal: "normal_path ps \<Longrightarrow> \<not> is_abs (join_with ''/'' ps @ s)"
proof -
  assume n: "normal_path ps"
  then obtain p qs where ps: "ps = p # qs" by (cases ps) (auto simp: normal_path_def)
  then obtain c r where "p = c # r" "c \<noteq> CHR ''/''"
    using n by (cases p) (auto simp: normal_path_def normal_part_def)
  then show ?thesis using ps by (cases qs) (auto simp: is_abs_def has_prefix_def)
qed

lemma clean_parts_normal:
  "list_all (\<lambda>p. p = '''' \<or> normal_part p) ps \<Longrightarrow>
     clean_parts r out ps = rev out @ filter (\<lambda>p. p \<noteq> '''') ps"
  by (induction r out ps rule: clean_parts.induct) (auto simp: normal_part_def split: list.splits)

lemma join_normal_nonempty: "normal_path ps \<Longrightarrow> join_with ''/'' ps \<noteq> ''''"
  using length_join [of ps] by (cases ps; cases "tl ps") (auto simp: normal_path_def normal_part_def)

lemma filter_normal: "list_all normal_part ps \<Longrightarrow> filter (\<lambda>p. p \<noteq> '''') ps = ps"
  by (induction ps) (auto simp: normal_part_def)

lemma path_clean_normal: "normal_path ps \<Longrightarrow> path_clean (join_with ''/'' ps) = join_with ''/'' ps"
  using not_abs_normal [of ps "''''"] join_normal_nonempty [of ps]
  by (simp add: path_clean_def split_normal clean_parts_normal list_all_iff normal_path_def
      filter_normal [unfolded list_all_iff])

lemma split_on_slash_end: "split_on CHR ''/'' (s @ ''/'') = split_on CHR ''/'' s @ ['''']"
  by (induction s) (auto split: list.splits)

lemma upto_slash_append: "CHR ''/'' \<notin> set p \<Longrightarrow> upto_slash (s @ p) = upto_slash s"
  unfolding upto_slash_def rev_append by (subst dropWhile_append2) auto

lemma after_slash_append: "CHR ''/'' \<notin> set p \<Longrightarrow> after_slash (s @ CHR ''/'' # p) = p"
proof -
  assume "CHR ''/'' \<notin> set p"
  then have "takeWhile (\<lambda>c. c \<noteq> CHR ''/'') (rev p @ CHR ''/'' # rev s) = rev p"
    by (subst takeWhile_append2) auto
  then show ?thesis by (simp add: after_slash_def)
qed

lemma path_dir_normal:
  "normal_path (ps @ [p]) \<Longrightarrow> path_dir (join_with ''/'' (ps @ [p])) = (if ps = [] then ''.'' else join_with ''/'' ps)"
proof (cases "ps = []")
  case True
  assume "normal_path (ps @ [p])"
  then have "upto_slash p = ''''" using True upto_slash_append [of p "''''"]
    by (simp add: normal_path_def normal_part_def upto_slash_def)
  then show ?thesis using True by (simp add: path_dir_def path_clean_def is_abs_def has_prefix_def)
next
  case False
  assume n: "normal_path (ps @ [p])"
  then have ps: "normal_path ps" and p: "CHR ''/'' \<notin> set p"
    using False by (auto simp: normal_path_def normal_part_def)
  have "upto_slash (join_with ''/'' (ps @ [p])) = join_with ''/'' ps @ ''/''"
    using False upto_slash_append [OF p, of "join_with ''/'' ps @ ''/''"] by (simp add: join_append upto_slash_def)
  moreover have "path_clean (join_with ''/'' ps @ ''/'') = join_with ''/'' ps"
    using not_abs_normal [OF ps, of "''/''"] join_normal_nonempty [OF ps] ps
    by (simp add: path_clean_def split_on_slash_end split_normal clean_parts_normal list_all_iff normal_path_def
        filter_normal [unfolded list_all_iff])
  ultimately show ?thesis using False by (simp add: path_dir_def)
qed

lemma path_base_normal: "normal_path (ps @ [p]) \<Longrightarrow> path_base (join_with ''/'' (ps @ [p])) = p"
proof -
  assume n: "normal_path (ps @ [p])"
  then have p: "CHR ''/'' \<notin> set p" "p \<noteq> ''''" by (auto simp: normal_path_def normal_part_def)
  then obtain q c where q: "p = q @ [c]" "c \<noteq> CHR ''/''" by (metis append_butlast_last_id last_in_set)
  have "takeWhile (\<lambda>c. c \<noteq> CHR ''/'') (rev p) = rev p" using p(1) by (subst takeWhile_eq_all_conv) auto
  then have "after_slash p = p" unfolding after_slash_def by (simp only: rev_rev_ident)
  then show ?thesis
    using p after_slash_append [OF p(1), of "join_with ''/'' ps"] q
    by (cases "ps = []") (auto simp: path_base_def join_append Let_def)
qed

text \<open>Cleaning leaves leading \<open>..\<close> elements and then normal ones; a local path has no leading ones.\<close>

lemma clean_parts_form:
  "\<forall>p \<in> set ps. CHR ''/'' \<notin> set p \<Longrightarrow> out = rev (replicate k ''..'' @ ns) \<Longrightarrow> list_all normal_part ns \<Longrightarrow>
     \<exists>j ms. clean_parts False out ps = replicate j ''..'' @ ms \<and> list_all normal_part ms"
proof (induction ps arbitrary: out k ns)
  case Nil
  then show ?case by auto
next
  case (Cons p ps)
  consider "p = '''' \<or> p = ''.''" | "p = ''..''" | "normal_part p"
    using Cons.prems(1) by (auto simp: normal_part_def)
  then show ?case
  proof cases
    case 1
    then show ?thesis using Cons.IH [OF _ Cons.prems(2,3)] Cons.prems(1) by auto
  next
    case 2
    show ?thesis
    proof (cases "ns = []")
      case True
      then have "out = replicate k ''..''" using Cons.prems(2) by simp
      then have "clean_parts False out (p # ps) = clean_parts False (rev (replicate (Suc k) ''..'' @ [])) ps"
        using 2 by (cases k) (auto simp: replicate_append_same)
      then show ?thesis using Cons.IH [of _ "Suc k" "[]"] Cons.prems(1) by auto
    next
      case False
      then obtain ms m where ns: "ns = ms @ [m]" by (metis append_butlast_last_id)
      then have "clean_parts False out (p # ps) = clean_parts False (rev (replicate k ''..'' @ ms)) ps"
        using 2 Cons.prems(2,3) by (auto simp: normal_part_def)
      then show ?thesis using Cons.IH [of _ k ms] Cons.prems(1,3) ns by auto
    qed
  next
    case 3
    then have "clean_parts False out (p # ps) = clean_parts False (rev (replicate k ''..'' @ (ns @ [p]))) ps"
      using Cons.prems(2) by (auto simp: normal_part_def)
    then show ?thesis using Cons.IH [of _ k "ns @ [p]"] Cons.prems(1,3) 3 by auto
  qed
qed

lemma local_clean_normal:
  assumes "is_local s" "path_clean s \<noteq> ''.''"
  shows "\<exists>ps. normal_path ps \<and> path_clean s = join_with ''/'' ps"
proof -
  have na: "\<not> is_abs s" using assms(1) by (simp add: is_local_def)
  let ?ps = "split_on CHR ''/'' s"
  have noslash: "\<forall>p \<in> set ?ps. CHR ''/'' \<notin> set p" using split_on_no_sep by auto
  obtain j ms where c: "clean_parts False [] ?ps = replicate j ''..'' @ ms" "list_all normal_part ms"
    using clean_parts_form [OF noslash, of "[]" 0 "[]"] by auto
  have pc: "path_clean s = join_with ''/'' (replicate j ''..'' @ ms)" and ne: "replicate j ''..'' @ ms \<noteq> []"
    using assms(2) na c(1) by (auto simp: path_clean_def Let_def split: if_splits)
  have "j = 0"
  proof (cases "list_ex (\<lambda>x. x = ''.'' \<or> x = ''..'') ?ps")
    case True
    then have l: "path_clean s \<noteq> ''..''" "\<not> has_prefix (path_clean s) ''../''"
      using assms(1) by (auto simp: is_local_def Let_def)
    show ?thesis
    proof (rule ccontr)
      assume "j \<noteq> 0"
      then obtain i where "j = Suc i" by (cases j) auto
      then show False
        using l unfolding pc by (cases "replicate i ''..'' @ ms") (auto simp: has_prefix_def)
    qed
  next
    case False
    then have "list_all (\<lambda>p. p = '''' \<or> normal_part p) ?ps"
      using noslash by (auto simp: list_ex_iff list_all_iff normal_part_def)
    then have "clean_parts False [] ?ps = filter (\<lambda>p. p \<noteq> '''') ?ps"
      using clean_parts_normal [of ?ps False "[]"] by simp
    then have "set (replicate j ''..'' @ ms) \<subseteq> set ?ps" unfolding c(1) by (simp only: filter_is_subset)
    then show ?thesis using False by (cases j) (auto simp: list_ex_iff)
  qed
  then show ?thesis using pc ne c(2) by (intro exI [of _ ms]) (simp add: normal_path_def)
qed

end
