(* ===== verification/Code_Filter.thy ===== *)
theory Code_Filter
  imports Go_Path
begin

text \<open>
  What of a repository may leave for the code graph (\<open>codefilter/codefilter.go\<close>): the decision for a
  file, the built-in list of secret-bearing names, the exclude globs and the look at the content.
  The matcher of absolute paths (an interface) is an argument of the options. Letters change
  case in ASCII only.
\<close>

section \<open>Decisions\<close>

datatype decision = SkipFile | MetadataOnly | ContentToo

definition default_max_file_bytes :: int where
  "default_max_file_bytes = 2 ^ 20"

definition sniff_bytes :: nat where
  "sniff_bytes = 8 * 1024"

record filter_options =
  fo_root :: string
  fo_max_file_bytes :: int
  fo_exclude_paths :: "(string \<Rightarrow> string option) option"
  fo_exclude :: "string list"

definition max_file_bytes :: "filter_options \<Rightarrow> int" where
  "max_file_bytes opts =
     (if fo_max_file_bytes opts \<le> 0 then default_max_file_bytes else fo_max_file_bytes opts)"

section \<open>The content\<close>

text \<open>An incomplete UTF-8 sequence at the end is dropped; i counts the bytes looked at from the end.\<close>

fun trim_partial_from :: "nat \<Rightarrow> nat \<Rightarrow> string \<Rightarrow> string" where
  "trim_partial_from 0 i b = b"
| "trim_partial_from (Suc n) i b =
     (if length b < i then b
      else if \<not> rune_start (b ! (length b - i)) then trim_partial_from n (Suc i) b
      else if \<not> full_rune (drop (length b - i) b) then take (length b - i) b
      else b)"

definition trim_partial_rune :: "string \<Rightarrow> string" where
  "trim_partial_rune b = trim_partial_from 3 1 b"

definition nul :: char where
  "nul = CHR 0x00"

definition sniff :: "string \<Rightarrow> bool \<Rightarrow> string" where
  "sniff head truncated =
     (if nul \<in> set (take sniff_bytes head) then ''binary''
      else
        (let h = (if truncated then trim_partial_rune head else head)
         in if \<not> utf8_valid h then ''invalid utf-8'' else ''''))"

definition is_text :: "string \<Rightarrow> bool \<Rightarrow> bool" where
  "is_text content truncated \<longleftrightarrow> sniff content truncated = ''''"

definition binary_exts :: "string list" where
  "binary_exts =
     [''.png'', ''.jpg'', ''.jpeg'', ''.gif'', ''.webp'', ''.avif'', ''.bmp'', ''.ico'', ''.tif'', ''.tiff'',
      ''.mp3'', ''.wav'', ''.aif'', ''.aiff'', ''.ogg'', ''.flac'', ''.m4a'',
      ''.mp4'', ''.mov'', ''.webm'', ''.avi'', ''.mkv'',
      ''.zip'', ''.gz'', ''.tgz'', ''.bz2'', ''.xz'', ''.7z'', ''.rar'',
      ''.pdf'', ''.woff'', ''.woff2'', ''.ttf'', ''.otf'', ''.eot'',
      ''.wasm'', ''.exe'', ''.dll'', ''.so'', ''.dylib'', ''.class'', ''.jar'', ''.pyc'']"

section \<open>The path\<close>

definition clean_rel :: "string \<Rightarrow> string option" where
  "clean_rel rel =
     (if rel = '''' \<or> nul \<in> set rel \<or> CHR 0x5C \<in> set rel then None
      else if is_abs rel \<or> \<not> is_local rel then None
      else (let clean = path_clean rel in if clean = ''.'' then None else Some clean))"

definition deny_names :: "string list" where
  "deny_names =
     [''.env'', ''.env.*'', ''*.pem'', ''*.key'', ''*.p12'', ''*.pfx'', ''id_rsa*'', ''id_ed25519*'',
      ''*.kdbx'', ''.npmrc'', ''.pypirc'', ''.netrc'', ''credentials*.json'']"

definition deny_under_config :: string where
  "deny_under_config = ''config/**/*secret*''"

text \<open>The elements but the last one are walked; below one named config any later element counts.\<close>

fun denied_below :: "string list \<Rightarrow> bool" where
  "denied_below [] \<longleftrightarrow> False"
| "denied_below (p # ps) \<longleftrightarrow>
     ps \<noteq> [] \<and> (p = ''config'' \<and> list_ex (\<lambda>q. str_contains q ''secret'') ps \<or> denied_below ps)"

definition denied :: "string \<Rightarrow> string option" where
  "denied rel =
     (let lower = to_lower (path_clean rel);
          base = path_base lower
      in case find (\<lambda>pat. path_match pat base = Some True) deny_names of
           Some pat \<Rightarrow> Some pat
         | None \<Rightarrow> if denied_below (split_on CHR ''/'' lower) then Some deny_under_config else None)"

section \<open>Exclude globs\<close>

text \<open>Each glob with its index; a bad one is reported by the index.\<close>

fun new_excludes_from :: "nat \<Rightarrow> string list \<Rightarrow> string list \<times> nat list" where
  "new_excludes_from i [] = ([], [])"
| "new_excludes_from i (x # xs) =
     (let (e, errs) = new_excludes_from (Suc i) xs;
          p0 = trim_space x;
          p1 = (if p0 \<noteq> ''/'' \<and> has_suffix p0 ''/'' then butlast p0 else p0);
          p2 = trim_prefix p1 ''/''
      in if p2 = '''' then (e, errs)
         else if path_match p2 '''' = None then (e, i # errs)
         else ((if CHR ''/'' \<in> set p2 then path_clean p2 else p2) # e, errs))"

definition new_excludes :: "string list \<Rightarrow> string list \<times> nat list" where
  "new_excludes patterns = new_excludes_from 0 patterns"

text \<open>The globs are tried on the path and on each directory above it.\<close>

function excludes_from :: "string list \<Rightarrow> string \<Rightarrow> string option" where
  "excludes_from e dir =
     (if dir = ''.'' \<or> dir = ''/'' \<or> dir = '''' then None
      else
        (let base = path_base dir
         in case find (\<lambda>pat. path_match pat (if CHR ''/'' \<in> set pat then dir else base) = Some True) e of
              Some pat \<Rightarrow> Some pat
            | None \<Rightarrow> excludes_from e (path_dir dir)))"
  by pat_completeness auto
termination
  by (relation "measure (\<lambda>(e, d). if d = ''.'' then 0 else length d)") (use path_dir_shorter in auto)

declare excludes_from.simps [simp del]

definition excludes_match :: "string list \<Rightarrow> string \<Rightarrow> string option" where
  "excludes_match e rel = (if e = [] \<or> rel = '''' then None else excludes_from e rel)"

section \<open>The decision\<close>

text \<open>\<open>filepath.Join\<close> of the root and the path.\<close>

definition path_join :: "string \<Rightarrow> string \<Rightarrow> string" where
  "path_join a b = path_clean (a @ ''/'' @ b)"

definition decide :: "string \<Rightarrow> int \<Rightarrow> string \<Rightarrow> filter_options \<Rightarrow> decision \<times> string" where
  "decide rel len head opts =
     (case clean_rel rel of
        None \<Rightarrow> (SkipFile, ''invalid path'')
      | Some clean \<Rightarrow>
     (case excludes_match (fo_exclude opts) clean of
        Some pat \<Rightarrow> (SkipFile, ''codeSyncExclude: '' @ pat)
      | None \<Rightarrow>
     (case (case fo_exclude_paths opts of
              None \<Rightarrow> None
            | Some m \<Rightarrow> if fo_root opts = '''' then None else m (path_join (fo_root opts) clean)) of
        Some pat \<Rightarrow> (SkipFile, ''excludePaths: '' @ pat)
      | None \<Rightarrow>
     (case denied clean of
        Some pat \<Rightarrow> (SkipFile, ''deny: '' @ pat)
      | None \<Rightarrow>
          if max_file_bytes opts < len then (MetadataOnly, ''too large'')
          else if to_lower (path_ext clean) \<in> set binary_exts then (MetadataOnly, ''binary'')
          else
            (let reason = sniff head (int (length head) < len)
             in if reason \<noteq> '''' then (MetadataOnly, reason) else (ContentToo, ''''))))))"


section \<open>Facts: the deny list\<close>

lemma glob_literals: "glob_match (map Literal l) s \<longleftrightarrow> s = l"
  by (induction l arbitrary: s) (auto split: list.splits)

lemma glob_star:
  "CHR ''/'' \<notin> set s \<Longrightarrow> glob_match (Star # gs) s \<longleftrightarrow> (\<exists>a b. s = a @ b \<and> glob_match gs b)"
proof -
  assume s: "CHR ''/'' \<notin> set s"
  have "glob_match (Star # gs) s \<longleftrightarrow> (\<exists>n \<le> length s. glob_match gs (drop n s))"
    using s by (auto simp: list_ex_iff less_Suc_eq_le simp del: upt_Suc dest: in_set_takeD)
  also have "\<dots> \<longleftrightarrow> (\<exists>a b. s = a @ b \<and> glob_match gs b)"
    by (metis append_eq_conv_conj append_take_drop_id le_add1 length_append)
  finally show ?thesis .
qed

lemma glob_literals_append: "glob_match (map Literal l @ gs) s \<longleftrightarrow> (\<exists>r. s = l @ r \<and> glob_match gs r)"
  by (induction l arbitrary: s) (auto split: list.splits)

lemma glob_shapes:
  assumes "CHR ''/'' \<notin> set s"
  shows "glob_match (Star # map Literal l) s \<longleftrightarrow> has_suffix s l"
    and "glob_match (map Literal l @ [Star]) s \<longleftrightarrow> has_prefix s l"
    and "glob_match (map Literal l @ Star # map Literal k) s \<longleftrightarrow> (\<exists>m. s = l @ m @ k)"
proof -
  show "glob_match (Star # map Literal l) s \<longleftrightarrow> has_suffix s l"
    unfolding glob_star [OF assms] glob_literals by (auto simp: has_suffix_iff)
  have "glob_match [Star] r" if "s = l @ r" for r
    using glob_star [of r "[]"] assms that by auto
  then show "glob_match (map Literal l @ [Star]) s \<longleftrightarrow> has_prefix s l"
    unfolding glob_literals_append by (auto simp: has_prefix_iff)
  have "glob_match (Star # map Literal k) r \<longleftrightarrow> (\<exists>m. r = m @ k)" if "s = l @ r" for r
    using glob_star [of r "map Literal k"] assms that by (auto simp: glob_literals)
  then show "glob_match (map Literal l @ Star # map Literal k) s \<longleftrightarrow> (\<exists>m. s = l @ m @ k)"
    unfolding glob_literals_append by blast
qed

text \<open>The names the built-in list is about.\<close>

definition secret_name :: "string \<Rightarrow> bool" where
  "secret_name b \<longleftrightarrow>
     b \<in> {''.env'', ''.npmrc'', ''.pypirc'', ''.netrc''} \<or>
     has_prefix b ''.env.'' \<or> has_prefix b ''id_rsa'' \<or> has_prefix b ''id_ed25519'' \<or>
     has_suffix b ''.pem'' \<or> has_suffix b ''.key'' \<or> has_suffix b ''.p12'' \<or> has_suffix b ''.pfx'' \<or> has_suffix b ''.kdbx'' \<or>
     (\<exists>m. b = ''credentials'' @ m @ ''.json'')"

lemma parse_deny_names:
  "parse_glob ''.env'' = Some (map Literal ''.env'')" "parse_glob ''.npmrc'' = Some (map Literal ''.npmrc'')"
  "parse_glob ''.pypirc'' = Some (map Literal ''.pypirc'')" "parse_glob ''.netrc'' = Some (map Literal ''.netrc'')"
  "parse_glob ''.env.*'' = Some (map Literal ''.env.'' @ [Star])" "parse_glob ''id_rsa*'' = Some (map Literal ''id_rsa'' @ [Star])"
  "parse_glob ''id_ed25519*'' = Some (map Literal ''id_ed25519'' @ [Star])"
  "parse_glob ''*.pem'' = Some (Star # map Literal ''.pem'')" "parse_glob ''*.key'' = Some (Star # map Literal ''.key'')"
  "parse_glob ''*.p12'' = Some (Star # map Literal ''.p12'')" "parse_glob ''*.pfx'' = Some (Star # map Literal ''.pfx'')"
  "parse_glob ''*.kdbx'' = Some (Star # map Literal ''.kdbx'')"
  "parse_glob ''credentials*.json'' = Some (map Literal ''credentials'' @ Star # map Literal ''.json'')"
  by (code_simp+)

lemma deny_names_secret:
  assumes "CHR ''/'' \<notin> set b"
  shows "find (\<lambda>pat. path_match pat b = Some True) deny_names \<noteq> None \<longleftrightarrow> secret_name b"
proof -
  have "find (\<lambda>pat. path_match pat b = Some True) deny_names \<noteq> None \<longleftrightarrow>
      (\<exists>pat \<in> set deny_names. path_match pat b = Some True)"
    by (auto simp: find_None_iff2 find_None_iff)
  also have "\<dots> \<longleftrightarrow> secret_name b"
    unfolding deny_names_def secret_name_def list.set bex_simps path_match_def parse_deny_names
    unfolding option.map option.inject glob_shapes [OF assms] glob_literals
    by blast
  finally show ?thesis .
qed

lemma to_lower_join: "to_lower (join_with ''/'' ps) = join_with ''/'' (map to_lower ps)"
  by (induction "''/''" ps rule: join_with.induct) (simp_all add: to_lower_def lower_char_def)

lemma denied_below_iff:
  "denied_below ps \<longleftrightarrow> (\<exists>i j. i < j \<and> j < length ps \<and> ps ! i = ''config'' \<and> str_contains (ps ! j) ''secret'')"
proof (induction ps)
  case (Cons p ps)
  show ?case (is "_ \<longleftrightarrow> ?R")
  proof
    assume "denied_below (p # ps)"
    then consider "p = ''config''" "list_ex (\<lambda>q. str_contains q ''secret'') ps" | "denied_below ps" by auto
    then show ?R
    proof cases
      case 1
      then obtain j where "j < length ps" "str_contains (ps ! j) ''secret''" by (auto simp: list_ex_iff in_set_conv_nth)
      then show ?thesis using 1(1) by (intro exI [of _ 0] exI [of _ "Suc j"]) auto
    next
      case 2
      then obtain i j where "i < j" "j < length ps" "ps ! i = ''config''" "str_contains (ps ! j) ''secret''"
        using Cons.IH by blast
      then show ?thesis by (intro exI [of _ "Suc i"] exI [of _ "Suc j"]) auto
    qed
  next
    assume ?R
    then obtain i j where ij: "i < j" "j < length (p # ps)" "(p # ps) ! i = ''config''" "str_contains ((p # ps) ! j) ''secret''"
      by blast
    then obtain k where k: "j = Suc k" "k < length ps" by (cases j) auto
    show "denied_below (p # ps)"
    proof (cases i)
      case 0
      then show ?thesis using ij k by (auto simp: list_ex_iff)
    next
      case (Suc h)
      then have "h < k" "ps ! h = ''config''" "str_contains (ps ! k) ''secret''" using ij k by auto
      then show ?thesis using Cons.IH k(2) by auto
    qed
  qed
qed simp


text \<open>Only the two cases of a letter are mapped to the small one.\<close>

lemma lower_char_fix: "\<not> (97 \<le> byte c \<and> byte c \<le> 122) \<Longrightarrow> lower_char d = c \<Longrightarrow> d = c"
  by (auto simp: lower_char_def less_eq_char_def split: if_splits)

lemma normal_part_lower: "normal_part p \<Longrightarrow> normal_part (to_lower p)"
proof -
  assume n: "normal_part p"
  have dot: "map lower_char p = replicate k CHR ''.'' \<Longrightarrow> p = replicate k CHR ''.''" for k
    by (induction k arbitrary: p) (auto intro: lower_char_fix)
  have "to_lower p \<noteq> ''.''" "to_lower p \<noteq> ''..''"
    using n dot [of 1] dot [of 2] by (auto simp: to_lower_def normal_part_def numeral_2_eq_2)
  moreover have "CHR ''/'' \<notin> set (to_lower p)"
    using n lower_char_fix [of "CHR ''/''"] by (auto simp: to_lower_def normal_part_def) metis
  ultimately show ?thesis using n by (simp add: normal_part_def to_lower_def)
qed

lemma normal_path_lower: "normal_path ps \<Longrightarrow> normal_path (map to_lower ps)"
  by (auto simp: normal_path_def list_all_iff normal_part_lower)

definition secret_path :: "string list \<Rightarrow> bool" where
  "secret_path ps \<longleftrightarrow>
     secret_name (to_lower (last ps)) \<or>
     (\<exists>i j. i < j \<and> j < length ps \<and> to_lower (ps ! i) = ''config'' \<and> str_contains (to_lower (ps ! j)) ''secret'')"

lemma denied_iff:
  assumes n: "normal_path ps"
  shows "denied (join_with ''/'' ps) \<noteq> None \<longleftrightarrow> secret_path ps"
proof -
  let ?ls = "map to_lower ps"
  have ls: "normal_path ?ls" by (rule normal_path_lower [OF n])
  have ne: "ps \<noteq> []" using n by (simp add: normal_path_def)
  have lower: "to_lower (path_clean (join_with ''/'' ps)) = join_with ''/'' ?ls"
    by (simp add: path_clean_normal [OF n] to_lower_join)
  have base: "path_base (join_with ''/'' ?ls) = to_lower (last ps)"
  proof -
    have "butlast ?ls @ [to_lower (last ps)] = ?ls" using ne by (metis append_butlast_last_id last_map map_is_Nil_conv)
    then show ?thesis using path_base_normal [of "butlast ?ls" "to_lower (last ps)"] ls by simp
  qed
  have "normal_part (to_lower (last ps))"
    using ls ne by (auto simp: normal_path_def list_all_iff)
  then have "CHR ''/'' \<notin> set (to_lower (last ps))" by (simp add: normal_part_def)
  note deny = deny_names_secret [OF this]
  have below: "denied_below ?ls \<longleftrightarrow> (\<exists>i j. i < j \<and> j < length ps \<and> to_lower (ps ! i) = ''config'' \<and>
      str_contains (to_lower (ps ! j)) ''secret'')"
    unfolding denied_below_iff length_map by (intro iff_exI conj_cong refl) auto
  have "denied (join_with ''/'' ps) \<noteq> None \<longleftrightarrow>
      find (\<lambda>pat. path_match pat (to_lower (last ps)) = Some True) deny_names \<noteq> None \<or> denied_below ?ls"
    unfolding denied_def Let_def lower base split_normal [OF ls]
    by (cases "find (\<lambda>pat. path_match pat (to_lower (last ps)) = Some True) deny_names") simp_all
  then show ?thesis unfolding secret_path_def below deny .
qed

section \<open>Facts: exclude globs cover what is below\<close>

definition hits :: "string list \<Rightarrow> string \<Rightarrow> string \<Rightarrow> bool" where
  "hits e path base \<longleftrightarrow>
     (\<exists>pat \<in> set e. path_match pat (if CHR ''/'' \<in> set pat then path else base) = Some True)"

definition excluded :: "string list \<Rightarrow> string list \<Rightarrow> bool" where
  "excluded e ps \<longleftrightarrow> (\<exists>k \<in> {1..length ps}. hits e (join_with ''/'' (take k ps)) (ps ! (k - 1)))"

lemma excluded_snoc: "excluded e (ps @ [p]) \<longleftrightarrow> excluded e ps \<or> hits e (join_with ''/'' (ps @ [p])) p"
proof -
  have "{1..length (ps @ [p])} = insert (Suc (length ps)) {1..length ps}" by auto
  moreover have "take k (ps @ [p]) = take k ps \<and> (ps @ [p]) ! (k - 1) = ps ! (k - 1)" if "k \<in> {1..length ps}" for k
    using that by (auto simp: nth_append)
  ultimately show ?thesis by (auto simp: excluded_def)
qed

lemma join_normal_not: "normal_path ps \<Longrightarrow> join_with ''/'' ps \<noteq> ''.'' \<and> join_with ''/'' ps \<noteq> ''/'' \<and> join_with ''/'' ps \<noteq> ''''"
proof -
  assume n: "normal_path ps"
  have "split_on CHR ''/'' ''.'' = [''.'']" "split_on CHR ''/'' ''/'' = ['''', '''']" by (code_simp, code_simp)
  then show ?thesis
    using split_normal [OF n] n join_normal_nonempty [OF n] by (auto simp: normal_path_def normal_part_def)
qed

lemma excludes_from_iff: "normal_path ps \<Longrightarrow> excludes_from e (join_with ''/'' ps) \<noteq> None \<longleftrightarrow> excluded e ps"
proof (induction ps rule: rev_induct)
  case Nil
  then show ?case by (simp add: normal_path_def)
next
  case (snoc p ps)
  let ?j = "join_with ''/'' (ps @ [p])"
  let ?hit = "\<lambda>pat. path_match pat (if CHR ''/'' \<in> set pat then ?j else p) = Some True"
  have step: "excludes_from e ?j = (case find ?hit e of Some pat \<Rightarrow> Some pat
      | None \<Rightarrow> excludes_from e (if ps = [] then ''.'' else join_with ''/'' ps))"
    using join_normal_not [OF snoc.prems]
    unfolding excludes_from.simps [of e ?j] Let_def path_base_normal [OF snoc.prems] path_dir_normal [OF snoc.prems]
    by (simp only: if_False simp_thms)
  have top: "excludes_from e ''.'' = None" by (simp add: excludes_from.simps)
  have hit: "find ?hit e \<noteq> None \<longleftrightarrow> hits e ?j p" by (auto simp: find_None_iff2 find_None_iff hits_def)
  show ?case
  proof (cases "ps = []")
    case True
    then show ?thesis using step top hit by (cases "find ?hit e") (simp_all add: excluded_def hits_def)
  next
    case False
    then have "normal_path ps" using snoc.prems by (simp add: normal_path_def)
    then show ?thesis using step hit snoc.IH False by (cases "find ?hit e") (simp_all add: excluded_snoc)
  qed
qed

lemma excludes_match_iff: "normal_path ps \<Longrightarrow> excludes_match e (join_with ''/'' ps) \<noteq> None \<longleftrightarrow> excluded e ps"
  using excludes_from_iff [of ps e] join_normal_not [of ps] by (auto simp: excludes_match_def excluded_def hits_def)

lemma clean_rel_normal: "clean_rel rel = Some c \<Longrightarrow> \<exists>ps. normal_path ps \<and> c = join_with ''/'' ps"
  using local_clean_normal [of rel] by (auto simp: clean_rel_def Let_def split: if_splits)

lemma decide_cases:
  assumes "clean_rel rel = Some c"
  shows "fst (decide rel len head opts) =
    (if excludes_match (fo_exclude opts) c = None \<and>
        (case fo_exclude_paths opts of None \<Rightarrow> True
         | Some m \<Rightarrow> fo_root opts = '''' \<or> m (path_join (fo_root opts) c) = None) \<and> denied c = None
     then if len \<le> max_file_bytes opts \<and> to_lower (path_ext c) \<notin> set binary_exts \<and> is_text head (int (length head) < len)
          then ContentToo else MetadataOnly
     else SkipFile)"
  using assms
  by (cases "excludes_match (fo_exclude opts) c"; cases "fo_exclude_paths opts"; cases "denied c")
    (simp_all add: decide_def is_text_def Let_def split: option.split)

text \<open>What may leave: a file is collected, with or without content, exactly when its path is a
  proper one inside the repository, no exclude glob matches it or a directory above it, no
  excluded absolute path covers it and neither its name is on the list of secret-bearing
  names nor does it lie below a config directory under a name with "secret" in it, whatever
  the letter case; its content is taken exactly when it also fits the cap, does not end in the
  extension of a binary format, and looks like text.\<close>

theorem decide_exact:
  "(fst (decide rel len head opts) \<noteq> SkipFile \<longleftrightarrow>
      (\<exists>ps. normal_path ps \<and> clean_rel rel = Some (join_with ''/'' ps) \<and> \<not> excluded (fo_exclude opts) ps \<and>
         (case fo_exclude_paths opts of
            None \<Rightarrow> True
          | Some m \<Rightarrow> fo_root opts = '''' \<or> m (path_join (fo_root opts) (join_with ''/'' ps)) = None) \<and>
         \<not> secret_path ps)) \<and>
   (fst (decide rel len head opts) = ContentToo \<longleftrightarrow>
      fst (decide rel len head opts) \<noteq> SkipFile \<and> len \<le> max_file_bytes opts \<and>
      to_lower (path_ext (the (clean_rel rel))) \<notin> set binary_exts \<and> is_text head (int (length head) < len))"
proof (cases "clean_rel rel")
  case None
  then show ?thesis by (simp add: decide_def)
next
  case (Some c)
  obtain ps where ps: "normal_path ps" "c = join_with ''/'' ps" using clean_rel_normal [OF Some] by blast
  have uniq: "normal_path qs \<and> join_with ''/'' ps = join_with ''/'' qs \<longleftrightarrow> qs = ps" for qs
    using split_normal ps(1) by metis
  have ex: "excludes_match (fo_exclude opts) c = None \<longleftrightarrow> \<not> excluded (fo_exclude opts) ps"
    unfolding ps(2) using excludes_match_iff [OF ps(1), of "fo_exclude opts"] by blast
  have de: "denied c = None \<longleftrightarrow> \<not> secret_path ps" unfolding ps(2) using denied_iff [OF ps(1)] by blast
  define ok where "ok qs \<longleftrightarrow> \<not> excluded (fo_exclude opts) qs \<and>
    (case fo_exclude_paths opts of
       None \<Rightarrow> True
     | Some m \<Rightarrow> fo_root opts = '''' \<or> m (path_join (fo_root opts) (join_with ''/'' qs)) = None) \<and> \<not> secret_path qs" for qs
  define plain where "plain \<longleftrightarrow> len \<le> max_file_bytes opts \<and> to_lower (path_ext c) \<notin> set binary_exts \<and>
    is_text head (int (length head) < len)"
  have d: "fst (decide rel len head opts) = (if ok ps then if plain then ContentToo else MetadataOnly else SkipFile)"
    unfolding decide_cases [OF Some] ex de ok_def plain_def unfolding ps(2) ..
  have "(\<exists>qs. normal_path qs \<and> Some c = Some (join_with ''/'' qs) \<and> ok qs) \<longleftrightarrow> ok ps"
    unfolding option.inject ps(2) using uniq by metis
  then show ?thesis
    unfolding Some option.sel d ok_def [symmetric] plain_def [symmetric] by simp
qed


section \<open>Facts: the start of a text looks like text\<close>

definition whole_rune :: "string \<Rightarrow> bool" where
  "whole_rune q \<longleftrightarrow> rune_size q = Some (length q)"

lemma rune_size_take: "rune_size s = Some n \<Longrightarrow> whole_rune (take n s)"
proof (cases s)
  case (Cons c r)
  assume n: "rune_size s = Some n"
  obtain m lo hi where h: "utf8_head (byte c) = Some (m, lo, hi)"
    using n Cons by (auto simp: rune_size_def split: option.splits)
  then have m: "m = n" using n Cons by (auto simp: rune_size_def split: if_splits)
  obtain k where k: "n = Suc k" using rune_size_bounds [OF n] by (cases n) auto
  have len: "length (take k r) = k" using rune_size_bounds [OF n] Cons k by simp
  have tl: "take j (tl (take (Suc j) r)) = take j (tl r)" for j by (cases r) simp_all
  show ?thesis
    using n h m k len Cons tl [of "k - 1"]
    by (cases k) (auto simp: whole_rune_def rune_size_def split: if_splits)
qed (simp add: rune_size_def)

lemma utf8_valid_append: "whole_rune q \<Longrightarrow> utf8_valid s \<Longrightarrow> utf8_valid (q @ s)"
proof -
  assume q: "whole_rune q" and s: "utf8_valid s"
  have "rune_size (q @ s) = Some (length q)"
  proof (cases q)
    case (Cons c r)
    obtain m lo hi where h: "utf8_head (byte c) = Some (m, lo, hi)"
      using q Cons by (auto simp: whole_rune_def rune_size_def split: option.splits)
    have "take (m - 2) (tl (r @ s)) = take (m - 2) (tl r)" "(r @ s) ! 0 = r ! 0"
      if "m = Suc (length r)" "m \<noteq> 1"
      using that by (cases r; simp)+
    then show ?thesis
      using q h Cons by (auto simp: whole_rune_def rune_size_def split: if_splits)
  qed (use q in \<open>simp add: whole_rune_def rune_size_def\<close>)
  then show ?thesis using s q by (subst utf8_valid.simps) (auto simp: whole_rune_def rune_size_def)
qed

text \<open>A cut valid string is a valid one and a proper part of a rune.\<close>

definition part_rune :: "string \<Rightarrow> bool" where
  "part_rune q \<longleftrightarrow> (\<exists>r. whole_rune (q @ r) \<and> q \<noteq> [] \<and> r \<noteq> [])"

lemma utf8_valid_take:
  "utf8_valid s \<Longrightarrow> \<exists>p q. take n s = p @ q \<and> utf8_valid p \<and> (q = [] \<or> part_rune q)"
proof (induction s arbitrary: n rule: utf8_valid.induct)
  case (1 s)
  show ?case
  proof (cases "s = []")
    case True
    then show ?thesis by (intro exI [of _ "[]"]) (simp add: utf8_valid.simps)
  next
    case False
    then obtain m where m: "rune_size s = Some m" "utf8_valid (drop m s)"
      using "1.prems" by (subst (asm) utf8_valid.simps) (auto split: option.splits)
    note w = rune_size_take [OF m(1)] rune_size_bounds [OF m(1)]
    show ?thesis
    proof (cases "n < m")
      case True
      have nil: "utf8_valid []" by (simp add: utf8_valid.simps)
      have "part_rune (take n s) \<or> take n s = []"
      proof (cases "n = 0")
        case False
        have "take m s = take n s @ drop n (take m s)" using True
          by (metis append_take_drop_id min.strict_order_iff take_take)
        moreover have "drop n (take m s) \<noteq> []" using True w(2) by simp
        ultimately show ?thesis using w(1) False \<open>s \<noteq> []\<close>
          unfolding part_rune_def by (metis take_eq_Nil)
      qed simp
      then show ?thesis using nil by (intro exI [of _ "[]"] exI [of _ "take n s"]) auto
    next
      case ge: False
      obtain p q where pq: "take (n - m) (drop m s) = p @ q" "utf8_valid p" "q = [] \<or> part_rune q"
        using "1.IH" [OF False m] by blast
      have "take n s = take m s @ take (n - m) (drop m s)" using ge by (simp add: take_add [symmetric])
      then have "take n s = (take m s @ p) @ q" using pq(1) by simp
      then show ?thesis using utf8_valid_append [OF w(1) pq(2)] pq(3) by blast
    qed
  qed
qed

lemma whole_rune_shape:
  assumes "whole_rune q"
  obtains c r lo hi where "q = c # r" "utf8_head (byte c) = Some (length q, lo, hi)" "list_all cont_byte r" "length q \<le> 4"
    "r \<noteq> [] \<Longrightarrow> lo \<le> byte (hd r) \<and> byte (hd r) \<le> hi" "rune_start c"
proof -
  obtain c r where q: "q = c # r" using assms by (cases q) (auto simp: whole_rune_def rune_size_def)
  obtain m lo hi where h: "utf8_head (byte c) = Some (m, lo, hi)"
    using assms q by (auto simp: whole_rune_def rune_size_def split: option.splits)
  have m: "m = length q" using assms q h by (auto simp: whole_rune_def rune_size_def split: if_splits)
  have "rune_start c" using h by (auto simp: rune_start_def cont_byte_def utf8_head_def split: if_splits)
  moreover have "length q \<le> 4" using rune_size_bounds [of q "length q"] assms by (simp add: whole_rune_def)
  moreover have "r \<noteq> [] \<Longrightarrow> lo \<le> byte (hd r) \<and> byte (hd r) \<le> hi"
    using assms q h m by (auto simp: whole_rune_def rune_size_def hd_conv_nth split: if_splits)
  moreover have "list_all cont_byte r"
  proof (cases r)
    case (Cons d t)
    have "128 \<le> lo \<and> hi < 192" using h m q Cons by (auto simp: utf8_head_def split: if_splits)
    then have "cont_byte d" using calculation(3) Cons by (auto simp: cont_byte_def)
    moreover have "list_all cont_byte t"
      using assms q h m Cons by (auto simp: whole_rune_def rune_size_def split: if_splits)
    ultimately show ?thesis using Cons by simp
  qed simp
  ultimately show ?thesis using that q h m by blast
qed

lemma trim_from_start:
  assumes "rune_start c" "list_all cont_byte r"
  shows "1 \<le> i \<Longrightarrow> i \<le> Suc (length r) \<Longrightarrow>
    trim_partial_from n i (p @ c # r) =
      (if length r + 2 \<le> n + i \<and> \<not> full_rune (c # r) then p else p @ c # r)"
proof (induction n arbitrary: i)
  case (Suc n)
  show ?case
  proof (cases "i = Suc (length r)")
    case True
    then show ?thesis using assms(1) by (simp add: nth_append)
  next
    case False
    then have "i \<le> length r" using Suc.prems by simp
    moreover have "cont_byte (r ! (length r - i))"
      using assms(2) Suc.prems calculation by (auto simp: list_all_length)
    moreover have "(p @ c # r) ! (length (p @ c # r) - i) = r ! (length r - i)"
    proof -
      have "length (p @ c # r) - i = length p + Suc (length r - i)" using calculation(1) by simp
      then have "(p @ c # r) ! (length (p @ c # r) - i) = (p @ c # r) ! (length p + Suc (length r - i))" by (rule arg_cong)
      also have "\<dots> = r ! (length r - i)" by (simp only: nth_append_length_plus nth_Cons_Suc)
      finally show ?thesis .
    qed
    ultimately show ?thesis using Suc.IH [of "Suc i"] by (simp add: rune_start_def)
  qed
qed simp

lemma full_rune_whole: "utf8_head (byte c) = Some (length (c # r), lo, hi) \<Longrightarrow> full_rune (c # r)"
  by (simp add: full_rune_def)

lemma trim_whole: "whole_rune q \<Longrightarrow> trim_partial_rune (p @ q) = p @ q"
  by (erule whole_rune_shape) (simp add: trim_partial_rune_def trim_from_start full_rune_whole del: trim_partial_from.simps)

lemma trim_part: "part_rune q \<Longrightarrow> trim_partial_rune (p @ q) = p"
proof -
  assume "part_rune q"
  then obtain t where t: "whole_rune (q @ t)" "q \<noteq> []" "t \<noteq> []" by (auto simp: part_rune_def)
  obtain c r lo hi where w: "q @ t = c # r" "utf8_head (byte c) = Some (length (q @ t), lo, hi)" "list_all cont_byte r"
      "length (q @ t) \<le> 4" "r \<noteq> [] \<Longrightarrow> lo \<le> byte (hd r) \<and> byte (hd r) \<le> hi" "rune_start c"
    using whole_rune_shape [OF t(1)] by metis
  obtain s where s: "q = c # s" "r = s @ t" using w(1) t(2) by (cases q) auto
  have len: "length s + 2 \<le> 4" using w(4) s(1) t(3) by (cases t) auto
  have lt: "0 < length t" using t(3) by simp
  have "\<not> full_rune (c # s)"
    using w(2,3,5) s lt
    by (cases s; cases "tl s") (auto simp: full_rune_def not_le not_less)
  then show ?thesis
    using trim_from_start [OF w(6), of s 1 3 p] w(3) s len
    by (simp add: trim_partial_rune_def del: trim_partial_from.simps)
qed

lemma trim_nil: "trim_partial_rune [] = []"
  by code_simp

text \<open>Looking at the start of a file is enough: if the whole content looks like text, so does every
  beginning of it, wherever it is cut and also within a character, so a reader that has only
  the first bytes never takes a text for a binary.\<close>

theorem is_text_prefix:
  assumes "is_text content False"
  shows "is_text (take n content) True"
proof -
  have v: "nul \<notin> set (take sniff_bytes content)" "utf8_valid content"
    using assms by (auto simp: is_text_def sniff_def Let_def split: if_splits)
  obtain p q where t: "take n content = p @ q" "utf8_valid p" "q = [] \<or> part_rune q"
    using utf8_valid_take [OF v(2)] by blast
  have "utf8_valid (trim_partial_rune (p @ q))"
  proof (cases "q = []")
    case False
    then show ?thesis using t trim_part by simp
  next
    case True
    have "p = [] \<or> (\<exists>a b. p = a @ b \<and> whole_rune b)"
      using t(2)
    proof (induction p rule: utf8_valid.induct)
      case (1 s)
      show ?case
      proof (cases "s = []")
        case False
        then obtain m where m: "rune_size s = Some m" "utf8_valid (drop m s)"
          using "1.prems" by (subst (asm) utf8_valid.simps) (auto split: option.splits)
        have "drop m s = [] \<or> (\<exists>a b. drop m s = a @ b \<and> whole_rune b)" by (rule "1.IH" [OF False m])
        then show ?thesis
        proof
          assume "drop m s = []"
          then have "s = [] @ take m s" by simp
          then show ?thesis using rune_size_take [OF m(1)] by blast
        next
          assume "\<exists>a b. drop m s = a @ b \<and> whole_rune b"
          then obtain a b where "drop m s = a @ b" "whole_rune b" by blast
          then have "s = (take m s @ a) @ b" by (metis append_assoc append_take_drop_id)
          then show ?thesis using \<open>whole_rune b\<close> by blast
        qed
      qed simp
    qed
    then have "trim_partial_rune p = p" using trim_whole trim_nil by auto
    then show ?thesis using True t(2) by simp
  qed
  moreover have "nul \<notin> set (take sniff_bytes (take n content))"
    using v(1) by (metis in_set_takeD take_take min.commute)
  ultimately show ?thesis using t(1) by (simp add: is_text_def sniff_def)
qed

end
