(* ===== verification/Code_Store.thy ===== *)
theory Code_Store
  imports Go_Path Prelude
begin

text \<open>
  The code store (\<open>code/model.go\<close>, \<open>code/validate.go\<close>, \<open>code/memcode/memcode.go\<close>): blobs shared by
  the worktrees of a project, one tree of entries per worktree and ref, the log of changes and
  the activity log, kept in memory.

  An instant is the number of nanoseconds since Go's zero time. The mutex makes an operation one
  step, and the clock reading of an operation is its argument; contexts are not cancelled.
  The SHA-256 of a content, in hexadecimal, is a parameter.
\<close>

section \<open>The data\<close>

record blob =
  bl_sha :: string
  bl_size :: int
  bl_content :: string

record code_entry =
  en_path :: string
  en_sha :: string
  en_size :: int
  en_mode :: string
  en_lang :: string
  en_git_oid :: string
  en_dirty :: bool
  en_unpushed :: bool
  en_session :: string

record session_seen =
  ss_id :: string
  ss_first :: int
  ss_last :: int
  ss_ended :: bool

record worktree =
  wt_id :: string
  wt_owner :: string
  wt_source :: string
  wt_root :: string
  wt_host :: string
  wt_origin :: string
  wt_default_branch :: string
  wt_refs :: "string list"
  wt_sessions :: "session_seen list"
  wt_removed :: bool
  wt_updated :: int

record change =
  ch_seq :: int
  ch_owner :: string
  ch_worktree :: string
  ch_ref :: string
  ch_head :: string
  ch_upstream :: string
  ch_ahead :: int
  ch_session :: string
  ch_upserts :: "code_entry list"
  ch_deletes :: "string list"
  ch_full :: bool
  ch_at :: int

record activity =
  ac_seq :: int
  ac_kind :: string
  ac_delivery :: string
  ac_worktree :: string
  ac_repo :: string
  ac_ref :: string
  ac_commit :: string
  ac_before :: string
  ac_commits :: int
  ac_forced :: bool
  ac_actor :: string
  ac_pr :: int
  ac_base_ref :: string
  ac_base_commit :: string
  ac_merged :: bool
  ac_merge_commit :: string
  ac_name :: string
  ac_status :: string
  ac_conclusion :: string
  ac_url :: string
  ac_doc_kind :: string
  ac_doc_id :: string
  ac_path :: string
  ac_action :: string
  ac_problems :: "string list"
  ac_at :: int

datatype code_error = CodeNotFound | CodeInvalid | CodeMissingBlob

section \<open>Validation\<close>

definition max_path_bytes :: nat where
  "max_path_bytes = 1024"

definition max_ref_bytes :: nat where
  "max_ref_bytes = 1024"

definition backslash :: char where
  "backslash = CHR 0x5C"

definition valid_path :: "string \<Rightarrow> bool" where
  "valid_path p \<longleftrightarrow>
     \<not> (p = '''' \<or> max_path_bytes < length p \<or> \<not> utf8_valid p) \<and>
     \<not> (CHR 0x00 \<in> set p \<or> backslash \<in> set p) \<and>
     path_clean p = p \<and> path_clean p \<noteq> ''.'' \<and> is_local p"

definition hex_alphabet :: string where
  "hex_alphabet = ''0123456789abcdef''"

definition worktree_id_alphabet :: string where
  "worktree_id_alphabet = ''0123456789abcdefghtw_''"

definition lower_hex :: "string \<Rightarrow> bool" where
  "lower_hex s \<longleftrightarrow>
     s \<noteq> '''' \<and> list_all (\<lambda>c. (48 \<le> byte c \<and> byte c \<le> 57) \<or> (97 \<le> byte c \<and> byte c \<le> 102)) s"

definition valid_sha256 :: "string \<Rightarrow> bool" where
  "valid_sha256 s \<longleftrightarrow> length s = 64 \<and> lower_hex s"

definition valid_git_oid :: "string \<Rightarrow> bool" where
  "valid_git_oid s \<longleftrightarrow> (length s = 40 \<or> length s = 64) \<and> lower_hex s"

definition valid_worktree_id :: "string \<Rightarrow> bool" where
  "valid_worktree_id i \<longleftrightarrow>
     (case strip_prefix ''wt_'' i of
        Some r \<Rightarrow> length r = 16 \<and> lower_hex r
      | None \<Rightarrow>
          (case strip_prefix ''gh_'' i of
             Some r \<Rightarrow> r \<noteq> '''' \<and> length r \<le> 19 \<and> hd r \<noteq> CHR ''0'' \<and> list_all is_digit r
           | None \<Rightarrow> False))"

definition ref_char_ok :: "char \<Rightarrow> bool" where
  "ref_char_ok c \<longleftrightarrow> 33 \<le> byte c \<and> byte c \<noteq> 127 \<and> c \<notin> set (''~^:?*['' @ [backslash])"

definition valid_ref :: "string \<Rightarrow> bool" where
  "valid_ref ref \<longleftrightarrow>
     (if ref = '''' \<or> max_ref_bytes < length ref \<or> \<not> utf8_valid ref then False
      else
        (case strip_prefix ''detached@'' ref of
           Some sha \<Rightarrow> 7 \<le> length sha \<and> length sha \<le> 64 \<and> lower_hex sha
         | None \<Rightarrow>
             \<not> (ref = ''@'' \<or> has_prefix ref ''-'' \<or> has_prefix ref ''/'' \<or> has_suffix ref ''/'' \<or> has_suffix ref ''.'') \<and>
             \<not> (str_contains ref ''..'' \<or> str_contains ref ''//'' \<or> str_contains ref [CHR ''@'', CHR 0x7B]) \<and>
             list_all ref_char_ok ref \<and>
             list_all (\<lambda>c. \<not> has_prefix c ''.'' \<and> \<not> has_suffix c ''.lock'') (split_on CHR ''/'' ref)))"

text \<open>A copy of a string from an alphabet.\<close>

fun copy_from :: "string \<Rightarrow> string \<Rightarrow> string option" where
  "copy_from alphabet [] = Some []"
| "copy_from alphabet (c # s) =
     (case find (\<lambda>a. a = c) alphabet of
        None \<Rightarrow> None
      | Some a \<Rightarrow> map_option (Cons a) (copy_from alphabet s))"

definition canonical_sha256 :: "string \<Rightarrow> string option" where
  "canonical_sha256 s = (if \<not> valid_sha256 s then None else copy_from hex_alphabet s)"

definition canonical_git_oid :: "string \<Rightarrow> string option" where
  "canonical_git_oid s = (if \<not> valid_git_oid s then None else copy_from hex_alphabet s)"

definition canonical_worktree_id :: "string \<Rightarrow> string option" where
  "canonical_worktree_id i = (if \<not> valid_worktree_id i then None else copy_from worktree_id_alphabet i)"

definition canonical_hex :: "string \<Rightarrow> string option" where
  "canonical_hex s = copy_from hex_alphabet s"

definition max_event_kind_bytes :: nat where
  "max_event_kind_bytes = 64"

definition kind_char_ok :: "char \<Rightarrow> bool" where
  "kind_char_ok c \<longleftrightarrow> (97 \<le> byte c \<and> byte c \<le> 122) \<or> (48 \<le> byte c \<and> byte c \<le> 57) \<or> c = CHR ''_''"

definition activity_ok :: "activity \<Rightarrow> bool" where
  "activity_ok e \<longleftrightarrow>
     \<not> (ac_kind e = '''' \<or> max_event_kind_bytes < length (ac_kind e)) \<and> list_all kind_char_ok (ac_kind e) \<and>
     (ac_worktree e = '''' \<or> valid_worktree_id (ac_worktree e)) \<and>
     list_all (\<lambda>r. r = '''' \<or> valid_ref r) [ac_ref e, ac_base_ref e] \<and>
     list_all (\<lambda>c. c = '''' \<or> valid_git_oid c) [ac_commit e, ac_before e, ac_base_commit e, ac_merge_commit e] \<and>
     (ac_path e = '''' \<or> valid_path (ac_path e)) \<and> \<not> (ac_commits e < 0 \<or> ac_pr e < 0)"

definition entry_ok :: "code_entry \<Rightarrow> bool" where
  "entry_ok e \<longleftrightarrow>
     valid_path (en_path e) \<and> (en_sha e = '''' \<or> valid_sha256 (en_sha e)) \<and>
     (en_git_oid e = '''' \<or> valid_git_oid (en_git_oid e)) \<and> \<not> en_size e < 0"

definition change_ok :: "change \<Rightarrow> bool" where
  "change_ok c \<longleftrightarrow>
     valid_worktree_id (ch_worktree c) \<and> valid_ref (ch_ref c) \<and>
     (ch_head c = '''' \<or> valid_git_oid (ch_head c)) \<and> (ch_upstream c = '''' \<or> valid_git_oid (ch_upstream c)) \<and>
     \<not> ch_ahead c < 0 \<and> list_all entry_ok (ch_upserts c) \<and> list_all valid_path (ch_deletes c)"

section \<open>The store\<close>

type_synonym tree = "(string, code_entry) omap"

record code_store =
  cs_blobs :: "(string, string) omap"
  cs_blob_bytes :: int
  cs_worktrees :: "(string, worktree) omap"
  cs_trees :: "(string \<times> string, tree) omap"
  cs_log :: "change list"
  cs_events :: "activity list"

definition new_code_store :: code_store where
  "new_code_store =
     \<lparr>cs_blobs = [], cs_blob_bytes = 0, cs_worktrees = [], cs_trees = [], cs_log = [], cs_events = []\<rparr>"

definition missing_blobs :: "string list \<Rightarrow> code_store \<Rightarrow> string list" where
  "missing_blobs shas s = filter (\<lambda>h. om_get (cs_blobs s) h = None) shas"

definition put_blob :: "(string \<Rightarrow> string) \<Rightarrow> blob \<Rightarrow> code_store \<Rightarrow> code_store \<times> code_error option" where
  "put_blob sha256 b s =
     (if \<not> valid_sha256 (bl_sha b) then (s, Some CodeInvalid)
      else if bl_size b \<noteq> int (length (bl_content b)) then (s, Some CodeInvalid)
      else if sha256 (bl_content b) \<noteq> bl_sha b then (s, Some CodeInvalid)
      else if om_get (cs_blobs s) (bl_sha b) \<noteq> None then (s, None)
      else (s\<lparr>cs_blobs := om_put (bl_sha b) (bl_content b) (cs_blobs s),
              cs_blob_bytes := cs_blob_bytes s + bl_size b\<rparr>, None))"

definition add_ref :: "string \<Rightarrow> worktree \<Rightarrow> worktree" where
  "add_ref ref w = (if ref \<in> set (wt_refs w) then w else w\<lparr>wt_refs := wt_refs w @ [ref]\<rparr>)"

definition put_worktree :: "int \<Rightarrow> worktree \<Rightarrow> code_store \<Rightarrow> code_store \<times> code_error option" where
  "put_worktree now w s =
     (if \<not> valid_worktree_id (wt_id w) then (s, Some CodeInvalid)
      else if \<not> list_all valid_ref (wt_refs w) then (s, Some CodeInvalid)
      else
        (let cur = (case om_get (cs_worktrees s) (wt_id w) of
                      Some x \<Rightarrow> x
                    | None \<Rightarrow> \<lparr>wt_id = wt_id w, wt_owner = '''', wt_source = '''', wt_root = '''', wt_host = '''',
                               wt_origin = '''', wt_default_branch = '''', wt_refs = [], wt_sessions = [],
                               wt_removed = False, wt_updated = 0\<rparr>);
             cur1 = cur\<lparr>wt_owner := wt_owner w, wt_source := wt_source w, wt_root := wt_root w, wt_host := wt_host w,
                        wt_origin := wt_origin w, wt_default_branch := wt_default_branch w\<rparr>;
             cur2 = fold add_ref (wt_refs w) cur1
         in (s\<lparr>cs_worktrees := om_put (wt_id w) (cur2\<lparr>wt_removed := False, wt_updated := now\<rparr>) (cs_worktrees s)\<rparr>, None)))"

text \<open>Activity of a session on a worktree.\<close>

fun touch_sessions :: "string \<Rightarrow> bool \<Rightarrow> int \<Rightarrow> session_seen list \<Rightarrow> session_seen list" where
  "touch_sessions i ended now [] = [\<lparr>ss_id = i, ss_first = now, ss_last = now, ss_ended = ended\<rparr>]"
| "touch_sessions i ended now (x # xs) =
     (if ss_id x = i then x\<lparr>ss_last := now, ss_ended := ss_ended x \<or> ended\<rparr> # xs
      else x # touch_sessions i ended now xs)"

definition touch :: "string \<Rightarrow> bool \<Rightarrow> int \<Rightarrow> worktree \<Rightarrow> worktree" where
  "touch i ended now w = w\<lparr>wt_sessions := touch_sessions i ended now (wt_sessions w)\<rparr>"

text \<open>The tree after a change: replaced or edited, and none when it is empty.\<close>

definition put_tree :: "string \<times> string \<Rightarrow> tree \<Rightarrow> (string \<times> string, tree) omap \<Rightarrow> (string \<times> string, tree) omap" where
  "put_tree k t ts = (if t = [] then om_del k ts else om_put k t ts)"

definition changed_tree :: "change \<Rightarrow> tree option \<Rightarrow> tree" where
  "changed_tree c old =
     (let t0 = (if ch_full c then [] else (case old of None \<Rightarrow> [] | Some t \<Rightarrow> t));
          t1 = (if ch_full c then t0 else fold om_del (ch_deletes c) t0)
      in fold (\<lambda>e t. om_put (en_path e) e t) (ch_upserts c) t1)"

definition log_change :: "change \<Rightarrow> code_store \<Rightarrow> code_store" where
  "log_change c s = s\<lparr>cs_log := cs_log s @ [c]\<rparr>"

definition commit :: "int \<Rightarrow> change \<Rightarrow> code_store \<Rightarrow> code_store \<times> (code_error + int)" where
  "commit now c s =
     (if \<not> change_ok c then (s, Inl CodeInvalid)
      else
        (case om_get (cs_worktrees s) (ch_worktree c) of
           None \<Rightarrow> (s, Inl CodeNotFound)
         | Some w \<Rightarrow>
             if list_ex (\<lambda>e. en_sha e \<noteq> '''' \<and> om_get (cs_blobs s) (en_sha e) = None) (ch_upserts c)
             then (s, Inl CodeMissingBlob)
             else
               (let k = (ch_worktree c, ch_ref c);
                    w1 = add_ref (ch_ref c) w;
                    w2 = (if ch_session c \<noteq> '''' then touch (ch_session c) False now w1 else w1);
                    seq = int (length (cs_log s)) + 1;
                    s1 = s\<lparr>cs_trees := put_tree k (changed_tree c (om_get (cs_trees s) k)) (cs_trees s),
                           cs_worktrees := om_put (ch_worktree c) (w2\<lparr>wt_updated := now\<rparr>) (cs_worktrees s)\<rparr>
                in (log_change (c\<lparr>ch_seq := seq, ch_at := now\<rparr>) s1, Inr seq))))"

text \<open>The log entry that says a worktree or a ref is gone.\<close>

definition tombstone :: "worktree \<Rightarrow> string \<Rightarrow> string \<Rightarrow> int \<Rightarrow> code_store \<Rightarrow> change" where
  "tombstone w i ref now s =
     \<lparr>ch_seq = int (length (cs_log s)) + 1, ch_owner = wt_owner w, ch_worktree = i, ch_ref = ref, ch_head = '''',
      ch_upstream = '''', ch_ahead = 0, ch_session = '''', ch_upserts = [], ch_deletes = [], ch_full = True, ch_at = now\<rparr>"

definition remove_worktree :: "int \<Rightarrow> string \<Rightarrow> code_store \<Rightarrow> code_store \<times> code_error option" where
  "remove_worktree now i s =
     (if \<not> valid_worktree_id i then (s, Some CodeInvalid)
      else
        (case om_get (cs_worktrees s) i of
           None \<Rightarrow> (s, Some CodeNotFound)
         | Some w \<Rightarrow>
             (log_change (tombstone w i '''' now s)
                (s\<lparr>cs_trees := filter (\<lambda>(k, t). fst k \<noteq> i) (cs_trees s),
                   cs_worktrees := om_put i (w\<lparr>wt_removed := True, wt_updated := now\<rparr>) (cs_worktrees s)\<rparr>), None)))"

definition touch_session :: "int \<Rightarrow> string \<Rightarrow> string \<Rightarrow> bool \<Rightarrow> code_store \<Rightarrow> code_store \<times> code_error option" where
  "touch_session now i session ended s =
     (if \<not> valid_worktree_id i then (s, Some CodeInvalid)
      else if session = '''' then (s, Some CodeInvalid)
      else
        (case om_get (cs_worktrees s) i of
           None \<Rightarrow> (s, Some CodeNotFound)
         | Some w \<Rightarrow>
             (s\<lparr>cs_worktrees := om_put i ((touch session ended now w)\<lparr>wt_updated := now\<rparr>) (cs_worktrees s)\<rparr>, None)))"

definition remove_ref :: "int \<Rightarrow> string \<Rightarrow> string \<Rightarrow> code_store \<Rightarrow> code_store \<times> code_error option" where
  "remove_ref now i ref s =
     (if \<not> valid_worktree_id i then (s, Some CodeInvalid)
      else if \<not> valid_ref ref then (s, Some CodeInvalid)
      else
        (case om_get (cs_worktrees s) i of
           None \<Rightarrow> (s, Some CodeNotFound)
         | Some w \<Rightarrow>
             (log_change (tombstone w i ref now s)
                (s\<lparr>cs_trees := om_del (i, ref) (cs_trees s),
                   cs_worktrees := om_put i (w\<lparr>wt_refs := filter (\<lambda>r. r \<noteq> ref) (wt_refs w), wt_updated := now\<rparr>)
                     (cs_worktrees s)\<rparr>), None)))"

text \<open>An event as it is stored: numbered, and stamped when it has no instant.\<close>

definition number_event :: "int \<Rightarrow> activity \<Rightarrow> activity list \<Rightarrow> activity list" where
  "number_event now e l =
     l @ [e\<lparr>ac_seq := int (length l) + 1, ac_at := (if ac_at e = 0 then now else ac_at e)\<rparr>]"

definition append_events :: "int \<Rightarrow> activity list \<Rightarrow> code_store \<Rightarrow> code_store \<times> code_error option" where
  "append_events now es s =
     (if \<not> list_all activity_ok es then (s, Some CodeInvalid)
      else (s\<lparr>cs_events := fold (number_event now) es (cs_events s)\<rparr>, None))"

text \<open>
  Entries are visited in an unspecified order in the source and a later one replaces an
  earlier one; here in the order of trees and paths.
\<close>

definition sha_for_oid :: "string list \<Rightarrow> code_store \<Rightarrow> code_error + (string, string) omap" where
  "sha_for_oid oids s =
     (if \<not> list_all valid_git_oid oids then Inl CodeInvalid
      else Inr (fold (\<lambda>e m. if en_git_oid e \<in> set oids \<and> \<not> en_dirty e \<and> en_sha e \<noteq> ''''
                             then om_put (en_git_oid e) (en_sha e) m else m)
                  (concat (map (\<lambda>(k, t). map snd t) (cs_trees s))) []))"

definition list_worktrees :: "code_store \<Rightarrow> worktree list" where
  "list_worktrees s = map snd (cs_worktrees s)"

definition tree_entries :: "string \<Rightarrow> string \<Rightarrow> code_store \<Rightarrow> code_entry list" where
  "tree_entries i ref s = (case om_get (cs_trees s) (i, ref) of None \<Rightarrow> [] | Some t \<Rightarrow> map snd t)"

text \<open>A page of a log: from the entry after a sequence number, up to a limit.\<close>

definition page_of :: "'a list \<Rightarrow> int \<Rightarrow> int \<Rightarrow> 'a list" where
  "page_of log after limit =
     (let start = max after 0
      in if limit \<le> 0 \<or> int (length log) \<le> start then []
         else take (nat (min (start + limit) (int (length log)) - start)) (drop (nat start) log))"

definition changes_after :: "int \<Rightarrow> int \<Rightarrow> code_store \<Rightarrow> change list" where
  "changes_after after limit s = page_of (cs_log s) after limit"

definition events_after :: "int \<Rightarrow> int \<Rightarrow> code_store \<Rightarrow> activity list" where
  "events_after after limit s = page_of (cs_events s) after limit"

definition get_blob :: "string \<Rightarrow> code_store \<Rightarrow> code_error + blob" where
  "get_blob h s =
     (case om_get (cs_blobs s) h of
        None \<Rightarrow> Inl CodeNotFound
      | Some content \<Rightarrow> Inr \<lparr>bl_sha = h, bl_size = int (length content), bl_content = content\<rparr>)"

definition blob_usage :: "code_store \<Rightarrow> int \<times> int" where
  "blob_usage s = (int (length (cs_blobs s)), cs_blob_bytes s)"


section \<open>Facts: trees\<close>

lemma fold_om_del_wf: "omap_wf t \<Longrightarrow> omap_wf (fold om_del ps t)"
  by (induction ps arbitrary: t) (auto intro: om_del_wf)

lemma fold_om_del_get [simp]: "om_get (fold om_del ps t) p = (if p \<in> set ps then None else om_get t p)"
  by (induction ps arbitrary: t) auto

lemma fold_upsert_wf: "omap_wf t \<Longrightarrow> omap_wf (fold (\<lambda>e t. om_put (en_path e) e t) es t)"
  by (induction es arbitrary: t) (auto intro: om_put_wf)

text \<open>The last entry of a path, if the list has one.\<close>

definition last_entry :: "code_entry list \<Rightarrow> string \<Rightarrow> code_entry option" where
  "last_entry es p = find (\<lambda>e. en_path e = p) (rev es)"

lemma find_append: "find P (xs @ ys) = (case find P xs of Some x \<Rightarrow> Some x | None \<Rightarrow> find P ys)"
  by (induction xs) auto

lemma fold_upsert_get:
  "om_get (fold (\<lambda>e t. om_put (en_path e) e t) es t) p =
     (case last_entry es p of Some e \<Rightarrow> Some e | None \<Rightarrow> om_get t p)"
proof (induction es arbitrary: t)
  case (Cons e es)
  then show ?case by (auto simp: last_entry_def find_append split: option.splits)
qed (simp add: last_entry_def)

lemma last_entry_Some: "last_entry es p = Some e \<Longrightarrow> e \<in> set es \<and> en_path e = p"
proof -
  assume "last_entry es p = Some e"
  then obtain i where "i < length (rev es)" "e = rev es ! i" "en_path e = p"
    unfolding last_entry_def find_Some_iff by blast
  then show ?thesis using nth_mem [of i "rev es"] by simp
qed

lemma changed_tree_get:
  "om_get (changed_tree c old) p =
     (case last_entry (ch_upserts c) p of
        Some e \<Rightarrow> Some e
      | None \<Rightarrow> if ch_full c \<or> p \<in> set (ch_deletes c) then None
                else (case old of None \<Rightarrow> None | Some t \<Rightarrow> om_get t p))"
  by (cases old; cases "last_entry (ch_upserts c) p") (simp_all add: changed_tree_def Let_def fold_upsert_get)

lemma changed_tree_wf: "(\<And>t. old = Some t \<Longrightarrow> omap_wf t) \<Longrightarrow> omap_wf (changed_tree c old)"
  by (auto simp: changed_tree_def Let_def intro!: fold_upsert_wf fold_om_del_wf split: option.splits)

lemma put_tree_wf: "omap_wf ts \<Longrightarrow> omap_wf (put_tree k t ts)"
  by (simp add: put_tree_def om_put_wf om_del_wf)

lemma put_tree_get: "om_get (put_tree k t ts) j = (if j = k then (if t = [] then None else Some t) else om_get ts j)"
  by (simp add: put_tree_def)

section \<open>Runs of the store\<close>

inductive code_step :: "(string \<Rightarrow> string) \<Rightarrow> code_store \<Rightarrow> code_store \<Rightarrow> bool" for sha256 where
  put_blob: "code_step sha256 s (fst (put_blob sha256 b s))"
| put_worktree: "code_step sha256 s (fst (put_worktree now w s))"
| commit: "code_step sha256 s (fst (commit now c s))"
| remove_worktree: "code_step sha256 s (fst (remove_worktree now i s))"
| touch_session: "code_step sha256 s (fst (touch_session now i j ended s))"
| remove_ref: "code_step sha256 s (fst (remove_ref now i ref s))"
| append_events: "code_step sha256 s (fst (append_events now es s))"

inductive code_reachable :: "(string \<Rightarrow> string) \<Rightarrow> code_store \<Rightarrow> bool" for sha256 where
  new: "code_reachable sha256 new_code_store"
| step: "\<lbrakk>code_reachable sha256 s; code_step sha256 s s'\<rbrakk> \<Longrightarrow> code_reachable sha256 s'"

text \<open>What a reader of the log does with one change; an empty ref is the end of a worktree.\<close>

definition apply_change :: "change \<Rightarrow> (string \<times> string, tree) omap \<Rightarrow> (string \<times> string, tree) omap" where
  "apply_change c ts =
     (if ch_ref c = '''' then filter (\<lambda>(k, t). fst k \<noteq> ch_worktree c) ts
      else put_tree (ch_worktree c, ch_ref c) (changed_tree c (om_get ts (ch_worktree c, ch_ref c))) ts)"

definition log_ok :: "code_store \<Rightarrow> bool" where
  "log_ok s \<longleftrightarrow>
     cs_trees s = fold apply_change (cs_log s) [] \<and>
     map ch_seq (cs_log s) = map (\<lambda>n. int n + 1) [0..<length (cs_log s)] \<and>
     map ac_seq (cs_events s) = map (\<lambda>n. int n + 1) [0..<length (cs_events s)]"

definition tree_ok :: "code_store \<Rightarrow> string \<times> string \<Rightarrow> tree \<Rightarrow> bool" where
  "tree_ok s k t \<longleftrightarrow> t \<noteq> [] \<and> omap_wf t \<and>
     (\<forall>p e. om_get t p = Some e \<longrightarrow>
        en_path e = p \<and> entry_ok e \<and> (en_sha e \<noteq> '''' \<longrightarrow> om_get (cs_blobs s) (en_sha e) \<noteq> None)) \<and>
     (\<exists>w. om_get (cs_worktrees s) (fst k) = Some w \<and> snd k \<in> set (wt_refs w))"

definition code_inv :: "(string \<Rightarrow> string) \<Rightarrow> code_store \<Rightarrow> bool" where
  "code_inv sha256 s \<longleftrightarrow>
     omap_wf (cs_blobs s) \<and> omap_wf (cs_trees s) \<and>
     (\<forall>h b. om_get (cs_blobs s) h = Some b \<longrightarrow> sha256 b = h \<and> valid_sha256 h) \<and>
     cs_blob_bytes s = sum_list (map (\<lambda>(h, b). int (length b)) (cs_blobs s)) \<and>
     (\<forall>k t. om_get (cs_trees s) k = Some t \<longrightarrow> tree_ok s k t)"

lemma valid_ref_nonempty: "valid_ref r \<Longrightarrow> r \<noteq> ''''"
  by (auto simp: valid_ref_def)

lemma changed_tree_stamp [simp]: "changed_tree (c\<lparr>ch_seq := n, ch_at := t\<rparr>) old = changed_tree c old"
  by (simp add: changed_tree_def)

lemma om_put_sum:
  "om_get m k = None \<Longrightarrow> sum_list (map (\<lambda>(h, b). f b) (om_put k v m)) = f v + sum_list (map (\<lambda>(h, b). f b) m)"
  for f :: "'v \<Rightarrow> int"
  by (induction k v m rule: om_put.induct) auto


definition blob_missing :: "change \<Rightarrow> code_store \<Rightarrow> bool" where
  "blob_missing c s \<longleftrightarrow> list_ex (\<lambda>e. en_sha e \<noteq> '''' \<and> om_get (cs_blobs s) (en_sha e) = None) (ch_upserts c)"

definition seen_worktree :: "int \<Rightarrow> change \<Rightarrow> worktree \<Rightarrow> worktree" where
  "seen_worktree now c w =
     (let w1 = add_ref (ch_ref c) w;
          w2 = (if ch_session c \<noteq> '''' then touch (ch_session c) False now w1 else w1)
      in w2\<lparr>wt_updated := now\<rparr>)"

definition committed :: "int \<Rightarrow> change \<Rightarrow> worktree \<Rightarrow> code_store \<Rightarrow> code_store" where
  "committed now c w s =
     log_change (c\<lparr>ch_seq := int (length (cs_log s)) + 1, ch_at := now\<rparr>)
       (s\<lparr>cs_trees := put_tree (ch_worktree c, ch_ref c)
            (changed_tree c (om_get (cs_trees s) (ch_worktree c, ch_ref c))) (cs_trees s),
          cs_worktrees := om_put (ch_worktree c) w (cs_worktrees s)\<rparr>)"

lemma commit_eq:
  "commit now c s =
     (if \<not> change_ok c then (s, Inl CodeInvalid)
      else case om_get (cs_worktrees s) (ch_worktree c) of
             None \<Rightarrow> (s, Inl CodeNotFound)
           | Some w \<Rightarrow>
               if blob_missing c s then (s, Inl CodeMissingBlob)
               else (committed now c (seen_worktree now c w) s, Inr (int (length (cs_log s)) + 1)))"
  unfolding commit_def committed_def seen_worktree_def Let_def blob_missing_def by (rule refl)

lemma seen_worktree_refs: "set (wt_refs (seen_worktree now c w)) = insert (ch_ref c) (set (wt_refs w))"
  by (simp add: seen_worktree_def Let_def add_ref_def touch_def insert_absorb)

lemma commit_cases:
  assumes "commit now c s = (s', r)"
  obtains (refused) e where "s' = s" "r = Inl e"
  | (applied) w w' where "om_get (cs_worktrees s) (ch_worktree c) = Some w" "change_ok c" "\<not> blob_missing c s"
      "set (wt_refs w') = insert (ch_ref c) (set (wt_refs w))" "s' = committed now c w' s"
      "r = Inr (int (length (cs_log s)) + 1)"
proof (cases "om_get (cs_worktrees s) (ch_worktree c)")
  case None
  then show thesis using assms by (auto simp: commit_eq split: if_splits intro: refused)
next
  case (Some w)
  show thesis
  proof (cases "change_ok c \<and> \<not> blob_missing c s")
    case True
    then show thesis
      using assms Some by (intro applied [OF Some, of "seen_worktree now c w"]) (simp_all add: commit_eq seen_worktree_refs)
  next
    case False
    then show thesis using assms Some by (auto simp: commit_eq split: if_splits intro: refused)
  qed
qed


lemma stampless: "apply_change (c\<lparr>ch_seq := n, ch_at := t\<rparr>) ts = apply_change c ts"
  by (simp add: apply_change_def)

text \<open>What the invariants need of an operation that writes neither trees nor blobs nor logs.\<close>

lemma tree_ok_mono:
  assumes "tree_ok s k t"
    and "\<And>h. om_get (cs_blobs s) h \<noteq> None \<Longrightarrow> om_get (cs_blobs s') h \<noteq> None"
    and "\<And>w. om_get (cs_worktrees s) (fst k) = Some w \<Longrightarrow>
      \<exists>w'. om_get (cs_worktrees s') (fst k) = Some w' \<and> (snd k \<in> set (wt_refs w) \<longrightarrow> snd k \<in> set (wt_refs w'))"
  shows "tree_ok s' k t"
  using assms unfolding tree_ok_def by meson

lemma code_inv_tree: "code_inv f s \<Longrightarrow> om_get (cs_trees s) k = Some t \<Longrightarrow> tree_ok s k t"
  unfolding code_inv_def by blast

lemma code_inv_update:
  assumes "code_inv f s" "cs_blobs s' = cs_blobs s" "cs_blob_bytes s' = cs_blob_bytes s" "omap_wf (cs_trees s')"
    and "\<And>k t. om_get (cs_trees s') k = Some t \<Longrightarrow> tree_ok s' k t"
  shows "code_inv f s'"
  using assms unfolding code_inv_def by metis

lemma code_inv_omap: "code_inv f s \<Longrightarrow> omap_wf (cs_trees s)"
  unfolding code_inv_def by blast

lemma code_inv_worktrees:
  assumes "code_inv f s"
    and "\<And>i w. om_get (cs_worktrees s) i = Some w \<Longrightarrow>
      \<exists>w'. om_get ws i = Some w' \<and> set (wt_refs w) \<subseteq> set (wt_refs w')"
  shows "code_inv f (s\<lparr>cs_worktrees := ws\<rparr>)"
proof -
  have "tree_ok (s\<lparr>cs_worktrees := ws\<rparr>) k t" if "om_get (cs_trees s) k = Some t" for k t
  proof (rule tree_ok_mono)
    show "tree_ok s k t" using assms(1) that by (rule code_inv_tree)
    show "\<exists>w'. om_get (cs_worktrees (s\<lparr>cs_worktrees := ws\<rparr>)) (fst k) = Some w' \<and>
        (snd k \<in> set (wt_refs w) \<longrightarrow> snd k \<in> set (wt_refs w'))"
      if "om_get (cs_worktrees s) (fst k) = Some w" for w
      using assms(2) [OF that] by auto
  qed simp
  then show ?thesis using code_inv_omap [OF assms(1)] by (intro code_inv_update [OF assms(1)]) simp_all
qed

lemma code_inv_put_blob:
  assumes i: "code_inv f s"
  shows "code_inv f (fst (put_blob f b s))"
proof (cases "put_blob f b s = (s, snd (put_blob f b s))")
  case True
  then show ?thesis using i by (metis fst_conv)
next
  case False
  let ?s = "s\<lparr>cs_blobs := om_put (bl_sha b) (bl_content b) (cs_blobs s), cs_blob_bytes := cs_blob_bytes s + bl_size b\<rparr>"
  have e: "fst (put_blob f b s) = ?s" "valid_sha256 (bl_sha b)" "bl_size b = int (length (bl_content b))"
      "f (bl_content b) = bl_sha b" "om_get (cs_blobs s) (bl_sha b) = None"
    using False by (auto simp: put_blob_def split: if_splits)
  have "tree_ok ?s k t" if "om_get (cs_trees s) k = Some t" for k t
    by (rule tree_ok_mono [of s]) (use code_inv_tree [OF i that] in simp_all)
  then have t: "\<forall>k t. om_get (cs_trees ?s) k = Some t \<longrightarrow> tree_ok ?s k t" by simp
  show ?thesis
    unfolding e(1) code_inv_def using t i [unfolded code_inv_def] e om_put_sum [OF e(5), of "\<lambda>b. int (length b)" "bl_content b"]
    by (auto simp: om_put_wf simp del: split_paired_All)
qed

lemma fold_add_ref: "set (wt_refs (fold add_ref rs w)) = set rs \<union> set (wt_refs w)"
  by (induction rs arbitrary: w) (auto simp: add_ref_def)

text \<open>A worktree is written whole, with the refs it had.\<close>

lemma code_inv_worktree:
  assumes "code_inv f s" and "\<And>x. om_get (cs_worktrees s) i = Some x \<Longrightarrow> set (wt_refs x) \<subseteq> set (wt_refs w)"
  shows "code_inv f (s\<lparr>cs_worktrees := om_put i w (cs_worktrees s)\<rparr>)"
proof (rule code_inv_worktrees [OF assms(1)])
  show "\<exists>w'. om_get (om_put i w (cs_worktrees s)) j = Some w' \<and> set (wt_refs v) \<subseteq> set (wt_refs w')"
    if "om_get (cs_worktrees s) j = Some v" for j v
    using that assms(2) by (cases "j = i") auto
qed

lemma code_inv_put_worktree: "code_inv f s \<Longrightarrow> code_inv f (fst (put_worktree now w s))"
  by (auto simp: put_worktree_def Let_def fold_add_ref intro!: code_inv_worktree)

lemma code_inv_touch: "code_inv f s \<Longrightarrow> code_inv f (fst (touch_session now i j ended s))"
  by (auto simp: touch_session_def touch_def intro!: code_inv_worktree split: option.splits)

lemma code_inv_log: "code_inv f (log_change c s) \<longleftrightarrow> code_inv f s"
  unfolding code_inv_def log_change_def tree_ok_def by simp

lemma code_inv_remove_worktree:
  assumes i: "code_inv f s"
  shows "code_inv f (fst (remove_worktree now j s))"
proof (cases "om_get (cs_worktrees s) j")
  case (Some w)
  let ?s = "s\<lparr>cs_trees := filter (\<lambda>(k, t). fst k \<noteq> j) (cs_trees s)\<rparr>"
  have t: "tree_ok ?s k t" if "om_get (cs_trees s) k = Some t" for k t
    by (rule tree_ok_mono [of s]) (use code_inv_tree [OF i that] in simp_all)
  have "code_inv f ?s"
  proof (rule code_inv_update [OF i])
    show "tree_ok ?s k t" if "om_get (cs_trees ?s) k = Some t" for k t
      by (rule t) (use that in \<open>simp add: om_filter_get split: if_splits\<close>)
  qed (simp_all add: om_filter_wf code_inv_omap [OF i])
  then have "code_inv f (?s\<lparr>cs_worktrees := om_put j (w\<lparr>wt_removed := True, wt_updated := now\<rparr>) (cs_worktrees ?s)\<rparr>)"
    by (rule code_inv_worktree) (use Some in auto)
  then show ?thesis using i Some by (simp add: remove_worktree_def code_inv_log)
qed (use i in \<open>simp add: remove_worktree_def\<close>)

lemma code_inv_remove_ref:
  assumes i: "code_inv f s"
  shows "code_inv f (fst (remove_ref now j ref s))"
proof (cases "om_get (cs_worktrees s) j")
  case (Some w)
  let ?w = "w\<lparr>wt_refs := filter (\<lambda>r. r \<noteq> ref) (wt_refs w), wt_updated := now\<rparr>"
  let ?s = "s\<lparr>cs_trees := om_del (j, ref) (cs_trees s), cs_worktrees := om_put j ?w (cs_worktrees s)\<rparr>"
  have t: "tree_ok ?s k t" if "om_get (cs_trees s) k = Some t" "k \<noteq> (j, ref)" for k t
  proof (rule tree_ok_mono [of s])
    show "\<exists>w'. om_get (cs_worktrees ?s) (fst k) = Some w' \<and> (snd k \<in> set (wt_refs v) \<longrightarrow> snd k \<in> set (wt_refs w'))"
      if "om_get (cs_worktrees s) (fst k) = Some v" for v
      using that Some \<open>k \<noteq> (j, ref)\<close> by (cases k) auto
  qed (use code_inv_tree [OF i that(1)] in simp_all)
  have "code_inv f ?s"
  proof (rule code_inv_update [OF i])
    show "tree_ok ?s k t" if "om_get (cs_trees ?s) k = Some t" for k t
    proof (rule t)
      show "k \<noteq> (j, ref)" using that by auto
      then show "om_get (cs_trees s) k = Some t" using that by simp
    qed
  qed (simp_all add: om_del_wf code_inv_omap [OF i])
  then show ?thesis using i Some by (simp add: remove_ref_def code_inv_log)
qed (use i in \<open>simp add: remove_ref_def\<close>)

definition entry_stored :: "code_store \<Rightarrow> string \<Rightarrow> code_entry \<Rightarrow> bool" where
  "entry_stored s p e \<longleftrightarrow>
     en_path e = p \<and> entry_ok e \<and> (en_sha e \<noteq> '''' \<longrightarrow> om_get (cs_blobs s) (en_sha e) \<noteq> None)"

lemma upserts_stored:
  assumes "change_ok c" "\<not> blob_missing c s" "e \<in> set (ch_upserts c)"
  shows "entry_stored s (en_path e) e"
proof -
  have "entry_ok e" using assms(1,3) by (simp add: change_ok_def list_all_iff)
  moreover have "en_sha e = '''' \<or> om_get (cs_blobs s) (en_sha e) \<noteq> None"
    using assms(2,3) by (auto simp: blob_missing_def list_ex_iff)
  ultimately show ?thesis by (auto simp: entry_stored_def)
qed

lemma changed_tree_stored:
  assumes i: "code_inv f s" and c: "change_ok c" "\<not> blob_missing c s"
    and g: "om_get (changed_tree c (om_get (cs_trees s) k)) p = Some e"
  shows "entry_stored s p e"
proof (cases "last_entry (ch_upserts c) p")
  case None
  then obtain t where t: "om_get (cs_trees s) k = Some t" "om_get t p = Some e"
    using g by (auto simp: changed_tree_get split: if_splits option.splits)
  show ?thesis using code_inv_tree [OF i t(1)] t(2) unfolding tree_ok_def entry_stored_def by blast
next
  case (Some e')
  then have "e \<in> set (ch_upserts c)" "en_path e = p"
    using g last_entry_Some [OF Some] by (auto simp: changed_tree_get)
  then show ?thesis using upserts_stored [OF c] by blast
qed

lemma tree_ok_wf: "tree_ok s k t \<Longrightarrow> omap_wf t"
  by (simp only: tree_ok_def)

lemma code_inv_changed_wf: "code_inv f s \<Longrightarrow> omap_wf (changed_tree c (om_get (cs_trees s) k))"
  using changed_tree_wf code_inv_tree tree_ok_wf by metis

lemma code_inv_committed:
  assumes i: "code_inv f s" and w: "om_get (cs_worktrees s) (ch_worktree c) = Some w"
    and c: "change_ok c" "\<not> blob_missing c s" and r: "set (wt_refs w') = insert (ch_ref c) (set (wt_refs w))"
  shows "code_inv f (committed now c w' s)"
proof -
  let ?k = "(ch_worktree c, ch_ref c)"
  define t' where "t' = changed_tree c (om_get (cs_trees s) ?k)"
  define u where "u = s\<lparr>cs_trees := put_tree ?k t' (cs_trees s), cs_worktrees := om_put (ch_worktree c) w' (cs_worktrees s)\<rparr>"
  have u: "cs_blobs u = cs_blobs s" "cs_blob_bytes u = cs_blob_bytes s" "cs_trees u = put_tree ?k t' (cs_trees s)"
      "om_get (cs_worktrees u) j = (if j = ch_worktree c then Some w' else om_get (cs_worktrees s) j)" for j
    by (simp_all add: u_def)
  have new: "tree_ok u ?k t'" if "t' \<noteq> []"
  proof -
    have "entry_stored s p e" if "om_get t' p = Some e" for p e
      using changed_tree_stored [OF i c] that unfolding t'_def .
    moreover have "omap_wf t'" using code_inv_changed_wf [OF i] unfolding t'_def .
    ultimately show ?thesis using that r by (simp add: tree_ok_def u entry_stored_def)
  qed
  have other: "tree_ok u k t" if "om_get (cs_trees s) k = Some t" for k t
  proof (rule tree_ok_mono [OF code_inv_tree [OF i that]])
    show "\<exists>x'. om_get (cs_worktrees u) (fst k) = Some x' \<and> (snd k \<in> set (wt_refs x) \<longrightarrow> snd k \<in> set (wt_refs x'))"
      if "om_get (cs_worktrees s) (fst k) = Some x" for x
    proof (cases "fst k = ch_worktree c")
      case True
      then show ?thesis using that w r by (simp add: u)
    next
      case False
      then show ?thesis using that by (simp add: u)
    qed
  qed (simp add: u)
  have "code_inv f u"
  proof (rule code_inv_update [OF i])
    show "tree_ok u k t" if "om_get (cs_trees u) k = Some t" for k t
    proof (cases "k = ?k")
      case True
      then show ?thesis using that new by (simp add: u put_tree_get split: if_splits)
    next
      case False
      then show ?thesis using that other [of k t] by (simp add: u put_tree_get)
    qed
  qed (simp_all add: u put_tree_wf code_inv_omap [OF i])
  moreover have "committed now c w' s = log_change (c\<lparr>ch_seq := int (length (cs_log s)) + 1, ch_at := now\<rparr>) u"
    unfolding committed_def u_def t'_def by (rule refl)
  ultimately show ?thesis by (simp add: code_inv_log)
qed

lemma code_inv_commit:
  assumes i: "code_inv f s"
  shows "code_inv f (fst (commit now c s))"
  by (rule commit_cases [OF surjective_pairing, of now c s]) (simp_all add: i code_inv_committed)

lemma code_inv_events: "code_inv f s \<Longrightarrow> code_inv f (s\<lparr>cs_events := es\<rparr>)"
  unfolding code_inv_def tree_ok_def by simp

lemma code_inv_step: "code_step f s s' \<Longrightarrow> code_inv f s \<Longrightarrow> code_inv f s'"
proof (induction rule: code_step.induct)
  case (append_events s now es)
  then show ?case by (simp add: append_events_def code_inv_events)
qed (simp_all add: code_inv_put_blob code_inv_put_worktree code_inv_commit code_inv_remove_worktree
    code_inv_touch code_inv_remove_ref)

lemma code_inv_new: "code_inv f new_code_store"
  by (simp add: code_inv_def new_code_store_def)

lemma code_inv_reachable: "code_reachable f s \<Longrightarrow> code_inv f s"
  by (induction rule: code_reachable.induct) (auto intro: code_inv_step code_inv_new)

section \<open>Facts: the log\<close>

lemma apply_change_wf: "omap_wf ts \<Longrightarrow> omap_wf (apply_change c ts)"
  by (simp add: apply_change_def om_filter_wf put_tree_wf)

definition stamped :: "(code_store \<Rightarrow> code_store) \<Rightarrow> code_store \<Rightarrow> bool" where
  "stamped g s \<longleftrightarrow>
     (\<exists>c. cs_log (g s) = cs_log s @ [c] \<and> ch_seq c = int (length (cs_log s)) + 1 \<and>
        cs_trees (g s) = apply_change c (cs_trees s)) \<and> cs_events (g s) = cs_events s"

lemma stampedI:
  "\<lbrakk>cs_log (g s) = cs_log s @ [c]; ch_seq c = int (length (cs_log s)) + 1;
    cs_trees (g s) = apply_change c (cs_trees s); cs_events (g s) = cs_events s\<rbrakk> \<Longrightarrow> stamped g s"
  unfolding stamped_def by blast

lemma log_ok_quiet:
  "\<lbrakk>log_ok s; cs_log s' = cs_log s; cs_trees s' = cs_trees s; cs_events s' = cs_events s\<rbrakk> \<Longrightarrow> log_ok s'"
  by (simp add: log_ok_def)

lemma log_ok_stamped: "log_ok s \<Longrightarrow> stamped g s \<Longrightarrow> log_ok (g s)"
  by (auto simp: log_ok_def stamped_def)

lemma stamped_commit:
  assumes c: "change_ok c" and w: "om_get (cs_worktrees s) (ch_worktree c) = Some w" "\<not> blob_missing c s"
  shows "stamped (\<lambda>s. fst (commit now c s)) s"
proof -
  have r: "ch_ref c \<noteq> ''''" using c valid_ref_nonempty unfolding change_ok_def by blast
  show ?thesis
    unfolding stamped_def using c w r
    by (simp add: commit_eq committed_def log_change_def stampless) (simp add: apply_change_def)
qed

lemma log_ok_commit: "log_ok s \<Longrightarrow> log_ok (fst (commit now c s))"
proof (rule commit_cases [OF surjective_pairing, of now c s])
  fix w
  assume "log_ok s" "om_get (cs_worktrees s) (ch_worktree c) = Some w" "change_ok c" "\<not> blob_missing c s"
  then show ?thesis using log_ok_stamped [OF _ stamped_commit] by blast
qed simp

lemma changed_tree_tombstone: "changed_tree (tombstone w i ref now s) old = []"
  by (simp add: changed_tree_def tombstone_def)

lemma apply_tombstone:
  "apply_change (tombstone w i ref now s) ts =
     (if ref = '''' then filter (\<lambda>(k, t). fst k \<noteq> i) ts else om_del (i, ref) ts)"
  unfolding apply_change_def changed_tree_tombstone by (simp add: put_tree_def) (simp add: tombstone_def)

lemma tombstone_seq: "ch_seq (tombstone w i ref now s) = int (length (cs_log s)) + 1"
  by (simp add: tombstone_def)

lemma log_ok_remove_worktree: "log_ok s \<Longrightarrow> log_ok (fst (remove_worktree now i s))"
proof (cases "om_get (cs_worktrees s) i")
  case (Some w)
  assume l: "log_ok s"
  have "stamped (\<lambda>s. fst (remove_worktree now i s)) s" if "valid_worktree_id i"
    by (rule stampedI [where c = "tombstone w i '''' now s"])
      (simp_all add: Some that remove_worktree_def log_change_def apply_tombstone tombstone_seq)
  then show ?thesis using l log_ok_stamped [OF l] by (cases "valid_worktree_id i") (blast, simp add: remove_worktree_def)
qed (simp add: remove_worktree_def)

lemma log_ok_remove_ref: "log_ok s \<Longrightarrow> log_ok (fst (remove_ref now i ref s))"
proof (cases "om_get (cs_worktrees s) i")
  case (Some w)
  assume l: "log_ok s"
  have "stamped (\<lambda>s. fst (remove_ref now i ref s)) s" if "valid_worktree_id i" "valid_ref ref"
    by (rule stampedI [where c = "tombstone w i ref now s"])
      (simp_all add: Some that remove_ref_def log_change_def apply_tombstone tombstone_seq valid_ref_nonempty)
  then show ?thesis using l log_ok_stamped [OF l]
    by (cases "valid_worktree_id i \<and> valid_ref ref") (blast, auto simp: remove_ref_def)
qed (simp add: remove_ref_def)

lemma append_events_seq:
  "map ac_seq l = map (\<lambda>n. int n + 1) [0..<length l] \<Longrightarrow>
   map ac_seq (fold (number_event now) es l) = map (\<lambda>n. int n + 1) [0..<length (fold (number_event now) es l)]"
proof (induction es arbitrary: l)
  case (Cons e es)
  then show ?case using Cons.IH [of "number_event now e l"] by (simp add: number_event_def)
qed simp

lemma log_ok_append_events: "log_ok s \<Longrightarrow> log_ok (fst (append_events now es s))"
  by (simp add: log_ok_def append_events_def append_events_seq)

lemma log_ok_step: "code_step f s s' \<Longrightarrow> log_ok s \<Longrightarrow> log_ok s'"
proof (induction rule: code_step.induct)
  case (put_blob s b)
  then show ?case by (auto simp: put_blob_def elim: log_ok_quiet)
next
  case (put_worktree s now w)
  then show ?case by (auto simp: put_worktree_def Let_def elim: log_ok_quiet)
next
  case (touch_session s now i j ended)
  then show ?case by (auto simp: touch_session_def elim: log_ok_quiet split: option.splits)
qed (simp_all add: log_ok_commit log_ok_remove_worktree log_ok_remove_ref log_ok_append_events)

lemma log_ok_reachable: "code_reachable f s \<Longrightarrow> log_ok s"
proof (induction rule: code_reachable.induct)
  case new
  then show ?case by (simp add: log_ok_def new_code_store_def)
qed (rule log_ok_step)

lemma numbered_nth: "map g l = map (\<lambda>n. int n + 1) [0..<length l] \<Longrightarrow> n < length l \<Longrightarrow> g (l ! n) = int n + 1"
  by (drule arg_cong [where f = "\<lambda>xs. xs ! n"]) simp

section \<open>The properties\<close>

text \<open>C5. Reading the log from its start, and doing with each change what it says (replace or edit
  the tree of its worktree and ref; drop the ref; drop the worktree), gives the trees the store
  holds; the changes and the events are numbered 1, 2, 3, \<dots> without a gap.\<close>

theorem log_replay:
  assumes "code_reachable sha256 s"
  shows "fold apply_change (cs_log s) [] = cs_trees s \<and>
    (\<forall>n < length (cs_log s). ch_seq (cs_log s ! n) = int n + 1) \<and>
    (\<forall>n < length (cs_events s). ac_seq (cs_events s ! n) = int n + 1)"
proof -
  note l = log_ok_reachable [OF assms, unfolded log_ok_def]
  have "\<forall>n < length (cs_log s). ch_seq (cs_log s ! n) = int n + 1"
    by (intro allI impI, rule numbered_nth) (use l in blast)+
  moreover have "\<forall>n < length (cs_events s). ac_seq (cs_events s ! n) = int n + 1"
    by (intro allI impI, rule numbered_nth) (use l in blast)+
  ultimately show ?thesis using l by simp
qed

text \<open>C7. What the store holds can be served: every tree belongs to a ref its worktree lists and is
  not empty; every entry is valid, is found under its own path, and the content it names is held;
  a held content has the digest it is filed under; the byte count is that of the contents held.\<close>

theorem code_store_sound:
  assumes "code_reachable sha256 s"
  shows "blob_usage s = (int (length (cs_blobs s)), (\<Sum>(h, b) \<leftarrow> cs_blobs s. int (length b))) \<and>
    (\<forall>h b. om_get (cs_blobs s) h = Some b \<longrightarrow> sha256 b = h \<and> valid_sha256 h) \<and>
    (\<forall>i ref t. om_get (cs_trees s) (i, ref) = Some t \<longrightarrow>
       t \<noteq> [] \<and> (\<exists>w. om_get (cs_worktrees s) i = Some w \<and> ref \<in> set (wt_refs w)) \<and>
       (\<forall>p e. om_get t p = Some e \<longrightarrow> en_path e = p \<and> entry_ok e \<and>
          (en_sha e \<noteq> '''' \<longrightarrow>
             (\<exists>b. get_blob (en_sha e) s = Inr \<lparr>bl_sha = en_sha e, bl_size = int (length b), bl_content = b\<rparr> \<and>
                  sha256 b = en_sha e))))"
proof -
  note i = code_inv_reachable [OF assms]
  have b: "blob_usage s = (int (length (cs_blobs s)), (\<Sum>(h, b) \<leftarrow> cs_blobs s. int (length b)))"
    using i unfolding code_inv_def blob_usage_def by simp
  have h: "sha256 b = h \<and> valid_sha256 h" if "om_get (cs_blobs s) h = Some b" for h b
    using i that unfolding code_inv_def by blast
  have t: "t \<noteq> [] \<and> (\<exists>w. om_get (cs_worktrees s) i = Some w \<and> ref \<in> set (wt_refs w))"
    if "om_get (cs_trees s) (i, ref) = Some t" for i ref t
    using code_inv_tree [OF i that] unfolding tree_ok_def fst_conv snd_conv by blast
  have e: "en_path e = p \<and> entry_ok e" "en_sha e \<noteq> '''' \<Longrightarrow> om_get (cs_blobs s) (en_sha e) \<noteq> None"
    if "om_get (cs_trees s) (i, ref) = Some t" "om_get t p = Some e" for i ref t p e
    using code_inv_tree [OF i that(1)] that(2) unfolding tree_ok_def by blast+
  have g: "\<exists>b. get_blob h s = Inr \<lparr>bl_sha = h, bl_size = int (length b), bl_content = b\<rparr> \<and> sha256 b = h"
    if held: "om_get (cs_blobs s) h \<noteq> None" for h
  proof -
    obtain b where "om_get (cs_blobs s) h = Some b" using held by blast
    then show ?thesis using h by (simp add: get_blob_def)
  qed
  show ?thesis
    by (intro conjI allI impI; (rule b | erule h [THEN conjunct1] | erule h [THEN conjunct2]
        | erule t [THEN conjunct1] | erule t [THEN conjunct2]
        | erule (1) e(1) [THEN conjunct1] | erule (1) e(1) [THEN conjunct2] | (rule g, erule (2) e(2))))
qed

lemma filter_numbered:
  assumes "\<And>n. n < length l \<Longrightarrow> g (l ! n) = int n + 1"
  shows "filter (\<lambda>x. a < g x) l = drop (nat a) l"
proof -
  let ?k = "min (nat a) (length l)"
  have "filter (\<lambda>x. a < g x) (take ?k l) = []"
    using assms by (auto simp: filter_empty_conv in_set_conv_nth)
  moreover have "filter (\<lambda>x. a < g x) (drop ?k l) = drop ?k l"
    using assms by (auto simp: filter_id_conv in_set_conv_nth)
  ultimately have "filter (\<lambda>x. a < g x) (take ?k l @ drop ?k l) = drop ?k l" by (simp only: filter_append) simp
  then show ?thesis by (auto simp: min_def split: if_splits)
qed

lemma page_of_take: "page_of l a n = take (nat n) (drop (nat a) l)"
proof (cases "n \<le> 0 \<or> int (length l) \<le> max a 0")
  case True
  then show ?thesis by (auto simp: page_of_def Let_def)
next
  case False
  have "nat (min (max a 0 + n) (int (length l)) - max a 0) = min (nat n) (length l - nat a)"
    using False by (simp add: nat_minus_as_int) linarith
  moreover have "take (min (nat n) (length l - nat a)) (drop (nat a) l) = take (nat n) (drop (nat a) l)"
    by (metis length_drop min.commute take_all_iff take_take order_refl)
  moreover have "nat (max a 0) = nat a" by simp
  ultimately show ?thesis using False by (simp only: page_of_def Let_def if_False)
qed

text \<open>A page of changes is the first entries, up to the limit, of those with a number greater than
  the one given: a reader that asks again with the number of the last change it has seen misses
  none and sees none twice.\<close>

theorem changes_after_exact:
  assumes "code_reachable sha256 s"
  shows "changes_after a n s = take (nat n) (filter (\<lambda>c. a < ch_seq c) (cs_log s)) \<and>
    events_after a n s = take (nat n) (filter (\<lambda>e. a < ac_seq e) (cs_events s))"
proof -
  note l = log_ok_reachable [OF assms, unfolded log_ok_def]
  have "filter (\<lambda>c. a < ch_seq c) (cs_log s) = drop (nat a) (cs_log s)"
    by (rule filter_numbered, rule numbered_nth) (use l in blast)
  moreover have "filter (\<lambda>e. a < ac_seq e) (cs_events s) = drop (nat a) (cs_events s)"
    by (rule filter_numbered, rule numbered_nth) (use l in blast)
  ultimately show ?thesis by (simp add: changes_after_def events_after_def page_of_take)
qed

lemma changed_tree_again:
  assumes wf: "\<And>t. old = Some t \<Longrightarrow> omap_wf t" and t: "t = changed_tree c old"
  shows "changed_tree c (if t = [] then None else Some t) = t"
proof (rule om_ext)
  show "omap_wf t" unfolding t using wf by (rule changed_tree_wf)
  then show "omap_wf (changed_tree c (if t = [] then None else Some t))"
    by (intro changed_tree_wf) (simp split: if_splits)
  fix p
  show "om_get (changed_tree c (if t = [] then None else Some t)) p = om_get t p"
  proof (cases "last_entry (ch_upserts c) p")
    case None
    show ?thesis
    proof (cases "ch_full c \<or> p \<in> set (ch_deletes c)")
      case True
      then have "om_get t p = None" using None by (simp add: t changed_tree_get)
      then show ?thesis using None True by (simp add: changed_tree_get)
    next
      case False
      then show ?thesis using None by (simp add: changed_tree_get)
    qed
  next
    case (Some e)
    then have "om_get t p = Some e" by (simp add: t changed_tree_get)
    then show ?thesis using Some by (simp add: changed_tree_get)
  qed
qed

lemma put_tree_again:
  assumes "omap_wf ts"
  shows "put_tree k t (put_tree k t ts) = put_tree k t ts"
  by (rule om_ext) (simp_all add: put_tree_wf put_tree_get assms)

lemma committed_fields:
  "cs_blobs (committed now c w s) = cs_blobs s"
  "cs_trees (committed now c w s) =
     put_tree (ch_worktree c, ch_ref c) (changed_tree c (om_get (cs_trees s) (ch_worktree c, ch_ref c))) (cs_trees s)"
  "cs_worktrees (committed now c w s) = om_put (ch_worktree c) w (cs_worktrees s)"
  "length (cs_log (committed now c w s)) = Suc (length (cs_log s))"
  by (simp_all add: committed_def log_change_def)

text \<open>A commit that succeeds is numbered with the next number and leaves, for every path of its
  tree, the last entry it uploads for it, or nothing when it deletes the path or replaces the
  tree, or what was there; sending it again succeeds, and the trees stay as they are.\<close>

theorem commit_exact:
  assumes "code_reachable sha256 s" "commit now c s = (s1, Inr n)"
  shows "n = int (length (cs_log s)) + 1 \<and>
    (\<forall>p. (case om_get (cs_trees s1) (ch_worktree c, ch_ref c) of None \<Rightarrow> None | Some t \<Rightarrow> om_get t p) =
       (case last_entry (ch_upserts c) p of
          Some e \<Rightarrow> Some e
        | None \<Rightarrow>
            if ch_full c \<or> p \<in> set (ch_deletes c) then None
            else (case om_get (cs_trees s) (ch_worktree c, ch_ref c) of None \<Rightarrow> None | Some t \<Rightarrow> om_get t p))) \<and>
    (\<forall>k. k \<noteq> (ch_worktree c, ch_ref c) \<longrightarrow> om_get (cs_trees s1) k = om_get (cs_trees s) k) \<and>
    (\<exists>s2. commit now' c s1 = (s2, Inr (n + 1)) \<and> cs_trees s2 = cs_trees s1)"
proof (rule commit_cases [OF assms(2)])
  note i = code_inv_reachable [OF assms(1)]
  define k where "k = (ch_worktree c, ch_ref c)"
  define t' where "t' = changed_tree c (om_get (cs_trees s) k)"
  fix w w'
  assume c: "change_ok c" "\<not> blob_missing c s" and s1: "s1 = committed now c w' s"
    and n: "Inr n = Inr (int (length (cs_log s)) + 1)"
  have trees: "cs_trees s1 = put_tree k t' (cs_trees s)"
    by (simp add: s1 committed_fields k_def t'_def)
  have get: "(case om_get (cs_trees s1) k of None \<Rightarrow> None | Some t \<Rightarrow> om_get t p) = om_get t' p" for p
    by (simp add: trees put_tree_get)
  have again: "changed_tree c (om_get (cs_trees s1) k) = t'"
    using changed_tree_again [OF _ t'_def] tree_ok_wf [OF code_inv_tree [OF i]]
    unfolding trees put_tree_get by simp
  let ?s2 = "committed now' c (seen_worktree now' c w') s1"
  have len: "int (length (cs_log s1)) = n" using n by (simp add: s1 committed_fields)
  have "\<not> blob_missing c s1" using c(2) by (simp add: blob_missing_def s1 committed_fields)
  moreover have "om_get (cs_worktrees s1) (ch_worktree c) = Some w'" by (simp add: s1 committed_fields)
  ultimately have "commit now' c s1 = (?s2, Inr (int (length (cs_log s1)) + 1))"
    using c(1) by (simp add: commit_eq)
  moreover have "cs_trees ?s2 = cs_trees s1"
    unfolding committed_fields k_def [symmetric] again
    unfolding trees by (rule put_tree_again [OF code_inv_omap [OF i]])
  ultimately have retry: "\<exists>s2. commit now' c s1 = (s2, Inr (n + 1)) \<and> cs_trees s2 = cs_trees s1"
    unfolding len by blast
  have other: "om_get (cs_trees s1) j = om_get (cs_trees s) j" if "j \<noteq> k" for j
    using that by (simp add: trees put_tree_get)
  have new: "om_get t' p = (case last_entry (ch_upserts c) p of Some e \<Rightarrow> Some e
        | None \<Rightarrow> if ch_full c \<or> p \<in> set (ch_deletes c) then None
            else (case om_get (cs_trees s) k of None \<Rightarrow> None | Some t \<Rightarrow> om_get t p))" for p
    unfolding t'_def by (rule changed_tree_get)
  show ?thesis
    unfolding k_def [symmetric]
    by (intro conjI allI impI) (use n in simp, simp only: get new, rule other, assumption, rule retry)
qed simp

end
