(* ===== verification/Code_Graph.thy ===== *)
theory Code_Graph
  imports Go_Path Prelude
begin

text \<open>
  The port of the code graph (\<open>codegraph/graph.go\<close>, \<open>codegraph/schema.go\<close>,
  \<open>codegraph/view.go\<close>): its nodes and edges, the layer ids and the views that decide what a read
  sees, the validation of what is written and asked, and the outline of a file.

  The list of layers that hide a file may be absent in the source (\<open>nil\<close>): it is an option.
\<close>

section \<open>The nodes and edges\<close>

record layer =
  ly_id :: string
  ly_kind :: string
  ly_parent :: string
  ly_owner :: string
  ly_ref :: string
  ly_commit :: string
  ly_updated :: int

record graph_file =
  gf_layer :: string
  gf_path :: string
  gf_sha :: string
  gf_git_oid :: string
  gf_lang :: string
  gf_package :: string
  gf_hidden :: "string list option"
  gf_deleted :: bool
  gf_parse_error :: bool

record package_node =
  pk_layer :: string
  pk_name :: string
  pk_kind :: string

record symbol =
  sy_layer :: string
  sy_id :: string
  sy_kind :: string
  sy_name :: string
  sy_qual :: string
  sy_signature :: string
  sy_doc :: string
  sy_path :: string
  sy_start :: int
  sy_end :: int
  sy_exported :: bool
  sy_parent :: string

record chunk =
  ck_layer :: string
  ck_id :: string
  ck_kind :: string
  ck_symbol :: string
  ck_path :: string
  ck_start :: int
  ck_end :: int
  ck_hash :: string

record import_edge =
  im_package :: string
  im_kind :: string
  im_alias :: string

record file_facts =
  ff_file :: graph_file
  ff_package_kind :: string
  ff_imports :: "import_edge list"
  ff_symbols :: "symbol list"
  ff_chunks :: "chunk list"

text \<open>A symbol named by its layer and id.\<close>

type_synonym node_ref = "string \<times> string"

record graph_edge =
  ge_type :: string
  ge_layer :: string
  ge_from :: node_ref
  ge_to :: node_ref
  ge_confidence :: string
  ge_count :: int
  ge_line :: int

datatype graph_error = GraphNotFound | GraphUnknownLayer | GraphInvalid

section \<open>The schema\<close>

definition resolved_types :: "string list" where
  "resolved_types = [''CALLS'', ''REFERENCES'', ''IMPLEMENTS'', ''EXTENDS'']"

definition resolved :: "string \<Rightarrow> bool" where
  "resolved t \<longleftrightarrow> t \<in> set resolved_types"

definition confidence_rank :: "string \<Rightarrow> nat" where
  "confidence_rank c =
     (if c = ''exact'' then 0 else if c = ''qualified'' then 1 else if c = ''name'' then 2 else 3)"

section \<open>Layer ids\<close>

record layer_id =
  li_kind :: string
  li_ref :: string
  li_commit :: string
  li_worktree :: string

definition base_layer :: string where
  "base_layer = ''base''"

definition branch_layer :: "string \<Rightarrow> string \<Rightarrow> string" where
  "branch_layer ref c = ''branch:'' @ ref @ ''@'' @ c"

definition worktree_layer :: "string \<Rightarrow> string \<Rightarrow> string" where
  "worktree_layer wt ref = ''wt:'' @ wt @ '':'' @ ref"

definition format_layer :: "layer_id \<Rightarrow> string" where
  "format_layer l =
     (if li_kind l = ''branch'' then branch_layer (li_ref l) (li_commit l)
      else if li_kind l = ''wt'' then worktree_layer (li_worktree l) (li_ref l)
      else base_layer)"

definition parse_layer :: "string \<Rightarrow> layer_id option" where
  "parse_layer i =
     (if i = base_layer then Some \<lparr>li_kind = ''base'', li_ref = '''', li_commit = '''', li_worktree = ''''\<rparr>
      else
        (case strip_prefix ''branch:'' i of
           Some rest \<Rightarrow>
             (case cut_last CHR ''@'' rest of
                None \<Rightarrow> None
              | Some (ref, c) \<Rightarrow>
                  if ref = '''' \<or> c = '''' then None
                  else if contains_any ref '':'' \<or> contains_any c '':@'' then None
                  else Some \<lparr>li_kind = ''branch'', li_ref = ref, li_commit = c, li_worktree = ''''\<rparr>)
         | None \<Rightarrow>
             (case strip_prefix ''wt:'' i of
                Some rest \<Rightarrow>
                  (case cut_first CHR '':'' rest of
                     None \<Rightarrow> None
                   | Some (wt, ref) \<Rightarrow>
                       if wt = '''' \<or> ref = '''' \<or> contains_any ref '':'' then None
                       else Some \<lparr>li_kind = ''wt'', li_ref = ref, li_commit = '''', li_worktree = wt\<rparr>)
              | None \<Rightarrow> None)))"

definition layer_id_ok :: "string \<Rightarrow> bool" where
  "layer_id_ok i \<longleftrightarrow> parse_layer i \<noteq> None"

section \<open>Views\<close>

type_synonym view = "string list"

text \<open>The position of a layer in a view, -1 when it is not there.\<close>

fun rank_from :: "int \<Rightarrow> view \<Rightarrow> string \<Rightarrow> int" where
  "rank_from i [] l = -1"
| "rank_from i (x # v) l = (if x = l then i else rank_from (i + 1) v l)"

definition view_rank :: "view \<Rightarrow> string \<Rightarrow> int" where
  "view_rank v l = rank_from 0 v l"

definition view_has :: "view \<Rightarrow> string \<Rightarrow> bool" where
  "view_has v l \<longleftrightarrow> 0 \<le> view_rank v l"

definition view_ok :: "view \<Rightarrow> bool" where
  "view_ok v \<longleftrightarrow> v \<noteq> [] \<and> list_all layer_id_ok v \<and> distinct v"

definition base_view :: view where
  "base_view = [base_layer]"

definition view_top :: "view \<Rightarrow> string" where
  "view_top v = (if v = [] then '''' else last v)"

definition hidden_list :: "string list option \<Rightarrow> string list" where
  "hidden_list h = (case h of None \<Rightarrow> [] | Some l \<Rightarrow> l)"

definition view_hides :: "view \<Rightarrow> string list option \<Rightarrow> bool" where
  "view_hides v hidden \<longleftrightarrow> list_ex (view_has v) (hidden_list hidden)"

definition node_visible :: "view \<Rightarrow> string \<Rightarrow> string list option \<Rightarrow> bool" where
  "node_visible v l hidden \<longleftrightarrow> view_has v l \<and> \<not> view_hides v hidden"

definition file_visible :: "view \<Rightarrow> graph_file \<Rightarrow> bool" where
  "file_visible v f \<longleftrightarrow> \<not> gf_deleted f \<and> node_visible v (gf_layer f) (gf_hidden f)"

definition edge_visible :: "view \<Rightarrow> string \<Rightarrow> bool \<Rightarrow> bool \<Rightarrow> bool" where
  "edge_visible v l from_visible to_visible \<longleftrightarrow> from_visible \<and> to_visible \<and> view_has v l"

section \<open>Validation\<close>

definition key_start :: "char \<Rightarrow> bool" where
  "key_start c \<longleftrightarrow> is_digit c \<or> (CHR ''A'' \<le> c \<and> c \<le> CHR ''Z'') \<or> (CHR ''a'' \<le> c \<and> c \<le> CHR ''z'')"

definition key_re :: "string \<Rightarrow> bool" where
  "key_re k \<longleftrightarrow>
     (case k of [] \<Rightarrow> False
      | c # r \<Rightarrow> key_start c \<and> length r \<le> 254 \<and> list_all (\<lambda>x. key_start x \<or> x \<in> set ''_.-'') r)"

definition layer_ok :: "layer \<Rightarrow> bool" where
  "layer_ok l \<longleftrightarrow>
     (case parse_layer (ly_id l) of
        None \<Rightarrow> False
      | Some p \<Rightarrow> ly_kind l = li_kind p \<and> (ly_parent l = '''' \<or> layer_id_ok (ly_parent l)))"

definition graph_path_ok :: "string \<Rightarrow> bool" where
  "graph_path_ok p \<longleftrightarrow>
     \<not> (p = '''' \<or> has_prefix p ''/'' \<or> CHR 0x5C \<in> set p \<or> CHR 0x00 \<in> set p) \<and>
     list_all (\<lambda>seg. seg \<notin> {'''', ''.'', ''..''}) (split_on CHR ''/'' p)"

definition graph_file_ok :: "string \<Rightarrow> string \<Rightarrow> bool" where
  "graph_file_ok l p \<longleftrightarrow> layer_id_ok l \<and> graph_path_ok p"

definition facts_ok :: "file_facts \<Rightarrow> bool" where
  "facts_ok ff \<longleftrightarrow>
     (let f = ff_file ff; ids = map sy_id (ff_symbols ff) in
      graph_file_ok (gf_layer f) (gf_path f) \<and>
      \<not> (gf_deleted f \<and> (ff_symbols ff \<noteq> [] \<or> ff_chunks ff \<noteq> [] \<or> ff_imports ff \<noteq> [] \<or> gf_package f \<noteq> '''')) \<and>
      list_all (\<lambda>s. \<not> (sy_id s = '''' \<or> sy_name s = '''') \<and> sy_layer s = gf_layer f \<and> sy_path s = gf_path f) (ff_symbols ff) \<and>
      distinct ids \<and>
      list_all (\<lambda>s. sy_parent s = '''' \<or> (sy_parent s \<in> set ids \<and> sy_parent s \<noteq> sy_id s)) (ff_symbols ff) \<and>
      list_all (\<lambda>c. ck_id c \<noteq> '''' \<and> ck_layer c = gf_layer f \<and> ck_path c = gf_path f \<and>
                    (ck_symbol c = '''' \<or> ck_symbol c \<in> set ids)) (ff_chunks ff) \<and>
      distinct (map ck_id (ff_chunks ff)) \<and>
      list_all (\<lambda>im. im_package im \<noteq> '''') (ff_imports ff))"

definition edge_ok :: "graph_edge \<Rightarrow> bool" where
  "edge_ok e \<longleftrightarrow>
     resolved (ge_type e) \<and> confidence_rank (ge_confidence e) \<le> confidence_rank ''name'' \<and>
     list_all layer_id_ok [ge_layer e, fst (ge_from e), fst (ge_to e)] \<and>
     \<not> (snd (ge_from e) = '''' \<or> snd (ge_to e) = '''') \<and> \<not> (ge_count e < 0 \<or> ge_line e < 0)"

definition edges_ok :: "string \<Rightarrow> node_ref list \<Rightarrow> graph_edge list \<Rightarrow> bool" where
  "edges_ok l src es \<longleftrightarrow>
     layer_id_ok l \<and> list_all (\<lambda>r. snd r \<noteq> '''' \<and> layer_id_ok (fst r)) src \<and>
     list_all (\<lambda>e. edge_ok e \<and> ge_layer e = l \<and> ge_from e \<in> set src) es"

section \<open>Queries\<close>

record symbol_filter =
  sf_kinds :: "string list"
  sf_langs :: "string list"
  sf_paths :: "string list"

definition trim_slash :: "string \<Rightarrow> string" where
  "trim_slash p = (if has_suffix p ''/'' then butlast p else p)"

definition filter_match :: "symbol_filter \<Rightarrow> string \<Rightarrow> string \<Rightarrow> string \<Rightarrow> bool" where
  "filter_match f kind lang p \<longleftrightarrow>
     \<not> (sf_kinds f \<noteq> [] \<and> kind \<notin> set (sf_kinds f)) \<and> \<not> (sf_langs f \<noteq> [] \<and> lang \<notin> set (sf_langs f)) \<and>
     (sf_paths f = [] \<or>
      list_ex (\<lambda>x. let q = trim_slash x in q = '''' \<or> p = q \<or> has_prefix p (q @ ''/'')) (sf_paths f))"

definition effective_limit :: "int \<Rightarrow> int" where
  "effective_limit n = (if n \<le> 0 then 50 else if 500 < n then 500 else n)"

definition max_depth :: int where
  "max_depth = 3"

definition relation_edges :: "string \<Rightarrow> (string list \<times> bool) option" where
  "relation_edges r =
     (if r = ''callers'' then Some ([''CALLS''], True)
      else if r = ''callees'' then Some ([''CALLS''], False)
      else if r = ''references'' then Some ([''REFERENCES''], True)
      else if r = ''implementations'' then Some ([''IMPLEMENTS'', ''EXTENDS''], True)
      else if r = ''imports'' then Some ([''IMPORTS''], False)
      else if r = ''importers'' then Some ([''IMPORTS''], True)
      else None)"

record symbol_query =
  sq_name :: string
  sq_filter :: symbol_filter
  sq_limit :: int

record symbol_key =
  sk_id :: string
  sk_qual :: string

record symbol_info =
  si_symbol :: symbol
  si_lang :: string
  si_children :: "symbol list"
  si_chunks :: "chunk list"

record neighbor_query =
  nq_id :: string
  nq_path :: string
  nq_package :: string
  nq_relation :: string
  nq_depth :: int
  nq_limit :: int

definition neighbor_query_ok :: "neighbor_query \<Rightarrow> bool" where
  "neighbor_query_ok q \<longleftrightarrow>
     relation_edges (nq_relation q) \<noteq> None \<and> \<not> (nq_depth q < 0 \<or> max_depth < nq_depth q) \<and>
     (if nq_relation q = ''imports'' then graph_path_ok (nq_path q)
      else if nq_relation q = ''importers'' then nq_package q \<noteq> ''''
      else nq_id q \<noteq> '''')"

record node_summary =
  ns_label :: string
  ns_layer :: string
  ns_id :: string
  ns_kind :: string
  ns_name :: string
  ns_qual :: string
  ns_path :: string
  ns_start :: int

record neighbor_row =
  nr_from :: node_summary
  nr_relation :: string
  nr_type :: string
  nr_to :: node_summary
  nr_path :: string
  nr_line :: int
  nr_confidence :: string
  nr_alias :: string
  nr_depth :: int

record outline_query =
  oq_path :: string
  oq_package :: string

definition outline_query_ok :: "outline_query \<Rightarrow> bool" where
  "outline_query_ok q \<longleftrightarrow>
     (oq_path q = '''') \<noteq> (oq_package q = '''') \<and> (oq_path q \<noteq> '''' \<longrightarrow> graph_path_ok (oq_path q))"

record text_query =
  tq_query :: string
  tq_filter :: symbol_filter
  tq_limit :: int

section \<open>The outline of a file\<close>

datatype outline_node = OutlineNode symbol "outline_node list"

record file_outline =
  fo_file :: graph_file
  fo_symbols :: "outline_node list"

text \<open>The symbols filed under a parent: an unknown parent counts as none.\<close>

definition outline_parent :: "symbol list \<Rightarrow> symbol \<Rightarrow> string" where
  "outline_parent syms s = (if sy_parent s \<in> sy_id ` set syms then sy_parent s else '''')"

definition kids_of :: "symbol list \<Rightarrow> string \<Rightarrow> symbol list" where
  "kids_of syms p = sort_key (\<lambda>s. (sy_start s, sy_id s)) (filter (\<lambda>s. outline_parent syms s = p) syms)"

text \<open>
  The trees of a list of siblings, and the ids seen so far. The number bounds the depth of the
  recursion: a level marks an id that was not seen, so the number of symbols is enough.
\<close>

fun build_outline :: "nat \<Rightarrow> symbol list \<Rightarrow> symbol list \<Rightarrow> string list \<Rightarrow> outline_node list \<times> string list" where
  "build_outline n syms [] seen = ([], seen)"
| "build_outline 0 syms (s # ss) seen = ([], seen)"
| "build_outline (Suc n) syms (s # ss) seen =
     (if sy_id s \<in> set seen then build_outline (Suc n) syms ss seen
      else
        (let (kids, seen1) = build_outline n syms (kids_of syms (sy_id s)) (sy_id s # seen);
             (rest, seen2) = build_outline (Suc n) syms ss seen1
         in (OutlineNode s kids # rest, seen2)))"

definition outline_of :: "symbol list \<Rightarrow> outline_node list" where
  "outline_of syms = fst (build_outline (Suc (length syms)) syms (kids_of syms '''') [])"

section \<open>Facts: layer ids\<close>

lemma contains_any_simp: "contains_any s cs \<longleftrightarrow> set s \<inter> set cs \<noteq> {}"
  by (auto simp: contains_any_def list_ex_iff)

lemma parse_branch:
  "parse_layer (branch_layer ref c) =
     (case cut_last CHR ''@'' (ref @ ''@'' @ c) of
        None \<Rightarrow> None
      | Some (ref, c) \<Rightarrow>
          if ref = '''' \<or> c = '''' then None
          else if contains_any ref '':'' \<or> contains_any c '':@'' then None
          else Some \<lparr>li_kind = ''branch'', li_ref = ref, li_commit = c, li_worktree = ''''\<rparr>)"
  by (simp add: parse_layer_def branch_layer_def base_layer_def)

lemma parse_worktree:
  "parse_layer (worktree_layer wt ref) =
     (case cut_first CHR '':'' (wt @ '':'' @ ref) of
        None \<Rightarrow> None
      | Some (wt, ref) \<Rightarrow>
          if wt = '''' \<or> ref = '''' \<or> contains_any ref '':'' then None
          else Some \<lparr>li_kind = ''wt'', li_ref = ref, li_commit = '''', li_worktree = wt\<rparr>)"
  by (simp add: parse_layer_def worktree_layer_def base_layer_def)

lemma parse_layer_format: "parse_layer i = Some l \<Longrightarrow> format_layer l = i"
  by (auto simp: parse_layer_def format_layer_def branch_layer_def worktree_layer_def strip_prefix_iff
      cut_first_Some cut_last_Some split: if_splits option.splits)

text \<open>What the parts of an id must be.\<close>

definition layer_parts_ok :: "layer_id \<Rightarrow> bool" where
  "layer_parts_ok l \<longleftrightarrow>
     l = \<lparr>li_kind = ''base'', li_ref = '''', li_commit = '''', li_worktree = ''''\<rparr> \<or>
     (li_kind l = ''branch'' \<and> li_worktree l = '''' \<and> li_ref l \<noteq> '''' \<and> CHR '':'' \<notin> set (li_ref l) \<and>
      li_commit l \<noteq> '''' \<and> set (li_commit l) \<inter> {CHR '':'', CHR ''@''} = {}) \<or>
     (li_kind l = ''wt'' \<and> li_commit l = '''' \<and> li_worktree l \<noteq> '''' \<and> CHR '':'' \<notin> set (li_worktree l) \<and>
      li_ref l \<noteq> '''' \<and> CHR '':'' \<notin> set (li_ref l))"

lemma parse_layer_parts: "parse_layer i = Some l \<Longrightarrow> layer_parts_ok l"
  by (auto simp: parse_layer_def layer_parts_ok_def contains_any_simp cut_first_Some cut_last_Some
      split: if_splits option.splits)

lemma parse_format_layer: "layer_parts_ok l \<Longrightarrow> parse_layer (format_layer l) = Some l"
proof -
  assume ok: "layer_parts_ok l"
  consider "l = \<lparr>li_kind = ''base'', li_ref = '''', li_commit = '''', li_worktree = ''''\<rparr>"
    | "li_kind l = ''branch''" | "li_kind l = ''wt''"
    using ok unfolding layer_parts_ok_def by blast
  then show ?thesis
  proof cases
    case 1
    then show ?thesis by (simp add: format_layer_def parse_layer_def)
  next
    case 2
    then have "cut_last CHR ''@'' (li_ref l @ ''@'' @ li_commit l) = Some (li_ref l, li_commit l)"
      using ok by (auto simp: cut_last_Some layer_parts_ok_def)
    then show ?thesis using 2 ok
      by (simp add: format_layer_def parse_branch) (auto simp: layer_parts_ok_def contains_any_simp)
  next
    case 3
    then have "cut_first CHR '':'' (li_worktree l @ '':'' @ li_ref l) = Some (li_worktree l, li_ref l)"
      using ok by (auto simp: cut_first_Some layer_parts_ok_def)
    then show ?thesis using 3 ok
      by (simp add: format_layer_def parse_worktree) (auto simp: layer_parts_ok_def contains_any_simp)
  qed
qed

text \<open>C39. Layer ids and their parts are two forms of one thing: an id that parses is the text of its parts,
  and parts that can occur (a ref and a commit without the separators, none of them empty) are
  read back from their text; nothing else parses.\<close>

theorem layer_id_round_trip: "parse_layer i = Some l \<longleftrightarrow> layer_parts_ok l \<and> format_layer l = i"
  using parse_layer_format parse_layer_parts parse_format_layer by blast

section \<open>Facts: the outline\<close>

fun outline_root :: "outline_node \<Rightarrow> symbol" where
  "outline_root (OutlineNode s ks) = s"

text \<open>The symbols of trees, parents first.\<close>

fun outline_symbols :: "outline_node \<Rightarrow> symbol list" where
  "outline_symbols (OutlineNode s ks) = s # concat (map outline_symbols ks)"

definition forest_symbols :: "outline_node list \<Rightarrow> symbol list" where
  "forest_symbols ns = concat (map outline_symbols ns)"

lemma forest_Nil [simp]: "forest_symbols [] = []"
  by (simp add: forest_symbols_def)

lemma forest_Cons [simp]: "forest_symbols (OutlineNode s ks # rs) = s # forest_symbols ks @ forest_symbols rs"
  by (simp add: forest_symbols_def)

text \<open>A tree of a forest below a parent: every child is filed under its node, and siblings are in order.\<close>

fun outline_node_ok :: "symbol list \<Rightarrow> string \<Rightarrow> outline_node \<Rightarrow> bool" where
  "outline_node_ok syms p (OutlineNode s ks) \<longleftrightarrow>
     outline_parent syms s = p \<and> sorted (map (\<lambda>k. (sy_start (outline_root k), sy_id (outline_root k))) ks) \<and>
     (\<forall>k \<in> set ks. outline_node_ok syms (sy_id s) k)"

abbreviation outline_key :: "symbol \<Rightarrow> int \<times> string" where
  "outline_key s \<equiv> (sy_start s, sy_id s)"

lemma kids_of_set: "set (kids_of syms p) = {s \<in> set syms. outline_parent syms s = p}"
  by (auto simp: kids_of_def)

lemma kids_of_sorted: "sorted (map outline_key (kids_of syms p))"
  by (simp add: kids_of_def)

text \<open>How many symbols are not seen: the measure of the recursion.\<close>

definition unseen :: "symbol list \<Rightarrow> string list \<Rightarrow> nat" where
  "unseen syms seen = card (sy_id ` set syms - set seen)"

lemma unseen_Cons: "s \<in> set syms \<Longrightarrow> sy_id s \<notin> set seen \<Longrightarrow> unseen syms seen = Suc (unseen syms (sy_id s # seen))"
proof -
  assume s: "s \<in> set syms" "sy_id s \<notin> set seen"
  let ?rest = "sy_id ` set syms - set (sy_id s # seen)"
  have "sy_id ` set syms - set seen = insert (sy_id s) ?rest" using s by auto
  moreover have "card (insert (sy_id s) ?rest) = Suc (card ?rest)" by (rule card_insert_disjoint) auto
  ultimately show ?thesis unfolding unseen_def by (simp only:)
qed

lemma unseen_mono: "set seen \<subseteq> set seen' \<Longrightarrow> unseen syms seen' \<le> unseen syms seen"
  unfolding unseen_def by (intro card_mono) auto

text \<open>The recursion as a relation, for rule induction.\<close>

inductive outline_run ::
    "symbol list \<Rightarrow> nat \<Rightarrow> symbol list \<Rightarrow> string list \<Rightarrow> outline_node list \<Rightarrow> string list \<Rightarrow> bool" for syms where
  nil: "outline_run syms n [] seen [] seen"
| zero: "outline_run syms 0 (s # ss) seen [] seen"
| skip: "\<lbrakk>sy_id s \<in> set seen; outline_run syms (Suc n) ss seen ns seen'\<rbrakk> \<Longrightarrow>
    outline_run syms (Suc n) (s # ss) seen ns seen'"
| node: "\<lbrakk>sy_id s \<notin> set seen; outline_run syms n (kids_of syms (sy_id s)) (sy_id s # seen) ks seen1;
     outline_run syms (Suc n) ss seen1 rs seen2\<rbrakk> \<Longrightarrow>
    outline_run syms (Suc n) (s # ss) seen (OutlineNode s ks # rs) seen2"

lemma build_outline_run: "outline_run syms n ss seen (fst (build_outline n syms ss seen)) (snd (build_outline n syms ss seen))"
proof (induction n syms ss seen rule: build_outline.induct)
  case (3 n syms s ss seen)
  show ?case
  proof (cases "sy_id s \<in> set seen")
    case True
    then show ?thesis using 3(1) by (simp add: outline_run.skip)
  next
    case False
    define b where "b = build_outline n syms (kids_of syms (sy_id s)) (sy_id s # seen)"
    define c where "c = build_outline (Suc n) syms ss (snd b)"
    have "outline_run syms n (kids_of syms (sy_id s)) (sy_id s # seen) (fst b) (snd b)"
      using 3(2) [OF False] by (simp add: b_def)
    moreover have "outline_run syms (Suc n) ss (snd b) (fst c) (snd c)"
      using 3(3) [OF False b_def prod.collapse] by (simp add: c_def)
    moreover have "build_outline (Suc n) syms (s # ss) seen = (OutlineNode s (fst b) # fst c, snd c)"
      using False by (simp add: b_def c_def case_prod_unfold Let_def)
    ultimately show ?thesis using False by (simp add: outline_run.node)
  qed
qed (simp_all add: outline_run.nil outline_run.zero)

lemma run_seen: "outline_run syms n ss seen ns seen' \<Longrightarrow> set seen \<subseteq> set seen'"
  by (induction rule: outline_run.induct) auto

lemma run_roots: "outline_run syms n ss seen ns seen' \<Longrightarrow> outline_root ` set ns \<subseteq> set ss"
  by (induction rule: outline_run.induct) auto

lemma run_sorted:
  "outline_run syms n ss seen ns seen' \<Longrightarrow> sorted (map outline_key ss) \<Longrightarrow>
   sorted (map (\<lambda>k. outline_key (outline_root k)) ns)"
proof (induction rule: outline_run.induct)
  case (node s seen n ks seen1 ss rs seen2)
  have "outline_root ` set rs \<subseteq> set ss" by (rule run_roots [OF node.hyps(3)])
  then have "\<forall>k \<in> set rs. outline_key s \<le> outline_key (outline_root k)" using node.prems by auto
  then show ?case using node.IH(2) node.prems by simp
qed auto

lemma run_nodes_ok:
  "outline_run syms n ss seen ns seen' \<Longrightarrow> \<forall>s \<in> set ss. outline_parent syms s = p \<Longrightarrow>
   \<forall>k \<in> set ns. outline_node_ok syms p k"
proof (induction arbitrary: p rule: outline_run.induct)
  case (node s seen n ks seen1 ss rs seen2)
  have "sorted (map (\<lambda>k. outline_key (outline_root k)) ks)"
    by (rule run_sorted [OF node.hyps(2) kids_of_sorted])
  moreover have "\<forall>k \<in> set ks. outline_node_ok syms (sy_id s) k"
    by (rule node.IH(1)) (simp add: kids_of_set)
  ultimately show ?case using node.IH(2) [of p] node.prems by simp
qed auto

text \<open>What a run of the recursion does when its bound is large enough.\<close>

definition outline_post :: "symbol list \<Rightarrow> symbol list \<Rightarrow> string list \<Rightarrow> symbol list \<Rightarrow> string list \<Rightarrow> bool" where
  "outline_post syms ss seen fs seen' \<longleftrightarrow>
     set seen' = set seen \<union> sy_id ` set fs \<and> set fs \<subseteq> set syms \<and>
     distinct (map sy_id fs) \<and> set seen \<inter> sy_id ` set fs = {} \<and> sy_id ` set ss \<subseteq> set seen' \<and>
     (\<forall>s \<in> set fs. sy_id ` set (kids_of syms (sy_id s)) \<subseteq> set seen')"

lemma outline_postD:
  assumes "outline_post syms ss seen fs seen'"
  shows "set seen' = set seen \<union> sy_id ` set fs" "set fs \<subseteq> set syms" "distinct (map sy_id fs)"
    "set seen \<inter> sy_id ` set fs = {}" "sy_id ` set ss \<subseteq> set seen'"
    "\<forall>s \<in> set fs. sy_id ` set (kids_of syms (sy_id s)) \<subseteq> set seen'"
  using assms unfolding outline_post_def by iprover+

lemma outline_postI:
  "\<lbrakk>set seen' = set seen \<union> sy_id ` set fs; set fs \<subseteq> set syms; distinct (map sy_id fs);
    set seen \<inter> sy_id ` set fs = {}; sy_id ` set ss \<subseteq> set seen';
    \<forall>s \<in> set fs. sy_id ` set (kids_of syms (sy_id s)) \<subseteq> set seen'\<rbrakk> \<Longrightarrow> outline_post syms ss seen fs seen'"
  unfolding outline_post_def by iprover

lemma outline_post_node:
  assumes s: "s \<in> set syms" "sy_id s \<notin> set seen"
    and k: "outline_post syms (kids_of syms (sy_id s)) (sy_id s # seen) ks seen1"
    and r: "outline_post syms ss seen1 rs seen2"
  shows "outline_post syms (s # ss) seen (s # ks @ rs) seen2"
proof -
  note dk = outline_postD [OF k] and dr = outline_postD [OF r]
  have seen1: "set seen1 = insert (sy_id s) (set seen) \<union> sy_id ` set ks" using dk(1) by simp
  have sub: "set seen1 \<subseteq> set seen2" using dr(1) by blast
  show ?thesis
  proof (rule outline_postI)
    show "set seen2 = set seen \<union> sy_id ` set (s # ks @ rs)"
      unfolding dr(1) seen1 by (simp add: image_Un Un_ac)
    show "set (s # ks @ rs) \<subseteq> set syms" using s(1) dk(2) dr(2) by simp
    show "distinct (map sy_id (s # ks @ rs))"
      using dk(3,4) dr(3,4) unfolding seen1 by auto
    show "set seen \<inter> sy_id ` set (s # ks @ rs) = {}"
      using s(2) dk(4) dr(4) unfolding seen1 by auto
    show "sy_id ` set (s # ss) \<subseteq> set seen2" using dr(5) sub unfolding seen1 by auto
    have "sy_id ` set (kids_of syms (sy_id x)) \<subseteq> set seen2" if "x = s \<or> x \<in> set ks" for x
      using that dk(5,6) sub by blast
    then show "\<forall>x \<in> set (s # ks @ rs). sy_id ` set (kids_of syms (sy_id x)) \<subseteq> set seen2"
      using dr(6) unfolding set_append list.set by blast
  qed
qed

lemma run_post:
  "\<lbrakk>outline_run syms n ss seen ns seen'; unseen syms seen \<le> n; set ss \<subseteq> set syms\<rbrakk> \<Longrightarrow>
   outline_post syms ss seen (forest_symbols ns) seen'"
proof (induction rule: outline_run.induct)
  case (nil n seen)
  then show ?case by (simp add: outline_post_def)
next
  case (zero s ss seen)
  then have "sy_id ` set syms \<subseteq> set seen" by (simp add: unseen_def)
  then show ?case using zero by (auto simp: outline_post_def)
next
  case (skip s seen n ss ns seen')
  then have "outline_post syms ss seen (forest_symbols ns) seen'" by simp
  note d = outline_postD [OF this]
  have "sy_id ` set (s # ss) \<subseteq> set seen'" using skip.hyps(1) d(5) unfolding d(1) by simp
  then show ?case using d by (intro outline_postI)
next
  case (node s seen n ks seen1 ss rs seen2)
  have s: "s \<in> set syms" using node.prems by simp
  have "unseen syms seen1 \<le> Suc n"
    using unseen_mono [of seen seen1 syms] run_seen [OF node.hyps(2)] node.prems by simp
  then have "outline_post syms ss seen1 (forest_symbols rs) seen2" using node by simp
  moreover have "outline_post syms (kids_of syms (sy_id s)) (sy_id s # seen) (forest_symbols ks) seen1"
    using unseen_Cons [OF s node.hyps(1)] node.prems by (intro node.IH(1)) (auto simp: kids_of_set)
  ultimately show ?case using outline_post_node [OF s node.hyps(1)] by simp
qed

text \<open>The outline of a file holds each of its symbols exactly once when no symbol encloses itself:
  every child sits under the symbol it names as its parent, a symbol whose parent is missing at
  the top, and siblings are in order of their first line and id.\<close>

theorem outline_complete:
  assumes ids: "distinct (map sy_id syms)" "'''' \<notin> sy_id ` set syms"
    and acyclic: "\<And>s. s \<in> set syms \<Longrightarrow> sy_parent s \<in> sy_id ` set syms \<Longrightarrow> rank (sy_parent s) < (rank (sy_id s) :: nat)"
  shows "distinct (forest_symbols (outline_of syms)) \<and> set (forest_symbols (outline_of syms)) = set syms \<and>
    sorted (map (\<lambda>k. (sy_start (outline_root k), sy_id (outline_root k))) (outline_of syms)) \<and>
    (\<forall>k \<in> set (outline_of syms). outline_node_ok syms '''' k)"
proof -
  define seen' where "seen' = snd (build_outline (Suc (length syms)) syms (kids_of syms '''') [])"
  have run: "outline_run syms (Suc (length syms)) (kids_of syms '''') [] (outline_of syms) seen'"
    unfolding outline_of_def seen'_def by (rule build_outline_run)
  have "unseen syms [] \<le> length syms"
    using card_length [of "map sy_id syms"] by (simp add: unseen_def)
  then have post: "outline_post syms (kids_of syms '''') [] (forest_symbols (outline_of syms)) seen'"
    by (intro run_post [OF run]) (auto simp: kids_of_set)
  let ?f = "forest_symbols (outline_of syms)"
  have f: "set seen' = sy_id ` set ?f" "set ?f \<subseteq> set syms" "distinct (map sy_id ?f)"
      "sy_id ` set (kids_of syms '''') \<subseteq> set seen'"
      "\<And>s. s \<in> set ?f \<Longrightarrow> sy_id ` set (kids_of syms (sy_id s)) \<subseteq> set seen'"
    using outline_postD [OF post] by (simp, blast+)
  have "sy_id s \<in> set seen'" if "s \<in> set syms" for s
    using that
  proof (induction "rank (sy_id s)" arbitrary: s rule: less_induct)
    case less
    show ?case
    proof (cases "sy_parent s \<in> sy_id ` set syms")
      case True
      then obtain t where t: "t \<in> set syms" "sy_id t = sy_parent s" by auto
      then have "rank (sy_id t) < rank (sy_id s)" using acyclic [OF less.prems True] by simp
      then have "sy_id t \<in> set seen'" using less.hyps t(1) by blast
      then obtain u where u: "u \<in> set ?f" "sy_id u = sy_id t" using f(1) by auto
      have "s \<in> set (kids_of syms (sy_id u))" using less.prems True u(2) t(2) by (simp add: kids_of_set outline_parent_def)
      then show ?thesis using f(5) [OF u(1)] by auto
    next
      case False
      then show ?thesis using f(4) less.prems by (auto simp: kids_of_set outline_parent_def)
    qed
  qed
  then have "set syms \<subseteq> set ?f"
    unfolding f(1) using f(2) ids(1) by (auto simp: distinct_map dest: inj_onD)
  then have "set ?f = set syms" using f(2) by auto
  moreover have "distinct ?f" using f(3) by (simp add: distinct_map)
  moreover have "\<forall>k \<in> set (outline_of syms). outline_node_ok syms '''' k"
    by (rule run_nodes_ok [OF run]) (simp add: kids_of_set)
  ultimately show ?thesis using run_sorted [OF run kids_of_sorted] by simp
qed

text \<open>A larger bound changes nothing once it reaches the number of symbols not seen.\<close>

lemma build_outline_all_seen: "sy_id ` set ss \<subseteq> set seen \<Longrightarrow> build_outline n syms ss seen = ([], seen)"
  by (induction n syms ss seen rule: build_outline.induct) auto

lemma build_outline_bound:
  "unseen syms seen \<le> n \<Longrightarrow> set ss \<subseteq> set syms \<Longrightarrow> build_outline (n + k) syms ss seen = build_outline n syms ss seen"
proof (induction n syms ss seen rule: build_outline.induct)
  case (2 syms s ss seen)
  then have "sy_id ` set (s # ss) \<subseteq> set seen" by (auto simp: unseen_def)
  then show ?case by (simp only: build_outline_all_seen)
next
  case (3 n syms s ss seen)
  show ?case
  proof (cases "sy_id s \<in> set seen")
    case True
    then show ?thesis using 3 by simp
  next
    case False
    define b where "b = build_outline n syms (kids_of syms (sy_id s)) (sy_id s # seen)"
    have s: "s \<in> set syms" using "3.prems"(2) by simp
    have u: "unseen syms (sy_id s # seen) \<le> n" using unseen_Cons [OF s False] "3.prems"(1) by simp
    have kids: "build_outline (n + k) syms (kids_of syms (sy_id s)) (sy_id s # seen) = b"
      unfolding b_def by (rule "3.IH"(2) [OF False u]) (auto simp: kids_of_set)
    have "set (sy_id s # seen) \<subseteq> set (snd b)" unfolding b_def by (rule run_seen [OF build_outline_run])
    then have "unseen syms (snd b) \<le> Suc n" using unseen_mono [of seen "snd b" syms] "3.prems"(1) by simp
    then have "build_outline (Suc n + k) syms ss (snd b) = build_outline (Suc n) syms ss (snd b)"
      using "3.prems"(2) by (intro "3.IH"(3) [OF False b_def prod.collapse]) auto
    then show ?thesis using False kids by (simp add: b_def [symmetric] case_prod_unfold Let_def)
  qed
qed simp

text \<open>C40. Building an outline ends for every list of symbols, also when parents form a cycle or ids
  repeat: the recursion visits an id once, so a bound of the number of symbols is never reached.\<close>

theorem outline_terminates:
  "build_outline (length syms + k) syms (kids_of syms p) [] = build_outline (length syms) syms (kids_of syms p) []"
proof (rule build_outline_bound)
  show "unseen syms [] \<le> length syms"
    using card_length [of "map sy_id syms"] by (simp add: unseen_def)
  show "set (kids_of syms p) \<subseteq> set syms" by (auto simp: kids_of_set)
qed

end
