(* ===== verification/Graph_Store.thy ===== *)
theory Graph_Store
  imports Code_Graph
begin

text \<open>
  The code graph in memory (\<open>codegraph/memgraph/memgraph.go\<close>): its layers, files with the symbols,
  chunks and imports that hang off them, packages and resolved edges; the writes that keep them
  consistent; the reads through a view. The mutex makes an operation one step and contexts are
  not cancelled. Scores are sums of small integers, which a \<open>float64\<close> holds exactly.
\<close>

section \<open>The state\<close>

record file_rec =
  fr_file :: graph_file
  fr_symbols :: "string list"
  fr_chunks :: "chunk list"
  fr_imports :: "import_edge list"

text \<open>The key of an edge: its type, layer and ends.\<close>

type_synonym edge_key = "string \<times> string \<times> node_ref \<times> node_ref"

record graph_data =
  gd_layers :: "(string, layer) omap"
  gd_files :: "(string \<times> string, file_rec) omap"
  gd_symbols :: "(node_ref, symbol) omap"
  gd_chunk_owner :: "(node_ref, string) omap"
  gd_packages :: "(string \<times> string, package_node) omap"
  gd_edges :: "(edge_key, graph_edge) omap"

definition new_graph :: graph_data where
  "new_graph =
     \<lparr>gd_layers = [], gd_files = [], gd_symbols = [], gd_chunk_owner = [], gd_packages = [], gd_edges = []\<rparr>"

text \<open>The graphs of a process by key; opening one creates it.\<close>

type_synonym graphs = "(string, graph_data) omap"

definition open_graph :: "string \<Rightarrow> graphs \<Rightarrow> (graph_error + graph_data) \<times> graphs" where
  "open_graph key gs =
     (if \<not> key_re key then (Inl GraphInvalid, gs)
      else
        (case om_get gs key of
           Some d \<Rightarrow> (Inr d, gs)
         | None \<Rightarrow> (Inr new_graph, om_put key new_graph gs)))"

section \<open>Writes\<close>

definition put_layer :: "layer \<Rightarrow> graph_data \<Rightarrow> graph_data \<times> graph_error option" where
  "put_layer l d =
     (if \<not> layer_ok l then (d, Some GraphInvalid)
      else (d\<lparr>gd_layers := om_put (ly_id l) l (gd_layers d)\<rparr>, None))"

definition clone_hidden :: "string list option \<Rightarrow> string list option" where
  "clone_hidden h = (if hidden_list h = [] then None else h)"

text \<open>A symbol goes with every resolved edge that touches it.\<close>

definition touches :: "node_ref \<Rightarrow> edge_key \<Rightarrow> bool" where
  "touches r k \<longleftrightarrow> (case k of (t, l, a, b) \<Rightarrow> a = r \<or> b = r)"

definition delete_symbol :: "node_ref \<Rightarrow> graph_data \<Rightarrow> graph_data" where
  "delete_symbol r d =
     d\<lparr>gd_symbols := om_del r (gd_symbols d),
       gd_edges := filter (\<lambda>(k, e). \<not> touches r k) (gd_edges d)\<rparr>"

definition ensure_package :: "string \<Rightarrow> string \<Rightarrow> string \<Rightarrow> graph_data \<Rightarrow> graph_data" where
  "ensure_package l name kind d =
     (if om_get (gd_packages d) (l, name) \<noteq> None then d
      else d\<lparr>gd_packages := om_put (l, name)
                \<lparr>pk_layer = l, pk_name = name, pk_kind = (if kind = '''' then ''package'' else kind)\<rparr> (gd_packages d)\<rparr>)"

definition put_symbol :: "string \<Rightarrow> symbol \<Rightarrow> graph_data \<Rightarrow> graph_data" where
  "put_symbol l s d = d\<lparr>gd_symbols := om_put (l, sy_id s) s (gd_symbols d)\<rparr>"

definition put_chunk_owner :: "string \<Rightarrow> string \<Rightarrow> chunk \<Rightarrow> graph_data \<Rightarrow> graph_data" where
  "put_chunk_owner l p c d = d\<lparr>gd_chunk_owner := om_put (l, ck_id c) p (gd_chunk_owner d)\<rparr>"

definition delete_chunk_owner :: "string \<Rightarrow> chunk \<Rightarrow> graph_data \<Rightarrow> graph_data" where
  "delete_chunk_owner l c d = d\<lparr>gd_chunk_owner := om_del (l, ck_id c) (gd_chunk_owner d)\<rparr>"

text \<open>What the old record of a path leaves behind when a new one replaces it.\<close>

definition clear_old :: "string \<Rightarrow> string list \<Rightarrow> file_rec option \<Rightarrow> graph_data \<Rightarrow> graph_data" where
  "clear_old l keep old d =
     (case old of
        None \<Rightarrow> d
      | Some r \<Rightarrow>
          fold (delete_chunk_owner l) (fr_chunks r)
            (fold (\<lambda>i d. if i \<in> set keep then d else delete_symbol (l, i) d) (fr_symbols r) d))"

definition taken_elsewhere :: "file_facts \<Rightarrow> graph_data \<Rightarrow> bool" where
  "taken_elsewhere ff d \<longleftrightarrow>
     (let f = ff_file ff in
      list_ex (\<lambda>s. case om_get (gd_symbols d) (gf_layer f, sy_id s) of
                     Some old \<Rightarrow> sy_path old \<noteq> gf_path f | None \<Rightarrow> False) (ff_symbols ff) \<or>
      list_ex (\<lambda>c. case om_get (gd_chunk_owner d) (gf_layer f, ck_id c) of
                     Some p \<Rightarrow> p \<noteq> gf_path f | None \<Rightarrow> False) (ff_chunks ff))"

definition apply_file :: "file_facts \<Rightarrow> graph_data \<Rightarrow> graph_data \<times> graph_error option" where
  "apply_file ff d =
     (let f = ff_file ff; l = gf_layer f; p = gf_path f in
      if \<not> facts_ok ff then (d, Some GraphInvalid)
      else if om_get (gd_layers d) l = None then (d, Some GraphUnknownLayer)
      else if taken_elsewhere ff d then (d, Some GraphInvalid)
      else
        (let old = om_get (gd_files d) (l, p);
             hidden = (case gf_hidden f of
                         Some h \<Rightarrow> Some h
                       | None \<Rightarrow> (case old of None \<Rightarrow> None | Some r \<Rightarrow> gf_hidden (fr_file r)));
             d1 = clear_old l (map sy_id (ff_symbols ff)) old d;
             d2 = fold (put_symbol l) (ff_symbols ff) d1;
             d3 = fold (put_chunk_owner l p) (ff_chunks ff) d2;
             d4 = (if gf_package f \<noteq> '''' then ensure_package l (gf_package f) (ff_package_kind ff) d3 else d3);
             d5 = fold (\<lambda>im. ensure_package l (im_package im) (im_kind im)) (ff_imports ff) d4;
             r = \<lparr>fr_file = f\<lparr>gf_hidden := clone_hidden hidden\<rparr>, fr_symbols = map sy_id (ff_symbols ff),
                  fr_chunks = ff_chunks ff, fr_imports = ff_imports ff\<rparr>
         in (d5\<lparr>gd_files := om_put (l, p) r (gd_files d5)\<rparr>, None)))"

definition graph_remove_file :: "string \<Rightarrow> string \<Rightarrow> graph_data \<Rightarrow> graph_data \<times> graph_error option" where
  "graph_remove_file l p d =
     (if \<not> graph_file_ok l p then (d, Some GraphInvalid)
      else
        (case om_get (gd_files d) (l, p) of
           None \<Rightarrow> (d, None)
         | Some r \<Rightarrow>
             (let d1 = fold (\<lambda>i. delete_symbol (l, i)) (fr_symbols r) d;
                  d2 = fold (delete_chunk_owner l) (fr_chunks r) d1
              in (d2\<lparr>gd_files := om_del (l, p) (gd_files d2)\<rparr>, None))))"

definition set_hidden :: "string \<Rightarrow> string \<Rightarrow> string list \<Rightarrow> graph_data \<Rightarrow> graph_data \<times> graph_error option" where
  "set_hidden l p hs d =
     (if \<not> graph_file_ok l p then (d, Some GraphInvalid)
      else if \<not> list_all layer_id_ok hs then (d, Some GraphInvalid)
      else
        (case om_get (gd_files d) (l, p) of
           None \<Rightarrow> (d, Some GraphNotFound)
         | Some r \<Rightarrow>
             (d\<lparr>gd_files := om_put (l, p) (r\<lparr>fr_file := (fr_file r)\<lparr>gf_hidden := clone_hidden (Some hs)\<rparr>\<rparr>) (gd_files d)\<rparr>,
              None)))"

definition edge_key_of :: "graph_edge \<Rightarrow> edge_key" where
  "edge_key_of e = (ge_type e, ge_layer e, ge_from e, ge_to e)"

definition sourced :: "string \<Rightarrow> node_ref list \<Rightarrow> edge_key \<Rightarrow> bool" where
  "sourced l src k \<longleftrightarrow> (case k of (t, m, a, b) \<Rightarrow> m = l \<and> a \<in> set src)"

definition put_edges :: "string \<Rightarrow> node_ref list \<Rightarrow> graph_edge list \<Rightarrow> graph_data \<Rightarrow> graph_data \<times> graph_error option" where
  "put_edges l src es d =
     (if \<not> edges_ok l src es then (d, Some GraphInvalid)
      else if om_get (gd_layers d) l = None then (d, Some GraphUnknownLayer)
      else if list_ex (\<lambda>e. om_get (gd_symbols d) (ge_from e) = None \<or> om_get (gd_symbols d) (ge_to e) = None) es
      then (d, Some GraphNotFound)
      else
        (let kept = filter (\<lambda>(k, e). \<not> sourced l src k) (gd_edges d)
         in (d\<lparr>gd_edges := fold (\<lambda>e m. om_put (edge_key_of e) e m) es kept\<rparr>, None)))"

definition forget_layer :: "string \<Rightarrow> file_rec \<Rightarrow> file_rec" where
  "forget_layer l r =
     (let h = hidden_list (gf_hidden (fr_file r)) in
      if l \<in> set h
      then r\<lparr>fr_file := (fr_file r)\<lparr>gf_hidden := clone_hidden (Some (filter (\<lambda>x. x \<noteq> l) h))\<rparr>\<rparr>
      else r)"

definition in_layer :: "string \<Rightarrow> edge_key \<Rightarrow> bool" where
  "in_layer l k \<longleftrightarrow> (case k of (t, m, a, b) \<Rightarrow> m = l \<or> fst a = l \<or> fst b = l)"

definition drop_layer :: "string \<Rightarrow> graph_data \<Rightarrow> graph_data \<times> graph_error option" where
  "drop_layer l d =
     (if \<not> layer_id_ok l then (d, Some GraphInvalid)
      else
        (\<lparr>gd_layers = om_del l (gd_layers d),
          gd_files = om_map (forget_layer l) (filter (\<lambda>(k, r). fst k \<noteq> l) (gd_files d)),
          gd_symbols = filter (\<lambda>(k, s). fst k \<noteq> l) (gd_symbols d),
          gd_chunk_owner = filter (\<lambda>(k, p). fst k \<noteq> l) (gd_chunk_owner d),
          gd_packages = filter (\<lambda>(k, p). fst k \<noteq> l) (gd_packages d),
          gd_edges = filter (\<lambda>(k, e). \<not> in_layer l k) (gd_edges d)\<rparr>, None))"

definition drop_graph :: "graph_data \<Rightarrow> graph_data" where
  "drop_graph d = new_graph"

section \<open>Reads\<close>

definition list_layers :: "graph_data \<Rightarrow> layer list" where
  "list_layers d = sort_key ly_id (map snd (gd_layers d))"

definition list_files :: "string \<Rightarrow> graph_data \<Rightarrow> graph_error + graph_file list" where
  "list_files l d =
     (if \<not> layer_id_ok l then Inl GraphInvalid
      else if om_get (gd_layers d) l = None then Inl GraphNotFound
      else Inr (sort_key gf_path (map (\<lambda>(k, r). fr_file r) (filter (\<lambda>(k, r). fst k = l) (gd_files d)))))"

definition visible_symbol :: "graph_data \<Rightarrow> view \<Rightarrow> node_ref \<Rightarrow> (symbol \<times> file_rec) option" where
  "visible_symbol d v ref =
     (case om_get (gd_symbols d) ref of
        None \<Rightarrow> None
      | Some s \<Rightarrow>
          (case om_get (gd_files d) (sy_layer s, sy_path s) of
             None \<Rightarrow> None
           | Some r \<Rightarrow> if file_visible v (fr_file r) then Some (s, r) else None))"

text \<open>The best candidate of every id so far, and one more symbol.\<close>

definition consider_symbol ::
    "graph_data \<Rightarrow> view \<Rightarrow> node_ref \<Rightarrow> (string, symbol \<times> file_rec) omap \<Rightarrow> (string, symbol \<times> file_rec) omap" where
  "consider_symbol d v ref best =
     (if \<not> view_has v (fst ref) then best
      else
        (case visible_symbol d v ref of
           None \<Rightarrow> best
         | Some (s, r) \<Rightarrow>
             (case om_get best (sy_id s) of
                Some (s', r') \<Rightarrow> if view_rank v (sy_layer s') > view_rank v (sy_layer s) then best else om_put (sy_id s) (s, r) best
              | None \<Rightarrow> om_put (sy_id s) (s, r) best)))"

definition visible_symbols :: "graph_data \<Rightarrow> view \<Rightarrow> (symbol \<Rightarrow> file_rec \<Rightarrow> bool) \<Rightarrow> symbol list" where
  "visible_symbols d v keep =
     map fst (filter (\<lambda>(s, r). keep s r) (map snd (fold (consider_symbol d v) (map fst (gd_symbols d)) [])))"

abbreviation symbol_order :: "symbol \<Rightarrow> string \<times> int \<times> string \<times> string" where
  "symbol_order s \<equiv> (sy_path s, sy_start s, sy_id s, sy_layer s)"

definition limited :: "int \<Rightarrow> 'a list \<Rightarrow> 'a list" where
  "limited n xs = take (nat (effective_limit n)) xs"

definition find_symbols :: "graph_data \<Rightarrow> view \<Rightarrow> symbol_query \<Rightarrow> graph_error + symbol list" where
  "find_symbols d v q =
     (if \<not> view_ok v then Inl GraphInvalid
      else if sq_name q = '''' then Inl GraphInvalid
      else
        (let found = visible_symbols d v (\<lambda>s r.
               (sy_name s = sq_name q \<or> sy_qual s = sq_name q) \<and>
               filter_match (sq_filter q) (sy_kind s) (gf_lang (fr_file r)) (sy_path s))
         in Inr (limited (sq_limit q) (sort_key (\<lambda>s. (sy_qual s \<noteq> sq_name q, symbol_order s)) found))))"

text \<open>Reading a Go map at a key it does not have.\<close>

definition zero_symbol :: symbol where
  "zero_symbol =
     \<lparr>sy_layer = '''', sy_id = '''', sy_kind = '''', sy_name = '''', sy_qual = '''', sy_signature = '''', sy_doc = '''',
      sy_path = '''', sy_start = 0, sy_end = 0, sy_exported = False, sy_parent = ''''\<rparr>"

definition symbol_at :: "graph_data \<Rightarrow> node_ref \<Rightarrow> symbol" where
  "symbol_at d ref = (case om_get (gd_symbols d) ref of None \<Rightarrow> zero_symbol | Some s \<Rightarrow> s)"

definition package_at :: "graph_data \<Rightarrow> string \<times> string \<Rightarrow> package_node" where
  "package_at d k =
     (case om_get (gd_packages d) k of None \<Rightarrow> \<lparr>pk_layer = '''', pk_name = '''', pk_kind = ''''\<rparr> | Some p \<Rightarrow> p)"

text \<open>
  The details of the symbol chosen among the candidates. Its file is there: a candidate is
  visible only with its file.
\<close>

definition symbol_details :: "graph_data \<Rightarrow> symbol \<Rightarrow> file_rec \<Rightarrow> symbol_info" where
  "symbol_details d s r =
     \<lparr>si_symbol = s, si_lang = gf_lang (fr_file r),
      si_children = sort_key symbol_order
        (filter (\<lambda>c. sy_parent c = sy_id s) (map (\<lambda>i. symbol_at d (sy_layer s, i)) (fr_symbols r))),
      si_chunks = sort_key (\<lambda>c. (ck_start c, ck_id c)) (filter (\<lambda>c. ck_symbol c = sy_id s) (fr_chunks r))\<rparr>"

definition symbol_by_key :: "graph_data \<Rightarrow> view \<Rightarrow> symbol_key \<Rightarrow> graph_error + symbol_info" where
  "symbol_by_key d v key =
     (if \<not> view_ok v then Inl GraphInvalid
      else if sk_id key = '''' \<and> sk_qual key = '''' then Inl GraphInvalid
      else
        (let cands = visible_symbols d v (\<lambda>s r. if sk_id key \<noteq> '''' then sy_id s = sk_id key else sy_qual s = sk_qual key)
         in case sort_key (\<lambda>s. (- view_rank v (sy_layer s), symbol_order s)) cands of
              [] \<Rightarrow> Inl GraphNotFound
            | s # _ \<Rightarrow>
                (case om_get (gd_files d) (sy_layer s, sy_path s) of
                   None \<Rightarrow> Inl GraphNotFound
                 | Some r \<Rightarrow> Inr (symbol_details d s r))))"

section \<open>Neighbours\<close>

definition symbol_summary :: "symbol \<Rightarrow> node_summary" where
  "symbol_summary s =
     \<lparr>ns_label = ''Symbol'', ns_layer = sy_layer s, ns_id = sy_id s, ns_kind = sy_kind s, ns_name = sy_name s,
      ns_qual = sy_qual s, ns_path = sy_path s, ns_start = sy_start s\<rparr>"

definition file_summary :: "graph_file \<Rightarrow> node_summary" where
  "file_summary f =
     \<lparr>ns_label = ''File'', ns_layer = gf_layer f, ns_id = '''', ns_kind = '''', ns_name = gf_path f,
      ns_qual = '''', ns_path = gf_path f, ns_start = 0\<rparr>"

definition package_summary :: "package_node \<Rightarrow> node_summary" where
  "package_summary p =
     \<lparr>ns_label = ''Package'', ns_layer = pk_layer p, ns_id = '''', ns_kind = pk_kind p, ns_name = pk_name p,
      ns_qual = '''', ns_path = '''', ns_start = 0\<rparr>"

definition import_row :: "graph_data \<Rightarrow> string \<Rightarrow> file_rec \<Rightarrow> import_edge \<Rightarrow> neighbor_row" where
  "import_row d rel r im =
     \<lparr>nr_from = file_summary (fr_file r), nr_relation = rel, nr_type = ''IMPORTS'',
      nr_to = package_summary (package_at d (gf_layer (fr_file r), im_package im)), nr_path = gf_path (fr_file r),
      nr_line = 0, nr_confidence = '''', nr_alias = im_alias im, nr_depth = 1\<rparr>"

definition visible_file :: "graph_data \<Rightarrow> view \<Rightarrow> string \<Rightarrow> file_rec option" where
  "visible_file d v p =
     (case filter (\<lambda>r. file_visible v (fr_file r)) (List.map_filter (\<lambda>l. om_get (gd_files d) (l, p)) (rev v)) of
        [] \<Rightarrow> None | r # _ \<Rightarrow> Some r)"

definition highest :: "graph_data \<Rightarrow> view \<Rightarrow> string \<Rightarrow> node_ref option" where
  "highest d v i = find (\<lambda>ref. visible_symbol d v ref \<noteq> None) (map (\<lambda>l. (l, i)) (rev v))"

text \<open>The walk: its rows, the nodes and edges it has seen, and the frontier of the next hop.\<close>

record walk_state =
  wk_rows :: "neighbor_row list"
  wk_nodes :: "node_ref list"
  wk_edges :: "edge_key list"
  wk_next :: "node_ref list"

definition edge_row :: "graph_data \<Rightarrow> view \<Rightarrow> string \<Rightarrow> int \<Rightarrow> edge_key \<times> graph_edge \<Rightarrow> neighbor_row" where
  "edge_row d v rel hop ke =
     (let (k, e) = ke; (t, l, a, b) = k;
          s = (case visible_symbol d v a of None \<Rightarrow> zero_symbol | Some x \<Rightarrow> fst x);
          s' = (case visible_symbol d v b of None \<Rightarrow> zero_symbol | Some x \<Rightarrow> fst x)
      in \<lparr>nr_from = symbol_summary s, nr_relation = rel, nr_type = ge_type e, nr_to = symbol_summary s',
          nr_path = sy_path s, nr_line = ge_line e, nr_confidence = ge_confidence e, nr_alias = '''', nr_depth = hop\<rparr>)"

definition near_end :: "bool \<Rightarrow> edge_key \<Rightarrow> node_ref" where
  "near_end incoming k = (case k of (t, l, a, b) \<Rightarrow> if incoming then b else a)"

definition far_end :: "bool \<Rightarrow> edge_key \<Rightarrow> node_ref" where
  "far_end incoming k = (case k of (t, l, a, b) \<Rightarrow> if incoming then a else b)"

definition shows_edge :: "graph_data \<Rightarrow> view \<Rightarrow> edge_key \<Rightarrow> bool" where
  "shows_edge d v k =
     (case k of (t, l, a, b) \<Rightarrow> edge_visible v l (visible_symbol d v a \<noteq> None) (visible_symbol d v b \<noteq> None))"

definition walk_edge ::
    "graph_data \<Rightarrow> view \<Rightarrow> string \<Rightarrow> string list \<Rightarrow> bool \<Rightarrow> int \<Rightarrow> node_ref list \<Rightarrow> edge_key \<times> graph_edge \<Rightarrow> walk_state \<Rightarrow> walk_state" where
  "walk_edge d v rel types incoming hop frontier ke w =
     (let k = fst ke; near = near_end incoming k; far = far_end incoming k in
      if fst k \<notin> set types \<or> k \<in> set (wk_edges w) then w
      else if near \<notin> set frontier then w
      else if \<not> shows_edge d v k then w
      else
        (let w1 = w\<lparr>wk_edges := k # wk_edges w, wk_rows := wk_rows w @ [edge_row d v rel hop ke]\<rparr>
         in if far \<in> set (wk_nodes w1) then w1
            else w1\<lparr>wk_nodes := far # wk_nodes w1, wk_next := wk_next w1 @ [far]\<rparr>))"

text \<open>The hops that are left, the number of the hop and its frontier.\<close>

fun walk_hops ::
    "graph_data \<Rightarrow> view \<Rightarrow> string \<Rightarrow> string list \<Rightarrow> bool \<Rightarrow> nat \<Rightarrow> int \<Rightarrow> node_ref list \<Rightarrow> walk_state \<Rightarrow> neighbor_row list" where
  "walk_hops d v rel types incoming 0 hop frontier w = wk_rows w"
| "walk_hops d v rel types incoming (Suc n) hop frontier w =
     (if frontier = [] then wk_rows w
      else
        (let w1 = fold (walk_edge d v rel types incoming hop frontier) (gd_edges d) (w\<lparr>wk_next := []\<rparr>)
         in walk_hops d v rel types incoming n (hop + 1) (wk_next w1) w1))"

definition walk :: "graph_data \<Rightarrow> view \<Rightarrow> neighbor_query \<Rightarrow> neighbor_row list option" where
  "walk d v q =
     (case highest d v (nq_id q) of
        None \<Rightarrow> None
      | Some start \<Rightarrow>
          (let (types, incoming) = (case relation_edges (nq_relation q) of None \<Rightarrow> ([], False) | Some x \<Rightarrow> x);
               depth = (if nq_depth q = 0 then 1 else nq_depth q)
           in Some (walk_hops d v (nq_relation q) types incoming (nat depth) 1 [start]
                \<lparr>wk_rows = [], wk_nodes = [start], wk_edges = [], wk_next = []\<rparr>)))"

abbreviation node_order :: "node_summary \<Rightarrow> string \<times> int \<times> string \<times> string \<times> string" where
  "node_order n \<equiv> (ns_path n, ns_start n, ns_id n, ns_name n, ns_layer n)"

definition row_order ::
    "neighbor_row \<Rightarrow> int \<times> (string \<times> int \<times> string \<times> string \<times> string) \<times> (string \<times> int \<times> string \<times> string \<times> string) \<times> string \<times> string" where
  "row_order r = (nr_depth r, node_order (nr_from r), node_order (nr_to r), nr_type r, nr_alias r)"

definition neighbors :: "graph_data \<Rightarrow> view \<Rightarrow> neighbor_query \<Rightarrow> graph_error + neighbor_row list" where
  "neighbors d v q =
     (if \<not> view_ok v then Inl GraphInvalid
      else if \<not> neighbor_query_ok q then Inl GraphInvalid
      else
        (let rows =
           (if nq_relation q = ''imports'' then
              map_option (\<lambda>r. map (import_row d (nq_relation q) r) (fr_imports r)) (visible_file d v (nq_path q))
            else if nq_relation q = ''importers'' then
              (if list_ex (\<lambda>(k, p). snd k = nq_package q \<and> view_has v (fst k)) (gd_packages d) then
                 Some (concat (map (\<lambda>(k, r).
                   if file_visible v (fr_file r)
                   then map (import_row d (nq_relation q) r) (filter (\<lambda>im. im_package im = nq_package q) (fr_imports r))
                   else []) (gd_files d)))
               else None)
            else walk d v q)
         in case rows of
              None \<Rightarrow> Inl GraphNotFound
            | Some rs \<Rightarrow> Inr (limited (nq_limit q) (sort_key row_order rs))))"

section \<open>Outline and full-text search\<close>

definition outline_files :: "graph_data \<Rightarrow> view \<Rightarrow> outline_query \<Rightarrow> graph_error + file_outline list" where
  "outline_files d v q =
     (if \<not> view_ok v then Inl GraphInvalid
      else if \<not> outline_query_ok q then Inl GraphInvalid
      else
        (let recs = filter (\<lambda>r. file_visible v (fr_file r) \<and>
               ((oq_path q \<noteq> '''' \<and> gf_path (fr_file r) = oq_path q) \<or>
                (oq_package q \<noteq> '''' \<and> gf_package (fr_file r) = oq_package q))) (map snd (gd_files d))
         in if recs = [] then Inl GraphNotFound
            else Inr (map (\<lambda>r. \<lparr>fo_file = fr_file r,
                                 fo_symbols = outline_of (map (\<lambda>i. symbol_at d (gf_layer (fr_file r), i)) (fr_symbols r))\<rparr>)
                   (sort_key (\<lambda>r. (gf_path (fr_file r), view_rank v (gf_layer (fr_file r)))) recs))))"

definition stopwords :: "string list" where
  "stopwords =
     [''a'', ''is'', ''the'', ''an'', ''and'', ''are'', ''as'', ''at'', ''be'', ''but'', ''by'', ''for'', ''if'', ''in'',
      ''into'', ''it'', ''no'', ''not'', ''of'', ''on'', ''or'', ''such'', ''that'', ''their'', ''then'', ''there'',
      ''these'', ''they'', ''this'', ''to'', ''was'', ''will'', ''with'']"

definition token_char :: "bool \<Rightarrow> char \<Rightarrow> bool" where
  "token_char with_star c \<longleftrightarrow> is_lower_alnum c \<or> c = CHR ''_'' \<or> (with_star \<and> c = CHR ''*'')"

definition tokens :: "string \<Rightarrow> bool \<Rightarrow> string list" where
  "tokens s with_star = fields_from (token_char with_star) [] (to_lower s)"

record search_term =
  st_word :: string
  st_prefix :: bool

definition term_count :: "search_term \<Rightarrow> string list \<Rightarrow> nat" where
  "term_count t toks = length (filter (\<lambda>w. w = st_word t \<or> (st_prefix t \<and> has_prefix w (st_word t))) toks)"

definition search_terms :: "string \<Rightarrow> search_term list" where
  "search_terms query =
     List.map_filter (\<lambda>w.
       let pre = has_suffix w ''*''; x = trim_right (trim_left w ''*'') ''*'' in
       if x = '''' \<or> CHR ''*'' \<in> set x \<or> (\<not> pre \<and> x \<in> set stopwords) then None
       else Some \<lparr>st_word = x, st_prefix = pre\<rparr>) (tokens query True)"

text \<open>The score of a symbol: none when a term does not occur.\<close>

definition term_score :: "symbol \<Rightarrow> search_term \<Rightarrow> nat option" where
  "term_score s t =
     (let n = term_count t (tokens (sy_name s) False);
          sg = term_count t (tokens (sy_signature s) False);
          dc = term_count t (tokens (sy_doc s) False)
      in if n + sg + dc = 0 then None else Some (3 * n + 2 * sg + dc))"

definition text_score :: "search_term list \<Rightarrow> symbol \<Rightarrow> nat option" where
  "text_score ts s =
     (if list_ex (\<lambda>t. term_score s t = None) ts then None
      else Some (sum_list (List.map_filter (term_score s) ts)))"

definition search_text :: "graph_data \<Rightarrow> view \<Rightarrow> text_query \<Rightarrow> graph_error + (symbol \<times> nat) list" where
  "search_text d v q =
     (if \<not> view_ok v then Inl GraphInvalid
      else if trim_space (tq_query q) = '''' then Inl GraphInvalid
      else
        (let ts = search_terms (tq_query q) in
         if ts = [] then Inr []
         else
           (let syms = visible_symbols d v (\<lambda>s r.
                  filter_match (tq_filter q) (sy_kind s) (gf_lang (fr_file r)) (sy_path s) \<and> text_score ts s \<noteq> None);
                hits = map (\<lambda>s. (s, case text_score ts s of None \<Rightarrow> 0 | Some n \<Rightarrow> n)) syms
            in Inr (limited (tq_limit q) (sort_key (\<lambda>(s, n). (- int n, symbol_order s)) hits)))))"

section \<open>Facts: what each write leaves alone\<close>

lemma delete_symbol_fields [simp]:
  "gd_layers (delete_symbol r d) = gd_layers d" "gd_files (delete_symbol r d) = gd_files d"
  "gd_chunk_owner (delete_symbol r d) = gd_chunk_owner d" "gd_packages (delete_symbol r d) = gd_packages d"
  "gd_symbols (delete_symbol r d) = om_del r (gd_symbols d)"
  "gd_edges (delete_symbol r d) = filter (\<lambda>(k, e). \<not> touches r k) (gd_edges d)"
  by (simp_all add: delete_symbol_def)

lemma delete_chunk_owner_fields [simp]:
  "gd_layers (delete_chunk_owner l c d) = gd_layers d" "gd_files (delete_chunk_owner l c d) = gd_files d"
  "gd_symbols (delete_chunk_owner l c d) = gd_symbols d" "gd_packages (delete_chunk_owner l c d) = gd_packages d"
  "gd_edges (delete_chunk_owner l c d) = gd_edges d"
  "gd_chunk_owner (delete_chunk_owner l c d) = om_del (l, ck_id c) (gd_chunk_owner d)"
  by (simp_all add: delete_chunk_owner_def)

lemma put_symbol_fields [simp]:
  "gd_layers (put_symbol l s d) = gd_layers d" "gd_files (put_symbol l s d) = gd_files d"
  "gd_chunk_owner (put_symbol l s d) = gd_chunk_owner d" "gd_packages (put_symbol l s d) = gd_packages d"
  "gd_edges (put_symbol l s d) = gd_edges d" "gd_symbols (put_symbol l s d) = om_put (l, sy_id s) s (gd_symbols d)"
  by (simp_all add: put_symbol_def)

lemma put_chunk_owner_fields [simp]:
  "gd_layers (put_chunk_owner l p c d) = gd_layers d" "gd_files (put_chunk_owner l p c d) = gd_files d"
  "gd_symbols (put_chunk_owner l p c d) = gd_symbols d" "gd_packages (put_chunk_owner l p c d) = gd_packages d"
  "gd_edges (put_chunk_owner l p c d) = gd_edges d"
  "gd_chunk_owner (put_chunk_owner l p c d) = om_put (l, ck_id c) p (gd_chunk_owner d)"
  by (simp_all add: put_chunk_owner_def)

lemma ensure_package_fields [simp]:
  "gd_layers (ensure_package l n k d) = gd_layers d" "gd_files (ensure_package l n k d) = gd_files d"
  "gd_symbols (ensure_package l n k d) = gd_symbols d" "gd_chunk_owner (ensure_package l n k d) = gd_chunk_owner d"
  "gd_edges (ensure_package l n k d) = gd_edges d"
  by (simp_all add: ensure_package_def)

lemma ensure_package_get:
  "om_get (gd_packages (ensure_package l n k d)) j \<noteq> None \<longleftrightarrow> j = (l, n) \<or> om_get (gd_packages d) j \<noteq> None"
  by (auto simp: ensure_package_def)

text \<open>Repeating a write that touches one part leaves the other parts alone.\<close>

lemma fold_field: "(\<And>x d. F (g x d) = F d) \<Longrightarrow> F (fold g xs d) = F d"
  by (induction xs arbitrary: d) auto

lemma fold_part: "(\<And>x d. F (g x d) = h x (F d)) \<Longrightarrow> F (fold g xs d) = fold h xs (F d)"
  by (induction xs arbitrary: d) auto

lemma fold_put_symbols [simp]:
  "gd_layers (fold (put_symbol l) ss d) = gd_layers d" "gd_files (fold (put_symbol l) ss d) = gd_files d"
  "gd_chunk_owner (fold (put_symbol l) ss d) = gd_chunk_owner d" "gd_packages (fold (put_symbol l) ss d) = gd_packages d"
  "gd_edges (fold (put_symbol l) ss d) = gd_edges d"
  "gd_symbols (fold (put_symbol l) ss d) = fold (\<lambda>s. om_put (l, sy_id s) s) ss (gd_symbols d)"
  by (simp_all add: fold_field fold_part [where F = gd_symbols])

lemma fold_put_chunk_owners [simp]:
  "gd_layers (fold (put_chunk_owner l p) cs d) = gd_layers d" "gd_files (fold (put_chunk_owner l p) cs d) = gd_files d"
  "gd_symbols (fold (put_chunk_owner l p) cs d) = gd_symbols d" "gd_packages (fold (put_chunk_owner l p) cs d) = gd_packages d"
  "gd_edges (fold (put_chunk_owner l p) cs d) = gd_edges d"
  "gd_chunk_owner (fold (put_chunk_owner l p) cs d) = fold (\<lambda>c. om_put (l, ck_id c) p) cs (gd_chunk_owner d)"
  by (simp_all add: fold_field fold_part [where F = gd_chunk_owner])

lemma fold_delete_chunk_owners [simp]:
  "gd_layers (fold (delete_chunk_owner l) cs d) = gd_layers d" "gd_files (fold (delete_chunk_owner l) cs d) = gd_files d"
  "gd_symbols (fold (delete_chunk_owner l) cs d) = gd_symbols d" "gd_packages (fold (delete_chunk_owner l) cs d) = gd_packages d"
  "gd_edges (fold (delete_chunk_owner l) cs d) = gd_edges d"
  "gd_chunk_owner (fold (delete_chunk_owner l) cs d) = fold (\<lambda>c. om_del (l, ck_id c)) cs (gd_chunk_owner d)"
  by (simp_all add: fold_field fold_part [where F = gd_chunk_owner])

lemma fold_ensure_imports [simp]:
  "gd_layers (fold (\<lambda>im. ensure_package l (im_package im) (im_kind im)) is d) = gd_layers d"
  "gd_files (fold (\<lambda>im. ensure_package l (im_package im) (im_kind im)) is d) = gd_files d"
  "gd_symbols (fold (\<lambda>im. ensure_package l (im_package im) (im_kind im)) is d) = gd_symbols d"
  "gd_chunk_owner (fold (\<lambda>im. ensure_package l (im_package im) (im_kind im)) is d) = gd_chunk_owner d"
  "gd_edges (fold (\<lambda>im. ensure_package l (im_package im) (im_kind im)) is d) = gd_edges d"
  by (simp_all add: fold_field)

lemma fold_ensure_get:
  "om_get (gd_packages (fold (\<lambda>im. ensure_package l (im_package im) (im_kind im)) is d)) j \<noteq> None \<longleftrightarrow>
     j \<in> (\<lambda>im. (l, im_package im)) ` set is \<or> om_get (gd_packages d) j \<noteq> None"
proof (induction "is" arbitrary: d)
  case (Cons im ims)
  then show ?case using ensure_package_get [of l "im_package im" "im_kind im" d j] by auto
qed simp

text \<open>The deletion of the symbols of a list, kept ones excepted.\<close>

definition delete_symbols :: "string \<Rightarrow> string list \<Rightarrow> string list \<Rightarrow> graph_data \<Rightarrow> graph_data" where
  "delete_symbols l keep is d = fold (\<lambda>i d. if i \<in> set keep then d else delete_symbol (l, i) d) is d"

lemma delete_symbols_fields [simp]:
  "gd_layers (delete_symbols l keep is d) = gd_layers d" "gd_files (delete_symbols l keep is d) = gd_files d"
  "gd_chunk_owner (delete_symbols l keep is d) = gd_chunk_owner d"
  "gd_packages (delete_symbols l keep is d) = gd_packages d"
  unfolding delete_symbols_def by (rule fold_field, simp)+

lemma delete_symbols_get:
  "om_get (gd_symbols (delete_symbols l keep is d)) r =
     (if fst r = l \<and> snd r \<in> set is - set keep then None else om_get (gd_symbols d) r)"
  unfolding delete_symbols_def by (induction "is" arbitrary: d) auto

lemma delete_symbols_edges:
  "om_get (gd_edges (delete_symbols l keep is d)) k =
     (if \<exists>i \<in> set is - set keep. touches (l, i) k then None else om_get (gd_edges d) k)"
  unfolding delete_symbols_def by (induction "is" arbitrary: d) (auto simp: om_filter_get)

lemma delete_symbols_wf:
  "omap_wf (gd_edges d) \<Longrightarrow> omap_wf (gd_edges (delete_symbols l keep is d))"
  "omap_wf (gd_symbols d) \<Longrightarrow> omap_wf (gd_symbols (delete_symbols l keep is d))"
  unfolding delete_symbols_def by (induction "is" arbitrary: d) (auto simp: om_filter_wf om_del_wf)

section \<open>Runs and their invariant\<close>

inductive graph_step :: "graph_data \<Rightarrow> graph_data \<Rightarrow> bool" where
  put_layer: "graph_step d (fst (put_layer l d))"
| apply_file: "graph_step d (fst (apply_file ff d))"
| remove_file: "graph_step d (fst (graph_remove_file l p d))"
| set_hidden: "graph_step d (fst (set_hidden l p hs d))"
| put_edges: "graph_step d (fst (put_edges l src es d))"
| drop_layer: "graph_step d (fst (drop_layer l d))"
| drop_graph: "graph_step d (drop_graph d)"

inductive graph_reachable :: "graph_data \<Rightarrow> bool" where
  new: "graph_reachable new_graph"
| step: "\<lbrakk>graph_reachable d; graph_step d d'\<rbrakk> \<Longrightarrow> graph_reachable d'"

text \<open>What holds of a file, a symbol, the owner of a chunk and an edge.\<close>

definition file_inv :: "graph_data \<Rightarrow> string \<times> string \<Rightarrow> file_rec \<Rightarrow> bool" where
  "file_inv d k r \<longleftrightarrow>
     gf_layer (fr_file r) = fst k \<and> gf_path (fr_file r) = snd k \<and> om_get (gd_layers d) (fst k) \<noteq> None \<and>
     distinct (fr_symbols r) \<and>
     (\<forall>i \<in> set (fr_symbols r). \<exists>s. om_get (gd_symbols d) (fst k, i) = Some s \<and> sy_path s = snd k) \<and>
     (\<forall>c \<in> set (fr_chunks r). om_get (gd_chunk_owner d) (fst k, ck_id c) = Some (snd k)) \<and>
     (\<forall>im \<in> set (fr_imports r). om_get (gd_packages d) (fst k, im_package im) \<noteq> None)"

definition symbol_inv :: "graph_data \<Rightarrow> node_ref \<Rightarrow> symbol \<Rightarrow> bool" where
  "symbol_inv d k s \<longleftrightarrow>
     sy_layer s = fst k \<and> sy_id s = snd k \<and>
     (\<exists>r. om_get (gd_files d) (fst k, sy_path s) = Some r \<and> snd k \<in> set (fr_symbols r))"

definition chunk_inv :: "graph_data \<Rightarrow> node_ref \<Rightarrow> string \<Rightarrow> bool" where
  "chunk_inv d k p \<longleftrightarrow> (\<exists>r. om_get (gd_files d) (fst k, p) = Some r \<and> snd k \<in> ck_id ` set (fr_chunks r))"

definition edge_inv :: "graph_data \<Rightarrow> edge_key \<Rightarrow> graph_edge \<Rightarrow> bool" where
  "edge_inv d k e \<longleftrightarrow>
     edge_key_of e = k \<and> resolved (ge_type e) \<and> om_get (gd_layers d) (ge_layer e) \<noteq> None \<and>
     om_get (gd_symbols d) (ge_from e) \<noteq> None \<and> om_get (gd_symbols d) (ge_to e) \<noteq> None"

definition graph_inv :: "graph_data \<Rightarrow> bool" where
  "graph_inv d \<longleftrightarrow>
     (\<forall>k r. om_get (gd_files d) k = Some r \<longrightarrow> file_inv d k r) \<and>
     (\<forall>k s. om_get (gd_symbols d) k = Some s \<longrightarrow> symbol_inv d k s) \<and>
     (\<forall>k p. om_get (gd_chunk_owner d) k = Some p \<longrightarrow> chunk_inv d k p) \<and>
     (\<forall>k e. om_get (gd_edges d) k = Some e \<longrightarrow> edge_inv d k e) \<and>
     omap_wf (gd_symbols d) \<and> omap_wf (gd_edges d)"

lemma graph_invD:
  assumes "graph_inv d"
  shows "om_get (gd_files d) k = Some r \<Longrightarrow> file_inv d k r"
    "om_get (gd_symbols d) j = Some s \<Longrightarrow> symbol_inv d j s"
    "om_get (gd_chunk_owner d) j = Some p \<Longrightarrow> chunk_inv d j p"
    "om_get (gd_edges d) ek = Some e \<Longrightarrow> edge_inv d ek e"
    "omap_wf (gd_symbols d)" "omap_wf (gd_edges d)"
  using assms unfolding graph_inv_def by blast+

lemma graph_invI:
  assumes "\<And>k r. om_get (gd_files d) k = Some r \<Longrightarrow> file_inv d k r"
    "\<And>k s. om_get (gd_symbols d) k = Some s \<Longrightarrow> symbol_inv d k s"
    "\<And>k p. om_get (gd_chunk_owner d) k = Some p \<Longrightarrow> chunk_inv d k p"
    "\<And>k e. om_get (gd_edges d) k = Some e \<Longrightarrow> edge_inv d k e"
    "omap_wf (gd_symbols d)" "omap_wf (gd_edges d)"
  shows "graph_inv d"
  using assms unfolding graph_inv_def by blast

lemma graph_inv_new: "graph_inv new_graph"
  by (rule graph_invI) (simp_all add: new_graph_def)

lemma graph_inv_put_layer:
  assumes i: "graph_inv d"
  shows "graph_inv (fst (put_layer l d))"
proof (cases "layer_ok l")
  case True
  let ?d = "d\<lparr>gd_layers := om_put (ly_id l) l (gd_layers d)\<rparr>"
  have "graph_inv ?d"
  proof (rule graph_invI)
    show "file_inv ?d k r" if "om_get (gd_files ?d) k = Some r" for k r
      using graph_invD(1) [OF i] that by (simp add: file_inv_def)
    show "symbol_inv ?d k s" if "om_get (gd_symbols ?d) k = Some s" for k s
      using graph_invD(2) [OF i] that by (simp add: symbol_inv_def)
    show "chunk_inv ?d k p" if "om_get (gd_chunk_owner ?d) k = Some p" for k p
      using graph_invD(3) [OF i] that by (simp add: chunk_inv_def)
    show "edge_inv ?d k e" if "om_get (gd_edges ?d) k = Some e" for k e
      using graph_invD(4) [OF i] that by (simp add: edge_inv_def)
  qed (simp_all add: graph_invD(5,6) [OF i])
  then show ?thesis using True by (simp add: put_layer_def)
qed (simp add: put_layer_def i)

text \<open>A record that changes only what hides the file.\<close>

definition same_facts :: "file_rec \<Rightarrow> file_rec \<Rightarrow> bool" where
  "same_facts r r' \<longleftrightarrow>
     gf_layer (fr_file r') = gf_layer (fr_file r) \<and> gf_path (fr_file r') = gf_path (fr_file r) \<and>
     fr_symbols r' = fr_symbols r \<and> fr_chunks r' = fr_chunks r \<and> fr_imports r' = fr_imports r"

lemma same_facts_file_inv: "same_facts r r' \<Longrightarrow> file_inv d k r \<Longrightarrow> file_inv d k r'"
  by (simp add: same_facts_def file_inv_def)

lemma same_facts_hidden [simp]: "same_facts r (r\<lparr>fr_file := (fr_file r)\<lparr>gf_hidden := h\<rparr>\<rparr>)"
  by (simp add: same_facts_def)

lemma forget_layer_same [simp]: "same_facts r (forget_layer l r)"
  by (simp add: forget_layer_def Let_def same_facts_def)

lemma graph_inv_set_hidden:
  assumes i: "graph_inv d"
  shows "graph_inv (fst (set_hidden l p hs d))"
proof (cases "om_get (gd_files d) (l, p)")
  case (Some r0)
  define r1 where "r1 = r0\<lparr>fr_file := (fr_file r0)\<lparr>gf_hidden := clone_hidden (Some hs)\<rparr>\<rparr>"
  have same: "same_facts r0 r1" by (simp add: r1_def)
  let ?d = "d\<lparr>gd_files := om_put (l, p) r1 (gd_files d)\<rparr>"
  have fileq: "\<exists>r'. om_get (gd_files ?d) k = Some r' \<and> same_facts r r'" if "om_get (gd_files d) k = Some r" for k r
    using that Some same by (auto simp: same_facts_def)
  have "graph_inv ?d"
  proof (rule graph_invI)
    show "file_inv ?d k r" if "om_get (gd_files ?d) k = Some r" for k r
    proof -
      have "file_inv d k r"
      proof (cases "k = (l, p)")
        case True
        then have "r = r1" using that by simp
        then show ?thesis using same_facts_file_inv [OF same graph_invD(1) [OF i Some]] True by simp
      next
        case False
        then show ?thesis using graph_invD(1) [OF i] that by simp
      qed
      then show ?thesis by (simp add: file_inv_def)
    qed
    show "symbol_inv ?d k s" if "om_get (gd_symbols ?d) k = Some s" for k s
      using graph_invD(2) [OF i, of k s] that fileq unfolding symbol_inv_def same_facts_def by fastforce
    show "chunk_inv ?d k q" if "om_get (gd_chunk_owner ?d) k = Some q" for k q
      using graph_invD(3) [OF i, of k q] that fileq unfolding chunk_inv_def same_facts_def by fastforce
    show "edge_inv ?d k e" if "om_get (gd_edges ?d) k = Some e" for k e
      using graph_invD(4) [OF i] that by (simp add: edge_inv_def)
  qed (simp_all add: graph_invD(5,6) [OF i])
  then show ?thesis using Some i by (simp add: set_hidden_def r1_def)
qed (simp add: set_hidden_def i)

lemma fold_upsert_in:
  "k \<in> f ` set xs \<Longrightarrow> \<exists>x \<in> set xs. f x = k \<and> om_get (fold (\<lambda>x m. om_put (f x) x m) xs m) k = Some x"
proof (induction xs arbitrary: m)
  case (Cons x xs)
  show ?case
  proof (cases "k \<in> f ` set xs")
    case True
    then show ?thesis using Cons.IH by (auto simp del: om_get_put)
  next
    case False
    then show ?thesis using Cons.prems fold_om_put_notin [of k f xs "\<lambda>x. x"] by simp
  qed
qed simp

lemma graph_inv_put_edges:
  assumes i: "graph_inv d"
  shows "graph_inv (fst (put_edges l src es d))"
proof (cases "edges_ok l src es \<and> om_get (gd_layers d) l \<noteq> None \<and>
    \<not> list_ex (\<lambda>e. om_get (gd_symbols d) (ge_from e) = None \<or> om_get (gd_symbols d) (ge_to e) = None) es")
  case True
  define kept where "kept = filter (\<lambda>(k, e). \<not> sourced l src k) (gd_edges d)"
  let ?d = "d\<lparr>gd_edges := fold (\<lambda>e m. om_put (edge_key_of e) e m) es kept\<rparr>"
  have new: "edge_inv d (edge_key_of e) e" if "e \<in> set es" for e
    using True that unfolding edge_inv_def edges_ok_def edge_ok_def list_all_iff list_ex_iff by auto
  have "graph_inv ?d"
  proof (rule graph_invI)
    show "edge_inv ?d k e" if g: "om_get (gd_edges ?d) k = Some e" for k e
    proof -
      have "edge_inv d k e"
      proof (cases "\<exists>x \<in> set es. edge_key_of x = k \<and> om_get (fold (\<lambda>e m. om_put (edge_key_of e) e m) es kept) k = Some x")
        case True
        then show ?thesis using g new by auto
      next
        case False
        then have "k \<notin> edge_key_of ` set es"
          using fold_upsert_in [of k edge_key_of es kept] by blast
        then have "om_get kept k = Some e" using g fold_om_put_notin [of k edge_key_of es "\<lambda>e. e" kept] by simp
        then show ?thesis using graph_invD(4) [OF i] by (simp add: kept_def om_filter_get split: if_splits)
      qed
      then show ?thesis by (simp add: edge_inv_def)
    qed
    show "omap_wf (gd_edges ?d)"
      using fold_om_put_wf [of kept edge_key_of "\<lambda>e. e" es] by (simp add: kept_def om_filter_wf graph_invD(6) [OF i])
    show "file_inv ?d k r" if "om_get (gd_files ?d) k = Some r" for k r
      using graph_invD(1) [OF i] that by (simp add: file_inv_def)
    show "symbol_inv ?d k s" if "om_get (gd_symbols ?d) k = Some s" for k s
      using graph_invD(2) [OF i] that by (simp add: symbol_inv_def)
    show "chunk_inv ?d k p" if "om_get (gd_chunk_owner ?d) k = Some p" for k p
      using graph_invD(3) [OF i] that by (simp add: chunk_inv_def)
  qed (simp add: graph_invD(5) [OF i])
  then show ?thesis using True by (auto simp: put_edges_def kept_def Let_def)
qed (auto simp: put_edges_def i)

lemma remove_file_eq:
  "graph_remove_file l p d =
     (if \<not> graph_file_ok l p then (d, Some GraphInvalid)
      else
        (case om_get (gd_files d) (l, p) of
           None \<Rightarrow> (d, None)
         | Some r \<Rightarrow>
             (let d2 = fold (delete_chunk_owner l) (fr_chunks r) (delete_symbols l [] (fr_symbols r) d)
              in (d2\<lparr>gd_files := om_del (l, p) (gd_files d2)\<rparr>, None))))"
  unfolding graph_remove_file_def delete_symbols_def Let_def by (simp split: option.split)

text \<open>A symbol of a layer belongs to the file that lists it.\<close>

lemma symbol_owner:
  assumes "graph_inv d" "om_get (gd_symbols d) (l, i) = Some s" "om_get (gd_files d) (l, p) = Some r" "i \<in> set (fr_symbols r)"
  shows "sy_path s = p"
proof -
  have "file_inv d (l, p) r" using graph_invD(1) assms(1,3) by blast
  then show ?thesis using assms(2,4) unfolding file_inv_def by auto
qed

lemma chunk_owner:
  assumes "graph_inv d" "om_get (gd_chunk_owner d) (l, i) = Some q" "om_get (gd_files d) (l, p) = Some r"
    "i \<in> ck_id ` set (fr_chunks r)"
  shows "q = p"
proof -
  have "file_inv d (l, p) r" using graph_invD(1) assms(1,3) by blast
  then show ?thesis using assms(2,4) unfolding file_inv_def by auto
qed

lemma graph_inv_remove_file:
  assumes i: "graph_inv d"
  shows "graph_inv (fst (graph_remove_file l p d))"
proof (cases "om_get (gd_files d) (l, p)")
  case (Some r0)
  define d2 where "d2 = fold (delete_chunk_owner l) (fr_chunks r0) (delete_symbols l [] (fr_symbols r0) d)"
  define d3 where "d3 = d2\<lparr>gd_files := om_del (l, p) (gd_files d2)\<rparr>"
  have files: "om_get (gd_files d3) k = (if k = (l, p) then None else om_get (gd_files d) k)" for k
    by (simp add: d3_def d2_def)
  have syms: "om_get (gd_symbols d3) k = (if fst k = l \<and> snd k \<in> set (fr_symbols r0) then None else om_get (gd_symbols d) k)" for k
    by (simp add: d3_def d2_def delete_symbols_get)
  have chunks: "om_get (gd_chunk_owner d3) k =
      (if k \<in> (\<lambda>c. (l, ck_id c)) ` set (fr_chunks r0) then None else om_get (gd_chunk_owner d) k)" for k
    by (simp add: d3_def d2_def fold_om_del_by_get)
  have edges: "om_get (gd_edges d3) k =
      (if \<exists>i \<in> set (fr_symbols r0). touches (l, i) k then None else om_get (gd_edges d) k)" for k
    by (simp add: d3_def d2_def delete_symbols_edges)
  have rest: "gd_layers d3 = gd_layers d" "gd_packages d3 = gd_packages d"
    by (simp_all add: d3_def d2_def)
  have "graph_inv d3"
  proof (rule graph_invI)
    show "file_inv d3 k r" if g: "om_get (gd_files d3) k = Some r" for k r
    proof -
      have k: "om_get (gd_files d) k = Some r" "k \<noteq> (l, p)" using g by (auto simp: files split: if_splits)
      have fi: "file_inv d k r" by (rule graph_invD(1) [OF i k(1)])
      have s: "\<exists>s. om_get (gd_symbols d3) (fst k, j) = Some s \<and> sy_path s = snd k" if j: "j \<in> set (fr_symbols r)" for j
      proof -
        obtain s where s: "om_get (gd_symbols d) (fst k, j) = Some s" "sy_path s = snd k"
          using fi j unfolding file_inv_def by blast
        have "\<not> (fst k = l \<and> j \<in> set (fr_symbols r0))"
          using symbol_owner [OF i _ Some, of j s] s k(2) by (cases k) auto
        then show ?thesis using s by (simp add: syms)
      qed
      have c: "om_get (gd_chunk_owner d3) (fst k, ck_id c) = Some (snd k)" if c: "c \<in> set (fr_chunks r)" for c
      proof -
        have o: "om_get (gd_chunk_owner d) (fst k, ck_id c) = Some (snd k)" using fi c unfolding file_inv_def by blast
        have "\<not> (fst k = l \<and> ck_id c \<in> ck_id ` set (fr_chunks r0))"
          using chunk_owner [OF i _ Some, of "ck_id c" "snd k"] o k(2) by (cases k) auto
        then show ?thesis using o by (auto simp: chunks)
      qed
      show ?thesis using fi s c unfolding file_inv_def rest by blast
    qed
    show "symbol_inv d3 k s" if g: "om_get (gd_symbols d3) k = Some s" for k s
    proof -
      have k: "om_get (gd_symbols d) k = Some s" "\<not> (fst k = l \<and> snd k \<in> set (fr_symbols r0))"
        using g by (auto simp: syms split: if_splits)
      have si: "symbol_inv d k s" by (rule graph_invD(2) [OF i k(1)])
      then have "(fst k, sy_path s) \<noteq> (l, p)" using k(2) Some unfolding symbol_inv_def by auto
      then show ?thesis using si unfolding symbol_inv_def files by auto
    qed
    show "chunk_inv d3 k q" if g: "om_get (gd_chunk_owner d3) k = Some q" for k q
    proof -
      have k: "om_get (gd_chunk_owner d) k = Some q" "k \<notin> (\<lambda>c. (l, ck_id c)) ` set (fr_chunks r0)"
        using g by (auto simp: chunks split: if_splits)
      have ci: "chunk_inv d k q" by (rule graph_invD(3) [OF i k(1)])
      have "(fst k, q) \<noteq> (l, p)"
      proof
        assume "(fst k, q) = (l, p)"
        then show False using ci k(2) Some unfolding chunk_inv_def by (cases k) auto
      qed
      then show ?thesis using ci unfolding chunk_inv_def files by auto
    qed
    show "edge_inv d3 k e" if g: "om_get (gd_edges d3) k = Some e" for k e
    proof -
      have k: "om_get (gd_edges d) k = Some e" "\<And>j. j \<in> set (fr_symbols r0) \<Longrightarrow> \<not> touches (l, j) k"
        using g by (auto simp: edges split: if_splits)
      have ei: "edge_inv d k e" by (rule graph_invD(4) [OF i k(1)])
      have "\<not> (fst x = l \<and> snd x \<in> set (fr_symbols r0))" if "x = ge_from e \<or> x = ge_to e" for x
        using that ei k(2) [of "snd x"] by (auto simp: edge_inv_def edge_key_of_def touches_def)
      then show ?thesis using ei by (simp add: edge_inv_def rest syms)
    qed
    show "omap_wf (gd_symbols d3)" "omap_wf (gd_edges d3)"
      using graph_invD(5,6) [OF i] by (simp_all add: d3_def d2_def delete_symbols_wf)
  qed
  then show ?thesis using Some i by (simp add: remove_file_eq d3_def d2_def Let_def)
qed (simp add: graph_remove_file_def i)

lemma drop_layer_eq: "layer_id_ok l \<Longrightarrow> fst (drop_layer l d) =
    \<lparr>gd_layers = om_del l (gd_layers d),
      gd_files = om_map (forget_layer l) (filter (\<lambda>(k, r). fst k \<noteq> l) (gd_files d)),
      gd_symbols = filter (\<lambda>(k, s). fst k \<noteq> l) (gd_symbols d),
      gd_chunk_owner = filter (\<lambda>(k, p). fst k \<noteq> l) (gd_chunk_owner d),
      gd_packages = filter (\<lambda>(k, p). fst k \<noteq> l) (gd_packages d),
      gd_edges = filter (\<lambda>(k, e). \<not> in_layer l k) (gd_edges d)\<rparr>"
  by (simp add: drop_layer_def)

lemma graph_inv_drop_layer:
  assumes i: "graph_inv d"
  shows "graph_inv (fst (drop_layer l d))"
proof (cases "layer_id_ok l")
  case True
  define d' where "d' = fst (drop_layer l d)"
  have files: "om_get (gd_files d') k = (if fst k = l then None else map_option (forget_layer l) (om_get (gd_files d) k))" for k
    by (simp add: d'_def drop_layer_eq [OF True] om_filter_get)
  have gets: "om_get (gd_symbols d') k = (if fst k = l then None else om_get (gd_symbols d) k)"
      "om_get (gd_chunk_owner d') k = (if fst k = l then None else om_get (gd_chunk_owner d) k)"
      "om_get (gd_packages d') k = (if fst k = l then None else om_get (gd_packages d) k)"
      "om_get (gd_edges d') ek = (if in_layer l ek then None else om_get (gd_edges d) ek)"
      "om_get (gd_layers d') j = (if j = l then None else om_get (gd_layers d) j)" for k ek j
    by (simp_all add: d'_def drop_layer_eq [OF True] om_filter_get)
  have "graph_inv d'"
  proof (rule graph_invI)
    show "file_inv d' k r" if g: "om_get (gd_files d') k = Some r" for k r
    proof -
      obtain r0 where k: "om_get (gd_files d) k = Some r0" "fst k \<noteq> l" "r = forget_layer l r0"
        using g by (auto simp: files split: if_splits)
      have "file_inv d k r" unfolding k(3) by (rule same_facts_file_inv [OF forget_layer_same graph_invD(1) [OF i k(1)]])
      then show ?thesis using k(2) by (simp add: file_inv_def gets)
    qed
    show "symbol_inv d' k s" if g: "om_get (gd_symbols d') k = Some s" for k s
    proof -
      have k: "om_get (gd_symbols d) k = Some s" "fst k \<noteq> l" using g by (auto simp: gets split: if_splits)
      have "symbol_inv d k s" by (rule graph_invD(2) [OF i k(1)])
      then show ?thesis using k(2) forget_layer_same [of _ l] by (auto simp: symbol_inv_def files same_facts_def)
    qed
    show "chunk_inv d' k q" if g: "om_get (gd_chunk_owner d') k = Some q" for k q
    proof -
      have k: "om_get (gd_chunk_owner d) k = Some q" "fst k \<noteq> l" using g by (auto simp: gets split: if_splits)
      have "chunk_inv d k q" by (rule graph_invD(3) [OF i k(1)])
      then show ?thesis using k(2) forget_layer_same [of _ l] by (auto simp: chunk_inv_def files same_facts_def)
    qed
    show "edge_inv d' k e" if g: "om_get (gd_edges d') k = Some e" for k e
    proof -
      have k: "om_get (gd_edges d) k = Some e" "\<not> in_layer l k" using g by (auto simp: gets split: if_splits)
      have "edge_inv d k e" by (rule graph_invD(4) [OF i k(1)])
      then show ?thesis using k(2) by (auto simp: edge_inv_def gets edge_key_of_def in_layer_def)
    qed
    show "omap_wf (gd_symbols d')" "omap_wf (gd_edges d')"
      using graph_invD(5,6) [OF i] by (simp_all add: d'_def drop_layer_eq [OF True] om_filter_wf)
  qed
  then show ?thesis by (simp add: d'_def)
qed (simp add: drop_layer_def i)

text \<open>An accepted write of a file, part by part.\<close>

definition applied_file :: "file_facts \<Rightarrow> graph_data \<Rightarrow> graph_data" where
  "applied_file ff d = fst (apply_file ff d)"

lemma apply_file_refused: "snd (apply_file ff d) \<noteq> None \<Longrightarrow> fst (apply_file ff d) = d"
  by (simp add: apply_file_def Let_def split: if_splits)

lemma clear_old_eq:
  "clear_old l keep old d =
     fold (delete_chunk_owner l) (case old of None \<Rightarrow> [] | Some r \<Rightarrow> fr_chunks r)
       (delete_symbols l keep (case old of None \<Rightarrow> [] | Some r \<Rightarrow> fr_symbols r) d)"
  by (cases old) (simp_all add: clear_old_def delete_symbols_def)

lemma apply_file_ok:
  "snd (apply_file ff d) = None \<longleftrightarrow>
     facts_ok ff \<and> om_get (gd_layers d) (gf_layer (ff_file ff)) \<noteq> None \<and> \<not> taken_elsewhere ff d"
  by (simp add: apply_file_def Let_def)

lemma applied_parts:
  assumes ok: "snd (apply_file ff d) = None"
  defines "l \<equiv> gf_layer (ff_file ff)" and "p \<equiv> gf_path (ff_file ff)"
  defines "old \<equiv> om_get (gd_files d) (l, p)" and "ids \<equiv> map sy_id (ff_symbols ff)"
  defines "gone \<equiv> (case old of None \<Rightarrow> {} | Some r \<Rightarrow> set (fr_symbols r)) - set ids"
  shows "gd_layers (applied_file ff d) = gd_layers d"
    "om_get (gd_files (applied_file ff d)) k =
       (if k = (l, p)
        then Some \<lparr>fr_file = (ff_file ff)\<lparr>gf_hidden := clone_hidden (case gf_hidden (ff_file ff) of Some h \<Rightarrow> Some h
                      | None \<Rightarrow> (case old of None \<Rightarrow> None | Some r \<Rightarrow> gf_hidden (fr_file r)))\<rparr>,
                    fr_symbols = ids, fr_chunks = ff_chunks ff, fr_imports = ff_imports ff\<rparr>
        else om_get (gd_files d) k)"
    "gd_symbols (applied_file ff d) =
       fold (\<lambda>s. om_put (l, sy_id s) s) (ff_symbols ff)
         (gd_symbols (delete_symbols l ids (case old of None \<Rightarrow> [] | Some r \<Rightarrow> fr_symbols r) d))"
    "gd_chunk_owner (applied_file ff d) =
       fold (\<lambda>c. om_put (l, ck_id c) p) (ff_chunks ff)
         (fold (\<lambda>c. om_del (l, ck_id c)) (case old of None \<Rightarrow> [] | Some r \<Rightarrow> fr_chunks r) (gd_chunk_owner d))"
    "om_get (gd_packages (applied_file ff d)) k \<noteq> None \<longleftrightarrow>
       k \<in> (\<lambda>im. (l, im_package im)) ` set (ff_imports ff) \<or>
       (gf_package (ff_file ff) \<noteq> '''' \<and> k = (l, gf_package (ff_file ff))) \<or> om_get (gd_packages d) k \<noteq> None"
    "gd_edges (applied_file ff d) = gd_edges (delete_symbols l ids (case old of None \<Rightarrow> [] | Some r \<Rightarrow> fr_symbols r) d)"
proof -
  define d1 where "d1 = clear_old l ids old d"
  define d2 where "d2 = fold (put_symbol l) (ff_symbols ff) d1"
  define d3 where "d3 = fold (put_chunk_owner l p) (ff_chunks ff) d2"
  define d4 where "d4 = (if gf_package (ff_file ff) \<noteq> '''' then ensure_package l (gf_package (ff_file ff)) (ff_package_kind ff) d3 else d3)"
  define d5 where "d5 = fold (\<lambda>im. ensure_package l (im_package im) (im_kind im)) (ff_imports ff) d4"
  define r where "r = \<lparr>fr_file = (ff_file ff)\<lparr>gf_hidden := clone_hidden (case gf_hidden (ff_file ff) of Some h \<Rightarrow> Some h
                      | None \<Rightarrow> (case old of None \<Rightarrow> None | Some r \<Rightarrow> gf_hidden (fr_file r)))\<rparr>,
                    fr_symbols = ids, fr_chunks = ff_chunks ff, fr_imports = ff_imports ff\<rparr>"
  have c: "(\<not> facts_ok ff) = False" "(om_get (gd_layers d) (gf_layer (ff_file ff)) = None) = False"
      "taken_elsewhere ff d = False"
    using ok unfolding apply_file_ok by simp_all
  have a: "applied_file ff d = d5\<lparr>gd_files := om_put (l, p) r (gd_files d5)\<rparr>"
    unfolding applied_file_def apply_file_def Let_def c if_False fst_conv
      d5_def d4_def d3_def d2_def d1_def r_def old_def ids_def l_def p_def by (rule refl)
  have d1: "gd_layers d1 = gd_layers d" "gd_files d1 = gd_files d" "gd_packages d1 = gd_packages d"
      "gd_symbols d1 = gd_symbols (delete_symbols l ids (case old of None \<Rightarrow> [] | Some r \<Rightarrow> fr_symbols r) d)"
      "gd_chunk_owner d1 = fold (\<lambda>c. om_del (l, ck_id c)) (case old of None \<Rightarrow> [] | Some r \<Rightarrow> fr_chunks r) (gd_chunk_owner d)"
      "gd_edges d1 = gd_edges (delete_symbols l ids (case old of None \<Rightarrow> [] | Some r \<Rightarrow> fr_symbols r) d)"
    by (simp_all add: d1_def clear_old_eq)
  have d4: "gd_layers d4 = gd_layers d3" "gd_files d4 = gd_files d3" "gd_symbols d4 = gd_symbols d3"
      "gd_chunk_owner d4 = gd_chunk_owner d3" "gd_edges d4 = gd_edges d3"
    by (simp_all add: d4_def)
  show "gd_layers (applied_file ff d) = gd_layers d"
    by (simp add: a d5_def d4 d3_def d2_def d1)
  show "om_get (gd_files (applied_file ff d)) k = (if k = (l, p)
        then Some \<lparr>fr_file = (ff_file ff)\<lparr>gf_hidden := clone_hidden (case gf_hidden (ff_file ff) of Some h \<Rightarrow> Some h
                      | None \<Rightarrow> (case old of None \<Rightarrow> None | Some r \<Rightarrow> gf_hidden (fr_file r)))\<rparr>,
                    fr_symbols = ids, fr_chunks = ff_chunks ff, fr_imports = ff_imports ff\<rparr>
        else om_get (gd_files d) k)"
    unfolding r_def [symmetric] by (simp add: a d5_def d4 d3_def d2_def d1)
  show "gd_symbols (applied_file ff d) = fold (\<lambda>s. om_put (l, sy_id s) s) (ff_symbols ff)
         (gd_symbols (delete_symbols l ids (case old of None \<Rightarrow> [] | Some r \<Rightarrow> fr_symbols r) d))"
    by (simp add: a d5_def d4 d3_def d2_def d1)
  show "gd_chunk_owner (applied_file ff d) = fold (\<lambda>c. om_put (l, ck_id c) p) (ff_chunks ff)
         (fold (\<lambda>c. om_del (l, ck_id c)) (case old of None \<Rightarrow> [] | Some r \<Rightarrow> fr_chunks r) (gd_chunk_owner d))"
    by (simp add: a d5_def d4 d3_def d2_def d1)
  show "gd_edges (applied_file ff d) = gd_edges (delete_symbols l ids (case old of None \<Rightarrow> [] | Some r \<Rightarrow> fr_symbols r) d)"
    by (simp add: a d5_def d4 d3_def d2_def d1)
  have "om_get (gd_packages d4) k \<noteq> None \<longleftrightarrow>
      (gf_package (ff_file ff) \<noteq> '''' \<and> k = (l, gf_package (ff_file ff))) \<or> om_get (gd_packages d) k \<noteq> None"
    unfolding d4_def using ensure_package_get [of l _ _ d3 k] by (simp add: d3_def d2_def d1)
  then show "om_get (gd_packages (applied_file ff d)) k \<noteq> None \<longleftrightarrow>
       k \<in> (\<lambda>im. (l, im_package im)) ` set (ff_imports ff) \<or>
       (gf_package (ff_file ff) \<noteq> '''' \<and> k = (l, gf_package (ff_file ff))) \<or> om_get (gd_packages d) k \<noteq> None"
    using fold_ensure_get [of l "ff_imports ff" d4 k] by (simp add: a d5_def)
qed

text \<open>What a file lists, and what replacing it by new facts does to the rest of the graph.\<close>

definition symbols_in :: "graph_data \<Rightarrow> string \<Rightarrow> string \<Rightarrow> string set" where
  "symbols_in d l p = (case om_get (gd_files d) (l, p) of None \<Rightarrow> {} | Some r \<Rightarrow> set (fr_symbols r))"

definition chunks_in :: "graph_data \<Rightarrow> string \<Rightarrow> string \<Rightarrow> string set" where
  "chunks_in d l p = (case om_get (gd_files d) (l, p) of None \<Rightarrow> {} | Some r \<Rightarrow> ck_id ` set (fr_chunks r))"

inductive file_replaced :: "graph_data \<Rightarrow> file_facts \<Rightarrow> string \<Rightarrow> string \<Rightarrow> graph_data \<Rightarrow> bool" where
  replaced:
    "\<lbrakk>gd_layers d' = gd_layers d;
      om_get (gd_files d') (l, p) =
        Some \<lparr>fr_file = f, fr_symbols = map sy_id (ff_symbols ff), fr_chunks = ff_chunks ff, fr_imports = ff_imports ff\<rparr>;
      gf_layer f = l; gf_path f = p;
      \<forall>k. k \<noteq> (l, p) \<longrightarrow> om_get (gd_files d') k = om_get (gd_files d) k;
      \<forall>s \<in> set (ff_symbols ff). om_get (gd_symbols d') (l, sy_id s) = Some s;
      \<forall>k. \<not> (fst k = l \<and> snd k \<in> sy_id ` set (ff_symbols ff)) \<longrightarrow>
        om_get (gd_symbols d') k = (if fst k = l \<and> snd k \<in> symbols_in d l p then None else om_get (gd_symbols d) k);
      \<forall>c \<in> set (ff_chunks ff). om_get (gd_chunk_owner d') (l, ck_id c) = Some p;
      \<forall>k. \<not> (fst k = l \<and> snd k \<in> ck_id ` set (ff_chunks ff)) \<longrightarrow>
        om_get (gd_chunk_owner d') k = (if fst k = l \<and> snd k \<in> chunks_in d l p then None else om_get (gd_chunk_owner d) k);
      \<forall>k. om_get (gd_packages d) k \<noteq> None \<longrightarrow> om_get (gd_packages d') k \<noteq> None;
      \<forall>im \<in> set (ff_imports ff). om_get (gd_packages d') (l, im_package im) \<noteq> None;
      \<forall>k. om_get (gd_edges d') k =
        (if \<exists>j \<in> symbols_in d l p - sy_id ` set (ff_symbols ff). touches (l, j) k then None else om_get (gd_edges d) k)\<rbrakk> \<Longrightarrow>
     file_replaced d ff l p d'"

lemma applied_replaced:
  assumes ok: "snd (apply_file ff d) = None"
  shows "file_replaced d ff (gf_layer (ff_file ff)) (gf_path (ff_file ff)) (applied_file ff d)"
    and "omap_wf (gd_symbols d) \<Longrightarrow> omap_wf (gd_symbols (applied_file ff d))"
    and "omap_wf (gd_edges d) \<Longrightarrow> omap_wf (gd_edges (applied_file ff d))"
proof -
  let ?l = "gf_layer (ff_file ff)" and ?p = "gf_path (ff_file ff)"
  note parts = applied_parts [OF ok]
  have dist: "distinct (map sy_id (ff_symbols ff))" "distinct (map ck_id (ff_chunks ff))"
    using ok unfolding apply_file_ok by (auto simp: facts_ok_def Let_def)
  have ins: "set (case om_get (gd_files d) (?l, ?p) of None \<Rightarrow> [] | Some r \<Rightarrow> fr_symbols r) = symbols_in d ?l ?p"
      "ck_id ` set (case om_get (gd_files d) (?l, ?p) of None \<Rightarrow> [] | Some r \<Rightarrow> fr_chunks r) = chunks_in d ?l ?p"
    by (simp_all add: symbols_in_def chunks_in_def split: option.split)
  have pair: "j \<in> (\<lambda>x. (?l, g x)) ` A \<longleftrightarrow> fst j = ?l \<and> snd j \<in> g ` A" for j :: node_ref and g :: "'a \<Rightarrow> string" and A
    by (cases j) auto
  have sy: "om_get (gd_symbols (applied_file ff d)) (?l, sy_id s) = Some s" if "s \<in> set (ff_symbols ff)" for s
    unfolding parts(3) using fold_om_put_in [of "\<lambda>s. (?l, sy_id s)" "ff_symbols ff" s "\<lambda>s. s"] that dist(1)
    by (simp add: distinct_map inj_on_def)
  have ch: "om_get (gd_chunk_owner (applied_file ff d)) (?l, ck_id c) = Some ?p" if "c \<in> set (ff_chunks ff)" for c
    unfolding parts(4) using fold_om_put_in [of "\<lambda>c. (?l, ck_id c)" "ff_chunks ff" c "\<lambda>c. ?p"] that dist(2)
    by (simp add: distinct_map inj_on_def)
  have sy': "om_get (gd_symbols (applied_file ff d)) j =
      (if fst j = ?l \<and> snd j \<in> symbols_in d ?l ?p then None else om_get (gd_symbols d) j)"
    if n: "\<not> (fst j = ?l \<and> snd j \<in> sy_id ` set (ff_symbols ff))" for j
  proof -
    have "j \<notin> (\<lambda>s. (?l, sy_id s)) ` set (ff_symbols ff)" using n unfolding pair .
    from fold_om_put_notin [OF this, where g = "\<lambda>s. s"] show ?thesis
      using n unfolding parts(3) by (simp add: delete_symbols_get ins)
  qed
  have ch': "om_get (gd_chunk_owner (applied_file ff d)) j =
      (if fst j = ?l \<and> snd j \<in> chunks_in d ?l ?p then None else om_get (gd_chunk_owner d) j)"
    if n: "\<not> (fst j = ?l \<and> snd j \<in> ck_id ` set (ff_chunks ff))" for j
  proof -
    have "j \<notin> (\<lambda>c. (?l, ck_id c)) ` set (ff_chunks ff)" using n unfolding pair .
    from fold_om_put_notin [OF this, where g = "\<lambda>c. ?p"] show ?thesis
      unfolding parts(4) by (simp only: fold_om_del_by_get pair ins)
  qed
  have ed: "om_get (gd_edges (applied_file ff d)) k =
     (if \<exists>j \<in> symbols_in d ?l ?p - sy_id ` set (ff_symbols ff). touches (?l, j) k then None else om_get (gd_edges d) k)" for k
    unfolding parts(6) delete_symbols_edges ins set_map by (rule refl)
  have pk: "om_get (gd_packages (applied_file ff d)) j \<noteq> None"
    if "om_get (gd_packages d) j \<noteq> None \<or> j \<in> (\<lambda>im. (?l, im_package im)) ` set (ff_imports ff)" for j
    unfolding parts(5) using that by blast
  show "file_replaced d ff ?l ?p (applied_file ff d)"
  proof (rule replaced)
    show "om_get (gd_files (applied_file ff d)) (?l, ?p) =
        Some \<lparr>fr_file = (ff_file ff)\<lparr>gf_hidden := clone_hidden (case gf_hidden (ff_file ff) of Some h \<Rightarrow> Some h
                 | None \<Rightarrow> (case om_get (gd_files d) (?l, ?p) of None \<Rightarrow> None | Some r \<Rightarrow> gf_hidden (fr_file r)))\<rparr>,
              fr_symbols = map sy_id (ff_symbols ff), fr_chunks = ff_chunks ff, fr_imports = ff_imports ff\<rparr>"
      unfolding parts(2) by simp
    show "\<forall>s \<in> set (ff_symbols ff). om_get (gd_symbols (applied_file ff d)) (?l, sy_id s) = Some s"
      using sy by blast
    show "\<forall>k. \<not> (fst k = ?l \<and> snd k \<in> sy_id ` set (ff_symbols ff)) \<longrightarrow> om_get (gd_symbols (applied_file ff d)) k =
        (if fst k = ?l \<and> snd k \<in> symbols_in d ?l ?p then None else om_get (gd_symbols d) k)"
      by (intro allI impI, rule sy')
    show "\<forall>c \<in> set (ff_chunks ff). om_get (gd_chunk_owner (applied_file ff d)) (?l, ck_id c) = Some ?p"
      using ch by blast
    show "\<forall>k. \<not> (fst k = ?l \<and> snd k \<in> ck_id ` set (ff_chunks ff)) \<longrightarrow> om_get (gd_chunk_owner (applied_file ff d)) k =
        (if fst k = ?l \<and> snd k \<in> chunks_in d ?l ?p then None else om_get (gd_chunk_owner d) k)"
      by (intro allI impI, rule ch')
    show "\<forall>k. om_get (gd_packages d) k \<noteq> None \<longrightarrow> om_get (gd_packages (applied_file ff d)) k \<noteq> None"
      by (intro allI impI, rule pk, rule disjI1)
    show "\<forall>im \<in> set (ff_imports ff). om_get (gd_packages (applied_file ff d)) (?l, im_package im) \<noteq> None"
      by (intro ballI, rule pk, rule disjI2, rule imageI)
    show "\<forall>k. om_get (gd_edges (applied_file ff d)) k = (if \<exists>j \<in> symbols_in d ?l ?p - sy_id ` set (ff_symbols ff). touches (?l, j) k
        then None else om_get (gd_edges d) k)"
      by (rule allI, rule ed)
  qed (simp_all add: parts(1,2))
  show "omap_wf (gd_symbols d) \<Longrightarrow> omap_wf (gd_symbols (applied_file ff d))"
    unfolding parts(3) by (rule fold_om_put_wf [where g = "\<lambda>s. s"], rule delete_symbols_wf(2))
  show "omap_wf (gd_edges d) \<Longrightarrow> omap_wf (gd_edges (applied_file ff d))"
    unfolding parts(6) by (rule delete_symbols_wf(1))
qed

text \<open>The new facts fit: their ids are their own, and none is taken by another file of the layer.\<close>

definition facts_fit :: "graph_data \<Rightarrow> file_facts \<Rightarrow> string \<Rightarrow> string \<Rightarrow> bool" where
  "facts_fit d ff l p \<longleftrightarrow>
     om_get (gd_layers d) l \<noteq> None \<and> distinct (map sy_id (ff_symbols ff)) \<and>
     (\<forall>s \<in> set (ff_symbols ff). sy_layer s = l \<and> sy_path s = p) \<and>
     (\<forall>j s. om_get (gd_symbols d) (l, j) = Some s \<longrightarrow> j \<in> sy_id ` set (ff_symbols ff) \<longrightarrow> sy_path s = p) \<and>
     (\<forall>j q. om_get (gd_chunk_owner d) (l, j) = Some q \<longrightarrow> j \<in> ck_id ` set (ff_chunks ff) \<longrightarrow> q = p)"

lemma applied_fit:
  assumes ok: "snd (apply_file ff d) = None"
  shows "facts_fit d ff (gf_layer (ff_file ff)) (gf_path (ff_file ff))"
proof -
  have facts: "facts_ok ff" and layer: "om_get (gd_layers d) (gf_layer (ff_file ff)) \<noteq> None"
    and free: "\<not> taken_elsewhere ff d"
    using ok unfolding apply_file_ok by auto
  have "sy_path s = gf_path (ff_file ff)"
    if "om_get (gd_symbols d) (gf_layer (ff_file ff), sy_id x) = Some s" "x \<in> set (ff_symbols ff)" for s x
  proof (rule ccontr)
    assume "sy_path s \<noteq> gf_path (ff_file ff)"
    then have "taken_elsewhere ff d"
      unfolding taken_elsewhere_def Let_def list_ex_iff using that by (intro disjI1 bexI [of _ x]) simp_all
    then show False using free by blast
  qed
  moreover have "q = gf_path (ff_file ff)"
    if "om_get (gd_chunk_owner d) (gf_layer (ff_file ff), ck_id x) = Some q" "x \<in> set (ff_chunks ff)" for q x
  proof (rule ccontr)
    assume "q \<noteq> gf_path (ff_file ff)"
    then have "taken_elsewhere ff d"
      unfolding taken_elsewhere_def Let_def list_ex_iff using that by (intro disjI2 bexI [of _ x]) simp_all
    then show False using free by blast
  qed
  moreover have "distinct (map sy_id (ff_symbols ff))"
      "\<forall>s \<in> set (ff_symbols ff). sy_layer s = gf_layer (ff_file ff) \<and> sy_path s = gf_path (ff_file ff)"
    using facts by (auto simp: facts_ok_def Let_def list_all_iff)
  ultimately show ?thesis unfolding facts_fit_def using layer by blast
qed
lemma edge_ends_kept:
  assumes "edge_inv d k e" "\<not> (\<exists>i \<in> G. touches (l, i) k)" "x = ge_from e \<or> x = ge_to e"
  shows "\<not> (fst x = l \<and> snd x \<in> G)"
  using assms by (cases x) (auto simp: edge_inv_def edge_key_of_def touches_def)

lemma inv_symbols_in: "graph_inv d \<Longrightarrow> om_get (gd_symbols d) (l, j) = Some s \<Longrightarrow> j \<in> symbols_in d l p \<Longrightarrow> sy_path s = p"
  using symbol_owner [of d l j s p] by (auto simp: symbols_in_def split: option.splits)

lemma inv_chunks_in: "graph_inv d \<Longrightarrow> om_get (gd_chunk_owner d) (l, j) = Some q \<Longrightarrow> j \<in> chunks_in d l p \<Longrightarrow> q = p"
  using chunk_owner [of d l j q p] by (auto simp: chunks_in_def split: option.splits)

lemma facts_fit_symbol:
  "facts_fit d ff l p \<Longrightarrow> om_get (gd_symbols d) (l, j) = Some s \<Longrightarrow> j \<in> sy_id ` set (ff_symbols ff) \<Longrightarrow> sy_path s = p"
  unfolding facts_fit_def by blast

lemma facts_fit_chunk:
  "facts_fit d ff l p \<Longrightarrow> om_get (gd_chunk_owner d) (l, j) = Some q \<Longrightarrow> j \<in> ck_id ` set (ff_chunks ff) \<Longrightarrow> q = p"
  unfolding facts_fit_def by blast

lemma file_inv_symbol:
  "file_inv d k r \<Longrightarrow> j \<in> set (fr_symbols r) \<Longrightarrow> \<exists>s. om_get (gd_symbols d) (fst k, j) = Some s \<and> sy_path s = snd k"
  by (simp only: file_inv_def)

lemma file_inv_import:
  "file_inv d k r \<Longrightarrow> im \<in> set (fr_imports r) \<Longrightarrow> om_get (gd_packages d) (fst k, im_package im) \<noteq> None"
  unfolding file_inv_def by blast

lemma replaced_other_file:
  assumes i: "graph_inv d" and rep: "file_replaced d ff l p d'" and fit: "facts_fit d ff l p"
    and k: "om_get (gd_files d) k = Some r" "k \<noteq> (l, p)"
  shows "file_inv d' k r"
  using rep
proof cases
  case (replaced f)
  have fi: "file_inv d k r" by (rule graph_invD(1) [OF i k(1)])
  have s: "\<exists>s. om_get (gd_symbols d') (fst k, j) = Some s \<and> sy_path s = snd k" if mem: "j \<in> set (fr_symbols r)" for j
  proof -
    obtain s where s: "om_get (gd_symbols d) (fst k, j) = Some s" "sy_path s = snd k"
      using file_inv_symbol [OF fi mem] by blast
    have n: "\<not> (fst (fst k, j) = l \<and> snd (fst k, j) \<in> sy_id ` set (ff_symbols ff))"
      using facts_fit_symbol [OF fit, of j s] s k(2) by (cases k) auto
    moreover have "\<not> (fst k = l \<and> j \<in> symbols_in d l p)"
      using inv_symbols_in [OF i, of l j s p] s k(2) by (cases k) auto
    ultimately have "om_get (gd_symbols d') (fst k, j) = Some s" using replaced(7) [rule_format, OF n] s(1) by simp
    then show ?thesis using s(2) by blast
  qed
  have c: "om_get (gd_chunk_owner d') (fst k, ck_id c) = Some (snd k)" if "c \<in> set (fr_chunks r)" for c
  proof -
    have o: "om_get (gd_chunk_owner d) (fst k, ck_id c) = Some (snd k)" using fi that by (simp only: file_inv_def)
    have n: "\<not> (fst (fst k, ck_id c) = l \<and> snd (fst k, ck_id c) \<in> ck_id ` set (ff_chunks ff))"
      using facts_fit_chunk [OF fit, of "ck_id c" "snd k"] o k(2) by (cases k) auto
    moreover have "\<not> (fst k = l \<and> ck_id c \<in> chunks_in d l p)"
      using inv_chunks_in [OF i, of l "ck_id c" "snd k" p] o k(2) by (cases k) auto
    ultimately show ?thesis using replaced(9) [rule_format, OF n] o by simp
  qed
  have im: "om_get (gd_packages d') (fst k, im_package im) \<noteq> None" if "im \<in> set (fr_imports r)" for im
    by (rule replaced(10) [rule_format, OF file_inv_import [OF fi that]])
  have "gf_layer (fr_file r) = fst k" "gf_path (fr_file r) = snd k" "om_get (gd_layers d') (fst k) \<noteq> None" "distinct (fr_symbols r)"
    using fi unfolding file_inv_def replaced(1) by simp_all
  then show ?thesis unfolding file_inv_def using s c im by simp
qed

lemma replaced_file:
  assumes rep: "file_replaced d ff l p d'" and fit: "facts_fit d ff l p" and g: "om_get (gd_files d') (l, p) = Some r"
  shows "file_inv d' (l, p) r"
  using rep
proof cases
  case (replaced f)
  have r: "r = \<lparr>fr_file = f, fr_symbols = map sy_id (ff_symbols ff), fr_chunks = ff_chunks ff, fr_imports = ff_imports ff\<rparr>"
    using g replaced(2) by simp
  have "\<forall>s \<in> set (ff_symbols ff). om_get (gd_symbols d') (l, sy_id s) = Some s \<and> sy_path s = p"
    using replaced(6) fit unfolding facts_fit_def by blast
  then show ?thesis
    using fit replaced(8,11) unfolding file_inv_def r facts_fit_def replaced(1) by (auto simp: replaced(3,4))
qed

lemma replaced_symbol:
  assumes i: "graph_inv d" and rep: "file_replaced d ff l p d'" and fit: "facts_fit d ff l p"
    and g: "om_get (gd_symbols d') k = Some s"
  shows "symbol_inv d' k s"
  using rep
proof cases
  case (replaced f)
  show ?thesis
  proof (cases "fst k = l \<and> snd k \<in> sy_id ` set (ff_symbols ff)")
    case True
    then obtain s' where s': "s' \<in> set (ff_symbols ff)" "k = (l, sy_id s')" by (cases k) auto
    then have "s = s'" using replaced(6) g by simp
    moreover have "sy_layer s' = l \<and> sy_path s' = p" using fit s'(1) unfolding facts_fit_def by blast
    ultimately show ?thesis using s' by (simp add: symbol_inv_def replaced(2))
  next
    case False
    then have k: "om_get (gd_symbols d) k = Some s" "\<not> (fst k = l \<and> snd k \<in> symbols_in d l p)"
      using g replaced(7) [rule_format, OF False] by (simp_all split: if_splits)
    have si: "symbol_inv d k s" by (rule graph_invD(2) [OF i k(1)])
    then have "(fst k, sy_path s) \<noteq> (l, p)" using k(2) unfolding symbol_inv_def symbols_in_def by auto
    then show ?thesis using si replaced(5) unfolding symbol_inv_def by auto
  qed
qed

lemma replaced_chunk:
  assumes i: "graph_inv d" and rep: "file_replaced d ff l p d'" and g: "om_get (gd_chunk_owner d') k = Some q"
  shows "chunk_inv d' k q"
  using rep
proof cases
  case (replaced f)
  show ?thesis
  proof (cases "fst k = l \<and> snd k \<in> ck_id ` set (ff_chunks ff)")
    case True
    then obtain c where c: "c \<in> set (ff_chunks ff)" "k = (l, ck_id c)" by (cases k) auto
    then have "q = p" using replaced(8) g by simp
    then show ?thesis using c by (simp add: chunk_inv_def replaced(2))
  next
    case False
    then have k: "om_get (gd_chunk_owner d) k = Some q" "\<not> (fst k = l \<and> snd k \<in> chunks_in d l p)"
      using g replaced(9) [rule_format, OF False] by (simp_all split: if_splits)
    have ci: "chunk_inv d k q" by (rule graph_invD(3) [OF i k(1)])
    then have "(fst k, q) \<noteq> (l, p)" using k(2) unfolding chunk_inv_def chunks_in_def by auto
    then show ?thesis using ci replaced(5) unfolding chunk_inv_def by auto
  qed
qed

lemma replaced_edge:
  assumes i: "graph_inv d" and rep: "file_replaced d ff l p d'" and g: "om_get (gd_edges d') k = Some e"
  shows "edge_inv d' k e"
  using rep
proof cases
  case (replaced f)
  let ?gone = "symbols_in d l p - sy_id ` set (ff_symbols ff)"
  have ek: "om_get (gd_edges d') k = (if \<exists>j \<in> ?gone. touches (l, j) k then None else om_get (gd_edges d) k)"
    using replaced(12) by (rule spec)
  have k: "om_get (gd_edges d) k = Some e" "\<not> (\<exists>j \<in> ?gone. touches (l, j) k)"
    using g unfolding ek by (meson option.distinct(1))+
  have ei: "edge_inv d k e" by (rule graph_invD(4) [OF i k(1)])
  have "om_get (gd_symbols d') x \<noteq> None" if x: "x = ge_from e \<or> x = ge_to e" for x
  proof (cases "fst x = l \<and> snd x \<in> sy_id ` set (ff_symbols ff)")
    case True
    then show ?thesis using replaced(6) by (cases x) auto
  next
    case False
    then have "\<not> (fst x = l \<and> snd x \<in> symbols_in d l p)" using edge_ends_kept [OF ei k(2) x] by blast
    moreover have "om_get (gd_symbols d) x \<noteq> None" using x ei unfolding edge_inv_def by blast
    ultimately show ?thesis using replaced(7) [rule_format, OF False] by simp
  qed
  then show ?thesis using ei unfolding edge_inv_def replaced(1) by blast
qed

lemma graph_inv_applied:
  assumes i: "graph_inv d" and ok: "snd (apply_file ff d) = None"
  shows "graph_inv (applied_file ff d)"
proof -
  note rep = applied_replaced(1) [OF ok] and fit = applied_fit [OF ok]
  show ?thesis
  proof (rule graph_invI)
    show "file_inv (applied_file ff d) k r" if g: "om_get (gd_files (applied_file ff d)) k = Some r" for k r
    proof (cases "k = (gf_layer (ff_file ff), gf_path (ff_file ff))")
      case True
      then show ?thesis using replaced_file [OF rep fit] g by blast
    next
      case False
      then have "om_get (gd_files d) k = Some r" using g by (simp add: applied_parts(2) [OF ok])
      then show ?thesis using replaced_other_file [OF i rep fit] False by blast
    qed
  qed (use replaced_symbol [OF i rep fit] replaced_chunk [OF i rep] replaced_edge [OF i rep]
        applied_replaced(2,3) [OF ok] graph_invD(5,6) [OF i] in blast)+
qed

lemma graph_inv_apply_file: "graph_inv d \<Longrightarrow> graph_inv (fst (apply_file ff d))"
  using graph_inv_applied [of d ff] apply_file_refused [of ff d] unfolding applied_file_def
  by (cases "snd (apply_file ff d)") simp_all

lemma graph_inv_step: "graph_step d d' \<Longrightarrow> graph_inv d \<Longrightarrow> graph_inv d'"
  by (induction rule: graph_step.induct)
    (simp_all add: graph_inv_put_layer graph_inv_apply_file graph_inv_remove_file graph_inv_set_hidden
      graph_inv_put_edges graph_inv_drop_layer drop_graph_def graph_inv_new)

lemma graph_inv_reachable: "graph_reachable d \<Longrightarrow> graph_inv d"
  by (induction rule: graph_reachable.induct) (auto intro: graph_inv_new graph_inv_step)

section \<open>Facts: what a view shows\<close>

lemma rank_from_bounds: "rank_from i v l = -1 \<or> i \<le> rank_from i v l"
  by (induction i v l rule: rank_from.induct) auto

lemma rank_from_has: "0 \<le> i \<Longrightarrow> 0 \<le> rank_from i v l \<longleftrightarrow> l \<in> set v"
  by (induction i v l rule: rank_from.induct) auto

lemma rank_from_inj: "\<lbrakk>0 \<le> i; l \<in> set v; rank_from i v l = rank_from i v m\<rbrakk> \<Longrightarrow> l = m"
proof (induction i v l rule: rank_from.induct)
  case (2 i x v l)
  then show ?case using rank_from_bounds [of "i + 1" v l] rank_from_bounds [of "i + 1" v m] by (auto split: if_splits)
qed simp

lemma view_has_iff: "view_has v l \<longleftrightarrow> l \<in> set v"
  by (simp add: view_has_def view_rank_def rank_from_has)

lemma view_rank_inj: "view_has v l \<Longrightarrow> view_rank v l = view_rank v m \<Longrightarrow> l = m"
  using rank_from_inj [of 0 l v m] by (simp add: view_rank_def view_has_iff)

lemma visible_symbolD:
  assumes "graph_inv d" "visible_symbol d v ref = Some (s, r)"
  shows "ref = (sy_layer s, sy_id s)" "view_has v (sy_layer s)" "om_get (gd_symbols d) ref = Some s"
    "om_get (gd_files d) (sy_layer s, sy_path s) = Some r" "file_visible v (fr_file r)"
proof -
  show s: "om_get (gd_symbols d) ref = Some s" and r: "om_get (gd_files d) (sy_layer s, sy_path s) = Some r"
    and f: "file_visible v (fr_file r)"
    using assms(2) by (auto simp: visible_symbol_def split: option.splits if_splits)
  show "ref = (sy_layer s, sy_id s)"
    using graph_invD(2) [OF assms(1) s] by (cases ref) (simp add: symbol_inv_def)
  show "view_has v (sy_layer s)"
    using graph_invD(1) [OF assms(1) r] f by (simp add: file_inv_def file_visible_def node_visible_def)
qed

text \<open>The candidates after some symbols: for every id the visible one of the highest layer.\<close>

definition best_of :: "graph_data \<Rightarrow> view \<Rightarrow> node_ref set \<Rightarrow> (string, symbol \<times> file_rec) omap \<Rightarrow> bool" where
  "best_of d v R best \<longleftrightarrow>
     omap_wf best \<and>
     (\<forall>i s r. om_get best i = Some (s, r) \<longrightarrow> sy_id s = i \<and> (\<exists>ref \<in> R. visible_symbol d v ref = Some (s, r))) \<and>
     (\<forall>ref \<in> R. \<forall>s r. visible_symbol d v ref = Some (s, r) \<longrightarrow>
        (\<exists>s' r'. om_get best (sy_id s) = Some (s', r') \<and> view_rank v (sy_layer s) \<le> view_rank v (sy_layer s')))"

lemma best_of_hidden: "visible_symbol d v ref = None \<Longrightarrow> best_of d v R best \<Longrightarrow> best_of d v (insert ref R) best"
  unfolding best_of_def by auto

lemma best_of_lower:
  assumes "visible_symbol d v ref = Some (s, r)" "om_get best (sy_id s) = Some (s', r')"
    "view_rank v (sy_layer s) < view_rank v (sy_layer s')" "best_of d v R best"
  shows "best_of d v (insert ref R) best"
  using assms unfolding best_of_def by (auto intro: less_imp_le)

lemma best_of_higher:
  assumes vis: "visible_symbol d v ref = Some (s, r)" and b: "best_of d v R best"
    and hi: "\<And>s' r'. om_get best (sy_id s) = Some (s', r') \<Longrightarrow> view_rank v (sy_layer s') \<le> view_rank v (sy_layer s)"
  shows "best_of d v (insert ref R) (om_put (sy_id s) (s, r) best)"
  unfolding best_of_def
proof (intro conjI allI impI ballI)
  show "omap_wf (om_put (sy_id s) (s, r) best)" using b by (simp add: best_of_def om_put_wf)
  show "sy_id t = i" "\<exists>ref \<in> insert ref R. visible_symbol d v ref = Some (t, q)"
    if "om_get (om_put (sy_id s) (s, r) best) i = Some (t, q)" for i t q
    using that vis b unfolding best_of_def by (auto split: if_splits)
  show "\<exists>s' r'. om_get (om_put (sy_id s) (s, r) best) (sy_id t) = Some (s', r') \<and> view_rank v (sy_layer t) \<le> view_rank v (sy_layer s')"
    if x: "x \<in> insert ref R" "visible_symbol d v x = Some (t, q)" for x t q
  proof (cases "sy_id t = sy_id s")
    case True
    have "view_rank v (sy_layer t) \<le> view_rank v (sy_layer s)"
    proof (cases "x = ref")
      case False
      then obtain s' r' where "om_get best (sy_id t) = Some (s', r')" "view_rank v (sy_layer t) \<le> view_rank v (sy_layer s')"
        using x b unfolding best_of_def by blast
      then show ?thesis using hi True by fastforce
    qed (use x vis in simp)
    then show ?thesis using True by simp
  next
    case False
    then have "x \<in> R" using x vis by auto
    then show ?thesis using x(2) b False unfolding best_of_def by simp
  qed
qed

lemma best_of_consider:
  assumes "graph_inv d" "best_of d v R best"
  shows "best_of d v (insert ref R) (consider_symbol d v ref best)"
proof (cases "visible_symbol d v ref")
  case None
  then show ?thesis using best_of_hidden [OF None assms(2)] by (simp add: consider_symbol_def)
next
  case (Some x)
  obtain s r where x: "visible_symbol d v ref = Some (s, r)" using Some by (cases x) auto
  have has: "view_has v (fst ref)" using visible_symbolD(1,2) [OF assms(1) x] by simp
  show ?thesis
  proof (cases "\<exists>s' r'. om_get best (sy_id s) = Some (s', r') \<and> view_rank v (sy_layer s') > view_rank v (sy_layer s)")
    case True
    then obtain s' r' where t: "om_get best (sy_id s) = Some (s', r')" "view_rank v (sy_layer s) < view_rank v (sy_layer s')" by auto
    then have "consider_symbol d v ref best = best" using has x by (simp add: consider_symbol_def)
    then show ?thesis using best_of_lower [OF x t assms(2)] by simp
  next
    case False
    then have "consider_symbol d v ref best = om_put (sy_id s) (s, r) best"
      using has x by (auto simp: consider_symbol_def split: option.split)
    then show ?thesis using best_of_higher [OF x assms(2)] False by (auto simp: not_less)
  qed
qed

lemma best_of_fold: "graph_inv d \<Longrightarrow> best_of d v R best \<Longrightarrow> best_of d v (R \<union> set refs) (fold (consider_symbol d v) refs best)"
proof (induction refs arbitrary: R best)
  case (Cons ref refs)
  then show ?case using Cons.IH [OF Cons.prems(1) best_of_consider [OF Cons.prems]] by simp
qed simp

text \<open>A symbol a view shows: visible, and no layer above shows its id.\<close>

definition shown :: "graph_data \<Rightarrow> view \<Rightarrow> symbol \<Rightarrow> file_rec \<Rightarrow> bool" where
  "shown d v s r \<longleftrightarrow>
     visible_symbol d v (sy_layer s, sy_id s) = Some (s, r) \<and>
     (\<forall>l s' r'. visible_symbol d v (l, sy_id s) = Some (s', r') \<longrightarrow> view_rank v l \<le> view_rank v (sy_layer s))"

lemma visible_symbols_set:
  assumes i: "graph_inv d"
  shows "set (visible_symbols d v keep) = {s. \<exists>r. shown d v s r \<and> keep s r}"
    and "distinct (map sy_id (visible_symbols d v keep))"
proof -
  define best where "best = fold (consider_symbol d v) (map fst (gd_symbols d)) []"
  have "best_of d v ({} \<union> set (map fst (gd_symbols d))) best"
    unfolding best_def by (rule best_of_fold [OF i]) (simp add: best_of_def)
  then have b: "best_of d v (fst ` set (gd_symbols d)) best" by simp
  have key: "ref \<in> fst ` set (gd_symbols d)" if "visible_symbol d v ref = Some (s, r)" for ref s r
    using om_get_None [of "gd_symbols d" ref] visible_symbolD(3) [OF i that] by (auto simp del: om_get_None)
  have get: "om_get best (sy_id s) = Some (s, r) \<longleftrightarrow> shown d v s r" for s r
  proof
    assume g: "om_get best (sy_id s) = Some (s, r)"
    then obtain ref where vis: "visible_symbol d v ref = Some (s, r)" using b unfolding best_of_def by blast
    have ref: "ref = (sy_layer s, sy_id s)" by (rule visible_symbolD(1) [OF i vis])
    have "view_rank v l \<le> view_rank v (sy_layer s)" if o: "visible_symbol d v (l, sy_id s) = Some (s', r')" for l s' r'
    proof -
      have id': "l = sy_layer s'" "sy_id s' = sy_id s" using visible_symbolD(1) [OF i o] by simp_all
      obtain s'' r'' where "om_get best (sy_id s') = Some (s'', r'')" "view_rank v (sy_layer s') \<le> view_rank v (sy_layer s'')"
        using b key [OF o] o unfolding best_of_def by blast
      then show ?thesis using g id' by simp
    qed
    then show "shown d v s r" unfolding shown_def using vis ref by blast
  next
    assume sh: "shown d v s r"
    then have vis: "visible_symbol d v (sy_layer s, sy_id s) = Some (s, r)" by (simp add: shown_def)
    obtain s' r' where g: "om_get best (sy_id s) = Some (s', r')" "view_rank v (sy_layer s) \<le> view_rank v (sy_layer s')"
      using b key [OF vis] vis unfolding best_of_def by blast
    then obtain ref where o: "visible_symbol d v ref = Some (s', r')" "sy_id s' = sy_id s" using b unfolding best_of_def by blast
    then have ref: "ref = (sy_layer s', sy_id s)" using visible_symbolD(1) [OF i o(1)] by simp
    then have "view_rank v (sy_layer s') \<le> view_rank v (sy_layer s)" using sh o(1) unfolding shown_def by blast
    then have "sy_layer s = sy_layer s'"
      using g(2) view_rank_inj [OF visible_symbolD(2) [OF i vis]] by simp
    then show "om_get best (sy_id s) = Some (s, r)" using vis o(1) ref g(1) by simp
  qed
  have wf: "omap_wf best" and ids: "\<And>i s r. om_get best i = Some (s, r) \<Longrightarrow> sy_id s = i"
    using b unfolding best_of_def by auto
  have snds: "(s, r) \<in> set (map snd best) \<longleftrightarrow> om_get best (sy_id s) = Some (s, r)" for s r
    using om_get_iff [OF wf] ids by (auto simp: image_iff) (metis snd_conv)
  show "set (visible_symbols d v keep) = {s. \<exists>r. shown d v s r \<and> keep s r}"
    unfolding visible_symbols_def best_def [symmetric] using snds get by (auto simp: image_iff) force+
  have e: "map (\<lambda>x. sy_id (fst x)) (map snd best) = map fst best"
    using om_get_iff [OF wf] ids by (auto simp: map_eq_conv)
  have "distinct (map (\<lambda>x. sy_id (fst x)) (map snd best))" unfolding e using omap_wf_distinct [OF wf] by blast
  from distinct_map_filter [OF this] show "distinct (map sy_id (visible_symbols d v keep))"
    unfolding visible_symbols_def best_def [symmetric] map_map comp_def .
qed

section \<open>The walk by levels\<close>

text \<open>The edges a walk may follow, and the nodes within a number of hops of its start.\<close>

definition followed :: "graph_data \<Rightarrow> view \<Rightarrow> string list \<Rightarrow> edge_key \<Rightarrow> bool" where
  "followed d v types k \<longleftrightarrow> om_get (gd_edges d) k \<noteq> None \<and> fst k \<in> set types \<and> shows_edge d v k"

fun within :: "graph_data \<Rightarrow> view \<Rightarrow> string list \<Rightarrow> bool \<Rightarrow> node_ref \<Rightarrow> nat \<Rightarrow> node_ref set" where
  "within d v types incoming start 0 = {start}"
| "within d v types incoming start (Suc n) =
     within d v types incoming start n \<union>
     far_end incoming ` {k. followed d v types k \<and> near_end incoming k \<in> within d v types incoming start n}"

definition before :: "graph_data \<Rightarrow> view \<Rightarrow> string list \<Rightarrow> bool \<Rightarrow> node_ref \<Rightarrow> nat \<Rightarrow> node_ref set" where
  "before d v types incoming start n = (\<Union>m<n. within d v types incoming start m)"

lemma within_mono: "m \<le> n \<Longrightarrow> within d v types incoming start m \<subseteq> within d v types incoming start n"
  by (induction n) (auto simp: le_Suc_eq)

lemma before_0 [simp]: "before d v types incoming start 0 = {}"
  by (simp add: before_def)

lemma before_Suc [simp]: "before d v types incoming start (Suc n) = within d v types incoming start n"
proof -
  have "within d v types incoming start m \<subseteq> within d v types incoming start n" if "m < Suc n" for m
    using that by (intro within_mono) simp
  then show ?thesis unfolding before_def by blast
qed

lemma before_within: "before d v types incoming start n \<subseteq> within d v types incoming start n"
  by (cases n) auto

text \<open>The nodes first reached by the n-th hop, and the edges that leave them.\<close>

definition fresh_nodes :: "graph_data \<Rightarrow> view \<Rightarrow> string list \<Rightarrow> bool \<Rightarrow> node_ref \<Rightarrow> nat \<Rightarrow> node_ref set" where
  "fresh_nodes d v types incoming start n =
     within d v types incoming start n - before d v types incoming start n"

lemma fresh_empty_stays:
  "fresh_nodes d v types incoming start n = {} \<Longrightarrow> n \<le> m \<Longrightarrow> fresh_nodes d v types incoming start m = {}"
proof (induction m)
  case (Suc m)
  show ?case
  proof (cases "n = Suc m")
    case False
    then have e: "within d v types incoming start m \<subseteq> before d v types incoming start m"
      using Suc by (simp add: fresh_nodes_def)
    then obtain j where j: "m = Suc j" by (cases m) auto
    have "within d v types incoming start m = within d v types incoming start j"
      using e within_mono [of j m d v types incoming start] unfolding j by auto
    then have "within d v types incoming start (Suc m) = within d v types incoming start (Suc j)" by simp
    then show ?thesis by (simp add: fresh_nodes_def j)
  qed (use Suc in simp)
qed (simp add: fresh_nodes_def)

lemma fresh_disjoint: "k \<in> fresh_nodes d v types incoming start m \<Longrightarrow> k \<in> fresh_nodes d v types incoming start n \<Longrightarrow> m = n"
proof (rule ccontr)
  assume k: "k \<in> fresh_nodes d v types incoming start m" "k \<in> fresh_nodes d v types incoming start n" and "m \<noteq> n"
  then consider "m < n" | "n < m" by linarith
  then show False
    using k by cases (auto simp: fresh_nodes_def before_def)
qed

text \<open>One hop: the edges from the frontier that are not seen yet.\<close>

definition hop_edges ::
    "graph_data \<Rightarrow> view \<Rightarrow> string list \<Rightarrow> bool \<Rightarrow> node_ref list \<Rightarrow> walk_state \<Rightarrow> (edge_key \<times> graph_edge) list \<Rightarrow> (edge_key \<times> graph_edge) list" where
  "hop_edges d v types incoming frontier w es =
     filter (\<lambda>ke. fst (fst ke) \<in> set types \<and> fst ke \<notin> set (wk_edges w) \<and> near_end incoming (fst ke) \<in> set frontier \<and>
                  shows_edge d v (fst ke)) es"

lemma walk_edge_skip:
  "hop_edges d v types incoming frontier w [ke] = [] \<Longrightarrow> walk_edge d v rel types incoming hop frontier ke w = w"
  by (auto simp: hop_edges_def walk_edge_def Let_def split: if_splits)

lemma walk_edge_take:
  fixes rel :: string and hop :: int
  assumes "hop_edges d v types incoming frontier w [ke] \<noteq> []"
  defines "w' \<equiv> walk_edge d v rel types incoming hop frontier ke w"
  shows "wk_rows w' = wk_rows w @ [edge_row d v rel hop ke]" "set (wk_edges w') = insert (fst ke) (set (wk_edges w))"
    "set (wk_nodes w') = insert (far_end incoming (fst ke)) (set (wk_nodes w))"
    "set (wk_next w') = set (wk_next w) \<union> ({far_end incoming (fst ke)} - set (wk_nodes w))"
  using assms by (auto simp: hop_edges_def walk_edge_def Let_def split: if_splits)

lemma walk_fold:
  fixes rel :: string and hop :: int and d v types incoming frontier w
  assumes "distinct (map fst es)"
  defines "w' \<equiv> fold (walk_edge d v rel types incoming hop frontier) es w"
    and "hs \<equiv> hop_edges d v types incoming frontier w es"
  shows "wk_rows w' = wk_rows w @ map (edge_row d v rel hop) hs"
    "set (wk_edges w') = set (wk_edges w) \<union> fst ` set hs"
    "set (wk_nodes w') = set (wk_nodes w) \<union> far_end incoming ` fst ` set hs"
    "set (wk_next w') = set (wk_next w) \<union> (far_end incoming ` fst ` set hs - set (wk_nodes w))"
proof -
  have "wk_rows (fold (walk_edge d v rel types incoming hop frontier) es w) = wk_rows w @ map (edge_row d v rel hop) (hop_edges d v types incoming frontier w es) \<and>
    set (wk_edges (fold (walk_edge d v rel types incoming hop frontier) es w)) = set (wk_edges w) \<union> fst ` set (hop_edges d v types incoming frontier w es) \<and>
    set (wk_nodes (fold (walk_edge d v rel types incoming hop frontier) es w)) = set (wk_nodes w) \<union> far_end incoming ` fst ` set (hop_edges d v types incoming frontier w es) \<and>
    set (wk_next (fold (walk_edge d v rel types incoming hop frontier) es w)) =
      set (wk_next w) \<union> (far_end incoming ` fst ` set (hop_edges d v types incoming frontier w es) - set (wk_nodes w))"
    using assms(1)
  proof (induction es arbitrary: w)
    case (Cons ke es)
    let ?w = "walk_edge d v rel types incoming hop frontier ke w"
    have es: "hop_edges d v types incoming frontier ?w es = hop_edges d v types incoming frontier w es"
    proof (cases "hop_edges d v types incoming frontier w [ke] = []")
      case False
      have "fst x \<noteq> fst ke" if "x \<in> set es" for x using Cons.prems that by (metis distinct.simps(2) image_eqI list.set_map list.simps(9))
      then show ?thesis unfolding hop_edges_def walk_edge_take(2) [OF False] by (intro filter_cong refl) auto
    qed (simp add: walk_edge_skip)
    show ?case
    proof (cases "hop_edges d v types incoming frontier w [ke] = []")
      case True
      then have "hop_edges d v types incoming frontier w (ke # es) = hop_edges d v types incoming frontier w es"
        by (simp add: hop_edges_def split: if_splits)
      then show ?thesis using Cons.IH [of ?w] Cons.prems walk_edge_skip [OF True] by simp
    next
      case False
      then have h: "hop_edges d v types incoming frontier w (ke # es) = ke # hop_edges d v types incoming frontier w es"
        by (simp add: hop_edges_def split: if_splits)
      have d: "distinct (map fst es)" using Cons.prems by simp
      show ?thesis
        using Cons.IH [of ?w, OF d] unfolding es h walk_edge_take [OF False] by auto
    qed
  qed (simp add: hop_edges_def)
  then show "wk_rows w' = wk_rows w @ map (edge_row d v rel hop) hs"
    "set (wk_edges w') = set (wk_edges w) \<union> fst ` set hs"
    "set (wk_nodes w') = set (wk_nodes w) \<union> far_end incoming ` fst ` set hs"
    "set (wk_next w') = set (wk_next w) \<union> (far_end incoming ` fst ` set hs - set (wk_nodes w))"
    unfolding w'_def hs_def by iprover+
qed

text \<open>What the walk finds in the hops that are left, from the n-th level on.\<close>

definition level_rows ::
    "graph_data \<Rightarrow> view \<Rightarrow> string list \<Rightarrow> bool \<Rightarrow> node_ref \<Rightarrow> nat \<Rightarrow> nat \<Rightarrow> (edge_key \<times> int) set" where
  "level_rows d v types incoming start h n =
     (\<Union>m \<in> {h..<h + n}. (\<lambda>k. (k, int (Suc m))) `
        {k. followed d v types k \<and> near_end incoming k \<in> fresh_nodes d v types incoming start m})"

definition row_of_key :: "graph_data \<Rightarrow> view \<Rightarrow> string \<Rightarrow> edge_key \<times> int \<Rightarrow> neighbor_row" where
  "row_of_key d v rel kh = edge_row d v rel (snd kh) (fst kh, the (om_get (gd_edges d) (fst kh)))"

text \<open>The state of the walk before the hop after n.\<close>

definition at_level :: "graph_data \<Rightarrow> view \<Rightarrow> string list \<Rightarrow> bool \<Rightarrow> node_ref \<Rightarrow> nat \<Rightarrow> node_ref list \<Rightarrow> walk_state \<Rightarrow> bool" where
  "at_level d v types incoming start n frontier w \<longleftrightarrow>
     set frontier = fresh_nodes d v types incoming start n \<and>
     set (wk_nodes w) = within d v types incoming start n \<and>
     set (wk_edges w) = {k. followed d v types k \<and> near_end incoming k \<in> before d v types incoming start n}"

lemma fst_filter: "fst ` set (filter (\<lambda>x. C (fst x)) es) = {k \<in> fst ` set es. C k}"
  by auto

lemma hop_edges_level:
  assumes wf: "omap_wf (gd_edges d)" and a: "at_level d v types incoming start n frontier w"
  shows "fst ` set (hop_edges d v types incoming frontier w (gd_edges d)) =
    {k. followed d v types k \<and> near_end incoming k \<in> fresh_nodes d v types incoming start n}"
proof -
  have mem: "k \<in> fst ` set (gd_edges d) \<longleftrightarrow> om_get (gd_edges d) k \<noteq> None" for k
    by (simp only: om_get_None) simp
  have "fst ` set (hop_edges d v types incoming frontier w (gd_edges d)) =
      {k \<in> fst ` set (gd_edges d). fst k \<in> set types \<and> k \<notin> set (wk_edges w) \<and>
         near_end incoming k \<in> set frontier \<and> shows_edge d v k}"
    unfolding hop_edges_def by (rule fst_filter)
  also have "\<dots> = {k. followed d v types k \<and> k \<notin> set (wk_edges w) \<and> near_end incoming k \<in> set frontier}"
    unfolding mem followed_def by (rule Collect_cong) (iprover intro: iffI conjI elim: conjE)
  finally have "fst ` set (hop_edges d v types incoming frontier w (gd_edges d)) =
      {k. followed d v types k \<and> k \<notin> set (wk_edges w) \<and> near_end incoming k \<in> set frontier}" .
  moreover have "k \<notin> set (wk_edges w)" if "near_end incoming k \<in> fresh_nodes d v types incoming start n" for k
    using that a unfolding at_level_def fresh_nodes_def by simp
  moreover have "set frontier = fresh_nodes d v types incoming start n" using a unfolding at_level_def by blast
  ultimately show ?thesis by blast
qed

lemma at_level_next:
  fixes rel :: string and hop :: int
  assumes wf: "omap_wf (gd_edges d)" and a: "at_level d v types incoming start n frontier w"
  defines "w' \<equiv> fold (walk_edge d v rel types incoming hop frontier) (gd_edges d) (w\<lparr>wk_next := []\<rparr>)"
  shows "at_level d v types incoming start (Suc n) (wk_next w') w'"
proof -
  let ?new = "{k. followed d v types k \<and> near_end incoming k \<in> fresh_nodes d v types incoming start n}"
  let ?old = "{k. followed d v types k \<and> near_end incoming k \<in> before d v types incoming start n}"
  have dist: "distinct (map fst (gd_edges d))" using omap_wf_distinct [OF wf] by blast
  have hs: "fst ` set (hop_edges d v types incoming frontier (w\<lparr>wk_next := []\<rparr>) (gd_edges d)) = ?new"
    using hop_edges_level [OF wf, of v types incoming start n frontier "w\<lparr>wk_next := []\<rparr>"] a by (simp add: at_level_def)
  note f = walk_fold [OF dist, of d v rel types incoming hop frontier "w\<lparr>wk_next := []\<rparr>", folded w'_def, unfolded hs]
  have old: "far_end incoming ` ?old \<subseteq> within d v types incoming start n"
  proof (cases n)
    case (Suc m)
    then show ?thesis by auto
  qed simp
  have sides: "{k. followed d v types k \<and> near_end incoming k \<in> within d v types incoming start n} = ?new \<union> ?old"
    using before_within [of d v types incoming start n] unfolding fresh_nodes_def by blast
  have nodes: "within d v types incoming start (Suc n) = within d v types incoming start n \<union> far_end incoming ` ?new"
    unfolding within.simps sides using old by blast
  have "set (wk_nodes w') = within d v types incoming start (Suc n)"
    using f(3) a unfolding nodes at_level_def by simp
  moreover have "set (wk_next w') = fresh_nodes d v types incoming start (Suc n)"
    using f(4) a unfolding fresh_nodes_def before_Suc nodes at_level_def by auto
  moreover have "set (wk_edges w') = {k. followed d v types k \<and> near_end incoming k \<in> before d v types incoming start (Suc n)}"
    using f(2) a unfolding before_Suc sides at_level_def by auto
  ultimately show ?thesis by (simp add: at_level_def)
qed

lemma level_rows_Suc:
  "level_rows d v types incoming start h (Suc n) =
     (\<lambda>k. (k, int (Suc h))) ` {k. followed d v types k \<and> near_end incoming k \<in> fresh_nodes d v types incoming start h} \<union>
     level_rows d v types incoming start (Suc h) n"
proof -
  have "{h..<h + Suc n} = insert h {Suc h..<Suc h + n}" by auto
  then show ?thesis unfolding level_rows_def by (simp only: UN_insert)
qed

lemma level_rows_stop: "fresh_nodes d v types incoming start h = {} \<Longrightarrow> level_rows d v types incoming start h n = {}"
  unfolding level_rows_def using fresh_empty_stays [of d v types incoming start h] by auto

lemma walk_hops_levels:
  assumes wf: "omap_wf (gd_edges d)"
  shows "at_level d v types incoming start h frontier w \<Longrightarrow>
    \<exists>ks. walk_hops d v rel types incoming n (int h + 1) frontier w = wk_rows w @ map (row_of_key d v rel) ks \<and>
      distinct (map fst ks) \<and> set ks = level_rows d v types incoming start h n"
proof (induction n arbitrary: h frontier w)
  case 0
  then show ?case by (intro exI [of _ "[]"]) (simp add: level_rows_def)
next
  case (Suc n)
  show ?case
  proof (cases "frontier = []")
    case True
    then have "fresh_nodes d v types incoming start h = {}" using Suc.prems by (simp add: at_level_def)
    then show ?thesis using True by (intro exI [of _ "[]"]) (simp add: level_rows_stop)
  next
    case False
    define w0 where "w0 = w\<lparr>wk_next := []\<rparr>"
    define w' where "w' = fold (walk_edge d v rel types incoming (int h + 1) frontier) (gd_edges d) w0"
    define hs where "hs = hop_edges d v types incoming frontier w0 (gd_edges d)"
    define ks where "ks = map (\<lambda>ke. (fst ke, int (Suc h))) hs"
    have dist: "distinct (map fst (gd_edges d))" using omap_wf_distinct [OF wf] by blast
    have hsE: "fst ` set hs = {k. followed d v types k \<and> near_end incoming k \<in> fresh_nodes d v types incoming start h}"
      unfolding hs_def using hop_edges_level [OF wf, of v types incoming start h frontier w0] Suc.prems
      by (simp add: at_level_def w0_def)
    obtain rest where rest: "walk_hops d v rel types incoming n (int (Suc h) + 1) (wk_next w') w' = wk_rows w' @ map (row_of_key d v rel) rest"
        "distinct (map fst rest)" "set rest = level_rows d v types incoming start (Suc h) n"
      using Suc.IH [OF at_level_next [OF wf Suc.prems]] unfolding w'_def w0_def by blast
    have "edge_row d v rel (int h + 1) ke = row_of_key d v rel (fst ke, int (Suc h))" if "ke \<in> set hs" for ke
    proof -
      have "ke \<in> set (gd_edges d)" using that unfolding hs_def hop_edges_def by simp
      then have "om_get (gd_edges d) (fst ke) = Some (snd ke)" using om_get_iff [OF wf, of "fst ke" "snd ke"] by simp
      then show ?thesis by (simp add: row_of_key_def ac_simps)
    qed
    then have rows: "wk_rows w' = wk_rows w @ map (row_of_key d v rel) ks"
      using walk_fold(1) [OF dist, of d v rel types incoming "int h + 1" frontier w0]
      unfolding w'_def [symmetric] hs_def [symmetric] ks_def by (simp add: w0_def)
    have "map fst ks = map fst hs" by (simp add: ks_def)
    then have dk: "distinct (map fst ks)" using dist unfolding hs_def hop_edges_def by (simp add: distinct_map_filter)
    have sk: "set ks = (\<lambda>k. (k, int (Suc h))) ` (fst ` set hs)" by (auto simp: ks_def)
    have "fst ` set ks \<inter> fst ` set rest = {}"
    proof -
      have "False" if k: "k \<in> fst ` set ks" "k \<in> fst ` set rest" for k
      proof -
        have "near_end incoming k \<in> fresh_nodes d v types incoming start h" using k(1) unfolding sk hsE by auto
        moreover obtain m where "Suc h \<le> m" "near_end incoming k \<in> fresh_nodes d v types incoming start m"
          using k(2) unfolding rest(3) level_rows_def by auto
        ultimately show False using fresh_disjoint by fastforce
      qed
      then show ?thesis by blast
    qed
    then have "distinct (map fst (ks @ rest))" using dk rest(2) by simp
    moreover have "set (ks @ rest) = level_rows d v types incoming start h (Suc n)"
      unfolding level_rows_Suc hsE [symmetric] set_append sk rest(3) by (rule refl)
    moreover have "walk_hops d v rel types incoming (Suc n) (int h + 1) frontier w = wk_rows w @ map (row_of_key d v rel) (ks @ rest)"
    proof -
      have "walk_hops d v rel types incoming (Suc n) (int h + 1) frontier w =
          walk_hops d v rel types incoming n (int h + 1 + 1) (wk_next w') w'"
        unfolding w'_def w0_def using False by (simp only: walk_hops.simps if_False Let_def)
      moreover have "int h + 1 + 1 = int (Suc h) + 1" by simp
      ultimately show ?thesis using rest(1) rows by (simp only: map_append append_assoc)
    qed
    ultimately show ?thesis by blast
  qed
qed

section \<open>The properties\<close>


text \<open>C36. Finding symbols by name answers, up to the limit, with exactly the symbols of that name or
  qualified name that pass the filter, that the view shows, and whose id no higher layer of the
  view shows; each id once; matches of the qualified name first, then by path and line.\<close>

theorem find_symbols_exact:
  assumes "graph_reachable d" "find_symbols d v q = Inr ss"
  shows "\<exists>full. ss = take (nat (effective_limit (sq_limit q))) full \<and> distinct (map sy_id full) \<and>
    sorted (map (\<lambda>s. (sy_qual s \<noteq> sq_name q, sy_path s, sy_start s, sy_id s, sy_layer s)) full) \<and>
    set full = {s. \<exists>r. visible_symbol d v (sy_layer s, sy_id s) = Some (s, r) \<and>
      (\<forall>l s' r'. visible_symbol d v (l, sy_id s) = Some (s', r') \<longrightarrow> view_rank v l \<le> view_rank v (sy_layer s)) \<and>
      (sy_name s = sq_name q \<or> sy_qual s = sq_name q) \<and>
      filter_match (sq_filter q) (sy_kind s) (gf_lang (fr_file r)) (sy_path s)}"
proof -
  note i = graph_inv_reachable [OF assms(1)]
  define keep where "keep = (\<lambda>(s :: symbol) (r :: file_rec). (sy_name s = sq_name q \<or> sy_qual s = sq_name q) \<and>
      filter_match (sq_filter q) (sy_kind s) (gf_lang (fr_file r)) (sy_path s))"
  define full where "full = sort_key (\<lambda>s. (sy_qual s \<noteq> sq_name q, symbol_order s)) (visible_symbols d v keep)"
  have "ss = take (nat (effective_limit (sq_limit q))) full"
    using assms(2) by (simp add: find_symbols_def limited_def full_def keep_def split: if_splits)
  moreover have "distinct (map sy_id full)"
    using visible_symbols_set(2) [OF i, of v keep] by (simp add: full_def distinct_map)
  moreover have "set full = {s. \<exists>r. shown d v s r \<and> keep s r}"
    using visible_symbols_set(1) [OF i, of v keep] by (simp add: full_def)
  moreover have "sorted (map (\<lambda>s. (sy_qual s \<noteq> sq_name q, symbol_order s)) full)" by (simp add: full_def)
  ultimately show ?thesis unfolding shown_def keep_def by blast
qed

lemma union_levels: "(\<Union>m\<in>{0..<0 + n}. (\<lambda>k. (k, int (Suc m))) ` {k. P k m}) = {(k, int (Suc m)) | k m. m < n \<and> P k m}"
  by auto

lemma level_edges:
  "followed d v types k \<and> near_end incoming k \<in> fresh_nodes d v types incoming start m \<longleftrightarrow>
     om_get (gd_edges d) k \<noteq> None \<and> fst k \<in> set types \<and> shows_edge d v k \<and>
     near_end incoming k \<in> within d v types incoming start m \<and>
     (\<forall>j < m. near_end incoming k \<notin> within d v types incoming start j)"
  unfolding followed_def fresh_nodes_def before_def by blast

lemma level_rows_eq:
  "level_rows d v types incoming start 0 n = {(k, int (Suc m)) | k m. m < n \<and>
      om_get (gd_edges d) k \<noteq> None \<and> fst k \<in> set types \<and> shows_edge d v k \<and>
      near_end incoming k \<in> within d v types incoming start m \<and>
      (\<forall>j < m. near_end incoming k \<notin> within d v types incoming start j)}"
  unfolding level_rows_def level_edges union_levels ..

text \<open>C37. The walk lists an edge once, and exactly the edges of the relation's types that the view shows and
  that leave a node first reached in fewer hops than the depth: the row of an edge carries the
  number of the hop that first reached its near end, plus one, whatever the order in which the
  edges are visited.\<close>

theorem walk_exact:
  assumes "graph_reachable d" "highest d v (nq_id q) = Some start" "relation_edges (nq_relation q) = Some (types, incoming)"
  shows "\<exists>ks. walk d v q = Some (map (\<lambda>(k, h). edge_row d v (nq_relation q) h (k, the (om_get (gd_edges d) k))) ks) \<and>
    distinct (map fst ks) \<and>
    set ks = {(k, int (Suc n)) | k n. n < nat (if nq_depth q = 0 then 1 else nq_depth q) \<and>
      om_get (gd_edges d) k \<noteq> None \<and> fst k \<in> set types \<and> shows_edge d v k \<and>
      near_end incoming k \<in> within d v types incoming start n \<and>
      (\<forall>m < n. near_end incoming k \<notin> within d v types incoming start m)}"
proof -
  define w where "w = \<lparr>wk_rows = [], wk_nodes = [start], wk_edges = [], wk_next = []\<rparr>"
  let ?n = "nat (if nq_depth q = 0 then 1 else nq_depth q)"
  have at: "at_level d v types incoming start 0 [start] w"
    by (simp add: at_level_def fresh_nodes_def w_def)
  obtain ks where ks: "walk_hops d v (nq_relation q) types incoming ?n (int 0 + 1) [start] w = wk_rows w @ map (row_of_key d v (nq_relation q)) ks"
      "distinct (map fst ks)" "set ks = level_rows d v types incoming start 0 ?n"
    using walk_hops_levels [OF graph_invD(6) [OF graph_inv_reachable [OF assms(1)]] at] by blast
  have F: "row_of_key d v (nq_relation q) = (\<lambda>(k, h). edge_row d v (nq_relation q) h (k, the (om_get (gd_edges d) k)))"
    by (auto simp: row_of_key_def)
  have "walk d v q = Some (walk_hops d v (nq_relation q) types incoming ?n (int 0 + 1) [start] w)"
    using assms(2,3) by (simp add: walk_def w_def)
  also have "\<dots> = Some (map (row_of_key d v (nq_relation q)) ks)" unfolding ks(1) by (simp add: w_def)
  finally have W: "walk d v q = Some (map (row_of_key d v (nq_relation q)) ks)" .
  show ?thesis
    by (rule exI [of _ ks], intro conjI W [unfolded F] ks(2) ks(3) [unfolded level_rows_eq])
qed

end
