(* ===== verification/Examples_Code.thy ===== *)
theory Examples_Code
  imports Job_Queue Branch_Policy Code_Filter Code_Store Graph_Store
begin

text \<open>
  A small job queue, code store and code graph, on which the properties of these components that
  have a hypothesis are applied once.
\<close>

section \<open>The job queue\<close>

definition jx_tokens :: "nat \<Rightarrow> string" where
  "jx_tokens n = replicate (Suc n) CHR ''t''"

lemma jx_fresh: "fresh_tokens jx_tokens"
proof -
  have "inj jx_tokens"
  proof (rule injI)
    fix x y
    assume "jx_tokens x = jx_tokens y"
    then have "length (jx_tokens x) = length (jx_tokens y)" by simp
    then show "x = y" by (simp add: jx_tokens_def)
  qed
  then show ?thesis by (auto simp: fresh_tokens_def jx_tokens_def)
qed

definition jx_job :: job where
  "jx_job =
     \<lparr>jb_id = '''', jb_kind = ''import'', jb_installation = 7, jb_repository = 3, jb_ref = ''main'', jb_delivery = None,
      jb_attempts = 0, jb_enqueued = 0, jb_not_before = 0, jb_last_error = ''''\<rparr>"

definition jx_new :: job_world where
  "jx_new = \<lparr>jw_jobs = new_mem_jobs jx_tokens, jw_now = 100, jw_done = [], jw_leases = []\<rparr>"

definition jx_queued :: job_world where
  "jx_queued = jx_new\<lparr>jw_jobs := fst (enqueue False 100 jx_job (jw_jobs jx_new))\<rparr>"

definition jx_claimed :: job_world where
  "jx_claimed =
     (let c = claim_job False 100 60 (jw_jobs jx_queued)
      in jx_queued\<lparr>jw_jobs := fst c, jw_leases := given_leases (snd c) (jw_leases jx_queued)\<rparr>)"

lemma jx_queued_reachable: "job_reachable jx_queued"
proof -
  have "job_reachable jx_new" unfolding jx_new_def by (rule job_reachable.start [OF jx_fresh])
  moreover have "job_step jx_new (jx_new\<lparr>jw_jobs := fst (enqueue False (jw_now jx_new) jx_job (jw_jobs jx_new))\<rparr>)"
    by (rule job_step.enqueue [OF surjective_pairing])
  ultimately show ?thesis unfolding jx_queued_def by (auto intro: job_reachable.step simp: jx_new_def)
qed

lemma jx_claimed_reachable: "job_reachable jx_claimed"
proof -
  have "jw_now jx_queued = 100" by (simp add: jx_queued_def jx_new_def)
  then have "job_step jx_queued jx_claimed"
    unfolding jx_claimed_def Let_def using job_step.claim [where c = False and w = jx_queued and d = 60, OF surjective_pairing] by simp
  then show ?thesis by (rule job_reachable.step [OF jx_queued_reachable])
qed

definition jx_lease :: worker_lease where
  "jx_lease = \<lparr>wl_job = jx_job\<lparr>jb_id := ''job_1'', jb_enqueued := 100\<rparr>, wl_token = ''t'', wl_until = 160\<rparr>"

lemma jx_run:
  "snd (claim_job False 100 60 (jw_jobs jx_queued)) = Inr jx_lease"
  "jw_leases jx_claimed = [jx_lease]" "find_lease 130 jx_lease (jw_jobs jx_claimed) = Some 0"
  by code_simp+

theorem jobs_accounted_witness:
  "mset (map qid (mj_queue (jw_jobs jx_claimed))) + mset (map jb_id (mj_dead (jw_jobs jx_claimed))) + mset (jw_done jx_claimed) =
     mset (map job_name [1..<Suc (mj_seq (jw_jobs jx_claimed))]) \<and> mj_seq (jw_jobs jx_claimed) = 1"
proof
  show "mj_seq (jw_jobs jx_claimed) = 1" by code_simp
qed (rule jobs_accounted [OF jx_claimed_reachable, THEN conjunct1])

theorem one_worker_per_key_witness:
  "jb_id (wl_job jx_lease) = jb_id (wl_job jx_lease) \<and> wl_token jx_lease = wl_token jx_lease \<and> jx_lease \<in> set (jw_leases jx_claimed)"
  using one_worker_per_key [OF jx_claimed_reachable, of jx_lease jx_lease 130] by (simp add: jx_run)

theorem claim_in_order_witness:
  "wl_token jx_lease \<notin> wl_token ` set (jw_leases jx_queued) \<and>
   (\<exists>xs q ys. mj_queue (fst (claim_job False 100 60 (jw_jobs jx_queued))) = xs @ q # ys \<and> mq_job q = wl_job jx_lease \<and>
      qkey q \<notin> qkey ` set xs)"
proof -
  have now: "jw_now jx_queued = 100" by (simp add: jx_queued_def jx_new_def)
  have c: "claim_job False (jw_now jx_queued) 60 (jw_jobs jx_queued) =
      (fst (claim_job False 100 60 (jw_jobs jx_queued)), Inr jx_lease)"
    unfolding now jx_run(1) [symmetric] by simp
  show ?thesis using claim_in_order [OF jx_queued_reachable c] by auto
qed

section \<open>Branches and files\<close>

definition bx_branches :: "branch list" where
  "bx_branches =
     [\<lparr>br_name = ''main'', br_last_push = 0, br_open_pr = False\<rparr>, \<lparr>br_name = ''old'', br_last_push = 1, br_open_pr = False\<rparr>,
      \<lparr>br_name = ''new'', br_last_push = 2, br_open_pr = True\<rparr>]"

theorem select_branches_splits_witness:
  "policy_ok default_branch_policy \<and>
   (\<exists>act inact. mset act + mset inact = mset (filter (\<lambda>b. br_name b \<noteq> ''main'') bx_branches) \<and>
      se_active (select_branches default_branch_policy ''main'' bx_branches 5) = ''main'' # sort (map br_name act))"
proof -
  have ok: "policy_ok default_branch_policy" by code_simp
  show ?thesis using ok select_branches_splits [OF ok, of "''main''" bx_branches 5] by auto
qed

theorem is_text_prefix_witness: "is_text (take 2 ''text'') True"
proof -
  have "is_text ''text'' False" by code_simp
  then show ?thesis by (rule is_text_prefix)
qed

section \<open>The code store\<close>

definition cx_sha :: "string \<Rightarrow> string" where
  "cx_sha s = replicate 64 CHR ''a''"

definition cx_blob :: blob where
  "cx_blob = \<lparr>bl_sha = replicate 64 CHR ''a'', bl_size = 2, bl_content = ''hi''\<rparr>"

definition cx_worktree :: worktree where
  "cx_worktree =
     \<lparr>wt_id = ''wt_0123456789abcdef'', wt_owner = ''u1'', wt_source = ''client'', wt_root = ''/r'', wt_host = ''h'',
      wt_origin = '''', wt_default_branch = ''main'', wt_refs = [''main''], wt_sessions = [], wt_removed = False, wt_updated = 0\<rparr>"

definition cx_change :: change where
  "cx_change =
     \<lparr>ch_seq = 0, ch_owner = ''u1'', ch_worktree = ''wt_0123456789abcdef'', ch_ref = ''main'', ch_head = '''', ch_upstream = '''',
      ch_ahead = 0, ch_session = ''s1'',
      ch_upserts = [\<lparr>en_path = ''a.go'', en_sha = replicate 64 CHR ''a'', en_size = 2, en_mode = ''100644'', en_lang = ''go'',
                      en_git_oid = '''', en_dirty = True, en_unpushed = True, en_session = ''s1''\<rparr>],
      ch_deletes = [''b.go''], ch_full = False, ch_at = 0\<rparr>"

definition cx_ready :: code_store where
  "cx_ready = fst (put_worktree 1 cx_worktree (fst (put_blob cx_sha cx_blob new_code_store)))"

definition cx_store :: code_store where
  "cx_store = fst (commit 2 cx_change cx_ready)"

lemma cx_ready_reachable: "code_reachable cx_sha cx_ready"
  unfolding cx_ready_def
  by (intro code_reachable.step [OF _ code_step.put_worktree] code_reachable.step [OF _ code_step.put_blob] code_reachable.new)

lemma cx_store_reachable: "code_reachable cx_sha cx_store"
  unfolding cx_store_def by (rule code_reachable.step [OF cx_ready_reachable code_step.commit])

lemma cx_run:
  "snd (commit 2 cx_change cx_ready) = Inr 1" "length (cs_log cx_store) = 1" "length (cs_blobs cx_store) = 1"
  by code_simp+

theorem log_replay_witness:
  "fold apply_change (cs_log cx_store) [] = cs_trees cx_store \<and> length (cs_log cx_store) = 1"
  using log_replay [OF cx_store_reachable] by (simp add: cx_run)

theorem code_store_sound_witness:
  "blob_usage cx_store = (1, (\<Sum>(h, b) \<leftarrow> cs_blobs cx_store. int (length b)))"
  using code_store_sound [OF cx_store_reachable] by (simp add: cx_run)

theorem changes_after_exact_witness:
  "changes_after 0 10 cx_store = take 10 (filter (\<lambda>c. 0 < ch_seq c) (cs_log cx_store))"
  using changes_after_exact [OF cx_store_reachable, of 0 10] by simp

theorem commit_exact_witness:
  "\<exists>s2. commit 3 cx_change cx_store = (s2, Inr 2) \<and> cs_trees s2 = cs_trees cx_store"
proof -
  have "commit 2 cx_change cx_ready = (cx_store, Inr 1)"
    unfolding cx_store_def cx_run(1) [symmetric] by simp
  from commit_exact [OF cx_ready_reachable this, of 3] show ?thesis by simp
qed

section \<open>The code graph\<close>

definition gx_symbol :: "string \<Rightarrow> string \<Rightarrow> int \<Rightarrow> symbol" where
  "gx_symbol i par line =
     \<lparr>sy_layer = ''base'', sy_id = i, sy_kind = ''function'', sy_name = i, sy_qual = i, sy_signature = '''', sy_doc = '''',
      sy_path = ''a.go'', sy_start = line, sy_end = line, sy_exported = True, sy_parent = par\<rparr>"

definition gx_symbols :: "symbol list" where
  "gx_symbols = [gx_symbol ''f'' ''t'' 3, gx_symbol ''t'' '''' 1]"

definition gx_facts :: file_facts where
  "gx_facts =
     \<lparr>ff_file = \<lparr>gf_layer = ''base'', gf_path = ''a.go'', gf_sha = '''', gf_git_oid = '''', gf_lang = ''go'', gf_package = ''p'',
                   gf_hidden = None, gf_deleted = False, gf_parse_error = False\<rparr>,
      ff_package_kind = ''package'', ff_imports = [\<lparr>im_package = ''fmt'', im_kind = '''', im_alias = ''''\<rparr>],
      ff_symbols = gx_symbols,
      ff_chunks = [\<lparr>ck_layer = ''base'', ck_id = ''c'', ck_kind = ''function'', ck_symbol = ''f'', ck_path = ''a.go'',
                     ck_start = 3, ck_end = 3, ck_hash = ''''\<rparr>]\<rparr>"

definition gx_edge :: graph_edge where
  "gx_edge =
     \<lparr>ge_type = ''CALLS'', ge_layer = ''base'', ge_from = (''base'', ''f''), ge_to = (''base'', ''t''),
      ge_confidence = ''exact'', ge_count = 1, ge_line = 3\<rparr>"

definition gx_graph :: graph_data where
  "gx_graph =
     fst (put_edges ''base'' [(''base'', ''f'')] [gx_edge] (fst (apply_file gx_facts (fst (put_layer
       \<lparr>ly_id = ''base'', ly_kind = ''base'', ly_parent = '''', ly_owner = '''', ly_ref = '''', ly_commit = '''', ly_updated = 0\<rparr> new_graph)))))"

lemma gx_reachable: "graph_reachable gx_graph"
  unfolding gx_graph_def
  by (intro graph_reachable.step [OF _ graph_step.put_edges] graph_reachable.step [OF _ graph_step.apply_file]
      graph_reachable.step [OF _ graph_step.put_layer] graph_reachable.new)

lemma gx_run: "om_get (gd_edges gx_graph) (edge_key_of gx_edge) = Some gx_edge"
  by code_simp

theorem outline_complete_witness: "set (forest_symbols (outline_of gx_symbols)) = set gx_symbols"
proof -
  have "distinct (map sy_id gx_symbols)" "'''' \<notin> sy_id ` set gx_symbols" by code_simp+
  moreover have "(if sy_parent s = ''f'' then 1 else 0) < (if sy_id s = ''f'' then 1 else 0 :: nat)"
    if "s \<in> set gx_symbols" "sy_parent s \<in> sy_id ` set gx_symbols" for s
    using that by (auto simp: gx_symbols_def gx_symbol_def)
  ultimately show ?thesis using outline_complete [of gx_symbols "\<lambda>i. if i = ''f'' then 1 else 0"] by blast
qed


definition gx_query :: symbol_query where
  "gx_query = \<lparr>sq_name = ''f'', sq_filter = \<lparr>sf_kinds = [], sf_langs = [], sf_paths = []\<rparr>, sq_limit = 0\<rparr>"

lemma gx_find: "find_symbols gx_graph [''base''] gx_query = Inr [gx_symbol ''f'' ''t'' 3]"
  by code_simp

theorem find_symbols_exact_witness:
  "\<exists>full. [gx_symbol ''f'' ''t'' 3] = take 50 full \<and> distinct (map sy_id full)"
  using find_symbols_exact [OF gx_reachable gx_find] by (auto simp: gx_query_def effective_limit_def)

definition gx_walk :: neighbor_query where
  "gx_walk = \<lparr>nq_id = ''f'', nq_path = '''', nq_package = '''', nq_relation = ''callees'', nq_depth = 2, nq_limit = 0\<rparr>"

theorem walk_exact_witness:
  "\<exists>rows. walk gx_graph [''base''] gx_walk = Some rows \<and> rows \<noteq> []"
proof -
  have h: "highest gx_graph [''base''] (nq_id gx_walk) = Some (''base'', ''f'')" by code_simp
  have r: "relation_edges (nq_relation gx_walk) = Some ([''CALLS''], False)" by code_simp
  have s: "shows_edge gx_graph [''base''] (edge_key_of gx_edge)" by code_simp
  obtain ks where "walk gx_graph [''base''] gx_walk =
      Some (map (\<lambda>(k, h). edge_row gx_graph [''base''] (nq_relation gx_walk) h (k, the (om_get (gd_edges gx_graph) k))) ks)"
      "(edge_key_of gx_edge, int (Suc 0)) \<in> set ks"
    using walk_exact [OF gx_reachable h r] s gx_run
    by (fastforce simp: gx_walk_def edge_key_of_def gx_edge_def near_end_def)
  then show ?thesis by auto
qed

end
