(* ===== verification/Projects.thy ===== *)
theory Projects
  imports Go_Path Kind_Config Kinds
begin

text \<open>
  The projects of the server (\<open>server/projects/projects.go\<close>): a project is named by the slug of
  its repository's origin, and the storage definitions of the server are stamped with the slug, so
  that the documents of two projects do not meet. The URL parser of Go's library is the argument
  \<open>up\<close>: the host and the path of a URL, or nothing when it does not parse.

  The slug of an origin is always acceptable as a slug, the three forms in which git writes a
  remote agree, and stamping keeps two projects apart in files and collections; in SQL tables it
  does so only when their slugs differ in more than dots, dashes and underscores.
\<close>

section \<open>Slugs\<close>

definition max_slug_len :: nat where
  "max_slug_len = 200"

definition slug_junk :: "char \<Rightarrow> bool" where
  "slug_junk c \<longleftrightarrow> \<not> (is_lower_alnum c \<or> c \<in> set ''._-'')"

definition project_slug_re :: "string \<Rightarrow> bool" where
  "project_slug_re s \<longleftrightarrow> (case s of [] \<Rightarrow> False | c # _ \<Rightarrow> is_lower_alnum c \<and> list_all (\<lambda>x. \<not> slug_junk x) s)"

definition valid_slug :: "string \<Rightarrow> bool" where
  "valid_slug s \<longleftrightarrow>
     \<not> (s = '''' \<or> max_slug_len < length s) \<and>
     \<not> (\<not> project_slug_re s \<or> str_contains s ''..'') \<and>
     is_local s \<and> \<not> contains_any s [CHR ''/'', CHR 0x5C]"

text \<open>\<open>strings.Cut\<close> at a text.\<close>

fun cut_text :: "string \<Rightarrow> string \<Rightarrow> (string \<times> string) option" where
  "cut_text sep s =
     (case strip_prefix sep s of
        Some r \<Rightarrow> Some ('''', r)
      | None \<Rightarrow> (case s of [] \<Rightarrow> None | c # s' \<Rightarrow> map_option (\<lambda>(a, b). (c # a, b)) (cut_text sep s')))"

declare cut_text.simps [simp del]

definition split_origin :: "(string \<Rightarrow> (string \<times> string) option) \<Rightarrow> string \<Rightarrow> string \<times> string" where
  "split_origin up origin =
     (case cut_text ''://'' origin of
        Some (a # as, rest) \<Rightarrow> (case up origin of Some hp \<Rightarrow> hp | None \<Rightarrow> ('''', rest))
      | _ \<Rightarrow>
          (case cut_first CHR '':'' origin of
             Some (a # as, rest) \<Rightarrow>
               if CHR ''/'' \<in> set (a # as) then ('''', origin)
               else (case cut_last CHR ''@'' (a # as) of
                       Some (_, host) \<Rightarrow> (host, rest)
                     | None \<Rightarrow> (a # as, rest))
           | _ \<Rightarrow> ('''', origin)))"

definition trim_chars :: "string \<Rightarrow> string \<Rightarrow> string" where
  "trim_chars s cs = trim_right (trim_left s cs) cs"

definition trim_suffix :: "string \<Rightarrow> string \<Rightarrow> string" where
  "trim_suffix s p = (if has_suffix s p then take (length s - length p) s else s)"

text \<open>Every run of junk becomes one dash (\<open>slugJunkRe.ReplaceAllString\<close>).\<close>

fun dash_junk :: "bool \<Rightarrow> string \<Rightarrow> string" where
  "dash_junk inrun [] = []"
| "dash_junk inrun (c # s) =
     (if slug_junk c then (if inrun then dash_junk True s else CHR ''-'' # dash_junk True s)
      else c # dash_junk False s)"

fun halve_dots :: "string \<Rightarrow> string" where
  "halve_dots [] = []"
| "halve_dots [c] = [c]"
| "halve_dots (c # d # s) =
     (if c = CHR ''.'' \<and> d = CHR ''.'' then c # halve_dots s else c # halve_dots (d # s))"

lemma length_halve_dots: "length (halve_dots s) \<le> length s"
  by (induction s rule: halve_dots.induct) auto

lemma halve_dots_shorter: "str_contains s ''..'' \<Longrightarrow> length (halve_dots s) < length s"
proof (induction s rule: halve_dots.induct)
  case (3 c d s)
  show ?case
  proof (cases "c = CHR ''.'' \<and> d = CHR ''.''")
    case True
    then show ?thesis using length_halve_dots [of s] by simp
  next
    case False
    obtain a b where ab: "c # d # s = a @ ''..'' @ b" using "3.prems" by (auto simp: str_contains_iff)
    then obtain a' where "a = c # a'" using False by (cases a) auto
    then have "str_contains (d # s) ''..''" using ab by (auto simp: str_contains_iff)
    then show ?thesis using False "3.IH"(2) by auto
  qed
qed (auto simp: str_contains_iff Cons_eq_append_conv)

text \<open>The loop that shortens runs of dots until none is left.\<close>

function squeeze_dots :: "string \<Rightarrow> string" where
  "squeeze_dots s = (if str_contains s ''..'' then squeeze_dots (halve_dots s) else s)"
  by auto

termination by (relation "measure length") (auto simp: halve_dots_shorter)

declare squeeze_dots.simps [simp del]

definition origin_host :: "string \<Rightarrow> string" where
  "origin_host host0 =
     (let host1 = to_lower host0;
          host2 = (case cut_last CHR '':'' host1 of
                     Some (h, _) \<Rightarrow> if CHR '']'' \<in> set host1 then host1 else h
                   | None \<Rightarrow> host1)
      in trim_chars host2 ''[]'')"

definition origin_path :: "string \<Rightarrow> string" where
  "origin_path path0 =
     (let path1 = map (\<lambda>c. if c = CHR 0x5C then CHR ''/'' else c) (to_lower path0)
      in trim_chars (trim_suffix (trim_chars path1 ''/'') ''.git'') ''/'')"

definition slug_parts :: "string \<Rightarrow> string \<Rightarrow> string list" where
  "slug_parts host path =
     (if host \<noteq> '''' then [host] else []) @
     filter (\<lambda>p. p \<noteq> '''' \<and> p \<noteq> ''.'' \<and> p \<noteq> ''..'') (split_on CHR ''/'' path)"

definition clip_slug :: "string \<Rightarrow> string" where
  "clip_slug s = (if max_slug_len < length s then trim_right (take max_slug_len s) ''._-'' else s)"

definition project_slug :: "(string \<Rightarrow> (string \<times> string) option) \<Rightarrow> string \<Rightarrow> string" where
  "project_slug up origin0 =
     (let origin = trim_space origin0
      in if origin = '''' then ''''
         else
           (let (host, path) = split_origin up origin;
                s = join_with ''__'' (slug_parts (origin_host host) (origin_path path))
            in clip_slug (squeeze_dots (trim_chars (dash_junk False s) ''._-''))))"

section \<open>Stamping\<close>

definition sql_kinds :: "string list" where
  "sql_kinds = [''sqlite'', ''sqlite3'', ''postgres'', ''postgresql'', ''pgx'', ''mysql'', ''mariadb'', ''clickhouse'']"

definition opt_of :: "(string, string) omap \<Rightarrow> string \<Rightarrow> string" where
  "opt_of m k = (case om_get m k of None \<Rightarrow> '''' | Some v \<Rightarrow> v)"

text \<open>\<open>filepath.Join\<close> of two parts; empty parts are left out.\<close>

definition join_pair :: "string \<Rightarrow> string \<Rightarrow> string" where
  "join_pair a b =
     (if a = '''' then (if b = '''' then '''' else path_clean b)
      else path_clean (if b = '''' then a else a @ ''/'' @ b))"

text \<open>The replacer of dots and dashes, then the runs of what is left outside the identifier alphabet.\<close>

definition sql_char :: "char \<Rightarrow> bool" where
  "sql_char c \<longleftrightarrow> is_lower_alnum (lower_char c) \<or> c = CHR ''_''"

fun underscore_junk :: "bool \<Rightarrow> string \<Rightarrow> string" where
  "underscore_junk inrun [] = []"
| "underscore_junk inrun (c # s) =
     (if sql_char c then c # underscore_junk False s
      else if inrun then underscore_junk True s else CHR ''_'' # underscore_junk True s)"

definition sql_name :: "string \<Rightarrow> string" where
  "sql_name project =
     underscore_junk False (map (\<lambda>c. if c = CHR ''.'' \<or> c = CHR ''-'' then CHR ''_'' else c) project)"

definition sql_prefix :: "string \<Rightarrow> string \<Rightarrow> string" where
  "sql_prefix configured project =
     (let prefix = configured @ sql_name project @ ''_''
      in if is_digit (hd prefix) then CHR ''_'' # prefix else prefix)"

definition file_root :: "storage_def \<Rightarrow> (string, string) omap \<Rightarrow> string" where
  "file_root def dirs =
     (let root = opt_of (sd_options def) ''dir''
      in if root \<noteq> '''' then root
         else
           (let plans = opt_of (sd_options def) ''plansDir'';
                plans1 = (if plans = '''' then opt_of dirs (k_name plan_kind) else plans);
                plans2 = (if plans1 = '''' then k_default_dir plan_kind else plans1)
            in path_dir (path_clean plans2)))"

datatype stamp_error = InvalidProject | CannotNamespace

definition stamp :: "storage_def \<Rightarrow> (string, string) omap \<Rightarrow> string \<Rightarrow> stamp_error + storage_def" where
  "stamp def dirs project =
     (if \<not> valid_slug project then Inl InvalidProject
      else
        (let k = to_lower (sd_kind def); opts = sd_options def
         in if k = ''file'' then
              (let base = join_pair (file_root def dirs) (path_clean project);
                   opts1 = om_put ''dir'' base opts
               in Inr (def\<lparr>sd_options :=
                    fold (\<lambda>kk. om_put (k_plural kk @ ''Dir'') (join_pair base (k_plural kk))) [plan_kind, story_kind] opts1\<rparr>))
            else if k \<in> set sql_kinds then
              Inr (def\<lparr>sd_options := om_put ''tablePrefix'' (sql_prefix (opt_of opts ''tablePrefix'') project) opts\<rparr>)
            else if k = ''mongodb'' \<or> k = ''mongo'' \<or> k = ''firestore'' then
              Inr (def\<lparr>sd_options := om_put ''collection'' (opt_of opts ''collection'' @ project @ ''_'') opts\<rparr>)
            else if k = ''memory'' then Inr def
            else Inl CannotNamespace))"

section \<open>What a slug is\<close>

lemma slug_junk_chars [simp]: "slug_junk CHR ''/''" "slug_junk CHR 0x5C" "\<not> slug_junk CHR ''-''" "\<not> slug_junk CHR ''.''"
  by (simp_all add: slug_junk_def is_lower_alnum_def is_digit_def)

lemma is_lower_alnum_not_mark: "is_lower_alnum c \<Longrightarrow> c \<notin> set ''._-''"
  by (auto simp: is_lower_alnum_def is_digit_def)

lemma dash_junk_clean: "list_all (\<lambda>c. \<not> slug_junk c) (dash_junk r s)"
  by (induction r s rule: dash_junk.induct) auto

lemma trim_left_split: "\<exists>a. s = a @ trim_left s cs" "trim_left s cs = [] \<or> hd (trim_left s cs) \<notin> set cs"
  unfolding trim_left_def by (metis takeWhile_dropWhile_id, metis hd_dropWhile)

lemma trim_right_split: "\<exists>b. s = trim_right s cs @ b"
  unfolding trim_right_def by (metis rev_append rev_rev_ident takeWhile_dropWhile_id)

lemma trim_right_hd: "hd s \<notin> set cs \<Longrightarrow> s \<noteq> [] \<Longrightarrow> trim_right s cs \<noteq> [] \<and> hd (trim_right s cs) = hd s"
proof -
  assume s: "hd s \<notin> set cs" "s \<noteq> []"
  then have "hd s \<in> set (rev s) \<and> hd s \<notin> set cs" by simp
  then have "trim_right s cs \<noteq> []" unfolding trim_right_def by (metis Nil_is_rev_conv dropWhile_eq_Nil_conv)
  then show ?thesis using trim_right_split [of s cs] by (metis hd_append2)
qed

lemma trim_chars_props:
  "set (trim_chars s cs) \<subseteq> set s" "trim_chars s cs = [] \<or> hd (trim_chars s cs) \<notin> set cs"
proof -
  obtain a b where ab: "s = a @ trim_left s cs" "trim_left s cs = trim_chars s cs @ b"
    using trim_left_split(1) trim_right_split unfolding trim_chars_def by metis
  show "set (trim_chars s cs) \<subseteq> set s" using ab by (metis set_append sup_ge1 sup_ge2 order_trans)
  show "trim_chars s cs = [] \<or> hd (trim_chars s cs) \<notin> set cs"
    using trim_left_split(2) [of s cs] ab(2) by (metis append_is_Nil_conv hd_append2)
qed

lemma halve_dots_props: "set (halve_dots s) \<subseteq> set s" "s \<noteq> [] \<Longrightarrow> halve_dots s \<noteq> [] \<and> hd (halve_dots s) = hd s"
  by (induction s rule: halve_dots.induct) auto

lemma squeeze_dots_props:
  "set (squeeze_dots s) \<subseteq> set s" "s \<noteq> [] \<Longrightarrow> squeeze_dots s \<noteq> [] \<and> hd (squeeze_dots s) = hd s"
  "\<not> str_contains (squeeze_dots s) ''..''"
proof (induction s rule: squeeze_dots.induct)
  case (1 s)
  {
    case 1
    then show ?case using "1.IH"(1) halve_dots_props(1) [of s] by (subst squeeze_dots.simps) auto
  next
    case 2
    then show ?case using "1.IH"(2) halve_dots_props(2) [of s] by (subst (1 2) squeeze_dots.simps) auto
  next
    case 3
    then show ?case using "1.IH"(3) by (subst squeeze_dots.simps) auto
  }
qed

lemma squeeze_dots_Nil [simp]: "squeeze_dots [] = []"
  by (subst squeeze_dots.simps) (simp add: str_contains_def has_prefix_def)

lemma str_contains_prefix: "str_contains s t \<Longrightarrow> str_contains (s @ r) t"
  unfolding str_contains_iff by (metis append.assoc)

lemma clip_slug_props:
  assumes "s \<noteq> []" "hd s \<notin> set ''._-''"
  shows "clip_slug s \<noteq> []" "hd (clip_slug s) = hd s" "length (clip_slug s) \<le> max_slug_len" "\<exists>r. s = clip_slug s @ r"
proof -
  let ?t = "take max_slug_len s"
  have t: "?t \<noteq> []" "hd ?t = hd s" using assms(1) by (auto simp: max_slug_len_def)
  obtain b where b: "?t = trim_right ?t ''._-'' @ b" using trim_right_split by blast
  have h: "trim_right ?t ''._-'' \<noteq> [] \<and> hd (trim_right ?t ''._-'') = hd s"
    using trim_right_hd [of ?t "''._-''"] t assms(2) by simp
  have l: "length (trim_right ?t ''._-'') \<le> length ?t" by (subst (2) b) simp
  have s: "s = trim_right ?t ''._-'' @ b @ drop max_slug_len s" by (metis append.assoc append_take_drop_id b)
  show "clip_slug s \<noteq> []" "hd (clip_slug s) = hd s" using h assms by (auto simp: clip_slug_def)
  show "length (clip_slug s) \<le> max_slug_len" using l by (simp add: clip_slug_def)
  show "\<exists>r. s = clip_slug s @ r" using s by (auto simp: clip_slug_def)
qed

lemma valid_slugI:
  assumes "s \<noteq> []" "is_lower_alnum (hd s)" "list_all (\<lambda>c. \<not> slug_junk c) s" "length s \<le> max_slug_len" "\<not> str_contains s ''..''"
  shows "valid_slug s"
proof -
  have c: "CHR ''/'' \<notin> set s" "CHR 0x5C \<notin> set s" using assms(3) slug_junk_chars by (auto simp: list_all_iff)
  have h: "hd s \<noteq> CHR ''/''" "hd s \<noteq> CHR ''.''" using assms(2) by (auto simp: is_lower_alnum_def is_digit_def)
  have local: "is_local s"
    using assms(1) c h by (cases s) (auto simp: is_local_def is_abs_def has_prefix_def)
  show ?thesis
    using assms c local by (cases s) (auto simp: valid_slug_def project_slug_re_def contains_any_def list_ex_iff)
qed

text \<open>C20. Whatever the origin, its slug is either empty or one that the server accepts: it starts with a
  letter or a digit, is at most 200 bytes long, has no separator and no two dots in a row.\<close>

theorem project_slug_valid: "project_slug up origin = '''' \<or> valid_slug (project_slug up origin)"
proof (cases "trim_space origin = ''''")
  case False
  obtain host path where hp: "split_origin up (trim_space origin) = (host, path)" by (rule prod.exhaust)
  define s where "s = dash_junk False (join_with ''__'' (slug_parts (origin_host host) (origin_path path)))"
  define t where "t = trim_chars s ''._-''"
  have slug: "project_slug up origin = clip_slug (squeeze_dots t)"
    using False hp by (simp add: project_slug_def s_def t_def)
  have clean: "list_all (\<lambda>c. \<not> slug_junk c) t"
  proof -
    have "list_all (\<lambda>c. \<not> slug_junk c) s" unfolding s_def by (rule dash_junk_clean)
    moreover have "set t \<subseteq> set s" unfolding t_def by (rule trim_chars_props)
    ultimately show ?thesis unfolding list_all_iff by blast
  qed
  show ?thesis
  proof (cases "t = []")
    case True
    then show ?thesis using slug by (simp add: clip_slug_def)
  next
    case t: False
    have ht: "hd t \<notin> set ''._-''" using trim_chars_props(2) [of s "''._-''"] t unfolding t_def by blast
    then have alnum: "is_lower_alnum (hd t)" using clean t by (cases t) (auto simp: slug_junk_def)
    note q = squeeze_dots_props(2) [OF t]
    have hq: "hd (squeeze_dots t) \<notin> set ''._-''" using q ht by simp
    note c = clip_slug_props [OF conjunct1 [OF q] hq]
    obtain r where r: "squeeze_dots t = clip_slug (squeeze_dots t) @ r" using c(4) by blast
    have "valid_slug (clip_slug (squeeze_dots t))"
    proof (rule valid_slugI)
      show "clip_slug (squeeze_dots t) \<noteq> []" "length (clip_slug (squeeze_dots t)) \<le> max_slug_len" using c by blast+
      show "is_lower_alnum (hd (clip_slug (squeeze_dots t)))" using c(2) q alnum by simp
      have "set (clip_slug (squeeze_dots t)) \<subseteq> set (squeeze_dots t)" by (subst (2) r) simp
      then show "list_all (\<lambda>c. \<not> slug_junk c) (clip_slug (squeeze_dots t))"
        using squeeze_dots_props(1) [of t] clean unfolding list_all_iff by blast
      show "\<not> str_contains (clip_slug (squeeze_dots t)) ''..''"
        using squeeze_dots_props(3) [of t] str_contains_prefix [of "clip_slug (squeeze_dots t)" "''..''" r] r by argo
    qed
    then show ?thesis using slug by simp
  qed
qed (simp add: project_slug_def)

section \<open>The forms of a remote\<close>

lemma cut_text_here: "strip_prefix sep s = Some r \<Longrightarrow> cut_text sep s = Some ('''', r)"
  by (subst cut_text.simps) simp

lemma cut_text_past:
  "strip_prefix sep (c # s) = None \<Longrightarrow> cut_text sep (c # s) = map_option (\<lambda>(a, b). (c # a, b)) (cut_text sep s)"
  by (subst cut_text.simps) simp

lemma cut_text_None: "\<not> str_contains s sep \<Longrightarrow> cut_text sep s = None"
proof (induction s)
  case Nil
  then show ?case by (subst cut_text.simps) (auto simp: strip_prefix_iff str_contains_iff split: option.splits)
next
  case (Cons c s)
  have "strip_prefix sep (c # s) = None"
    using Cons.prems by (metis append_Nil not_Some_eq str_contains_iff strip_prefix_iff)
  moreover have "\<not> str_contains s sep" using Cons.prems by (metis append_Cons str_contains_iff)
  ultimately show ?case using Cons.IH by (simp add: cut_text_past)
qed

lemma cut_text_scheme: "CHR '':'' \<notin> set a \<Longrightarrow> cut_text ''://'' (a @ ''://'' @ r) = Some (a, r)"
proof (induction a)
  case Nil
  then show ?case by (simp add: cut_text_here)
next
  case (Cons c a)
  then show ?case by (simp add: cut_text_past)
qed

text \<open>The user and the port do not matter, nor the slash before the path and the suffix after it.\<close>

lemma lower_char_keeps: "lower_char c = d \<Longrightarrow> \<not> (97 \<le> (of_char d :: nat) \<and> (of_char d :: nat) \<le> 122) \<Longrightarrow> c = d"
proof (cases "CHR ''A'' \<le> c \<and> c \<le> CHR ''Z''")
  case True
  then have b: "65 \<le> (of_char c :: nat)" "(of_char c :: nat) \<le> 90" by (auto simp: less_eq_char_def)
  then have "(of_char (lower_char c) :: nat) = of_char c + 32" using True by (simp add: lower_char_def)
  then show "lower_char c = d \<Longrightarrow> \<not> (97 \<le> (of_char d :: nat) \<and> (of_char d :: nat) \<le> 122) \<Longrightarrow> c = d" using b by auto
qed (auto simp: lower_char_def)

lemma lower_notin: "d \<notin> set s \<Longrightarrow> \<not> (97 \<le> (of_char d :: nat) \<and> (of_char d :: nat) \<le> 122) \<Longrightarrow> d \<notin> set (to_lower s)"
  using lower_char_keeps unfolding to_lower_def by (metis imageE list.set_map)

lemma origin_host_port:
  assumes "CHR '':'' \<notin> set h" "CHR '']'' \<notin> set h" "CHR '':'' \<notin> set port" "CHR '']'' \<notin> set port"
  shows "origin_host (h @ '':'' @ port) = origin_host h"
proof -
  have n: "CHR '':'' \<notin> set (to_lower s)" if "CHR '':'' \<notin> set s" for s
    using lower_notin [OF that] by simp
  have m: "CHR '']'' \<notin> set (to_lower s)" if "CHR '']'' \<notin> set s" for s
    using lower_notin [OF that] by simp
  have "to_lower (h @ '':'' @ port) = to_lower h @ CHR '':'' # to_lower port"
    by (simp add: to_lower_def lower_char_def)
  then show ?thesis
    using n [OF assms(1)] n [OF assms(3)] m [OF assms(2)] m [OF assms(4)]
    by (simp add: origin_host_def cut_last_append cut_last_none)
qed

lemma trim_chars_slash: "trim_chars (CHR ''/'' # s) ''/'' = trim_chars s ''/''"
  by (simp add: trim_chars_def trim_left_def)

lemma trim_right_keeps: "s = [] \<or> last s \<notin> set cs \<Longrightarrow> trim_right s cs = s"
  by (cases s rule: rev_cases) (auto simp: trim_right_def)

lemma origin_path_slash: "origin_path (CHR ''/'' # p) = origin_path p"
proof -
  have "map (\<lambda>c. if c = CHR 0x5C then CHR ''/'' else c) (to_lower (CHR ''/'' # p)) =
      CHR ''/'' # map (\<lambda>c. if c = CHR 0x5C then CHR ''/'' else c) (to_lower p)"
    by (simp add: to_lower_def lower_char_def)
  then show ?thesis by (simp only: origin_path_def Let_def trim_chars_slash)
qed

lemma origin_path_git:
  assumes "p \<noteq> []" "hd p \<noteq> CHR ''/''" "hd p \<noteq> CHR 0x5C" "last p \<noteq> CHR ''/''" "last p \<noteq> CHR 0x5C" "\<not> has_suffix (to_lower p) ''.git''"
  shows "origin_path (p @ ''.git'') = origin_path p"
proof -
  define f where "f = (\<lambda>c. if c = CHR 0x5C then CHR ''/'' else c :: char)"
  define q where "q = map f (to_lower p)"
  have fl: "map f (to_lower (p @ ''.git'')) = q @ ''.git''"
    by (simp add: q_def f_def to_lower_def lower_char_def)
  have ne: "q \<noteq> []" using assms(1) by (simp add: q_def to_lower_def)
  have hd: "hd q \<noteq> CHR ''/''"
    using assms(1-3) lower_char_keeps [of "hd p" "CHR ''/''"] lower_char_keeps [of "hd p" "CHR 0x5C"]
    by (auto simp: q_def f_def to_lower_def hd_map split: if_splits)
  have last: "last q \<noteq> CHR ''/''"
    using assms(1,4,5) lower_char_keeps [of "last p" "CHR ''/''"] lower_char_keeps [of "last p" "CHR 0x5C"]
    by (auto simp: q_def f_def to_lower_def last_map split: if_splits)
  have keep: "trim_chars s ''/'' = s" if "s \<noteq> []" "hd s \<noteq> CHR ''/''" "last s \<noteq> CHR ''/''" for s
  proof -
    have "trim_left s ''/'' = s" using that by (cases s) (auto simp: trim_left_def)
    then show ?thesis using that by (simp add: trim_chars_def trim_right_keeps)
  qed
  have suf: "\<not> has_suffix q ''.git''"
  proof
    assume "has_suffix q ''.git''"
    then obtain r where r: "q = r @ ''.git''" by (auto simp: has_suffix_iff)
    define n where "n = length r"
    have "map f (drop n (to_lower p)) = ''.git''" using r unfolding q_def n_def by (metis append_eq_conv_conj drop_map)
    then have "drop n (to_lower p) = ''.git''"
      by (auto simp: f_def map_eq_Cons_conv split: if_splits)
    then show False using assms(6) by (metis append_take_drop_id has_suffix_iff)
  qed
  have a: "origin_path (p @ ''.git'') = q"
    unfolding origin_path_def Let_def f_def [symmetric] fl
    using keep [of "q @ ''.git''"] keep [of q] ne hd last
    by (simp add: trim_suffix_def has_suffix_iff hd_append)
  have b: "origin_path p = q"
    unfolding origin_path_def Let_def f_def [symmetric] q_def [symmetric]
    using keep [of q] ne hd last suf by (simp add: trim_suffix_def)
  show ?thesis using a b by simp
qed

text \<open>What the two forms of a remote are split into.\<close>

lemma split_origin_url:
  "CHR '':'' \<notin> set scheme \<Longrightarrow> scheme \<noteq> '''' \<Longrightarrow> up (scheme @ ''://'' @ r) = Some hp \<Longrightarrow>
     split_origin up (scheme @ ''://'' @ r) = hp"
  using cut_text_scheme [of scheme r] by (cases scheme) (simp_all add: split_origin_def)

lemma split_origin_scp:
  assumes "CHR '':'' \<notin> set (user @ host)" "CHR ''/'' \<notin> set (user @ host)" "CHR ''@'' \<notin> set host"
    "\<not> str_contains (user @ ''@'' @ host @ '':'' @ p) ''://''"
  shows "split_origin up (user @ ''@'' @ host @ '':'' @ p) = (host, p)"
proof -
  define front where "front = user @ CHR ''@'' # host"
  have s: "user @ ''@'' @ host @ '':'' @ p = front @ CHR '':'' # p" by (simp add: front_def)
  have f: "CHR '':'' \<notin> set front" "CHR ''/'' \<notin> set front" using assms(1,2) by (auto simp: front_def)
  obtain c cs where front: "front = c # cs" by (cases front) (auto simp: front_def)
  have at: "cut_last CHR ''@'' front = Some (user, host)"
    unfolding front_def by (rule cut_last_append [OF assms(3)])
  show ?thesis
    using cut_text_None [OF assms(4)] cut_first_append [OF f(1), of p] f(2) at unfolding s front
    by (simp add: split_origin_def)
qed

text \<open>C22. The ways git writes one remote give one slug: the form with a colon, whatever the user, and a URL of the
  same host and path, with or without a port, a leading slash and the suffix .git.\<close>

theorem project_slug_remotes_agree:
  assumes "CHR '':'' \<notin> set (user @ host)" "CHR ''/'' \<notin> set (user @ host)" "CHR ''@'' \<notin> set host" "CHR '']'' \<notin> set host"
    and "\<not> str_contains (user @ ''@'' @ host @ '':'' @ p @ ''.git'') ''://''"
    and "p \<noteq> []" "hd p \<noteq> CHR ''/''" "hd p \<noteq> CHR 0x5C" "last p \<noteq> CHR ''/''" "last p \<noteq> CHR 0x5C" "\<not> has_suffix (to_lower p) ''.git''"
    and "trim_space (user @ ''@'' @ host @ '':'' @ p @ ''.git'') = user @ ''@'' @ host @ '':'' @ p @ ''.git''"
    and "CHR '':'' \<notin> set scheme" "scheme \<noteq> ''''" "trim_space (scheme @ ''://'' @ r) = scheme @ ''://'' @ r"
    and "up (scheme @ ''://'' @ r) = Some (host @ port, CHR ''/'' # p @ suffix)" "suffix \<in> {'''', ''.git''}"
    and "port = '''' \<or> (\<exists>n. port = CHR '':'' # n \<and> CHR '':'' \<notin> set n \<and> CHR '']'' \<notin> set n)"
  shows "project_slug up (scheme @ ''://'' @ r) = project_slug up (user @ ''@'' @ host @ '':'' @ p @ ''.git'')"
proof -
  have path: "origin_path (CHR ''/'' # p @ suffix) = origin_path (p @ ''.git'')"
    using assms(17) origin_path_git [OF assms(6-11)] by (auto simp: origin_path_slash)
  have host: "origin_host (host @ port) = origin_host host"
    using assms(18) origin_host_port [of host] assms(1,4) by auto
  have "split_origin up (user @ ''@'' @ host @ '':'' @ (p @ ''.git'')) = (host, p @ ''.git'')"
    using split_origin_scp [OF assms(1-3), of "p @ ''.git''"] assms(5) by simp
  then show ?thesis
    using assms(12,14,15) split_origin_url [of scheme up r, OF assms(13,14,16)]
    by (simp add: project_slug_def path host)
qed

section \<open>Projects are kept apart\<close>

lemma valid_slugD:
  assumes "valid_slug p"
  shows "p \<noteq> ''''" "is_lower_alnum (hd p)" "CHR ''/'' \<notin> set p" "normal_part p" "list_all (\<lambda>c. \<not> slug_junk c) p"
proof -
  obtain c r where p: "p = c # r" using assms by (cases p) (auto simp: valid_slug_def)
  have re: "project_slug_re p" and l: "\<not> contains_any p [CHR ''/'', CHR 0x5C]" using assms unfolding valid_slug_def by blast+
  have c: "is_lower_alnum c" using re p by (simp add: project_slug_re_def)
  then have "c \<noteq> CHR ''.''" by (auto simp: is_lower_alnum_def is_digit_def)
  moreover have s: "CHR ''/'' \<notin> set p" using l by (auto simp: contains_any_def list_ex_iff)
  ultimately have "normal_part p" unfolding normal_part_def p by blast
  moreover have "list_all (\<lambda>c. \<not> slug_junk c) p" using re p by (simp add: project_slug_re_def)
  ultimately show "p \<noteq> ''''" "is_lower_alnum (hd p)" "CHR ''/'' \<notin> set p" "normal_part p" "list_all (\<lambda>c. \<not> slug_junk c) p"
    using c s p by simp_all
qed

lemma clean_parts_snoc: "normal_part p \<Longrightarrow> clean_parts r out (ps @ [p]) = clean_parts r out ps @ [p]"
proof (induction ps arbitrary: out)
  case Nil
  then have "p \<noteq> ''''" "p \<noteq> ''.''" "p \<noteq> ''..''" by (simp_all add: normal_part_def)
  then show ?case by simp
next
  case (Cons q ps)
  note IH = Cons.IH [OF Cons.prems]
  consider "q = '''' \<or> q = ''.''" | "q = ''..''" "out = []" | x xs where "q = ''..''" "out = x # xs" | "q \<noteq> ''''" "q \<noteq> ''.''" "q \<noteq> ''..''"
    by (cases out) blast+
  then show ?case by cases (simp_all only: append_Cons clean_parts.simps list.case IH if_True if_False simp_thms, auto simp: IH)
qed

lemma clean_parts_parts:
  "\<forall>p \<in> set out \<union> set ps. CHR ''/'' \<notin> set p \<Longrightarrow> \<forall>p \<in> set out. p \<noteq> '''' \<Longrightarrow>
     \<forall>p \<in> set (clean_parts r out ps). CHR ''/'' \<notin> set p \<and> p \<noteq> ''''"
proof (induction ps arbitrary: out)
  case (Cons p ps)
  have o: "\<forall>q \<in> set out. CHR ''/'' \<notin> set q \<and> q \<noteq> ''''" and p: "CHR ''/'' \<notin> set p"
    and ps: "\<forall>q \<in> set ps. CHR ''/'' \<notin> set q" using Cons.prems unfolding list.set by blast+
  have step: "\<forall>q \<in> set (clean_parts r out' ps). CHR ''/'' \<notin> set q \<and> q \<noteq> ''''"
    if "\<forall>q \<in> set out'. CHR ''/'' \<notin> set q \<and> q \<noteq> ''''" for out'
    by (rule Cons.IH) (use that ps in blast)+
  consider "p = '''' \<or> p = ''.''" | "p = ''..''" "out = []" | x xs where "p = ''..''" "out = x # xs" | "p \<noteq> ''''" "p \<noteq> ''.''" "p \<noteq> ''..''"
    by (cases out) blast+
  then show ?case
  proof cases
    case 1
    then have e: "clean_parts r out (p # ps) = clean_parts r out ps" by (simp only: clean_parts.simps if_True)
    from step [OF o] show ?thesis unfolding e .
  next
    case 2
    then have e: "clean_parts r out (p # ps) = clean_parts r (if r then [] else [p]) ps" by simp
    have "\<forall>q \<in> set (if r then [] else [p]). CHR ''/'' \<notin> set q \<and> q \<noteq> ''''" using 2 p by simp
    from step [OF this] show ?thesis unfolding e .
  next
    case 3
    then have e: "clean_parts r out (p # ps) = clean_parts r (if x = ''..'' then p # out else xs) ps" by simp
    have "\<forall>q \<in> set (if x = ''..'' then p # out else xs). CHR ''/'' \<notin> set q \<and> q \<noteq> ''''" using 3 o p by simp
    from step [OF this] show ?thesis unfolding e .
  next
    case 4
    then have e: "clean_parts r out (p # ps) = clean_parts r (p # out) ps" by simp
    have "\<forall>q \<in> set (p # out). CHR ''/'' \<notin> set q \<and> q \<noteq> ''''" using 4 o p by simp
    from step [OF this] show ?thesis unfolding e .
  qed
qed simp

lemma split_on_snoc: "CHR ''/'' \<notin> set p \<Longrightarrow> split_on CHR ''/'' (s @ CHR ''/'' # p) = split_on CHR ''/'' s @ [p]"
  by (induction s) (auto split: list.splits)

text \<open>Cleaning keeps a normal last part, and reading the result back gives the parts before it.\<close>

definition path_parts :: "string \<Rightarrow> string list" where
  "path_parts s = clean_parts (is_abs s) [] (split_on CHR ''/'' s)"

lemma path_parts_ok: "\<forall>p \<in> set (path_parts s). CHR ''/'' \<notin> set p \<and> p \<noteq> ''''"
  unfolding path_parts_def using split_on_no_sep by (intro clean_parts_parts) auto

lemma path_parts_snoc: "normal_part p \<Longrightarrow> s \<noteq> [] \<Longrightarrow> path_parts (s @ CHR ''/'' # p) = path_parts s @ [p]"
proof -
  assume p: "normal_part p" and s: "s \<noteq> []"
  have "is_abs (s @ CHR ''/'' # p) = is_abs s" using s by (cases s) (auto simp: is_abs_def has_prefix_def)
  then show ?thesis
    using p by (simp add: path_parts_def split_on_snoc normal_part_def clean_parts_snoc)
qed

lemma split_path_clean:
  assumes "path_parts s \<noteq> []"
  shows "split_on CHR ''/'' (path_clean s) = (if is_abs s then [''''] else []) @ path_parts s"
proof -
  have j: "split_on CHR ''/'' (join_with ''/'' (path_parts s)) = path_parts s"
    using assms path_parts_ok [of s] by (intro split_join) auto
  show ?thesis
  proof (cases "is_abs s")
    case True
    then show ?thesis using j unfolding path_clean_def path_parts_def [symmetric] by simp
  next
    case False
    have "join_with ''/'' (path_parts s) \<noteq> ''''"
      using assms path_parts_ok [of s] by (cases "path_parts s"; cases "tl (path_parts s)") auto
    then show ?thesis using j False unfolding path_clean_def path_parts_def [symmetric] by simp
  qed
qed

lemma path_clean_nonempty: "path_clean s \<noteq> []"
  by (simp add: path_clean_def Let_def)

lemma stamped_dir:
  assumes "root \<noteq> []" "normal_part p" "normal_part k"
  shows "\<exists>pre. split_on CHR ''/'' (join_pair (join_pair root p) k) = pre @ [p, k]"
proof -
  let ?b = "path_clean (root @ CHR ''/'' # p)"
  have j: "join_pair (join_pair root p) k = path_clean (?b @ CHR ''/'' # k)"
    using assms path_clean_nonempty by (auto simp: join_pair_def normal_part_def)
  have "path_parts (root @ CHR ''/'' # p) = path_parts root @ [p]" by (rule path_parts_snoc [OF assms(2,1)])
  then obtain pre where b: "split_on CHR ''/'' ?b = pre @ [p]" using split_path_clean [of "root @ CHR ''/'' # p"] by auto
  have "path_parts ?b = clean_parts (is_abs ?b) [] pre @ [p]"
    unfolding path_parts_def b by (rule clean_parts_snoc [OF assms(2)])
  then have pp: "path_parts (?b @ CHR ''/'' # k) = clean_parts (is_abs ?b) [] pre @ [p, k]"
    using path_parts_snoc [OF assms(3) path_clean_nonempty] by simp
  have "path_parts (?b @ CHR ''/'' # k) \<noteq> []" unfolding pp by simp
  from split_path_clean [OF this] show ?thesis unfolding j pp by auto
qed

lemma sql_char_alnum: "is_lower_alnum c \<Longrightarrow> sql_char c"
proof -
  assume "is_lower_alnum c"
  moreover from this have "lower_char c = c"
    by (auto simp: is_lower_alnum_def is_digit_def lower_char_def less_eq_char_def)
  ultimately show ?thesis by (simp add: sql_char_def)
qed

text \<open>The name of a slug in SQL: as long as the slug, dots and dashes underscored, other characters kept.\<close>

lemma sql_char_underscore [simp]: "sql_char CHR ''_''"
  by (simp add: sql_char_def)

lemma underscore_junk_id: "list_all sql_char s \<Longrightarrow> underscore_junk r s = s"
  by (induction r s rule: underscore_junk.induct) auto

lemma slug_chars: "\<not> slug_junk c \<Longrightarrow> is_lower_alnum c \<or> c = CHR ''.'' \<or> c = CHR ''_'' \<or> c = CHR ''-''"
  by (auto simp: slug_junk_def)

lemma sql_name_slug:
  assumes "valid_slug p"
  shows "sql_name p = map (\<lambda>c. if c = CHR ''.'' \<or> c = CHR ''-'' then CHR ''_'' else c) p"
proof -
  have "sql_char (if c = CHR ''.'' \<or> c = CHR ''-'' then CHR ''_'' else c)" if "c \<in> set p" for c
  proof -
    have "\<not> slug_junk c" using valid_slugD(5) [OF assms] that by (simp add: list_all_iff)
    then show ?thesis using slug_chars [of c] sql_char_alnum [of c] by (cases "c = CHR ''_''") auto
  qed
  then have "list_all sql_char (map (\<lambda>c. if c = CHR ''.'' \<or> c = CHR ''-'' then CHR ''_'' else c) p)"
    unfolding list_all_iff set_map by blast
  then show ?thesis unfolding sql_name_def by (rule underscore_junk_id)
qed

lemma sql_name_hd: "valid_slug p \<Longrightarrow> sql_name p \<noteq> [] \<and> hd (sql_name p) \<noteq> CHR ''_''"
proof -
  assume v: "valid_slug p"
  have "hd p \<notin> set ''._-''" using valid_slugD(2) [OF v] by (rule is_lower_alnum_not_mark)
  then show ?thesis using valid_slugD(1) [OF v] by (simp add: sql_name_slug [OF v] hd_map)
qed

lemma sql_prefix_eq:
  assumes "valid_slug p" "valid_slug q"
  shows "sql_prefix conf p = sql_prefix conf q \<longleftrightarrow> sql_name p = sql_name q"
proof
  assume e: "sql_prefix conf p = sql_prefix conf q"
  note n = sql_name_hd [OF assms(1)] sql_name_hd [OF assms(2)]
  have "conf @ sql_name p @ ''_'' = conf @ sql_name q @ ''_''"
    using e n by (cases conf; cases "sql_name p"; cases "sql_name q") (auto simp: sql_prefix_def Let_def split: if_splits)
  then show "sql_name p = sql_name q" by simp
qed (simp add: sql_prefix_def)

lemma stamp_valid: "stamp def dirs p = Inr d \<Longrightarrow> valid_slug p"
  by (auto simp: stamp_def split: if_splits)

lemma stamp_file:
  assumes "stamp def dirs p = Inr d" "to_lower (sd_kind def) = ''file''" "kk \<in> set all_kinds"
  shows "\<exists>pre. split_on CHR ''/'' (opt_of (sd_options d) (k_plural kk @ ''Dir'')) = pre @ [p, k_plural kk]"
proof -
  have v: "valid_slug p" by (rule stamp_valid [OF assms(1)])
  have n: "normal_part p" by (rule valid_slugD(4) [OF v])
  have clean: "path_clean p = p"
    using path_clean_normal [of "[p]"] n by (simp add: normal_path_def)
  have root: "file_root def dirs \<noteq> []"
    using path_clean_nonempty by (simp add: file_root_def path_dir_def Let_def)
  have k: "normal_part (k_plural kk)" using assms(3) by (auto simp: all_kinds_def plan_kind_def story_kind_def normal_part_def)
  have "opt_of (sd_options d) (k_plural kk @ ''Dir'') = join_pair (join_pair (file_root def dirs) p) (k_plural kk)"
    using assms v by (auto simp: stamp_def clean Let_def opt_of_def all_kinds_def plan_kind_def story_kind_def)
  then show ?thesis using stamped_dir [OF root n k] by simp
qed

lemma stamp_collection:
  assumes "stamp def dirs p = Inr d" "to_lower (sd_kind def) \<in> {''mongodb'', ''mongo'', ''firestore''}"
  shows "opt_of (sd_options d) ''collection'' = opt_of (sd_options def) ''collection'' @ p @ ''_''"
proof -
  have k: "to_lower (sd_kind def) \<noteq> ''file''" "to_lower (sd_kind def) \<notin> set sql_kinds"
    "to_lower (sd_kind def) = ''mongodb'' \<or> to_lower (sd_kind def) = ''mongo'' \<or> to_lower (sd_kind def) = ''firestore''"
    using assms(2) by (auto simp: sql_kinds_def)
  have "d = def\<lparr>sd_options := om_put ''collection'' (opt_of (sd_options def) ''collection'' @ p @ ''_'') (sd_options def)\<rparr>"
    using assms(1) stamp_valid [OF assms(1)] k unfolding stamp_def Let_def by simp
  then show ?thesis by (simp add: opt_of_def)
qed

lemma stamp_tables:
  assumes "stamp def dirs p = Inr d" "to_lower (sd_kind def) \<in> set sql_kinds"
  shows "opt_of (sd_options d) ''tablePrefix'' = sql_prefix (opt_of (sd_options def) ''tablePrefix'') p"
proof -
  have k: "to_lower (sd_kind def) \<noteq> ''file''" using assms(2) by (auto simp: sql_kinds_def)
  have "d = def\<lparr>sd_options := om_put ''tablePrefix'' (sql_prefix (opt_of (sd_options def) ''tablePrefix'') p) (sd_options def)\<rparr>"
    using assms stamp_valid [OF assms(1)] k unfolding stamp_def Let_def by simp
  then show ?thesis by (simp add: opt_of_def)
qed

text \<open>C21. Two projects stamped from one definition are kept apart: their directories differ, no collection
  of one is a collection of the other, and their SQL tables have the same prefix exactly when the
  slugs are the same after dots and dashes have become underscores.\<close>

theorem stamp_separates:
  assumes "stamp def dirs p = Inr a" "stamp def dirs q = Inr b" "p \<noteq> q"
  shows "(to_lower (sd_kind def) = ''file'' \<longrightarrow>
      (\<forall>kk \<in> set all_kinds. opt_of (sd_options a) (k_plural kk @ ''Dir'') \<noteq> opt_of (sd_options b) (k_plural kk @ ''Dir''))) \<and>
    (to_lower (sd_kind def) \<in> {''mongodb'', ''mongo'', ''firestore''} \<longrightarrow>
      (\<forall>c c'. CHR ''_'' \<notin> set c \<longrightarrow> CHR ''_'' \<notin> set c' \<longrightarrow>
         opt_of (sd_options a) ''collection'' @ c \<noteq> opt_of (sd_options b) ''collection'' @ c')) \<and>
    (to_lower (sd_kind def) \<in> set sql_kinds \<longrightarrow>
      (opt_of (sd_options a) ''tablePrefix'' = opt_of (sd_options b) ''tablePrefix'' \<longleftrightarrow>
         map (\<lambda>c. if c = CHR ''.'' \<or> c = CHR ''-'' then CHR ''_'' else c) p =
         map (\<lambda>c. if c = CHR ''.'' \<or> c = CHR ''-'' then CHR ''_'' else c) q))"
proof (intro conjI impI ballI allI)
  note v = stamp_valid [OF assms(1)] stamp_valid [OF assms(2)]
  {
    fix kk assume k: "to_lower (sd_kind def) = ''file''" "kk \<in> set all_kinds"
    show "opt_of (sd_options a) (k_plural kk @ ''Dir'') \<noteq> opt_of (sd_options b) (k_plural kk @ ''Dir'')"
      using stamp_file [OF assms(1) k] stamp_file [OF assms(2) k] assms(3) by auto
  next
    fix c c' :: string
    assume k: "to_lower (sd_kind def) \<in> {''mongodb'', ''mongo'', ''firestore''}" and c: "CHR ''_'' \<notin> set c" "CHR ''_'' \<notin> set c'"
    define conf where "conf = opt_of (sd_options def) ''collection''"
    have e: "opt_of (sd_options a) ''collection'' = (conf @ p) @ ''_''" "opt_of (sd_options b) ''collection'' = (conf @ q) @ ''_''"
      using stamp_collection [OF assms(1) k] stamp_collection [OF assms(2) k] by (simp_all add: conf_def)
    show "opt_of (sd_options a) ''collection'' @ c \<noteq> opt_of (sd_options b) ''collection'' @ c'"
      using cut_last_append [OF c(1), of "conf @ p"] cut_last_append [OF c(2), of "conf @ q"] assms(3) unfolding e by auto
  next
    assume k: "to_lower (sd_kind def) \<in> set sql_kinds"
    have e: "opt_of (sd_options a) ''tablePrefix'' = sql_prefix (opt_of (sd_options def) ''tablePrefix'') p"
      "opt_of (sd_options b) ''tablePrefix'' = sql_prefix (opt_of (sd_options def) ''tablePrefix'') q"
      using stamp_tables [OF assms(1) k] stamp_tables [OF assms(2) k] by simp_all
    show "opt_of (sd_options a) ''tablePrefix'' = opt_of (sd_options b) ''tablePrefix'' \<longleftrightarrow>
         map (\<lambda>c. if c = CHR ''.'' \<or> c = CHR ''-'' then CHR ''_'' else c) p =
         map (\<lambda>c. if c = CHR ''.'' \<or> c = CHR ''-'' then CHR ''_'' else c) q"
      unfolding e sql_prefix_eq [OF v] sql_name_slug [OF v(1)] sql_name_slug [OF v(2)] ..
  }
qed

text \<open>So two repositories whose names differ only in a dash and an underscore share their tables.\<close>

definition sqlite_def :: storage_def where
  "sqlite_def = \<lparr>sd_name = ''db'', sd_kind = ''sqlite'', sd_enabled = None, sd_options = []\<rparr>"

lemma sql_projects_collide:
  "stamp sqlite_def [] ''github.com__o__my-repo'' = stamp sqlite_def [] ''github.com__o__my_repo'' \<and>
   isl (stamp sqlite_def [] ''github.com__o__my-repo'') = False"
  by code_simp

end
