(* ===== verification/Session_Doc.thy ===== *)
theory Session_Doc
  imports Go_Time Projects
begin

text \<open>
  The documents of captured sessions (\<open>session/doc.go\<close>, \<open>session/model.go\<close>, \<open>session/store.go\<close>,
  \<open>session/aggregate.go\<close>, \<open>session/linetime.go\<close>): a document is a map from names to values, and a
  value is what Go holds in an interface there. \<open>session.Doc\<close> and \<open>map[string]any\<close> are one
  constructor, since every reader treats them alike, and so are the list types; values are never
  changed in place, so copies are the values themselves. A time is the number of nanoseconds since
  Go's zero time, which is 0, and a finite \<open>float64\<close> is given by its mantissa and the exponent of two.

  The facts are those of \<open>WithoutContent\<close>: what is left holds no content, nothing else is
  touched, and doing it again changes nothing.
\<close>

section \<open>Documents\<close>

datatype val = VNil | VBool bool | VInt int | VInt64 int | VFloat int int | VStr string | VTime int
  | VObj "(string \<times> val) list" | VList "val list" | VBytes "int list"

type_synonym doc = "(string, val) omap"

text \<open>Reading a map: the zero value when the key is absent.\<close>

definition d_get :: "doc \<Rightarrow> string \<Rightarrow> val" where
  "d_get d k = (case om_get d k of None \<Rightarrow> VNil | Some v \<Rightarrow> v)"

definition as_doc :: "val \<Rightarrow> doc option" where
  "as_doc v = (case v of VObj m \<Rightarrow> Some m | _ \<Rightarrow> None)"

text \<open>The nested object, and the same with a missing one read as Go reads a nil map.\<close>

definition d_map :: "doc \<Rightarrow> string \<Rightarrow> doc option" where
  "d_map d k = as_doc (d_get d k)"

definition d_sub :: "doc \<Rightarrow> string \<Rightarrow> doc" where
  "d_sub d k = (case d_map d k of None \<Rightarrow> [] | Some m \<Rightarrow> m)"

definition d_string :: "doc \<Rightarrow> string \<Rightarrow> string option" where
  "d_string d k = (case d_get d k of VStr s \<Rightarrow> Some s | _ \<Rightarrow> None)"

definition d_line :: "doc \<Rightarrow> doc option" where
  "d_line d = d_map d ''line''"

definition d_message :: "doc \<Rightarrow> doc" where
  "d_message d = d_sub (d_sub d ''line'') ''message''"

definition d_content :: "doc \<Rightarrow> doc list" where
  "d_content d = (case d_get (d_message d) ''content'' of VList vs \<Rightarrow> List.map_filter as_doc vs | _ \<Rightarrow> [])"

definition d_tool_input :: "doc \<Rightarrow> doc" where
  "d_tool_input d = d_sub d ''tool_input''"

text \<open>The readers of \<open>memsession\<close>: a value of another type reads as the zero value.\<close>

definition str_of :: "doc \<Rightarrow> string \<Rightarrow> string" where
  "str_of d k = (case d_string d k of None \<Rightarrow> '''' | Some s \<Rightarrow> s)"

definition time_of :: "doc \<Rightarrow> string \<Rightarrow> int" where
  "time_of d k = (case d_get d k of VTime t \<Rightarrow> t | _ \<Rightarrow> 0)"

definition seq_of :: "doc \<Rightarrow> string \<Rightarrow> int" where
  "seq_of d k = (case d_get d k of VInt n \<Rightarrow> n | _ \<Rightarrow> 0)"

definition bool_of :: "doc \<Rightarrow> string \<Rightarrow> bool" where
  "bool_of d k = (case d_get d k of VBool b \<Rightarrow> b | _ \<Rightarrow> False)"

definition float_trunc :: "int \<Rightarrow> int \<Rightarrow> int" where
  "float_trunc m e = (if 0 \<le> e then m * 2 ^ nat e else sgn m * (\<bar>m\<bar> div 2 ^ nat (- e)))"

definition num_of :: "doc \<Rightarrow> string \<Rightarrow> int" where
  "num_of d k =
     (case d_get d k of VInt n \<Rightarrow> n | VInt64 n \<Rightarrow> n
      | VFloat m e \<Rightarrow> float_trunc m e | _ \<Rightarrow> 0)"

text \<open>Documents written down field by field, and fields written over a document.\<close>

definition put_all :: "(string \<times> val) list \<Rightarrow> doc \<Rightarrow> doc" where
  "put_all fs d = fold (\<lambda>f. om_put (fst f) (snd f)) fs d"

definition doc_of :: "(string \<times> val) list \<Rightarrow> doc" where
  "doc_of fs = put_all fs []"

definition present :: "(string \<times> string) list \<Rightarrow> (string \<times> val) list" where
  "present fs = map (\<lambda>f. (fst f, VStr (snd f))) (filter (\<lambda>f. snd f \<noteq> '''') fs)"

definition del_all :: "string list \<Rightarrow> doc \<Rightarrow> doc" where
  "del_all ks d = fold om_del ks d"

definition project_fields :: "string list \<Rightarrow> doc \<Rightarrow> doc" where
  "project_fields ks d = doc_of (List.map_filter (\<lambda>k. map_option (Pair k) (om_get d k)) ks)"

section \<open>Times\<close>

definition days_before_year :: "int \<Rightarrow> int" where
  "days_before_year y = 365 * (y - 1) + (y - 1) div 4 - (y - 1) div 100 + (y - 1) div 400"

text \<open>The instant of a date in UTC, from midnight of the first day of year 1 on.\<close>

definition instant :: "datetime \<Rightarrow> int" where
  "instant t =
     (let days = days_before_year (dt_year t) + int (sum_list (map (\<lambda>m. days_in m (dt_year t)) [1..<dt_month t])) + int (dt_day t) - 1
      in (((days * 24 + int (dt_hour t)) * 60 + int (dt_minute t)) * 60 + int (dt_second t)) * 1000000000 + int (dt_nanos t))"

definition parse_instant :: "string \<Rightarrow> int option" where
  "parse_instant s = map_option instant (time_parse rfc3339_nano s)"

definition minute_ns :: int where
  "minute_ns = 60 * 1000000000"

definition hour_ns :: int where
  "hour_ns = 60 * minute_ns"

definition day_ns :: int where
  "day_ns = 24 * hour_ns"

section \<open>What is stored\<close>

record host_info =
  hi_hostname :: string
  hi_ip :: "string option"
  hi_mac :: "string option"
  hi_username :: string
  hi_uid :: int
  hi_platform :: string
  hi_arch :: string
  hi_os_release :: string
  hi_os_type :: string

record session_rec =
  sr_session_id :: string
  sr_transcript_path :: string
  sr_cwd :: string
  sr_project_path :: string
  sr_git_origin :: string
  sr_git_branch :: string
  sr_project_slug :: string
  sr_account_id :: string
  sr_host :: "host_info option"
  sr_last_seen :: int

record transcript_line =
  tl_session_id :: string
  tl_seq :: int
  tl_line :: val
  tl_account_id :: string
  tl_host :: "host_info option"
  tl_redacted :: "string list"

record subagent_line =
  sl_session_id :: string
  sl_subagent_id :: string
  sl_seq :: int
  sl_line :: val
  sl_account_id :: string
  sl_host :: "host_info option"
  sl_redacted :: "string list"

record side_blob =
  sb_session_id :: string
  sb_blob_type :: string
  sb_name :: string
  sb_content :: string
  sb_encoding :: string
  sb_account_id :: string
  sb_redacted :: "string list"

record otel_event =
  ot_account_id :: string
  ot_session_id :: string
  ot_prompt_id :: string
  ot_name :: string
  ot_sequence :: int
  ot_timestamp :: int
  ot_attributes :: doc
  ot_redacted :: "string list"

definition synthetic_model :: string where
  "synthetic_model = ''<synthetic>''"

text \<open>The model an assistant line names; the document is a stored line or the line itself.\<close>

definition line_model :: "doc \<Rightarrow> string" where
  "line_model d =
     (let line = (case d_line d of None \<Rightarrow> d | Some l \<Rightarrow> l)
      in if str_of line ''type'' \<noteq> ''assistant'' then ''''
         else (let model = str_of (d_sub line ''message'') ''model''
               in if model = synthetic_model then '''' else model))"

definition project_slug_of :: "(string \<Rightarrow> (string \<times> string) option) \<Rightarrow> string \<Rightarrow> string \<Rightarrow> string" where
  "project_slug_of up slug origin =
     (if slug \<noteq> '''' then slug else if origin = '''' then '''' else project_slug up origin)"

section \<open>Events without their content\<close>

definition limits_event :: string where
  "limits_event = ''LimitsSampled''"

definition model_changed_event :: string where
  "model_changed_event = ''ModelChanged''"

definition state_changed_event :: string where
  "state_changed_event = ''SessionStateChanged''"

definition memory_event :: string where
  "memory_event = ''MemorySaved''"

definition hook_content_fields :: "string list" where
  "hook_content_fields = [''prompt'', ''tool_response'', ''message'', ''last_assistant_message'', ''custom_instructions'']"

definition session_content_fields :: "string list" where
  "session_content_fields = [''title'', ''title_kind'']"

definition hook_content_enrichments :: "string list" where
  "hook_content_enrichments = [''privacy-redact-memory'']"

text \<open>Deleting the fields that are there, and whether one was.\<close>

fun drop_fields :: "string list \<Rightarrow> doc \<times> bool \<Rightarrow> doc \<times> bool" where
  "drop_fields [] r = r"
| "drop_fields (k # ks) (d, changed) =
     drop_fields ks (if om_get d k \<noteq> None then (om_del k d, True) else (d, changed))"

definition strip_tool_input :: "doc \<times> bool \<Rightarrow> doc \<times> bool" where
  "strip_tool_input r =
     (case om_get (fst r) ''tool_input'' of
        None \<Rightarrow> r
      | Some v \<Rightarrow>
          (let m = (case as_doc v of None \<Rightarrow> [] | Some m \<Rightarrow> m)
           in case om_get m ''file_path'' of
                Some fp \<Rightarrow>
                  if length m = 1 then r
                  else (om_put ''tool_input'' (VObj [(''file_path'', fp)]) (fst r), True)
              | None \<Rightarrow> (om_del ''tool_input'' (fst r), True)))"

definition strip_memory :: "doc \<times> bool \<Rightarrow> doc \<times> bool" where
  "strip_memory r =
     (case d_map (fst r) ''memory'' of
        None \<Rightarrow> r
      | Some mem \<Rightarrow>
          (case om_get mem ''text'' of
             None \<Rightarrow> r
           | Some t \<Rightarrow>
               if t = VStr '''' then r
               else (om_put ''memory'' (VObj (om_put ''text'' (VStr '''') mem)) (fst r), True)))"

definition strip_enrichments :: "doc \<times> bool \<Rightarrow> doc \<times> bool" where
  "strip_enrichments r =
     (case d_map (fst r) ''enrichments'' of
        None \<Rightarrow> r
      | Some enr \<Rightarrow>
          (let (copied, changed) = drop_fields hook_content_enrichments (enr, snd r)
           in (if length copied \<noteq> length enr then om_put ''enrichments'' (VObj copied) (fst r) else fst r, changed)))"

definition without_content :: "doc \<Rightarrow> doc \<times> bool" where
  "without_content ev =
     strip_enrichments (strip_memory (strip_tool_input (drop_fields hook_content_fields (ev, False))))"

section \<open>Hourly counts\<close>

record count_query =
  cq_account_id :: string
  cq_since :: int
  cq_until :: int

record hour_count =
  hc_hour :: int
  hc_kind :: string
  hc_count :: int

definition line_time :: "doc \<Rightarrow> int" where
  "line_time d =
     (case d_string (d_sub d ''line'') ''timestamp'' of
        Some s \<Rightarrow> (case parse_instant s of Some t \<Rightarrow> t | None \<Rightarrow> time_of d ''created_at'')
      | None \<Rightarrow> time_of d ''created_at'')"

definition in_range :: "count_query \<Rightarrow> int \<Rightarrow> bool" where
  "in_range q t \<longleftrightarrow> (cq_since q = 0 \<or> cq_since q \<le> t) \<and> (cq_until q = 0 \<or> t < cq_until q)"

text \<open>The earliest and the latest time stamp of the lines (\<open>TranscriptSpan\<close>).\<close>

definition span_step :: "transcript_line \<Rightarrow> int \<times> int \<Rightarrow> int \<times> int" where
  "span_step l r =
     (case parse_instant (str_of (case as_doc (tl_line l) of None \<Rightarrow> [] | Some m \<Rightarrow> m) ''timestamp'') of
        None \<Rightarrow> r
      | Some t \<Rightarrow> (if fst r = 0 \<or> t < fst r then t else fst r, if snd r < t then t else snd r))"

definition transcript_span :: "transcript_line list \<Rightarrow> int \<times> int" where
  "transcript_span ls = fold span_step ls (0, 0)"

section \<open>Facts\<close>

lemma d_get_put [simp]: "d_get (om_put k v d) k' = (if k' = k then v else d_get d k')"
  by (simp add: d_get_def)

lemma d_get_del [simp]: "d_get (om_del k d) k' = (if k' = k then VNil else d_get d k')"
  by (simp add: d_get_def)

lemma d_get_Nil [simp]: "d_get [] k = VNil"
  by (simp add: d_get_def)

lemma put_all_wf [wf_intros]: "omap_wf d \<Longrightarrow> omap_wf (put_all fs d)"
  unfolding put_all_def by (rule fold_om_put_wf)

lemma put_all_notin: "k \<notin> fst ` set fs \<Longrightarrow> om_get (put_all fs d) k = om_get d k"
  unfolding put_all_def by (rule fold_om_put_notin)

lemma put_all_in: "distinct (map fst fs) \<Longrightarrow> f \<in> set fs \<Longrightarrow> om_get (put_all fs d) (fst f) = Some (snd f)"
  unfolding put_all_def by (rule fold_om_put_in)

lemma om_get_put_all: "om_get (put_all fs d) k = (case map_of (rev fs) k of None \<Rightarrow> om_get d k | Some v \<Rightarrow> Some v)"
proof (induction fs rule: rev_induct)
  case (snoc f fs)
  have "put_all (fs @ [f]) d = om_put (fst f) (snd f) (put_all fs d)" by (simp add: put_all_def)
  then show ?case using snoc by (cases f) simp
qed (simp add: put_all_def)

lemma om_get_doc_of: "om_get (doc_of fs) k = map_of (rev fs) k"
  by (simp add: doc_of_def om_get_put_all split: option.splits)

lemma readers_cong:
  assumes "om_get d k = om_get d' k"
  shows "d_get d k = d_get d' k" "str_of d k = str_of d' k" "time_of d k = time_of d' k" "seq_of d k = seq_of d' k"
    "d_map d k = d_map d' k" "d_sub d k = d_sub d' k" "num_of d k = num_of d' k" "d_string d k = d_string d' k"
  using assms by (simp_all add: d_get_def str_of_def d_string_def time_of_def seq_of_def d_map_def d_sub_def num_of_def)

section \<open>What is left without the content\<close>

lemma drop_fields_get: "om_get (fst (drop_fields ks r)) k = (if k \<in> set ks then None else om_get (fst r) k)"
  by (induction ks r rule: drop_fields.induct) auto

lemma drop_fields_none: "\<forall>k \<in> set ks. om_get (fst r) k = None \<Longrightarrow> drop_fields ks r = r"
  by (induction ks r rule: drop_fields.induct) auto

text \<open>What becomes of the three fields that are kept in part.\<close>

definition kept_tool_input :: "val \<Rightarrow> val option" where
  "kept_tool_input v =
     (let m = (case as_doc v of None \<Rightarrow> [] | Some m \<Rightarrow> m)
      in map_option (\<lambda>fp. if length m = 1 then v else VObj [(''file_path'', fp)]) (om_get m ''file_path''))"

definition kept_memory :: "val \<Rightarrow> val" where
  "kept_memory v =
     (case as_doc v of None \<Rightarrow> v
      | Some mem \<Rightarrow> if om_get mem ''text'' = None \<or> om_get mem ''text'' = Some (VStr '''') then v
                    else VObj (om_put ''text'' (VStr '''') mem))"

definition kept_enrichments :: "val \<Rightarrow> val" where
  "kept_enrichments v =
     (case as_doc v of None \<Rightarrow> v
      | Some enr \<Rightarrow> if om_get enr ''privacy-redact-memory'' = None then v
                    else VObj (om_del ''privacy-redact-memory'' enr))"

lemma strip_tool_input_get:
  "om_get (fst (strip_tool_input r)) k =
     (if k = ''tool_input'' then Option.bind (om_get (fst r) k) kept_tool_input else om_get (fst r) k)"
  by (auto simp: strip_tool_input_def kept_tool_input_def Let_def split: option.splits)

lemma strip_memory_get:
  "om_get (fst (strip_memory r)) k =
     (if k = ''memory'' then map_option kept_memory (om_get (fst r) k) else om_get (fst r) k)"
  by (auto simp: strip_memory_def kept_memory_def d_map_def d_get_def as_doc_def split: option.splits val.splits)

lemma om_del_shorter: "om_get m k \<noteq> None \<Longrightarrow> length (om_del k m) < length m"
proof (induction m)
  case (Cons p m)
  have "length (om_del k m) < Suc (length m)" unfolding om_del_def by (simp add: less_Suc_eq_le)
  then show ?case using Cons by (cases p) (auto simp: om_del_def)
qed simp

lemma strip_enrichments_get:
  "om_get (fst (strip_enrichments r)) k =
     (if k = ''enrichments'' then map_option kept_enrichments (om_get (fst r) k) else om_get (fst r) k)"
  using om_del_shorter [of _ "''privacy-redact-memory''"]
  by (fastforce simp: strip_enrichments_def kept_enrichments_def d_map_def d_get_def as_doc_def hook_content_enrichments_def
      split: option.splits val.splits)

lemma without_content_get:
  "om_get (fst (without_content ev)) k =
     (if k \<in> set hook_content_fields then None
      else if k = ''tool_input'' then Option.bind (om_get ev k) kept_tool_input
      else if k = ''memory'' then map_option kept_memory (om_get ev k)
      else if k = ''enrichments'' then map_option kept_enrichments (om_get ev k)
      else om_get ev k)"
  by (simp add: without_content_def strip_enrichments_get strip_memory_get strip_tool_input_get drop_fields_get
      hook_content_fields_def)

lemma kept_twice:
  "kept_tool_input v = Some w \<Longrightarrow> \<exists>m fp. w = VObj m \<and> length m = 1 \<and> om_get m ''file_path'' = Some fp"
  "as_doc (kept_memory v) = Some m \<Longrightarrow> om_get m ''text'' = None \<or> om_get m ''text'' = Some (VStr '''')"
  "as_doc (kept_enrichments v) = Some m \<Longrightarrow> om_get m ''privacy-redact-memory'' = None"
  by (auto simp: kept_tool_input_def kept_memory_def kept_enrichments_def as_doc_def Let_def split: if_splits val.splits)

text \<open>A document from which nothing would be taken is left alone.\<close>

lemma without_content_id:
  assumes "\<forall>k \<in> set hook_content_fields. om_get d k = None"
    and "\<forall>v. om_get d ''tool_input'' = Some v \<longrightarrow> (\<exists>m fp. v = VObj m \<and> length m = 1 \<and> om_get m ''file_path'' = Some fp)"
    and "\<forall>v m. om_get d ''memory'' = Some v \<longrightarrow> as_doc v = Some m \<longrightarrow> om_get m ''text'' = None \<or> om_get m ''text'' = Some (VStr '''')"
    and "\<forall>v m. om_get d ''enrichments'' = Some v \<longrightarrow> as_doc v = Some m \<longrightarrow> om_get m ''privacy-redact-memory'' = None"
  shows "without_content d = (d, False)"
proof -
  have a: "drop_fields hook_content_fields (d, False) = (d, False)"
    using assms(1) by (intro drop_fields_none) simp
  have b: "strip_tool_input (d, False) = (d, False)"
    using assms(2) by (fastforce simp: strip_tool_input_def as_doc_def split: option.splits)
  have c: "strip_memory (d, False) = (d, False)"
    using assms(3) by (auto simp: strip_memory_def d_map_def d_get_def as_doc_def split: option.splits)
  have e: "drop_fields hook_content_enrichments (enr, False) = (enr, False)" if "om_get d ''enrichments'' = Some (VObj enr)" for enr
    using assms(4) that by (intro drop_fields_none) (auto simp: as_doc_def hook_content_enrichments_def)
  have f: "strip_enrichments (d, False) = (d, False)"
    using e by (auto simp: strip_enrichments_def d_map_def d_get_def as_doc_def split: option.splits val.splits)
  show ?thesis by (simp add: without_content_def a b c f)
qed

text \<open>C18. Stripping an event of its content leaves exactly what it should: the content fields are gone, the tool's
  input is at most its file path, a memory record keeps everything but its text, the redacted copy is
  gone from the enrichments, every other field is as it was; and stripping again changes nothing.\<close>

theorem without_content_exact:
  "(\<forall>k. om_get (fst (without_content ev)) k =
      (if k \<in> set hook_content_fields then None
       else if k = ''tool_input'' then Option.bind (om_get ev k) kept_tool_input
       else if k = ''memory'' then map_option kept_memory (om_get ev k)
       else if k = ''enrichments'' then map_option kept_enrichments (om_get ev k)
       else om_get ev k)) \<and>
   without_content (fst (without_content ev)) = (fst (without_content ev), False)"
proof (intro conjI allI)
  show "without_content (fst (without_content ev)) = (fst (without_content ev), False)"
  proof (rule without_content_id)
    show "\<forall>v. om_get (fst (without_content ev)) ''tool_input'' = Some v \<longrightarrow>
        (\<exists>m fp. v = VObj m \<and> length m = 1 \<and> om_get m ''file_path'' = Some fp)"
      using kept_twice(1) by (auto simp: without_content_get hook_content_fields_def Option.bind_eq_Some_conv)
    show "\<forall>v m. om_get (fst (without_content ev)) ''memory'' = Some v \<longrightarrow> as_doc v = Some m \<longrightarrow>
        om_get m ''text'' = None \<or> om_get m ''text'' = Some (VStr '''')"
      using kept_twice(2) by (auto simp: without_content_get hook_content_fields_def)
    show "\<forall>v m. om_get (fst (without_content ev)) ''enrichments'' = Some v \<longrightarrow> as_doc v = Some m \<longrightarrow>
        om_get m ''privacy-redact-memory'' = None"
      using kept_twice(3) by (auto simp: without_content_get hook_content_fields_def)
  qed (simp add: without_content_get)
qed (rule without_content_get)

end
