(* ===== verification/Session_Store.thy ===== *)
theory Session_Store
  imports Session_Doc
begin

text \<open>
  The store of captured sessions in memory (\<open>session/memsession/memsession.go\<close>): the state, the
  primitives, and the operations that change it. A collection is a list of documents in the order
  of insertion. Every operation holds the one mutex, so it is a function from a store to a store
  and a result. The regular expressions of Go's library are the argument \<open>rx\<close>, which compiles a
  pattern into the test for a match or refuses it; the clock is the argument \<open>now\<close>.
\<close>

section \<open>The store\<close>

datatype session_error = SessNotFound | SessNoAccount | BadRegexp | IndexPanic

record session_store =
  ss_next :: nat
  ss_cols :: "(string, doc list) omap"

definition new_session_store :: session_store where
  "new_session_store = \<lparr>ss_next = 0, ss_cols = []\<rparr>"

definition sessions_col :: string where "sessions_col = ''sessions''"
definition hook_events_col :: string where "hook_events_col = ''hook_events''"
definition transcript_col :: string where "transcript_col = ''transcript_lines''"
definition subagent_col :: string where "subagent_col = ''subagent_lines''"
definition blobs_col :: string where "blobs_col = ''blobs''"
definition otel_col :: string where "otel_col = ''otel_events''"

lemmas col_defs = sessions_col_def hook_events_col_def transcript_col_def subagent_col_def blobs_col_def otel_col_def

definition ss_col :: "session_store \<Rightarrow> string \<Rightarrow> doc list" where
  "ss_col s c = (case om_get (ss_cols s) c of None \<Rightarrow> [] | Some ds \<Rightarrow> ds)"

definition set_col :: "string \<Rightarrow> doc list \<Rightarrow> session_store \<Rightarrow> session_store" where
  "set_col c ds s = s\<lparr>ss_cols := om_put c ds (ss_cols s)\<rparr>"

definition ss_insert :: "string \<Rightarrow> doc \<Rightarrow> session_store \<Rightarrow> session_store" where
  "ss_insert c d s =
     set_col c (ss_col s c @ [om_put ''_id'' (VStr (itoa (Suc (ss_next s)))) d]) (s\<lparr>ss_next := Suc (ss_next s)\<rparr>)"

text \<open>\<open>find\<close> hands out the document itself, so a change of what it found is a change in place.\<close>

definition ss_find :: "session_store \<Rightarrow> string \<Rightarrow> (doc \<Rightarrow> bool) \<Rightarrow> doc option" where
  "ss_find s c P = find P (ss_col s c)"

fun change_first :: "(doc \<Rightarrow> bool) \<Rightarrow> (doc \<Rightarrow> doc) \<Rightarrow> doc list \<Rightarrow> doc list" where
  "change_first P f [] = []"
| "change_first P f (d # ds) = (if P d then f d # ds else d # change_first P f ds)"

definition ss_change :: "string \<Rightarrow> (doc \<Rightarrow> bool) \<Rightarrow> (doc \<Rightarrow> doc) \<Rightarrow> session_store \<Rightarrow> session_store" where
  "ss_change c P f s = set_col c (change_first P f (ss_col s c)) s"

definition has_fields :: "(string \<times> val) list \<Rightarrow> doc \<Rightarrow> bool" where
  "has_fields fs d \<longleftrightarrow> (\<forall>f \<in> set fs. d_get d (fst f) = snd f)"

definition ss_upsert ::
    "string \<Rightarrow> (string \<times> val) list \<Rightarrow> (string \<times> val) list \<Rightarrow> (string \<times> val) list \<Rightarrow> session_store \<Rightarrow> session_store" where
  "ss_upsert c key fs on_insert s =
     (case ss_find s c (has_fields key) of
        Some _ \<Rightarrow> ss_change c (has_fields key) (put_all fs) s
      | None \<Rightarrow>
          (let i = VStr (itoa (Suc (ss_next s)));
               d = put_all fs (om_put ''_id'' i (put_all on_insert (doc_of key)))
           in set_col c (ss_col s c @ [d]) (s\<lparr>ss_next := Suc (ss_next s)\<rparr>)))"

section \<open>Shaping and matching\<close>

definition opt_str :: "string option \<Rightarrow> val" where
  "opt_str x = (case x of None \<Rightarrow> VNil | Some t \<Rightarrow> VStr t)"

definition host_doc :: "host_info \<Rightarrow> val" where
  "host_doc h = VObj (doc_of
     [(''hostname'', VStr (hi_hostname h)), (''ip'', opt_str (hi_ip h)), (''mac'', opt_str (hi_mac h)),
      (''username'', VStr (hi_username h)), (''uid'', VInt (hi_uid h)), (''platform'', VStr (hi_platform h)),
      (''arch'', VStr (hi_arch h)), (''os_release'', VStr (hi_os_release h)), (''os_type'', VStr (hi_os_type h))])"

definition host_field :: "host_info option \<Rightarrow> (string \<times> val) list" where
  "host_field h = (case h of None \<Rightarrow> [] | Some x \<Rightarrow> [(''host'', host_doc x)])"

definition redacted_field :: "string list \<Rightarrow> (string \<times> val) list" where
  "redacted_field rules = (if rules = [] then [] else [(''redacted'', VList (map VStr rules))])"

definition doc_owned :: "string \<Rightarrow> doc \<Rightarrow> bool" where
  "doc_owned acc d \<longleftrightarrow> str_of d ''account_id'' = acc"

text \<open>An empty set of values is no filter.\<close>

definition in_filter :: "string list \<Rightarrow> string \<Rightarrow> bool" where
  "in_filter vs v \<longleftrightarrow> vs = [] \<or> v \<in> set vs"

type_synonym regexps = "string \<Rightarrow> (string \<Rightarrow> bool) option"

definition compile_re :: "regexps \<Rightarrow> string \<Rightarrow> session_error + (string \<Rightarrow> bool) option" where
  "compile_re rx pattern =
     (if pattern = '''' then Inr None
      else (case rx (''(?i)'' @ pattern) of None \<Rightarrow> Inl BadRegexp | Some m \<Rightarrow> Inr (Some m)))"

definition re_matches :: "(string \<Rightarrow> bool) option \<Rightarrow> doc \<Rightarrow> string list \<Rightarrow> bool" where
  "re_matches re d keys =
     (case re of None \<Rightarrow> True
      | Some m \<Rightarrow> list_ex (\<lambda>k. case d_string d k of None \<Rightarrow> False | Some t \<Rightarrow> m t) keys)"

text \<open>\<open>page\<close>: an offset past the end is the empty page, a negative one indexes out of range.\<close>

definition take_limit :: "int \<Rightarrow> 'a list \<Rightarrow> 'a list" where
  "take_limit limit xs = (if 0 < limit \<and> limit < int (length xs) then take (nat limit) xs else xs)"

definition page_docs :: "doc list \<Rightarrow> int \<Rightarrow> int \<Rightarrow> session_error + doc list" where
  "page_docs ds offset limit =
     (if int (length ds) \<le> offset then Inr []
      else if offset < 0 then Inl IndexPanic
      else Inr (take_limit limit (drop (nat offset) ds)))"

section \<open>Sessions\<close>

definition session_fields :: "(string \<Rightarrow> (string \<times> string) option) \<Rightarrow> session_rec \<Rightarrow> (string \<times> val) list" where
  "session_fields up r =
     [(''session_id'', VStr (sr_session_id r)), (''last_seen'', VTime (sr_last_seen r))] @
     present
       [(''transcript_path'', sr_transcript_path r), (''cwd'', sr_cwd r), (''project_path'', sr_project_path r),
        (''git_origin'', sr_git_origin r), (''git_branch'', sr_git_branch r), (''account_id'', sr_account_id r),
        (''project_slug'', project_slug_of up (sr_project_slug r) (sr_git_origin r))] @
     host_field (sr_host r)"

definition upsert_session :: "(string \<Rightarrow> (string \<times> string) option) \<Rightarrow> session_rec \<Rightarrow> session_store \<Rightarrow> session_store" where
  "upsert_session up r s =
     ss_upsert sessions_col [(''session_id'', VStr (sr_session_id r))] (session_fields up r)
       [(''started_at'', VTime (sr_last_seen r))] s"

definition is_session :: "string \<Rightarrow> doc \<Rightarrow> bool" where
  "is_session sid d \<longleftrightarrow> d_get d ''session_id'' = VStr sid"

definition owned_session :: "string \<Rightarrow> string \<Rightarrow> doc \<Rightarrow> bool" where
  "owned_session acc sid d \<longleftrightarrow> is_session sid d \<and> doc_owned acc d"

definition touch_session_doc :: "string \<Rightarrow> string \<Rightarrow> int \<Rightarrow> session_store \<Rightarrow> session_store" where
  "touch_session_doc acc sid t s = ss_change sessions_col (owned_session acc sid) (om_put ''last_seen'' (VTime t)) s"

definition set_git_info_if_missing ::
    "(string \<Rightarrow> (string \<times> string) option) \<Rightarrow> string \<Rightarrow> string \<Rightarrow> string \<Rightarrow> session_store \<Rightarrow> session_store" where
  "set_git_info_if_missing up sid origin branch s =
     (case ss_find s sessions_col (is_session sid) of
        None \<Rightarrow> s
      | Some d \<Rightarrow>
          if d_get d ''git_origin'' \<noteq> VNil then s
          else ss_change sessions_col (is_session sid)
                 (put_all ((''git_origin'', VStr origin) #
                    present [(''project_slug'', project_slug_of up '''' origin), (''git_branch'', branch)])) s)"

definition set_model ::
    "string \<Rightarrow> string \<Rightarrow> string \<Rightarrow> int \<Rightarrow> session_store \<Rightarrow> session_store \<times> (session_error + string \<times> bool)" where
  "set_model acc sid model t s =
     (if model = '''' then (s, Inr ('''', False))
      else
        (case ss_find s sessions_col (owned_session acc sid) of
           None \<Rightarrow> (s, Inl SessNotFound)
         | Some d \<Rightarrow>
             (let previous = str_of d ''model''
              in if previous = model then (s, Inr (previous, False))
                 else (ss_change sessions_col (owned_session acc sid)
                         (put_all [(''model'', VStr model), (''model_changed_at'', VTime t)]) s,
                       Inr (previous, True)))))"

definition set_session_meta :: "string \<Rightarrow> string \<Rightarrow> doc \<Rightarrow> session_store \<Rightarrow> session_store \<times> session_error option" where
  "set_session_meta acc sid fs s =
     (if fs = [] then (s, None)
      else
        (case ss_find s sessions_col (owned_session acc sid) of
           None \<Rightarrow> (s, Some SessNotFound)
         | Some _ \<Rightarrow> (ss_change sessions_col (owned_session acc sid) (put_all fs) s, None)))"

definition set_live_state ::
    "string \<Rightarrow> string \<Rightarrow> string \<Rightarrow> string \<Rightarrow> int \<Rightarrow> session_store \<Rightarrow> session_store \<times> (session_error + string \<times> bool)" where
  "set_live_state acc sid state reason t s =
     (if state = '''' then (s, Inr ('''', False))
      else
        (case ss_find s sessions_col (owned_session acc sid) of
           None \<Rightarrow> (s, Inl SessNotFound)
         | Some d \<Rightarrow>
             (let previous = str_of d ''live_state''
              in if previous = state then (s, Inr (previous, False))
                 else (ss_change sessions_col (owned_session acc sid)
                         (put_all [(''live_state'', VStr state), (''live_state_at'', VTime t), (''live_state_reason'', VStr reason)]) s,
                       Inr (previous, True)))))"

section \<open>Events, lines and blobs\<close>

text \<open>The hash of a memory record, empty for any other event.\<close>

definition memory_hash :: "doc \<Rightarrow> string" where
  "memory_hash d = (if str_of d ''hook_event_name'' \<noteq> memory_event then '''' else str_of (d_sub d ''memory'') ''hash'')"

definition insert_hook_event :: "doc \<Rightarrow> session_store \<Rightarrow> session_store" where
  "insert_hook_event ev s =
     (let hash = memory_hash ev; acc = str_of ev ''account_id''
      in if hash \<noteq> '''' \<and> ss_find s hook_events_col (\<lambda>d. str_of d ''account_id'' = acc \<and> memory_hash d = hash) \<noteq> None
         then s
         else ss_insert hook_events_col ev s)"

record memory_delete =
  md_account_id :: string
  md_ids :: "string list"
  md_hashes :: "string list"

definition memory_selected :: "memory_delete \<Rightarrow> doc \<Rightarrow> bool" where
  "memory_selected q d \<longleftrightarrow>
     (let mem = d_sub d ''memory''; i = str_of mem ''id''; h = str_of mem ''hash''
      in str_of d ''hook_event_name'' = memory_event \<and> doc_owned (md_account_id q) d \<and>
         (i \<in> set (md_ids q) \<and> i \<noteq> '''' \<or> h \<in> set (md_hashes q) \<and> h \<noteq> ''''))"

definition delete_memory :: "memory_delete \<Rightarrow> session_store \<Rightarrow> session_store \<times> (session_error + int)" where
  "delete_memory q s =
     (if md_account_id q = '''' then (s, Inl SessNoAccount)
      else if md_ids q = [] \<and> md_hashes q = [] then (s, Inr 0)
      else
        (let ds = ss_col s hook_events_col
         in (set_col hook_events_col (filter (\<lambda>d. \<not> memory_selected q d) ds) s,
             Inr (int (length (filter (memory_selected q) ds))))))"

definition same_otel :: "otel_event \<Rightarrow> doc \<Rightarrow> bool" where
  "same_otel e d \<longleftrightarrow> doc_owned (ot_account_id e) d \<and> str_of d ''session_id'' = ot_session_id e \<and>
     str_of d ''name'' = ot_name e \<and> num_of d ''sequence'' = ot_sequence e \<and> time_of d ''timestamp'' = ot_timestamp e"

definition otel_doc :: "int \<Rightarrow> otel_event \<Rightarrow> doc" where
  "otel_doc now e =
     doc_of ([(''session_id'', VStr (ot_session_id e)), (''name'', VStr (ot_name e)), (''sequence'', VInt64 (ot_sequence e)),
              (''timestamp'', VTime (ot_timestamp e)), (''attributes'', VObj (ot_attributes e)), (''created_at'', VTime now)] @
             present [(''account_id'', ot_account_id e), (''prompt_id'', ot_prompt_id e)] @
             redacted_field (ot_redacted e))"

definition insert_otel :: "int \<Rightarrow> otel_event \<Rightarrow> session_store \<times> int \<Rightarrow> session_store \<times> int" where
  "insert_otel now e r =
     (if ss_find (fst r) otel_col (same_otel e) \<noteq> None then r
      else (ss_insert otel_col (otel_doc now e) (fst r), snd r + 1))"

definition insert_otel_events :: "int \<Rightarrow> otel_event list \<Rightarrow> session_store \<Rightarrow> session_store \<times> int" where
  "insert_otel_events now es s = fold (insert_otel now) es (s, 0)"

definition line_key :: "transcript_line \<Rightarrow> (string \<times> val) list" where
  "line_key l = [(''session_id'', VStr (tl_session_id l)), (''seq'', VInt (tl_seq l))]"

definition line_fields :: "transcript_line \<Rightarrow> (string \<times> val) list" where
  "line_fields l =
     [(''session_id'', VStr (tl_session_id l)), (''seq'', VInt (tl_seq l)), (''line'', tl_line l)] @
     present [(''account_id'', tl_account_id l)] @ host_field (tl_host l) @ redacted_field (tl_redacted l)"

definition upsert_transcript_line :: "int \<Rightarrow> transcript_line \<Rightarrow> session_store \<Rightarrow> session_store" where
  "upsert_transcript_line now l s = ss_upsert transcript_col (line_key l) (line_fields l) [(''created_at'', VTime now)] s"

definition upsert_transcript_lines :: "int \<Rightarrow> transcript_line list \<Rightarrow> session_store \<Rightarrow> session_store" where
  "upsert_transcript_lines now ls s = fold (upsert_transcript_line now) ls s"

definition agent_line_key :: "subagent_line \<Rightarrow> (string \<times> val) list" where
  "agent_line_key l =
     [(''session_id'', VStr (sl_session_id l)), (''subagent_id'', VStr (sl_subagent_id l)), (''seq'', VInt (sl_seq l))]"

definition upsert_subagent_line :: "int \<Rightarrow> subagent_line \<Rightarrow> session_store \<Rightarrow> session_store" where
  "upsert_subagent_line now l s =
     ss_upsert subagent_col (agent_line_key l)
       (agent_line_key l @ [(''line'', sl_line l)] @ present [(''account_id'', sl_account_id l)] @
        host_field (sl_host l) @ redacted_field (sl_redacted l))
       [(''created_at'', VTime now)] s"

definition blob_key :: "side_blob \<Rightarrow> (string \<times> val) list" where
  "blob_key b =
     [(''session_id'', VStr (sb_session_id b)), (''blob_type'', VStr (sb_blob_type b)), (''name'', VStr (sb_name b))]"

definition upsert_blob :: "int \<Rightarrow> side_blob \<Rightarrow> session_store \<Rightarrow> session_store" where
  "upsert_blob now b s =
     ss_upsert blobs_col (blob_key b)
       (blob_key b @ [(''content'', VStr (sb_content b)), (''encoding'', VStr (sb_encoding b))] @
        present [(''account_id'', sb_account_id b)] @ redacted_field (sb_redacted b))
       [(''created_at'', VTime now)] s"

section \<open>Deleting\<close>

record forget_query =
  fq_account_id :: string
  fq_session_ids :: "string list"
  fq_project_path_re :: string
  fq_before :: int
  fq_limit :: int
  fq_orphans :: bool

definition forget_empty :: "forget_query \<Rightarrow> bool" where
  "forget_empty q \<longleftrightarrow> fq_session_ids q = [] \<and> fq_project_path_re q = '''' \<and> fq_before q = 0"

record forgotten =
  fg_sessions :: "string list"
  fg_documents :: int
  fg_more :: bool

text \<open>A session record the criteria select, and the ids the limit leaves, the oldest first.\<close>

definition forget_matches :: "forget_query \<Rightarrow> (string \<Rightarrow> bool) option \<Rightarrow> doc \<Rightarrow> bool" where
  "forget_matches q re d \<longleftrightarrow>
     doc_owned (fq_account_id q) d \<and> in_filter (fq_session_ids q) (str_of d ''session_id'') \<and>
     (case re of None \<Rightarrow> True | Some m \<Rightarrow> m (str_of d ''project_path'')) \<and>
     (fq_before q = 0 \<or> time_of d ''last_seen'' < fq_before q)"

definition over_limit :: "int \<Rightarrow> 'a list \<Rightarrow> bool" where
  "over_limit limit xs \<longleftrightarrow> 0 < limit \<and> limit < int (length xs)"

text \<open>The first time of each orphan of a collection.\<close>

definition orphan_field :: "string \<Rightarrow> string" where
  "orphan_field c = (if c = otel_col then ''timestamp'' else ''created_at'')"

definition orphan_doc :: "forget_query \<Rightarrow> string list \<Rightarrow> string \<Rightarrow> doc \<Rightarrow> bool" where
  "orphan_doc q recorded field d \<longleftrightarrow>
     (let sid = str_of d ''session_id''; t = time_of d field
      in sid \<noteq> '''' \<and> doc_owned (fq_account_id q) d \<and> sid \<notin> set recorded \<and> in_filter (fq_session_ids q) sid \<and>
         t \<noteq> 0 \<and> t < fq_before q)"

definition note_first :: "string \<Rightarrow> doc \<Rightarrow> (string, int) omap \<Rightarrow> (string, int) omap" where
  "note_first field d first =
     (let sid = str_of d ''session_id''; t = time_of d field
      in case om_get first sid of
           None \<Rightarrow> om_put sid t first
         | Some prev \<Rightarrow> if t < prev then om_put sid t first else first)"

definition orphan_ids :: "forget_query \<Rightarrow> string list \<Rightarrow> string \<Rightarrow> doc list \<Rightarrow> string list" where
  "orphan_ids q recorded field ds =
     map fst (sort_key (\<lambda>p. (snd p, fst p)) (fold (note_first field) (filter (orphan_doc q recorded field) ds) []))"

definition orphan_cols :: "string list" where
  "orphan_cols = [hook_events_col, transcript_col, subagent_col, blobs_col, otel_col]"

definition recorded_ids :: "string \<Rightarrow> session_store \<Rightarrow> string list" where
  "recorded_ids acc s = map (\<lambda>d. str_of d ''session_id'') (filter (doc_owned acc) (ss_col s sessions_col))"

definition col_orphans :: "forget_query \<Rightarrow> session_store \<Rightarrow> string \<Rightarrow> string list" where
  "col_orphans q s c = orphan_ids q (recorded_ids (fq_account_id q) s) (orphan_field c) (ss_col s c)"

definition orphans :: "forget_query \<Rightarrow> session_store \<Rightarrow> string list \<times> bool" where
  "orphans q s =
     (concat (map (\<lambda>c. take_limit (fq_limit q) (col_orphans q s c)) orphan_cols),
      list_ex (\<lambda>c. over_limit (fq_limit q) (col_orphans q s c)) orphan_cols)"

text \<open>The ids a query selects, and whether a limit cut the selection short.\<close>

definition forget_ids :: "forget_query \<Rightarrow> (string \<Rightarrow> bool) option \<Rightarrow> session_store \<Rightarrow> string list \<times> bool" where
  "forget_ids q re s =
     (if re = None \<and> fq_before q = 0 then (fq_session_ids q, False)
      else
        (let found = sort_key (\<lambda>d. time_of d ''last_seen'') (filter (forget_matches q re) (ss_col s sessions_col));
             ids = map (\<lambda>d. str_of d ''session_id'') (take_limit (fq_limit q) found);
             more = over_limit (fq_limit q) found
         in if fq_orphans q \<and> re = None then (ids @ fst (orphans q s), more \<or> snd (orphans q s))
            else (ids, more)))"

definition forget_doc :: "string \<Rightarrow> string list \<Rightarrow> doc \<Rightarrow> bool" where
  "forget_doc acc ids d \<longleftrightarrow> doc_owned acc d \<and> str_of d ''session_id'' \<in> set ids"

text \<open>Every collection without the selected documents, and how many those are.\<close>

definition drop_docs :: "(doc \<Rightarrow> bool) \<Rightarrow> session_store \<Rightarrow> session_store" where
  "drop_docs P s = s\<lparr>ss_cols := om_map (filter (\<lambda>d. \<not> P d)) (ss_cols s)\<rparr>"

definition count_docs :: "(doc \<Rightarrow> bool) \<Rightarrow> session_store \<Rightarrow> int" where
  "count_docs P s = sum_list (map (\<lambda>c. int (length (filter P (snd c)))) (ss_cols s))"

definition delete_sessions :: "regexps \<Rightarrow> forget_query \<Rightarrow> session_store \<Rightarrow> session_store \<times> (session_error + forgotten)" where
  "delete_sessions rx q s =
     (if fq_account_id q = '''' then (s, Inl SessNoAccount)
      else if forget_empty q then (s, Inr \<lparr>fg_sessions = [], fg_documents = 0, fg_more = False\<rparr>)
      else
        (case compile_re rx (fq_project_path_re q) of
           Inl e \<Rightarrow> (s, Inl e)
         | Inr re \<Rightarrow>
             (let (ids, more) = forget_ids q re s
              in if ids = [] then (s, Inr \<lparr>fg_sessions = [], fg_documents = 0, fg_more = more\<rparr>)
                 else (drop_docs (forget_doc (fq_account_id q) ids) s,
                       Inr \<lparr>fg_sessions = sort (remdups ids),
                            fg_documents = count_docs (forget_doc (fq_account_id q) ids) s, fg_more = more\<rparr>))))"

definition delete_account :: "string \<Rightarrow> session_store \<Rightarrow> session_store \<times> (session_error + int)" where
  "delete_account acc s =
     (if acc = '''' then (s, Inl SessNoAccount)
      else (drop_docs (doc_owned acc) s, Inr (count_docs (doc_owned acc) s)))"

record content_purged =
  cp_deleted :: int
  cp_stripped :: int
  cp_sessions :: int

definition purge_selected :: "string \<Rightarrow> string list \<Rightarrow> doc \<Rightarrow> bool" where
  "purge_selected acc ids d \<longleftrightarrow> doc_owned acc d \<and> in_filter ids (str_of d ''session_id'')"

definition purge_cols :: "string list" where
  "purge_cols = [transcript_col, subagent_col, blobs_col]"

text \<open>Taking a field of a session record that holds content.\<close>

definition strip_session :: "doc \<Rightarrow> doc \<times> bool" where
  "strip_session d = drop_fields session_content_fields (d, False)"

definition strip_where :: "(doc \<Rightarrow> bool) \<Rightarrow> (doc \<Rightarrow> doc \<times> bool) \<Rightarrow> doc \<Rightarrow> doc" where
  "strip_where P f d = (if P d \<and> snd (f d) then fst (f d) else d)"

definition drop_in :: "string list \<Rightarrow> (doc \<Rightarrow> bool) \<Rightarrow> session_store \<Rightarrow> session_store" where
  "drop_in cs P s = fold (\<lambda>c t. set_col c (filter (\<lambda>d. \<not> P d) (ss_col t c)) t) cs s"

definition map_col :: "string \<Rightarrow> (doc \<Rightarrow> doc) \<Rightarrow> session_store \<Rightarrow> session_store" where
  "map_col c g s = set_col c (map g (ss_col s c)) s"

definition count_in :: "string list \<Rightarrow> (doc \<Rightarrow> bool) \<Rightarrow> session_store \<Rightarrow> int" where
  "count_in cs P s = sum_list (map (\<lambda>c. int (length (filter P (ss_col s c)))) cs)"

definition purge_content ::
    "string \<Rightarrow> string list \<Rightarrow> session_store \<Rightarrow> session_store \<times> (session_error + content_purged)" where
  "purge_content acc ids s =
     (if acc = '''' then (s, Inl SessNoAccount)
      else
        (let P = purge_selected acc ids;
             s1 = drop_in purge_cols P s;
             s2 = map_col hook_events_col (strip_where P without_content) s1;
             s3 = map_col sessions_col (strip_where P strip_session) s2
         in (s3, Inr \<lparr>cp_deleted = count_in purge_cols P s,
                      cp_stripped = count_in [hook_events_col] (\<lambda>d. P d \<and> snd (without_content d)) s1,
                      cp_sessions = count_in [sessions_col] (\<lambda>d. P d \<and> snd (strip_session d)) s2\<rparr>)))"

section \<open>Enrichments\<close>

text \<open>An enricher's result is kept as the document it encodes to, an embedding with its vector as bytes.\<close>

record embedding =
  em_model :: string
  em_dim :: int
  em_v :: "int list"
  em_scale :: "int \<times> int"

datatype enrich_result = Plain val | Embedded embedding

definition embedding_doc :: "embedding \<Rightarrow> val" where
  "embedding_doc e = VObj (doc_of
     [(''model'', VStr (em_model e)), (''dim'', VInt (em_dim e)), (''v'', VBytes (em_v e)),
      (''scale'', VFloat (fst (em_scale e)) (snd (em_scale e)))])"

definition storable :: "enrich_result \<Rightarrow> val" where
  "storable r = (case r of Plain v \<Rightarrow> v | Embedded e \<Rightarrow> embedding_doc e)"

definition set_enrichment_field :: "string \<Rightarrow> val \<Rightarrow> string \<Rightarrow> enrich_result \<Rightarrow> session_store \<Rightarrow> session_store" where
  "set_enrichment_field c i field r s =
     ss_change c (\<lambda>d. d_get d ''_id'' = i)
       (\<lambda>d. om_put ''enrichments'' (VObj (om_put field (storable r) (d_sub d ''enrichments''))) d) s"

definition set_enrichment :: "string \<Rightarrow> val \<Rightarrow> string \<Rightarrow> enrich_result \<Rightarrow> session_store \<Rightarrow> session_store" where
  "set_enrichment c i enricher r s = set_enrichment_field c i enricher r s"

definition set_enrichment_failure :: "string \<Rightarrow> val \<Rightarrow> string \<Rightarrow> string \<Rightarrow> int \<Rightarrow> session_store \<Rightarrow> session_store" where
  "set_enrichment_failure c i enricher message t s =
     set_enrichment_field c i (enricher @ ''_failed'')
       (Plain (VObj (doc_of [(''message'', VStr message), (''at'', VTime t)]))) s"

definition set_enrichment_skipped :: "string \<Rightarrow> val \<Rightarrow> string \<Rightarrow> session_store \<Rightarrow> session_store" where
  "set_enrichment_skipped c i enricher s = set_enrichment_field c i (enricher @ ''_skipped'') (Plain (VBool True)) s"

definition skipped :: "string \<Rightarrow> string \<Rightarrow> doc \<Rightarrow> bool" where
  "skipped acc enricher d \<longleftrightarrow> doc_owned acc d \<and> om_get (d_sub d ''enrichments'') (enricher @ ''_skipped'') \<noteq> None"

definition unskip :: "string \<Rightarrow> doc \<Rightarrow> doc" where
  "unskip enricher d = om_put ''enrichments'' (VObj (om_del (enricher @ ''_skipped'') (d_sub d ''enrichments''))) d"

definition requeue_skipped :: "string \<Rightarrow> string \<Rightarrow> string \<Rightarrow> session_store \<Rightarrow> session_store \<times> (session_error + int)" where
  "requeue_skipped c acc enricher s =
     (if acc = '''' then (s, Inl SessNoAccount)
      else
        (map_col c (\<lambda>d. if skipped acc enricher d then unskip enricher d else d) s,
         Inr (count_in [c] (skipped acc enricher) s)))"

definition unenriched_doc :: "string \<Rightarrow> doc \<Rightarrow> bool" where
  "unenriched_doc enricher d \<longleftrightarrow>
     (let e = d_sub d ''enrichments''
      in d_get e enricher = VNil \<and> d_get e (enricher @ ''_failed'') = VNil \<and> d_get e (enricher @ ''_skipped'') = VNil)"

definition unenriched :: "string \<Rightarrow> string \<Rightarrow> int \<Rightarrow> session_store \<Rightarrow> doc list" where
  "unenriched c enricher limit s = take_limit limit (filter (unenriched_doc enricher) (ss_col s c))"

end
