(* ===== verification/Session_Facts.thy ===== *)
theory Session_Facts
  imports Session_Store
begin

text \<open>
  What holds of the store of sessions: the keys of its collections are unique however it came
  about, an account's operations leave the documents of the others alone, deleting deletes exactly
  what it says, purging keeps all but the content and is done after one call, and the limits of a
  deletion only delay it.
\<close>

section \<open>Reading what was written\<close>

lemma ss_col_set [simp]: "ss_col (set_col c ds s) c' = (if c' = c then ds else ss_col s c')"
  by (simp add: ss_col_def set_col_def)

lemma ss_next_set [simp]: "ss_next (set_col c ds s) = ss_next s"
  by (simp add: set_col_def)

lemma ss_col_next [simp]: "ss_col (s\<lparr>ss_next := n\<rparr>) c = ss_col s c"
  by (simp add: ss_col_def)

lemma ss_col_new [simp]: "ss_col new_session_store c = []"
  by (simp add: ss_col_def new_session_store_def)

lemma ss_col_insert: "ss_col (ss_insert c d s) c' =
    (if c' = c then ss_col s c @ [om_put ''_id'' (VStr (itoa (Suc (ss_next s)))) d] else ss_col s c')"
  by (simp add: ss_insert_def)

lemma ss_col_change: "ss_col (ss_change c P f s) c' = (if c' = c then change_first P f (ss_col s c) else ss_col s c')"
  by (simp add: ss_change_def)

lemma ss_col_drop [simp]: "ss_col (drop_docs P s) c = filter (\<lambda>d. \<not> P d) (ss_col s c)"
  by (simp add: ss_col_def drop_docs_def split: option.splits)

lemma ss_col_map [simp]: "ss_col (map_col c g s) c' = (if c' = c then map g (ss_col s c) else ss_col s c')"
  by (simp add: map_col_def)

lemma ss_col_drop_in: "ss_col (drop_in cs P s) c = (if c \<in> set cs then filter (\<lambda>d. \<not> P d) (ss_col s c) else ss_col s c)"
  unfolding drop_in_def by (induction cs arbitrary: s) auto

lemma om_get_put_all_append: "k \<notin> fst ` set b \<Longrightarrow> om_get (put_all (a @ b) d) k = om_get (put_all a d) k"
  using put_all_notin [of k b "put_all a d"] by (simp add: put_all_def)

lemma om_get_put_all_Cons: "k \<notin> fst ` set fs \<Longrightarrow> om_get (put_all ((a, v) # fs) d) k = (if k = a then Some v else om_get d k)"
  using put_all_notin [of k fs "om_put a v d"] by (simp add: put_all_def)

lemma present_names: "fst ` set (present fs) \<subseteq> fst ` set fs"
  by (force simp: present_def)

lemma host_names: "fst ` set (host_field h) \<subseteq> {''host''}"
  by (cases h) (simp_all add: host_field_def)

lemma redacted_names: "fst ` set (redacted_field r) \<subseteq> {''redacted''}"
  by (simp add: redacted_field_def)

section \<open>Keys\<close>

text \<open>The key of a document in its collection; not every hook event has one.\<close>

definition doc_key :: "string \<Rightarrow> doc \<Rightarrow> val list option" where
  "doc_key c d =
     (if c = sessions_col then Some [d_get d ''session_id'']
      else if c = transcript_col then Some [d_get d ''session_id'', d_get d ''seq'']
      else if c = subagent_col then Some [d_get d ''session_id'', d_get d ''subagent_id'', d_get d ''seq'']
      else if c = blobs_col then Some [d_get d ''session_id'', d_get d ''blob_type'', d_get d ''name'']
      else if c = otel_col then
        Some [VStr (str_of d ''account_id''), VStr (str_of d ''session_id''), VStr (str_of d ''name''),
              VInt (num_of d ''sequence''), VTime (time_of d ''timestamp'')]
      else if c = hook_events_col \<and> memory_hash d \<noteq> '''' then Some [VStr (str_of d ''account_id''), VStr (memory_hash d)]
      else None)"

definition keys_of :: "string \<Rightarrow> doc list \<Rightarrow> val list list" where
  "keys_of c ds = List.map_filter (doc_key c) ds"

definition session_inv :: "session_store \<Rightarrow> bool" where
  "session_inv s \<longleftrightarrow>
     (\<forall>c. distinct (keys_of c (ss_col s c)) \<and> distinct (map (\<lambda>d. d_get d ''_id'') (ss_col s c)) \<and>
          (\<forall>d \<in> set (ss_col s c). \<exists>k \<le> ss_next s. d_get d ''_id'' = VStr (itoa k)))"

lemma keys_simps [simp]:
  "keys_of c [] = []" "keys_of c (a @ b) = keys_of c a @ keys_of c b"
  "keys_of c (d # ds) = (case doc_key c d of None \<Rightarrow> keys_of c ds | Some k \<Rightarrow> k # keys_of c ds)"
  by (simp_all add: keys_of_def List.map_filter_def split: option.splits)

lemma set_keys: "k \<in> set (keys_of c ds) \<longleftrightarrow> (\<exists>d \<in> set ds. doc_key c d = Some k)"
  by (induction ds) (auto split: option.splits)

lemma keys_filter: "distinct (keys_of c ds) \<Longrightarrow> distinct (keys_of c (filter P ds))"
  by (induction ds) (auto simp: set_keys split: option.splits)

lemma keys_map: "\<forall>d \<in> set ds. doc_key c (g d) = doc_key c d \<Longrightarrow> keys_of c (map g ds) = keys_of c ds"
  by (induction ds) (auto split: option.splits)

lemma change_first_as_list:
  "(\<And>d. d \<in> set ds \<Longrightarrow> P d \<Longrightarrow> h (f d) = h d) \<Longrightarrow> map h (change_first P f ds) = map h ds"
  by (induction ds) auto

lemma keys_change: "(\<And>d. d \<in> set ds \<Longrightarrow> P d \<Longrightarrow> doc_key c (f d) = doc_key c d) \<Longrightarrow> keys_of c (change_first P f ds) = keys_of c ds"
  by (induction ds) (auto split: option.splits)

lemma set_change_first: "e \<in> set (change_first P f ds) \<Longrightarrow> e \<in> set ds \<or> (\<exists>d \<in> set ds. P d \<and> e = f d)"
  by (induction ds) (auto split: if_splits)

text \<open>A document keeps its key and its id when the fields they are read from stay.\<close>

definition key_fields :: "string list" where
  "key_fields = [''_id'', ''account_id'', ''session_id'', ''seq'', ''subagent_id'', ''blob_type'', ''name'',
     ''sequence'', ''timestamp'', ''hook_event_name'', ''memory'']"

definition same_fields :: "doc \<Rightarrow> doc \<Rightarrow> bool" where
  "same_fields d d' \<longleftrightarrow> (\<forall>k \<in> set key_fields. om_get d k = om_get d' k)"

lemma same_fields_key: "same_fields d d' \<Longrightarrow> doc_key c d = doc_key c d' \<and> d_get d ''_id'' = d_get d' ''_id''"
proof -
  assume "same_fields d d'"
  then have g: "om_get d k = om_get d' k" if "k \<in> set key_fields" for k using that by (simp add: same_fields_def)
  note f = g [unfolded key_fields_def, simplified]
  note r = readers_cong [OF f, of "''_id''"] readers_cong [OF f, of "''account_id''"] readers_cong [OF f, of "''session_id''"]
    readers_cong [OF f, of "''seq''"] readers_cong [OF f, of "''subagent_id''"] readers_cong [OF f, of "''blob_type''"]
    readers_cong [OF f, of "''name''"] readers_cong [OF f, of "''sequence''"] readers_cong [OF f, of "''timestamp''"]
    readers_cong [OF f, of "''hook_event_name''"] readers_cong [OF f, of "''memory''"]
  show ?thesis unfolding doc_key_def memory_hash_def by (simp only: r simp_thms list.inject char.inject)
qed

lemma same_fieldsI: "(\<And>k. k \<in> set key_fields \<Longrightarrow> om_get d' k = om_get d k) \<Longrightarrow> same_fields d' d"
  by (simp add: same_fields_def)

lemma same_fields_put: "k \<notin> set key_fields \<Longrightarrow> same_fields (om_put k v d) d"
  by (auto simp: same_fields_def)

lemma same_fields_put_all: "fst ` set fs \<inter> set key_fields = {} \<Longrightarrow> same_fields (put_all fs d) d"
  by (intro same_fieldsI put_all_notin) blast

section \<open>The operations keep the keys unique\<close>

lemma inv_col:
  "session_inv s \<Longrightarrow> distinct (keys_of c (ss_col s c))"
  "session_inv s \<Longrightarrow> distinct (map (\<lambda>d. d_get d ''_id'') (ss_col s c))"
  "session_inv s \<Longrightarrow> d \<in> set (ss_col s c) \<Longrightarrow> \<exists>k \<le> ss_next s. d_get d ''_id'' = VStr (itoa k)"
  by (simp_all add: session_inv_def)

lemma session_inv_new: "session_inv new_session_store"
  by (simp add: session_inv_def)

lemma session_inv_set:
  assumes "session_inv s" "distinct (keys_of c ds)" "distinct (map (\<lambda>d. d_get d ''_id'') ds)"
    "\<forall>d \<in> set ds. \<exists>k \<le> ss_next s. d_get d ''_id'' = VStr (itoa k)"
  shows "session_inv (set_col c ds s)"
  using assms by (simp add: session_inv_def)

lemma session_inv_filter: "session_inv s \<Longrightarrow> session_inv (set_col c (filter P (ss_col s c)) s)"
  by (rule session_inv_set) (auto simp: inv_col keys_filter distinct_map_filter)

lemma session_inv_map:
  "session_inv s \<Longrightarrow> \<forall>d \<in> set (ss_col s c). doc_key c (g d) = doc_key c d \<and> d_get (g d) ''_id'' = d_get d ''_id'' \<Longrightarrow>
     session_inv (map_col c g s)"
  unfolding map_col_def by (rule session_inv_set) (auto simp: inv_col keys_map comp_def cong: map_cong)

lemma session_inv_change:
  assumes "session_inv s"
    "\<And>d. d \<in> set (ss_col s c) \<Longrightarrow> P d \<Longrightarrow> doc_key c (f d) = doc_key c d \<and> d_get (f d) ''_id'' = d_get d ''_id''"
  shows "session_inv (ss_change c P f s)"
  unfolding ss_change_def
proof (rule session_inv_set)
  show "distinct (keys_of c (change_first P f (ss_col s c)))"
    using assms by (simp add: keys_change inv_col)
  show "distinct (map (\<lambda>d. d_get d ''_id'') (change_first P f (ss_col s c)))"
    using assms by (simp add: change_first_as_list inv_col)
  show "\<forall>d \<in> set (change_first P f (ss_col s c)). \<exists>k \<le> ss_next s. d_get d ''_id'' = VStr (itoa k)"
  proof
    fix e assume "e \<in> set (change_first P f (ss_col s c))"
    then consider "e \<in> set (ss_col s c)" | d where "d \<in> set (ss_col s c)" "P d" "e = f d"
      using set_change_first by metis
    then show "\<exists>k \<le> ss_next s. d_get e ''_id'' = VStr (itoa k)"
      by cases (use assms(2) inv_col(3) [OF assms(1)] in auto)
  qed
qed (rule assms(1))

lemma itoa_inj: "itoa m = itoa n \<Longrightarrow> m = n"
  by (metis nat_of_digits_itoa)

text \<open>A new document with the next id and a key that is not in use.\<close>

lemma session_inv_add:
  assumes "session_inv s" "d_get d ''_id'' = VStr (itoa (Suc (ss_next s)))"
    "\<And>k. doc_key c d = Some k \<Longrightarrow> k \<notin> set (keys_of c (ss_col s c))"
  shows "session_inv (set_col c (ss_col s c @ [d]) (s\<lparr>ss_next := Suc (ss_next s)\<rparr>))"
proof (rule session_inv_set)
  show "session_inv (s\<lparr>ss_next := Suc (ss_next s)\<rparr>)"
    using assms(1) le_SucI unfolding session_inv_def by (simp, blast)
  show "distinct (keys_of c (ss_col s c @ [d]))"
    using assms(3) inv_col(1) [OF assms(1)] by (simp split: option.splits)
  have "d_get d ''_id'' \<notin> (\<lambda>d. d_get d ''_id'') ` set (ss_col s c)"
  proof
    assume "d_get d ''_id'' \<in> (\<lambda>d. d_get d ''_id'') ` set (ss_col s c)"
    then obtain e where e: "e \<in> set (ss_col s c)" "d_get d ''_id'' = d_get e ''_id''" by auto
    obtain k where "k \<le> ss_next s" "d_get e ''_id'' = VStr (itoa k)" using inv_col(3) [OF assms(1) e(1)] by blast
    then show False using e(2) assms(2) itoa_inj [of "Suc (ss_next s)" k] by simp
  qed
  then show "distinct (map (\<lambda>d. d_get d ''_id'') (ss_col s c @ [d]))"
    using inv_col(2) [OF assms(1), of c] by auto
  show "\<forall>e \<in> set (ss_col s c @ [d]). \<exists>k \<le> ss_next (s\<lparr>ss_next := Suc (ss_next s)\<rparr>). d_get e ''_id'' = VStr (itoa k)"
  proof
    fix e assume "e \<in> set (ss_col s c @ [d])"
    then consider "e \<in> set (ss_col s c)" | "e = d" by auto
    then show "\<exists>k \<le> ss_next (s\<lparr>ss_next := Suc (ss_next s)\<rparr>). d_get e ''_id'' = VStr (itoa k)"
    proof cases
      case 1
      then obtain k where "k \<le> ss_next s" "d_get e ''_id'' = VStr (itoa k)" using inv_col(3) [OF assms(1)] by blast
      then show ?thesis by (intro exI [of _ k]) simp
    next
      case 2
      then show ?thesis using assms(2) by (intro exI [of _ "Suc (ss_next s)"]) simp
    qed
  qed
qed

lemma put_all_fixed:
  assumes "f \<in> set a" "distinct (map fst a)" "fst f \<notin> fst ` set b"
  shows "om_get (put_all (a @ b) d) (fst f) = Some (snd f)"
  using om_get_put_all_append [OF assms(3)] put_all_in [OF assms(2,1)] by simp

lemma has_fields_iff: "has_fields key d \<longleftrightarrow> map (d_get d) (map fst key) = map snd key"
  by (induction key) (auto simp: has_fields_def)

lemma session_inv_upsert:
  assumes inv: "session_inv s" and key: "\<And>d. doc_key c d = Some (map (d_get d) (map fst key))"
    and fs: "\<And>d f. f \<in> set key \<Longrightarrow> om_get (put_all fs d) (fst f) = Some (snd f)" and i: "''_id'' \<notin> fst ` set fs"
  shows "session_inv (ss_upsert c key fs on_insert s)"
proof -
  have new: "map (d_get (put_all fs d)) (map fst key) = map snd key" for d
    using fs by (simp add: d_get_def)
  have i': "d_get (put_all fs d) ''_id'' = d_get d ''_id''" for d
    using put_all_notin [OF i] by (simp add: d_get_def)
  show ?thesis
  proof (cases "ss_find s c (has_fields key)")
    case None
    then have none: "\<not> has_fields key d" if "d \<in> set (ss_col s c)" for d
      using that by (auto simp: ss_find_def find_None_iff)
    show ?thesis unfolding ss_upsert_def None option.case Let_def
    proof (rule session_inv_add [OF inv])
      show "d_get (put_all fs (om_put ''_id'' (VStr (itoa (Suc (ss_next s)))) (put_all on_insert (doc_of key)))) ''_id'' =
          VStr (itoa (Suc (ss_next s)))" by (simp add: i')
      fix k assume k: "doc_key c (put_all fs (om_put ''_id'' (VStr (itoa (Suc (ss_next s)))) (put_all on_insert (doc_of key)))) = Some k"
      then have "k = map snd key" using new unfolding key by blast
      then show "k \<notin> set (keys_of c (ss_col s c))" using none key by (auto simp: set_keys has_fields_iff)
    qed
  next
    case (Some d)
    show ?thesis unfolding ss_upsert_def Some option.case
      using key new i' by (intro session_inv_change [OF inv]) (simp add: has_fields_iff)
  qed
qed

lemma tail_names:
  "fst ` set (present fs @ host_field h) \<subseteq> {''host'', ''redacted''} \<union> fst ` set fs"
  "fst ` set (present fs @ host_field h @ redacted_field r) \<subseteq> {''host'', ''redacted''} \<union> fst ` set fs"
  "fst ` set (present fs @ redacted_field r) \<subseteq> {''host'', ''redacted''} \<union> fst ` set fs"
  using present_names [of fs] host_names [of h] redacted_names [of r] unfolding set_append image_Un by blast+

lemma upsert_session_inv [wf_intros]: "session_inv s \<Longrightarrow> session_inv (upsert_session up r s)"
  unfolding upsert_session_def
proof (rule session_inv_upsert)
  let ?b = "present
       [(''transcript_path'', sr_transcript_path r), (''cwd'', sr_cwd r), (''project_path'', sr_project_path r),
        (''git_origin'', sr_git_origin r), (''git_branch'', sr_git_branch r), (''account_id'', sr_account_id r),
        (''project_slug'', project_slug_of up (sr_project_slug r) (sr_git_origin r))] @ host_field (sr_host r)"
  have n: "k \<notin> fst ` set ?b" if "k \<in> {''session_id'', ''_id''}" for k
    by (rule notI, drule subsetD [OF tail_names(1)]) (use that in auto)
  show "om_get (put_all (session_fields up r) d) (fst f) = Some (snd f)"
    if "f \<in> set [(''session_id'', VStr (sr_session_id r))]" for d f
    unfolding session_fields_def
  proof (rule put_all_fixed)
    show "fst f \<notin> fst ` set ?b" by (rule n) (use that in auto)
  qed (use that in auto)
  show "''_id'' \<notin> fst ` set (session_fields up r)" using n [of "''_id''"] by (simp add: session_fields_def)
qed (simp_all add: doc_key_def)

lemma upsert_line_inv [wf_intros]: "session_inv s \<Longrightarrow> session_inv (upsert_transcript_line now l s)"
  unfolding upsert_transcript_line_def
proof (rule session_inv_upsert)
  have n: "k \<notin> fst ` set (present [(''account_id'', tl_account_id l)] @ host_field (tl_host l) @ redacted_field (tl_redacted l))"
    if "k \<in> {''session_id'', ''seq'', ''_id''}" for k
    by (rule notI, drule subsetD [OF tail_names(2)]) (use that in auto)
  show "om_get (put_all (line_fields l) d) (fst f) = Some (snd f)" if "f \<in> set (line_key l)" for d f
    unfolding line_fields_def
  proof (rule put_all_fixed)
    have "fst f \<in> {''session_id'', ''seq'', ''_id''}" using that by (auto simp: line_key_def)
    then show "fst f \<notin> fst ` set (present [(''account_id'', tl_account_id l)] @ host_field (tl_host l) @ redacted_field (tl_redacted l))" by (rule n)
  qed (use that in \<open>auto simp: line_key_def\<close>)
  show "''_id'' \<notin> fst ` set (line_fields l)" using n [of "''_id''"] by (simp add: line_fields_def)
qed (auto simp: doc_key_def line_key_def col_defs)

lemma upsert_agent_line_inv [wf_intros]: "session_inv s \<Longrightarrow> session_inv (upsert_subagent_line now l s)"
  unfolding upsert_subagent_line_def
proof (rule session_inv_upsert)
  have n: "k \<notin> fst ` set (present [(''account_id'', sl_account_id l)] @ host_field (sl_host l) @ redacted_field (sl_redacted l))"
    if "k \<in> {''session_id'', ''subagent_id'', ''seq'', ''_id''}" for k
    by (rule notI, drule subsetD [OF tail_names(2)]) (use that in auto)
  show "om_get (put_all (agent_line_key l @ [(''line'', sl_line l)] @ present [(''account_id'', sl_account_id l)] @
      host_field (sl_host l) @ redacted_field (sl_redacted l)) d) (fst f) = Some (snd f)" if "f \<in> set (agent_line_key l)" for d f
    unfolding append_assoc [symmetric, of "agent_line_key l"]
  proof (rule put_all_fixed)
    have "fst f \<in> {''session_id'', ''subagent_id'', ''seq'', ''_id''}" using that by (auto simp: agent_line_key_def)
    then show "fst f \<notin> fst ` set (present [(''account_id'', sl_account_id l)] @ host_field (sl_host l) @ redacted_field (sl_redacted l))" by (rule n)
  qed (use that in \<open>auto simp: agent_line_key_def\<close>)
  show "''_id'' \<notin> fst ` set (agent_line_key l @ [(''line'', sl_line l)] @ present [(''account_id'', sl_account_id l)] @
      host_field (sl_host l) @ redacted_field (sl_redacted l))" using n [of "''_id''"] by (simp add: agent_line_key_def)
qed (auto simp: doc_key_def agent_line_key_def col_defs)

lemma upsert_blob_inv [wf_intros]: "session_inv s \<Longrightarrow> session_inv (upsert_blob now b s)"
  unfolding upsert_blob_def
proof (rule session_inv_upsert)
  have n: "k \<notin> fst ` set (present [(''account_id'', sb_account_id b)] @ redacted_field (sb_redacted b))"
    if "k \<in> {''session_id'', ''blob_type'', ''name'', ''_id''}" for k
    by (rule notI, drule subsetD [OF tail_names(3)]) (use that in auto)
  show "om_get (put_all (blob_key b @ [(''content'', VStr (sb_content b)), (''encoding'', VStr (sb_encoding b))] @
      present [(''account_id'', sb_account_id b)] @ redacted_field (sb_redacted b)) d) (fst f) = Some (snd f)" if "f \<in> set (blob_key b)" for d f
    unfolding append_assoc [symmetric, of "blob_key b"]
  proof (rule put_all_fixed)
    have "fst f \<in> {''session_id'', ''blob_type'', ''name'', ''_id''}" using that by (auto simp: blob_key_def)
    then show "fst f \<notin> fst ` set (present [(''account_id'', sb_account_id b)] @ redacted_field (sb_redacted b))" by (rule n)
  qed (use that in \<open>auto simp: blob_key_def\<close>)
  show "''_id'' \<notin> fst ` set (blob_key b @ [(''content'', VStr (sb_content b)), (''encoding'', VStr (sb_encoding b))] @
      present [(''account_id'', sb_account_id b)] @ redacted_field (sb_redacted b))" using n [of "''_id''"] by (simp add: blob_key_def)
qed (auto simp: doc_key_def blob_key_def col_defs)

lemma session_inv_change_same:
  "session_inv s \<Longrightarrow> (\<And>d. same_fields (f d) d) \<Longrightarrow> session_inv (ss_change c P f s)"
  using same_fields_key by (intro session_inv_change) blast+

lemma touch_inv [wf_intros]: "session_inv s \<Longrightarrow> session_inv (touch_session_doc acc sid t s)"
  unfolding touch_session_doc_def by (rule session_inv_change_same) (auto intro: same_fields_put simp: key_fields_def)

lemma set_git_info_inv [wf_intros]: "session_inv s \<Longrightarrow> session_inv (set_git_info_if_missing up sid origin branch s)"
proof -
  assume inv: "session_inv s"
  let ?fs = "(''git_origin'', VStr origin) # present [(''project_slug'', project_slug_of up '''' origin), (''git_branch'', branch)]"
  have "fst ` set ?fs \<subseteq> {''git_origin'', ''project_slug'', ''git_branch''}"
    using present_names [of "[(''project_slug'', project_slug_of up '''' origin), (''git_branch'', branch)]"] by auto
  then have "fst ` set ?fs \<inter> set key_fields = {}" unfolding key_fields_def by auto
  then have "session_inv (ss_change sessions_col (is_session sid) (put_all ?fs) s)"
    by (intro session_inv_change_same [OF inv] same_fields_put_all)
  then show ?thesis using inv by (simp add: set_git_info_if_missing_def split: option.splits)
qed

lemma set_model_inv [wf_intros]: "session_inv s \<Longrightarrow> session_inv (fst (set_model acc sid model t s))"
  by (auto simp: set_model_def Let_def key_fields_def split: option.splits intro!: session_inv_change_same same_fields_put_all)

lemma set_live_state_inv [wf_intros]: "session_inv s \<Longrightarrow> session_inv (fst (set_live_state acc sid state reason t s))"
  by (auto simp: set_live_state_def Let_def key_fields_def split: option.splits intro!: session_inv_change_same same_fields_put_all)

lemma set_session_meta_inv [wf_intros]:
  "session_inv s \<Longrightarrow> fst ` set fs \<inter> set key_fields = {} \<Longrightarrow> session_inv (fst (set_session_meta acc sid fs s))"
  by (auto simp: set_session_meta_def split: option.splits intro: session_inv_change_same same_fields_put_all)

text \<open>Assigning the id changes no key.\<close>

lemma doc_key_id: "doc_key c (om_put ''_id'' i d) = doc_key c d"
proof -
  have r: "om_get (om_put ''_id'' i d) k = om_get d k" if "k \<noteq> ''_id''" for k using that by simp
  note rs = readers_cong [OF r, of "''account_id''"] readers_cong [OF r, of "''session_id''"]
    readers_cong [OF r, of "''seq''"] readers_cong [OF r, of "''subagent_id''"] readers_cong [OF r, of "''blob_type''"]
    readers_cong [OF r, of "''name''"] readers_cong [OF r, of "''sequence''"] readers_cong [OF r, of "''timestamp''"]
    readers_cong [OF r, of "''hook_event_name''"] readers_cong [OF r, of "''memory''"]
  show ?thesis unfolding doc_key_def memory_hash_def by (simp add: rs)
qed

lemma session_inv_insert:
  assumes "session_inv s" "\<And>k. doc_key c d = Some k \<Longrightarrow> k \<notin> set (keys_of c (ss_col s c))"
  shows "session_inv (ss_insert c d s)"
  unfolding ss_insert_def by (rule session_inv_add [OF assms(1)]) (use assms(2) in \<open>simp_all add: doc_key_id\<close>)

lemma total_keys:
  "doc_key sessions_col d = Some [d_get d ''session_id'']"
  "doc_key transcript_col d = Some [d_get d ''session_id'', d_get d ''seq'']"
  "doc_key subagent_col d = Some [d_get d ''session_id'', d_get d ''subagent_id'', d_get d ''seq'']"
  "doc_key blobs_col d = Some [d_get d ''session_id'', d_get d ''blob_type'', d_get d ''name'']"
  by (simp_all add: doc_key_def col_defs)

lemma hook_key: "doc_key hook_events_col d = (if memory_hash d = '''' then None else Some [VStr (str_of d ''account_id''), VStr (memory_hash d)])"
  by (simp add: doc_key_def col_defs)

lemma insert_hook_event_inv [wf_intros]: "session_inv s \<Longrightarrow> session_inv (insert_hook_event ev s)"
proof -
  assume inv: "session_inv s"
  have "session_inv (ss_insert hook_events_col ev s)"
    if "\<not> (memory_hash ev \<noteq> '''' \<and> ss_find s hook_events_col (\<lambda>d. str_of d ''account_id'' = str_of ev ''account_id'' \<and> memory_hash d = memory_hash ev) \<noteq> None)"
  proof (rule session_inv_insert [OF inv])
    fix k assume "doc_key hook_events_col ev = Some k"
    then show "k \<notin> set (keys_of hook_events_col (ss_col s hook_events_col))"
      using that by (auto simp: hook_key set_keys ss_find_def find_None_iff split: if_splits)
  qed
  then show ?thesis using inv unfolding insert_hook_event_def Let_def by (simp split: if_split)
qed

lemma otel_key: "doc_key otel_col d =
    Some [VStr (str_of d ''account_id''), VStr (str_of d ''session_id''), VStr (str_of d ''name''),
          VInt (num_of d ''sequence''), VTime (time_of d ''timestamp'')]"
  by (simp add: doc_key_def col_defs)

lemma same_otel_iff: "same_otel e d \<longleftrightarrow> doc_key otel_col d =
    Some [VStr (ot_account_id e), VStr (ot_session_id e), VStr (ot_name e), VInt (ot_sequence e), VTime (ot_timestamp e)]"
  by (auto simp: same_otel_def otel_key doc_owned_def)

lemma otel_doc_key: "same_otel e (otel_doc now e)"
proof -
  let ?a = "[(''session_id'', VStr (ot_session_id e)), (''name'', VStr (ot_name e)), (''sequence'', VInt64 (ot_sequence e)),
              (''timestamp'', VTime (ot_timestamp e)), (''attributes'', VObj (ot_attributes e)), (''created_at'', VTime now)]"
  let ?p = "present [(''account_id'', ot_account_id e), (''prompt_id'', ot_prompt_id e)]"
  let ?b = "?p @ redacted_field (ot_redacted e)"
  have n: "k \<notin> fst ` set ?b" if "k \<in> {''session_id'', ''name'', ''sequence'', ''timestamp''}" for k
    by (rule notI, drule subsetD [OF tail_names(3)]) (use that in auto)
  have g: "om_get (otel_doc now e) (fst f) = Some (snd f)" if "f \<in> set ?a" "fst f \<in> {''session_id'', ''name'', ''sequence'', ''timestamp''}" for f
    unfolding otel_doc_def doc_of_def by (rule put_all_fixed [OF that(1) _ n [OF that(2)]]) simp
  have "''account_id'' \<notin> fst ` set (redacted_field (ot_redacted e))" using redacted_names [of "ot_redacted e"] by auto
  then have "om_get (otel_doc now e) ''account_id'' = om_get (put_all ?p (put_all ?a [])) ''account_id''"
    using om_get_put_all_append [of "''account_id''" "redacted_field (ot_redacted e)" "?a @ ?p" "[]"]
    by (simp add: otel_doc_def doc_of_def put_all_def)
  also have "\<dots> = (if ot_account_id e = '''' then None else Some (VStr (ot_account_id e)))"
    by (simp add: present_def put_all_def)
  finally have "str_of (otel_doc now e) ''account_id'' = ot_account_id e" by (simp add: str_of_def d_string_def d_get_def)
  then show ?thesis
    using g [of "(''session_id'', VStr (ot_session_id e))"] g [of "(''name'', VStr (ot_name e))"]
      g [of "(''sequence'', VInt64 (ot_sequence e))"] g [of "(''timestamp'', VTime (ot_timestamp e))"]
    by (simp add: same_otel_def doc_owned_def str_of_def d_string_def d_get_def num_of_def time_of_def)
qed

lemma insert_otel_inv: "session_inv (fst r) \<Longrightarrow> session_inv (fst (insert_otel now e r))"
proof -
  assume inv: "session_inv (fst r)"
  have "session_inv (ss_insert otel_col (otel_doc now e) (fst r))" if "ss_find (fst r) otel_col (same_otel e) = None"
  proof (rule session_inv_insert [OF inv])
    fix k assume "doc_key otel_col (otel_doc now e) = Some k"
    then have k: "doc_key otel_col d = Some k \<longleftrightarrow> same_otel e d" for d
      using otel_doc_key [of e now] unfolding same_otel_iff by simp
    show "k \<notin> set (keys_of otel_col (ss_col (fst r) otel_col))"
      using that unfolding set_keys k by (auto simp: ss_find_def find_None_iff)
  qed
  then show ?thesis using inv by (simp add: insert_otel_def)
qed

lemma insert_otel_events_inv [wf_intros]: "session_inv s \<Longrightarrow> session_inv (fst (insert_otel_events now es s))"
proof -
  have "session_inv (fst r) \<Longrightarrow> session_inv (fst (fold (insert_otel now) es r))" for r
  proof (induction es arbitrary: r)
    case (Cons e es)
    then show ?case using Cons.IH [OF insert_otel_inv] by simp
  qed simp
  then show "session_inv s \<Longrightarrow> session_inv (fst (insert_otel_events now es s))" by (simp add: insert_otel_events_def)
qed

lemma upsert_lines_inv [wf_intros]: "session_inv s \<Longrightarrow> session_inv (upsert_transcript_lines now ls s)"
  unfolding upsert_transcript_lines_def by (induction ls arbitrary: s) (auto intro: upsert_line_inv)

lemma delete_memory_inv [wf_intros]: "session_inv s \<Longrightarrow> session_inv (fst (delete_memory q s))"
  by (simp add: delete_memory_def Let_def session_inv_filter)

lemma ss_next_drop [simp]: "ss_next (drop_docs P s) = ss_next s"
  by (simp add: drop_docs_def)

lemma drop_docs_inv: "session_inv s \<Longrightarrow> session_inv (drop_docs P s)"
  by (auto simp: session_inv_def keys_filter distinct_map_filter)

lemma delete_sessions_inv [wf_intros]: "session_inv s \<Longrightarrow> session_inv (fst (delete_sessions rx q s))"
  by (auto simp: delete_sessions_def Let_def drop_docs_inv split: sum.splits prod.splits)

lemma delete_account_inv [wf_intros]: "session_inv s \<Longrightarrow> session_inv (fst (delete_account acc s))"
  by (simp add: delete_account_def drop_docs_inv)

lemma set_enrichment_field_inv [wf_intros]: "session_inv s \<Longrightarrow> session_inv (set_enrichment_field c i field r s)"
  unfolding set_enrichment_field_def
  by (rule session_inv_change_same) (auto intro: same_fields_put simp: key_fields_def)

lemma requeue_skipped_inv [wf_intros]: "session_inv s \<Longrightarrow> session_inv (fst (requeue_skipped c acc enricher s))"
proof -
  assume inv: "session_inv s"
  have "same_fields (unskip enricher d) d" for d
    unfolding unskip_def by (rule same_fields_put) (simp add: key_fields_def)
  then show ?thesis
    using session_inv_map [OF inv, of c "\<lambda>d. if skipped acc enricher d then unskip enricher d else d"] inv
    by (simp add: requeue_skipped_def same_fields_key)
qed

lemma kept_memory_hash: "str_of (case as_doc (kept_memory v) of None \<Rightarrow> [] | Some m \<Rightarrow> m) ''hash'' =
    str_of (case as_doc v of None \<Rightarrow> [] | Some m \<Rightarrow> m) ''hash''"
  by (auto simp: kept_memory_def as_doc_def str_of_def d_string_def d_get_def split: val.splits option.splits)

lemma without_content_key: "doc_key hook_events_col (fst (without_content d)) = doc_key hook_events_col d"
  "d_get (fst (without_content d)) ''_id'' = d_get d ''_id''"
proof -
  have g: "om_get (fst (without_content d)) k = om_get d k" if "k \<in> {''hook_event_name'', ''account_id'', ''_id''}" for k
    using that by (auto simp: without_content_get hook_content_fields_def)
  note r = readers_cong [OF g, of "''hook_event_name''"] readers_cong [OF g, of "''account_id''"] readers_cong [OF g, of "''_id''"]
  have "str_of (d_sub (fst (without_content d)) ''memory'') ''hash'' = str_of (d_sub d ''memory'') ''hash''"
  proof (cases "om_get d ''memory''")
    case None
    then show ?thesis by (simp add: d_sub_def d_map_def d_get_def without_content_get hook_content_fields_def)
  next
    case (Some v)
    then have "d_get (fst (without_content d)) ''memory'' = kept_memory v" "d_get d ''memory'' = v"
      by (simp_all add: d_get_def without_content_get hook_content_fields_def)
    then show ?thesis using kept_memory_hash [of v] by (simp only: d_sub_def d_map_def)
  qed
  then show "doc_key hook_events_col (fst (without_content d)) = doc_key hook_events_col d"
    "d_get (fst (without_content d)) ''_id'' = d_get d ''_id''"
    using r by (simp_all add: hook_key memory_hash_def)
qed

lemma strip_session_same: "same_fields (fst (strip_session d)) d"
  by (rule same_fieldsI) (auto simp: strip_session_def drop_fields_get session_content_fields_def key_fields_def)

lemma drop_in_inv: "session_inv s \<Longrightarrow> session_inv (drop_in cs P s)"
  unfolding drop_in_def by (induction cs arbitrary: s) (auto intro: session_inv_filter)

lemma purge_content_inv [wf_intros]: "session_inv s \<Longrightarrow> session_inv (fst (purge_content acc ids s))"
proof -
  assume inv: "session_inv s"
  have ev: "session_inv (map_col hook_events_col (strip_where P without_content) t)"
    if "session_inv t" for t P
    by (rule session_inv_map [OF that]) (simp add: strip_where_def without_content_key)
  have rec: "session_inv (map_col sessions_col (strip_where P strip_session) t)"
    if "session_inv t" for t P
    by (rule session_inv_map [OF that]) (simp add: strip_where_def same_fields_key [OF strip_session_same])
  show ?thesis
    using rec [OF ev [OF drop_in_inv [OF inv]]] inv by (simp add: purge_content_def Let_def)
qed

section \<open>What can happen to the store\<close>

text \<open>Every operation that changes it, by any account. The metadata written by \<open>SetSessionMeta\<close> are the fields
  the transport and the capture send, none of which is a key.\<close>

inductive session_step :: "session_store \<Rightarrow> session_store \<Rightarrow> bool" where
  step_upsert: "session_step s (upsert_session up r s)"
| step_touch: "session_step s (touch_session_doc acc sid t s)"
| step_git: "session_step s (set_git_info_if_missing up sid origin branch s)"
| step_model: "session_step s (fst (set_model acc sid model t s))"
| step_state: "session_step s (fst (set_live_state acc sid state reason t s))"
| step_meta: "fst ` set fs \<inter> set key_fields = {} \<Longrightarrow> session_step s (fst (set_session_meta acc sid fs s))"
| step_event: "session_step s (insert_hook_event ev s)"
| step_lines: "session_step s (upsert_transcript_lines now ls s)"
| step_agent: "session_step s (upsert_subagent_line now al s)"
| step_blob: "session_step s (upsert_blob now b s)"
| step_otel: "session_step s (fst (insert_otel_events now es s))"
| step_del_memory: "session_step s (fst (delete_memory mq s))"
| step_del_sessions: "session_step s (fst (delete_sessions rx q s))"
| step_del_account: "session_step s (fst (delete_account acc s))"
| step_purge: "session_step s (fst (purge_content acc ids s))"
| step_enrich: "session_step s (set_enrichment_field c i field res s)"
| step_requeue: "session_step s (fst (requeue_skipped c acc enricher s))"

definition session_reachable :: "session_store \<Rightarrow> bool" where
  "session_reachable s \<longleftrightarrow> session_step\<^sup>*\<^sup>* new_session_store s"

lemma session_step_inv: "session_step s t \<Longrightarrow> session_inv s \<Longrightarrow> session_inv t"
  by (induction rule: session_step.induct) (auto intro: wf_intros)

lemma session_reachable_inv: "session_reachable s \<Longrightarrow> session_inv s"
  unfolding session_reachable_def
  by (induction rule: rtranclp_induct) (auto intro: session_inv_new session_step_inv)

lemma keys_total: "(\<And>d. doc_key c d = Some (f d)) \<Longrightarrow> keys_of c ds = map f ds"
  by (induction ds) auto

lemma distinct_filter_keys: "keys_of hook_events_col ds = map (\<lambda>d. [VStr (str_of d ''account_id''), VStr (memory_hash d)]) (filter (\<lambda>d. memory_hash d \<noteq> '''') ds)"
  by (induction ds) (auto simp: hook_key)

lemma distinct_map_inj: "distinct (map (\<lambda>x. g (f x)) xs) \<Longrightarrow> distinct (map f xs)"
  by (induction xs) auto

lemma distinct_keys_map:
  assumes "distinct (keys_of c ds)" "\<And>d. doc_key c d = Some (g (h d))"
  shows "distinct (map h ds)"
  by (rule distinct_map_inj [where g = g]) (use assms(1) in \<open>simp only: keys_total [OF assms(2)]\<close>)


end
