(* ===== verification/Session_Queries.thy ===== *)
theory Session_Queries
  imports Session_Store
begin

text \<open>
  What is read from the store of sessions (\<open>session/memsession/memsession.go\<close>, the query types of
  \<open>session/store.go\<close> and \<open>session/usage.go\<close>): the sessions, lines and events a query selects,
  in the order it asks for, the joined session, the search for words and the totals of tokens and
  hours. \<open>SearchVectors\<close> computes in floating point and is left out. Words are those of ASCII
  texts.
\<close>

section \<open>Sessions\<close>

definition get_session :: "string \<Rightarrow> string \<Rightarrow> session_store \<Rightarrow> session_error + doc" where
  "get_session acc sid s =
     (case ss_find s sessions_col (owned_session acc sid) of
        None \<Rightarrow> Inl SessNotFound | Some d \<Rightarrow> Inr (om_del ''_id'' d))"

record session_query =
  sq_account_id :: string
  sq_project_path_re :: string
  sq_git_origin_re :: string
  sq_query_re :: string
  sq_title_re :: string
  sq_project_slugs :: "string list"
  sq_live_states :: "string list"
  sq_last_seen_from :: int
  sq_last_seen_before :: int
  sq_limit :: int

definition max_sessions :: int where
  "max_sessions = 500"

definition found_session ::
    "session_query \<Rightarrow> (string \<Rightarrow> bool) option \<Rightarrow> (string \<Rightarrow> bool) option \<Rightarrow> (string \<Rightarrow> bool) option \<Rightarrow>
     (string \<Rightarrow> bool) option \<Rightarrow> doc \<Rightarrow> bool" where
  "found_session q projectRe originRe queryRe titleRe d \<longleftrightarrow>
     in_filter (sq_live_states q) (str_of d ''live_state'') \<and>
     in_filter (sq_project_slugs q) (str_of d ''project_slug'') \<and>
     re_matches titleRe d [''title''] \<and>
     \<not> (sq_last_seen_from q \<noteq> 0 \<and> time_of d ''last_seen'' < sq_last_seen_from q \<or>
        sq_last_seen_before q \<noteq> 0 \<and> \<not> time_of d ''last_seen'' < sq_last_seen_before q) \<and>
     doc_owned (sq_account_id q) d \<and> re_matches projectRe d [''project_path''] \<and>
     re_matches originRe d [''git_origin''] \<and> re_matches queryRe d [''project_path'', ''cwd'']"

definition session_projection :: "string list" where
  "session_projection =
     [''session_id'', ''project_path'', ''git_origin'', ''project_slug'', ''cwd'', ''model'', ''live_state'', ''live_state_at'',
      ''live_state_reason'', ''title'', ''title_kind'', ''slug'', ''permission_mode'', ''pr_link'', ''worktree'', ''entrypoint'',
      ''claude_version'', ''started_at'', ''last_seen'']"

definition find_sessions :: "regexps \<Rightarrow> session_query \<Rightarrow> session_store \<Rightarrow> session_error + doc list" where
  "find_sessions rx q s =
     (case compile_re rx (sq_project_path_re q) of Inl e \<Rightarrow> Inl e | Inr projectRe \<Rightarrow>
      case compile_re rx (sq_git_origin_re q) of Inl e \<Rightarrow> Inl e | Inr originRe \<Rightarrow>
      case compile_re rx (sq_query_re q) of Inl e \<Rightarrow> Inl e | Inr queryRe \<Rightarrow>
      case compile_re rx (sq_title_re q) of Inl e \<Rightarrow> Inl e | Inr titleRe \<Rightarrow>
        (let found = filter (found_session q projectRe originRe queryRe titleRe) (ss_col s sessions_col);
             limit = (if sq_limit q \<le> 0 \<or> max_sessions < sq_limit q then max_sessions else sq_limit q)
         in Inr (map (project_fields session_projection)
              (take_limit limit (sort_key (\<lambda>d. - time_of d ''last_seen'') found)))))"

section \<open>Hook events, the newest first\<close>

definition newest_first :: "int \<Rightarrow> doc list \<Rightarrow> doc list" where
  "newest_first limit ds = take_limit limit (sort_key (\<lambda>d. - time_of d ''created_at'') ds)"

record memory_query =
  mq_account_id :: string
  mq_pattern_re :: string
  mq_kinds :: "string list"
  mq_session_ids :: "string list"
  mq_projects :: "string list"
  mq_since :: int
  mq_until :: int
  mq_ids :: "string list"
  mq_include_private :: bool
  mq_limit :: int

definition found_memory :: "memory_query \<Rightarrow> (string \<Rightarrow> bool) option \<Rightarrow> doc \<Rightarrow> bool" where
  "found_memory q re d \<longleftrightarrow>
     (let mem = d_sub d ''memory''; t = time_of d ''created_at''
      in str_of d ''hook_event_name'' = memory_event \<and> doc_owned (mq_account_id q) d \<and>
         in_filter (mq_session_ids q) (str_of d ''session_id'') \<and> in_filter (mq_kinds q) (str_of mem ''kind'') \<and>
         in_filter (mq_projects q) (str_of mem ''project'') \<and> in_filter (mq_ids q) (str_of mem ''id'') \<and>
         \<not> (bool_of mem ''private'' \<and> \<not> mq_include_private q) \<and>
         \<not> (mq_since q \<noteq> 0 \<and> t < mq_since q \<or> mq_until q \<noteq> 0 \<and> \<not> t < mq_until q) \<and>
         (case d_string mem ''text'' of None \<Rightarrow> False | Some text \<Rightarrow> (case re of None \<Rightarrow> True | Some m \<Rightarrow> m text)))"

definition memory_events :: "regexps \<Rightarrow> memory_query \<Rightarrow> session_store \<Rightarrow> session_error + doc list" where
  "memory_events rx q s =
     (case compile_re rx (mq_pattern_re q) of Inl e \<Rightarrow> Inl e
      | Inr re \<Rightarrow> Inr (map (project_fields [''session_id'', ''cwd'', ''memory'', ''created_at''])
          (newest_first (mq_limit q) (filter (found_memory q re) (ss_col s hook_events_col)))))"

record activity_query =
  aq_account_id :: string
  aq_session_ids :: "string list"
  aq_kinds :: "string list"
  aq_since :: int
  aq_limit :: int

text \<open>The owner, the sessions and the earliest time that most queries filter by.\<close>

definition scope :: "activity_query \<Rightarrow> doc \<Rightarrow> bool" where
  "scope q d \<longleftrightarrow> doc_owned (aq_account_id q) d \<and> in_filter (aq_session_ids q) (str_of d ''session_id'') \<and>
     (aq_since q = 0 \<or> \<not> time_of d ''created_at'' < aq_since q)"

definition state_changes :: "activity_query \<Rightarrow> session_store \<Rightarrow> doc list" where
  "state_changes q s =
     map (project_fields [''session_id'', ''from'', ''to'', ''reason'', ''at'', ''created_at''])
       (newest_first (aq_limit q)
          (filter (\<lambda>d. str_of d ''hook_event_name'' = state_changed_event \<and> scope q d) (ss_col s hook_events_col)))"

definition limit_samples :: "activity_query \<Rightarrow> session_store \<Rightarrow> doc list" where
  "limit_samples q s =
     map (project_fields [''session_id'', ''cwd'', ''model'', ''version'', ''context_window'', ''rate_limits'', ''cost'',
            ''live_state'', ''sampled_at'', ''created_at''])
       (newest_first (aq_limit q)
          (filter (\<lambda>d. str_of d ''hook_event_name'' = limits_event \<and> scope q d) (ss_col s hook_events_col)))"

definition hook_event_ids_by_tool_use :: "string \<Rightarrow> string list \<Rightarrow> session_store \<Rightarrow> string list" where
  "hook_event_ids_by_tool_use sid wanted s =
     map (\<lambda>d. str_of d ''_id'')
       (filter (\<lambda>d. (sid = '''' \<or> is_session sid d) \<and> str_of d ''tool_use_id'' \<in> set wanted) (ss_col s hook_events_col))"

record pattern_query =
  pq_account_id :: string
  pq_pattern_re :: string
  pq_session_ids :: "string list"
  pq_limit :: int

definition re_on :: "(string \<Rightarrow> bool) option \<Rightarrow> string option \<Rightarrow> bool" where
  "re_on re x = (case x of None \<Rightarrow> False | Some t \<Rightarrow> (case re of None \<Rightarrow> True | Some m \<Rightarrow> m t))"

definition bash_events :: "regexps \<Rightarrow> pattern_query \<Rightarrow> session_store \<Rightarrow> session_error + doc list" where
  "bash_events rx q s =
     (case compile_re rx (pq_pattern_re q) of Inl e \<Rightarrow> Inl e
      | Inr re \<Rightarrow> Inr (map (project_fields [''session_id'', ''tool_use_id'', ''tool_input'', ''created_at''])
          (newest_first (pq_limit q)
             (filter (\<lambda>d. d_get d ''tool_name'' = VStr ''Bash'' \<and> doc_owned (pq_account_id q) d \<and>
                          in_filter (pq_session_ids q) (str_of d ''session_id'') \<and>
                          re_on re (d_string (d_tool_input d) ''command'')) (ss_col s hook_events_col)))))"

text \<open>The path of a file event: the one that was tracked, or the edited file's.\<close>

definition touched_path :: "doc \<Rightarrow> string option" where
  "touched_path d =
     (let e = d_sub d ''enrichments''
      in case d_map e ''file-tracker'' of
           Some tracked \<Rightarrow> d_string tracked ''file_path''
         | None \<Rightarrow>
             if d_get e ''edit-diff-stats'' \<noteq> VNil \<and> str_of d ''hook_event_name'' = ''PostToolUse''
             then d_string (d_tool_input d) ''file_path'' else None)"

definition file_event :: "doc \<Rightarrow> doc" where
  "file_event d =
     (let p = project_fields [''session_id'', ''hook_event_name'', ''tool_name'', ''tool_use_id'', ''created_at''] d;
          p1 = (case d_string (d_tool_input d) ''file_path'' of
                  None \<Rightarrow> p | Some path \<Rightarrow> om_put ''tool_input'' (VObj [(''file_path'', VStr path)]) p)
      in om_put ''enrichments'' (VObj (project_fields [''file-tracker'', ''edit-diff-stats''] (d_sub d ''enrichments''))) p1)"

definition file_events :: "regexps \<Rightarrow> pattern_query \<Rightarrow> session_store \<Rightarrow> session_error + doc list" where
  "file_events rx q s =
     (case compile_re rx (pq_pattern_re q) of Inl e \<Rightarrow> Inl e
      | Inr re \<Rightarrow> Inr (map file_event
          (newest_first (pq_limit q)
             (filter (\<lambda>d. doc_owned (pq_account_id q) d \<and> in_filter (pq_session_ids q) (str_of d ''session_id'') \<and>
                          re_on re (touched_path d)) (ss_col s hook_events_col)))))"

record otel_query =
  oq_account_id :: string
  oq_session_ids :: "string list"
  oq_prompt_id :: string
  oq_names :: "string list"
  oq_since :: int
  oq_limit :: int

definition otel_events :: "otel_query \<Rightarrow> session_store \<Rightarrow> doc list" where
  "otel_events q s =
     map (project_fields [''session_id'', ''prompt_id'', ''name'', ''sequence'', ''timestamp'', ''attributes'', ''redacted'', ''created_at''])
       (take_limit (oq_limit q)
          (sort_key (\<lambda>d. (- time_of d ''timestamp'', - num_of d ''sequence''))
             (filter (\<lambda>d. doc_owned (oq_account_id q) d \<and> in_filter (oq_session_ids q) (str_of d ''session_id'') \<and>
                          in_filter (oq_names q) (str_of d ''name'') \<and>
                          (oq_prompt_id q = '''' \<or> str_of d ''prompt_id'' = oq_prompt_id q) \<and>
                          (oq_since q = 0 \<or> \<not> time_of d ''timestamp'' < oq_since q)) (ss_col s otel_col))))"

section \<open>Transcript lines\<close>

definition newest_lines :: "int \<Rightarrow> doc list \<Rightarrow> doc list" where
  "newest_lines limit ds = take_limit limit (sort_key (\<lambda>d. (- time_of d ''created_at'', - seq_of d ''seq'')) ds)"

definition flagged_line :: "doc \<Rightarrow> doc \<Rightarrow> doc" where
  "flagged_line d p =
     om_put ''enrichments'' (VObj [(''error-flag'', d_get (d_sub d ''enrichments'') ''error-flag'')]) p"

definition rejected_tool_uses :: "activity_query \<Rightarrow> session_store \<Rightarrow> doc list" where
  "rejected_tool_uses q s =
     map (\<lambda>d. flagged_line d (project_fields [''session_id'', ''seq'', ''created_at''] d))
       (newest_lines (aq_limit q)
          (filter (\<lambda>d. scope q d \<and> bool_of (d_sub (d_sub d ''enrichments'') ''error-flag'') ''rejected'') (ss_col s transcript_col)))"

record error_query =
  eq_account_id :: string
  eq_types :: "string list"
  eq_session_ids :: "string list"
  eq_limit :: int

definition error_lines :: "error_query \<Rightarrow> session_store \<Rightarrow> doc list" where
  "error_lines q s =
     map (\<lambda>d. flagged_line d (project_fields [''session_id'', ''seq'', ''line'', ''created_at''] d))
       (newest_lines (eq_limit q)
          (filter (\<lambda>d. doc_owned (eq_account_id q) d \<and> in_filter (eq_session_ids q) (str_of d ''session_id'') \<and>
                       (let flag = d_sub (d_sub d ''enrichments'') ''error-flag''
                        in bool_of flag ''is_error'' \<and> in_filter (eq_types q) (str_of flag ''error_type'')))
             (ss_col s transcript_col)))"

definition activity_line :: "doc \<Rightarrow> doc" where
  "activity_line d =
     (let e = d_sub d ''enrichments'';
          p = project_fields [''session_id'', ''seq'', ''created_at''] d;
          p1 = (case om_get (d_sub d ''line'') ''timestamp'' of
                  None \<Rightarrow> p | Some ts \<Rightarrow> om_put ''line'' (VObj [(''timestamp'', ts)]) p)
      in om_put ''enrichments'' (VObj (put_all [(''activity-kind'', d_get e ''activity-kind'')]
           (project_fields [''tool-result-detail'', ''system-record''] e))) p1)"

definition activities :: "activity_query \<Rightarrow> session_store \<Rightarrow> doc list" where
  "activities q s =
     map activity_line
       (newest_lines (aq_limit q)
          (filter (\<lambda>d. scope q d \<and>
                       (case d_map (d_sub d ''enrichments'') ''activity-kind'' of
                          None \<Rightarrow> False | Some a \<Rightarrow> in_filter (aq_kinds q) (str_of a ''kind''))) (ss_col s transcript_col)))"

text \<open>The model of the last line before that names one.\<close>

definition last_model_step :: "int \<Rightarrow> int \<Rightarrow> doc \<Rightarrow> string \<times> int \<Rightarrow> string \<times> int" where
  "last_model_step seq t d best =
     (let n = seq_of d ''seq''
      in if 0 \<le> seq \<and> seq \<le> n \<or> t \<noteq> 0 \<and> t < time_of d ''created_at'' \<or> n \<le> snd best then best
         else (let model = line_model d in if model \<noteq> '''' then (model, n) else best))"

definition last_model_before :: "string \<Rightarrow> int \<Rightarrow> int \<Rightarrow> session_store \<Rightarrow> string" where
  "last_model_before sid seq t s =
     fst (fold (last_model_step seq t) (filter (\<lambda>d. str_of d ''session_id'' = sid) (ss_col s transcript_col)) ('''', -1))"

definition count_transcript_lines :: "string \<Rightarrow> string \<Rightarrow> session_store \<Rightarrow> int" where
  "count_transcript_lines acc sid s = int (length (filter (owned_session acc sid) (ss_col s transcript_col)))"

record line_query =
  lq_account_id :: string
  lq_session_id :: string
  lq_offset :: int
  lq_limit :: int
  lq_descending :: bool

definition transcript_lines :: "line_query \<Rightarrow> session_store \<Rightarrow> session_error + doc list" where
  "transcript_lines q s =
     (let found = filter (\<lambda>d. is_session (lq_session_id q) d \<and> (lq_account_id q = '''' \<or> doc_owned (lq_account_id q) d))
                    (ss_col s transcript_col);
          sorted = sort_key (\<lambda>d. if lq_descending q then - seq_of d ''seq'' else seq_of d ''seq'') found
      in map_sum id (map (om_del ''_id'')) (page_docs sorted (lq_offset q) (lq_limit q)))"

section \<open>Subagents and blobs\<close>

definition sort_agent_lines :: "doc list \<Rightarrow> doc list" where
  "sort_agent_lines ds = sort_key (\<lambda>d. (str_of d ''subagent_id'', seq_of d ''seq'')) ds"

definition agent_lines :: "string \<Rightarrow> string \<Rightarrow> session_store \<Rightarrow> doc list" where
  "agent_lines acc sid s = sort_agent_lines (filter (owned_session acc sid) (ss_col s subagent_col))"

definition subagent_ids :: "string \<Rightarrow> string \<Rightarrow> session_store \<Rightarrow> string list" where
  "subagent_ids acc sid s = remdups_adj (map (\<lambda>d. str_of d ''subagent_id'') (agent_lines acc sid s))"

definition subagent_lines :: "string \<Rightarrow> string \<Rightarrow> string \<Rightarrow> session_store \<Rightarrow> doc list" where
  "subagent_lines acc sid agent s =
     map (om_del ''_id'') (filter (\<lambda>d. d_get d ''subagent_id'' = VStr agent) (agent_lines acc sid s))"

definition sorted_blobs :: "string \<Rightarrow> (doc \<Rightarrow> bool) \<Rightarrow> session_store \<Rightarrow> doc list" where
  "sorted_blobs sid keep s =
     sort_key (\<lambda>d. (str_of d ''blob_type'', str_of d ''name'')) (filter (\<lambda>d. is_session sid d \<and> keep d) (ss_col s blobs_col))"

definition session_blobs :: "string \<Rightarrow> string \<Rightarrow> session_store \<Rightarrow> doc list" where
  "session_blobs acc sid s = map (om_del ''_id'') (sorted_blobs sid (doc_owned acc) s)"

text \<open>The session joined with everything captured for its id.\<close>

definition full_session :: "string \<Rightarrow> string \<Rightarrow> session_store \<Rightarrow> session_error + doc" where
  "full_session acc sid s =
     (case ss_find s sessions_col (owned_session acc sid) of
        None \<Rightarrow> Inl SessNotFound
      | Some base \<Rightarrow>
          (let lines = sort_key (\<lambda>d. seq_of d ''seq'') (filter (is_session sid) (ss_col s transcript_col));
               agents = sort_agent_lines (filter (is_session sid) (ss_col s subagent_col));
               events = sort_key (\<lambda>d. time_of d ''created_at'') (filter (is_session sid) (ss_col s hook_events_col));
               part = (\<lambda>drop ds. VList (map (\<lambda>d. VObj (del_all drop d)) ds))
           in Inr (put_all
                [(''transcript_lines'', part [''_id'', ''session_id'', ''account_id'', ''host''] lines),
                 (''subagent_lines'', part [''_id'', ''session_id'', ''account_id'', ''host''] agents),
                 (''blobs'', part [''_id'', ''session_id'', ''account_id'', ''content''] (sorted_blobs sid (\<lambda>_. True) s)),
                 (''hook_events'', part [''_id'', ''session_id'', ''account_id''] events)] (om_del ''_id'' base))))"

section \<open>Search\<close>

text \<open>The words of a lower-cased text, and the query's words, phrases and excluded words.\<close>

definition text_words :: "string \<Rightarrow> string list" where
  "text_words text = fields_from is_lower_alnum [] text"

definition white_fields :: "string \<Rightarrow> string list" where
  "white_fields text = fields_from (\<lambda>c. \<not> ascii_space c) [] text"

function take_phrases :: "string \<Rightarrow> string list \<Rightarrow> string \<times> string list" where
  "take_phrases query phrases =
     (case cut_first CHR 0x22 query of
        None \<Rightarrow> (query, phrases)
      | Some (before, rest) \<Rightarrow>
          (case cut_first CHR 0x22 rest of
             None \<Rightarrow> (query, phrases)
           | Some (inside, after) \<Rightarrow>
               (let p = trim_space inside
                in take_phrases (before @ '' '' @ after) (if p \<noteq> '''' then phrases @ [p] else phrases))))"
  by pat_completeness auto

termination
  by (relation "measure (\<lambda>(query, _). length query)") (auto dest!: cut_first_length)

declare take_phrases.simps [simp del]

record text_terms =
  tt_words :: "string list"
  tt_phrases :: "string list"
  tt_excluded :: "string list"

definition parse_text_query :: "string \<Rightarrow> text_terms" where
  "parse_text_query query =
     (let (rest, phrases) = take_phrases (to_lower query) [];
          fs = white_fields rest
      in \<lparr>tt_words = concat (map (\<lambda>f. remdups (text_words f)) (filter (\<lambda>f. \<not> has_prefix f ''-'') fs)),
          tt_phrases = phrases,
          tt_excluded = concat (map (\<lambda>f. remdups (text_words (tl f))) (filter (\<lambda>f. has_prefix f ''-'') fs))\<rparr>)"

definition occurrences :: "string \<Rightarrow> string list \<Rightarrow> nat" where
  "occurrences w ws = length (filter (\<lambda>x. x = w) ws)"

definition match_score :: "text_terms \<Rightarrow> string \<Rightarrow> nat" where
  "match_score q text =
     (let lower = to_lower text; ws = text_words lower
      in if list_ex (\<lambda>w. 0 < occurrences w ws) (tt_excluded q) then 0
         else if \<not> list_all (str_contains lower) (tt_phrases q) then 0
         else sum_list (map (\<lambda>w. occurrences w ws) (tt_words q)) +
              sum_list (map (\<lambda>p. sum_list (map (\<lambda>w. occurrences w ws) (white_fields p))) (tt_phrases q)))"

record transcript_query =
  tq_account_id :: string
  tq_query :: string
  tq_session_ids :: "string list"
  tq_limit :: int

definition line_text :: "doc \<Rightarrow> string option" where
  "line_text d = d_string (d_sub d ''enrichments'') ''search-text''"

definition text_hits :: "transcript_query \<Rightarrow> session_store \<Rightarrow> (doc \<times> nat) list" where
  "text_hits q s =
     List.map_filter (\<lambda>d.
       if \<not> doc_owned (tq_account_id q) d \<or> \<not> in_filter (tq_session_ids q) (str_of d ''session_id'') then None
       else (case line_text d of
               None \<Rightarrow> None
             | Some text \<Rightarrow>
                 (let score = match_score (parse_text_query (tq_query q)) text
                  in if score = 0 then None else Some (d, score)))) (ss_col s transcript_col)"

definition hit_doc :: "doc \<times> nat \<Rightarrow> doc" where
  "hit_doc h =
     put_all [(''score'', VFloat (int (snd h)) 0),
              (''enrichments'', VObj [(''search-text'', VStr (case line_text (fst h) of None \<Rightarrow> '''' | Some t \<Rightarrow> t))])]
       (project_fields [''session_id'', ''seq'', ''created_at''] (fst h))"

definition search_transcripts :: "transcript_query \<Rightarrow> session_store \<Rightarrow> doc list" where
  "search_transcripts q s =
     (let terms = parse_text_query (tq_query q)
      in if tt_words terms = [] \<and> tt_phrases terms = [] then []
         else map hit_doc
                (take_limit (tq_limit q)
                   (sort_key (\<lambda>h. (- int (snd h), - time_of (fst h) ''created_at'')) (text_hits q s))))"

end
