(* ===== verification/Session_Usage.thy ===== *)
theory Session_Usage
  imports Session_Queries
begin

text \<open>
  Totals over the captured sessions: the tokens of messages (\<open>session/usage.go\<close>), the counts per
  hour and the samples of the usage limits (\<open>session/aggregate.go\<close>), all computed by
  \<open>memsession.go\<close>. Counters are unbounded; \<open>float64\<close> numbers are compared exactly, and integers read as
  floating point numbers are exact up to 2^53.
\<close>

section \<open>Token totals\<close>

record usage_query =
  uq_account_id :: string
  uq_group_by :: string
  uq_session_ids :: "string list"
  uq_since :: string
  uq_until :: string
  uq_long_prompt_tokens :: int

definition usage_by_session :: string where "usage_by_session = ''session''"
definition usage_by_model :: string where "usage_by_model = ''model''"
definition usage_by_day :: string where "usage_by_day = ''day''"

definition valid_usage_group :: "string \<Rightarrow> bool" where
  "valid_usage_group g \<longleftrightarrow> g = '''' \<or> g = usage_by_session \<or> g = usage_by_model \<or> g = usage_by_day"

record usage_total =
  ut_key :: string
  ut_model :: string
  ut_messages :: int
  ut_input :: int
  ut_cache_creation :: int
  ut_cache_creation_1h :: int
  ut_cache_read :: int
  ut_output :: int
  ut_peak_context :: int
  ut_long_prompt :: bool

definition no_usage :: usage_total where
  "no_usage = \<lparr>ut_key = '''', ut_model = '''', ut_messages = 0, ut_input = 0, ut_cache_creation = 0,
     ut_cache_creation_1h = 0, ut_cache_read = 0, ut_output = 0, ut_peak_context = 0, ut_long_prompt = False\<rparr>"

definition usage_add :: "usage_total \<Rightarrow> usage_total \<Rightarrow> usage_total" where
  "usage_add x t = t\<lparr>
     ut_messages := ut_messages t + ut_messages x,
     ut_input := ut_input t + ut_input x,
     ut_cache_creation := ut_cache_creation t + ut_cache_creation x,
     ut_cache_creation_1h := ut_cache_creation_1h t + ut_cache_creation_1h x,
     ut_cache_read := ut_cache_read t + ut_cache_read x,
     ut_output := ut_output t + ut_output x,
     ut_peak_context := max (ut_peak_context t) (ut_peak_context x)\<rparr>"

text \<open>A map with its keys in the order in which they were first seen.\<close>

fun seen_put :: "'k \<Rightarrow> ('v option \<Rightarrow> 'v) \<Rightarrow> ('k \<times> 'v) list \<Rightarrow> ('k \<times> 'v) list" where
  "seen_put k f [] = [(k, f None)]"
| "seen_put k f ((a, v) # m) = (if a = k then (a, f (Some v)) # m else (a, v) # seen_put k f m)"

record usage_entry =
  ue_total :: usage_total
  ue_day :: string
  ue_model :: string

definition usage_doc :: "doc \<Rightarrow> doc" where
  "usage_doc d = d_sub (d_sub d ''enrichments'') ''usage''"

definition usage_message :: "doc \<Rightarrow> string \<times> string" where
  "usage_message d = (str_of d ''session_id'', str_of (usage_doc d) ''message_id'')"

definition usage_selected :: "usage_query \<Rightarrow> doc \<Rightarrow> bool" where
  "usage_selected q d \<longleftrightarrow>
     (let u = usage_doc d; day = str_of u ''day''
      in str_of u ''message_id'' \<noteq> '''' \<and> doc_owned (uq_account_id q) d \<and>
         in_filter (uq_session_ids q) (str_of d ''session_id'') \<and>
         \<not> (uq_since q \<noteq> '''' \<and> day < uq_since q \<or> uq_until q \<noteq> '''' \<and> uq_until q < day))"

definition note_usage :: "doc \<Rightarrow> usage_entry option \<Rightarrow> usage_entry" where
  "note_usage d old =
     (let u = usage_doc d; day = str_of u ''day''; model = str_of u ''model'';
          e = (case old of None \<Rightarrow> \<lparr>ue_total = no_usage, ue_day = day, ue_model = ''''\<rparr> | Some x \<Rightarrow> x);
          t = ue_total e
      in \<lparr>ue_total = t\<lparr>
            ut_input := max (ut_input t) (num_of u ''input_tokens''),
            ut_cache_creation := max (ut_cache_creation t) (num_of u ''cache_creation_input_tokens''),
            ut_cache_creation_1h := max (ut_cache_creation_1h t) (num_of u ''cache_creation_1h_tokens''),
            ut_cache_read := max (ut_cache_read t) (num_of u ''cache_read_input_tokens''),
            ut_output := max (ut_output t) (num_of u ''output_tokens''),
            ut_peak_context := max (ut_peak_context t) (num_of u ''context_tokens'')\<rparr>,
          ue_day = min (ue_day e) day,
          ue_model = (if ue_model e < model then model else ue_model e)\<rparr>)"

definition usage_messages :: "usage_query \<Rightarrow> session_store \<Rightarrow> ((string \<times> string) \<times> usage_entry) list" where
  "usage_messages q s =
     fold (\<lambda>d. seen_put (usage_message d) (note_usage d)) (filter (usage_selected q) (ss_col s transcript_col)) []"

definition usage_group :: "usage_query \<Rightarrow> (string \<times> string) \<times> usage_entry \<Rightarrow> string \<times> string \<times> bool" where
  "usage_group q m =
     (let e = snd m
      in (if uq_group_by q = usage_by_model then ue_model e
          else if uq_group_by q = usage_by_day then ue_day e else fst (fst m),
          ue_model e, 0 < uq_long_prompt_tokens q \<and> uq_long_prompt_tokens q < ut_peak_context (ue_total e)))"

definition add_message :: "usage_query \<Rightarrow> (string \<times> string) \<times> usage_entry \<Rightarrow> usage_total option \<Rightarrow> usage_total" where
  "add_message q m old =
     (let g = usage_group q m;
          t = (case old of Some x \<Rightarrow> x
               | None \<Rightarrow> no_usage\<lparr>ut_key := fst g, ut_model := fst (snd g), ut_long_prompt := snd (snd g)\<rparr>)
      in usage_add ((ue_total (snd m))\<lparr>ut_messages := 1\<rparr>) t)"

definition sort_usage :: "usage_total list \<Rightarrow> usage_total list" where
  "sort_usage ts = sort_key (\<lambda>t. (ut_key t, ut_model t, ut_long_prompt t)) ts"

definition usage_totals :: "usage_query \<Rightarrow> session_store \<Rightarrow> usage_total list" where
  "usage_totals q s =
     sort_usage (map snd (fold (\<lambda>m. seen_put (usage_group q m) (add_message q m)) (usage_messages q s) []))"

section \<open>Counts per hour\<close>

definition hour_of :: "int \<Rightarrow> int" where
  "hour_of t = t - t mod hour_ns"

definition sort_hour_counts :: "hour_count list \<Rightarrow> hour_count list" where
  "sort_hour_counts cs = sort_key (\<lambda>c. (hc_hour c, hc_kind c)) cs"

definition hour_counts :: "count_query \<Rightarrow> (doc \<Rightarrow> string option) \<Rightarrow> session_store \<Rightarrow> hour_count list" where
  "hour_counts q kind_of s =
     (let counted = List.map_filter (\<lambda>d.
            if \<not> doc_owned (cq_account_id q) d then None
            else (case kind_of d of
                    None \<Rightarrow> None
                  | Some kind \<Rightarrow> if in_range q (line_time d) then Some (hour_of (line_time d), kind) else None))
            (ss_col s transcript_col);
          counts = fold (\<lambda>k. seen_put k (\<lambda>x. case x of None \<Rightarrow> 1 | Some n \<Rightarrow> n + 1)) counted []
      in sort_hour_counts (map (\<lambda>((h, k), n). \<lparr>hc_hour = h, hc_kind = k, hc_count = n\<rparr>) counts))"

definition activity_counts :: "count_query \<Rightarrow> session_store \<Rightarrow> hour_count list" where
  "activity_counts q s = hour_counts q (\<lambda>d. d_string (d_sub (d_sub d ''enrichments'') ''activity-kind'') ''kind'') s"

definition error_counts :: "count_query \<Rightarrow> session_store \<Rightarrow> hour_count list" where
  "error_counts q s =
     hour_counts q (\<lambda>d. let flag = d_sub (d_sub d ''enrichments'') ''error-flag''
                        in if bool_of flag ''is_error'' then Some (str_of flag ''error_type'') else None) s"

section \<open>Limit samples\<close>

text \<open>Floating point numbers as mantissa and exponent.\<close>

type_synonym flt = "int \<times> int"

definition flt_less :: "flt \<Rightarrow> flt \<Rightarrow> bool" where
  "flt_less x y =
     (let k = min (snd x) (snd y) in fst x * 2 ^ nat (snd x - k) < fst y * 2 ^ nat (snd y - k))"

definition flt_of :: "val \<Rightarrow> flt option" where
  "flt_of v = (case v of VInt n \<Rightarrow> Some (n, 0) | VInt64 n \<Rightarrow> Some (n, 0) | VFloat m e \<Rightarrow> Some (m, e) | _ \<Rightarrow> None)"

record limit_bucket =
  lb_hour :: int
  lb_five_hour_max :: flt
  lb_seven_day_max :: flt
  lb_context_max :: flt
  lb_cost_usd_max :: flt
  lb_samples :: int

definition raise_max :: "val \<Rightarrow> flt \<Rightarrow> flt" where
  "raise_max v old = (case flt_of v of None \<Rightarrow> old | Some n \<Rightarrow> if flt_less old (0, 0) \<or> flt_less old n then n else old)"

definition note_sample :: "int \<Rightarrow> doc \<Rightarrow> limit_bucket option \<Rightarrow> limit_bucket" where
  "note_sample hour d old =
     (let b = (case old of Some x \<Rightarrow> x
                | None \<Rightarrow> \<lparr>lb_hour = hour, lb_five_hour_max = (-1, 0), lb_seven_day_max = (-1, 0),
                           lb_context_max = (-1, 0), lb_cost_usd_max = (-1, 0), lb_samples = 0\<rparr>);
          limits = d_sub d ''rate_limits''
      in b\<lparr>lb_samples := lb_samples b + 1,
           lb_five_hour_max := raise_max (d_get (d_sub limits ''five_hour'') ''used_percentage'') (lb_five_hour_max b),
           lb_seven_day_max := raise_max (d_get (d_sub limits ''seven_day'') ''used_percentage'') (lb_seven_day_max b),
           lb_context_max := raise_max (d_get (d_sub d ''context_window'') ''used_percentage'') (lb_context_max b),
           lb_cost_usd_max := raise_max (d_get (d_sub d ''cost'') ''total_cost_usd'') (lb_cost_usd_max b)\<rparr>)"

definition limit_sampled :: "count_query \<Rightarrow> doc \<Rightarrow> bool" where
  "limit_sampled q d \<longleftrightarrow> doc_owned (cq_account_id q) d \<and> str_of d ''hook_event_name'' = limits_event \<and>
     in_range q (time_of d ''created_at'')"

definition limit_buckets :: "count_query \<Rightarrow> session_store \<Rightarrow> limit_bucket list" where
  "limit_buckets q s =
     sort_key lb_hour (map snd
       (fold (\<lambda>d. let h = hour_of (time_of d ''created_at'') in seen_put h (note_sample h d))
          (filter (limit_sampled q) (ss_col s hook_events_col)) []))"

end
