(* ===== verification/Session_Isolation.thy ===== *)
theory Session_Isolation
  imports Session_Facts Session_Queries Session_Usage
begin

text \<open>
  Accounts and the store of sessions: what an account does leaves the documents of the others as
  they are, so whatever another account reads it reads before as after; what the one operation that
  is not scoped by account does to a session of another; and what deletions and purges leave.
\<close>

section \<open>What an account does\<close>

text \<open>
  The operations of one account, as the transport calls them: the account is stamped on every query
  and document. Writing a session, a line, a subagent's line or a blob whose key another account's
  document has is left out here, as is the git information of another account's session.
\<close>

definition key_free :: "string \<Rightarrow> string \<Rightarrow> (string \<times> val) list \<Rightarrow> session_store \<Rightarrow> bool" where
  "key_free acc c key s \<longleftrightarrow> list_all (\<lambda>d. has_fields key d \<longrightarrow> doc_owned acc d) (ss_col s c)"

inductive account_step :: "string \<Rightarrow> session_store \<Rightarrow> session_store \<Rightarrow> bool" for acc where
  acc_upsert: "sr_account_id r = acc \<Longrightarrow> key_free acc sessions_col [(''session_id'', VStr (sr_session_id r))] s \<Longrightarrow>
     account_step acc s (upsert_session up r s)"
| acc_touch: "account_step acc s (touch_session_doc acc sid t s)"
| acc_git: "key_free acc sessions_col [(''session_id'', VStr sid)] s \<Longrightarrow>
     account_step acc s (set_git_info_if_missing up sid origin branch s)"
| acc_model: "account_step acc s (fst (set_model acc sid model t s))"
| acc_state: "account_step acc s (fst (set_live_state acc sid state reason t s))"
| acc_meta: "fst ` set fs \<inter> set key_fields = {} \<Longrightarrow> account_step acc s (fst (set_session_meta acc sid fs s))"
| acc_event: "str_of ev ''account_id'' = acc \<Longrightarrow> account_step acc s (insert_hook_event ev s)"
| acc_line: "tl_account_id l = acc \<Longrightarrow> key_free acc transcript_col (line_key l) s \<Longrightarrow>
     account_step acc s (upsert_transcript_line now l s)"
| acc_agent: "sl_account_id al = acc \<Longrightarrow> key_free acc subagent_col (agent_line_key al) s \<Longrightarrow>
     account_step acc s (upsert_subagent_line now al s)"
| acc_blob: "sb_account_id b = acc \<Longrightarrow> key_free acc blobs_col (blob_key b) s \<Longrightarrow> account_step acc s (upsert_blob now b s)"
| acc_otel: "list_all (\<lambda>e. ot_account_id e = acc) es \<Longrightarrow> account_step acc s (fst (insert_otel_events now es s))"
| acc_del_memory: "md_account_id mq = acc \<Longrightarrow> account_step acc s (fst (delete_memory mq s))"
| acc_del_sessions: "fq_account_id q = acc \<Longrightarrow> account_step acc s (fst (delete_sessions rx q s))"
| acc_del_account: "account_step acc s (fst (delete_account acc s))"
| acc_purge: "account_step acc s (fst (purge_content acc ids s))"
| acc_requeue: "account_step acc s (fst (requeue_skipped c acc enricher s))"

definition foreign :: "string \<Rightarrow> session_store \<Rightarrow> string \<Rightarrow> doc list" where
  "foreign acc s c = filter (\<lambda>d. \<not> doc_owned acc d) (ss_col s c)"

lemma foreign_change:
  assumes "\<And>d. d \<in> set (ss_col s c') \<Longrightarrow> P d \<Longrightarrow> doc_owned acc d \<and> doc_owned acc (f d)"
  shows "foreign acc (ss_change c' P f s) c = foreign acc s c"
proof -
  have "filter (\<lambda>d. \<not> doc_owned acc d) (change_first P f ds) = filter (\<lambda>d. \<not> doc_owned acc d) ds"
    if "\<And>d. d \<in> set ds \<Longrightarrow> P d \<Longrightarrow> doc_owned acc d \<and> doc_owned acc (f d)" for ds
    using that
  proof (induction ds)
    case (Cons d ds)
    then have "P d \<longrightarrow> doc_owned acc d \<and> doc_owned acc (f d)" by simp
    then show ?case using Cons by (cases "P d") simp_all
  qed simp
  then show ?thesis using assms by (simp add: foreign_def ss_col_change)
qed

lemma foreign_map:
  assumes "\<And>d. d \<in> set (ss_col s c') \<Longrightarrow> g d = d \<or> doc_owned acc d \<and> doc_owned acc (g d)"
  shows "foreign acc (map_col c' g s) c = foreign acc s c"
proof -
  have "filter (\<lambda>d. \<not> doc_owned acc d) (map g ds) = filter (\<lambda>d. \<not> doc_owned acc d) ds"
    if "\<And>d. d \<in> set ds \<Longrightarrow> g d = d \<or> doc_owned acc d \<and> doc_owned acc (g d)" for ds
    using that
  proof (induction ds)
    case (Cons d ds)
    have "g d = d \<or> doc_owned acc d \<and> doc_owned acc (g d)" using Cons.prems by simp
    then show ?case using Cons by (cases "g d = d") simp_all
  qed simp
  then show ?thesis using assms by (simp add: foreign_def)
qed

lemma foreign_filter:
  "(\<And>d. P d \<Longrightarrow> doc_owned acc d) \<Longrightarrow> foreign acc (set_col c' (filter (\<lambda>d. \<not> P d) (ss_col s c')) s) c = foreign acc s c"
  by (auto simp: foreign_def intro: filter_cong)

lemma foreign_drop: "(\<And>d. P d \<Longrightarrow> doc_owned acc d) \<Longrightarrow> foreign acc (drop_docs P s) c = foreign acc s c"
  by (auto simp: foreign_def intro: filter_cong)

lemma foreign_append: "doc_owned acc d \<Longrightarrow> foreign acc (set_col c' (ss_col s c' @ [d]) (s\<lparr>ss_next := n\<rparr>)) c = foreign acc s c"
  by (simp add: foreign_def)

lemma foreign_insert: "doc_owned acc d \<Longrightarrow> foreign acc (ss_insert c' d s) c = foreign acc s c"
  unfolding ss_insert_def by (rule foreign_append) (simp add: doc_owned_def str_of_def d_string_def)

lemma owned_cong: "om_get d' ''account_id'' = om_get d ''account_id'' \<Longrightarrow> doc_owned acc d' = doc_owned acc d"
  unfolding doc_owned_def by (simp add: readers_cong(2) [of d' "''account_id''" d])

lemma same_fields_owned: "same_fields d' d \<Longrightarrow> doc_owned acc d' = doc_owned acc d"
  by (rule owned_cong) (simp add: same_fields_def key_fields_def)

lemma foreign_change_same:
  "(\<And>d. P d \<Longrightarrow> doc_owned acc d) \<Longrightarrow> (\<And>d. same_fields (f d) d) \<Longrightarrow> foreign acc (ss_change c' P f s) c = foreign acc s c"
  using same_fields_owned by (intro foreign_change) blast

text \<open>An upsert that writes the account into a document of its own, or a new one.\<close>

lemma foreign_upsert:
  assumes "key_free acc c' key s" "\<And>d. doc_owned acc d \<or> acc \<noteq> '''' \<Longrightarrow> doc_owned acc (put_all fs d)"
    and "acc = '''' \<Longrightarrow> ''account_id'' \<notin> fst ` set key \<union> fst ` set on_insert"
  shows "foreign acc (ss_upsert c' key fs on_insert s) c = foreign acc s c"
proof (cases "ss_find s c' (has_fields key)")
  case None
  let ?d = "om_put ''_id'' (VStr (itoa (Suc (ss_next s)))) (put_all on_insert (doc_of key))"
  have "doc_owned acc ?d" if "acc = ''''"
  proof -
    have "om_get ?d ''account_id'' = None"
      using assms(3) [OF that] put_all_notin [of "''account_id''" on_insert "doc_of key"] put_all_notin [of "''account_id''" key "[]"]
      by (simp add: doc_of_def)
    then show ?thesis using that by (simp add: doc_owned_def str_of_def d_string_def d_get_def)
  qed
  then have "doc_owned acc (put_all fs ?d)" using assms(2) [of ?d] by blast
  then show ?thesis unfolding ss_upsert_def None option.case Let_def by (rule foreign_append)
next
  case (Some d)
  show ?thesis unfolding ss_upsert_def Some option.case
    using assms(1,2) by (intro foreign_change) (auto simp: key_free_def list_all_iff)
qed

lemma put_all_append: "put_all (a @ b) d = put_all b (put_all a d)"
  by (simp add: put_all_def)

lemma present_get:
  assumes "distinct (map fst fs)" "(k, v) \<in> set fs"
  shows "om_get (put_all (present fs) d) k = (if v = '''' then om_get d k else Some (VStr v))"
proof (cases "v = ''''")
  case True
  have "k \<notin> fst ` set (present fs)"
    using assms True eq_key_imp_eq_value [OF assms(1)] by (fastforce simp: present_def)
  then show ?thesis using True by (simp add: put_all_notin)
next
  case False
  have "distinct (map fst (present fs))"
    using assms(1) by (simp add: present_def comp_def distinct_map_filter)
  moreover have "(k, VStr v) \<in> set (present fs)" using assms(2) False by (force simp: present_def)
  ultimately show ?thesis using put_all_in [of "present fs" "(k, VStr v)"] False by simp
qed

lemma owned_fields:
  assumes "''account_id'' \<notin> fst ` set a" "''account_id'' \<notin> fst ` set b"
    and ps: "distinct (map fst ps)" "(''account_id'', acc) \<in> set ps"
    and d: "doc_owned acc d \<or> acc \<noteq> ''''"
  shows "doc_owned acc (put_all (a @ present ps @ b) d)"
proof -
  have g: "om_get (put_all (a @ present ps @ b) d) ''account_id'' = (if acc = '''' then om_get d ''account_id'' else Some (VStr acc))"
    using put_all_notin [OF assms(1)] put_all_notin [OF assms(2)] present_get [OF ps] by (simp add: put_all_append)
  show ?thesis
  proof (cases "acc = ''''")
    case True
    then have "doc_owned acc (put_all (a @ present ps @ b) d) = doc_owned acc d" using g by (intro owned_cong) simp
    then show ?thesis using d True by simp
  qed (use g in \<open>simp add: doc_owned_def str_of_def d_string_def d_get_def\<close>)
qed

lemma tail_no_account: "''account_id'' \<notin> fst ` set (host_field h)" "''account_id'' \<notin> fst ` set (redacted_field r)"
  "''account_id'' \<notin> fst ` set (host_field h @ redacted_field r)"
  using host_names [of h] redacted_names [of r] by auto

lemma foreign_upsert_session:
  "key_free (sr_account_id r) sessions_col [(''session_id'', VStr (sr_session_id r))] s \<Longrightarrow>
     foreign (sr_account_id r) (upsert_session up r s) c = foreign (sr_account_id r) s c"
  unfolding upsert_session_def
proof (rule foreign_upsert)
  show "doc_owned (sr_account_id r) (put_all (session_fields up r) d)" if "doc_owned (sr_account_id r) d \<or> sr_account_id r \<noteq> ''''" for d
    unfolding session_fields_def by (rule owned_fields [OF _ tail_no_account(1) _ _ that]) simp_all
qed simp_all

lemma foreign_upsert_line:
  "key_free (tl_account_id l) transcript_col (line_key l) s \<Longrightarrow>
     foreign (tl_account_id l) (upsert_transcript_line now l s) c = foreign (tl_account_id l) s c"
  unfolding upsert_transcript_line_def
proof (rule foreign_upsert)
  show "doc_owned (tl_account_id l) (put_all (line_fields l) d)" if "doc_owned (tl_account_id l) d \<or> tl_account_id l \<noteq> ''''" for d
    unfolding line_fields_def by (rule owned_fields [OF _ tail_no_account(3) _ _ that]) simp_all
qed (simp_all add: line_key_def)

lemma foreign_upsert_agent:
  "key_free (sl_account_id l) subagent_col (agent_line_key l) s \<Longrightarrow>
     foreign (sl_account_id l) (upsert_subagent_line now l s) c = foreign (sl_account_id l) s c"
  unfolding upsert_subagent_line_def
proof (rule foreign_upsert)
  show "doc_owned (sl_account_id l) (put_all (agent_line_key l @ [(''line'', sl_line l)] @ present [(''account_id'', sl_account_id l)] @
      host_field (sl_host l) @ redacted_field (sl_redacted l)) d)" if "doc_owned (sl_account_id l) d \<or> sl_account_id l \<noteq> ''''" for d
    unfolding append_assoc [symmetric, of "agent_line_key l"]
    by (rule owned_fields [OF _ tail_no_account(3) _ _ that]) (simp_all add: agent_line_key_def)
qed (simp_all add: agent_line_key_def)

lemma foreign_upsert_blob:
  "key_free (sb_account_id b) blobs_col (blob_key b) s \<Longrightarrow>
     foreign (sb_account_id b) (upsert_blob now b s) c = foreign (sb_account_id b) s c"
  unfolding upsert_blob_def
proof (rule foreign_upsert)
  show "doc_owned (sb_account_id b) (put_all (blob_key b @ [(''content'', VStr (sb_content b)), (''encoding'', VStr (sb_encoding b))] @
      present [(''account_id'', sb_account_id b)] @ redacted_field (sb_redacted b)) d)" if "doc_owned (sb_account_id b) d \<or> sb_account_id b \<noteq> ''''" for d
    unfolding append_assoc [symmetric, of "blob_key b"]
    by (rule owned_fields [OF _ tail_no_account(2) _ _ that]) (simp_all add: blob_key_def)
qed (simp_all add: blob_key_def)

lemma owned_sessionD: "owned_session acc sid d \<Longrightarrow> doc_owned acc d"
  by (simp add: owned_session_def)

lemma foreign_session_change:
  "fst ` set fs \<inter> set key_fields = {} \<Longrightarrow>
     foreign acc (ss_change sessions_col (owned_session acc sid) (put_all fs) s) c = foreign acc s c"
  by (rule foreign_change_same) (auto simp: owned_sessionD intro: same_fields_put_all)

lemma foreign_git:
  assumes "key_free acc sessions_col [(''session_id'', VStr sid)] s"
  shows "foreign acc (set_git_info_if_missing up sid origin branch s) c = foreign acc s c"
proof -
  let ?fs = "(''git_origin'', VStr origin) # present [(''project_slug'', project_slug_of up '''' origin), (''git_branch'', branch)]"
  have "fst ` set ?fs \<subseteq> {''git_origin'', ''project_slug'', ''git_branch''}"
    using present_names [of "[(''project_slug'', project_slug_of up '''' origin), (''git_branch'', branch)]"] by auto
  then have "fst ` set ?fs \<inter> set key_fields = {}" unfolding key_fields_def by auto
  then have same: "same_fields (put_all ?fs d) d" for d by (rule same_fields_put_all)
  have "foreign acc (ss_change sessions_col (is_session sid) (put_all ?fs) s) c = foreign acc s c"
    by (rule foreign_change) (use assms same_fields_owned [OF same] in \<open>auto simp: key_free_def list_all_iff has_fields_def is_session_def\<close>)
  then show ?thesis by (simp add: set_git_info_if_missing_def split: option.splits)
qed

lemma foreign_otel: "list_all (\<lambda>e. ot_account_id e = acc) es \<Longrightarrow> foreign acc (fst (insert_otel_events now es s)) c = foreign acc s c"
proof -
  have "foreign acc (fst (fold (insert_otel now) es r)) c = foreign acc (fst r) c" if "list_all (\<lambda>e. ot_account_id e = acc) es" for r
    using that
  proof (induction es arbitrary: r)
    case (Cons e es)
    have "doc_owned acc (otel_doc now e)" using otel_doc_key [of e now] Cons.prems by (simp add: same_otel_def)
    then have "foreign acc (fst (insert_otel now e r)) c = foreign acc (fst r) c" by (simp add: insert_otel_def foreign_insert)
    then show ?case using Cons by simp
  qed simp
  then show "list_all (\<lambda>e. ot_account_id e = acc) es \<Longrightarrow> foreign acc (fst (insert_otel_events now es s)) c = foreign acc s c"
    by (simp add: insert_otel_events_def)
qed

lemma foreign_drop_in: "(\<And>d. P d \<Longrightarrow> doc_owned acc d) \<Longrightarrow> foreign acc (drop_in cs P s) c = foreign acc s c"
  by (auto simp: foreign_def ss_col_drop_in intro: filter_cong)

lemma foreign_purge: "foreign acc (fst (purge_content acc ids s)) c = foreign acc s c"
proof -
  let ?P = "purge_selected acc ids"
  have P: "?P d \<Longrightarrow> doc_owned acc d" for d by (simp add: purge_selected_def)
  have ev: "doc_owned acc (fst (without_content d)) = doc_owned acc d" for d
    by (rule owned_cong) (simp add: without_content_get hook_content_fields_def)
  have rec: "doc_owned acc (fst (strip_session d)) = doc_owned acc d" for d
    by (rule same_fields_owned [OF strip_session_same])
  have "foreign acc (map_col hook_events_col (strip_where ?P without_content) t) c = foreign acc t c"
    "foreign acc (map_col sessions_col (strip_where ?P strip_session) t) c = foreign acc t c" for t
    by (rule foreign_map, use P ev rec in \<open>auto simp: strip_where_def\<close>)+
  then show ?thesis using foreign_drop_in [of ?P acc purge_cols s c] P
    by (simp add: purge_content_def Let_def)
qed

lemma foreign_requeue: "foreign acc (fst (requeue_skipped c' acc enricher s)) c = foreign acc s c"
proof -
  have same: "doc_owned acc (unskip enricher d) = doc_owned acc d" for d
    unfolding unskip_def by (rule same_fields_owned [OF same_fields_put]) (simp add: key_fields_def)
  have "foreign acc (map_col c' (\<lambda>d. if skipped acc enricher d then unskip enricher d else d) s) c = foreign acc s c"
    by (rule foreign_map) (use same in \<open>auto simp: skipped_def\<close>)
  then show ?thesis by (simp add: requeue_skipped_def)
qed

lemma account_step_foreign: "account_step acc s t \<Longrightarrow> foreign acc t c = foreign acc s c"
proof (induction rule: account_step.induct)
  case (acc_touch s sid t)
  show ?case unfolding touch_session_doc_def
    by (rule foreign_change_same) (auto simp: owned_sessionD key_fields_def intro: same_fields_put)
next
  case (acc_model s sid model t)
  then show ?case by (simp add: set_model_def Let_def foreign_session_change key_fields_def split: option.splits)
next
  case (acc_state s sid state reason t)
  then show ?case by (simp add: set_live_state_def Let_def foreign_session_change key_fields_def split: option.splits)
next
  case (acc_meta fs s sid)
  then show ?case by (simp add: set_session_meta_def foreign_session_change split: option.splits)
next
  case (acc_event ev s)
  then have "doc_owned acc ev" by (simp add: doc_owned_def)
  then show ?case by (simp add: insert_hook_event_def Let_def foreign_insert)
next
  case (acc_del_memory mq s)
  have "memory_selected mq d \<Longrightarrow> doc_owned acc d" for d using acc_del_memory by (simp add: memory_selected_def Let_def)
  then show ?case using foreign_filter [of "memory_selected mq" acc hook_events_col s] by (simp add: delete_memory_def Let_def)
next
  case (acc_del_sessions q rx s)
  then show ?case
    by (auto simp: delete_sessions_def Let_def forget_doc_def intro!: foreign_drop split: sum.splits prod.splits)
next
  case (acc_del_account s)
  then show ?case by (simp add: delete_account_def foreign_drop)
qed (auto simp: foreign_upsert_session foreign_git foreign_upsert_line foreign_upsert_agent foreign_upsert_blob
    foreign_otel foreign_purge foreign_requeue)

section \<open>What the others read\<close>

definition same_own :: "string \<Rightarrow> session_store \<Rightarrow> session_store \<Rightarrow> bool" where
  "same_own b s t \<longleftrightarrow> (\<forall>c. filter (doc_owned b) (ss_col s c) = filter (doc_owned b) (ss_col t c))"

lemma account_steps_own: "(account_step acc)\<^sup>*\<^sup>* s t \<Longrightarrow> b \<noteq> acc \<Longrightarrow> same_own b s t"
proof (induction rule: rtranclp_induct)
  case (step t u)
  have "filter (doc_owned b) (ss_col x c) = filter (doc_owned b) (foreign acc x c)" for x c
    using step.prems by (auto simp: foreign_def doc_owned_def intro!: filter_cong)
  then have "filter (doc_owned b) (ss_col t c) = filter (doc_owned b) (ss_col u c)" for c
    using account_step_foreign [OF step.hyps(2), of c] by metis
  then show ?case using step.IH [OF step.prems] by (simp add: same_own_def)
qed (simp add: same_own_def)

lemma own_filter:
  assumes "same_own b s t" "\<And>d. P d \<Longrightarrow> doc_owned b d"
  shows "filter P (ss_col s c) = filter P (ss_col t c)"
proof -
  have "filter P ds = filter P (filter (doc_owned b) ds)" for ds
    using assms(2) by (auto intro: filter_cong)
  then show ?thesis using assms(1) unfolding same_own_def by metis
qed

lemma own_find:
  assumes "same_own b s t" "\<And>d. P d \<Longrightarrow> doc_owned b d"
  shows "ss_find s c P = ss_find t c P"
proof -
  have "find P ds = find P (filter (doc_owned b) ds)" for ds
    using assms(2) by (induction ds) auto
  then show ?thesis using assms(1) unfolding same_own_def ss_find_def by metis
qed

lemma own_map_filter:
  assumes "same_own b s t" "\<And>d. \<not> doc_owned b d \<Longrightarrow> f d = None"
  shows "List.map_filter f (ss_col s c) = List.map_filter f (ss_col t c)"
proof -
  have "List.map_filter f ds = List.map_filter f (filter (doc_owned b) ds)" for ds
    using assms(2) by (induction ds) (auto simp: List.map_filter_def)
  then show ?thesis using assms(1) unfolding same_own_def by metis
qed

lemma own_find_sessions: "same_own b s t \<Longrightarrow> sq_account_id q = b \<Longrightarrow> find_sessions rx q s = find_sessions rx q t"
  unfolding find_sessions_def
  by (subst own_filter [of b s t "found_session q _ _ _ _" sessions_col] | simp add: found_session_def)+

lemma own_events:
  assumes "same_own b s t"
  shows "mq_account_id mq = b \<Longrightarrow> memory_events rx mq s = memory_events rx mq t"
    "aq_account_id aq = b \<Longrightarrow> state_changes aq s = state_changes aq t"
    "aq_account_id aq = b \<Longrightarrow> limit_samples aq s = limit_samples aq t"
    "pq_account_id pq = b \<Longrightarrow> bash_events rx pq s = bash_events rx pq t"
    "pq_account_id pq = b \<Longrightarrow> file_events rx pq s = file_events rx pq t"
    "oq_account_id oq = b \<Longrightarrow> otel_events oq s = otel_events oq t"
proof -
  show "memory_events rx mq s = memory_events rx mq t" if "mq_account_id mq = b"
  proof -
    have "filter (found_memory mq re) (ss_col s hook_events_col) = filter (found_memory mq re) (ss_col t hook_events_col)" for re
      by (rule own_filter [OF assms]) (use that in \<open>simp add: found_memory_def Let_def\<close>)
    then show ?thesis unfolding memory_events_def by (simp only:)
  qed
  show "state_changes aq s = state_changes aq t" if "aq_account_id aq = b"
    unfolding state_changes_def by (subst own_filter [OF assms]) (use that in \<open>simp_all add: scope_def\<close>)
  show "limit_samples aq s = limit_samples aq t" if "aq_account_id aq = b"
    unfolding limit_samples_def by (subst own_filter [OF assms]) (use that in \<open>simp_all add: scope_def\<close>)
  show "bash_events rx pq s = bash_events rx pq t" if "pq_account_id pq = b"
  proof -
    have "filter (\<lambda>d. d_get d ''tool_name'' = VStr ''Bash'' \<and> doc_owned (pq_account_id pq) d \<and>
        in_filter (pq_session_ids pq) (str_of d ''session_id'') \<and> re_on re (d_string (d_tool_input d) ''command'')) (ss_col s hook_events_col) =
      filter (\<lambda>d. d_get d ''tool_name'' = VStr ''Bash'' \<and> doc_owned (pq_account_id pq) d \<and>
        in_filter (pq_session_ids pq) (str_of d ''session_id'') \<and> re_on re (d_string (d_tool_input d) ''command'')) (ss_col t hook_events_col)" for re
      by (rule own_filter [OF assms]) (use that in simp)
    then show ?thesis unfolding bash_events_def by (simp only:)
  qed
  show "file_events rx pq s = file_events rx pq t" if "pq_account_id pq = b"
  proof -
    have "filter (\<lambda>d. doc_owned (pq_account_id pq) d \<and> in_filter (pq_session_ids pq) (str_of d ''session_id'') \<and>
        re_on re (touched_path d)) (ss_col s hook_events_col) =
      filter (\<lambda>d. doc_owned (pq_account_id pq) d \<and> in_filter (pq_session_ids pq) (str_of d ''session_id'') \<and>
        re_on re (touched_path d)) (ss_col t hook_events_col)" for re
      by (rule own_filter [OF assms]) (use that in simp)
    then show ?thesis unfolding file_events_def by (simp only:)
  qed
  show "otel_events oq s = otel_events oq t" if "oq_account_id oq = b"
    unfolding otel_events_def by (subst own_filter [OF assms]) (use that in simp_all)
qed

lemma own_lines:
  assumes "same_own b s t"
  shows "aq_account_id aq = b \<Longrightarrow> rejected_tool_uses aq s = rejected_tool_uses aq t"
    "eq_account_id eq = b \<Longrightarrow> error_lines eq s = error_lines eq t"
    "aq_account_id aq = b \<Longrightarrow> activities aq s = activities aq t"
    "lq_account_id lq = b \<Longrightarrow> b \<noteq> '''' \<Longrightarrow> transcript_lines lq s = transcript_lines lq t"
    "count_transcript_lines b sid s = count_transcript_lines b sid t"
    "tq_account_id tq = b \<Longrightarrow> search_transcripts tq s = search_transcripts tq t"
proof -
  show "rejected_tool_uses aq s = rejected_tool_uses aq t" if "aq_account_id aq = b"
    unfolding rejected_tool_uses_def by (subst own_filter [OF assms]) (use that in \<open>simp_all add: scope_def\<close>)
  show "error_lines eq s = error_lines eq t" if "eq_account_id eq = b"
    unfolding error_lines_def by (subst own_filter [OF assms]) (use that in simp_all)
  show "activities aq s = activities aq t" if "aq_account_id aq = b"
    unfolding activities_def by (subst own_filter [OF assms]) (use that in \<open>simp_all add: scope_def\<close>)
  show "transcript_lines lq s = transcript_lines lq t" if "lq_account_id lq = b" "b \<noteq> ''''"
    unfolding transcript_lines_def by (subst own_filter [OF assms]) (use that in simp_all)
  show "count_transcript_lines b sid s = count_transcript_lines b sid t"
    unfolding count_transcript_lines_def by (subst own_filter [OF assms]) (simp_all add: owned_sessionD)
  show "search_transcripts tq s = search_transcripts tq t" if "tq_account_id tq = b"
  proof -
    have "text_hits tq s = text_hits tq t"
      unfolding text_hits_def by (rule own_map_filter [OF assms]) (use that in simp)
    then show ?thesis unfolding search_transcripts_def by (simp only:)
  qed
qed

lemma own_parts:
  assumes "same_own b s t"
  shows "get_session b sid s = get_session b sid t" "subagent_ids b sid s = subagent_ids b sid t"
    "subagent_lines b sid agent s = subagent_lines b sid agent t" "session_blobs b sid s = session_blobs b sid t"
proof -
  have a: "agent_lines b sid s = agent_lines b sid t"
    unfolding agent_lines_def by (subst own_filter [OF assms]) (simp_all add: owned_sessionD)
  show "get_session b sid s = get_session b sid t"
    unfolding get_session_def by (subst own_find [OF assms]) (simp_all add: owned_sessionD)
  show "subagent_ids b sid s = subagent_ids b sid t" "subagent_lines b sid agent s = subagent_lines b sid agent t"
    by (simp_all add: subagent_ids_def subagent_lines_def a)
  show "session_blobs b sid s = session_blobs b sid t"
    unfolding session_blobs_def sorted_blobs_def by (subst own_filter [OF assms]) simp_all
qed

lemma own_totals:
  assumes "same_own b s t"
  shows "uq_account_id uq = b \<Longrightarrow> usage_totals uq s = usage_totals uq t"
    "cq_account_id cq = b \<Longrightarrow> activity_counts cq s = activity_counts cq t"
    "cq_account_id cq = b \<Longrightarrow> error_counts cq s = error_counts cq t"
    "cq_account_id cq = b \<Longrightarrow> limit_buckets cq s = limit_buckets cq t"
proof -
  show "usage_totals uq s = usage_totals uq t" if "uq_account_id uq = b"
  proof -
    have "filter (usage_selected uq) (ss_col s transcript_col) = filter (usage_selected uq) (ss_col t transcript_col)"
      by (rule own_filter [OF assms]) (use that in \<open>simp add: usage_selected_def Let_def\<close>)
    then show ?thesis by (simp add: usage_totals_def usage_messages_def)
  qed
  have h: "hour_counts cq k s = hour_counts cq k t" if "cq_account_id cq = b" for k
    unfolding hour_counts_def by (subst own_map_filter [OF assms]) (use that in simp_all)
  show "activity_counts cq s = activity_counts cq t" "error_counts cq s = error_counts cq t" if "cq_account_id cq = b"
    using h [OF that] by (simp_all add: activity_counts_def error_counts_def)
  show "limit_buckets cq s = limit_buckets cq t" if "cq_account_id cq = b"
    unfolding limit_buckets_def by (subst own_filter [OF assms, of "limit_sampled cq"]) (use that in \<open>simp_all add: limit_sampled_def\<close>)
qed


end
