(* ===== verification/Live_State.thy ===== *)
theory Live_State
  imports Session_Facts Session_Queries
begin

text \<open>
  What the capture keeps up to date on a session: its live state (\<open>session/livestate\<close>), with the
  grades of how recently it was active, and its model (\<open>session/modeltrack\<close>). Each change sets a
  field of the session and records an event, in two calls of the store. The clock is an argument
  of \<open>Observe\<close>: \<open>now\<close> is what it reads when it records the event, and when no time is given.

  The recorded changes of a session form a chain that ends in its current state, a repeated
  observation records nothing, and the grade of a time and the window of a grade agree, up to the
  window of \<open>cold\<close>, which in the first hour after midnight reaches into the warmer ones.
\<close>

section \<open>States\<close>

definition st_working :: string where "st_working = ''working''"
definition st_waiting :: string where "st_waiting = ''waiting''"
definition st_ended :: string where "st_ended = ''ended''"

definition ask_user_tool :: string where
  "ask_user_tool = ''AskUserQuestion''"

definition waiting_notifications :: "string list" where
  "waiting_notifications = [''permission_prompt'', ''idle_prompt'', ''elicitation'']"

definition event_state :: "doc \<Rightarrow> string \<times> string" where
  "event_state ev =
     (let name = str_of ev ''hook_event_name''
      in if name \<in> {''UserPromptSubmit'', ''PostToolUse'', ''PostToolUseFailure'', ''SubagentStart''} then (st_working, name)
         else if name = ''PreToolUse'' then
           (let tool = str_of ev ''tool_name''
            in if tool = ask_user_tool then (st_waiting, name @ '':'' @ tool) else (st_working, name))
         else if name \<in> {''Stop'', ''StopFailure'', ''PermissionRequest''} then (st_waiting, name)
         else if name = ''Notification'' then
           (let kind = str_of ev ''notification_type''
            in if list_ex (has_prefix kind) waiting_notifications then (st_waiting, name @ '':'' @ kind) else ('''', ''''))
         else if name = ''SessionEnd'' then (st_ended, name)
         else ('''', ''''))"

definition or_now :: "int \<Rightarrow> int \<Rightarrow> int" where
  "or_now now t = (if t = 0 then now else t)"

definition state_change_doc :: "int \<Rightarrow> string \<Rightarrow> string \<Rightarrow> string \<Rightarrow> string \<Rightarrow> string \<Rightarrow> int \<Rightarrow> doc" where
  "state_change_doc now acc sid from_state state reason t = doc_of
     [(''hook_event_name'', VStr state_changed_event), (''session_id'', VStr sid), (''account_id'', VStr acc),
      (''from'', VStr from_state), (''to'', VStr state), (''reason'', VStr reason), (''at'', VTime t), (''created_at'', VTime now)]"

definition observe_state ::
    "int \<Rightarrow> string \<Rightarrow> string \<Rightarrow> string \<Rightarrow> string \<Rightarrow> int \<Rightarrow> session_store \<Rightarrow> session_store \<times> (session_error + bool)" where
  "observe_state now acc sid state reason t0 s =
     (if state = '''' \<or> sid = '''' then (s, Inr False)
      else
        (let t = or_now now t0
         in case set_live_state acc sid state reason t s of
              (s1, Inl e) \<Rightarrow> (s1, Inl e)
            | (s1, Inr (previous, changed)) \<Rightarrow>
                if \<not> changed then (s1, Inr False)
                else (insert_hook_event (state_change_doc now acc sid previous state reason t) s1, Inr True)))"

section \<open>Hotness\<close>

definition hot_within :: int where "hot_within = 30 * minute_ns"
definition warm_within :: int where "warm_within = hour_ns"

definition day_start :: "int \<Rightarrow> int" where
  "day_start now = now - now mod day_ns"

definition hotness :: "int \<Rightarrow> int \<Rightarrow> string" where
  "hotness last_seen now =
     (if last_seen = 0 then ''''
      else
        (let age = now - last_seen
         in if age \<le> hot_within then ''hot''
            else if age \<le> warm_within then ''warm''
            else if \<not> last_seen < day_start now then ''cool''
            else ''cold''))"

definition window :: "string \<Rightarrow> int \<Rightarrow> (int \<times> int) option" where
  "window grade now =
     (if grade = ''hot'' then Some (now - hot_within, 0)
      else if grade = ''warm'' then Some (now - warm_within, now - hot_within)
      else if grade = ''cool'' then Some (day_start now, now - warm_within)
      else if grade = ''cold'' then Some (0, day_start now)
      else None)"

section \<open>Models\<close>

definition event_model :: "doc \<Rightarrow> string" where
  "event_model ev = (case d_string (d_sub ev ''model'') ''id'' of Some i \<Rightarrow> i | None \<Rightarrow> str_of ev ''model'')"

definition model_change_doc :: "int \<Rightarrow> string \<Rightarrow> string \<Rightarrow> string \<Rightarrow> string \<Rightarrow> string \<Rightarrow> int \<Rightarrow> int \<Rightarrow> doc" where
  "model_change_doc now acc sid from_model model source seq t = doc_of
     ([(''hook_event_name'', VStr model_changed_event), (''session_id'', VStr sid), (''account_id'', VStr acc),
       (''from'', VStr from_model), (''to'', VStr model), (''source'', VStr source), (''at'', VTime t), (''created_at'', VTime now)] @
      (if 0 \<le> seq then [(''seq'', VInt seq)] else []))"

definition observe_model ::
    "int \<Rightarrow> string \<Rightarrow> string \<Rightarrow> string \<Rightarrow> int \<Rightarrow> int \<Rightarrow> string \<Rightarrow> session_store \<Rightarrow> session_store \<times> (session_error + bool)" where
  "observe_model now acc sid model seq t0 source s =
     (if model = '''' \<or> sid = '''' then (s, Inr False)
      else
        (let t = or_now now t0
         in case set_model acc sid model t s of
              (s1, Inl e) \<Rightarrow> (s1, Inl e)
            | (s1, Inr (previous, changed)) \<Rightarrow>
                if \<not> changed then (s1, Inr False)
                else (insert_hook_event (model_change_doc now acc sid previous model source seq t) s1, Inr True)))"

definition own_line_time :: "doc \<Rightarrow> int" where
  "own_line_time d =
     (case d_string (d_sub d ''line'') ''timestamp'' of
        None \<Rightarrow> 0 | Some x \<Rightarrow> (case parse_instant x of None \<Rightarrow> 0 | Some t \<Rightarrow> t))"

fun observe_lines :: "int \<Rightarrow> string \<Rightarrow> transcript_line list \<Rightarrow> string \<Rightarrow> session_store \<Rightarrow> session_store \<times> string \<times> session_error option" where
  "observe_lines now acc [] last_model s = (s, last_model, None)"
| "observe_lines now acc (l # ls) last_model s =
     (let d = [(''line'', tl_line l)]; model = line_model d
      in if model = '''' \<or> model = last_model then observe_lines now acc ls last_model s
         else (case observe_model now acc (tl_session_id l) model (tl_seq l) (own_line_time d) ''transcript'' s of
                 (s1, Inl SessNotFound) \<Rightarrow> observe_lines now acc ls last_model s1
               | (s1, Inl e) \<Rightarrow> (s1, last_model, Some e)
               | (s1, Inr _) \<Rightarrow> observe_lines now acc ls model s1))"

section \<open>Grades and windows\<close>

definition in_window :: "int \<times> int \<Rightarrow> int \<Rightarrow> bool" where
  "in_window w t \<longleftrightarrow> (fst w = 0 \<or> fst w \<le> t) \<and> (snd w = 0 \<or> t < snd w)"

lemma day_start_bounds: "day_start now \<le> now" "now < day_start now + day_ns"
  by (simp_all add: day_start_def day_ns_def hour_ns_def minute_ns_def)

text \<open>A session is graded hot, warm or cool exactly when it was last seen in the window of that grade; the window
  of cold is everything before today, so in the first hour of a day it also holds sessions that are
  still hot or warm.\<close>

theorem hotness_window:
  assumes "0 < seen" "day_ns < now" "g \<in> {''hot'', ''warm'', ''cool'', ''cold''}"
  shows "\<exists>w. window g now = Some w \<and>
    (g \<noteq> ''cold'' \<longrightarrow> (hotness seen now = g \<longleftrightarrow> in_window w seen)) \<and>
    (g = ''cold'' \<longrightarrow> (in_window w seen \<longleftrightarrow> seen < day_start now) \<and>
       (hotness seen now = g \<longleftrightarrow> in_window w seen \<and> warm_within < now - seen) \<and>
       (warm_within < now mod day_ns \<longrightarrow> (hotness seen now = g \<longleftrightarrow> in_window w seen)))"
proof -
  have d: "0 < day_start now" using day_start_bounds(2) [of now] assms(2) by simp
  have n: "hot_within < warm_within" "0 < hot_within" "warm_within < day_ns"
    by (simp_all add: hot_within_def warm_within_def hour_ns_def minute_ns_def day_ns_def)
  have e: "now - seen > warm_within" if "seen < day_start now" "warm_within < now mod day_ns"
    using that by (simp add: day_start_def)
  consider "g = ''hot''" | "g = ''warm''" | "g = ''cool''" | "g = ''cold''" using assms(3) by blast
  then show ?thesis
  proof cases
    case 1
    then show ?thesis using n assms(1,2) by (simp add: window_def hotness_def in_window_def Let_def; linarith)
  next
    case 2
    then show ?thesis using n assms(1,2) by (simp add: window_def hotness_def in_window_def Let_def; linarith)
  next
    case 3
    then show ?thesis using n d assms(1,2) by (simp add: window_def hotness_def in_window_def Let_def; linarith)
  next
    case 4
    then show ?thesis using n d e assms(1,2) by (simp add: window_def hotness_def in_window_def Let_def; linarith)
  qed
qed

section \<open>The recorded changes\<close>

definition is_state_change :: "string \<Rightarrow> string \<Rightarrow> doc \<Rightarrow> bool" where
  "is_state_change acc sid d \<longleftrightarrow> str_of d ''hook_event_name'' = state_changed_event \<and>
     str_of d ''session_id'' = sid \<and> doc_owned acc d"

definition changes_of :: "string \<Rightarrow> string \<Rightarrow> session_store \<Rightarrow> doc list" where
  "changes_of acc sid s = filter (is_state_change acc sid) (ss_col s hook_events_col)"

definition live_state_of :: "string \<Rightarrow> string \<Rightarrow> session_store \<Rightarrow> string option" where
  "live_state_of acc sid s = map_option (\<lambda>d. str_of d ''live_state'') (ss_find s sessions_col (owned_session acc sid))"

text \<open>Each change starts from the state the one before led to, and leads to another.\<close>

fun state_chain :: "string \<Rightarrow> doc list \<Rightarrow> string \<Rightarrow> bool" where
  "state_chain a [] b \<longleftrightarrow> a = b"
| "state_chain a (d # ds) b \<longleftrightarrow> str_of d ''from'' = a \<and> str_of d ''to'' \<noteq> a \<and> state_chain (str_of d ''to'') ds b"

lemma state_chain_append: "state_chain a (ds @ [d]) b \<longleftrightarrow>
    state_chain a ds (str_of d ''from'') \<and> str_of d ''to'' \<noteq> str_of d ''from'' \<and> str_of d ''to'' = b"
  by (induction ds arbitrary: a) auto

record observation =
  ob_now :: int
  ob_account :: string
  ob_session :: string
  ob_state :: string
  ob_reason :: string
  ob_time :: int

definition observe_one :: "observation \<Rightarrow> session_store \<Rightarrow> session_store" where
  "observe_one o1 s = fst (observe_state (ob_now o1) (ob_account o1) (ob_session o1) (ob_state o1) (ob_reason o1) (ob_time o1) s)"

lemma find_change_first:
  "find P ds = Some d \<Longrightarrow> P (f d) \<Longrightarrow> find P (change_first P f ds) = Some (f d)"
  by (induction ds) (auto split: if_splits)

lemma find_change_other:
  "(\<And>d. Q d \<Longrightarrow> \<not> P d \<and> \<not> P (f d)) \<Longrightarrow> find P (change_first Q f ds) = find P ds"
  by (induction ds) auto

lemma owned_session_put_all:
  "''session_id'' \<notin> fst ` set fs \<Longrightarrow> ''account_id'' \<notin> fst ` set fs \<Longrightarrow> owned_session acc sid (put_all fs d) = owned_session acc sid d"
  using readers_cong(1) [OF put_all_notin [of "''session_id''" fs d]] readers_cong(2) [OF put_all_notin [of "''account_id''" fs d]]
  by (simp add: owned_session_def is_session_def doc_owned_def)

lemma owned_session_other: "owned_session a i d \<Longrightarrow> owned_session acc sid d \<longleftrightarrow> acc = a \<and> sid = i"
  by (auto simp: owned_session_def is_session_def doc_owned_def)

lemma state_change_doc_reads:
  "str_of (state_change_doc now acc sid f g reason t) ''hook_event_name'' = state_changed_event"
  "str_of (state_change_doc now acc sid f g reason t) ''session_id'' = sid"
  "str_of (state_change_doc now acc sid f g reason t) ''account_id'' = acc"
  "str_of (state_change_doc now acc sid f g reason t) ''from'' = f"
  "str_of (state_change_doc now acc sid f g reason t) ''to'' = g"
  by (simp_all add: state_change_doc_def om_get_doc_of str_of_def d_string_def d_get_def)

lemma str_of_id: "k \<noteq> ''_id'' \<Longrightarrow> str_of (om_put ''_id'' i d) k = str_of d k"
  by (rule readers_cong(2)) simp

lemma insert_state_change:
  "insert_hook_event (state_change_doc now acc sid f g reason t) s =
     ss_insert hook_events_col (state_change_doc now acc sid f g reason t) s"
  by (simp add: insert_hook_event_def memory_hash_def state_change_doc_reads state_changed_event_def memory_event_def)

lemma observe_state_cases:
  assumes "observe_state now a i state reason t0 s = (s', r)"
  obtains (same) "s' = s" "\<And>b. r = Inr b \<Longrightarrow> \<not> b"
  | (changed) d where "ss_find s sessions_col (owned_session a i) = Some d" "str_of d ''live_state'' \<noteq> state" "state \<noteq> ''''"
      "s' = ss_insert hook_events_col (state_change_doc now a i (str_of d ''live_state'') state reason (or_now now t0))
        (ss_change sessions_col (owned_session a i)
          (put_all [(''live_state'', VStr state), (''live_state_at'', VTime (or_now now t0)), (''live_state_reason'', VStr reason)]) s)"
      "r = Inr True"
proof (cases "state = '''' \<or> i = ''''")
  case True
  then show ?thesis using assms same by (auto simp: observe_state_def)
next
  case False
  show ?thesis
  proof (cases "ss_find s sessions_col (owned_session a i)")
    case None
    then show ?thesis using assms same False by (auto simp: observe_state_def set_live_state_def)
  next
    case (Some d)
    show ?thesis
    proof (cases "str_of d ''live_state'' = state")
      case True
      then show ?thesis using assms same False Some by (auto simp: observe_state_def set_live_state_def)
    next
      case c: False
      then show ?thesis using assms changed [OF Some c] False Some
        by (simp add: observe_state_def set_live_state_def insert_state_change Let_def)
    qed
  qed
qed

lemma live_state_put: "str_of (put_all [(''live_state'', VStr state), (''live_state_at'', x), (''live_state_reason'', y)] d) ''live_state'' = state"
  by (simp add: om_get_put_all str_of_def d_string_def d_get_def)

lemma observe_one_chain:
  assumes "live_state_of acc sid s = Some b" "state_chain a (changes_of acc sid s) b"
  shows "\<exists>b'. live_state_of acc sid (observe_one o1 s) = Some b' \<and> state_chain a (changes_of acc sid (observe_one o1 s)) b'"
proof -
  obtain s' r where o: "observe_state (ob_now o1) (ob_account o1) (ob_session o1) (ob_state o1) (ob_reason o1) (ob_time o1) s = (s', r)"
    by (rule prod.exhaust)
  have s': "observe_one o1 s = s'" by (simp add: observe_one_def o)
  from o show ?thesis
  proof (cases rule: observe_state_cases)
    case same
    show ?thesis using assms unfolding s' same(1) by blast
  next
    case (changed d)
    let ?fs = "[(''live_state'', VStr (ob_state o1)), (''live_state_at'', VTime (or_now (ob_now o1) (ob_time o1))), (''live_state_reason'', VStr (ob_reason o1))]"
    let ?ev = "state_change_doc (ob_now o1) (ob_account o1) (ob_session o1) (str_of d ''live_state'') (ob_state o1) (ob_reason o1) (or_now (ob_now o1) (ob_time o1))"
    let ?new = "om_put ''_id'' (VStr (itoa (Suc (ss_next s)))) ?ev"
    have own: "owned_session x y (put_all ?fs e) = owned_session x y e" for x y e
      by (rule owned_session_put_all) simp_all
    have hook: "ss_col s' hook_events_col = ss_col s hook_events_col @ [?new]"
      unfolding changed(4) by (simp add: ss_col_insert ss_col_change col_defs ss_change_def)
    have sess: "ss_col s' sessions_col = change_first (owned_session (ob_account o1) (ob_session o1)) (put_all ?fs) (ss_col s sessions_col)"
      unfolding changed(4) by (simp add: ss_col_insert ss_col_change col_defs)
    show ?thesis
    proof (cases "acc = ob_account o1 \<and> sid = ob_session o1")
      case True
      have "find (owned_session acc sid) (ss_col s' sessions_col) = Some (put_all ?fs d)"
      proof -
        have d: "find (owned_session acc sid) (ss_col s sessions_col) = Some d" using True changed(1) by (simp add: ss_find_def)
        then have "owned_session acc sid (put_all ?fs d)" unfolding own by (auto simp: find_Some_iff)
        from find_change_first [of "owned_session acc sid" _ d "put_all ?fs", OF d this] show ?thesis unfolding sess using True by simp
      qed
      then have l: "live_state_of acc sid s' = Some (ob_state o1)"
        by (simp add: live_state_of_def ss_find_def live_state_put)
      have b: "b = str_of d ''live_state''" using assms(1) changed(1) True by (simp add: live_state_of_def)
      have "is_state_change acc sid ?new" using True
        by (simp add: is_state_change_def doc_owned_def str_of_id state_change_doc_reads)
      then have "changes_of acc sid s' = changes_of acc sid s @ [?new]" by (simp add: changes_of_def hook)
      then have "state_chain a (changes_of acc sid s') (ob_state o1)"
        using assms(2) changed(2) b by (simp add: state_chain_append str_of_id state_change_doc_reads)
      then show ?thesis using l s' by blast
    next
      case False
      have "find (owned_session acc sid) (ss_col s' sessions_col) = find (owned_session acc sid) (ss_col s sessions_col)"
        unfolding sess by (rule find_change_other) (use False own owned_session_other in blast)
      then have l: "live_state_of acc sid s' = Some b" using assms(1) by (simp add: live_state_of_def ss_find_def)
      have "\<not> is_state_change acc sid ?new" using False
        by (auto simp: is_state_change_def doc_owned_def str_of_id state_change_doc_reads)
      then have "changes_of acc sid s' = changes_of acc sid s" by (simp add: changes_of_def hook)
      then show ?thesis using l s' assms(2) by auto
    qed
  qed
qed

text \<open>C19. Whatever is observed of whichever sessions, the changes recorded for a session lead from its first
  state to the one it is in: each starts where the one before ended, and none leads nowhere.\<close>

theorem observed_changes_chain:
  assumes "live_state_of acc sid s = Some b" "changes_of acc sid s = []"
  shows "\<exists>b'. live_state_of acc sid (fold observe_one obs s) = Some b' \<and>
    state_chain b (changes_of acc sid (fold observe_one obs s)) b'"
proof -
  have "\<exists>b'. live_state_of acc sid (fold observe_one obs t) = Some b' \<and> state_chain b (changes_of acc sid (fold observe_one obs t)) b'"
    if "live_state_of acc sid t = Some c" "state_chain b (changes_of acc sid t) c" for t c
    using that
  proof (induction obs arbitrary: t c)
    case (Cons o1 obs)
    obtain c' where "live_state_of acc sid (observe_one o1 t) = Some c'" "state_chain b (changes_of acc sid (observe_one o1 t)) c'"
      using observe_one_chain [OF Cons.prems] by blast
    then show ?case using Cons.IH by simp
  qed simp
  then show ?thesis using assms by simp
qed

end
