(* ===== verification/Examples_Sessions.thy ===== *)
theory Examples_Sessions
  imports Projects Session_Isolation Live_State
begin

text \<open>
  A small store of sessions of two accounts, and two remotes of one repository, on which the
  properties of projects and sessions that have a hypothesis are applied once.
\<close>

section \<open>Projects\<close>

text \<open>A parser of URLs for the one host the examples use.\<close>

definition ex_url :: "string \<Rightarrow> (string \<times> string) option" where
  "ex_url s = map_option (\<lambda>r. (''host'' @ takeWhile (\<lambda>c. c \<noteq> CHR ''/'') r, dropWhile (\<lambda>c. c \<noteq> CHR ''/'') r))
     (strip_prefix ''ssh://host'' s)"

theorem project_slug_remotes_agree_witness:
  "project_slug ex_url ''ssh://host:22/a/b.git'' = project_slug ex_url ''git@host:a/b.git'' \<and>
   project_slug ex_url ''git@host:a/b.git'' = ''host__a__b''"
proof -
  have t: "trim_space ''git@host:a/b.git'' = ''git@host:a/b.git''" "trim_space ''ssh://host:22/a/b.git'' = ''ssh://host:22/a/b.git''"
    "\<not> str_contains ''git@host:a/b.git'' ''://''" "\<not> has_suffix (to_lower ''a/b'') ''.git''"
    "ex_url ''ssh://host:22/a/b.git'' = Some (''host:22'', ''/a/b.git'')" "project_slug ex_url ''git@host:a/b.git'' = ''host__a__b''"
    by code_simp+
  show ?thesis
    using project_slug_remotes_agree [of "''git''" "''host''" "''a/b''" "''ssh''" "''host:22/a/b.git''" ex_url "'':22''" "''.git''"] t
    by simp
qed

definition ex_storage :: storage_def where
  "ex_storage = \<lparr>sd_name = ''main'', sd_kind = ''postgres'', sd_enabled = None, sd_options = []\<rparr>"

definition ex_stamped :: "string \<Rightarrow> storage_def" where
  "ex_stamped prefix = ex_storage\<lparr>sd_options := [(''tablePrefix'', prefix)]\<rparr>"

theorem stamp_separates_witness:
  "opt_of (sd_options (ex_stamped ''one_'')) ''tablePrefix'' \<noteq> opt_of (sd_options (ex_stamped ''two_'')) ''tablePrefix''"
proof -
  have s: "stamp ex_storage [] ''one'' = Inr (ex_stamped ''one_'')" "stamp ex_storage [] ''two'' = Inr (ex_stamped ''two_'')"
    "to_lower (sd_kind ex_storage) \<in> set sql_kinds"
    by code_simp+
  show ?thesis using stamp_separates [OF s(1,2)] s(3) by simp
qed

section \<open>Sessions\<close>

definition ex_session :: "string \<Rightarrow> string \<Rightarrow> session_rec" where
  "ex_session acc sid =
     \<lparr>sr_session_id = sid, sr_transcript_path = '''', sr_cwd = ''/work'', sr_project_path = ''/work'', sr_git_origin = '''',
      sr_git_branch = '''', sr_project_slug = '''', sr_account_id = acc, sr_host = None, sr_last_seen = 5\<rparr>"

definition ex_one :: session_store where
  "ex_one = upsert_session ex_url (ex_session ''alice'' ''s1'') new_session_store"

definition ex_two :: session_store where
  "ex_two = upsert_session ex_url (ex_session ''bob'' ''s2'') ex_one"

lemma ex_two_reachable: "session_reachable ex_two"
  unfolding session_reachable_def ex_two_def ex_one_def
  by (rule rtranclp.rtrancl_into_rtrancl [OF r_into_rtranclp]) (rule step_upsert)+


text \<open>Bob records a session and ends his account; Alice reads what she read before.\<close>

definition ex_run :: session_store where
  "ex_run = fst (delete_account ''bob'' ex_two)"

lemma ex_run_steps: "(account_step ''bob'')\<^sup>*\<^sup>* ex_one ex_run"
proof -
  have "key_free ''bob'' sessions_col [(''session_id'', VStr ''s2'')] ex_one" by code_simp
  then have "account_step ''bob'' ex_one ex_two"
    unfolding ex_two_def by (intro acc_upsert) (simp_all add: ex_session_def)
  moreover have "account_step ''bob'' ex_two ex_run" unfolding ex_run_def by (rule acc_del_account)
  ultimately show ?thesis by auto
qed


section \<open>Live states\<close>

theorem hotness_window_witness: "hotness (100 * day_ns - 1) (100 * day_ns) = ''hot''"
proof -
  have "in_window (100 * day_ns - hot_within, 0) (100 * day_ns - 1)" "window ''hot'' (100 * day_ns) = Some (100 * day_ns - hot_within, 0)"
    "0 < 100 * day_ns - 1" "day_ns < 100 * day_ns"
    by code_simp+
  then show ?thesis using hotness_window [of "100 * day_ns - 1" "100 * day_ns" "''hot''"] by auto
qed

definition ex_seen :: "string \<Rightarrow> int \<Rightarrow> observation" where
  "ex_seen state t =
     \<lparr>ob_now = t, ob_account = ''alice'', ob_session = ''s1'', ob_state = state, ob_reason = ''Stop'', ob_time = t\<rparr>"

theorem observed_changes_chain_witness:
  "\<exists>b. live_state_of ''alice'' ''s1'' (fold observe_one [ex_seen st_working 7, ex_seen st_working 8, ex_seen st_waiting 9] ex_two) = Some b \<and>
     state_chain '''' (changes_of ''alice'' ''s1'' (fold observe_one [ex_seen st_working 7, ex_seen st_working 8, ex_seen st_waiting 9] ex_two)) b"
proof -
  have "live_state_of ''alice'' ''s1'' ex_two = Some ''''" "changes_of ''alice'' ''s1'' ex_two = []" by code_simp+
  then show ?thesis by (rule observed_changes_chain)
qed

end
