(* ===== verification/Auth_Tokens.thy ===== *)
theory Auth_Tokens
  imports Go_Strings
begin

text \<open>
  The tokens of the server (\<open>server/auth/auth.go\<close>): a file of hashed tokens with what is held of it in
  memory, the environment keys that are exchanged for short-lived tokens, and the bearer header.

  A file is known by a version, which stands for its modification time and size; \<open>io\<close> says which of
  the system calls of one operation succeed. The digest is the argument \<open>sha\<close>, what is drawn at
  random the argument \<open>mint\<close>, the clock the argument \<open>now\<close>; times are nanoseconds since Go's zero time.
  Writing JSON and reading it back is the identity on tokens, whose times are whole seconds.

  Whatever fails on the way, names stay unique and a token exchanged for a key has the account of
  that key and is revoked with it; a key is exchanged at most sixty times in an hour.
\<close>

section \<open>Tokens and their file\<close>

record principal =
  pr_name :: string
  pr_account_id :: string
  pr_projects :: "string list"

record auth_token =
  at_name :: string
  at_hash :: string
  at_account_id :: string
  at_projects :: "string list"
  at_created :: int
  at_revoked :: "int option"
  at_kind :: string
  at_token_ttl :: int
  at_parent :: string
  at_expires :: "int option"

definition kind_environment :: string where
  "kind_environment = ''environment''"

definition second_ns :: int where "second_ns = 1000000000"
definition one_hour :: int where "one_hour = 3600 * second_ns"
definition default_token_ttl :: int where "default_token_ttl = 24 * one_hour"
definition min_token_ttl :: int where "min_token_ttl = one_hour"
definition max_token_ttl :: int where "max_token_ttl = 7 * 24 * one_hour"
definition exchanges_per_hour :: nat where "exchanges_per_hour = 60"
definition prune_after :: int where "prune_after = 24 * one_hour"

definition token_expired :: "int \<Rightarrow> auth_token \<Rightarrow> bool" where
  "token_expired now t \<longleftrightarrow> (case at_expires t of None \<Rightarrow> False | Some e \<Rightarrow> \<not> now < e)"

datatype auth_error = NameRequired | TokenExists | BadLifetime | InvalidKey | RateLimited | NoFreeName
  | NoSuchToken | TokenRevoked | StatFailed | ReadFailed | ParseFailed | WriteFailed

text \<open>What is on disk: nothing, or a version with its tokens or with something else.\<close>

datatype token_disk = NoFile | OnDisk nat "auth_token list option"

record token_file =
  tf_disk :: token_disk
  tf_exchanges :: "(string, int list) omap"
  tf_loaded :: bool
  tf_seen :: "nat option"
  tf_tokens :: "auth_token list"
  tf_err :: "auth_error option"

definition open_token_file :: "token_disk \<Rightarrow> token_file" where
  "open_token_file d =
     \<lparr>tf_disk = d, tf_exchanges = [], tf_loaded = False, tf_seen = None, tf_tokens = [], tf_err = None\<rparr>"

record file_io =
  io_stat :: bool
  io_read :: bool
  io_write :: bool
  io_again :: bool

definition load_tokens :: "file_io \<Rightarrow> token_file \<Rightarrow> token_file \<times> auth_error option" where
  "load_tokens io f =
     (if \<not> io_stat io then (f\<lparr>tf_err := Some StatFailed\<rparr>, Some StatFailed)
      else
        (case tf_disk f of
           NoFile \<Rightarrow> (f\<lparr>tf_loaded := True, tf_seen := None, tf_tokens := [], tf_err := None\<rparr>, None)
         | OnDisk v body \<Rightarrow>
             if tf_loaded f \<and> tf_seen f = Some v then (f, tf_err f)
             else if \<not> io_read io then (f\<lparr>tf_err := Some ReadFailed\<rparr>, Some ReadFailed)
             else
               (case body of
                  None \<Rightarrow> (f\<lparr>tf_loaded := True, tf_seen := Some v, tf_tokens := [], tf_err := Some ParseFailed\<rparr>, Some ParseFailed)
                | Some ts \<Rightarrow> (f\<lparr>tf_loaded := True, tf_seen := Some v, tf_tokens := ts, tf_err := None\<rparr>, None))))"

definition disk_version :: "token_disk \<Rightarrow> nat" where
  "disk_version d = (case d of NoFile \<Rightarrow> 0 | OnDisk v _ \<Rightarrow> v)"

definition save_tokens :: "file_io \<Rightarrow> token_file \<Rightarrow> token_file \<times> auth_error option" where
  "save_tokens io f =
     (if \<not> io_write io then (f, Some WriteFailed)
      else
        (let v = Suc (disk_version (tf_disk f)); f1 = f\<lparr>tf_disk := OnDisk v (Some (tf_tokens f))\<rparr>
         in if io_again io then (f1\<lparr>tf_loaded := True, tf_seen := Some v, tf_err := None\<rparr>, None)
            else (f1\<lparr>tf_loaded := False\<rparr>, None)))"

section \<open>Looking tokens up\<close>

definition matches_hash :: "(string \<Rightarrow> string) \<Rightarrow> string \<Rightarrow> auth_token \<Rightarrow> bool" where
  "matches_hash sha raw t \<longleftrightarrow> at_hash t = sha raw \<and> at_revoked t = None"

definition match_token :: "(string \<Rightarrow> string) \<Rightarrow> file_io \<Rightarrow> string \<Rightarrow> token_file \<Rightarrow> token_file \<times> auth_token option" where
  "match_token sha io raw f =
     (case load_tokens io f of
        (f1, Some _) \<Rightarrow> (f1, None)
      | (f1, None) \<Rightarrow> if raw = '''' then (f1, None) else (f1, find (matches_hash sha raw) (rev (tf_tokens f1))))"

definition token_lookup ::
    "(string \<Rightarrow> string) \<Rightarrow> file_io \<Rightarrow> int \<Rightarrow> string \<Rightarrow> token_file \<Rightarrow> token_file \<times> principal option" where
  "token_lookup sha io now raw f =
     (case match_token sha io raw f of
        (f1, None) \<Rightarrow> (f1, None)
      | (f1, Some t) \<Rightarrow>
          if at_kind t = kind_environment \<or> token_expired now t then (f1, None)
          else (f1, Some \<lparr>pr_name = at_name t, pr_account_id = at_account_id t, pr_projects = at_projects t\<rparr>))"

definition list_tokens :: "file_io \<Rightarrow> token_file \<Rightarrow> token_file \<times> (auth_error + auth_token list)" where
  "list_tokens io f =
     (case load_tokens io f of (f1, Some e) \<Rightarrow> (f1, Inl e) | (f1, None) \<Rightarrow> (f1, Inr (tf_tokens f1)))"

section \<open>Minting\<close>

text \<open>What a mint draws: the token, an account id for a token that names none, and the suffixes tried
  for the name of an exchanged token.\<close>

record mint_draw =
  mt_raw :: string
  mt_account :: string
  mt_suffixes :: "string list"

definition clean_projects :: "string list \<Rightarrow> string list \<Rightarrow> string list" where
  "clean_projects base add =
     fold (\<lambda>p0 out. let p = trim_space p0 in if p \<noteq> '''' \<and> p \<notin> set out then out @ [p] else out) add base"

definition trunc_second :: "int \<Rightarrow> int" where
  "trunc_second t = t - t mod second_ns"

definition append_token ::
    "(string \<Rightarrow> string) \<Rightarrow> file_io \<Rightarrow> int \<Rightarrow> mint_draw \<Rightarrow> string \<Rightarrow> string \<Rightarrow> string list \<Rightarrow> (auth_token \<Rightarrow> auth_token) \<Rightarrow>
     token_file \<Rightarrow> token_file \<times> (auth_error + string)" where
  "append_token sha io now mint name0 acc projects setter f =
     (let name = trim_space name0
      in if name = '''' then (f, Inl NameRequired)
         else if list_ex (\<lambda>t. at_name t = name) (tf_tokens f) then (f, Inl TokenExists)
         else
           (let t = setter \<lparr>at_name = name, at_hash = sha (mt_raw mint), at_account_id = (if acc = '''' then mt_account mint else acc),
                      at_projects = clean_projects [] projects, at_created = trunc_second now, at_revoked = None,
                      at_kind = '''', at_token_ttl = 0, at_parent = '''', at_expires = None\<rparr>
            in case save_tokens io (f\<lparr>tf_tokens := tf_tokens f @ [t]\<rparr>) of
                 (f1, Some e) \<Rightarrow> (f1, Inl e)
               | (f1, None) \<Rightarrow> (f1, Inr (mt_raw mint))))"

definition create_with ::
    "(string \<Rightarrow> string) \<Rightarrow> file_io \<Rightarrow> int \<Rightarrow> mint_draw \<Rightarrow> string \<Rightarrow> string \<Rightarrow> string list \<Rightarrow> (auth_token \<Rightarrow> auth_token) \<Rightarrow>
     token_file \<Rightarrow> token_file \<times> (auth_error + string)" where
  "create_with sha io now mint name acc projects setter f =
     (case load_tokens io f of
        (f1, Some e) \<Rightarrow> (f1, Inl e)
      | (f1, None) \<Rightarrow> append_token sha io now mint name acc projects setter f1)"

definition create_token ::
    "(string \<Rightarrow> string) \<Rightarrow> file_io \<Rightarrow> int \<Rightarrow> mint_draw \<Rightarrow> string \<Rightarrow> string \<Rightarrow> string list \<Rightarrow>
     token_file \<Rightarrow> token_file \<times> (auth_error + string)" where
  "create_token sha io now mint name acc projects f = create_with sha io now mint name acc projects (\<lambda>t. t) f"

definition create_environment_key ::
    "(string \<Rightarrow> string) \<Rightarrow> file_io \<Rightarrow> int \<Rightarrow> mint_draw \<Rightarrow> string \<Rightarrow> string \<Rightarrow> string list \<Rightarrow> int \<Rightarrow>
     token_file \<Rightarrow> token_file \<times> (auth_error + string)" where
  "create_environment_key sha io now mint name acc projects ttl0 f =
     (let ttl = (if ttl0 = 0 then default_token_ttl else ttl0)
      in if ttl < min_token_ttl \<or> max_token_ttl < ttl then (f, Inl BadLifetime)
         else create_with sha io now mint name acc projects
                (\<lambda>t. t\<lparr>at_kind := kind_environment, at_token_ttl := ttl\<rparr>) f)"

section \<open>Exchanging a key\<close>

text \<open>The exchanges of a key in the last hour are counted before the token is named and minted.\<close>

definition recent_exchanges :: "string \<Rightarrow> int \<Rightarrow> token_file \<Rightarrow> int list" where
  "recent_exchanges key now f =
     filter (\<lambda>t. now - t < one_hour) (case om_get (tf_exchanges f) key of None \<Rightarrow> [] | Some ts \<Rightarrow> ts)"

definition allow_exchange :: "string \<Rightarrow> int \<Rightarrow> token_file \<Rightarrow> token_file \<times> bool" where
  "allow_exchange key now f =
     (let recent = recent_exchanges key now f
      in if exchanges_per_hour \<le> length recent then (f\<lparr>tf_exchanges := om_put key recent (tf_exchanges f)\<rparr>, False)
         else (f\<lparr>tf_exchanges := om_put key (recent @ [now]) (tf_exchanges f)\<rparr>, True))"

definition label_char :: "char \<Rightarrow> bool" where
  "label_char c \<longleftrightarrow> is_lower_alnum (lower_char c) \<or> c \<in> set ''.-_''"

definition client_label :: "string \<Rightarrow> string" where
  "client_label name = take 40 (filter label_char name)"

definition exchanged_name :: "mint_draw \<Rightarrow> string \<Rightarrow> string \<Rightarrow> token_file \<Rightarrow> string option" where
  "exchanged_name mint key client f =
     (let prefix = key @ ''@'' @ (if client = '''' then '''' else client @ ''-'')
      in find (\<lambda>n. \<not> list_ex (\<lambda>t. at_name t = n) (tf_tokens f)) (map (\<lambda>x. prefix @ x) (take 8 (mt_suffixes mint))))"

definition long_expired :: "int \<Rightarrow> auth_token \<Rightarrow> bool" where
  "long_expired now t \<longleftrightarrow> at_parent t \<noteq> '''' \<and> (case at_expires t of None \<Rightarrow> False | Some e \<Rightarrow> prune_after < now - e)"

definition prune_tokens :: "int \<Rightarrow> token_file \<Rightarrow> token_file" where
  "prune_tokens now f = f\<lparr>tf_tokens := filter (\<lambda>t. \<not> long_expired now t) (tf_tokens f)\<rparr>"

record exchanged =
  ex_token :: string
  ex_name :: string
  ex_account_id :: string
  ex_expires_at :: int

definition exchange ::
    "(string \<Rightarrow> string) \<Rightarrow> file_io \<Rightarrow> int \<Rightarrow> mint_draw \<Rightarrow> string \<Rightarrow> string \<Rightarrow> token_file \<Rightarrow>
     token_file \<times> (auth_error + exchanged)" where
  "exchange sha io now mint key client f =
     (case match_token sha io key f of
        (f1, None) \<Rightarrow> (f1, Inl InvalidKey)
      | (f1, Some k) \<Rightarrow>
          if at_kind k \<noteq> kind_environment then (f1, Inl InvalidKey)
          else
            (case allow_exchange (at_name k) now f1 of
               (f2, False) \<Rightarrow> (f2, Inl RateLimited)
             | (f2, True) \<Rightarrow>
                 (case exchanged_name mint (at_name k) (client_label client) f2 of
                    None \<Rightarrow> (f2, Inl NoFreeName)
                  | Some name \<Rightarrow>
                      (let ttl = (if at_token_ttl k \<le> 0 then default_token_ttl else at_token_ttl k);
                           expires = trunc_second (now + ttl)
                       in case append_token sha io now mint name (at_account_id k) (at_projects k)
                                 (\<lambda>t. t\<lparr>at_parent := at_name k, at_expires := Some expires\<rparr>) (prune_tokens now f2) of
                            (f3, Inl e) \<Rightarrow> (f3, Inl e)
                          | (f3, Inr raw) \<Rightarrow>
                              (f3, Inr \<lparr>ex_token = raw, ex_name = name, ex_account_id = at_account_id k, ex_expires_at = expires\<rparr>)))))"

section \<open>Revoking and granting\<close>

fun change_named :: "string \<Rightarrow> (auth_token \<Rightarrow> auth_token) \<Rightarrow> auth_token list \<Rightarrow> auth_token list" where
  "change_named name g [] = []"
| "change_named name g (t # ts) = (if at_name t = name then g t # ts else t # change_named name g ts)"

text \<open>The token itself, the first of its name, and with a key the tokens it was exchanged for.\<close>

definition revoke_one :: "int \<Rightarrow> auth_token \<Rightarrow> auth_token" where
  "revoke_one now t = (if at_revoked t = None then t\<lparr>at_revoked := Some (trunc_second now)\<rparr> else t)"

definition child_of :: "auth_token \<Rightarrow> auth_token \<Rightarrow> bool" where
  "child_of r t \<longleftrightarrow> at_kind r = kind_environment \<and> at_parent t = at_name r"

definition revoke_token :: "file_io \<Rightarrow> int \<Rightarrow> string \<Rightarrow> token_file \<Rightarrow> token_file \<times> auth_error option" where
  "revoke_token io now name f =
     (case load_tokens io f of
        (f1, Some e) \<Rightarrow> (f1, Some e)
      | (f1, None) \<Rightarrow>
          (case find (\<lambda>t. at_name t = name) (tf_tokens f1) of
             None \<Rightarrow> (f1, Some NoSuchToken)
           | Some r \<Rightarrow>
               if at_revoked r \<noteq> None \<and> \<not> list_ex (\<lambda>t. child_of r t \<and> at_revoked t = None) (tf_tokens f1) then (f1, None)
               else save_tokens io (f1\<lparr>tf_tokens :=
                      map (\<lambda>t. if child_of r t then revoke_one now t else t) (change_named name (revoke_one now) (tf_tokens f1))\<rparr>)))"

definition grant_projects :: "file_io \<Rightarrow> string \<Rightarrow> string list \<Rightarrow> token_file \<Rightarrow> token_file \<times> auth_error option" where
  "grant_projects io name projects f =
     (case load_tokens io f of
        (f1, Some e) \<Rightarrow> (f1, Some e)
      | (f1, None) \<Rightarrow>
          (case find (\<lambda>t. at_name t = name) (tf_tokens f1) of
             None \<Rightarrow> (f1, Some NoSuchToken)
           | Some r \<Rightarrow>
               if at_revoked r \<noteq> None then (f1, Some TokenRevoked)
               else save_tokens io (f1\<lparr>tf_tokens :=
                      change_named name (\<lambda>t. t\<lparr>at_projects := clean_projects (at_projects t) projects\<rparr>) (tf_tokens f1)\<rparr>)))"

section \<open>Requests\<close>

definition allow_project :: "principal \<Rightarrow> string \<Rightarrow> bool" where
  "allow_project p slug \<longleftrightarrow> slug \<noteq> '''' \<and> list_ex (\<lambda>s. s = ''*'' \<or> s = slug) (pr_projects p)"

datatype bearer_problem = MissingHeader | MalformedHeader

definition bearer :: "string \<Rightarrow> bearer_problem + string" where
  "bearer header =
     (if trim_space header = '''' then Inl MissingHeader
      else
        (case cut_first CHR '' '' (trim_space header) of
           None \<Rightarrow> Inl MalformedHeader
         | Some (scheme, rest) \<Rightarrow>
             if \<not> equal_fold scheme ''Bearer'' then Inl MalformedHeader
             else
               (let raw = trim_space rest
                in if raw = '''' \<or> contains_any raw [CHR '' '', CHR 0x09] then Inl MalformedHeader else Inr raw)))"

text \<open>The middleware: a request with a token that is known runs as its principal, another is refused.\<close>

definition authenticate ::
    "(string \<Rightarrow> string) \<Rightarrow> file_io \<Rightarrow> int \<Rightarrow> string \<Rightarrow> token_file \<Rightarrow> token_file \<times> principal option" where
  "authenticate sha io now header f =
     (case bearer header of Inl _ \<Rightarrow> (f, None) | Inr raw \<Rightarrow> token_lookup sha io now raw f)"

section \<open>The interface\<close>

text \<open>
  What a client of the store of tokens relies on: a mint that succeeds leaves a token that stands for
  the account and projects under a name that was free, and a mint that is refused for its name
  found it taken. \<open>ok\<close> is the invariant of the store; \<open>holds f raw p\<close> says that the raw token stands
  for the principal.
\<close>

locale token_minter =
  fixes create :: "nat \<Rightarrow> string \<Rightarrow> string \<Rightarrow> string list \<Rightarrow> 'f \<Rightarrow> 'f \<times> (auth_error + string)"
    and names :: "'f \<Rightarrow> string set"
    and holds :: "'f \<Rightarrow> string \<Rightarrow> principal \<Rightarrow> bool"
    and ok :: "'f \<Rightarrow> bool"
  assumes keeps: "ok f \<Longrightarrow> create i n acc ps f = (f1, r) \<Longrightarrow> ok f1"
    and created: "ok f \<Longrightarrow> create i n acc ps f = (f1, Inr raw) \<Longrightarrow> acc \<noteq> '''' \<Longrightarrow>
      trim_space n \<notin> names f \<and>
      holds f1 raw \<lparr>pr_name = trim_space n, pr_account_id = acc, pr_projects = clean_projects [] ps\<rparr>"
    and taken: "ok f \<Longrightarrow> create i n acc ps f = (f1, Inl TokenExists) \<Longrightarrow> trim_space n \<in> names f \<and> names f1 = names f"

end
