(* ===== verification/Auth_Facts.thy ===== *)
theory Auth_Facts
  imports Auth_Tokens
begin

text \<open>
  What holds of the token file, whichever system calls fail: names are unique, an exchanged token
  has the account of its key and is revoked with it, a revoked key stays out, sixty exchanges of a
  key an hour are the most there are.
\<close>

lemma find_SomeD: "find P xs = Some x \<Longrightarrow> P x" "find P xs = Some x \<Longrightarrow> x \<in> set xs"
  by (auto simp: find_Some_iff)

lemma find_named: "distinct (map at_name ts) \<Longrightarrow> k \<in> set ts \<Longrightarrow> find (\<lambda>t. at_name t = at_name k) ts = Some k"
  by (induction ts) auto

section \<open>Loading and saving\<close>

text \<open>The tokens that the next operation acts on, when it can load them.\<close>

definition effective :: "token_file \<Rightarrow> auth_token list" where
  "effective f =
     (case tf_disk f of
        NoFile \<Rightarrow> []
      | OnDisk v body \<Rightarrow>
          if tf_loaded f \<and> tf_seen f = Some v then tf_tokens f else (case body of None \<Rightarrow> [] | Some ts \<Rightarrow> ts))"

definition load_errors :: "auth_error option set" where
  "load_errors = {None, Some StatFailed, Some ReadFailed, Some ParseFailed}"

lemma load_errors_simps [simp]: "None \<in> load_errors" "Some WriteFailed \<notin> load_errors" "Some TokenExists \<notin> load_errors"
  by (simp_all add: load_errors_def)

lemma load_effective:
  assumes "load_tokens io f = (f1, r)"
  shows "effective f1 = effective f" "tf_disk f1 = tf_disk f" "tf_exchanges f1 = tf_exchanges f"
    "tf_tokens f1 = tf_tokens f \<or> tf_tokens f1 = effective f"
    "r = None \<Longrightarrow> tf_tokens f1 = effective f" "tf_err f \<in> load_errors \<Longrightarrow> tf_err f1 \<in> load_errors"
    "tf_err f \<in> load_errors \<Longrightarrow> r \<in> load_errors"
  using assms by (auto simp: load_tokens_def effective_def load_errors_def split: if_splits token_disk.splits option.splits)

lemma save_effective:
  assumes "save_tokens io f = (f1, r)"
  shows "tf_tokens f1 = tf_tokens f" "tf_exchanges f1 = tf_exchanges f"
    "r = None \<Longrightarrow> effective f1 = tf_tokens f \<and> tf_disk f1 = OnDisk (Suc (disk_version (tf_disk f))) (Some (tf_tokens f))"
    "r \<noteq> None \<Longrightarrow> f1 = f" "tf_err f1 = tf_err f \<or> tf_err f1 = None"
  using assms by (auto simp: save_tokens_def effective_def Let_def split: if_splits)

section \<open>What holds of the tokens\<close>

definition child_ok :: "auth_token list \<Rightarrow> auth_token \<Rightarrow> bool" where
  "child_ok ts t \<longleftrightarrow> at_parent t = '''' \<or>
     at_kind t = '''' \<and> at_expires t \<noteq> None \<and>
     (\<exists>k \<in> set ts. at_name k = at_parent t \<and> at_kind k = kind_environment \<and> at_parent k = '''' \<and>
        (at_account_id k \<noteq> '''' \<longrightarrow> at_account_id t = at_account_id k) \<and> (at_revoked k \<noteq> None \<longrightarrow> at_revoked t \<noteq> None))"

definition tokens_ok :: "auth_token list \<Rightarrow> bool" where
  "tokens_ok ts \<longleftrightarrow> distinct (map at_name ts) \<and> (\<forall>t \<in> set ts. at_name t \<noteq> '''' \<and> child_ok ts t)"

definition file_ok :: "token_file \<Rightarrow> bool" where
  "file_ok f \<longleftrightarrow> tokens_ok (tf_tokens f) \<and> tf_err f \<in> load_errors \<and> (\<forall>v ts. tf_disk f = OnDisk v (Some ts) \<longrightarrow> tokens_ok ts)"

lemma tokens_ok_Nil [simp]: "tokens_ok []"
  by (simp add: tokens_ok_def)

lemma file_ok_effective: "file_ok f \<Longrightarrow> tokens_ok (effective f)"
  by (auto simp: file_ok_def effective_def split: token_disk.splits option.splits)

lemma file_ok_load: "load_tokens io f = (f1, r) \<Longrightarrow> file_ok f \<Longrightarrow> file_ok f1"
  using load_effective(2,4,6) file_ok_effective unfolding file_ok_def by metis

lemma file_ok_save: "save_tokens io f = (f1, r) \<Longrightarrow> file_ok f \<Longrightarrow> file_ok f1"
  using save_effective(5) [of io f f1 r] unfolding file_ok_def by (cases r) (auto dest: save_effective)

lemma file_ok_tokens: "file_ok f \<Longrightarrow> tokens_ok ts \<Longrightarrow> file_ok (f\<lparr>tf_tokens := ts\<rparr>)"
  by (simp add: file_ok_def)

lemma child_ok_mono: "child_ok ts t \<Longrightarrow> set ts \<subseteq> set us \<Longrightarrow> child_ok us t"
  unfolding child_ok_def by blast

lemma tokens_ok_append:
  "tokens_ok ts \<Longrightarrow> at_name t \<notin> at_name ` set ts \<Longrightarrow> at_name t \<noteq> '''' \<Longrightarrow> child_ok ts t \<Longrightarrow> tokens_ok (ts @ [t])"
  unfolding tokens_ok_def using child_ok_mono [of ts _ "ts @ [t]"] by auto

lemma tokens_ok_key:
  assumes "tokens_ok ts" "k \<in> set ts" "at_kind k = kind_environment"
  shows "at_parent k = ''''"
  using assms by (auto simp: tokens_ok_def child_ok_def kind_environment_def)

lemma tokens_ok_prune: "tokens_ok ts \<Longrightarrow> tokens_ok (filter (\<lambda>t. \<not> long_expired now t) ts)"
proof -
  assume ok: "tokens_ok ts"
  have "child_ok (filter (\<lambda>t. \<not> long_expired now t) ts) t" if "t \<in> set ts" for t
  proof -
    have "child_ok ts t" using ok that by (simp add: tokens_ok_def)
    then show ?thesis unfolding child_ok_def by (auto simp: long_expired_def)
  qed
  then show ?thesis using ok by (auto simp: tokens_ok_def distinct_map_filter)
qed

text \<open>Changing tokens in place.\<close>

definition same_token :: "auth_token \<Rightarrow> auth_token \<Rightarrow> bool" where
  "same_token t u \<longleftrightarrow> at_name t = at_name u \<and> at_kind t = at_kind u \<and> at_parent t = at_parent u \<and>
     at_account_id t = at_account_id u \<and> at_expires t = at_expires u"

lemma tokens_ok_map:
  assumes "tokens_ok ts" "\<And>t. t \<in> set ts \<Longrightarrow> same_token (g t) t"
    and "\<And>t k. t \<in> set ts \<Longrightarrow> k \<in> set ts \<Longrightarrow> at_parent t = at_name k \<Longrightarrow> at_kind k = kind_environment \<Longrightarrow>
      (at_revoked k \<noteq> None \<longrightarrow> at_revoked t \<noteq> None) \<Longrightarrow> at_revoked (g k) \<noteq> None \<Longrightarrow> at_revoked (g t) \<noteq> None"
  shows "tokens_ok (map g ts)"
proof -
  have n: "map at_name (map g ts) = map at_name ts"
    using assms(2) by (simp add: same_token_def)
  have "child_ok (map g ts) (g t)" if t: "t \<in> set ts" for t
  proof (cases "at_parent t = ''''")
    case True
    then show ?thesis using assms(2) [OF t] by (simp add: child_ok_def same_token_def)
  next
    case False
    then obtain k where k: "k \<in> set ts" "at_name k = at_parent t" "at_kind k = kind_environment" "at_parent k = ''''"
      "at_account_id k \<noteq> '''' \<longrightarrow> at_account_id t = at_account_id k" "at_revoked k \<noteq> None \<longrightarrow> at_revoked t \<noteq> None" "at_kind t = ''''" "at_expires t \<noteq> None"
      using assms(1) t unfolding tokens_ok_def child_ok_def by blast
    have "at_revoked (g k) \<noteq> None \<longrightarrow> at_revoked (g t) \<noteq> None" using assms(3) [OF t k(1) k(2) [symmetric] k(3,6)] by blast
    then show ?thesis using k assms(2) [OF t] assms(2) [OF k(1)] unfolding child_ok_def same_token_def by auto
  qed
  then show ?thesis unfolding tokens_ok_def n using assms(1,2) by (auto simp: tokens_ok_def same_token_def)
qed

lemma change_named_map:
  "distinct (map at_name ts) \<Longrightarrow> change_named name g ts = map (\<lambda>t. if at_name t = name then g t else t) ts"
  by (induction ts) (auto intro!: map_idI [symmetric] simp: image_iff)

lemma tokens_ok_names: "tokens_ok ts \<Longrightarrow> distinct (map at_name ts)"
  by (simp add: tokens_ok_def)

lemma tokens_ok_grant:
  assumes "tokens_ok ts"
  shows "tokens_ok (change_named name (\<lambda>t. t\<lparr>at_projects := p t\<rparr>) ts)"
  unfolding change_named_map [OF tokens_ok_names [OF assms]]
  by (rule tokens_ok_map [OF assms]) (auto simp: same_token_def split: if_splits)

definition revoke_all :: "int \<Rightarrow> auth_token \<Rightarrow> auth_token \<Rightarrow> auth_token" where
  "revoke_all now r t = (if child_of r t \<or> at_name t = at_name r then revoke_one now t else t)"

lemma revoke_one_same: "same_token (revoke_one now t) t" "at_revoked (revoke_one now t) \<noteq> None"
  by (auto simp: revoke_one_def same_token_def)

lemma revoke_in_map:
  assumes "distinct (map at_name ts)"
  shows "map (\<lambda>t. if child_of r t then revoke_one now t else t) (change_named (at_name r) (revoke_one now) ts) = map (revoke_all now r) ts"
proof -
  have "child_of r (revoke_one now t) = child_of r t" for t by (simp add: revoke_one_def child_of_def)
  moreover have "revoke_one now (revoke_one now t) = revoke_one now t" for t by (simp add: revoke_one_def)
  ultimately show ?thesis unfolding change_named_map [OF assms] by (auto simp: revoke_all_def)
qed

lemma tokens_ok_revoke:
  assumes "tokens_ok ts" "r \<in> set ts"
  shows "tokens_ok (map (revoke_all now r) ts)"
proof (rule tokens_ok_map [OF assms(1)])
  show "same_token (revoke_all now r t) t" for t
    using revoke_one_same by (simp add: revoke_all_def same_token_def)
next
  fix t k
  assume h: "t \<in> set ts" "k \<in> set ts" "at_parent t = at_name k" "at_kind k = kind_environment"
    "at_revoked k \<noteq> None \<longrightarrow> at_revoked t \<noteq> None" "at_revoked (revoke_all now r k) \<noteq> None"
  show "at_revoked (revoke_all now r t) \<noteq> None"
  proof (cases "at_name k = at_name r")
    case True
    then have "k = r" using assms h(2) unfolding tokens_ok_def by (metis distinct_map inj_onD)
    then show ?thesis using h(3,4) revoke_one_same(2) by (simp add: revoke_all_def child_of_def)
  next
    case False
    have "\<not> child_of r k" using tokens_ok_key [OF assms(1) h(2,4)] assms unfolding child_of_def tokens_ok_def by auto
    then show ?thesis using False h(5,6) by (auto simp: revoke_all_def revoke_one_def)
  qed
qed

section \<open>Steps\<close>

definition minted_token :: "(string \<Rightarrow> string) \<Rightarrow> int \<Rightarrow> mint_draw \<Rightarrow> string \<Rightarrow> string \<Rightarrow> string list \<Rightarrow> auth_token" where
  "minted_token sha now mint name acc projects =
     \<lparr>at_name = trim_space name, at_hash = sha (mt_raw mint), at_account_id = (if acc = '''' then mt_account mint else acc),
      at_projects = clean_projects [] projects, at_created = trunc_second now, at_revoked = None,
      at_kind = '''', at_token_ttl = 0, at_parent = '''', at_expires = None\<rparr>"

lemma append_token_cases:
  assumes "append_token sha io now mint name acc projects setter f = (f1, r)"
  obtains (refused) e where "f1 = f" "r = Inl e"
  | (saved) "trim_space name \<noteq> ''''" "trim_space name \<notin> at_name ` set (tf_tokens f)"
      "save_tokens io (f\<lparr>tf_tokens := tf_tokens f @ [setter (minted_token sha now mint name acc projects)]\<rparr>) = (f1, None)"
      "r = Inr (mt_raw mint)"
  | (unsaved) e where "trim_space name \<noteq> ''''" "trim_space name \<notin> at_name ` set (tf_tokens f)"
      "f1 = f\<lparr>tf_tokens := tf_tokens f @ [setter (minted_token sha now mint name acc projects)]\<rparr>" "r = Inl e"
proof -
  let ?g = "f\<lparr>tf_tokens := tf_tokens f @ [setter (minted_token sha now mint name acc projects)]\<rparr>"
  consider "trim_space name = '''' \<or> trim_space name \<in> at_name ` set (tf_tokens f)"
    | "trim_space name \<noteq> ''''" "trim_space name \<notin> at_name ` set (tf_tokens f)" by blast
  then show ?thesis
  proof cases
    case 1
    then have "append_token sha io now mint name acc projects setter f = (f, Inl (if trim_space name = '''' then NameRequired else TokenExists))"
      by (auto simp: append_token_def Let_def list_ex_iff)
    then show ?thesis using assms refused by simp
  next
    case 2
    obtain g e where g: "save_tokens io ?g = (g, e)" by (rule prod.exhaust)
    have "append_token sha io now mint name acc projects setter f = (case e of Some x \<Rightarrow> (g, Inl x) | None \<Rightarrow> (g, Inr (mt_raw mint)))"
      using 2 g unfolding append_token_def minted_token_def Let_def by (auto simp: list_ex_iff image_iff split: option.splits)
    then show ?thesis using assms 2 g saved unsaved save_effective(4) [OF g] by (cases e) auto
  qed
qed

lemma file_ok_append:
  assumes "append_token sha io now mint name acc projects setter f = (f1, r)" "file_ok f"
    and "at_name (setter (minted_token sha now mint name acc projects)) = trim_space name"
    and "child_ok (tf_tokens f) (setter (minted_token sha now mint name acc projects))"
  shows "file_ok f1"
proof -
  have "tokens_ok (tf_tokens f @ [setter (minted_token sha now mint name acc projects)])"
    if "trim_space name \<noteq> ''''" "trim_space name \<notin> at_name ` set (tf_tokens f)"
    using assms that by (intro tokens_ok_append) (auto simp: file_ok_def)
  then have ok: "file_ok (f\<lparr>tf_tokens := tf_tokens f @ [setter (minted_token sha now mint name acc projects)]\<rparr>)"
    if "trim_space name \<noteq> ''''" "trim_space name \<notin> at_name ` set (tf_tokens f)"
    using assms(2) that by (intro file_ok_tokens)
  from assms(1) show ?thesis
  proof (cases rule: append_token_cases)
    case (saved)
    then show ?thesis using ok file_ok_save by blast
  qed (use ok assms(2) in blast)+
qed

text \<open>The operations of one process, and the edits of another.\<close>

inductive plain_step :: "(string \<Rightarrow> string) \<Rightarrow> token_file \<Rightarrow> token_file \<Rightarrow> bool" for sha where
  own_lookup: "plain_step sha f (fst (token_lookup sha io now raw f))"
| own_list: "plain_step sha f (fst (list_tokens io f))"
| own_create: "plain_step sha f (fst (create_token sha io now mint name acc projects f))"
| own_key: "plain_step sha f (fst (create_environment_key sha io now mint name acc projects ttl f))"
| own_revoke: "plain_step sha f (fst (revoke_token io now name f))"
| own_grant: "plain_step sha f (fst (grant_projects io name projects f))"

inductive own_step :: "(string \<Rightarrow> string) \<Rightarrow> token_file \<Rightarrow> token_file \<Rightarrow> bool" for sha where
  own_plain: "plain_step sha f f1 \<Longrightarrow> own_step sha f f1"
| own_exchange: "own_step sha f (fst (exchange sha io now mint key client f))"

inductive file_reachable :: "(string \<Rightarrow> string) \<Rightarrow> token_file \<Rightarrow> bool" for sha where
  opened: "(\<And>v ts. d = OnDisk v (Some ts) \<Longrightarrow> tokens_ok ts) \<Longrightarrow> file_reachable sha (open_token_file d)"
| own: "file_reachable sha f \<Longrightarrow> own_step sha f f1 \<Longrightarrow> file_reachable sha f1"
| edited: "file_reachable sha f \<Longrightarrow> (\<And>v ts. d = OnDisk v (Some ts) \<Longrightarrow> tokens_ok ts) \<Longrightarrow>
    file_reachable sha (f\<lparr>tf_disk := d\<rparr>)"

lemma match_token_cases:
  assumes "match_token sha io raw f = (f1, r)"
  obtains e where "load_tokens io f = (f1, Some e)" "r = None"
  | "load_tokens io f = (f1, None)" "raw = ''''" "r = None"
  | "load_tokens io f = (f1, None)" "raw \<noteq> ''''" "r = find (matches_hash sha raw) (rev (tf_tokens f1))"
  using assms by (auto simp: match_token_def split: prod.splits option.splits if_splits)

lemma match_token_load: "match_token sha io raw f = (f1, r) \<Longrightarrow> \<exists>e. load_tokens io f = (f1, e)"
  by (erule match_token_cases) blast+

lemma match_token_Some:
  assumes "match_token sha io raw f = (f1, Some t)"
  shows "load_tokens io f = (f1, None)" "t \<in> set (tf_tokens f1)" "at_hash t = sha raw" "at_revoked t = None" "raw \<noteq> ''''"
proof -
  have l: "load_tokens io f = (f1, None)" "raw \<noteq> ''''" "find (matches_hash sha raw) (rev (tf_tokens f1)) = Some t"
    using assms by (auto elim!: match_token_cases)
  then show "load_tokens io f = (f1, None)" "raw \<noteq> ''''" by blast+
  show "at_hash t = sha raw" "at_revoked t = None" using find_SomeD(1) [OF l(3)] by (simp_all add: matches_hash_def)
  show "t \<in> set (tf_tokens f1)" using find_SomeD(2) [OF l(3)] by simp
qed

lemma token_lookup_load: "\<exists>e. load_tokens io f = (fst (token_lookup sha io now raw f), e)"
  by (cases "match_token sha io raw f") (auto simp: token_lookup_def dest: match_token_load split: option.splits)

lemma allow_exchange_same:
  "tf_tokens (fst (allow_exchange k now f)) = tf_tokens f" "tf_disk (fst (allow_exchange k now f)) = tf_disk f"
  "tf_loaded (fst (allow_exchange k now f)) = tf_loaded f" "tf_err (fst (allow_exchange k now f)) = tf_err f" "tf_seen (fst (allow_exchange k now f)) = tf_seen f"
  by (simp_all add: allow_exchange_def Let_def)

text \<open>An exchange that gets as far as minting.\<close>

lemma exchange_cases:
  assumes "exchange sha io now mint key client f = (f3, r)"
  obtains (early) f1 e where "load_tokens io f = (f1, e)" "f3 = f1" "\<exists>x. r = Inl x"
  | (late) f1 k where "match_token sha io key f = (f1, Some k)" "at_kind k = kind_environment"
      "f3 = fst (allow_exchange (at_name k) now f1)" "\<exists>x. r = Inl x"
  | (minted) f1 k f2 name expires a where "match_token sha io key f = (f1, Some k)" "at_kind k = kind_environment"
      "allow_exchange (at_name k) now f1 = (f2, True)" "exchanged_name mint (at_name k) (client_label client) f2 = Some name"
      "append_token sha io now mint name (at_account_id k) (at_projects k)
         (\<lambda>t. t\<lparr>at_parent := at_name k, at_expires := Some expires\<rparr>) (prune_tokens now f2) = (f3, a)"
      "r = (case a of Inl e \<Rightarrow> Inl e
        | Inr raw \<Rightarrow> Inr \<lparr>ex_token = raw, ex_name = name, ex_account_id = at_account_id k, ex_expires_at = expires\<rparr>)"
proof -
  obtain f1 m where m: "match_token sha io key f = (f1, m)" by (rule prod.exhaust)
  show ?thesis
  proof (cases m)
    case None
    then show ?thesis using assms m early match_token_load [OF m] by (auto simp: exchange_def)
  next
    case (Some k)
    show ?thesis
    proof (cases "at_kind k = kind_environment")
      case False
      then show ?thesis using assms m Some early match_token_load [OF m] by (auto simp: exchange_def)
    next
      case True
      obtain f2 b where b: "allow_exchange (at_name k) now f1 = (f2, b)" by (rule prod.exhaust)
      show ?thesis
      proof (cases "b \<and> exchanged_name mint (at_name k) (client_label client) f2 \<noteq> None")
        case False
        then have "f3 = f2 \<and> (\<exists>x. r = Inl x)" using assms m Some True b by (auto simp: exchange_def split: bool.splits)
        then show ?thesis using late [OF m [unfolded Some] True] b by simp
      next
        case t: True
        then obtain name where name: "exchanged_name mint (at_name k) (client_label client) f2 = Some name" by blast
        define expires where "expires = trunc_second (now + (if at_token_ttl k \<le> 0 then default_token_ttl else at_token_ttl k))"
        obtain f4 a where a: "append_token sha io now mint name (at_account_id k) (at_projects k)
          (\<lambda>t. t\<lparr>at_parent := at_name k, at_expires := Some expires\<rparr>) (prune_tokens now f2) = (f4, a)" by (rule prod.exhaust)
        have "f4 = f3 \<and> r = (case a of Inl e \<Rightarrow> Inl e
            | Inr raw \<Rightarrow> Inr \<lparr>ex_token = raw, ex_name = name, ex_account_id = at_account_id k, ex_expires_at = expires\<rparr>)"
          using assms m Some True b t name a unfolding exchange_def Let_def expires_def by (auto split: sum.splits)
        with minted [OF m [unfolded Some] True _ name, of expires a] b t a show ?thesis by simp
      qed
    qed
  qed
qed

lemma file_ok_plain: "plain_step sha f f1 \<Longrightarrow> file_ok f \<Longrightarrow> file_ok f1"
proof (induction rule: plain_step.induct)
  case (own_lookup f io now raw)
  then show ?case using token_lookup_load file_ok_load by metis
next
  case (own_list f io)
  then show ?case by (cases "load_tokens io f") (auto simp: list_tokens_def intro: file_ok_load split: option.splits)
next
  case (own_create f io now mint name acc projects)
  show ?case
    using own_create by (cases "load_tokens io f") (auto simp: create_token_def create_with_def child_ok_def minted_token_def
      intro: file_ok_load file_ok_append [where setter = "\<lambda>t. t", OF surjective_pairing] split: option.splits)
next
  case (own_key f io now mint name acc projects ttl)
  show ?case
    using own_key by (cases "load_tokens io f") (auto simp: create_environment_key_def create_with_def child_ok_def minted_token_def Let_def
      intro: file_ok_load file_ok_append [where setter = "\<lambda>t. t\<lparr>at_kind := kind_environment, at_token_ttl := x\<rparr>" for x, OF surjective_pairing]
      split: option.splits)
next
  case (own_revoke f io now name)
  obtain f1 e where l: "load_tokens io f = (f1, e)" by (rule prod.exhaust)
  have ok: "file_ok f1" using file_ok_load [OF l own_revoke] .
  show ?case
  proof (cases "find (\<lambda>t. at_name t = name) (tf_tokens f1)")
    case None
    then show ?thesis using ok l by (auto simp: revoke_token_def split: option.splits)
  next
    case (Some r)
    then have r: "r \<in> set (tf_tokens f1)" "at_name r = name" by (auto simp: find_Some_iff)
    have t: "tokens_ok (tf_tokens f1)" using ok by (simp add: file_ok_def)
    have "file_ok (f1\<lparr>tf_tokens := map (revoke_all now r) (tf_tokens f1)\<rparr>)"
      using ok tokens_ok_revoke [OF t r(1)] by (rule file_ok_tokens)
    then show ?thesis using l Some ok revoke_in_map [OF tokens_ok_names [OF t], of r now] file_ok_save [OF surjective_pairing]
      by (auto simp: revoke_token_def r(2) split: option.splits)
  qed
next
  case (own_grant f io name projects)
  obtain f1 e where l: "load_tokens io f = (f1, e)" by (rule prod.exhaust)
  have ok: "file_ok f1" using file_ok_load [OF l own_grant] .
  then have "file_ok (f1\<lparr>tf_tokens := change_named name (\<lambda>t. t\<lparr>at_projects := clean_projects (at_projects t) projects\<rparr>) (tf_tokens f1)\<rparr>)"
    by (intro file_ok_tokens tokens_ok_grant) (auto simp: file_ok_def)
  then show ?case using l ok file_ok_save [OF surjective_pairing] by (auto simp: grant_projects_def split: option.splits)
qed

lemma file_ok_own: "own_step sha f f1 \<Longrightarrow> file_ok f \<Longrightarrow> file_ok f1"
proof (induction rule: own_step.induct)
  case (own_plain f f1)
  then show ?case by (rule file_ok_plain)
next
  case (own_exchange f io now mint key client)
  obtain f3 r where e: "exchange sha io now mint key client f = (f3, r)" by (rule prod.exhaust)
  from e have "file_ok f3"
  proof (cases rule: exchange_cases)
    case (early f1 e)
    then show ?thesis using own_exchange file_ok_load by blast
  next
    case (late f1 k)
    have "file_ok f1" using file_ok_load own_exchange match_token_load [OF late(1)] by blast
    then show ?thesis using late(3) allow_exchange_same [of "at_name k" now f1] by (simp add: file_ok_def)
  next
    case (minted f1 k f2 name expires a)
    have "file_ok f1" using file_ok_load own_exchange match_token_load [OF minted(1)] by blast
    then have f2: "file_ok f2" "tf_tokens f2 = tf_tokens f1"
      using allow_exchange_same [of "at_name k" now f1] minted(3) by (simp_all add: file_ok_def)
    then have f2': "file_ok (prune_tokens now f2)" using tokens_ok_prune by (simp add: file_ok_def prune_tokens_def)
    have k: "k \<in> set (tf_tokens f2)" "at_revoked k = None" using match_token_Some [OF minted(1)] f2(2) by simp_all
    have ok: "tokens_ok (tf_tokens f2)" using f2(1) by (simp add: file_ok_def)
    have "at_parent k = ''''" by (rule tokens_ok_key [OF ok k(1) minted(2)])
    moreover have "at_name k \<noteq> ''''" using ok k(1) by (simp add: tokens_ok_def)
    moreover have "k \<in> set (tf_tokens (prune_tokens now f2))" using k(1) \<open>at_parent k = ''''\<close> by (simp add: prune_tokens_def long_expired_def)
    ultimately show ?thesis
      by (intro file_ok_append [OF minted(5) f2']) (use k minted(2) in \<open>auto simp: minted_token_def child_ok_def\<close>)
  qed
  then show ?case by (simp add: e)
qed

lemma file_reachable_ok: "file_reachable sha f \<Longrightarrow> file_ok f"
proof (induction rule: file_reachable.induct)
  case (edited f d)
  then show ?case by (auto simp: file_ok_def)
next
  case (own f f1)
  then show ?case using file_ok_own by blast
qed (auto simp: file_ok_def open_token_file_def)

text \<open>C13. However the file was used, and whatever system calls failed: no two tokens have one name, and every token
  exchanged for a key expires, names a key that is there, has the key's account, and is revoked when
  the key is.\<close>

theorem token_file_sound:
  assumes "file_reachable sha f"
  shows "distinct (map at_name (effective f)) \<and>
    (\<forall>t \<in> set (effective f). at_parent t \<noteq> '''' \<longrightarrow>
      at_kind t \<noteq> kind_environment \<and> at_expires t \<noteq> None \<and>
      (\<exists>k \<in> set (effective f). at_name k = at_parent t \<and> at_kind k = kind_environment \<and>
        (at_account_id k \<noteq> '''' \<longrightarrow> at_account_id t = at_account_id k) \<and>
        (at_revoked k \<noteq> None \<longrightarrow> at_revoked t \<noteq> None)))"
proof (intro conjI ballI impI)
  note ok = file_ok_effective [OF file_reachable_ok [OF assms]]
  show "distinct (map at_name (effective f))" using ok by (simp add: tokens_ok_def)
  fix t
  assume t: "t \<in> set (effective f)" "at_parent t \<noteq> ''''"
  then have c: "child_ok (effective f) t" using ok by (simp add: tokens_ok_def)
  show "at_kind t \<noteq> kind_environment" "at_expires t \<noteq> None"
    using c t(2) by (auto simp: child_ok_def kind_environment_def)
  show "\<exists>k \<in> set (effective f). at_name k = at_parent t \<and> at_kind k = kind_environment \<and>
      (at_account_id k \<noteq> '''' \<longrightarrow> at_account_id t = at_account_id k) \<and> (at_revoked k \<noteq> None \<longrightarrow> at_revoked t \<noteq> None)"
    using c t(2) unfolding child_ok_def by blast
qed

section \<open>Revocation\<close>

text \<open>A file whose memory is of the version on disk.\<close>

definition settled :: "token_file \<Rightarrow> bool" where
  "settled f \<longleftrightarrow> (\<exists>v body. tf_disk f = OnDisk v body \<and> tf_loaded f \<and> tf_seen f = Some v)"

lemma settled_effective: "settled f \<Longrightarrow> effective f = tf_tokens f"
  by (auto simp: settled_def effective_def)

lemma settled_update [simp]: "settled (f\<lparr>tf_tokens := ts\<rparr>) = settled f" "settled (f\<lparr>tf_exchanges := es\<rparr>) = settled f"
  by (simp_all add: settled_def)

lemma load_settled: "load_tokens io f = (f1, None) \<Longrightarrow> effective f \<noteq> [] \<Longrightarrow> settled f1 \<and> tf_tokens f1 = effective f"
  by (auto simp: load_tokens_def effective_def settled_def split: if_splits token_disk.splits option.splits)

lemma save_settled: "save_tokens io f = (f1, r) \<Longrightarrow> settled f \<Longrightarrow> effective f1 = tf_tokens f"
  using save_effective(3,4) [of io f f1 r] settled_effective [of f] by (cases r) auto

lemma save_settled_fst: "settled f \<Longrightarrow> effective (fst (save_tokens io f)) = tf_tokens f"
  using save_settled [OF surjective_pairing] .

definition kept_key :: "string \<Rightarrow> auth_token list \<Rightarrow> bool" where
  "kept_key name ts \<longleftrightarrow> (\<exists>k \<in> set ts. at_name k = name \<and> at_kind k = kind_environment \<and> at_parent k = '''' \<and> at_revoked k \<noteq> None)"

lemma kept_key_map: "(\<And>t. same_token (g t) t \<and> (at_revoked t \<noteq> None \<longrightarrow> at_revoked (g t) \<noteq> None)) \<Longrightarrow> kept_key name ts \<Longrightarrow> kept_key name (map g ts)"
  unfolding kept_key_def same_token_def by (metis (no_types, lifting) image_eqI list.set_map)

lemma kept_key_append: "kept_key name ts \<Longrightarrow> kept_key name (ts @ us)"
  by (auto simp: kept_key_def)

lemma kept_key_effective: "kept_key name (effective f) \<Longrightarrow> effective f \<noteq> []"
  by (auto simp: kept_key_def)

lemma kept_key_minted:
  assumes "append_token sha io now mint n acc ps setter f = (f1, r)" "settled f" "kept_key name (tf_tokens f)"
  shows "kept_key name (effective f1)"
  using assms(1)
proof (cases rule: append_token_cases)
  case saved
  then show ?thesis using save_settled assms(2,3) by (auto intro: kept_key_append dest!: save_settled)
next
  case unsaved
  then show ?thesis using assms(2,3) by (simp add: settled_effective kept_key_append)
qed (use assms(2,3) settled_effective in simp)

lemma kept_key_plain: "plain_step sha f f1 \<Longrightarrow> file_ok f \<Longrightarrow> kept_key name (effective f) \<Longrightarrow> kept_key name (effective f1)"
proof (induction rule: plain_step.induct)
  case (own_lookup f io now raw)
  then show ?case using token_lookup_load load_effective(1) by metis
next
  case (own_list f io)
  then show ?case by (cases "load_tokens io f") (auto simp: list_tokens_def load_effective(1) split: option.splits)
next
  case (own_create f io now mint n acc projects)
  then show ?case using load_settled kept_key_effective kept_key_minted [OF surjective_pairing]
    by (cases "load_tokens io f") (auto simp: create_token_def create_with_def load_effective(1) split: option.splits)
next
  case (own_key f io now mint n acc projects ttl)
  then show ?case using load_settled kept_key_effective kept_key_minted [OF surjective_pairing]
    by (cases "load_tokens io f") (auto simp: create_environment_key_def create_with_def load_effective(1) Let_def split: option.splits)
next
  case (own_revoke f io now n)
  obtain f1 e where l: "load_tokens io f = (f1, e)" by (rule prod.exhaust)
  show ?case
  proof (cases "e = None \<and> find (\<lambda>t. at_name t = n) (tf_tokens f1) \<noteq> None")
    case True
    then obtain r where r: "find (\<lambda>t. at_name t = n) (tf_tokens f1) = Some r" by blast
    have s: "settled f1" "tf_tokens f1 = effective f" using load_settled [of io f f1] l True own_revoke kept_key_effective by auto
    have d: "distinct (map at_name (tf_tokens f1))"
      using file_ok_load [OF l own_revoke(1)] by (simp add: file_ok_def tokens_ok_def)
    have "at_name r = n" using find_SomeD(1) [OF r] by simp
    then have m: "map (\<lambda>t. if child_of r t then revoke_one now t else t) (change_named n (revoke_one now) (tf_tokens f1)) = map (revoke_all now r) (tf_tokens f1)"
      using revoke_in_map [OF d, of r now] by simp
    have "kept_key name (map (revoke_all now r) (tf_tokens f1))"
      using own_revoke s revoke_one_same by (intro kept_key_map) (auto simp: revoke_all_def same_token_def)
    then have "kept_key name (effective (fst (save_tokens io (f1\<lparr>tf_tokens := map (revoke_all now r) (tf_tokens f1)\<rparr>))))"
      using s save_settled_fst [of "f1\<lparr>tf_tokens := map (revoke_all now r) (tf_tokens f1)\<rparr>" io] by simp
    moreover have "fst (revoke_token io now n f) = f1 \<or>
        fst (revoke_token io now n f) = fst (save_tokens io (f1\<lparr>tf_tokens := map (revoke_all now r) (tf_tokens f1)\<rparr>))"
    proof -
      have "revoke_token io now n f =
        (if at_revoked r \<noteq> None \<and> \<not> list_ex (\<lambda>t. child_of r t \<and> at_revoked t = None) (tf_tokens f1) then (f1, None)
         else save_tokens io (f1\<lparr>tf_tokens := map (revoke_all now r) (tf_tokens f1)\<rparr>))"
        unfolding revoke_token_def l using True r by (simp only: prod.case option.case m)
      then show ?thesis by (simp only: split: if_split) simp
    qed
    moreover have "kept_key name (effective f1)" using own_revoke s settled_effective [OF s(1)] by simp
    ultimately show ?thesis by (elim disjE) (simp_all only:)
  next
    case False
    then show ?thesis using own_revoke load_effective(1) [OF l] l by (auto simp: revoke_token_def split: option.splits)
  qed
next
  case (own_grant f io n projects)
  obtain f1 e where l: "load_tokens io f = (f1, e)" by (rule prod.exhaust)
  let ?ts = "change_named n (\<lambda>t. t\<lparr>at_projects := clean_projects (at_projects t) projects\<rparr>) (tf_tokens f1)"
  show ?case
  proof (cases e)
    case None
    then have s: "settled f1" "tf_tokens f1 = effective f" using load_settled [of io f f1] l own_grant kept_key_effective by auto
    have d: "distinct (map at_name (tf_tokens f1))"
      using file_ok_load [OF l own_grant(1)] by (simp add: file_ok_def tokens_ok_def)
    have "kept_key name ?ts" unfolding change_named_map [OF d] using own_grant s by (intro kept_key_map) (auto simp: same_token_def)
    then have k: "kept_key name (effective (fst (save_tokens io (f1\<lparr>tf_tokens := ?ts\<rparr>))))"
      using s save_settled_fst [of "f1\<lparr>tf_tokens := ?ts\<rparr>" io] by simp
    have "kept_key name (effective f1)" using own_grant s settled_effective [OF s(1)] by simp
    moreover have "fst (grant_projects io n projects f) = f1 \<or>
        fst (grant_projects io n projects f) = fst (save_tokens io (f1\<lparr>tf_tokens := ?ts\<rparr>))"
      unfolding grant_projects_def l None by (simp split: option.split)
    ultimately show ?thesis using k by (elim disjE) (simp_all only:)
  next
    case (Some x)
    then show ?thesis using own_grant load_effective(1) [OF l] l by (auto simp: grant_projects_def)
  qed
qed

lemma kept_key_own: "own_step sha f f1 \<Longrightarrow> file_ok f \<Longrightarrow> kept_key name (effective f) \<Longrightarrow> kept_key name (effective f1)"
proof (induction rule: own_step.induct)
  case (own_exchange f io now mint key client)
  obtain f3 r where e: "exchange sha io now mint key client f = (f3, r)" by (rule prod.exhaust)
  have s: "settled f1 \<and> tf_tokens f1 = effective f" if "match_token sha io key f = (f1, Some k)" for f1 k
    using load_settled match_token_Some(1) [OF that] own_exchange kept_key_effective by blast
  have x: "settled (fst (allow_exchange n now g)) = settled g" for n g by (simp add: allow_exchange_def Let_def)
  from e have "kept_key name (effective f3)"
  proof (cases rule: exchange_cases)
    case (early f1 e)
    then show ?thesis using own_exchange load_effective(1) by metis
  next
    case (late f1 k)
    then show ?thesis using s [OF late(1)] x allow_exchange_same(1) own_exchange by (simp add: settled_effective)
  next
    case (minted f1 k f2 n expires a)
    have f2: "settled f2" "tf_tokens f2 = effective f"
      using s [OF minted(1)] x [of "at_name k" f1] allow_exchange_same(1) [of "at_name k" now f1] minted(3) by simp_all
    have "kept_key name (tf_tokens (prune_tokens now f2))"
      using own_exchange f2(2) by (auto simp: kept_key_def prune_tokens_def long_expired_def)
    then show ?thesis using kept_key_minted [OF minted(5)] f2(1) by (simp add: prune_tokens_def)
  qed
  then show ?case by (simp add: e)
qed (rule kept_key_plain)

text \<open>C12. Once a key is revoked, no credential that this process accepts afterwards is the key or a token
  exchanged for it, even when the revocation could not be written or other operations fail.\<close>

theorem revoked_key_stays_out:
  assumes "file_reachable sha f" "k \<in> set (effective f)" "at_kind k = kind_environment"
    and "revoke_token io now (at_name k) f = (f1, r)" "r \<in> {None, Some WriteFailed}"
    and "(own_step sha)\<^sup>*\<^sup>* f1 f2" "match_token sha io2 raw f2 = (f3, Some t)"
  shows "at_name t \<noteq> at_name k \<and> at_parent t \<noteq> at_name k"
proof -
  have ok: "file_ok f" using file_reachable_ok [OF assms(1)] .
  obtain g e where l: "load_tokens io f = (g, e)" by (rule prod.exhaust)
  have "e = None"
  proof (rule ccontr)
    assume "e \<noteq> None"
    then have "r = e" using assms(4) l by (auto simp: revoke_token_def)
    then show False using \<open>e \<noteq> None\<close> assms(5) load_effective(7) [OF l] ok by (auto simp: file_ok_def)
  qed
  moreover have "effective f \<noteq> []" using assms(2) by auto
  ultimately have s: "settled g" "tf_tokens g = effective f" using load_settled [of io f g] l by auto
  have d: "distinct (map at_name (tf_tokens g))" and p: "at_parent k = ''''"
    using s file_ok_effective [OF ok] tokens_ok_key assms(2,3) by (auto simp: tokens_ok_def)
  have fk: "find (\<lambda>t. at_name t = at_name k) (tf_tokens g) = Some k"
    using find_named [OF d] assms(2) s(2) by simp
  let ?ts = "map (revoke_all now k) (tf_tokens g)"
  have "kept_key (at_name k) (effective f1)"
  proof (cases "at_revoked k \<noteq> None \<and> \<not> list_ex (\<lambda>t. child_of k t \<and> at_revoked t = None) (tf_tokens g)")
    case True
    then have "f1 = g" using assms(4) l \<open>e = None\<close> fk by (simp add: revoke_token_def)
    then show ?thesis using s True assms(2,3) p settled_effective [of g] by (auto simp: kept_key_def)
  next
    case False
    then have "save_tokens io (g\<lparr>tf_tokens := ?ts\<rparr>) = (f1, r)"
      using assms(4) l \<open>e = None\<close> fk revoke_in_map [OF d, of k now] by (auto simp: revoke_token_def)
    then have e1: "effective f1 = ?ts" using save_settled s by simp
    have "revoke_all now k k \<in> set ?ts" using assms(2) s(2) by simp
    moreover have "at_name (revoke_all now k k) = at_name k" "at_kind (revoke_all now k k) = kind_environment"
      "at_parent (revoke_all now k k) = ''''" "at_revoked (revoke_all now k k) \<noteq> None"
      using revoke_one_same [of now k] assms(3) p by (auto simp: revoke_all_def same_token_def)
    ultimately show ?thesis unfolding kept_key_def e1 by (intro bexI [of _ "revoke_all now k k"] conjI)
  qed
  moreover have "file_ok f1" using file_ok_plain [OF own_revoke [of sha f io now "at_name k"] ok] assms(4) by simp
  ultimately have f1: "file_ok f1 \<and> kept_key (at_name k) (effective f1)" by blast
  have "file_ok f2 \<and> kept_key (at_name k) (effective f2)"
    using assms(6)
  proof (induction rule: rtranclp_induct)
    case (step x y)
    then show ?case using file_ok_own kept_key_own by blast
  qed (rule f1)
  then have t: "tokens_ok (tf_tokens f3)" "kept_key (at_name k) (tf_tokens f3)"
    using match_token_Some(1) [OF assms(7)] load_effective(5) file_ok_effective by auto
  obtain r2 where r2: "r2 \<in> set (tf_tokens f3)" "at_name r2 = at_name k" "at_revoked r2 \<noteq> None"
    using t(2) unfolding kept_key_def by blast
  have d3: "distinct (map at_name (tf_tokens f3))" using t(1) by (simp add: tokens_ok_def)
  have u: "x = r2" if "x \<in> set (tf_tokens f3)" "at_name x = at_name k" for x
    using d3 that r2 by (simp add: distinct_map inj_on_def)
  have "at_name k \<noteq> ''''" using file_ok_effective [OF ok] assms(2) by (simp add: tokens_ok_def)
  moreover have "child_ok (tf_tokens f3) t" using t(1) match_token_Some(2) [OF assms(7)] by (simp add: tokens_ok_def)
  ultimately show ?thesis
    using match_token_Some(2,4) [OF assms(7)] u r2(3) unfolding child_ok_def by metis
qed

section \<open>The file as a store of tokens\<close>

text \<open>A token that stands for a principal, for good.\<close>

definition stands_for :: "(string \<Rightarrow> string) \<Rightarrow> token_file \<Rightarrow> string \<Rightarrow> principal \<Rightarrow> bool" where
  "stands_for sha f raw p \<longleftrightarrow>
     list_ex (\<lambda>t. at_hash t = sha raw \<and> at_revoked t = None \<and> at_kind t = '''' \<and> at_parent t = '''' \<and> at_expires t = None \<and>
        p = \<lparr>pr_name = at_name t, pr_account_id = at_account_id t, pr_projects = at_projects t\<rparr>) (effective f)"

lemma create_token_cases:
  assumes "create_token sha io now mint name acc projects f = (f1, Inr raw)"
  shows "raw = mt_raw mint" "trim_space name \<notin> at_name ` set (effective f)" "trim_space name \<noteq> ''''"
    "effective f1 = effective f @ [minted_token sha now mint name acc projects]"
proof -
  obtain g e where l: "load_tokens io f = (g, e)" by (rule prod.exhaust)
  have e: "e = None" using assms l by (cases e) (simp_all add: create_token_def create_with_def)
  then have g: "tf_tokens g = effective f" using load_effective(5) [OF l] by simp
  have a: "append_token sha io now mint name acc projects (\<lambda>t. t) g = (f1, Inr raw)"
    using assms l e by (simp add: create_token_def create_with_def)
  from a have "raw = mt_raw mint \<and> trim_space name \<notin> at_name ` set (effective f) \<and> trim_space name \<noteq> '''' \<and>
    effective f1 = effective f @ [minted_token sha now mint name acc projects]"
  proof (cases rule: append_token_cases)
    case saved
    then show ?thesis using save_effective(3) [OF saved(3)] g by simp
  qed simp_all
  then show "raw = mt_raw mint" "trim_space name \<notin> at_name ` set (effective f)" "trim_space name \<noteq> ''''"
    "effective f1 = effective f @ [minted_token sha now mint name acc projects]" by blast+
qed

lemma create_token_taken:
  assumes "create_token sha io now mint name acc projects f = (f1, Inl TokenExists)" "tf_err f \<in> load_errors"
  shows "trim_space name \<in> at_name ` set (effective f) \<and> effective f1 = effective f"
proof -
  obtain g e where l: "load_tokens io f = (g, e)" by (rule prod.exhaust)
  have "e \<noteq> Some TokenExists" using load_effective(7) [OF l assms(2)] by (auto simp: load_errors_def)
  then have e: "e = None" using assms(1) l by (cases e) (simp_all add: create_token_def create_with_def)
  then have g: "tf_tokens g = effective f" using load_effective(5) [OF l] by simp
  have a: "append_token sha io now mint name acc projects (\<lambda>t. t) g = (f1, Inl TokenExists)"
    using assms(1) l e by (simp add: create_token_def create_with_def)
  have "list_ex (\<lambda>t. at_name t = trim_space name) (tf_tokens g) \<and> f1 = g"
    using a by (auto simp: append_token_def save_tokens_def Let_def split: if_splits)
  then show ?thesis using g load_effective(1) [OF l] by (auto simp: list_ex_iff intro: rev_image_eqI)
qed

interpretation token_store: token_minter "\<lambda>i. create_token sha (ios i) now (draws i)" "\<lambda>f. at_name ` set (effective f)"
  "stands_for sha" file_ok for sha ios now draws
proof
  show "file_ok f1" if "file_ok f" "create_token sha (ios i) now (draws i) n acc ps f = (f1, r)" for f i n acc ps f1 r
    using file_ok_plain [OF own_create that(1), of sha "ios i" now "draws i" n acc ps] that(2) by simp
  show "trim_space n \<notin> at_name ` set (effective f) \<and>
      stands_for sha f1 raw \<lparr>pr_name = trim_space n, pr_account_id = acc, pr_projects = clean_projects [] ps\<rparr>"
    if "file_ok f" "create_token sha (ios i) now (draws i) n acc ps f = (f1, Inr raw)" "acc \<noteq> ''''" for f i n acc ps f1 raw
    using create_token_cases [OF that(2)] that(3) by (simp add: stands_for_def minted_token_def)
  show "trim_space n \<in> at_name ` set (effective f) \<and> at_name ` set (effective f1) = at_name ` set (effective f)"
    if "file_ok f" "create_token sha (ios i) now (draws i) n acc ps f = (f1, Inl TokenExists)" for f i n acc ps f1
    using create_token_taken [OF that(2)] that(1) by (simp add: file_ok_def)
qed

end
