(* ===== verification/Auth_Limits.thy ===== *)
theory Auth_Limits
  imports Auth_Facts
begin

text \<open>
  How often a key is exchanged, how long a token is accepted, and what failures of the file leave
  behind (\<open>server/auth/auth.go\<close>).
\<close>

section \<open>The rate of exchanges\<close>

text \<open>A use of the file with the exchanges that succeeded, each with its key and time, the clock going forward.\<close>

inductive exchange_run :: "(string \<Rightarrow> string) \<Rightarrow> token_file \<Rightarrow> (string \<times> int) list \<Rightarrow> int \<Rightarrow> bool" for sha where
  run_open: "exchange_run sha (open_token_file d) [] now"
| run_edit: "exchange_run sha f log now \<Longrightarrow> exchange_run sha (f\<lparr>tf_disk := d\<rparr>) log now"
| run_plain: "exchange_run sha f log now \<Longrightarrow> plain_step sha f f1 \<Longrightarrow> exchange_run sha f1 log now"
| run_exchange: "exchange_run sha f log t0 \<Longrightarrow> t0 \<le> now \<Longrightarrow> exchange sha io now mint key client f = (f1, Inr x) \<Longrightarrow>
    snd (match_token sha io key f) = Some k \<Longrightarrow> exchange_run sha f1 (log @ [(at_name k, now)]) now"
| run_refused: "exchange_run sha f log t0 \<Longrightarrow> t0 \<le> now \<Longrightarrow> exchange sha io now mint key client f = (f1, Inl e) \<Longrightarrow>
    exchange_run sha f1 log now"

definition times_of :: "string \<Rightarrow> (string \<times> int) list \<Rightarrow> int list" where
  "times_of key log = map snd (filter (\<lambda>e. fst e = key) log)"

definition counted :: "string \<Rightarrow> token_file \<Rightarrow> int list" where
  "counted key f = (case om_get (tf_exchanges f) key of None \<Rightarrow> [] | Some ts \<Rightarrow> ts)"

definition recent_at :: "int \<Rightarrow> int list \<Rightarrow> nat" where
  "recent_at t ts = length (filter (\<lambda>x. t - x < one_hour) ts)"

definition spaced :: "int list \<Rightarrow> bool" where
  "spaced ts \<longleftrightarrow> (\<forall>i. i + exchanges_per_hour < length ts \<longrightarrow> one_hour \<le> ts ! (i + exchanges_per_hour) - ts ! i)"

definition rate_ok :: "int list \<Rightarrow> int list \<Rightarrow> int \<Rightarrow> bool" where
  "rate_ok L E now \<longleftrightarrow> sorted L \<and> (\<forall>x \<in> set L. x \<le> now) \<and> spaced L \<and> (\<forall>t \<ge> now. recent_at t L \<le> recent_at t E)"

lemma recent_at_append [simp]: "recent_at t (a @ b) = recent_at t a + recent_at t b"
  by (simp add: recent_at_def)

lemma recent_at_recent: "now \<le> t \<Longrightarrow> recent_at t (filter (\<lambda>x. now - x < one_hour) E) = recent_at t E"
  unfolding recent_at_def by (induction E) auto

lemma rate_ok_later: "rate_ok L E now \<Longrightarrow> now \<le> t \<Longrightarrow> rate_ok L E t"
  unfolding rate_ok_def by fastforce

lemma rate_ok_refused: "rate_ok L E now \<Longrightarrow> rate_ok L (filter (\<lambda>x. now - x < one_hour) E) now"
  by (simp add: rate_ok_def recent_at_recent)

lemma rate_ok_counted: "rate_ok L E now \<Longrightarrow> rate_ok L (E @ [now]) now"
  unfolding rate_ok_def by (auto intro: trans_le_add1)

lemma sorted_recent:
  assumes "sorted L" "i < length L" "t - L ! i < one_hour"
  shows "length L - i \<le> recent_at t L"
proof -
  have "\<forall>x \<in> set (drop i L). t - x < one_hour"
  proof
    fix x
    assume "x \<in> set (drop i L)"
    then obtain j where "j < length (drop i L)" "drop i L ! j = x" by (auto simp: in_set_conv_nth)
    then have "L ! i \<le> x" using assms(1,2) sorted_nth_mono [of L i "i + j"] by auto
    then show "t - x < one_hour" using assms(3) by simp
  qed
  then have "recent_at t (drop i L) = length (drop i L)" unfolding recent_at_def by (simp only: filter_True)
  moreover have "recent_at t L = recent_at t (take i L) + recent_at t (drop i L)"
    using recent_at_append [of t "take i L" "drop i L"] by (simp only: append_take_drop_id)
  ultimately show ?thesis by simp
qed

lemma rate_ok_allowed:
  assumes "rate_ok L E now" "recent_at now E < exchanges_per_hour"
  shows "rate_ok (L @ [now]) (filter (\<lambda>x. now - x < one_hour) E @ [now]) now"
proof -
  have s: "sorted L" "\<forall>x \<in> set L. x \<le> now" "spaced L" "recent_at now L < exchanges_per_hour"
    using assms unfolding rate_ok_def by (auto intro: le_less_trans)
  have "spaced (L @ [now])" unfolding spaced_def
  proof (intro allI impI)
    fix i
    assume i: "i + exchanges_per_hour < length (L @ [now])"
    show "one_hour \<le> (L @ [now]) ! (i + exchanges_per_hour) - (L @ [now]) ! i"
    proof (cases "i + exchanges_per_hour < length L")
      case True
      then show ?thesis using s(3) by (simp add: spaced_def nth_append)
    next
      case False
      then have l: "i + exchanges_per_hour = length L" using i by simp
      have "0 < exchanges_per_hour" by (simp add: exchanges_per_hour_def)
      then have "i < length L" using l by simp
      moreover have "\<not> now - L ! i < one_hour" using sorted_recent [OF s(1) calculation] s(4) l by fastforce
      ultimately show ?thesis using l by (simp add: nth_append)
    qed
  qed
  then show ?thesis using assms(1) s by (auto simp: rate_ok_def sorted_append recent_at_recent)
qed

lemma save_exchanges: "tf_exchanges (fst (save_tokens io f)) = tf_exchanges f"
  using save_effective(2) [OF surjective_pairing] .

lemma append_exchanges: "tf_exchanges (fst (append_token sha io now mint n acc ps setter f)) = tf_exchanges f"
proof -
  obtain f1 r where a: "append_token sha io now mint n acc ps setter f = (f1, r)" by (rule prod.exhaust)
  from a show ?thesis
  proof (cases rule: append_token_cases)
    case saved
    show ?thesis using a save_effective(2) [OF saved(3)] by simp
  qed (use a in simp_all)
qed

lemma load_exchanges: "load_tokens io f = (f1, e) \<Longrightarrow> tf_exchanges f1 = tf_exchanges f"
  by (rule load_effective(3))

lemma plain_exchanges: "plain_step sha f f1 \<Longrightarrow> tf_exchanges f1 = tf_exchanges f"
proof (induction rule: plain_step.induct)
  case (own_lookup f io now raw)
  then show ?case using token_lookup_load load_exchanges by metis
next
  case (own_list f io)
  then show ?case by (cases "load_tokens io f") (auto simp: list_tokens_def dest: load_exchanges split: option.splits)
next
  case (own_create f io now mint n acc projects)
  then show ?case by (cases "load_tokens io f")
      (auto simp: create_token_def create_with_def append_exchanges dest: load_exchanges split: option.splits)
next
  case (own_key f io now mint n acc projects ttl)
  then show ?case by (cases "load_tokens io f")
      (auto simp: create_environment_key_def create_with_def append_exchanges Let_def dest: load_exchanges split: option.splits)
next
  case (own_revoke f io now n)
  then show ?case by (cases "load_tokens io f")
      (auto simp: revoke_token_def save_exchanges dest: load_exchanges split: option.splits)
next
  case (own_grant f io n projects)
  then show ?case by (cases "load_tokens io f")
      (auto simp: grant_projects_def save_exchanges dest: load_exchanges split: option.splits)
qed

lemma allow_counted:
  assumes "allow_exchange key now f = (f1, b)"
  shows "b \<longleftrightarrow> recent_at now (counted key f) < exchanges_per_hour"
    "counted x f1 = (if x = key then filter (\<lambda>x. now - x < one_hour) (counted key f) @ (if b then [now] else []) else counted x f)"
  using assms unfolding allow_exchange_def recent_exchanges_def counted_def [symmetric] recent_at_def Let_def
  by (auto simp: counted_def split: if_splits)

lemma exchange_counted:
  assumes "exchange sha io now mint key client f = (f1, r)"
  shows "((\<forall>x. counted x f1 = counted x f) \<or>
      (\<exists>k b. \<forall>x. counted x f1 = (if x = k then filter (\<lambda>x. now - x < one_hour) (counted k f) @ (if b then [now] else []) else counted x f))) \<and>
    ((\<exists>y. r = Inr y) \<longrightarrow> snd (match_token sha io key f) = Some k \<longrightarrow> recent_at now (counted (at_name k) f) < exchanges_per_hour \<and>
      (\<forall>x. counted x f1 = (if x = at_name k then filter (\<lambda>x. now - x < one_hour) (counted (at_name k) f) @ [now] else counted x f)))"
  using assms
proof (cases rule: exchange_cases)
  case (early g x)
  then show ?thesis using load_exchanges [OF early(1)] early(2) by (auto simp: counted_def)
next
  case (late g k')
  obtain g' b where g: "allow_exchange (at_name k') now g = (g', b)" by (rule prod.exhaust)
  obtain x where "load_tokens io f = (g, x)" using match_token_load [OF late(1)] by blast
  then have c: "counted x g = counted x f" for x by (simp add: counted_def load_exchanges)
  have "\<forall>x. counted x f1 = (if x = at_name k' then filter (\<lambda>x. now - x < one_hour) (counted (at_name k') f) @ (if b then [now] else []) else counted x f)"
    using allow_counted(2) [OF g] g late(3) c by simp
  then show ?thesis using late(4) by blast
next
  case (minted g k' f2 n expires a)
  obtain x where "load_tokens io f = (g, x)" using match_token_load [OF minted(1)] by blast
  then have c: "counted x g = counted x f" for x by (simp add: counted_def load_exchanges)
  have d: "counted x f1 = counted x f2" for x
    using append_exchanges [of sha io now mint n "at_account_id k'" "at_projects k'" "\<lambda>t. t\<lparr>at_parent := at_name k', at_expires := Some expires\<rparr>" "prune_tokens now f2"]
      minted(5) by (simp add: counted_def prune_tokens_def)
  have "\<forall>x. counted x f1 = (if x = at_name k' then filter (\<lambda>x. now - x < one_hour) (counted (at_name k') f) @ (if True then [now] else []) else counted x f)"
    using allow_counted(2) [OF minted(3)] c d by simp
  moreover have "recent_at now (counted (at_name k') f) < exchanges_per_hour" using allow_counted(1) [OF minted(3)] c by simp
  ultimately show ?thesis using minted(1) by (intro conjI disjI2 exI [of _ "at_name k'"] exI [of _ True]) auto
qed

lemma exchange_run_rate: "exchange_run sha f log now \<Longrightarrow> rate_ok (times_of key log) (counted key f) now"
proof (induction rule: exchange_run.induct)
  case (run_open d now)
  show ?case by (simp add: rate_ok_def times_of_def counted_def open_token_file_def spaced_def recent_at_def)
next
  case (run_edit f log now d)
  then show ?case by (simp add: counted_def)
next
  case (run_plain f log now f1)
  then show ?case by (simp add: counted_def plain_exchanges)
next
  case (run_exchange f log t0 now io mint ky client f1 x k)
  have r: "rate_ok (times_of key log) (counted key f) now" using rate_ok_later run_exchange by blast
  have c: "recent_at now (counted (at_name k) f) < exchanges_per_hour"
    "counted key f1 = (if key = at_name k then filter (\<lambda>x. now - x < one_hour) (counted (at_name k) f) @ [now] else counted key f)"
    using exchange_counted [OF run_exchange.hyps(3), of k] run_exchange.hyps(4) by simp_all
  show ?case
  proof (cases "key = at_name k")
    case True
    then show ?thesis using rate_ok_allowed [OF r] c by (simp add: times_of_def)
  next
    case False
    then show ?thesis using r c(2) by (simp add: times_of_def)
  qed
next
  case (run_refused f log t0 now io mint ky client f1 e)
  have r: "rate_ok (times_of key log) (counted key f) now" using rate_ok_later run_refused by blast
  from conjunct1 [OF exchange_counted [OF run_refused.hyps(3)]]
  consider "counted key f1 = counted key f" | b where "counted key f1 = filter (\<lambda>x. now - x < one_hour) (counted key f) @ (if b then [now] else [])"
    by metis
  then show ?case
  proof cases
    case 1
    then show ?thesis using r by simp
  next
    case 2
    then show ?thesis using rate_ok_counted [OF rate_ok_refused [OF r]] rate_ok_refused [OF r] by (cases b) simp_all
  qed
qed

text \<open>C16. However the file is used and whatever fails, of any sixty-one successive exchanges of a key the last
  comes at least an hour after the first.\<close>

theorem exchanges_spaced:
  assumes "exchange_run sha f log now" "i + 60 < length (times_of key log)"
  shows "one_hour \<le> times_of key log ! (i + 60) - times_of key log ! i"
  using exchange_run_rate [OF assms(1), of key] assms(2) by (simp add: rate_ok_def spaced_def exchanges_per_hour_def)

section \<open>A token from minting to revocation\<close>

lemma load_settled_io:
  assumes "settled f" "tf_err f = None" "io_stat io"
  shows "load_tokens io f = (f, None)"
  using assms by (auto simp: settled_def load_tokens_def)

lemma save_load:
  assumes "save_tokens io f = (f1, None)" "io_stat io2" "io_read io2"
  shows "\<exists>f2. load_tokens io2 f1 = (f2, None) \<and> tf_tokens f2 = tf_tokens f"
  using assms by (auto simp: save_tokens_def load_tokens_def Let_def split: if_splits)

lemma bearer_token:
  assumes "raw \<noteq> ''''" "trim_space raw = raw" "\<not> contains_any raw [CHR '' '', CHR 0x09]"
    and "trim_space (''Bearer '' @ raw) = ''Bearer '' @ raw"
  shows "bearer (''Bearer '' @ raw) = Inr raw"
proof -
  have "cut_first CHR '' '' (''Bearer'' @ CHR '' '' # raw) = Some (''Bearer'', raw)" by (rule cut_first_append) simp
  then show ?thesis using assms by (simp add: bearer_def equal_fold_def)
qed


section \<open>What failures leave behind\<close>

text \<open>C24. Two failures outlast their cause. When the file could not be examined once, the next operation fails with
  that error although the file is there unchanged. And when a revocation could not be written,
  asking again answers that it is done, while the file still holds the token.\<close>

theorem failures_linger:
  assumes "settled f" "tf_err f = None" "t \<in> set (tf_tokens f)" "distinct (map at_name (tf_tokens f))" "at_revoked t = None"
    and "io_stat io2"
  shows "(\<not> io_stat io \<longrightarrow> snd (load_tokens io2 (fst (load_tokens io f))) = Some StatFailed) \<and>
    (io_stat io \<and> \<not> io_write io \<longrightarrow>
      snd (revoke_token io now (at_name t) f) = Some WriteFailed \<and>
      snd (revoke_token io2 now2 (at_name t) (fst (revoke_token io now (at_name t) f))) = None \<and>
      tf_disk (fst (revoke_token io2 now2 (at_name t) (fst (revoke_token io now (at_name t) f)))) = tf_disk f)"
proof (intro conjI impI)
  show "snd (load_tokens io2 (fst (load_tokens io f))) = Some StatFailed" if "\<not> io_stat io"
    using that assms by (auto simp: load_tokens_def settled_def)
next
  assume h: "io_stat io \<and> \<not> io_write io"
  let ?u = "revoke_all now t"
  let ?g = "f\<lparr>tf_tokens := map ?u (tf_tokens f)\<rparr>"
  have one: "revoke_token io now (at_name t) f = (?g, Some WriteFailed)"
    using h load_settled_io [OF assms(1,2)] find_named [OF assms(4,3)] revoke_in_map [OF assms(4), of t now] assms(5)
    by (simp add: revoke_token_def save_tokens_def)
  have n: "at_name (?u x) = at_name x" for x by (simp add: revoke_all_def revoke_one_def)
  have l: "load_tokens io2 ?g = (?g, None)" using load_settled_io [of ?g io2] assms(1,2,6) by simp
  have "distinct (map at_name (map ?u (tf_tokens f)))" using assms(4) n by (simp add: comp_def)
  from find_named [OF this, of "?u t"] assms(3)
  have f: "find (\<lambda>x. at_name x = at_name t) (tf_tokens ?g) = Some (?u t)" by (simp add: n)
  have "child_of (?u t) (?u x) = child_of t x" for x by (simp add: revoke_all_def revoke_one_def child_of_def)
  then have "\<not> list_ex (\<lambda>x. child_of (?u t) x \<and> at_revoked x = None) (tf_tokens ?g)"
    using revoke_one_same(2) by (auto simp: list_ex_iff revoke_all_def revoke_one_def child_of_def split: if_splits)
  moreover have "at_revoked (?u t) \<noteq> None" using revoke_one_same(2) by (simp add: revoke_all_def)
  ultimately have two: "revoke_token io2 now2 (at_name t) ?g = (?g, None)" using l f by (simp add: revoke_token_def)
  show "snd (revoke_token io now (at_name t) f) = Some WriteFailed"
    "snd (revoke_token io2 now2 (at_name t) (fst (revoke_token io now (at_name t) f))) = None"
    "tf_disk (fst (revoke_token io2 now2 (at_name t) (fst (revoke_token io now (at_name t) f)))) = tf_disk f"
    unfolding one fst_conv two by simp_all
qed

end
