(* ===== verification/Device_Login.thy ===== *)
theory Device_Login
  imports Auth_Facts
begin

text \<open>
  The login of a machine by a device code (\<open>server/device/device.go\<close>): a client asks for a code,
  somebody who holds a token approves or denies it, and the client's next poll is handed the token
  that was minted for it. Requests are shared by two maps, so they live in a list and the maps hold
  their positions. What is drawn at random is the argument \<open>draw\<close>; the loop for a free user code
  runs through the draws and has no result when they are used up.

  The store of tokens is an interface: what a mint promises is the locale \<open>token_minter\<close>, which the
  model of the token file interprets.
\<close>

section \<open>Requests\<close>

record dev_link =
  lk_token :: string
  lk_token_id :: string
  lk_name :: string
  lk_account_id :: string

definition no_link :: dev_link where
  "no_link = \<lparr>lk_token = '''', lk_token_id = '''', lk_name = '''', lk_account_id = ''''\<rparr>"

datatype dev_state = StPending | StApproved | StDenied

definition state_name :: "dev_state \<Rightarrow> string" where
  "state_name st = (case st of StApproved \<Rightarrow> ''approved'' | StDenied \<Rightarrow> ''denied'' | StPending \<Rightarrow> ''pending'')"

record dev_request =
  dr_device_code :: string
  dr_user_code :: string
  dr_client_name :: string
  dr_info :: "(string, string) omap"
  dr_created :: int
  dr_expires :: int
  dr_last_poll :: int
  dr_state :: dev_state
  dr_link :: dev_link
  dr_seq :: nat

record device_flow =
  df_ttl :: int
  df_interval :: int
  df_requests :: "dev_request list"
  df_by_device :: "(string, nat) omap"
  df_by_user :: "(string, nat) omap"
  df_started :: nat

datatype dev_error = AuthPending | SlowDown | AccessDenied | ExpiredToken | InvalidGrant
  | TooManyRequests | NoRequest | RequestDecided | ProjectNotCovered | TokenFailed auth_error

definition default_ttl :: int where "default_ttl = 15 * 60 * second_ns"
definition default_interval :: int where "default_interval = 5 * second_ns"
definition max_pending :: nat where "max_pending = 100"
definition default_client_name :: string where "default_client_name = ''clued client''"
definition user_code_len :: nat where "user_code_len = 8"
definition max_name_tries :: nat where "max_name_tries = 50"
definition max_client_name :: nat where "max_client_name = 80"

definition new_flow :: "int \<Rightarrow> int \<Rightarrow> device_flow" where
  "new_flow ttl interval =
     \<lparr>df_ttl = (if ttl \<le> 0 then default_ttl else ttl), df_interval = (if interval \<le> 0 then default_interval else interval),
      df_requests = [], df_by_device = [], df_by_user = [], df_started = 0\<rparr>"

definition normalize_code :: "string \<Rightarrow> string" where
  "normalize_code code = filter (\<lambda>c. is_lower_alnum (lower_char c)) (to_upper code)"

definition format_code :: "string \<Rightarrow> string" where
  "format_code norm =
     (if length norm = user_code_len then take (user_code_len div 2) norm @ ''-'' @ drop (user_code_len div 2) norm else norm)"

definition remove_request :: "nat \<Rightarrow> device_flow \<Rightarrow> device_flow" where
  "remove_request i fl =
     (let r = df_requests fl ! i
      in fl\<lparr>df_by_device := om_del (dr_device_code r) (df_by_device fl), df_by_user := om_del (dr_user_code r) (df_by_user fl)\<rparr>)"

definition request_expired :: "int \<Rightarrow> dev_request \<Rightarrow> bool" where
  "request_expired now r \<longleftrightarrow> \<not> now < dr_expires r"

definition prune_requests :: "int \<Rightarrow> device_flow \<Rightarrow> device_flow" where
  "prune_requests now fl =
     fold remove_request (filter (\<lambda>i. request_expired now (df_requests fl ! i)) (map snd (df_by_device fl))) fl"

definition change_request :: "nat \<Rightarrow> (dev_request \<Rightarrow> dev_request) \<Rightarrow> device_flow \<Rightarrow> device_flow" where
  "change_request i g fl = fl\<lparr>df_requests := (df_requests fl)[i := g (df_requests fl ! i)]\<rparr>"

section \<open>Starting and polling\<close>

record dev_draw =
  dw_device :: string
  dw_users :: "string list"

record dev_start =
  ds_device_code :: string
  ds_user_code :: string
  ds_expires_in :: int
  ds_interval :: int

definition client_name_of :: "string \<Rightarrow> string" where
  "client_name_of name0 =
     (let name = trim_space name0
      in take max_client_name (if name = '''' then default_client_name else name))"

definition start_login ::
    "int \<Rightarrow> dev_draw \<Rightarrow> string \<Rightarrow> (string, string) omap \<Rightarrow> device_flow \<Rightarrow> device_flow \<times> (dev_error + dev_start) option" where
  "start_login now draw client info fl0 =
     (let fl = prune_requests now fl0
      in if max_pending \<le> length (df_by_device fl) then (fl, Some (Inl TooManyRequests))
         else
           (case find (\<lambda>u. om_get (df_by_user fl) u = None) (dw_users draw) of
              None \<Rightarrow> (fl, None)
            | Some user \<Rightarrow>
                (let i = length (df_requests fl);
                     r = \<lparr>dr_device_code = dw_device draw, dr_user_code = user, dr_client_name = client_name_of client,
                          dr_info = info, dr_created = now, dr_expires = now + df_ttl fl, dr_last_poll = 0,
                          dr_state = StPending, dr_link = no_link, dr_seq = Suc (df_started fl)\<rparr>
                 in (fl\<lparr>df_requests := df_requests fl @ [r], df_started := Suc (df_started fl),
                        df_by_device := om_put (dw_device draw) i (df_by_device fl),
                        df_by_user := om_put user i (df_by_user fl)\<rparr>,
                     Some (Inr \<lparr>ds_device_code = dw_device draw, ds_user_code = format_code user,
                                ds_expires_in = df_ttl fl div second_ns,
                                ds_interval = max (df_interval fl div second_ns) 1\<rparr>)))))"

definition poll_login :: "int \<Rightarrow> string \<Rightarrow> device_flow \<Rightarrow> device_flow \<times> (dev_error + dev_link)" where
  "poll_login now code fl =
     (case om_get (df_by_device fl) code of
        None \<Rightarrow> (fl, Inl InvalidGrant)
      | Some i \<Rightarrow>
          (let r = df_requests fl ! i
           in if request_expired now r then (remove_request i fl, Inl ExpiredToken)
              else
                (let fl1 = change_request i (\<lambda>r. r\<lparr>dr_last_poll := now\<rparr>) fl
                 in if dr_last_poll r \<noteq> 0 \<and> now - dr_last_poll r < df_interval fl div 2 then (fl1, Inl SlowDown)
                    else
                      (case dr_state r of
                         StDenied \<Rightarrow> (remove_request i fl1, Inl AccessDenied)
                       | StApproved \<Rightarrow> (remove_request i fl1, Inr (dr_link r))
                       | StPending \<Rightarrow> (fl1, Inl AuthPending)))))"

section \<open>Deciding\<close>

definition decidable_request :: "int \<Rightarrow> string \<Rightarrow> device_flow \<Rightarrow> device_flow \<times> (dev_error + nat)" where
  "decidable_request now code fl =
     (case om_get (df_by_user fl) (normalize_code code) of
        None \<Rightarrow> (fl, Inl NoRequest)
      | Some i \<Rightarrow>
          if request_expired now (df_requests fl ! i) then (remove_request i fl, Inl ExpiredToken)
          else if dr_state (df_requests fl ! i) \<noteq> StPending then (fl, Inl RequestDecided)
          else (fl, Inr i))"

fun grant_loop :: "principal \<Rightarrow> string list \<Rightarrow> string list \<Rightarrow> dev_error + string list" where
  "grant_loop p [] out = Inr out"
| "grant_loop p (s0 # ss) out =
     (let s = trim_space s0
      in if s = '''' then grant_loop p ss out
         else if (if s = ''*'' then ''*'' \<notin> set (pr_projects p) else \<not> allow_project p s) then Inl ProjectNotCovered
         else grant_loop p ss (if s \<in> set out then out else out @ [s]))"

definition grantable :: "principal \<Rightarrow> string list \<Rightarrow> dev_error + string list" where
  "grantable p projects = (if projects = [] then Inr (pr_projects p) else grant_loop p projects [])"

text \<open>Minting: the name, then the name with a number, while the names are taken.\<close>

fun mint_loop ::
    "(nat \<Rightarrow> string \<Rightarrow> string \<Rightarrow> string list \<Rightarrow> 'f \<Rightarrow> 'f \<times> (auth_error + string)) \<Rightarrow> string \<Rightarrow> string \<Rightarrow> string list \<Rightarrow>
     string \<Rightarrow> nat list \<Rightarrow> 'f \<Rightarrow> 'f \<times> (auth_error + string \<times> string)" where
  "mint_loop create name acc projects used [] tf = (tf, Inl TokenExists)"
| "mint_loop create name acc projects used (i # ns) tf =
     (case create i used acc projects tf of
        (tf1, Inr raw) \<Rightarrow> (tf1, Inr (raw, used))
      | (tf1, Inl e) \<Rightarrow>
          if e \<noteq> TokenExists then (tf1, Inl e)
          else mint_loop create name acc projects (name @ ''-'' @ itoa i) ns tf1)"

definition mint_token ::
    "(nat \<Rightarrow> string \<Rightarrow> string \<Rightarrow> string list \<Rightarrow> 'f \<Rightarrow> 'f \<times> (auth_error + string)) \<Rightarrow> string \<Rightarrow> string \<Rightarrow> string list \<Rightarrow>
     'f \<Rightarrow> 'f \<times> (auth_error + string \<times> string)" where
  "mint_token create name acc projects tf = mint_loop create name acc projects name [2..<Suc max_name_tries] tf"

record approval =
  av_user_code :: string
  av_name :: string
  av_account_id :: string
  av_projects :: "string list"

definition approve_login ::
    "(nat \<Rightarrow> string \<Rightarrow> string \<Rightarrow> string list \<Rightarrow> 'f \<Rightarrow> 'f \<times> (auth_error + string)) \<Rightarrow> int \<Rightarrow> string \<Rightarrow> principal \<Rightarrow> string \<Rightarrow>
     string list \<Rightarrow> device_flow \<Rightarrow> 'f \<Rightarrow> device_flow \<times> 'f \<times> (dev_error + approval)" where
  "approve_login create now code p name0 projects fl tf =
     (case decidable_request now code fl of
        (fl1, Inl e) \<Rightarrow> (fl1, tf, Inl e)
      | (fl1, Inr i) \<Rightarrow>
          (case grantable p projects of
             Inl e \<Rightarrow> (fl1, tf, Inl e)
           | Inr granted \<Rightarrow>
               (let name = (if trim_space name0 = '''' then dr_client_name (df_requests fl1 ! i) else trim_space name0)
                in case mint_token create name (pr_account_id p) granted tf of
                     (tf1, Inl e) \<Rightarrow> (fl1, tf1, Inl (TokenFailed e))
                   | (tf1, Inr (raw, used)) \<Rightarrow>
                       (change_request i (\<lambda>r. r\<lparr>dr_state := StApproved,
                            dr_link := \<lparr>lk_token = raw, lk_token_id = used, lk_name = used, lk_account_id = pr_account_id p\<rparr>\<rparr>) fl1,
                        tf1,
                        Inr \<lparr>av_user_code = format_code (dr_user_code (df_requests fl1 ! i)), av_name = used,
                             av_account_id = pr_account_id p, av_projects = granted\<rparr>))))"

definition deny_login :: "int \<Rightarrow> string \<Rightarrow> device_flow \<Rightarrow> device_flow \<times> dev_error option" where
  "deny_login now code fl =
     (case decidable_request now code fl of
        (fl1, Inl e) \<Rightarrow> (fl1, Some e)
      | (fl1, Inr i) \<Rightarrow> (change_request i (\<lambda>r. r\<lparr>dr_state := StDenied\<rparr>) fl1, None))"

text \<open>A client that logs out has its token revoked by the store of tokens.\<close>

definition revoke_login :: "(string \<Rightarrow> 'f \<Rightarrow> 'f \<times> auth_error option) \<Rightarrow> string \<Rightarrow> 'f \<Rightarrow> 'f \<times> auth_error option" where
  "revoke_login revoke name tf = revoke name tf"

record request_info =
  ri_user_code :: string
  ri_client_name :: string
  ri_client_info :: "(string, string) omap"
  ri_created :: int
  ri_expires :: int
  ri_state :: string

definition info_of :: "dev_request \<Rightarrow> request_info" where
  "info_of r =
     \<lparr>ri_user_code = format_code (dr_user_code r), ri_client_name = dr_client_name r, ri_client_info = dr_info r,
      ri_created = dr_created r, ri_expires = dr_expires r, ri_state = state_name (dr_state r)\<rparr>"

definition pending_logins :: "int \<Rightarrow> device_flow \<Rightarrow> device_flow \<times> request_info list" where
  "pending_logins now fl0 =
     (let fl = prune_requests now fl0
      in (fl, map info_of (sort_key (\<lambda>r. (dr_created r, dr_seq r)) (map (\<lambda>e. df_requests fl ! snd e) (df_by_device fl)))))"

end
