(* ===== verification/Device_Facts.thy ===== *)
theory Device_Facts
  imports Device_Login
begin

text \<open>
  What holds of the logins by device code: the two maps name the same requests, a link is handed
  over once and only for a request that was approved and not denied, and what a minted token may do
  compared with the approver's.
\<close>

section \<open>The maps\<close>

definition live_request :: "device_flow \<Rightarrow> nat \<Rightarrow> bool" where
  "live_request fl i \<longleftrightarrow> i < length (df_requests fl) \<and>
     om_get (df_by_device fl) (dr_device_code (df_requests fl ! i)) = Some i \<and>
     om_get (df_by_user fl) (dr_user_code (df_requests fl ! i)) = Some i"

definition flow_ok :: "device_flow \<Rightarrow> bool" where
  "flow_ok fl \<longleftrightarrow> omap_wf (df_by_device fl) \<and> omap_wf (df_by_user fl) \<and> distinct (map dr_device_code (df_requests fl)) \<and>
     length (df_by_device fl) \<le> max_pending \<and>
     (\<forall>c i. om_get (df_by_device fl) c = Some i \<longrightarrow> live_request fl i \<and> dr_device_code (df_requests fl ! i) = c) \<and>
     (\<forall>u i. om_get (df_by_user fl) u = Some i \<longrightarrow> live_request fl i \<and> dr_user_code (df_requests fl ! i) = u)"

lemma flow_okD:
  assumes "flow_ok fl"
  shows "om_get (df_by_device fl) c = Some i \<Longrightarrow> live_request fl i \<and> dr_device_code (df_requests fl ! i) = c"
    "om_get (df_by_user fl) u = Some i \<Longrightarrow> live_request fl i \<and> dr_user_code (df_requests fl ! i) = u"
    "length (df_by_device fl) \<le> max_pending" "distinct (map dr_device_code (df_requests fl))"
    "omap_wf (df_by_device fl)" "omap_wf (df_by_user fl)"
  using assms by (auto simp: flow_ok_def)

lemma remove_request_simps [simp]:
  "df_requests (remove_request i fl) = df_requests fl"
  "df_by_device (remove_request i fl) = om_del (dr_device_code (df_requests fl ! i)) (df_by_device fl)"
  "df_by_user (remove_request i fl) = om_del (dr_user_code (df_requests fl ! i)) (df_by_user fl)"
  "df_ttl (remove_request i fl) = df_ttl fl" "df_interval (remove_request i fl) = df_interval fl"
  "df_started (remove_request i fl) = df_started fl"
  by (simp_all add: remove_request_def Let_def)

lemma om_del_length: "length (om_del k m) \<le> length m"
  by (simp add: om_del_def)

lemma live_remove: "live_request fl i \<Longrightarrow> live_request fl j \<Longrightarrow> j \<noteq> i \<Longrightarrow> live_request (remove_request i fl) j"
  by (auto simp: live_request_def)

lemma live_removed: "live_request (remove_request i fl) j \<Longrightarrow> live_request fl j"
  by (auto simp: live_request_def split: if_splits)

lemma flow_ok_remove: "flow_ok fl \<Longrightarrow> live_request fl i \<Longrightarrow> flow_ok (remove_request i fl)"
proof -
  assume ok: "flow_ok fl" and i: "live_request fl i"
  show ?thesis unfolding flow_ok_def
  proof (intro conjI allI impI)
    show "length (df_by_device (remove_request i fl)) \<le> max_pending"
      using flow_okD(3) [OF ok] om_del_length [of "dr_device_code (df_requests fl ! i)" "df_by_device fl"] by simp
    fix c j
    show "live_request (remove_request i fl) j" "dr_device_code (df_requests (remove_request i fl) ! j) = c"
      if "om_get (df_by_device (remove_request i fl)) c = Some j"
      using that flow_okD(1) [OF ok, of c j] live_remove [OF i, of j] by (auto split: if_splits)
    show "live_request (remove_request i fl) j" "dr_user_code (df_requests (remove_request i fl) ! j) = c"
      if "om_get (df_by_user (remove_request i fl)) c = Some j"
      using that flow_okD(2) [OF ok, of c j] live_remove [OF i, of j] by (auto split: if_splits)
  qed (use flow_okD [OF ok] in \<open>auto intro: om_del_wf\<close>)
qed

lemma fold_remove:
  assumes "flow_ok fl" "distinct is" "\<forall>i \<in> set is. live_request fl i"
  shows "flow_ok (fold remove_request is fl) \<and> df_requests (fold remove_request is fl) = df_requests fl \<and>
    df_ttl (fold remove_request is fl) = df_ttl fl \<and>
    (\<forall>c i. om_get (df_by_device (fold remove_request is fl)) c = Some i \<longrightarrow> om_get (df_by_device fl) c = Some i)"
  using assms
proof (induction "is" arbitrary: fl)
  case (Cons i ns)
  have "flow_ok (remove_request i fl)" using Cons.prems by (intro flow_ok_remove) simp_all
  moreover have "\<forall>j \<in> set ns. live_request (remove_request i fl) j"
    using Cons.prems live_remove by (metis distinct.simps(2) list.set_intros)
  ultimately have ih: "flow_ok (fold remove_request ns (remove_request i fl))"
    "df_requests (fold remove_request ns (remove_request i fl)) = df_requests fl"
    "df_ttl (fold remove_request ns (remove_request i fl)) = df_ttl fl"
    "om_get (df_by_device (fold remove_request ns (remove_request i fl))) c = Some j \<Longrightarrow> om_get (df_by_device (remove_request i fl)) c = Some j" for c j
    using Cons.IH [of "remove_request i fl"] Cons.prems by simp_all
  have "om_get (df_by_device (remove_request i fl)) c = Some j \<Longrightarrow> om_get (df_by_device fl) c = Some j" for c j
    by (simp split: if_splits)
  then show ?case using ih by simp
qed simp

lemma prune_ok:
  assumes "flow_ok fl"
  shows "flow_ok (prune_requests now fl)" "df_requests (prune_requests now fl) = df_requests fl"
    "df_ttl (prune_requests now fl) = df_ttl fl"
    "om_get (df_by_device (prune_requests now fl)) c = Some i \<Longrightarrow> om_get (df_by_device fl) c = Some i"
proof -
  let ?is = "filter (\<lambda>i. request_expired now (df_requests fl ! i)) (map snd (df_by_device fl))"
  have g: "om_get (df_by_device fl) (fst p) = Some (snd p)" if "p \<in> set (df_by_device fl)" for p
    using om_get_iff [OF flow_okD(5) [OF assms], of "fst p" "snd p"] that by simp
  have "inj_on snd (set (df_by_device fl))"
  proof (rule inj_onI)
    fix p q
    assume "p \<in> set (df_by_device fl)" "q \<in> set (df_by_device fl)" "snd p = snd q"
    then show "p = q" using flow_okD(1) [OF assms g] by (metis prod_eqI)
  qed
  moreover have "distinct (df_by_device fl)"
    using omap_wf_distinct [OF flow_okD(5) [OF assms]] by (simp add: distinct_map)
  ultimately have "distinct ?is" by (simp add: distinct_map)
  moreover have "\<forall>i \<in> set ?is. live_request fl i" using g flow_okD(1) [OF assms] by fastforce
  ultimately show "flow_ok (prune_requests now fl)" "df_requests (prune_requests now fl) = df_requests fl"
    "df_ttl (prune_requests now fl) = df_ttl fl"
    "om_get (df_by_device (prune_requests now fl)) c = Some i \<Longrightarrow> om_get (df_by_device fl) c = Some i"
    using fold_remove [OF assms] unfolding prune_requests_def by blast+
qed

text \<open>Changing a request keeps its codes.\<close>

lemma change_request_simps [simp]:
  "df_by_device (change_request i g fl) = df_by_device fl" "df_by_user (change_request i g fl) = df_by_user fl"
  "df_ttl (change_request i g fl) = df_ttl fl" "df_interval (change_request i g fl) = df_interval fl"
  "length (df_requests (change_request i g fl)) = length (df_requests fl)"
  by (simp_all add: change_request_def)

lemma change_request_nth:
  "j < length (df_requests fl) \<Longrightarrow> df_requests (change_request i g fl) ! j = (if j = i then g (df_requests fl ! j) else df_requests fl ! j)"
  by (simp add: change_request_def nth_list_update)

definition same_codes :: "(dev_request \<Rightarrow> dev_request) \<Rightarrow> bool" where
  "same_codes g \<longleftrightarrow> (\<forall>r. dr_device_code (g r) = dr_device_code r \<and> dr_user_code (g r) = dr_user_code r)"

lemma live_change: "same_codes g \<Longrightarrow> live_request (change_request i g fl) j \<longleftrightarrow> live_request fl j"
  by (auto simp: live_request_def change_request_nth same_codes_def split: if_splits)

lemma map_code_change: "same_codes g \<Longrightarrow> map dr_device_code (df_requests (change_request i g fl)) = map dr_device_code (df_requests fl)"
  by (rule nth_equalityI) (auto simp: change_request_nth same_codes_def)

lemma flow_ok_change: "same_codes g \<Longrightarrow> flow_ok fl \<Longrightarrow> flow_ok (change_request i g fl)"
  unfolding flow_ok_def
  by (auto simp: live_change map_code_change change_request_nth same_codes_def live_request_def)

lemma same_codes_updates [simp]: "same_codes (\<lambda>r. r\<lparr>dr_last_poll := t\<rparr>)" "same_codes (\<lambda>r. r\<lparr>dr_state := st, dr_link := l\<rparr>)"
  "same_codes (\<lambda>r. r\<lparr>dr_state := st\<rparr>)"
  by (simp_all add: same_codes_def)

section \<open>What an operation does\<close>

lemma start_login_cases:
  assumes "start_login now draw client info fl = (fl1, r)"
  obtains (none) "fl1 = prune_requests now fl" "r = None \<or> r = Some (Inl TooManyRequests)"
  | (new) user q st where "length (df_by_device (prune_requests now fl)) < max_pending"
      "om_get (df_by_user (prune_requests now fl)) user = None" "dr_device_code q = dw_device draw" "dr_user_code q = user"
      "dr_state q = StPending" "r = Some (Inr st)" "ds_device_code st = dw_device draw" "dr_expires q = now + df_ttl (prune_requests now fl)"
      "df_requests fl1 = df_requests (prune_requests now fl) @ [q]"
      "df_by_device fl1 = om_put (dw_device draw) (length (df_requests (prune_requests now fl))) (df_by_device (prune_requests now fl))"
      "df_by_user fl1 = om_put user (length (df_requests (prune_requests now fl))) (df_by_user (prune_requests now fl))"
proof (cases "max_pending \<le> length (df_by_device (prune_requests now fl))")
  case True
  then show ?thesis using assms none by (auto simp: start_login_def Let_def)
next
  case big: False
  show ?thesis
  proof (cases "find (\<lambda>u. om_get (df_by_user (prune_requests now fl)) u = None) (dw_users draw)")
    case None
    then show ?thesis using assms none big by (auto simp: start_login_def Let_def)
  next
    case (Some user)
    have f: "om_get (df_by_user (prune_requests now fl)) user = None" by (rule find_SomeD(1) [OF Some])
    show ?thesis
      by (rule new [of user "\<lparr>dr_device_code = dw_device draw, dr_user_code = user, dr_client_name = client_name_of client,
            dr_info = info, dr_created = now, dr_expires = now + df_ttl (prune_requests now fl), dr_last_poll = 0,
            dr_state = StPending, dr_link = no_link, dr_seq = Suc (df_started (prune_requests now fl))\<rparr>"
          "\<lparr>ds_device_code = dw_device draw, ds_user_code = format_code user,
             ds_expires_in = df_ttl (prune_requests now fl) div second_ns, ds_interval = max (df_interval (prune_requests now fl) div second_ns) 1\<rparr>"])
        (use assms big f Some in \<open>auto simp: start_login_def Let_def\<close>)
  qed
qed

lemma flow_ok_start:
  assumes "flow_ok fl" "dw_device draw \<notin> dr_device_code ` set (df_requests fl)" "start_login now draw client info fl = (fl1, r)"
  shows "flow_ok fl1"
  using assms(3)
proof (cases rule: start_login_cases)
  case none
  then show ?thesis using prune_ok(1) [OF assms(1)] by simp
next
  case (new user q st)
  let ?p = "prune_requests now fl"
  have ok: "flow_ok ?p" by (rule prune_ok(1) [OF assms(1)])
  have fresh: "dw_device draw \<notin> dr_device_code ` set (df_requests ?p)" using assms(2) prune_ok(2) [OF assms(1)] by simp
  have nd: "om_get (df_by_device ?p) (dw_device draw) = None"
  proof (rule ccontr)
    assume "om_get (df_by_device ?p) (dw_device draw) \<noteq> None"
    then obtain i where "live_request ?p i" "dr_device_code (df_requests ?p ! i) = dw_device draw" using flow_okD(1) [OF ok] by blast
    then show False using fresh by (auto simp: live_request_def image_iff) (metis nth_mem)
  qed
  have len: "length (om_put k v m) \<le> Suc (length m)" for k v and m :: "(string, nat) omap"
    by (induction m) (auto simp: om_put.simps split: if_splits)
  have old: "live_request fl1 j \<and> dr_device_code (df_requests fl1 ! j) = dr_device_code (df_requests ?p ! j) \<and>
      dr_user_code (df_requests fl1 ! j) = dr_user_code (df_requests ?p ! j)" if "live_request ?p j" for j
    using that new(2,9,10,11) nd by (auto simp: live_request_def nth_append)
  have nw: "live_request fl1 (length (df_requests ?p))" using new by (simp add: live_request_def nth_append)
  show ?thesis unfolding flow_ok_def
  proof (intro conjI allI impI)
    show "omap_wf (df_by_device fl1)" "omap_wf (df_by_user fl1)"
      using flow_okD(5,6) [OF ok] by (simp_all add: new(10,11) om_put_wf)
    show "distinct (map dr_device_code (df_requests fl1))" using flow_okD(4) [OF ok] fresh new(3,9) by simp
    show "length (df_by_device fl1) \<le> max_pending"
      using len [of "dw_device draw" "length (df_requests ?p)" "df_by_device ?p"] new(1,10) by simp
    fix c j
    show "live_request fl1 j" "dr_device_code (df_requests fl1 ! j) = c" if "om_get (df_by_device fl1) c = Some j"
      using that old [of j] flow_okD(1) [OF ok, of c j] nw new(3,9,10) by (auto split: if_splits)
    show "live_request fl1 j" "dr_user_code (df_requests fl1 ! j) = c" if "om_get (df_by_user fl1) c = Some j"
      using that old [of j] flow_okD(2) [OF ok, of c j] nw new(4,9,11) by (auto split: if_splits)
  qed
qed

section \<open>Runs\<close>

lemma decidable_cases:
  assumes "decidable_request now code fl = (fl1, r)" "flow_ok fl"
  obtains (refused) e where "fl1 = fl \<or> (\<exists>i. live_request fl i \<and> fl1 = remove_request i fl)" "r = Inl e"
  | (found) i where "fl1 = fl" "r = Inr i" "om_get (df_by_user fl) (normalize_code code) = Some i" "live_request fl i"
      "dr_state (df_requests fl ! i) = StPending" "now < dr_expires (df_requests fl ! i)"
  using assms(1) flow_okD(2) [OF assms(2)]
  by (auto simp: decidable_request_def request_expired_def split: option.splits if_splits)

lemma approve_cases:
  assumes "approve_login create now code p name projects fl tf = (fl1, tf1, r)" "flow_ok fl"
  obtains (refused) e where "fl1 = fl \<or> (\<exists>i. live_request fl i \<and> fl1 = remove_request i fl)" "r = Inl e"
  | (approved) i granted n raw used where "om_get (df_by_user fl) (normalize_code code) = Some i" "live_request fl i"
      "dr_state (df_requests fl ! i) = StPending" "grantable p projects = Inr granted"
      "mint_token create n (pr_account_id p) granted tf = (tf1, Inr (raw, used))"
      "fl1 = change_request i (\<lambda>r. r\<lparr>dr_state := StApproved,
         dr_link := \<lparr>lk_token = raw, lk_token_id = used, lk_name = used, lk_account_id = pr_account_id p\<rparr>\<rparr>) fl"
      "r = Inr \<lparr>av_user_code = format_code (dr_user_code (df_requests fl ! i)), av_name = used,
         av_account_id = pr_account_id p, av_projects = granted\<rparr>"
proof -
  obtain g d where d: "decidable_request now code fl = (g, d)" by (rule prod.exhaust)
  from d assms(2) show ?thesis
  proof (cases rule: decidable_cases)
    case (refused e)
    then show ?thesis using assms(1) d that(1) by (auto simp: approve_login_def)
  next
    case (found i)
    show ?thesis
    proof (cases "grantable p projects")
      case (Inl e)
      then show ?thesis using assms(1) d found that(1) by (auto simp: approve_login_def)
    next
      case (Inr granted)
      let ?n = "if trim_space name = '''' then dr_client_name (df_requests fl ! i) else trim_space name"
      obtain t m where m: "mint_token create ?n (pr_account_id p) granted tf = (t, m)" by (rule prod.exhaust)
      show ?thesis
      proof (cases m)
        case (Inl e)
        then show ?thesis using assms(1) d found Inr m that(1) by (auto simp: approve_login_def Let_def)
      next
        case m2: (Inr x)
        obtain raw used where "x = (raw, used)" by (rule prod.exhaust)
        then show ?thesis using assms(1) d found Inr m m2 that(2) [OF found(3,4,5) Inr, of ?n raw used]
          by (simp add: approve_login_def Let_def)
      qed
    qed
  qed
qed

lemma poll_cases:
  assumes "poll_login now code fl = (fl1, r)" "flow_ok fl"
  obtains (unknown) "fl1 = fl" "r = Inl InvalidGrant"
  | (kept) i t e where "om_get (df_by_device fl) code = Some i" "live_request fl i"
      "fl1 = change_request i (\<lambda>r. r\<lparr>dr_last_poll := t\<rparr>) fl" "r = Inl e"
  | (expired) i where "live_request fl i" "fl1 = remove_request i fl" "r = Inl ExpiredToken"
  | (denied) i where "om_get (df_by_device fl) code = Some i" "live_request fl i" "dr_state (df_requests fl ! i) = StDenied"
      "fl1 = remove_request i (change_request i (\<lambda>r. r\<lparr>dr_last_poll := now\<rparr>) fl)" "r = Inl AccessDenied"
  | (handed) i where "om_get (df_by_device fl) code = Some i" "live_request fl i" "dr_state (df_requests fl ! i) = StApproved"
      "now < dr_expires (df_requests fl ! i)"
      "fl1 = remove_request i (change_request i (\<lambda>r. r\<lparr>dr_last_poll := now\<rparr>) fl)" "r = Inr (dr_link (df_requests fl ! i))"
proof (cases "om_get (df_by_device fl) code")
  case None
  then show ?thesis using assms(1) unknown by (simp add: poll_login_def)
next
  case (Some i)
  have i: "live_request fl i" using flow_okD(1) [OF assms(2) Some] by blast
  define slow where "slow \<longleftrightarrow> dr_last_poll (df_requests fl ! i) \<noteq> 0 \<and> now - dr_last_poll (df_requests fl ! i) < df_interval fl div 2"
  let ?fl = "change_request i (\<lambda>r. r\<lparr>dr_last_poll := now\<rparr>) fl"
  have p: "poll_login now code fl =
    (if request_expired now (df_requests fl ! i) then (remove_request i fl, Inl ExpiredToken)
     else if slow then (?fl, Inl SlowDown)
     else (case dr_state (df_requests fl ! i) of StDenied \<Rightarrow> (remove_request i ?fl, Inl AccessDenied)
       | StApproved \<Rightarrow> (remove_request i ?fl, Inr (dr_link (df_requests fl ! i))) | StPending \<Rightarrow> (?fl, Inl AuthPending)))"
    by (simp add: poll_login_def Some slow_def Let_def)
  show ?thesis
    using assms(1) unfolding p
    using expired [OF i] kept [OF Some i, of now] denied [OF Some i] handed [OF Some i]
    by (auto simp: request_expired_def split: if_splits dev_state.splits)
qed

text \<open>A run of the flow, with who approved and who denied which device code, and what was handed over.
  A device code is 32 random bytes: no two requests have the same.\<close>

definition code_named :: "device_flow \<Rightarrow> string \<Rightarrow> string" where
  "code_named fl user = (case om_get (df_by_user fl) (normalize_code user) of None \<Rightarrow> '''' | Some i \<Rightarrow> dr_device_code (df_requests fl ! i))"

inductive login_run ::
    "(nat \<Rightarrow> string \<Rightarrow> string \<Rightarrow> string list \<Rightarrow> 'f \<Rightarrow> 'f \<times> (auth_error + string)) \<Rightarrow> device_flow \<Rightarrow>
     (string \<times> principal \<times> approval) list \<Rightarrow> string list \<Rightarrow> (string \<times> dev_link) list \<Rightarrow> bool" for create where
  lr_new: "login_run create (new_flow ttl interval) [] [] []"
| lr_start: "login_run create fl ap dn ho \<Longrightarrow> dw_device draw \<notin> dr_device_code ` set (df_requests fl) \<Longrightarrow>
    login_run create (fst (start_login now draw client info fl)) ap dn ho"
| lr_poll: "login_run create fl ap dn ho \<Longrightarrow> poll_login now code fl = (fl1, r) \<Longrightarrow>
    login_run create fl1 ap dn (case r of Inl _ \<Rightarrow> ho | Inr l \<Rightarrow> ho @ [(code, l)])"
| lr_approve: "login_run create fl ap dn ho \<Longrightarrow> approve_login create now code p name projects fl tf = (fl1, tf1, r) \<Longrightarrow>
    login_run create fl1 (case r of Inl _ \<Rightarrow> ap | Inr a \<Rightarrow> ap @ [(code_named fl code, p, a)]) dn ho"
| lr_deny: "login_run create fl ap dn ho \<Longrightarrow> deny_login now code fl = (fl1, r) \<Longrightarrow>
    login_run create fl1 ap (case r of None \<Rightarrow> dn @ [code_named fl code] | Some _ \<Rightarrow> dn) ho"
| lr_list: "login_run create fl ap dn ho \<Longrightarrow> login_run create (fst (pending_logins now fl)) ap dn ho"

definition request_views :: "device_flow \<Rightarrow> (string \<times> dev_state \<times> dev_link) list" where
  "request_views fl = map (\<lambda>r. (dr_device_code r, dr_state r, dr_link r)) (df_requests fl)"

definition run_ok ::
    "device_flow \<Rightarrow> (string \<times> principal \<times> approval) list \<Rightarrow> string list \<Rightarrow> (string \<times> dev_link) list \<Rightarrow> bool" where
  "run_ok fl ap dn ho \<longleftrightarrow> flow_ok fl \<and> distinct (map fst ap) \<and> distinct (map fst ho) \<and>
     (\<forall>x \<in> set ap. \<exists>l. (fst x, StApproved, l) \<in> set (request_views fl) \<and>
        lk_account_id l = pr_account_id (fst (snd x)) \<and> lk_name l = av_name (snd (snd x))) \<and>
     (\<forall>c l. (c, StApproved, l) \<in> set (request_views fl) \<longrightarrow> c \<in> fst ` set ap) \<and>
     (\<forall>c \<in> set dn. \<exists>l. (c, StDenied, l) \<in> set (request_views fl)) \<and>
     (\<forall>x \<in> set ho. om_get (df_by_device fl) (fst x) = None \<and> (fst x, StApproved, snd x) \<in> set (request_views fl))"

lemma views_distinct: "flow_ok fl \<Longrightarrow> distinct (map fst (request_views fl))"
  using flow_okD(4) by (simp add: request_views_def comp_def)

lemma views_unique: "flow_ok fl \<Longrightarrow> (c, a) \<in> set (request_views fl) \<Longrightarrow> (c, b) \<in> set (request_views fl) \<Longrightarrow> a = b"
  using views_distinct eq_key_imp_eq_value by metis

lemma views_remove [simp]: "request_views (remove_request i fl) = request_views fl"
  by (simp add: request_views_def)

lemma views_prune: "flow_ok fl \<Longrightarrow> request_views (prune_requests now fl) = request_views fl"
  by (simp add: request_views_def prune_ok(2))

lemma views_change: "i < length (df_requests fl) \<Longrightarrow> request_views (change_request i g fl) =
    (request_views fl)[i := (dr_device_code (g (df_requests fl ! i)), dr_state (g (df_requests fl ! i)), dr_link (g (df_requests fl ! i)))]"
  by (simp add: request_views_def change_request_def map_update)

lemma views_nth: "i < length (df_requests fl) \<Longrightarrow>
    request_views fl ! i = (dr_device_code (df_requests fl ! i), dr_state (df_requests fl ! i), dr_link (df_requests fl ! i))"
  by (simp add: request_views_def)

lemma views_poll [simp]: "request_views (change_request i (\<lambda>r. r\<lparr>dr_last_poll := t\<rparr>) fl) = request_views fl"
proof (cases "i < length (df_requests fl)")
  case True
  then show ?thesis using views_change [OF True, of "\<lambda>r. r\<lparr>dr_last_poll := t\<rparr>"] views_nth [OF True] by (simp add: list_update_same_conv request_views_def)
qed (simp add: change_request_def list_update_beyond not_less)

text \<open>A request that was decided stays as it was decided.\<close>

lemma views_decide:
  assumes "i < length (df_requests fl)" "dr_state (df_requests fl ! i) = StPending" "dr_device_code (g (df_requests fl ! i)) = dr_device_code (df_requests fl ! i)"
    and "dr_state (g (df_requests fl ! i)) = st" "dr_link (g (df_requests fl ! i)) = l"
  shows "(dr_device_code (df_requests fl ! i), st, l) \<in> set (request_views (change_request i g fl))"
    "x \<in> set (request_views fl) \<Longrightarrow> fst (snd x) \<noteq> StPending \<Longrightarrow> x \<in> set (request_views (change_request i g fl))"
    "x \<in> set (request_views (change_request i g fl)) \<Longrightarrow> x \<in> set (request_views fl) \<or> x = (dr_device_code (df_requests fl ! i), st, l)"
proof -
  let ?V = "request_views fl" and ?y = "(dr_device_code (df_requests fl ! i), st, l)"
  have v: "request_views (change_request i g fl) = ?V[i := ?y]" using assms by (simp add: views_change)
  have len: "i < length ?V" using assms(1) by (simp add: request_views_def)
  show "?y \<in> set (request_views (change_request i g fl))" unfolding v using set_update_memI [OF len] .
  show "x \<in> set (request_views (change_request i g fl)) \<Longrightarrow> x \<in> set ?V \<or> x = ?y"
    unfolding v using set_update_subset_insert by fastforce
  show "x \<in> set (request_views (change_request i g fl))" if x: "x \<in> set ?V" "fst (snd x) \<noteq> StPending"
  proof -
    obtain j where j: "j < length ?V" "?V ! j = x" using x(1) by (auto simp: in_set_conv_nth)
    have "j \<noteq> i" using j(2) x(2) assms(1,2) by (auto simp: views_nth)
    then show ?thesis unfolding v using j by (metis length_list_update nth_list_update_neq nth_mem)
  qed
qed

lemma run_ok_same:
  assumes "run_ok fl ap dn ho" "flow_ok fl1" "request_views fl1 = request_views fl"
    and "\<And>c i. om_get (df_by_device fl1) c = Some i \<Longrightarrow> om_get (df_by_device fl) c \<noteq> None"
  shows "run_ok fl1 ap dn ho"
  using assms unfolding run_ok_def by (metis not_None_eq)

lemma run_ok_flow: "run_ok fl ap dn ho \<Longrightarrow> flow_ok fl"
  by (simp add: run_ok_def)

lemma run_ok_approved:
  assumes "run_ok fl ap dn ho" "x \<in> set ap"
  obtains l where "(fst x, StApproved, l) \<in> set (request_views fl)" "lk_account_id l = pr_account_id (fst (snd x))"
    "lk_name l = av_name (snd (snd x))"
proof -
  have "\<forall>x \<in> set ap. \<exists>l. (fst x, StApproved, l) \<in> set (request_views fl) \<and>
      lk_account_id l = pr_account_id (fst (snd x)) \<and> lk_name l = av_name (snd (snd x))"
    using assms(1) unfolding run_ok_def by (elim conjE)
  from bspec [OF this assms(2)] show thesis using that by (elim exE conjE)
qed

lemma run_ok_denied: "run_ok fl ap dn ho \<Longrightarrow> c \<in> set dn \<Longrightarrow> \<exists>l. (c, StDenied, l) \<in> set (request_views fl)"
  by (simp add: run_ok_def)

lemma run_ok_removed: "run_ok fl ap dn ho \<Longrightarrow> live_request fl i \<Longrightarrow> run_ok (remove_request i fl) ap dn ho"
  by (rule run_ok_same [OF _ flow_ok_remove [OF run_ok_flow]]) (auto split: if_splits)

lemma run_ok_refused:
  "run_ok fl ap dn ho \<Longrightarrow> fl1 = fl \<or> (\<exists>i. live_request fl i \<and> fl1 = remove_request i fl) \<Longrightarrow> run_ok fl1 ap dn ho"
  using run_ok_removed by blast

lemma run_ok_polled: "run_ok fl ap dn ho \<Longrightarrow> run_ok (change_request i (\<lambda>r. r\<lparr>dr_last_poll := t\<rparr>) fl) ap dn ho"
  by (rule run_ok_same [OF _ flow_ok_change [OF _ run_ok_flow]]) auto

lemma run_ok_start:
  assumes "run_ok fl ap dn ho" "dw_device draw \<notin> dr_device_code ` set (df_requests fl)" "start_login now draw client info fl = (fl1, r)"
  shows "run_ok fl1 ap dn ho"
proof -
  note ok = run_ok_flow [OF assms(1)]
  have p: "run_ok (prune_requests now fl) ap dn ho"
    by (rule run_ok_same [OF assms(1) prune_ok(1) [OF ok] views_prune [OF ok]]) (use prune_ok(4) [OF ok] in blast)
  from assms(3) show ?thesis
  proof (cases rule: start_login_cases)
    case none
    then show ?thesis using p by simp
  next
    case (new user q st)
    have v: "request_views fl1 = request_views fl @ [(dw_device draw, StPending, dr_link q)]"
      using new(3,5,9) prune_ok(2) [OF ok] by (simp add: request_views_def)
    have f: "dw_device draw \<notin> fst ` set (request_views fl)" using assms(2) by (auto simp: request_views_def)
    have fresh: "dw_device draw \<noteq> fst x" if "x \<in> set ho" for x
      using that assms(1) f unfolding run_ok_def by (metis fst_conv image_eqI)
    have "om_get (df_by_device fl1) (fst x) = None" if "x \<in> set ho" for x
      using that p fresh [OF that] new(10) by (simp add: run_ok_def)
    then show ?thesis using p flow_ok_start [OF ok assms(2,3)] by (auto simp: run_ok_def v views_prune [OF ok])
  qed
qed

lemma run_ok_approve:
  assumes "run_ok fl ap dn ho" "approve_login create now code p name projects fl tf = (fl1, tf1, r)"
  shows "run_ok fl1 (case r of Inl _ \<Rightarrow> ap | Inr a \<Rightarrow> ap @ [(code_named fl code, p, a)]) dn ho"
  using assms(2) run_ok_flow [OF assms(1)]
proof (cases rule: approve_cases)
  case (refused e)
  then show ?thesis using run_ok_refused [OF assms(1)] by simp
next
  case (approved i granted n raw used)
  let ?l = "\<lparr>lk_token = raw, lk_token_id = used, lk_name = used, lk_account_id = pr_account_id p\<rparr>"
  let ?g = "\<lambda>r. r\<lparr>dr_state := StApproved, dr_link := ?l\<rparr>" and ?c = "dr_device_code (df_requests fl ! i)"
  have i: "i < length (df_requests fl)" using approved(2) by (simp add: live_request_def)
  note d = views_decide [OF i approved(3), of ?g StApproved ?l, simplified, folded approved(6)]
  have ok1: "flow_ok fl1" using flow_ok_change [OF _ run_ok_flow [OF assms(1)], of ?g i] approved(6) by simp
  have c: "code_named fl code = ?c" using approved(1) by (simp add: code_named_def)
  have "(?c, StPending, dr_link (df_requests fl ! i)) \<in> set (request_views fl)"
    using i approved(3) views_nth [OF i] nth_mem [of i "request_views fl"] by (simp add: request_views_def)
  then have new: "?c \<notin> fst ` set ap" "?c \<notin> fst ` set ho"
    using assms(1) views_unique [OF run_ok_flow [OF assms(1)]] unfolding run_ok_def by (fastforce, fastforce)
  have r: "run_ok fl ap dn ho" by (rule assms(1))
  let ?a = "\<lparr>av_user_code = format_code (dr_user_code (df_requests fl ! i)), av_name = used,
         av_account_id = pr_account_id p, av_projects = granted\<rparr>"
  have old: "(c, st, l) \<in> set (request_views fl1)" if "(c, st, l) \<in> set (request_views fl)" "st \<noteq> StPending" for c st l
    by (rule d(2) [OF that(1)]) (use that(2) in simp)
  have "run_ok fl1 (ap @ [(?c, p, ?a)]) dn ho" unfolding run_ok_def
  proof (intro conjI ballI allI impI)
    show "\<exists>l. (fst x, StApproved, l) \<in> set (request_views fl1) \<and> lk_account_id l = pr_account_id (fst (snd x)) \<and> lk_name l = av_name (snd (snd x))"
      if "x \<in> set (ap @ [(?c, p, ?a)])" for x
    proof (cases "x \<in> set ap")
      case True
      then obtain l where "(fst x, StApproved, l) \<in> set (request_views fl)" "lk_account_id l = pr_account_id (fst (snd x))"
        "lk_name l = av_name (snd (snd x))" using r unfolding run_ok_def by blast
      then show ?thesis using old by blast
    next
      case False
      then have "x = (?c, p, ?a)" using that by simp
      then show ?thesis using d(1) by (intro exI [of _ ?l]) simp
    qed
    show "c' \<in> fst ` set (ap @ [(?c, p, ?a)])" if "(c', StApproved, l) \<in> set (request_views fl1)" for c' l
      using d(3) [OF that] r unfolding run_ok_def by auto
    show "\<exists>l. (c', StDenied, l) \<in> set (request_views fl1)" if "c' \<in> set dn" for c'
    proof -
      obtain l where "(c', StDenied, l) \<in> set (request_views fl)" using r \<open>c' \<in> set dn\<close> unfolding run_ok_def by blast
      then show ?thesis using old by blast
    qed
    show "om_get (df_by_device fl1) (fst x) = None" "(fst x, StApproved, snd x) \<in> set (request_views fl1)" if "x \<in> set ho" for x
      using r that old approved(6) unfolding run_ok_def by simp_all
  qed (use r ok1 new in \<open>simp_all add: run_ok_def\<close>)
  then show ?thesis by (simp add: approved(7) c)
qed

lemma run_ok_deny:
  assumes "run_ok fl ap dn ho" "deny_login now code fl = (fl1, r)"
  shows "run_ok fl1 ap (case r of None \<Rightarrow> dn @ [code_named fl code] | Some _ \<Rightarrow> dn) ho"
proof -
  obtain g d where d: "decidable_request now code fl = (g, d)" by (rule prod.exhaust)
  from d run_ok_flow [OF assms(1)] show ?thesis
  proof (cases rule: decidable_cases)
    case (refused e)
    then have "fl1 = g" "r = Some e" using assms(2) d by (simp_all add: deny_login_def)
    then show ?thesis using run_ok_refused [OF assms(1) refused(1)] by simp
  next
    case (found i)
    let ?g = "\<lambda>r. r\<lparr>dr_state := StDenied\<rparr>" and ?c = "dr_device_code (df_requests fl ! i)"
    have fl1: "fl1 = change_request i ?g fl" "r = None" using assms(2) d found by (simp_all add: deny_login_def)
    have i: "i < length (df_requests fl)" using found(4) by (simp add: live_request_def)
    note e = views_decide [OF i found(5), of ?g StDenied "dr_link (df_requests fl ! i)", simplified, folded fl1(1)]
    have "flow_ok fl1" using flow_ok_change [OF _ run_ok_flow [OF assms(1)], of ?g i] fl1 by simp
    moreover have c: "code_named fl code = ?c" using found(3) by (simp add: code_named_def)
    have old: "(c, st, l) \<in> set (request_views fl1)" if "(c, st, l) \<in> set (request_views fl)" "st \<noteq> StPending" for c st l
      by (rule e(2) [OF that(1)]) (use that(2) in simp)
    have r: "run_ok fl ap dn ho" by (rule assms(1))
    have "run_ok fl1 ap (dn @ [?c]) ho" unfolding run_ok_def
    proof (intro conjI ballI allI impI)
      show "\<exists>l. (fst x, StApproved, l) \<in> set (request_views fl1) \<and> lk_account_id l = pr_account_id (fst (snd x)) \<and> lk_name l = av_name (snd (snd x))"
        if "x \<in> set ap" for x
      proof -
        from r that obtain l where "(fst x, StApproved, l) \<in> set (request_views fl)"
          "lk_account_id l = pr_account_id (fst (snd x))" "lk_name l = av_name (snd (snd x))"
          by (rule run_ok_approved)
        then show ?thesis using old [of "fst x" StApproved l] by (intro exI [of _ l]) simp
      qed
      show "c' \<in> fst ` set ap" if "(c', StApproved, l) \<in> set (request_views fl1)" for c' l
        using e(3) [OF that] r unfolding run_ok_def by auto
      show "\<exists>l. (c', StDenied, l) \<in> set (request_views fl1)" if "c' \<in> set (dn @ [?c])" for c'
      proof (cases "c' \<in> set dn")
        case True
        then obtain l where "(c', StDenied, l) \<in> set (request_views fl)" using run_ok_denied [OF r] by blast
        then show ?thesis using old [of c' StDenied l] by auto
      next
        case False
        then show ?thesis using that e(1) by auto
      qed
      show "om_get (df_by_device fl1) (fst x) = None" "(fst x, StApproved, snd x) \<in> set (request_views fl1)" if "x \<in> set ho" for x
        using r that old fl1(1) unfolding run_ok_def by simp_all
    qed (use r calculation in \<open>simp_all add: run_ok_def\<close>)
    then show ?thesis by (simp add: fl1(2) c)
  qed
qed

lemma run_ok_poll:
  assumes "run_ok fl ap dn ho" "poll_login now code fl = (fl1, r)"
  shows "run_ok fl1 ap dn (case r of Inl _ \<Rightarrow> ho | Inr l \<Rightarrow> ho @ [(code, l)])"
  using assms(2) run_ok_flow [OF assms(1)]
proof (cases rule: poll_cases)
  case unknown
  then show ?thesis using assms(1) by simp
next
  case (kept i t e)
  then show ?thesis using run_ok_polled [OF assms(1)] by simp
next
  case (expired i)
  then show ?thesis using run_ok_removed [OF assms(1)] by simp
next
  case (denied i)
  then show ?thesis using run_ok_removed [OF run_ok_polled [OF assms(1)]] by (simp add: live_change)
next
  case (handed i)
  have k: "run_ok fl1 ap dn ho" unfolding handed(5) using handed(2) run_ok_removed [OF run_ok_polled [OF assms(1)]] by (simp add: live_change)
  have i: "i < length (df_requests fl)" "dr_device_code (df_requests fl ! i) = code"
    using handed(1,2) flow_okD(1) [OF run_ok_flow [OF assms(1)] handed(1)] by (simp_all add: live_request_def)
  have "(code, StApproved, dr_link (df_requests fl ! i)) \<in> set (request_views fl1)"
  proof -
    have "request_views fl1 = request_views fl" using handed(5) by simp
    then show ?thesis using i handed(3) views_nth [OF i(1)] nth_mem [of i "request_views fl"] by (simp add: request_views_def)
  qed
  moreover have "om_get (df_by_device fl1) code = None" using handed(5) i by (simp add: change_request_nth)
  moreover have "code \<notin> fst ` set ho" using assms(1) handed(1) unfolding run_ok_def by force
  ultimately show ?thesis using k unfolding run_ok_def handed(6) by simp
qed

lemma login_run_ok: "login_run create fl ap dn ho \<Longrightarrow> run_ok fl ap dn ho"
proof (induction rule: login_run.induct)
  case (lr_new ttl interval)
  show ?case by (simp add: run_ok_def flow_ok_def new_flow_def request_views_def)
next
  case (lr_start fl ap dn ho draw now client info)
  then show ?case using run_ok_start [OF _ _ surjective_pairing] by blast
next
  case (lr_poll fl ap dn ho now code fl1 r)
  then show ?case using run_ok_poll by blast
next
  case (lr_approve fl ap dn ho now code p name projects tf fl1 tf1 r)
  show ?case by (rule run_ok_approve [OF lr_approve.IH lr_approve.hyps(2)])
next
  case (lr_deny fl ap dn ho now code fl1 r)
  then show ?case using run_ok_deny by blast
next
  case (lr_list fl ap dn ho now)
  note ok = run_ok_flow [OF lr_list.IH]
  show ?case unfolding pending_logins_def Let_def fst_conv
    by (rule run_ok_same [OF lr_list.IH prune_ok(1) [OF ok] views_prune [OF ok]]) (use prune_ok(4) [OF ok] in blast)
qed

text \<open>At most a hundred requests wait, and a device code and a user code that the flow knows name one and the
  same request, whose codes they are.\<close>

theorem login_codes_agree:
  assumes "login_run create fl ap dn ho"
  shows "length (df_by_device fl) \<le> 100 \<and>
    (\<forall>c i. om_get (df_by_device fl) c = Some i \<longrightarrow> i < length (df_requests fl) \<and> dr_device_code (df_requests fl ! i) = c \<and>
       om_get (df_by_user fl) (dr_user_code (df_requests fl ! i)) = Some i) \<and>
    (\<forall>u i. om_get (df_by_user fl) u = Some i \<longrightarrow> i < length (df_requests fl) \<and> dr_user_code (df_requests fl ! i) = u \<and>
       om_get (df_by_device fl) (dr_device_code (df_requests fl ! i)) = Some i)"
  using flow_okD(1-3) [OF run_ok_flow [OF login_run_ok [OF assms]]] by (auto simp: live_request_def max_pending_def)

text \<open>C14. In every run a token is handed over at most once for a device code, after somebody approved that request
  and nobody denied it; it is named as the approval reported and belongs to the approver's account,
  and the code is unknown from then on.\<close>

theorem token_handed_over_once:
  assumes "login_run create fl ap dn ho"
  shows "distinct (map fst ho) \<and> distinct (map fst ap) \<and>
    (\<forall>x \<in> set ho. (\<exists>y \<in> set ap. fst y = fst x \<and> lk_account_id (snd x) = pr_account_id (fst (snd y)) \<and>
         lk_name (snd x) = av_name (snd (snd y))) \<and>
       fst x \<notin> set dn \<and> poll_login now (fst x) fl = (fl, Inl InvalidGrant))"
proof (intro conjI ballI)
  note ok = login_run_ok [OF assms]
  show "distinct (map fst ho)" "distinct (map fst ap)" using ok by (simp_all add: run_ok_def)
  fix x
  assume x: "x \<in> set ho"
  then have h: "om_get (df_by_device fl) (fst x) = None" "(fst x, StApproved, snd x) \<in> set (request_views fl)"
    using ok by (simp_all add: run_ok_def)
  show "poll_login now (fst x) fl = (fl, Inl InvalidGrant)" using h(1) by (simp add: poll_login_def)
  obtain y where y: "y \<in> set ap" "fst y = fst x" using ok h(2) unfolding run_ok_def by fastforce
  from ok y(1) obtain l where l: "(fst y, StApproved, l) \<in> set (request_views fl)"
    "lk_account_id l = pr_account_id (fst (snd y))" "lk_name l = av_name (snd (snd y))" by (rule run_ok_approved)
  have "l = snd x" using views_unique [OF run_ok_flow [OF ok] l(1) [unfolded y(2)] h(2)] by simp
  then show "\<exists>y \<in> set ap. fst y = fst x \<and> lk_account_id (snd x) = pr_account_id (fst (snd y)) \<and> lk_name (snd x) = av_name (snd (snd y))"
    using y l by blast
  show "fst x \<notin> set dn"
    using run_ok_denied [OF ok, of "fst x"] views_unique [OF run_ok_flow [OF ok] h(2)] by fastforce
qed

section \<open>What an approval grants\<close>

context token_minter begin

text \<open>The minted token stands for the account under the name that was asked for or a numbered one, which was free.\<close>

lemma mint_loop_minted:
  "ok f \<Longrightarrow> mint_loop create name acc ps u ns f = (f1, Inr (raw, used)) \<Longrightarrow> acc \<noteq> '''' \<Longrightarrow>
    holds f1 raw \<lparr>pr_name = trim_space used, pr_account_id = acc, pr_projects = clean_projects [] ps\<rparr> \<and>
    trim_space used \<notin> names f \<and> (used = u \<or> (\<exists>i \<in> set ns. used = name @ ''-'' @ itoa i))"
proof (induction ns arbitrary: u f)
  case (Cons i ns)
  obtain g r where c: "create i u acc ps f = (g, r)" by (rule prod.exhaust)
  show ?case
  proof (cases r)
    case (Inl e)
    then have "e = TokenExists" and m: "mint_loop create name acc ps (name @ ''-'' @ itoa i) ns g = (f1, Inr (raw, used))"
      using Cons.prems(2) c by (simp_all split: if_splits)
    then have "names g = names f" using taken [OF Cons.prems(1), of i u acc ps g] c Inl by simp
    then show ?thesis using Cons.IH [OF keeps [OF Cons.prems(1) c] m Cons.prems(3)] by auto
  next
    case (Inr x)
    then show ?thesis using created [OF Cons.prems(1)] Cons.prems(2,3) c by simp
  qed
qed simp

lemma mint_loop_ok: "ok f \<Longrightarrow> mint_loop create name acc ps u ns f = (f1, r) \<Longrightarrow> ok f1"
proof (induction ns arbitrary: u f)
  case (Cons i ns)
  obtain g r' where c: "create i u acc ps f = (g, r')" by (rule prod.exhaust)
  show ?case using Cons.IH [OF keeps [OF Cons.prems(1) c]] keeps [OF Cons.prems(1) c] Cons.prems(2) c
    by (auto split: sum.splits if_splits)
qed simp

text \<open>A mint that finds no free name has found the name and the numbered ones all taken.\<close>

lemma mint_loop_taken:
  "ok f \<Longrightarrow> mint_loop create name acc ps u ns f = (f1, Inl TokenExists) \<Longrightarrow> i < length ns \<Longrightarrow>
    trim_space (if i = 0 then u else name @ ''-'' @ itoa (ns ! (i - 1))) \<in> names f"
proof (induction ns arbitrary: u f i)
  case (Cons n ns)
  obtain g r where c: "create n u acc ps f = (g, r)" by (rule prod.exhaust)
  then have r: "r = Inl TokenExists" and m: "mint_loop create name acc ps (name @ ''-'' @ itoa n) ns g = (f1, Inl TokenExists)"
    using Cons.prems(2) by (auto split: sum.splits if_splits)
  have t: "trim_space u \<in> names f" "names g = names f" using taken [OF Cons.prems(1)] c r by blast+
  show ?case
  proof (cases i)
    case (Suc j)
    then show ?thesis using Cons.IH [OF keeps [OF Cons.prems(1) c] m, of j] Cons.prems(3) t(2) by (cases j) simp_all
  qed (use t(1) in simp)
qed simp

end

lemma clean_projects_from: "x \<in> set (clean_projects base ps) \<Longrightarrow> x \<in> set base \<or> x \<noteq> '''' \<and> x \<in> trim_space ` set ps"
proof (induction ps arbitrary: base)
  case (Cons p ps)
  let ?b = "if trim_space p \<noteq> '''' \<and> trim_space p \<notin> set base then base @ [trim_space p] else base"
  have "clean_projects base (p # ps) = clean_projects ?b ps" by (simp add: clean_projects_def Let_def)
  then show ?case using Cons.IH [of ?b] Cons.prems by (auto split: if_splits)
qed (simp add: clean_projects_def)

lemma grant_loop_granted:
  "grant_loop p ss xs = Inr ys \<Longrightarrow> s \<in> set ys \<Longrightarrow>
    s \<in> set xs \<or> trim_space s = s \<and> (if s = ''*'' then ''*'' \<in> set (pr_projects p) else allow_project p s)"
proof (induction ss arbitrary: xs)
  case (Cons s0 ss)
  let ?xs = "if trim_space s0 \<in> set xs then xs else xs @ [trim_space s0]"
  let ?P = "\<lambda>s. trim_space s = s \<and> (if s = ''*'' then ''*'' \<in> set (pr_projects p) else allow_project p s)"
  show ?case
  proof (cases "trim_space s0 = ''''")
    case True
    then show ?thesis using Cons by simp
  next
    case False
    have g: "grant_loop p (s0 # ss) xs =
        (if (if trim_space s0 = ''*'' then ''*'' \<notin> set (pr_projects p) else \<not> allow_project p (trim_space s0))
         then Inl ProjectNotCovered else grant_loop p ss ?xs)" using False by (simp only: grant_loop.simps Let_def if_False)
    have P0: "?P (trim_space s0)" and r: "grant_loop p ss ?xs = Inr ys"
      using Cons.prems(1) unfolding g by (simp_all only: trim_space_idem split: if_split_asm) simp_all
    have x: "set ?xs = insert (trim_space s0) (set xs)" by auto
    from Cons.IH [OF r Cons.prems(2), unfolded x] show ?thesis
    proof (elim disjE)
      assume "s \<in> insert (trim_space s0) (set xs)"
      then show ?thesis
      proof (rule insertE)
        assume s: "s = trim_space s0"
        show ?thesis unfolding s by (rule disjI2) (rule P0)
      qed (rule disjI1)
    qed (rule disjI2)
  qed
qed simp

lemma granted_allowed:
  assumes "grantable p projects = Inr granted" "list_all (\<lambda>s. trim_space s = s) (pr_projects p)"
    and "allow_project \<lparr>pr_name = n, pr_account_id = acc, pr_projects = clean_projects [] granted\<rparr> s"
  shows "allow_project p s"
proof -
  obtain x where x: "x \<in> set (clean_projects [] granted)" "x = ''*'' \<or> x = s" and s: "s \<noteq> ''''"
    using assms(3) by (auto simp: allow_project_def list_ex_iff)
  obtain y where y: "y \<in> set granted" "x = trim_space y" using clean_projects_from [OF x(1)] by auto
  show ?thesis
  proof (cases "projects = []")
    case True
    then have "y \<in> set (pr_projects p)" using assms(1) y(1) by (simp add: grantable_def)
    then show ?thesis using assms(2) x(2) s y(2) by (auto simp: allow_project_def list_ex_iff list_all_iff)
  next
    case False
    then have "grant_loop p projects [] = Inr granted" using assms(1) by (simp add: grantable_def)
    from grant_loop_granted [OF this y(1)] x(2) y(2) s show ?thesis
      by (auto simp: allow_project_def list_ex_iff split: if_splits)
  qed
qed


section \<open>A login outlives the key\<close>

text \<open>A mint in the file appends one token, whichever names were taken.\<close>

lemma mint_effective:
  "file_ok f \<Longrightarrow> mint_loop (\<lambda>i. create_token sha (ios i) now (draws i)) name acc ps u ns f = (f1, Inr (raw, used)) \<Longrightarrow>
    \<exists>i. raw = mt_raw (draws i) \<and> trim_space used \<notin> at_name ` set (effective f) \<and>
      effective f1 = effective f @ [minted_token sha now (draws i) used acc ps]"
proof (induction ns arbitrary: u f)
  case (Cons i ns)
  obtain g r where c: "create_token sha (ios i) now (draws i) u acc ps f = (g, r)" by (rule prod.exhaust)
  show ?case
  proof (cases r)
    case (Inl e)
    then have e: "e = TokenExists"
      and m: "mint_loop (\<lambda>i. create_token sha (ios i) now (draws i)) name acc ps (name @ ''-'' @ itoa i) ns g = (f1, Inr (raw, used))"
      using Cons.prems(2) c by (simp_all split: if_splits)
    have "effective g = effective f"
      using create_token_taken [of sha "ios i" now "draws i" u acc ps f g] c Inl e Cons.prems(1) by (simp add: file_ok_def)
    then show ?thesis using Cons.IH [OF token_store.keeps [where ios = ios and draws = draws and i = i, OF Cons.prems(1) c] m] by simp
  next
    case (Inr x)
    then show ?thesis using Cons.prems(2) c create_token_cases [of sha "ios i" now "draws i" u acc ps f g x] by auto
  qed
qed simp

text \<open>A revocation that reports no error leaves every token in its place, those of the key revoked.\<close>

lemma revoke_effective:
  assumes "file_ok f" "k \<in> set (effective f)" "revoke_token io now (at_name k) f = (f1, None)"
  shows "effective f1 = map (revoke_all now k) (effective f) \<or> effective f1 = effective f \<and> at_revoked k \<noteq> None"
proof -
  obtain g e where l: "load_tokens io f = (g, e)" by (rule prod.exhaust)
  have e: "e = None" using assms(3) l by (cases e) (simp_all add: revoke_token_def)
  have ne: "effective f \<noteq> []" using assms(2) by auto
  have s: "settled g" "tf_tokens g = effective f" using load_settled [of io f g] l e ne by auto
  have d: "distinct (map at_name (tf_tokens g))" using s file_ok_effective [OF assms(1)] by (simp add: tokens_ok_def)
  have fk: "find (\<lambda>t. at_name t = at_name k) (tf_tokens g) = Some k" using find_named [OF d] assms(2) s(2) by simp
  show ?thesis
  proof (cases "at_revoked k \<noteq> None \<and> \<not> list_ex (\<lambda>t. child_of k t \<and> at_revoked t = None) (tf_tokens g)")
    case True
    then have "f1 = g" using assms(3) l e fk by (simp add: revoke_token_def)
    then show ?thesis using True s settled_effective [OF s(1)] by simp
  next
    case False
    then have "save_tokens io (g\<lparr>tf_tokens := map (revoke_all now k) (tf_tokens g)\<rparr>) = (f1, None)"
      using assms(3) l e fk revoke_in_map [OF d, of k now] by (auto simp: revoke_token_def)
    then show ?thesis using save_settled s by simp
  qed
qed

text \<open>C23. A machine that runs on a token exchanged for an environment key can approve a device login; the token that
  this mints is accepted at any later time, under the same account, after the key was revoked.\<close>

theorem device_token_outlives_key:
  assumes "login_run (\<lambda>i. create_token sha (ios i) minted (draws i)) fl ap dn ho" "file_reachable sha tf" "\<And>i. mt_raw (draws i) \<noteq> ''''"
    and "k \<in> set (effective tf)" "at_kind k = kind_environment"
    and "match_token sha io1 raw1 tf = (tf1, Some u)" "at_parent u = at_name k" "token_lookup sha io1 now1 raw1 tf = (tf1, Some p)"
    and "approve_login (\<lambda>i. create_token sha (ios i) minted (draws i)) now code p name projects fl tf1 = (fl2, tf2, Inr a)"
    and "revoke_token io3 now3 (at_name k) tf2 = (tf3, None)" "load_tokens io4 tf3 = (tf4, None)"
  shows "\<exists>i q. om_get (df_by_user fl) (normalize_code code) = Some i \<and>
    snd (token_lookup sha io4 later (lk_token (dr_link (df_requests fl2 ! i))) tf3) = Some q \<and> pr_account_id p \<in> {pr_account_id q, ''''}"
  using assms(9) run_ok_flow [OF login_run_ok [OF assms(1)]]
proof (cases rule: approve_cases)
  case (approved i granted n raw used)
  have ok: "file_ok tf" using file_reachable_ok [OF assms(2)] .
  obtain e where l: "load_tokens io1 tf = (tf1, e)" using match_token_load [OF assms(6)] by blast
  have ok1: "file_ok tf1" "effective tf1 = effective tf" using file_ok_load [OF l ok] load_effective(1) [OF l] by simp_all
  obtain j where j: "raw = mt_raw (draws j)" "trim_space used \<notin> at_name ` set (effective tf)"
    "effective tf2 = effective tf @ [minted_token sha minted (draws j) used (pr_account_id p) granted]"
    using mint_effective [OF ok1(1) approved(5) [unfolded mint_token_def]] ok1(2) by auto
  let ?m = "minted_token sha minted (draws j) used (pr_account_id p) granted"
  have m: "at_name ?m = trim_space used" "at_parent ?m = ''''" "at_hash ?m = sha raw" "at_revoked ?m = None" "at_kind ?m = ''''"
    "at_expires ?m = None" "pr_account_id p \<in> {at_account_id ?m, ''''}" using j(1) by (simp_all add: minted_token_def)
  have ok2: "file_ok tf2"
    using token_store.mint_loop_ok [OF ok1(1) approved(5) [unfolded mint_token_def]] .
  have "at_name k \<noteq> ''''" using file_ok_effective [OF ok] assms(4) by (simp add: tokens_ok_def)
  moreover have "at_name ?m \<noteq> at_name k" using j(2) assms(4) m(1) by (metis image_eqI)
  ultimately have keep: "revoke_all now3 k ?m = ?m" using m(2) by (simp add: revoke_all_def child_of_def)
  have "k \<in> set (effective tf2)" using assms(4) j(3) by simp
  from revoke_effective [OF ok2 this assms(10)] have "\<exists>ts. effective tf3 = ts @ [?m]" using j(3) keep by auto
  then obtain ts where ts: "tf_tokens tf4 = ts @ [?m]" using load_effective(5) [OF assms(11)] by auto
  have "i < length (df_requests fl)" using approved(2) by (simp add: live_request_def)
  then have r: "lk_token (dr_link (df_requests fl2 ! i)) = raw" using approved(6) by (simp add: change_request_nth)
  have "match_token sha io4 raw tf3 = (tf4, Some ?m)"
    using assms(3,11) ts m j(1) by (simp add: match_token_def matches_hash_def)
  then have "snd (token_lookup sha io4 later raw tf3) =
      Some \<lparr>pr_name = at_name ?m, pr_account_id = at_account_id ?m, pr_projects = at_projects ?m\<rparr>"
    using m by (simp add: token_lookup_def token_expired_def kind_environment_def)
  then show ?thesis using approved(1) m(7) r by (intro exI) auto
qed simp

end
