(* ===== verification/Examples_Auth.thy ===== *)
theory Examples_Auth
  imports Auth_Limits Device_Facts
begin

text \<open>
  A token file with an environment key, a token exchanged for it and one of a desk, and a login that
  the exchanged token approves, on which the properties of tokens and logins are applied once.
\<close>

section \<open>A token file\<close>

definition ex_sha :: "string \<Rightarrow> string" where
  "ex_sha s = CHR ''h'' # s"

definition ex_io :: file_io where
  "ex_io = \<lparr>io_stat = True, io_read = True, io_write = True, io_again = True\<rparr>"

definition ex_mint :: "string \<Rightarrow> string \<Rightarrow> mint_draw" where
  "ex_mint raw suffix = \<lparr>mt_raw = raw, mt_account = ''fresh'', mt_suffixes = [suffix]\<rparr>"

definition ex_opened :: token_file where
  "ex_opened = open_token_file NoFile"

definition ex_keyed :: token_file where
  "ex_keyed = fst (create_environment_key ex_sha ex_io 0 (ex_mint ''key'' '''') ''box'' ''alice'' [''p''] 0 ex_opened)"

definition ex_shared :: token_file where
  "ex_shared = fst (exchange ex_sha ex_io 5 (ex_mint ''tok'' ''1'') ''key'' ''pc'' ex_keyed)"

definition ex_file :: token_file where
  "ex_file = fst (create_token ex_sha ex_io 6 (ex_mint ''desk'' '''') ''desk'' ''bob'' [] ex_shared)"

definition ex_key :: auth_token where
  "ex_key = hd (tf_tokens ex_keyed)"

lemma ex_opened_reachable: "file_reachable ex_sha ex_opened"
  unfolding ex_opened_def by (rule opened) simp

lemma ex_keyed_reachable: "file_reachable ex_sha ex_keyed"
  unfolding ex_keyed_def by (rule file_reachable.own [OF ex_opened_reachable own_plain [OF own_key]])

lemma ex_shared_reachable: "file_reachable ex_sha ex_shared"
  unfolding ex_shared_def by (rule file_reachable.own [OF ex_keyed_reachable own_exchange])

lemma ex_file_reachable: "file_reachable ex_sha ex_file"
  unfolding ex_file_def by (rule file_reachable.own [OF ex_shared_reachable own_plain [OF own_create]])

theorem token_file_sound_witness:
  "map at_name (effective ex_file) = [''box'', ''box@pc-1'', ''desk''] \<and> distinct (map at_name (effective ex_file)) \<and>
   (\<exists>k \<in> set (effective ex_file). at_name k = ''box'' \<and> at_kind k = kind_environment)"
proof -
  have n: "map at_name (effective ex_file) = [''box'', ''box@pc-1'', ''desk'']" by code_simp
  have t: "effective ex_file ! 1 \<in> set (effective ex_file)" "at_parent (effective ex_file ! 1) = ''box''" by code_simp+
  show ?thesis using token_file_sound [OF ex_file_reachable] n t by auto
qed

theorem revoked_key_stays_out_witness:
  "at_name (effective ex_file ! 2) \<noteq> ''box'' \<and> at_parent (effective ex_file ! 2) \<noteq> ''box''"
proof -
  let ?r = "revoke_token ex_io 9 (at_name ex_key) ex_file"
  have k: "ex_key \<in> set (effective ex_file)" "at_kind ex_key = kind_environment" "snd ?r \<in> {None, Some WriteFailed}"
    "snd (match_token ex_sha ex_io ''desk'' (fst ?r)) = Some (effective ex_file ! 2)" "at_name ex_key = ''box''"
    by code_simp+
  have m: "match_token ex_sha ex_io ''desk'' (fst ?r) = (fst (match_token ex_sha ex_io ''desk'' (fst ?r)), Some (effective ex_file ! 2))"
    using k(4) by (simp add: prod_eq_iff)
  from revoked_key_stays_out [OF ex_file_reachable k(1,2) surjective_pairing k(3) rtranclp.rtrancl_refl m]
  show ?thesis unfolding k(5) .
qed


theorem failures_linger_witness:
  "snd (load_tokens ex_io (fst (load_tokens (ex_io\<lparr>io_stat := False\<rparr>) ex_keyed))) = Some StatFailed \<and>
   tf_disk (fst (revoke_token ex_io 8 ''box'' (fst (revoke_token (ex_io\<lparr>io_write := False\<rparr>) 7 ''box'' ex_keyed)))) = tf_disk ex_keyed"
proof -
  have "tf_disk ex_keyed = OnDisk 1 (Some (tf_tokens ex_keyed))" "tf_loaded ex_keyed" "tf_seen ex_keyed = Some 1" by code_simp+
  then have s: "settled ex_keyed" by (simp add: settled_def)
  have k: "tf_err ex_keyed = None" "ex_key \<in> set (tf_tokens ex_keyed)" "distinct (map at_name (tf_tokens ex_keyed))"
    "at_revoked ex_key = None" "io_stat ex_io" "at_name ex_key = ''box''" by code_simp+
  show ?thesis
    using failures_linger [OF s k(1-5), of "ex_io\<lparr>io_stat := False\<rparr>"] failures_linger [OF s k(1-5), of "ex_io\<lparr>io_write := False\<rparr>" 7 8] k(5,6)
    by (simp add: ex_io_def)
qed

section \<open>Sixty-one exchanges\<close>

text \<open>An exchange a minute, the file put back each time: the sixty-first is allowed, an hour after the first.\<close>

definition ex_minute :: "int \<Rightarrow> int" where
  "ex_minute n = 60 * second_ns * n"

definition ex_reset :: "token_file \<Rightarrow> token_file" where
  "ex_reset f = f\<lparr>tf_disk := OnDisk (if tf_seen f = Some 1 then 0 else 1) (Some [ex_key])\<rparr>"

fun ex_spin :: "int list \<Rightarrow> token_file \<Rightarrow> bool" where
  "ex_spin [] f = True"
| "ex_spin (n # ns) f =
     (case exchange ex_sha ex_io (ex_minute n) (ex_mint ''tok'' ''1'') ''key'' '''' (ex_reset f) of
        (f1, Inl _) \<Rightarrow> False
      | (f1, Inr _) \<Rightarrow>
          (case snd (match_token ex_sha ex_io ''key'' (ex_reset f)) of None \<Rightarrow> False | Some k \<Rightarrow> at_name k = ''box'') \<and> ex_spin ns f1)"

lemma ex_spin_run:
  "exchange_run ex_sha f log t0 \<Longrightarrow> ex_spin ns f \<Longrightarrow> sorted ns \<Longrightarrow> \<forall>n \<in> set ns. t0 \<le> ex_minute n \<Longrightarrow>
    \<exists>f1 t. exchange_run ex_sha f1 (log @ map (\<lambda>n. (''box'', ex_minute n)) ns) t"
proof (induction ns arbitrary: f log t0)
  case (Cons n ns)
  obtain f1 x k where e: "exchange ex_sha ex_io (ex_minute n) (ex_mint ''tok'' ''1'') ''key'' '''' (ex_reset f) = (f1, Inr x)"
    "snd (match_token ex_sha ex_io ''key'' (ex_reset f)) = Some k" "at_name k = ''box''" "ex_spin ns f1"
    using Cons.prems(2) by (auto split: prod.splits sum.splits option.splits)
  have "exchange_run ex_sha (ex_reset f) log t0" unfolding ex_reset_def by (rule run_edit [OF Cons.prems(1)])
  then have "exchange_run ex_sha f1 (log @ [(at_name k, ex_minute n)]) (ex_minute n)"
    using run_exchange [OF _ _ e(1,2)] Cons.prems(4) by simp
  moreover have "\<forall>m \<in> set ns. ex_minute n \<le> ex_minute m" using Cons.prems(3) by (simp add: ex_minute_def second_ns_def)
  ultimately show ?case using Cons.IH [OF _ e(4)] Cons.prems(3) e(3) by fastforce
qed auto

theorem exchanges_spaced_witness: "one_hour \<le> ex_minute 60 - ex_minute 0"
proof -
  have k: "exchange_run ex_sha ex_keyed [] 0"
    unfolding ex_keyed_def ex_opened_def by (rule run_plain [OF run_open own_key])
  have s: "ex_spin [0..60] ex_keyed" by code_simp
  obtain f t where r: "exchange_run ex_sha f (map (\<lambda>n. (''box'', ex_minute n)) [0..60]) t"
    using ex_spin_run [OF k s] by (auto simp: ex_minute_def second_ns_def)
  have l: "times_of ''box'' (map (\<lambda>n. (''box'', ex_minute n)) [0..60]) = map ex_minute [0..60]"
    by (simp add: times_of_def comp_def)
  from exchanges_spaced [OF r, of 0 "''box''"] show ?thesis unfolding l by (simp add: nth_map)
qed

section \<open>A login\<close>

definition ex_draws :: "nat \<Rightarrow> mint_draw" where
  "ex_draws i = ex_mint ''raw'' ''''"

definition ex_create :: "nat \<Rightarrow> string \<Rightarrow> string \<Rightarrow> string list \<Rightarrow> token_file \<Rightarrow> token_file \<times> (auth_error + string)" where
  "ex_create i = create_token ex_sha ((\<lambda>_. ex_io) i) 10 (ex_draws i)"

definition ex_flow :: device_flow where
  "ex_flow = fst (start_login 10 \<lparr>dw_device = ''dc'', dw_users = [''BCDFGHJK'']\<rparr> '' laptop '' [] (new_flow 0 0))"

text \<open>The machine in the container, which runs on the exchanged token.\<close>

definition ex_container :: principal where
  "ex_container = \<lparr>pr_name = ''box@pc-1'', pr_account_id = ''alice'', pr_projects = [''p'']\<rparr>"

definition ex_approved :: "device_flow \<times> token_file \<times> (dev_error + approval)" where
  "ex_approved = approve_login ex_create 20 ''bcdf-ghjk'' ex_container '''' [] ex_flow ex_file"

definition ex_approval :: approval where
  "ex_approval = \<lparr>av_user_code = ''BCDF-GHJK'', av_name = ''laptop'', av_account_id = ''alice'', av_projects = [''p'']\<rparr>"

lemma ex_approved_eq: "ex_approved = (fst ex_approved, fst (snd ex_approved), Inr ex_approval)"
proof -
  have "snd (snd ex_approved) = Inr ex_approval" by code_simp
  then show ?thesis by (simp add: prod_eq_iff)
qed

lemma ex_flow_run: "login_run ex_create ex_flow [] [] []"
  unfolding ex_flow_def by (rule lr_start [OF lr_new]) (simp add: new_flow_def)

lemma ex_approved_run: "login_run ex_create (fst ex_approved) [(''dc'', ex_container, ex_approval)] [] []"
proof -
  have c: "code_named ex_flow ''bcdf-ghjk'' = ''dc''" by code_simp
  show ?thesis using lr_approve [OF ex_flow_run ex_approved_eq [unfolded ex_approved_def]]
    by (simp add: c ex_approved_def)
qed

theorem login_codes_agree_witness:
  "om_get (df_by_device ex_flow) ''dc'' = Some 0 \<and> om_get (df_by_user ex_flow) (dr_user_code (df_requests ex_flow ! 0)) = Some 0"
proof -
  have "om_get (df_by_device ex_flow) ''dc'' = Some 0" by code_simp
  then show ?thesis using login_codes_agree [OF ex_flow_run] by blast
qed

theorem token_handed_over_once_witness:
  "lk_name (dr_link (df_requests (fst ex_approved) ! 0)) = ''laptop'' \<and>
   poll_login 40 ''dc'' (fst (poll_login 30 ''dc'' (fst ex_approved))) = (fst (poll_login 30 ''dc'' (fst ex_approved)), Inl InvalidGrant)"
proof -
  let ?p = "poll_login 30 ''dc'' (fst ex_approved)" and ?l = "dr_link (df_requests (fst ex_approved) ! 0)"
  have "snd ?p = Inr ?l" by code_simp
  then have "?p = (fst ?p, Inr ?l)" by (simp add: prod_eq_iff)
  from lr_poll [OF ex_approved_run this]
  have r: "login_run ex_create (fst ?p) [(''dc'', ex_container, ex_approval)] [] [(''dc'', ?l)]" by simp
  show ?thesis using token_handed_over_once [OF r, of 40] by (simp add: ex_approval_def)
qed


theorem device_token_outlives_key_witness:
  "\<exists>i q. om_get (df_by_user ex_flow) ''BCDFGHJK'' = Some i \<and>
    snd (token_lookup ex_sha ex_io 90000000000000000000 (lk_token (dr_link (df_requests (fst ex_approved) ! i)))
      (fst (revoke_token ex_io 50 ''box'' (fst (snd ex_approved))))) = Some q \<and> ''alice'' = pr_account_id q"
proof -
  let ?r = "revoke_token ex_io 50 (at_name ex_key) (fst (snd ex_approved))"
  let ?m = "match_token ex_sha ex_io ''tok'' ex_file" and ?l = "token_lookup ex_sha ex_io 8 ''tok'' ex_file"
  have n: "normalize_code ''bcdf-ghjk'' = ''BCDFGHJK''" "pr_account_id ex_container = ''alice''" "at_name ex_key = ''box''"
    "ex_key \<in> set (effective ex_file)" "at_kind ex_key = kind_environment" "snd ?m = Some (tf_tokens ex_file ! 1)"
    "at_parent (tf_tokens ex_file ! 1) = at_name ex_key" "snd ?l = Some ex_container" "snd ?r = None"
    "snd (load_tokens ex_io (fst ?r)) = None" by code_simp+
  have f: "load_tokens ex_io ex_file = (ex_file, None)" by code_simp
  have m: "?m = (ex_file, Some (tf_tokens ex_file ! 1))"
    using n(6) f by (simp add: match_token_def)
  have l: "?l = (ex_file, Some ex_container)" using n(8) m by (simp add: token_lookup_def split: if_splits)
  have r: "?r = (fst ?r, None)" "load_tokens ex_io (fst ?r) = (fst (load_tokens ex_io (fst ?r)), None)"
    using n(9,10) by (simp_all add: prod_eq_iff)
  have c: "ex_create = (\<lambda>i. create_token ex_sha ((\<lambda>_. ex_io) i) 10 (ex_draws i))" by (rule ext) (simp add: ex_create_def)
  have d: "mt_raw (ex_draws i) \<noteq> ''''" for i by (simp add: ex_draws_def ex_mint_def)
  from device_token_outlives_key [OF ex_flow_run [unfolded c] ex_file_reachable d n(4,5) m n(7) l
      trans [OF ex_approved_def [unfolded c, symmetric] ex_approved_eq] r, of 90000000000000000000]
  show ?thesis using n(1-3) by simp
qed

end
