(* ===== verification/Index_Layers.thy ===== *)
theory Index_Layers
  imports Code_Store Code_Graph
begin

text \<open>
  Which trees of the code store make up the layers of the code graph (\<open>codeindex/layers.go\<close>): the base,
  a layer for every pushed commit a checkout sits on, an overlay for every checkout; and the
  writes that lead from one selection to the next.

  A Go map is listed in the order of its keys: every loop over one here writes under the key it
  reads or takes a maximum, so its order does not matter. The files of a layer are ordered by path,
  each path once, where a binary search finds what a scan finds.
\<close>

section \<open>Trees and selections\<close>

record tree_state =
  ts_worktree :: string
  ts_ref :: string
  ts_owner :: string
  ts_head :: string
  ts_upstream :: string
  ts_upstream_seq :: int
  ts_seq :: int

type_synonym tree_key = "string \<times> string"

definition state_key :: "tree_state \<Rightarrow> tree_key" where
  "state_key t = (ts_worktree t, ts_ref t)"

record source_tree =
  so_worktree :: worktree
  so_state :: tree_state
  so_entries :: "code_entry list"

record file_source =
  fs_path :: string
  fs_sha :: string
  fs_git_oid :: string
  fs_lang :: string
  fs_mode :: string
  fs_size :: int
  fs_session :: string
  fs_deleted :: bool

definition same_file :: "file_source \<Rightarrow> file_source \<Rightarrow> bool" where
  "same_file a b \<longleftrightarrow> fs_sha a = fs_sha b \<and> fs_git_oid a = fs_git_oid b \<and> fs_deleted a = fs_deleted b"

definition removed_file :: "string \<Rightarrow> file_source" where
  "removed_file p =
     \<lparr>fs_path = p, fs_sha = '''', fs_git_oid = '''', fs_lang = '''', fs_mode = '''', fs_size = 0, fs_session = '''', fs_deleted = True\<rparr>"

record layer_plan =
  lp_layer :: layer
  lp_sources :: "tree_key list"
  lp_files :: "file_source list"

definition lp_file :: "layer_plan \<Rightarrow> string \<Rightarrow> file_source option" where
  "lp_file l p = find (\<lambda>f. fs_path f = p) (lp_files l)"

definition lp_id :: "layer_plan \<Rightarrow> string" where
  "lp_id l = ly_id (lp_layer l)"

record layer_selection =
  pn_default :: string
  pn_layers :: "layer_plan list"

definition no_selection :: layer_selection where
  "no_selection = \<lparr>pn_default = '''', pn_layers = []\<rparr>"

definition plan_layer :: "layer_selection \<Rightarrow> string \<Rightarrow> layer_plan option" where
  "plan_layer p i = find (\<lambda>l. lp_id l = i) (pn_layers p)"

definition layers_by_id :: "layer_selection \<Rightarrow> (string, layer_plan) omap" where
  "layers_by_id p = fold (\<lambda>l. om_put (lp_id l) l) (pn_layers p) []"

text \<open>The layers below a layer, collected upwards; a chain without a cycle is not longer than the selection.\<close>

fun view_chain :: "nat \<Rightarrow> (string, layer_plan) omap \<Rightarrow> string \<Rightarrow> string list \<Rightarrow> graph_error + string list" where
  "view_chain 0 m cur chain = Inl GraphInvalid"
| "view_chain (Suc n) m cur chain =
     (if cur = '''' then Inr chain
      else
        (case om_get m cur of
           None \<Rightarrow> Inl GraphNotFound
         | Some l \<Rightarrow>
             if cur \<in> set chain then Inl GraphInvalid
             else view_chain n m (ly_parent (lp_layer l)) (chain @ [cur])))"

definition plan_view :: "layer_selection \<Rightarrow> string \<Rightarrow> graph_error + view" where
  "plan_view p i =
     (case view_chain (Suc (Suc (length (pn_layers p)))) (layers_by_id p) i [] of
        Inl e \<Rightarrow> Inl e
      | Inr chain \<Rightarrow> if view_ok (rev chain) then Inr (rev chain) else Inl GraphInvalid)"

definition layer_rank :: "string \<Rightarrow> nat" where
  "layer_rank kind = (if kind = ''base'' then 0 else if kind = ''branch'' then 1 else 2)"

definition sort_layers :: "layer_plan list \<Rightarrow> layer_plan list" where
  "sort_layers ls = sort_key (\<lambda>l. (layer_rank (ly_kind (lp_layer l)), lp_id l)) ls"

section \<open>What a tree says of the pushed commit\<close>

definition is_github :: "source_tree \<Rightarrow> bool" where
  "is_github t \<longleftrightarrow> wt_source (so_worktree t) = ''github''"

definition pushed_commit :: "source_tree \<Rightarrow> string" where
  "pushed_commit t =
     (if ts_upstream (so_state t) \<noteq> '''' then ts_upstream (so_state t)
      else if is_github t then ts_head (so_state t) else '''')"

definition newer :: "source_tree \<Rightarrow> source_tree \<Rightarrow> bool" where
  "newer a b \<longleftrightarrow>
     (let x = so_state a; y = so_state b
      in if ts_upstream_seq x \<noteq> ts_upstream_seq y then ts_upstream_seq y < ts_upstream_seq x
         else if ts_seq x \<noteq> ts_seq y then ts_seq y < ts_seq x
         else wt_id (so_worktree a) < wt_id (so_worktree b))"

definition om_count :: "(string, nat) omap \<Rightarrow> string \<Rightarrow> nat" where
  "om_count m k = (case om_get m k of None \<Rightarrow> 0 | Some n \<Rightarrow> n)"

definition count_one :: "string \<Rightarrow> (string, nat) omap \<Rightarrow> (string, nat) omap" where
  "count_one k m = om_put k (Suc (om_count m k)) m"

definition argmax :: "(string, nat) omap \<Rightarrow> string" where
  "argmax m = fst (fold (\<lambda>(k, c) (best, n). if n < c \<or> (c = n \<and> k < best) then (k, c) else (best, n)) m ('''', 0))"

datatype pushed_state = PushUnknown | PushPresent | PushAbsent

record path_knowledge =
  kn_oids :: "(string, nat) omap"
  kn_blobs :: "(string, (string, nat) omap) omap"
  kn_sample :: "(string, code_entry) omap"
  kn_absents :: nat
  kn_unknown :: nat

definition no_knowledge :: path_knowledge where
  "no_knowledge = \<lparr>kn_oids = [], kn_blobs = [], kn_sample = [], kn_absents = 0, kn_unknown = 0\<rparr>"

definition sample_once :: "string \<Rightarrow> code_entry \<Rightarrow> (string, code_entry) omap \<Rightarrow> (string, code_entry) omap" where
  "sample_once k e m = (if om_get m k = None then om_put k e m else m)"

definition blobs_of :: "path_knowledge \<Rightarrow> string \<Rightarrow> (string, nat) omap" where
  "blobs_of k oid = (case om_get (kn_blobs k) oid of None \<Rightarrow> [] | Some m \<Rightarrow> m)"

definition oid_blob_key :: "string \<Rightarrow> string \<Rightarrow> string" where
  "oid_blob_key oid sha = oid @ CHR 0x00 # sha"

definition know_entry :: "code_entry \<Rightarrow> path_knowledge \<Rightarrow> path_knowledge" where
  "know_entry e k =
     (if en_unpushed e then k\<lparr>kn_unknown := Suc (kn_unknown k)\<rparr>
      else if en_git_oid e = '''' then k\<lparr>kn_absents := Suc (kn_absents k)\<rparr>
      else
        (let oid = en_git_oid e;
             k1 = k\<lparr>kn_oids := count_one oid (kn_oids k), kn_sample := sample_once oid e (kn_sample k)\<rparr>
         in if \<not> en_dirty e \<and> en_sha e \<noteq> ''''
            then k1\<lparr>kn_blobs := om_put oid (count_one (en_sha e) (blobs_of k1 oid)) (kn_blobs k1),
                    kn_sample := sample_once (oid_blob_key oid (en_sha e)) e (kn_sample k1)\<rparr>
            else k1))"

definition know_path :: "code_entry \<Rightarrow> (string, path_knowledge) omap \<Rightarrow> (string, path_knowledge) omap" where
  "know_path e m =
     om_put (en_path e) (know_entry e (case om_get m (en_path e) of None \<Rightarrow> no_knowledge | Some k \<Rightarrow> k)) m"

definition pushed_knowledge :: "source_tree list \<Rightarrow> (string, path_knowledge) omap" where
  "pushed_knowledge src = fold (\<lambda>t. fold know_path (so_entries t)) src []"

definition no_entry :: code_entry where
  "no_entry = \<lparr>en_path = '''', en_sha = '''', en_size = 0, en_mode = '''', en_lang = '''', en_git_oid = '''',
     en_dirty = False, en_unpushed = False, en_session = ''''\<rparr>"

definition sampled :: "path_knowledge \<Rightarrow> string \<Rightarrow> code_entry" where
  "sampled k x = (case om_get (kn_sample k) x of None \<Rightarrow> no_entry | Some e \<Rightarrow> e)"

definition resolve_path :: "string \<Rightarrow> path_knowledge \<Rightarrow> file_source option \<times> pushed_state" where
  "resolve_path p k =
     (if kn_oids k \<noteq> [] then
        (let oid = argmax (kn_oids k); sha = argmax (blobs_of k oid);
             e = sampled k (if sha \<noteq> '''' then oid_blob_key oid sha else oid)
         in (Some \<lparr>fs_path = p, fs_sha = sha, fs_git_oid = oid, fs_lang = en_lang e, fs_mode = en_mode e,
                   fs_size = (if sha \<noteq> '''' then en_size e else 0), fs_session = '''', fs_deleted = False\<rparr>, PushPresent))
      else if 0 < kn_unknown k then (None, PushUnknown)
      else (None, PushAbsent))"

section \<open>The selection\<close>

definition tree_order :: "source_tree \<Rightarrow> string \<times> string" where
  "tree_order t = (wt_id (so_worktree t), ts_ref (so_state t))"

definition live_tree :: "source_tree \<Rightarrow> bool" where
  "live_tree t \<longleftrightarrow> \<not> (wt_removed (so_worktree t) \<or> wt_id (so_worktree t) = '''' \<or> ts_ref (so_state t) = '''' \<or> so_entries t = [])"

definition live_trees :: "source_tree list \<Rightarrow> source_tree list" where
  "live_trees ts = sort_key tree_order (filter live_tree ts)"

fun branch_votes :: "source_tree list \<Rightarrow> string list \<Rightarrow> (string, nat) omap \<Rightarrow> (string, nat) omap" where
  "branch_votes [] seen votes = votes"
| "branch_votes (t # ts) seen votes =
     (let w = so_worktree t
      in if wt_id w \<in> set seen \<or> wt_default_branch w = '''' then branch_votes ts seen votes
         else branch_votes ts (wt_id w # seen) (count_one (wt_default_branch w) votes))"

definition default_branch :: "source_tree list \<Rightarrow> string" where
  "default_branch live =
     (case find (\<lambda>t. is_github t \<and> wt_default_branch (so_worktree t) \<noteq> '''') live of
        Some t \<Rightarrow> wt_default_branch (so_worktree t)
      | None \<Rightarrow> argmax (branch_votes live [] []))"

definition base_sources :: "source_tree list \<Rightarrow> string \<Rightarrow> source_tree list \<times> string" where
  "base_sources live def =
     (if def = '''' then ([], '''')
      else
        (let at = filter (\<lambda>t. \<not> (ts_ref (so_state t) \<noteq> def \<or> pushed_commit t = '''')) live;
             gh = filter is_github at; client = filter (\<lambda>t. \<not> is_github t) at;
             cands = (if gh \<noteq> [] then gh else client)
         in case cands of
              [] \<Rightarrow> ([], '''')
            | c # cs \<Rightarrow>
                (let best = fold (\<lambda>t best. if newer t best then t else best) cs c; commit = pushed_commit best
                 in if gh \<noteq> [] then ([best], commit) else (filter (\<lambda>t. pushed_commit t = commit) cands, commit))))"

type_synonym files = "(string, file_source) omap"

definition base_files_of :: "source_tree list \<Rightarrow> files" where
  "base_files_of src =
     fold (\<lambda>(p, k) m. case resolve_path p k of (Some f, PushPresent) \<Rightarrow> om_put p f m | _ \<Rightarrow> m) (pushed_knowledge src) []"

definition branch_file :: "files \<Rightarrow> string \<times> path_knowledge \<Rightarrow> files \<Rightarrow> files" where
  "branch_file base pk m =
     (case pk of (p, k) \<Rightarrow>
        (case resolve_path p k of
           (Some f, PushPresent) \<Rightarrow>
             (case om_get base p of
                None \<Rightarrow> om_put p f m
              | Some b \<Rightarrow> if fs_git_oid b \<noteq> fs_git_oid f then om_put p f m else m)
         | (_, PushAbsent) \<Rightarrow> if om_get base p \<noteq> None then om_put p (removed_file p) m else m
         | _ \<Rightarrow> m))"

definition branch_files :: "files \<Rightarrow> source_tree list \<Rightarrow> files" where
  "branch_files base ts =
     (let know = pushed_knowledge ts
      in fold (\<lambda>p m. if om_get know p = None then om_put p (removed_file p) m else m) (om_keys base)
           (fold (branch_file base) know []))"

definition stack :: "files \<Rightarrow> files \<Rightarrow> files" where
  "stack lower upper = fold (\<lambda>(p, f) m. if fs_deleted f then om_del p m else om_put p f m) upper lower"

definition sorted_files :: "files \<Rightarrow> file_source list" where
  "sorted_files m = sort_key fs_path (map snd m)"

definition tree_keys :: "source_tree list \<Rightarrow> tree_key list" where
  "tree_keys ts = map (\<lambda>t. state_key (so_state t)) ts"

definition group_step ::
    "string \<Rightarrow> source_tree \<Rightarrow> (string \<times> string, source_tree list) omap \<Rightarrow> (string \<times> string, source_tree list) omap" where
  "group_step def t m =
     (if def \<noteq> '''' \<and> ts_ref (so_state t) = def then m
      else
        (let c = pushed_commit t; k = (ts_ref (so_state t), c)
         in if c \<noteq> '''' then om_put k ((case om_get m k of None \<Rightarrow> [] | Some ts \<Rightarrow> ts) @ [t]) m else m))"

definition branch_groups :: "string \<Rightarrow> source_tree list \<Rightarrow> (string \<times> string, source_tree list) omap" where
  "branch_groups def live = fold (group_step def) live []"

definition group_sources :: "source_tree list \<Rightarrow> source_tree list" where
  "group_sources ts = (let gh = filter is_github ts in if gh \<noteq> [] then gh else ts)"

definition branch_plan :: "string \<Rightarrow> files \<Rightarrow> (string \<times> string) \<times> source_tree list \<Rightarrow> (layer_plan \<times> files) option" where
  "branch_plan parent base g =
     (case g of ((ref, c), ts0) \<Rightarrow>
        (let i = branch_layer ref c; ts = group_sources ts0
         in if \<not> layer_id_ok i then None
            else
              (let fs = branch_files base ts
               in Some (\<lparr>lp_layer = \<lparr>ly_id = i, ly_kind = ''branch'', ly_parent = parent, ly_owner = '''', ly_ref = ref,
                            ly_commit = c, ly_updated = 0\<rparr>,
                         lp_sources = tree_keys ts, lp_files = sorted_files fs\<rparr>, stack base fs))))"

definition branch_plans :: "string \<Rightarrow> string \<Rightarrow> files \<Rightarrow> source_tree list \<Rightarrow> (layer_plan \<times> files) list" where
  "branch_plans def parent base live = List.map_filter (branch_plan parent base) (branch_groups def live)"

definition visible_on :: "(layer_plan \<times> files) list \<Rightarrow> string \<Rightarrow> files option" where
  "visible_on bs i = om_get (fold (\<lambda>(l, v). om_put (lp_id l) v) bs []) i"

definition entry_source :: "code_entry \<Rightarrow> file_source" where
  "entry_source e =
     \<lparr>fs_path = en_path e, fs_sha = en_sha e, fs_git_oid = en_git_oid e, fs_lang = en_lang e, fs_mode = en_mode e,
      fs_size = en_size e, fs_session = en_session e, fs_deleted = False\<rparr>"

definition overlay_files :: "files \<Rightarrow> code_entry list \<Rightarrow> files" where
  "overlay_files below es =
     fold (\<lambda>p m. if p \<notin> set (map en_path es) then om_put p (removed_file p) m else m) (om_keys below)
       (fold (\<lambda>e m. if en_dirty e \<or> en_unpushed e then om_put (en_path e) (entry_source e) m else m) es [])"

definition overlay_below ::
    "string \<Rightarrow> string \<Rightarrow> files \<Rightarrow> (layer_plan \<times> files) list \<Rightarrow> source_tree \<Rightarrow> string \<times> files" where
  "overlay_below def parent base bs t =
     (let ref = ts_ref (so_state t); c = pushed_commit t
      in if (def = '''' \<or> ref \<noteq> def) \<and> c \<noteq> '''' then
           (case visible_on bs (branch_layer ref c) of
              Some v \<Rightarrow> (branch_layer ref c, v)
            | None \<Rightarrow> (parent, base))
         else (parent, base))"

definition overlay_plan ::
    "string \<Rightarrow> string \<Rightarrow> files \<Rightarrow> (layer_plan \<times> files) list \<Rightarrow> source_tree \<Rightarrow> layer_plan option" where
  "overlay_plan def parent base bs t =
     (let st = so_state t; w = so_worktree t; i = worktree_layer (wt_id w) (ts_ref st)
      in if is_github t \<or> \<not> layer_id_ok i then None
         else
           (case overlay_below def parent base bs t of (par, below) \<Rightarrow>
              Some \<lparr>lp_layer = \<lparr>ly_id = i, ly_kind = ''wt'', ly_parent = par,
                      ly_owner = (if wt_owner w = '''' then ts_owner st else wt_owner w), ly_ref = ts_ref st,
                      ly_commit = ts_head st, ly_updated = 0\<rparr>,
                    lp_sources = [state_key st], lp_files = sorted_files (overlay_files below (so_entries t))\<rparr>))"

definition base_plan :: "string \<Rightarrow> source_tree list \<Rightarrow> layer_plan option" where
  "base_plan def live =
     (case base_sources live def of (src, c) \<Rightarrow>
        if src = [] then None
        else Some \<lparr>lp_layer = \<lparr>ly_id = base_layer, ly_kind = ''base'', ly_parent = '''', ly_owner = '''', ly_ref = def,
                     ly_commit = c, ly_updated = 0\<rparr>,
                   lp_sources = tree_keys src, lp_files = sorted_files (base_files_of src)\<rparr>)"

definition select :: "source_tree list \<Rightarrow> layer_selection" where
  "select trees =
     (let live = live_trees trees; def = default_branch live; b = base_plan def live;
          base = (case b of None \<Rightarrow> [] | Some _ \<Rightarrow> base_files_of (fst (base_sources live def)));
          parent = (case b of None \<Rightarrow> '''' | Some l \<Rightarrow> lp_id l);
          bs = branch_plans def parent base live;
          os = List.map_filter (overlay_plan def parent base bs) live
      in \<lparr>pn_default = def,
          pn_layers = sort_layers ((case b of None \<Rightarrow> [] | Some l \<Rightarrow> [l]) @ map fst bs @ os)\<rparr>)"

section \<open>From one selection to the next\<close>

record layer_delta =
  ld_layer :: layer
  ld_new :: bool
  ld_put :: "file_source list"
  ld_remove :: "string list"

record delta =
  dl_layers :: "layer_delta list"
  dl_dropped :: "string list"

definition delta_empty :: "delta \<Rightarrow> bool" where
  "delta_empty d \<longleftrightarrow> dl_layers d = [] \<and> dl_dropped d = []"

definition same_layer :: "layer \<Rightarrow> layer \<Rightarrow> bool" where
  "same_layer a b \<longleftrightarrow> ly_id a = ly_id b \<and> ly_kind a = ly_kind b \<and> ly_parent a = ly_parent b \<and>
     ly_owner a = ly_owner b \<and> ly_ref a = ly_ref b \<and> ly_commit a = ly_commit b"

definition layer_diff :: "layer_plan option \<Rightarrow> layer_plan \<Rightarrow> layer_delta" where
  "layer_diff old l =
     \<lparr>ld_layer = lp_layer l, ld_new = (old = None),
      ld_put = filter (\<lambda>f. case Option.bind old (\<lambda>l. lp_file l (fs_path f)) of None \<Rightarrow> True | Some g \<Rightarrow> \<not> same_file g f) (lp_files l),
      ld_remove = (case old of None \<Rightarrow> [] | Some ol \<Rightarrow> map fs_path (filter (\<lambda>f. lp_file l (fs_path f) = None) (lp_files ol)))\<rparr>"

definition layer_moved :: "layer_plan option \<Rightarrow> layer_delta \<Rightarrow> bool" where
  "layer_moved old ld \<longleftrightarrow>
     ld_new ld \<or> (case old of None \<Rightarrow> True | Some ol \<Rightarrow> \<not> same_layer (lp_layer ol) (ld_layer ld)) \<or> ld_put ld \<noteq> [] \<or> ld_remove ld \<noteq> []"

definition diff :: "layer_selection \<Rightarrow> layer_selection \<Rightarrow> delta" where
  "diff prev next =
     (let old = layers_by_id prev; kept = map lp_id (pn_layers next)
      in \<lparr>dl_layers = List.map_filter
             (\<lambda>l. let ol = om_get old (lp_id l); ld = layer_diff ol l in if layer_moved ol ld then Some ld else None) (pn_layers next),
          dl_dropped = rev (map lp_id (sort_layers (filter (\<lambda>l. lp_id l \<notin> set kept) (pn_layers prev))))\<rparr>)"

end
