(* ===== verification/Index_Facts.thy ===== *)
theory Index_Facts
  imports Index_Layers
begin

text \<open>
  Facts on the selection of layers (\<open>codeindex/layers.go\<close>): what a path is in the base, in a branch
  layer and in an overlay, and which ids the layers have.
\<close>

section \<open>Maps of files\<close>

definition files_wf :: "files \<Rightarrow> bool" where
  "files_wf m \<longleftrightarrow> omap_wf m \<and> (\<forall>p f. om_get m p = Some f \<longrightarrow> fs_path f = p)"

lemma files_wfD: "files_wf m \<Longrightarrow> omap_wf m" "files_wf m \<Longrightarrow> om_get m p = Some f \<Longrightarrow> fs_path f = p"
  by (simp_all add: files_wf_def)

lemma files_wf_Nil [simp]: "files_wf []"
  by (simp add: files_wf_def)

lemma files_wf_put [simp]: "files_wf m \<Longrightarrow> fs_path f = p \<Longrightarrow> files_wf (om_put p f m)"
  by (auto simp: files_wf_def om_put_wf)

lemma files_wf_del: "files_wf m \<Longrightarrow> files_wf (om_del p m)"
  by (auto simp: files_wf_def om_del_wf)

lemma files_wf_paths: "files_wf m \<Longrightarrow> map fs_path (map snd m) = om_keys m"
  unfolding om_keys_def by (auto simp: files_wf_def om_get_iff)

lemma sorted_files_id:
  assumes "files_wf m"
  shows "sorted_files m = map snd m"
proof -
  have "sorted (map fs_path (map snd m))"
    using files_wf_paths [OF assms] om_keys_wf [OF files_wfD(1) [OF assms]] strict_sorted_imp_sorted by metis
  then show ?thesis unfolding sorted_files_def by (rule sort_key_id_if_sorted)
qed

lemma sorted_files_paths: "files_wf m \<Longrightarrow> sorted_wrt (<) (map fs_path (sorted_files m))"
  using files_wf_paths om_keys_wf files_wfD(1) sorted_files_id by metis

lemma find_sorted_files:
  assumes "files_wf m"
  shows "find (\<lambda>f. fs_path f = p) (sorted_files m) = om_get m p"
proof -
  have "find (\<lambda>f. fs_path f = p) (map snd xs) = map_of xs p" if "\<forall>(k, f) \<in> set xs. fs_path f = k" for xs :: files
    using that by (induction xs) auto
  moreover have "\<forall>(k, f) \<in> set m. fs_path f = k" using assms by (auto simp: files_wf_def om_get_iff)
  ultimately show ?thesis using assms by (simp add: sorted_files_id om_get_def)
qed

text \<open>Writing what a function gives for the entries of a map.\<close>

definition put_opt :: "string \<Rightarrow> 'a option \<Rightarrow> (string, 'a) omap \<Rightarrow> (string, 'a) omap" where
  "put_opt p v m = (case v of None \<Rightarrow> m | Some x \<Rightarrow> om_put p x m)"

lemma put_opt_get [simp]: "om_get (put_opt p v m) q = (if q = p \<and> v \<noteq> None then v else om_get m q)"
  by (auto simp: put_opt_def split: option.splits)

lemma fold_put_opt_get:
  "distinct (map fst xs) \<Longrightarrow> om_get (fold (\<lambda>(p, k). put_opt p (g p k)) xs m) q =
    (case map_of xs q of None \<Rightarrow> om_get m q | Some k \<Rightarrow> if g q k \<noteq> None then g q k else om_get m q)"
proof (induction xs arbitrary: m)
  case (Cons x xs)
  obtain p k where x: "x = (p, k)" by (cases x)
  then have "map_of xs p = None" using Cons.prems by (simp add: map_of_eq_None_iff)
  then show ?case using Cons x by (auto split: option.split)
qed simp

lemma fold_put_opt_wf:
  "(\<And>p k f. g p k = Some f \<Longrightarrow> fs_path f = p) \<Longrightarrow> files_wf m \<Longrightarrow> files_wf (fold (\<lambda>(p, k). put_opt p (g p k)) xs m)"
proof (induction xs arbitrary: m)
  case (Cons x xs)
  obtain p k where x: "x = (p, k)" by (cases x)
  have "files_wf (put_opt p (g p k) m)"
    using Cons.prems by (cases "g p k") (auto simp: put_opt_def intro: files_wf_put)
  then show ?case using Cons x by simp
qed simp

lemma fold_removed_get:
  "om_get (fold (\<lambda>p m. if C p then om_put p (removed_file p) m else m) ps m) q =
    (if q \<in> set ps \<and> C q then Some (removed_file q) else om_get m q)"
  by (induction ps arbitrary: m) auto

lemma om_keys_get: "p \<in> set (om_keys m) \<longleftrightarrow> om_get m p \<noteq> None"
  by (simp add: om_keys_def om_get_None)

lemma removed_file_simps [simp]: "fs_path (removed_file p) = p" "fs_deleted (removed_file p)"
  by (simp_all add: removed_file_def)

lemma fold_removed_wf:
  "files_wf m \<Longrightarrow> files_wf (fold (\<lambda>p m. if C p then om_put p (removed_file p) m else m) ps m)"
  by (induction ps arbitrary: m) auto

section \<open>What the trees know of a path\<close>

lemma know_path_fold:
  "om_get (fold know_path es m) p =
    (case filter (\<lambda>e. en_path e = p) es of
       [] \<Rightarrow> om_get m p
     | xs \<Rightarrow> Some (fold know_entry xs (case om_get m p of None \<Rightarrow> no_knowledge | Some k \<Rightarrow> k)))"
proof (induction es arbitrary: m)
  case (Cons e es)
  show ?case unfolding fold_Cons comp_def Cons.IH by (cases "filter (\<lambda>e. en_path e = p) es") (auto simp: know_path_def)
qed simp

lemma pushed_knowledge_concat: "pushed_knowledge src = fold know_path (concat (map so_entries src)) []"
proof -
  have "fold (\<lambda>t. fold know_path (so_entries t)) src m = fold know_path (concat (map so_entries src)) m" for m
    by (induction src arbitrary: m) auto
  then show ?thesis by (simp add: pushed_knowledge_def)
qed

lemma pushed_knowledge_wf: "omap_wf (pushed_knowledge src)"
proof -
  have "omap_wf (fold know_path es m)" if "omap_wf m" for es m
    using that by (induction es arbitrary: m) (auto simp: know_path_def intro: om_put_wf)
  then show ?thesis by (simp add: pushed_knowledge_concat)
qed

lemma knowledge_get:
  "om_get (pushed_knowledge src) p =
    (case filter (\<lambda>e. en_path e = p) (concat (map so_entries src)) of [] \<Rightarrow> None | xs \<Rightarrow> Some (fold know_entry xs no_knowledge))"
  by (simp add: pushed_knowledge_concat know_path_fold split: list.split)

text \<open>When every tree that tells the pushed version of a path tells the same, that is what they know.\<close>

lemma know_entries_oids:
  "\<forall>e \<in> set es. \<not> en_unpushed e \<longrightarrow> en_git_oid e = x \<Longrightarrow> x \<noteq> '''' \<Longrightarrow>
    kn_oids k = (if n = 0 then [] else [(x, n)]) \<Longrightarrow>
    kn_oids (fold know_entry es k) =
      (let m = n + length (filter (\<lambda>e. \<not> en_unpushed e) es) in if m = 0 then [] else [(x, m)])"
proof (induction es arbitrary: k n)
  case (Cons e es)
  show ?case
  proof (cases "en_unpushed e")
    case True
    then show ?thesis using Cons.IH [of "know_entry e k" n] Cons.prems by (simp add: know_entry_def Let_def)
  next
    case False
    then have "kn_oids (know_entry e k) = [(x, Suc n)]"
      using Cons.prems by (auto simp: know_entry_def Let_def count_one_def om_count_def)
    then show ?thesis using Cons.IH [of "know_entry e k" "Suc n"] Cons.prems False by (simp add: Let_def)
  qed
qed (simp add: Let_def)

lemma argmax_one [simp]: "0 < n \<Longrightarrow> argmax [(x, n)] = x"
  by (simp add: argmax_def)

lemma resolve_path_shape:
  "resolve_path p k = (o1, st) \<Longrightarrow> (o1 = None \<longleftrightarrow> st \<noteq> PushPresent) \<and>
    (\<forall>f. o1 = Some f \<longrightarrow> fs_path f = p \<and> \<not> fs_deleted f \<and> fs_git_oid f = argmax (kn_oids k))"
  by (auto simp: resolve_path_def Let_def split: if_splits)

definition present_file :: "string \<Rightarrow> path_knowledge \<Rightarrow> file_source option" where
  "present_file p k = fst (resolve_path p k)"

lemma present_fileD: "present_file p k = Some f \<Longrightarrow> fs_path f = p \<and> \<not> fs_deleted f \<and> fs_git_oid f = argmax (kn_oids k)"
  using resolve_path_shape [of p k] by (simp add: present_file_def prod_eq_iff)

section \<open>The files of the layers\<close>

lemma base_files_fold: "base_files_of src = fold (\<lambda>(p, k). put_opt p (present_file p k)) (pushed_knowledge src) []"
proof -
  have "(case resolve_path p k of (Some f, PushPresent) \<Rightarrow> om_put p f m | _ \<Rightarrow> m) = put_opt p (present_file p k) m" for p k m
    using resolve_path_shape [of p k] by (cases "resolve_path p k") (auto simp: present_file_def put_opt_def split: option.splits pushed_state.splits)
  then show ?thesis unfolding base_files_of_def by (intro arg_cong3 [where f = fold] ext) (auto split: prod.splits)
qed

lemma base_files_wf: "files_wf (base_files_of src)"
  unfolding base_files_fold by (rule fold_put_opt_wf) (auto dest: present_fileD)

lemma base_files_get: "om_get (base_files_of src) p = Option.bind (om_get (pushed_knowledge src) p) (present_file p)"
  unfolding base_files_fold fold_put_opt_get [OF conjunct1 [OF omap_wf_distinct [OF pushed_knowledge_wf]]]
  by (auto simp: om_get_def split: option.splits)

lemma base_files_kept: "om_get (base_files_of src) p = Some f \<Longrightarrow> \<not> fs_deleted f"
  by (auto simp: base_files_get bind_eq_Some_conv dest: present_fileD)

definition branch_value :: "files \<Rightarrow> string \<Rightarrow> path_knowledge \<Rightarrow> file_source option" where
  "branch_value base p k =
     (case present_file p k of
        Some f \<Rightarrow> (case om_get base p of Some b \<Rightarrow> if fs_git_oid b = fs_git_oid f then None else Some f | None \<Rightarrow> Some f)
      | None \<Rightarrow> if snd (resolve_path p k) = PushAbsent \<and> om_get base p \<noteq> None then Some (removed_file p) else None)"

lemma branch_file_fold: "branch_file base = (\<lambda>(p, k). put_opt p (branch_value base p k))"
proof (intro ext, clarify)
  fix p k m
  show "branch_file base (p, k) m = put_opt p (branch_value base p k) m"
    using resolve_path_shape [of p k]
    by (cases "resolve_path p k") (auto simp: branch_file_def branch_value_def present_file_def put_opt_def split: option.splits pushed_state.splits)
qed

lemma branch_value_path: "branch_value base p k = Some f \<Longrightarrow> fs_path f = p"
  by (auto simp: branch_value_def split: option.splits if_splits dest: present_fileD)

lemma branch_files_wf: "files_wf (branch_files base ts)"
  unfolding branch_files_def Let_def branch_file_fold
  by (rule fold_removed_wf, rule fold_put_opt_wf) (auto dest: branch_value_path)

lemma branch_files_get:
  "om_get (branch_files base ts) p =
    (case om_get (pushed_knowledge ts) p of
       Some k \<Rightarrow> branch_value base p k
     | None \<Rightarrow> if om_get base p = None then None else Some (removed_file p))"
  unfolding branch_files_def Let_def branch_file_fold fold_removed_get
    fold_put_opt_get [OF conjunct1 [OF omap_wf_distinct [OF pushed_knowledge_wf]]]
  by (cases "om_get (pushed_knowledge ts) p") (simp_all add: om_get_def [symmetric] om_keys_get)

lemma stack_get:
  assumes "omap_wf upper"
  shows "om_get (stack lower upper) p = (case om_get upper p of None \<Rightarrow> om_get lower p | Some f \<Rightarrow> if fs_deleted f then None else Some f)"
proof -
  have "om_get (fold (\<lambda>(p, f) m. if fs_deleted f then om_del p m else om_put p f m) xs m) p =
      (case map_of xs p of None \<Rightarrow> om_get m p | Some f \<Rightarrow> if fs_deleted f then None else Some f)" if "distinct (map fst xs)" for xs :: files and m
    using that
  proof (induction xs arbitrary: m)
    case (Cons x xs)
    obtain q f where x: "x = (q, f)" by (cases x)
    then have "map_of xs q = None" using Cons.prems by (simp add: map_of_eq_None_iff)
    then show ?case using Cons x by (auto split: option.split)
  qed simp
  from this [OF conjunct1 [OF omap_wf_distinct [OF assms]]] show ?thesis by (simp add: stack_def om_get_def)
qed

text \<open>A branch's view shows the pushed version of a path, up to content of the same git blob.\<close>

lemma branch_shows:
  "om_get (stack base (branch_files base ts)) p =
    (case Option.bind (om_get (pushed_knowledge ts) p) (present_file p) of
       Some f \<Rightarrow> (case om_get base p of Some b \<Rightarrow> if fs_git_oid b = fs_git_oid f then Some b else Some f | None \<Rightarrow> Some f)
     | None \<Rightarrow> (case om_get (pushed_knowledge ts) p of
          Some k \<Rightarrow> if snd (resolve_path p k) = PushAbsent then None else om_get base p | None \<Rightarrow> None))"
  unfolding stack_get [OF files_wfD(1) [OF branch_files_wf]] branch_files_get
  by (auto simp: branch_value_def split: option.splits dest: present_fileD)

lemma overlay_files_wf: "files_wf (overlay_files below es)"
proof -
  have "files_wf (fold (\<lambda>e m. if en_dirty e \<or> en_unpushed e then om_put (en_path e) (entry_source e) m else m) es m)" if "files_wf m" for m
    using that by (induction es arbitrary: m) (auto simp: entry_source_def)
  then show ?thesis unfolding overlay_files_def by (intro fold_removed_wf) simp
qed

lemma overlay_entries_get:
  "distinct (map en_path es) \<Longrightarrow>
    om_get (fold (\<lambda>e m. if en_dirty e \<or> en_unpushed e then om_put (en_path e) (entry_source e) m else m) es m) p =
      (case find (\<lambda>e. en_path e = p \<and> (en_dirty e \<or> en_unpushed e)) es of Some e \<Rightarrow> Some (entry_source e) | None \<Rightarrow> om_get m p)"
proof (induction es arbitrary: m)
  case (Cons e es)
  have "find (\<lambda>e. en_path e = p \<and> (en_dirty e \<or> en_unpushed e)) es = None" if "en_path e = p"
    using Cons.prems that by (auto simp: find_None_iff image_iff)
  then show ?case using Cons by (auto split: option.splits)
qed simp

text \<open>Over whatever lies below, the overlay shows the checkout's paths and its own versions.\<close>

lemma overlay_shows:
  assumes "distinct (map en_path es)" "e \<in> set es"
  shows "om_get (stack below (overlay_files below es)) (en_path e) =
    (if en_dirty e \<or> en_unpushed e then Some (entry_source e) else om_get below (en_path e))"
proof -
  have u: "x = e" if "x \<in> set es" "en_path x = en_path e" for x using assms that by (simp add: distinct_map inj_on_def)
  have "find (\<lambda>x. en_path x = en_path e \<and> (en_dirty x \<or> en_unpushed x)) es = (if en_dirty e \<or> en_unpushed e then Some e else None)"
  proof (cases "find (\<lambda>x. en_path x = en_path e \<and> (en_dirty x \<or> en_unpushed x)) es")
    case None
    then show ?thesis using assms(2) by (auto simp: find_None_iff)
  next
    case (Some x)
    then have "x \<in> set es" "en_path x = en_path e" "en_dirty x \<or> en_unpushed x" by (auto simp: find_Some_iff)
    then show ?thesis using Some u by auto
  qed
  moreover have "en_path e \<in> en_path ` set es" using assms(2) by simp
  ultimately show ?thesis
    unfolding stack_get [OF files_wfD(1) [OF overlay_files_wf]]
    by (simp add: overlay_files_def fold_removed_get overlay_entries_get [OF assms(1)] entry_source_def)
qed

lemma overlay_hides:
  assumes "distinct (map en_path es)" "p \<notin> en_path ` set es"
  shows "om_get (stack below (overlay_files below es)) p = None"
proof -
  have "find (\<lambda>e. en_path e = p \<and> (en_dirty e \<or> en_unpushed e)) es = None" using assms(2) by (auto simp: find_None_iff)
  then show ?thesis
    unfolding stack_get [OF files_wfD(1) [OF overlay_files_wf]] unfolding overlay_files_def fold_removed_get overlay_entries_get [OF assms(1)]
    using assms(2) by (simp add: om_keys_get split: option.split)
qed

section \<open>The layers of a selection\<close>

text \<open>Trees as the code store holds them: names that were checked when they were committed.\<close>

definition tree_named :: "source_tree \<Rightarrow> bool" where
  "tree_named t \<longleftrightarrow> valid_worktree_id (wt_id (so_worktree t)) \<and> valid_ref (ts_ref (so_state t)) \<and>
     (ts_upstream (so_state t) = '''' \<or> valid_git_oid (ts_upstream (so_state t))) \<and>
     (ts_head (so_state t) = '''' \<or> valid_git_oid (ts_head (so_state t)))"

definition trees_ok :: "source_tree list \<Rightarrow> bool" where
  "trees_ok ts \<longleftrightarrow> distinct (map tree_order ts) \<and> list_all tree_named ts"

lemma lower_hex_chars: "lower_hex s \<Longrightarrow> CHR '':'' \<notin> set s \<and> CHR ''@'' \<notin> set s"
  by (auto simp: lower_hex_def list_all_iff)

lemma valid_git_oid_chars: "valid_git_oid c \<Longrightarrow> c \<noteq> '''' \<and> CHR '':'' \<notin> set c \<and> CHR ''@'' \<notin> set c"
  using lower_hex_chars by (auto simp: valid_git_oid_def)

lemma is_digit_colon: "list_all is_digit r \<Longrightarrow> CHR '':'' \<notin> set r"
  by (auto simp: list_all_iff is_digit_def)

lemma valid_worktree_id_chars: "valid_worktree_id i \<Longrightarrow> i \<noteq> '''' \<and> CHR '':'' \<notin> set i"
  using lower_hex_chars is_digit_colon
  by (auto simp: valid_worktree_id_def strip_prefix_iff split: option.splits)

lemma valid_ref_chars: "valid_ref r \<Longrightarrow> r \<noteq> '''' \<and> CHR '':'' \<notin> set r"
proof -
  assume v: "valid_ref r"
  show ?thesis
  proof (cases "strip_prefix ''detached@'' r")
    case None
    then have "r \<noteq> ''''" "list_all ref_char_ok r" using v by (simp_all add: valid_ref_def split: if_split_asm)
    then show ?thesis by (auto simp: list_all_iff ref_char_ok_def)
  next
    case (Some sha)
    then have "r = ''detached@'' @ sha" "lower_hex sha" using v by (simp_all add: valid_ref_def strip_prefix_iff split: if_split_asm)
    then show ?thesis using lower_hex_chars [of sha] by simp
  qed
qed

lemma branch_layer_ok: "valid_ref ref \<Longrightarrow> valid_git_oid c \<Longrightarrow>
    parse_layer (branch_layer ref c) = Some \<lparr>li_kind = ''branch'', li_ref = ref, li_commit = c, li_worktree = ''''\<rparr>"
  using parse_format_layer [of "\<lparr>li_kind = ''branch'', li_ref = ref, li_commit = c, li_worktree = ''''\<rparr>"]
    valid_ref_chars valid_git_oid_chars by (auto simp: layer_parts_ok_def format_layer_def)

lemma branch_layer_inj:
  assumes "valid_ref r" "valid_git_oid c" "valid_ref r'" "valid_git_oid c'" "branch_layer r c = branch_layer r' c'"
  shows "r = r' \<and> c = c'"
  using branch_layer_ok [OF assms(1,2)] branch_layer_ok [OF assms(3,4)] unfolding assms(5) by simp

lemma worktree_layer_ok: "valid_worktree_id w \<Longrightarrow> valid_ref ref \<Longrightarrow>
    parse_layer (worktree_layer w ref) = Some \<lparr>li_kind = ''wt'', li_ref = ref, li_commit = '''', li_worktree = w\<rparr>"
  using parse_format_layer [of "\<lparr>li_kind = ''wt'', li_ref = ref, li_commit = '''', li_worktree = w\<rparr>"]
    valid_ref_chars valid_worktree_id_chars by (auto simp: layer_parts_ok_def format_layer_def)

lemma worktree_layer_inj:
  assumes "valid_worktree_id w" "valid_ref r" "valid_worktree_id w'" "valid_ref r'" "worktree_layer w r = worktree_layer w' r'"
  shows "w = w' \<and> r = r'"
  using worktree_layer_ok [OF assms(1,2)] worktree_layer_ok [OF assms(3,4)] unfolding assms(5) by simp

lemma base_layer_ok: "parse_layer base_layer = Some \<lparr>li_kind = ''base'', li_ref = '''', li_commit = '''', li_worktree = ''''\<rparr>"
  by (simp add: parse_layer_def)

lemma pushed_commit_oid: "tree_named t \<Longrightarrow> pushed_commit t \<noteq> '''' \<Longrightarrow> valid_git_oid (pushed_commit t)"
  by (auto simp: tree_named_def pushed_commit_def split: if_splits)

text \<open>The trees that make a branch layer.\<close>

definition in_group :: "string \<Rightarrow> string \<times> string \<Rightarrow> source_tree \<Rightarrow> bool" where
  "in_group def k t \<longleftrightarrow> \<not> (def \<noteq> '''' \<and> ts_ref (so_state t) = def) \<and> snd k \<noteq> '''' \<and> k = (ts_ref (so_state t), pushed_commit t)"

definition in_map :: "('a, 'b list) omap \<Rightarrow> 'a \<Rightarrow> 'b list" where
  "in_map m k = (case om_get m k of None \<Rightarrow> [] | Some xs \<Rightarrow> xs)"

lemma group_step_get: "om_get (group_step def t m) k = (if in_group def k t then Some (in_map m k @ [t]) else om_get m k)"
  by (auto simp: group_step_def in_group_def in_map_def Let_def)

lemma branch_groups_fold:
  "om_get (fold (group_step def) live m) k =
    (if filter (in_group def k) live = [] then om_get m k else Some (in_map m k @ filter (in_group def k) live))"
  by (induction live arbitrary: m) (simp_all add: group_step_get in_map_def)

lemma branch_groups_get:
  "om_get (branch_groups def live) k = (let ts = filter (in_group def k) live in if ts = [] then None else Some ts)"
  unfolding branch_groups_def branch_groups_fold by (simp add: in_map_def)

lemma branch_groups_wf: "omap_wf (branch_groups def live)"
proof -
  have "omap_wf (fold (group_step def) live m)" if "omap_wf m" for m
    using that by (induction live arbitrary: m) (auto simp: group_step_def Let_def om_put_wf)
  then show ?thesis unfolding branch_groups_def by simp
qed

lemma branch_plan_fields:
  assumes "branch_plan parent base ((ref, c), ts) = Some (l, v)"
  shows "lp_id l = branch_layer ref c" "layer_id_ok (branch_layer ref c)" "ly_kind (lp_layer l) = ''branch''"
    "ly_parent (lp_layer l) = parent" "lp_files l = sorted_files (branch_files base (group_sources ts))"
    "v = stack base (branch_files base (group_sources ts))"
  using assms by (auto simp: branch_plan_def Let_def lp_id_def split: if_splits)

lemma set_map_filter: "set (List.map_filter f xs) = {y. \<exists>x \<in> set xs. f x = Some y}"
  by (induction xs) (auto simp: List.map_filter_simps split: option.splits)

lemma distinct_map_filter_opt:
  "distinct (map f xs) \<Longrightarrow> (\<And>x y. x \<in> set xs \<Longrightarrow> h x = Some y \<Longrightarrow> k y = g (f x)) \<Longrightarrow> inj_on g {f x | x. x \<in> set xs \<and> h x \<noteq> None} \<Longrightarrow>
    distinct (map k (List.map_filter h xs))"
proof (induction xs)
  case (Cons x xs)
  have IH: "distinct (map k (List.map_filter h xs))"
    using Cons by (auto intro: inj_on_subset)
  show ?case
  proof (cases "h x")
    case (Some y)
    have "k y \<noteq> k z" if z: "z \<in> set (List.map_filter h xs)" for z
    proof -
      obtain w where w: "w \<in> set xs" "h w = Some z" using z by (auto simp: set_map_filter)
      have "f x \<noteq> f w" using Cons.prems(1) w(1) by auto
      then have "g (f x) \<noteq> g (f w)" using Cons.prems(3) Some w by (auto dest!: inj_onD)
      then show ?thesis using Cons.prems(2) [of x y] Cons.prems(2) [of w z] Some w by auto
    qed
    then show ?thesis using IH Some by (auto simp: List.map_filter_simps)
  qed (use IH in \<open>simp add: List.map_filter_simps\<close>)
qed simp

lemma live_trees_set: "set (live_trees ts) = {t \<in> set ts. live_tree t}"
  by (simp add: live_trees_def)

lemma live_trees_ok: "trees_ok ts \<Longrightarrow> trees_ok (live_trees ts)"
proof -
  assume ok: "trees_ok ts"
  have "distinct (map tree_order (filter live_tree ts))" using ok by (simp add: trees_ok_def distinct_map_filter)
  then have "distinct (map tree_order (live_trees ts))" by (simp add: live_trees_def distinct_map)
  then show ?thesis using ok by (simp add: trees_ok_def live_trees_set list_all_iff)
qed

lemma group_keys_ok:
  assumes "list_all tree_named live" "(k, ts) \<in> set (branch_groups def live)"
  shows "valid_ref (fst k)" "valid_git_oid (snd k)" "ts = filter (in_group def k) live" "ts \<noteq> []"
proof -
  have "om_get (branch_groups def live) k = Some ts" using om_get_iff [OF branch_groups_wf] assms(2) by blast
  then show ts: "ts = filter (in_group def k) live" "ts \<noteq> []" by (auto simp: branch_groups_get Let_def split: if_splits)
  then obtain t where "t \<in> set live" "in_group def k t" by (meson filter_False)
  then show "valid_ref (fst k)" "valid_git_oid (snd k)"
    using assms(1) pushed_commit_oid by (auto simp: in_group_def list_all_iff tree_named_def)
qed

lemma branch_plans_distinct:
  assumes "list_all tree_named live"
  shows "distinct (map (\<lambda>x. lp_id (fst x)) (branch_plans def parent base live))"
  unfolding branch_plans_def
proof (rule distinct_map_filter_opt [where f = fst and g = "\<lambda>k. branch_layer (fst k) (snd k)"])
  show "distinct (map fst (branch_groups def live))" using omap_wf_distinct [OF branch_groups_wf] by blast
  show "lp_id (fst y) = branch_layer (fst (fst x)) (snd (fst x))" if "branch_plan parent base x = Some y" for x y
    using branch_plan_fields(1) [of parent base "fst (fst x)" "snd (fst x)" "snd x" "fst y" "snd y"] that by simp
  show "inj_on (\<lambda>k. branch_layer (fst k) (snd k)) {fst x |x. x \<in> set (branch_groups def live) \<and> branch_plan parent base x \<noteq> None}"
  proof (rule inj_onI)
    fix a b
    assume "a \<in> {fst x |x. x \<in> set (branch_groups def live) \<and> branch_plan parent base x \<noteq> None}"
      "b \<in> {fst x |x. x \<in> set (branch_groups def live) \<and> branch_plan parent base x \<noteq> None}"
      and e: "branch_layer (fst a) (snd a) = branch_layer (fst b) (snd b)"
    then obtain x y where x: "x \<in> set (branch_groups def live)" "a = fst x" and y: "y \<in> set (branch_groups def live)" "b = fst y" by blast
    have "valid_ref (fst a)" "valid_git_oid (snd a)" using group_keys_ok(1,2) [OF assms, of a "snd x" def] x by simp_all
    moreover have "valid_ref (fst b)" "valid_git_oid (snd b)" using group_keys_ok(1,2) [OF assms, of b "snd y" def] y by simp_all
    ultimately show "a = b" using branch_layer_inj [OF _ _ _ _ e] by (intro prod_eqI) blast+
  qed
qed

lemma branch_plans_set:
  assumes "list_all tree_named live"
  shows "(l, v) \<in> set (branch_plans def parent base live) \<longleftrightarrow>
    (\<exists>k ts. om_get (branch_groups def live) k = Some ts \<and> branch_plan parent base (k, ts) = Some (l, v))"
  unfolding branch_plans_def set_map_filter by (simp add: om_get_iff [OF branch_groups_wf] Bex_def)

lemma visible_on_get:
  assumes "distinct (map (\<lambda>x. lp_id (fst x)) bs)"
  shows "visible_on bs i = map_option snd (find (\<lambda>x. lp_id (fst x) = i) bs)"
proof -
  have f: "(\<lambda>(l, v). om_put (lp_id l) v) = (\<lambda>x :: layer_plan \<times> files. om_put (lp_id (fst x)) (snd x))" by auto
  show ?thesis
  proof (cases "find (\<lambda>x. lp_id (fst x) = i) bs")
    case None
    then have "i \<notin> (\<lambda>x. lp_id (fst x)) ` set bs" by (auto simp: find_None_iff)
    then show ?thesis unfolding visible_on_def f using None by (simp add: fold_om_put_notin)
  next
    case (Some x)
    then have x: "x \<in> set bs" "lp_id (fst x) = i" by (auto simp: find_Some_iff)
    show ?thesis unfolding visible_on_def f using fold_om_put_in [OF assms x(1)] Some x(2) by simp
  qed
qed

end
