(* ===== verification/Index_Views.thy ===== *)
theory Index_Views
  imports Index_Facts
begin

text \<open>
  The views of a selection (\<open>codeindex/layers.go\<close>): every layer a selection names has a view, from the lowest
  layer up to it, and the view of a checkout's overlay shows that checkout.
\<close>

section \<open>Chains of parents\<close>

fun parent_chain :: "(string, layer_plan) omap \<Rightarrow> string \<Rightarrow> string list \<Rightarrow> bool" where
  "parent_chain m cur [] \<longleftrightarrow> cur = ''''"
| "parent_chain m cur (i # is) \<longleftrightarrow>
     cur \<noteq> '''' \<and> i = cur \<and> (case om_get m cur of None \<Rightarrow> False | Some l \<Rightarrow> parent_chain m (ly_parent (lp_layer l)) is)"

lemma view_chain_parents:
  "parent_chain m cur is \<Longrightarrow> distinct (chain @ is) \<Longrightarrow> length is < n \<Longrightarrow> view_chain n m cur chain = Inr (chain @ is)"
proof (induction "is" arbitrary: n cur chain)
  case Nil
  then show ?case by (cases n) auto
next
  case (Cons i js)
  obtain k where n: "n = Suc k" using Cons.prems(3) by (cases n) auto
  obtain l where l: "cur \<noteq> ''''" "i = cur" "om_get m cur = Some l" "parent_chain m (ly_parent (lp_layer l)) js"
    using Cons.prems(1) by (auto split: option.splits)
  then show ?case using Cons.IH [of "ly_parent (lp_layer l)" "chain @ [cur]" k] Cons.prems(2,3) n by simp
qed

lemma layers_by_id_get:
  assumes "distinct (map lp_id (pn_layers p))"
  shows "om_get (layers_by_id p) i = plan_layer p i"
proof (cases "find (\<lambda>l. lp_id l = i) (pn_layers p)")
  case None
  then have "i \<notin> lp_id ` set (pn_layers p)" by (auto simp: find_None_iff)
  then show ?thesis using None fold_om_put_notin [of i lp_id "pn_layers p" "\<lambda>l. l" "[]"] by (simp add: layers_by_id_def plan_layer_def)
next
  case (Some l)
  then have l: "l \<in> set (pn_layers p)" "lp_id l = i" by (auto simp: find_Some_iff)
  show ?thesis using Some fold_om_put_in [OF assms l(1), of "\<lambda>l. l" "[]"] l(2) by (simp add: layers_by_id_def plan_layer_def)
qed

lemma plan_layer_in:
  assumes "distinct (map lp_id (pn_layers p))" "l \<in> set (pn_layers p)"
  shows "plan_layer p (lp_id l) = Some l"
proof -
  have "find (\<lambda>x. lp_id x = lp_id l) ls = Some l" if "distinct (map lp_id ls)" "l \<in> set ls" for ls
    using that by (induction ls) auto
  then show ?thesis using assms by (simp add: plan_layer_def)
qed

lemma plan_layerD: "plan_layer p i = Some l \<Longrightarrow> l \<in> set (pn_layers p) \<and> lp_id l = i"
  by (auto simp: plan_layer_def find_Some_iff)

lemma plan_view_parents:
  assumes "distinct (map lp_id (pn_layers p))" "parent_chain (layers_by_id p) i is" "is \<noteq> []" "distinct is" "list_all layer_id_ok is"
  shows "plan_view p i = Inr (rev is)"
proof -
  have "set is \<subseteq> set (map lp_id (pn_layers p))"
    using assms(2) layers_by_id_get [OF assms(1)]
  proof (induction "is" arbitrary: i)
    case (Cons j js)
    then obtain l where l: "om_get (layers_by_id p) i = Some l" "j = i" "parent_chain (layers_by_id p) (ly_parent (lp_layer l)) js"
      by (auto split: option.splits)
    then have "i \<in> lp_id ` set (pn_layers p)" using plan_layerD [of p i l] Cons.prems(2) by auto
    then show ?case using Cons.IH [OF l(3) Cons.prems(2)] l(2) by simp
  qed simp
  then have "length is \<le> length (pn_layers p)"
    using card_mono [of "set (map lp_id (pn_layers p))" "set is"] assms(4) card_length [of "map lp_id (pn_layers p)"]
    by (simp add: distinct_card)
  then have "view_chain (Suc (Suc (length (pn_layers p)))) (layers_by_id p) i [] = Inr is"
    using view_chain_parents [OF assms(2), of "[]" "Suc (Suc (length (pn_layers p)))"] assms(4) by simp
  then show ?thesis using assms(3-5) by (simp add: plan_view_def view_ok_def list_all_iff)
qed

section \<open>What a view shows\<close>

definition top_file :: "layer_selection \<Rightarrow> view \<Rightarrow> string \<Rightarrow> file_source option" where
  "top_file p v path =
     fold (\<lambda>i below. case Option.bind (plan_layer p i) (\<lambda>l. lp_file l path) of
              None \<Rightarrow> below | Some f \<Rightarrow> if fs_deleted f then None else Some f) v None"

lemma top_file_Nil [simp]: "top_file p [] path = None"
  by (simp add: top_file_def)

lemma top_file_over:
  assumes "plan_layer p i = Some l" "lp_files l = sorted_files upper" "files_wf upper" "\<And>q. top_file p v q = om_get lower q"
  shows "top_file p (v @ [i]) path = om_get (stack lower upper) path"
proof -
  have "lp_file l path = om_get upper path" using find_sorted_files [OF assms(3)] assms(2) by (simp add: lp_file_def)
  then show ?thesis using assms(1,4) by (simp add: top_file_def stack_get [OF files_wfD(1) [OF assms(3)]] split: option.split)
qed

section \<open>The parts of a selection\<close>

definition sel_default :: "source_tree list \<Rightarrow> string" where
  "sel_default ts = default_branch (live_trees ts)"

definition sel_base :: "source_tree list \<Rightarrow> layer_plan option" where
  "sel_base ts = base_plan (sel_default ts) (live_trees ts)"

definition sel_base_files :: "source_tree list \<Rightarrow> files" where
  "sel_base_files ts = (case sel_base ts of None \<Rightarrow> [] | Some _ \<Rightarrow> base_files_of (fst (base_sources (live_trees ts) (sel_default ts))))"

definition sel_parent :: "source_tree list \<Rightarrow> string" where
  "sel_parent ts = (case sel_base ts of None \<Rightarrow> '''' | Some l \<Rightarrow> lp_id l)"

definition sel_branches :: "source_tree list \<Rightarrow> (layer_plan \<times> files) list" where
  "sel_branches ts = branch_plans (sel_default ts) (sel_parent ts) (sel_base_files ts) (live_trees ts)"

definition sel_overlays :: "source_tree list \<Rightarrow> layer_plan list" where
  "sel_overlays ts =
     List.map_filter (overlay_plan (sel_default ts) (sel_parent ts) (sel_base_files ts) (sel_branches ts)) (live_trees ts)"

definition opt_list :: "'a option \<Rightarrow> 'a list" where
  "opt_list x = (case x of None \<Rightarrow> [] | Some y \<Rightarrow> [y])"

lemma select_eq:
  "select ts = \<lparr>pn_default = sel_default ts,
     pn_layers = sort_layers (opt_list (sel_base ts) @ map fst (sel_branches ts) @ sel_overlays ts)\<rparr>"
  unfolding select_def Let_def sel_default_def [symmetric] sel_base_def [symmetric] sel_base_files_def [symmetric]
    sel_parent_def [symmetric] sel_branches_def [symmetric] sel_overlays_def [symmetric] opt_list_def [symmetric] ..

lemma sort_layers_set [simp]: "set (sort_layers ls) = set ls"
  by (simp add: sort_layers_def)

lemma select_layers_set:
  "set (pn_layers (select ts)) = set (opt_list (sel_base ts)) \<union> fst ` set (sel_branches ts) \<union> set (sel_overlays ts)"
  by (auto simp: select_eq)

lemma sel_baseD:
  assumes "sel_base ts = Some l"
  shows "lp_id l = base_layer" "ly_kind (lp_layer l) = ''base''" "ly_parent (lp_layer l) = ''''"
    "lp_files l = sorted_files (sel_base_files ts)" "sel_parent ts = base_layer"
proof -
  show "lp_id l = base_layer" "ly_kind (lp_layer l) = ''base''" "ly_parent (lp_layer l) = ''''"
    "lp_files l = sorted_files (sel_base_files ts)"
    using assms by (auto simp: sel_base_def sel_base_files_def base_plan_def lp_id_def split: prod.splits if_splits)
  then show "sel_parent ts = base_layer" using assms by (simp add: sel_parent_def)
qed

lemma sel_base_files_wf: "files_wf (sel_base_files ts)"
  by (simp add: sel_base_files_def base_files_wf split: option.split)

lemma sel_base_files_kept: "om_get (sel_base_files ts) p = Some f \<Longrightarrow> \<not> fs_deleted f"
  by (auto simp: sel_base_files_def base_files_kept split: option.splits)

lemma live_ok: "trees_ok ts \<Longrightarrow> list_all tree_named (live_trees ts)"
  using live_trees_ok by (simp add: trees_ok_def)

lemma sel_branch_fields:
  assumes "trees_ok ts" "x \<in> set (sel_branches ts)"
  obtains ref c us where "valid_ref ref" "valid_git_oid c" "lp_id (fst x) = branch_layer ref c"
    "us = filter (in_group (sel_default ts) (ref, c)) (live_trees ts)" "us \<noteq> []"
    "ly_kind (lp_layer (fst x)) = ''branch''" "ly_parent (lp_layer (fst x)) = sel_parent ts"
    "lp_files (fst x) = sorted_files (branch_files (sel_base_files ts) (group_sources us))"
    "snd x = stack (sel_base_files ts) (branch_files (sel_base_files ts) (group_sources us))"
proof -
  note n = live_ok [OF assms(1)]
  obtain k us where k: "om_get (branch_groups (sel_default ts) (live_trees ts)) k = Some us"
    "branch_plan (sel_parent ts) (sel_base_files ts) (k, us) = Some x"
    using assms(2) branch_plans_set [OF n, of "fst x" "snd x"] unfolding sel_branches_def by auto
  have "(k, us) \<in> set (branch_groups (sel_default ts) (live_trees ts))" using om_get_in [OF k(1)] .
  note g = group_keys_ok [OF n this]
  have "branch_plan (sel_parent ts) (sel_base_files ts) ((fst k, snd k), us) = Some (fst x, snd x)" using k(2) by simp
  note b = branch_plan_fields [OF this]
  show ?thesis using that [OF g(1,2) b(1), of us] g(3,4) b(3-6) by simp
qed

lemma sel_branch_of:
  assumes "trees_ok ts" "valid_ref ref" "valid_git_oid c"
    and "us = filter (in_group (sel_default ts) (ref, c)) (live_trees ts)" "us \<noteq> []"
  obtains x where "x \<in> set (sel_branches ts)" "lp_id (fst x) = branch_layer ref c"
    "lp_files (fst x) = sorted_files (branch_files (sel_base_files ts) (group_sources us))"
    "snd x = stack (sel_base_files ts) (branch_files (sel_base_files ts) (group_sources us))"
proof -
  note n = live_ok [OF assms(1)]
  have g: "om_get (branch_groups (sel_default ts) (live_trees ts)) (ref, c) = Some us"
    using assms(4,5) by (simp add: branch_groups_get Let_def)
  have "layer_id_ok (branch_layer ref c)" using branch_layer_ok [OF assms(2,3)] by (simp add: layer_id_ok_def)
  then obtain x where x: "branch_plan (sel_parent ts) (sel_base_files ts) ((ref, c), us) = Some x"
    by (simp add: branch_plan_def Let_def)
  then have "(fst x, snd x) \<in> set (sel_branches ts)"
    unfolding sel_branches_def branch_plans_set [OF n] using g by auto
  then have m: "x \<in> set (sel_branches ts)" by simp
  have "branch_plan (sel_parent ts) (sel_base_files ts) ((ref, c), us) = Some (fst x, snd x)" using x by simp
  note b = branch_plan_fields [OF this]
  show ?thesis by (rule that [OF m b(1,5,6)])
qed

lemma overlay_plan_fields:
  "overlay_plan def parent base bs t = Some l \<Longrightarrow>
    \<not> is_github t \<and> lp_id l = worktree_layer (wt_id (so_worktree t)) (ts_ref (so_state t)) \<and> ly_kind (lp_layer l) = ''wt'' \<and>
    ly_parent (lp_layer l) = fst (overlay_below def parent base bs t) \<and>
    lp_files l = sorted_files (overlay_files (snd (overlay_below def parent base bs t)) (so_entries t))"
  by (auto simp: overlay_plan_def lp_id_def Let_def case_prod_beta split: if_split_asm)

lemma overlay_plan_some:
  "\<not> is_github t \<Longrightarrow> layer_id_ok (worktree_layer (wt_id (so_worktree t)) (ts_ref (so_state t))) \<Longrightarrow>
    \<exists>l. overlay_plan def parent base bs t = Some l"
  by (simp add: overlay_plan_def Let_def case_prod_beta)

lemma sel_overlay_fields:
  assumes "trees_ok ts" "l \<in> set (sel_overlays ts)"
  obtains t where "t \<in> set (live_trees ts)" "\<not> is_github t" "lp_id l = worktree_layer (wt_id (so_worktree t)) (ts_ref (so_state t))"
    "ly_kind (lp_layer l) = ''wt''"
    "ly_parent (lp_layer l) = fst (overlay_below (sel_default ts) (sel_parent ts) (sel_base_files ts) (sel_branches ts) t)"
    "lp_files l = sorted_files (overlay_files (snd (overlay_below (sel_default ts) (sel_parent ts) (sel_base_files ts) (sel_branches ts) t)) (so_entries t))"
proof -
  obtain t where t: "t \<in> set (live_trees ts)"
    "overlay_plan (sel_default ts) (sel_parent ts) (sel_base_files ts) (sel_branches ts) t = Some l"
    using assms(2) by (auto simp: sel_overlays_def set_map_filter)
  show ?thesis using that [OF t(1)] overlay_plan_fields [OF t(2)] by simp
qed

lemma sel_overlay_of:
  assumes "trees_ok ts" "t \<in> set (live_trees ts)" "\<not> is_github t"
  obtains l where "l \<in> set (sel_overlays ts)" "lp_id l = worktree_layer (wt_id (so_worktree t)) (ts_ref (so_state t))"
    "ly_parent (lp_layer l) = fst (overlay_below (sel_default ts) (sel_parent ts) (sel_base_files ts) (sel_branches ts) t)"
    "lp_files l = sorted_files (overlay_files (snd (overlay_below (sel_default ts) (sel_parent ts) (sel_base_files ts) (sel_branches ts) t)) (so_entries t))"
proof -
  have "tree_named t" using live_ok [OF assms(1)] assms(2) by (simp add: list_all_iff)
  then have "layer_id_ok (worktree_layer (wt_id (so_worktree t)) (ts_ref (so_state t)))"
    using worktree_layer_ok by (simp add: layer_id_ok_def tree_named_def)
  then obtain l where l: "overlay_plan (sel_default ts) (sel_parent ts) (sel_base_files ts) (sel_branches ts) t = Some l"
    using overlay_plan_some [OF assms(3)] by blast
  then have "l \<in> set (sel_overlays ts)" using assms(2) by (auto simp: sel_overlays_def set_map_filter)
  moreover have "lp_id l = worktree_layer (wt_id (so_worktree t)) (ts_ref (so_state t))"
    "ly_parent (lp_layer l) = fst (overlay_below (sel_default ts) (sel_parent ts) (sel_base_files ts) (sel_branches ts) t)"
    "lp_files l = sorted_files (overlay_files (snd (overlay_below (sel_default ts) (sel_parent ts) (sel_base_files ts) (sel_branches ts) t)) (so_entries t))"
    using overlay_plan_fields [OF l] by simp_all
  ultimately show ?thesis by (rule that)
qed

lemma sel_branches_distinct: "trees_ok ts \<Longrightarrow> distinct (map (\<lambda>x. lp_id (fst x)) (sel_branches ts))"
  unfolding sel_branches_def by (rule branch_plans_distinct [OF live_ok])

lemma sel_overlays_distinct:
  assumes "trees_ok ts"
  shows "distinct (map lp_id (sel_overlays ts))"
  unfolding sel_overlays_def
proof (rule distinct_map_filter_opt [where f = tree_order and g = "\<lambda>k. worktree_layer (fst k) (snd k)"])
  show "distinct (map tree_order (live_trees ts))" using live_trees_ok [OF assms] by (simp add: trees_ok_def)
  show "lp_id y = worktree_layer (fst (tree_order x)) (snd (tree_order x))"
    if "overlay_plan (sel_default ts) (sel_parent ts) (sel_base_files ts) (sel_branches ts) x = Some y" for x y
    using overlay_plan_fields [OF that] by (simp add: tree_order_def)
  show "inj_on (\<lambda>k. worktree_layer (fst k) (snd k)) {tree_order x |x. x \<in> set (live_trees ts) \<and>
      overlay_plan (sel_default ts) (sel_parent ts) (sel_base_files ts) (sel_branches ts) x \<noteq> None}"
  proof (rule inj_onI)
    fix a b
    assume "a \<in> {tree_order x |x. x \<in> set (live_trees ts) \<and> overlay_plan (sel_default ts) (sel_parent ts) (sel_base_files ts) (sel_branches ts) x \<noteq> None}"
      "b \<in> {tree_order x |x. x \<in> set (live_trees ts) \<and> overlay_plan (sel_default ts) (sel_parent ts) (sel_base_files ts) (sel_branches ts) x \<noteq> None}"
      and e: "worktree_layer (fst a) (snd a) = worktree_layer (fst b) (snd b)"
    then obtain x y where x: "x \<in> set (live_trees ts)" "a = tree_order x" and y: "y \<in> set (live_trees ts)" "b = tree_order y" by blast
    have "tree_named x" "tree_named y" using live_ok [OF assms] x(1) y(1) by (simp_all add: list_all_iff)
    then show "a = b" using worktree_layer_inj [OF _ _ _ _ e] x(2) y(2) by (intro prod_eqI) (auto simp: tree_named_def tree_order_def)
  qed
qed

text \<open>Layers of different kinds have different ids.\<close>

lemma layer_parse_kind:
  assumes "trees_ok ts"
  shows "l \<in> set (opt_list (sel_base ts)) \<Longrightarrow> map_option li_kind (parse_layer (lp_id l)) = Some ''base''"
    "l \<in> fst ` set (sel_branches ts) \<Longrightarrow> map_option li_kind (parse_layer (lp_id l)) = Some ''branch''"
    "l \<in> set (sel_overlays ts) \<Longrightarrow> map_option li_kind (parse_layer (lp_id l)) = Some ''wt''"
proof -
  show "l \<in> set (opt_list (sel_base ts)) \<Longrightarrow> map_option li_kind (parse_layer (lp_id l)) = Some ''base''"
    using base_layer_ok by (auto simp: opt_list_def sel_baseD split: option.splits)
  show "map_option li_kind (parse_layer (lp_id l)) = Some ''branch''" if l: "l \<in> fst ` set (sel_branches ts)"
  proof -
    obtain x where x: "x \<in> set (sel_branches ts)" "l = fst x" using l by blast
    from assms x(1) show ?thesis by (rule sel_branch_fields) (simp add: x(2) branch_layer_ok)
  qed
  show "map_option li_kind (parse_layer (lp_id l)) = Some ''wt''" if l: "l \<in> set (sel_overlays ts)"
  proof -
    from assms l obtain t where t: "t \<in> set (live_trees ts)" "lp_id l = worktree_layer (wt_id (so_worktree t)) (ts_ref (so_state t))"
      by (rule sel_overlay_fields)
    have "tree_named t" using live_ok [OF assms] t(1) by (simp add: list_all_iff)
    then show ?thesis using t(2) worktree_layer_ok by (simp add: tree_named_def)
  qed
qed

lemma select_distinct: "trees_ok ts \<Longrightarrow> distinct (map lp_id (pn_layers (select ts)))"
proof -
  assume ok: "trees_ok ts"
  have d: "distinct (map lp_id (opt_list (sel_base ts) @ map fst (sel_branches ts) @ sel_overlays ts))"
  proof -
    have "distinct (map lp_id (opt_list (sel_base ts)))" by (simp add: opt_list_def split: option.split)
    moreover have "distinct (map lp_id (map fst (sel_branches ts)))" using sel_branches_distinct [OF ok] by (simp add: comp_def)
    moreover have "lp_id ` set (opt_list (sel_base ts)) \<inter> lp_id ` (fst ` set (sel_branches ts) \<union> set (sel_overlays ts)) = {}"
      using layer_parse_kind [OF ok] by fastforce
    moreover have "lp_id ` fst ` set (sel_branches ts) \<inter> lp_id ` set (sel_overlays ts) = {}"
      using layer_parse_kind [OF ok] by fastforce
    ultimately show ?thesis using sel_overlays_distinct [OF ok]
      unfolding map_append distinct_append set_append set_map image_Un by blast
  qed
  show ?thesis using d unfolding select_eq sort_layers_def by (simp only: layer_selection.simps distinct_map distinct_sort set_sort)
qed


text \<open>Each kind of layer with the layers below it and what its view shows.\<close>

definition below_view :: "source_tree list \<Rightarrow> view" where
  "below_view ts = (if sel_base ts = None then [] else [base_layer])"

lemma below_view_shows:
  assumes "trees_ok ts"
  shows "top_file (select ts) (below_view ts) q = om_get (sel_base_files ts) q"
proof (cases "sel_base ts")
  case None
  then show ?thesis by (simp add: below_view_def sel_base_files_def)
next
  case (Some l)
  have "l \<in> set (pn_layers (select ts))" using Some by (simp add: select_layers_set opt_list_def)
  then have "plan_layer (select ts) base_layer = Some l"
    using plan_layer_in [OF select_distinct [OF assms]] sel_baseD(1) [OF Some] by metis
  from top_file_over [OF this sel_baseD(4) [OF Some] sel_base_files_wf, of "[]" "[]"]
  have "top_file (select ts) [base_layer] q = om_get (stack [] (sel_base_files ts)) q" by simp
  also have "\<dots> = om_get (sel_base_files ts) q"
    using sel_base_files_kept by (auto simp: stack_get [OF files_wfD(1) [OF sel_base_files_wf]] split: option.split)
  finally show ?thesis using Some by (simp add: below_view_def)
qed

lemma below_view_chain:
  assumes "trees_ok ts"
  shows "parent_chain (layers_by_id (select ts)) (sel_parent ts) (rev (below_view ts))"
proof (cases "sel_base ts")
  case None
  then show ?thesis by (simp add: below_view_def sel_parent_def)
next
  case (Some l)
  have "l \<in> set (pn_layers (select ts))" using Some by (simp add: select_layers_set opt_list_def)
  then have "om_get (layers_by_id (select ts)) base_layer = Some l"
    using plan_layer_in [OF select_distinct [OF assms]] layers_by_id_get [OF select_distinct [OF assms]] sel_baseD(1) [OF Some] by metis
  then show ?thesis using sel_baseD(3,5) [OF Some] Some by (simp add: below_view_def base_layer_def)
qed

lemma branch_view_shows:
  assumes "trees_ok ts" "x \<in> set (sel_branches ts)"
  shows "top_file (select ts) (below_view ts @ [lp_id (fst x)]) q = om_get (snd x) q"
    "parent_chain (layers_by_id (select ts)) (lp_id (fst x)) (rev (below_view ts @ [lp_id (fst x)]))"
proof -
  have "fst x \<in> set (pn_layers (select ts))" using assms(2) by (simp add: select_layers_set)
  then have p: "plan_layer (select ts) (lp_id (fst x)) = Some (fst x)" by (rule plan_layer_in [OF select_distinct [OF assms(1)]])
  from assms obtain us where us: "ly_parent (lp_layer (fst x)) = sel_parent ts"
    "lp_files (fst x) = sorted_files (branch_files (sel_base_files ts) (group_sources us))"
    "snd x = stack (sel_base_files ts) (branch_files (sel_base_files ts) (group_sources us))"
    by (rule sel_branch_fields)
  show "top_file (select ts) (below_view ts @ [lp_id (fst x)]) q = om_get (snd x) q"
    unfolding us(3) by (rule top_file_over [OF p us(2) branch_files_wf below_view_shows [OF assms(1)]])
  have "lp_id (fst x) \<noteq> ''''" using layer_parse_kind(2) [OF assms(1), of "fst x"] assms(2) by (auto simp: parse_layer_def base_layer_def strip_prefix_iff)
  then show "parent_chain (layers_by_id (select ts)) (lp_id (fst x)) (rev (below_view ts @ [lp_id (fst x)]))"
    using below_view_chain [OF assms(1)] us(1) p by (simp add: layers_by_id_get [OF select_distinct [OF assms(1)]])
qed

lemma overlay_below_cases:
  assumes "trees_ok ts" "t \<in> set (live_trees ts)"
  obtains (base) "overlay_below (sel_default ts) (sel_parent ts) (sel_base_files ts) (sel_branches ts) t = (sel_parent ts, sel_base_files ts)"
      "ts_ref (so_state t) = sel_default ts \<or> pushed_commit t = ''''"
  | (branch) x where "x \<in> set (sel_branches ts)" "lp_id (fst x) = branch_layer (ts_ref (so_state t)) (pushed_commit t)"
      "overlay_below (sel_default ts) (sel_parent ts) (sel_base_files ts) (sel_branches ts) t = (lp_id (fst x), snd x)"
      "snd x = stack (sel_base_files ts) (branch_files (sel_base_files ts)
         (group_sources (filter (in_group (sel_default ts) (ts_ref (so_state t), pushed_commit t)) (live_trees ts))))"
proof (cases "(sel_default ts = '''' \<or> ts_ref (so_state t) \<noteq> sel_default ts) \<and> pushed_commit t \<noteq> ''''")
  case False
  have "ts_ref (so_state t) \<noteq> ''''" using assms(2) by (simp add: live_trees_set live_tree_def)
  then show ?thesis using base False by (auto simp: overlay_below_def Let_def)
next
  case True
  let ?k = "(ts_ref (so_state t), pushed_commit t)"
  have n: "tree_named t" using live_ok [OF assms(1)] assms(2) by (simp add: list_all_iff)
  then have v: "valid_ref (ts_ref (so_state t))" "valid_git_oid (pushed_commit t)" using pushed_commit_oid True by (simp_all add: tree_named_def)
  have "t \<in> set (filter (in_group (sel_default ts) ?k) (live_trees ts))" using assms(2) True by (auto simp: in_group_def)
  then have ne: "filter (in_group (sel_default ts) ?k) (live_trees ts) \<noteq> []" by force
  obtain x where x: "x \<in> set (sel_branches ts)" "lp_id (fst x) = branch_layer (ts_ref (so_state t)) (pushed_commit t)"
    "snd x = stack (sel_base_files ts) (branch_files (sel_base_files ts) (group_sources (filter (in_group (sel_default ts) ?k) (live_trees ts))))"
    using sel_branch_of [OF assms(1) v refl ne] by metis
  have "find (\<lambda>y. lp_id (fst y) = lp_id (fst x)) bs = Some x" if "distinct (map (\<lambda>x. lp_id (fst x)) bs)" "x \<in> set bs" for bs :: "(layer_plan \<times> files) list"
    using that by (induction bs) auto
  then have "visible_on (sel_branches ts) (branch_layer (ts_ref (so_state t)) (pushed_commit t)) = Some (snd x)"
    using visible_on_get [OF sel_branches_distinct [OF assms(1)]] sel_branches_distinct [OF assms(1)] x(1,2) by simp
  then have "overlay_below (sel_default ts) (sel_parent ts) (sel_base_files ts) (sel_branches ts) t = (lp_id (fst x), snd x)"
    using True x(2) by (auto simp: overlay_below_def Let_def)
  then show ?thesis by (rule branch [OF x(1,2) _ x(3)])
qed

lemma client_view:
  assumes "trees_ok ts" "t \<in> set (live_trees ts)" "\<not> is_github t"
  defines "i \<equiv> worktree_layer (wt_id (so_worktree t)) (ts_ref (so_state t))"
    and "ob \<equiv> overlay_below (sel_default ts) (sel_parent ts) (sel_base_files ts) (sel_branches ts) t"
  obtains v where "plan_view (select ts) i = Inr (v @ [i])"
    "\<And>q. top_file (select ts) (v @ [i]) q = om_get (stack (snd ob) (overlay_files (snd ob) (so_entries t))) q"
    "parent_chain (layers_by_id (select ts)) (fst ob) (rev v)" "length v \<le> 2" "list_all layer_id_ok v" "i \<notin> set v" "distinct v"
proof -
  note d = select_distinct [OF assms(1)]
  have n: "tree_named t" using live_ok [OF assms(1)] assms(2) by (simp add: list_all_iff)
  then have k: "parse_layer i = Some \<lparr>li_kind = ''wt'', li_ref = ts_ref (so_state t), li_commit = '''', li_worktree = wt_id (so_worktree t)\<rparr>"
    unfolding i_def by (intro worktree_layer_ok) (simp_all add: tree_named_def)
  then have ne: "i \<noteq> ''''" by (auto simp: parse_layer_def base_layer_def strip_prefix_iff)
  from assms(1-3) obtain l where l: "l \<in> set (sel_overlays ts)" "lp_id l = i" "ly_parent (lp_layer l) = fst ob"
    "lp_files l = sorted_files (overlay_files (snd ob) (so_entries t))"
    unfolding i_def ob_def by (rule sel_overlay_of)
  have p: "plan_layer (select ts) i = Some l" using plan_layer_in [OF d, of l] l(1,2) by (simp add: select_layers_set)
  have vb: "\<exists>v. (\<forall>q. top_file (select ts) v q = om_get (snd ob) q) \<and> parent_chain (layers_by_id (select ts)) (fst ob) (rev v) \<and>
      length v \<le> 2 \<and> list_all (\<lambda>j. map_option li_kind (parse_layer j) \<in> {Some ''base'', Some ''branch''}) v \<and> distinct v"
    using assms(1,2)
  proof (cases rule: overlay_below_cases)
    case base
    have "list_all (\<lambda>j. map_option li_kind (parse_layer j) \<in> {Some ''base'', Some ''branch''}) (below_view ts)"
      using base_layer_ok by (simp add: below_view_def)
    moreover have "length (below_view ts) \<le> 2" "distinct (below_view ts)" by (simp_all add: below_view_def)
    ultimately show ?thesis using base(1) below_view_shows [OF assms(1)] below_view_chain [OF assms(1)]
      unfolding ob_def by (intro exI [of _ "below_view ts"]) simp
  next
    case (branch x)
    have b: "map_option li_kind (parse_layer (lp_id (fst x))) = Some ''branch''"
      using layer_parse_kind(2) [OF assms(1), of "fst x"] branch(1) by blast
    then have "list_all (\<lambda>j. map_option li_kind (parse_layer j) \<in> {Some ''base'', Some ''branch''}) (below_view ts @ [lp_id (fst x)])"
      using base_layer_ok by (simp add: below_view_def)
    moreover have "distinct (below_view ts @ [lp_id (fst x)])" using b base_layer_ok by (auto simp: below_view_def)
    moreover have "length (below_view ts @ [lp_id (fst x)]) \<le> 2" by (simp add: below_view_def)
    ultimately show ?thesis using branch(3) branch_view_shows [OF assms(1) branch(1)]
      unfolding ob_def by (intro exI [of _ "below_view ts @ [lp_id (fst x)]"]) simp
  qed
  then obtain v where v: "\<And>q. top_file (select ts) v q = om_get (snd ob) q" "parent_chain (layers_by_id (select ts)) (fst ob) (rev v)"
    "length v \<le> 2" "list_all (\<lambda>j. map_option li_kind (parse_layer j) \<in> {Some ''base'', Some ''branch''}) v" "distinct v" by blast
  have ok: "list_all layer_id_ok v" "i \<notin> set v" using v(4) k by (auto simp: list_all_iff layer_id_ok_def)
  have "parent_chain (layers_by_id (select ts)) i (rev (v @ [i]))" using v(2) p l(3) ne by (simp add: layers_by_id_get [OF d])
  from plan_view_parents [OF d this] have "plan_view (select ts) i = Inr (v @ [i])"
    using ok v(5) k by (simp add: list_all_iff layer_id_ok_def)
  moreover have "top_file (select ts) (v @ [i]) q = om_get (stack (snd ob) (overlay_files (snd ob) (so_entries t))) q" for q
    by (rule top_file_over [OF p l(4) overlay_files_wf v(1)])
  ultimately show ?thesis using that v(2,3,5) ok by blast
qed

section \<open>What a selection promises\<close>

text \<open>C9. A selection is layered: its ids are distinct, the base comes before the branches and these before the
  overlays; every layer is one the graph accepts, names each path once, in order, sits on a lower layer
  of the selection or on none, and has a view of at most three layers that ends with it.\<close>

theorem selection_layered:
  assumes "trees_ok ts"
  shows "distinct (map lp_id (pn_layers (select ts))) \<and>
    sorted (map (\<lambda>l. layer_rank (ly_kind (lp_layer l))) (pn_layers (select ts))) \<and>
    (\<forall>l \<in> set (pn_layers (select ts)). layer_ok (lp_layer l) \<and> sorted_wrt (<) (map fs_path (lp_files l)) \<and>
      (ly_parent (lp_layer l) = '''' \<or> (\<exists>q \<in> set (pn_layers (select ts)). lp_id q = ly_parent (lp_layer l) \<and>
         layer_rank (ly_kind (lp_layer q)) < layer_rank (ly_kind (lp_layer l)))) \<and>
      (\<exists>v. plan_view (select ts) (lp_id l) = Inr (v @ [lp_id l]) \<and> length v \<le> 2))"
proof (intro conjI ballI)
  note d = select_distinct [OF assms]
  show "distinct (map lp_id (pn_layers (select ts)))" by (rule d)
  have "sorted (map (\<lambda>l. (layer_rank (ly_kind (lp_layer l)), lp_id l)) (sort_layers ls))" for ls by (simp add: sort_layers_def)
  then have "sorted (map (\<lambda>l. layer_rank (ly_kind (lp_layer l))) (sort_layers ls))" for ls
    unfolding sorted_map by (rule sorted_wrt_mono_rel [rotated]) (auto simp: less_eq_prod_def)
  then show "sorted (map (\<lambda>l. layer_rank (ly_kind (lp_layer l))) (pn_layers (select ts)))" by (simp add: select_eq)
  have base_in: "ly_parent (lp_layer l) = '''' \<or> (\<exists>q \<in> set (pn_layers (select ts)). lp_id q = ly_parent (lp_layer l) \<and> layer_rank (ly_kind (lp_layer q)) = 0)"
    if "ly_parent (lp_layer l) = sel_parent ts" for l
    using that sel_baseD [of ts] by (cases "sel_base ts") (auto simp: sel_parent_def select_layers_set opt_list_def layer_rank_def)
  fix l
  assume "l \<in> set (pn_layers (select ts))"
  then consider (base) "sel_base ts = Some l" | (branch) x where "x \<in> set (sel_branches ts)" "l = fst x" | (overlay) "l \<in> set (sel_overlays ts)"
    by (auto simp: select_layers_set opt_list_def split: option.splits)
  then have "layer_ok (lp_layer l) \<and> sorted_wrt (<) (map fs_path (lp_files l)) \<and>
      (ly_parent (lp_layer l) = '''' \<or> (\<exists>q \<in> set (pn_layers (select ts)). lp_id q = ly_parent (lp_layer l) \<and>
         layer_rank (ly_kind (lp_layer q)) < layer_rank (ly_kind (lp_layer l)))) \<and>
      (\<exists>v. plan_view (select ts) (lp_id l) = Inr (v @ [lp_id l]) \<and> length v \<le> 2)"
  proof cases
    case base
    have "plan_view (select ts) (lp_id l) = Inr ([] @ [lp_id l])"
      using plan_view_parents [OF d below_view_chain [OF assms]] base base_layer_ok sel_baseD(1,5) [OF base] by (simp add: below_view_def layer_id_ok_def)
    then have "\<exists>v. plan_view (select ts) (lp_id l) = Inr (v @ [lp_id l]) \<and> length v \<le> 2" by (intro exI [of _ "[]"]) simp
    moreover have "layer_ok (lp_layer l)" using base_layer_ok sel_baseD(1-3) [OF base] by (simp add: layer_ok_def lp_id_def)
    ultimately show ?thesis using sel_baseD(3,4) [OF base] sorted_files_paths [OF sel_base_files_wf] by simp
  next
    case (branch x)
    from assms branch(1) obtain ref c us where b: "valid_ref ref" "valid_git_oid c" "lp_id (fst x) = branch_layer ref c"
      "ly_kind (lp_layer (fst x)) = ''branch''" "ly_parent (lp_layer (fst x)) = sel_parent ts"
      "lp_files (fst x) = sorted_files (branch_files (sel_base_files ts) (group_sources us))" by (rule sel_branch_fields)
    note k = branch_layer_ok [OF b(1,2)]
    have pok: "sel_parent ts = '''' \<or> layer_id_ok (sel_parent ts)"
      using sel_baseD(5) [of ts] base_layer_ok by (cases "sel_base ts") (auto simp: sel_parent_def layer_id_ok_def)
    have "lp_id (fst x) \<notin> set (below_view ts)" using b(3) k base_layer_ok by (auto simp: below_view_def)
    moreover have "list_all layer_id_ok (below_view ts)" "distinct (below_view ts)" "length (below_view ts) \<le> 2"
      using base_layer_ok by (simp_all add: below_view_def layer_id_ok_def)
    ultimately have "plan_view (select ts) (lp_id l) = Inr (below_view ts @ [lp_id l]) \<and> length (below_view ts) \<le> 2"
      using plan_view_parents [OF d branch_view_shows(2) [OF assms branch(1)]] branch(2) b(3) k by (simp add: layer_id_ok_def list_all_iff)
    then have "\<exists>v. plan_view (select ts) (lp_id l) = Inr (v @ [lp_id l]) \<and> length v \<le> 2" by blast
    moreover have "layer_ok (lp_layer l)" using k b(3-5) branch(2) pok by (simp add: layer_ok_def lp_id_def)
    ultimately show ?thesis
      using base_in [of l] b(4-6) branch(2) sorted_files_paths [OF branch_files_wf] by (auto simp: layer_rank_def)
  next
    case overlay
    from assms overlay obtain t where t: "t \<in> set (live_trees ts)" "\<not> is_github t"
      "lp_id l = worktree_layer (wt_id (so_worktree t)) (ts_ref (so_state t))" "ly_kind (lp_layer l) = ''wt''"
      "ly_parent (lp_layer l) = fst (overlay_below (sel_default ts) (sel_parent ts) (sel_base_files ts) (sel_branches ts) t)"
      "lp_files l = sorted_files (overlay_files (snd (overlay_below (sel_default ts) (sel_parent ts) (sel_base_files ts) (sel_branches ts) t)) (so_entries t))"
      by (rule sel_overlay_fields)
    from client_view [OF assms t(1,2)] obtain v where v: "plan_view (select ts) (lp_id l) = Inr (v @ [lp_id l])"
      "parent_chain (layers_by_id (select ts)) (ly_parent (lp_layer l)) (rev v)" "length v \<le> 2" "list_all layer_id_ok v"
      unfolding t(3,5) by metis
    have "tree_named t" using live_ok [OF assms] t(1) by (simp add: list_all_iff)
    then have k: "parse_layer (lp_id l) = Some \<lparr>li_kind = ''wt'', li_ref = ts_ref (so_state t), li_commit = '''', li_worktree = wt_id (so_worktree t)\<rparr>"
      unfolding t(3) by (intro worktree_layer_ok) (simp_all add: tree_named_def)
    have low: "ly_parent (lp_layer l) = '''' \<or> (\<exists>q \<in> set (pn_layers (select ts)). lp_id q = ly_parent (lp_layer l) \<and> layer_rank (ly_kind (lp_layer q)) < 2)"
      using assms t(1)
    proof (cases rule: overlay_below_cases)
      case base
      then show ?thesis using base_in [of l] t(5) by auto
    next
      case (branch x)
      from assms branch(1) have "ly_kind (lp_layer (fst x)) = ''branch''" by (rule sel_branch_fields)
      then show ?thesis using branch(1,3) t(5) by (auto simp: select_layers_set layer_rank_def)
    qed
    have "ly_parent (lp_layer l) = '''' \<or> layer_id_ok (ly_parent (lp_layer l))"
    proof (cases "rev v")
      case Nil
      then show ?thesis using v(2) by simp
    next
      case (Cons j js)
      then have "ly_parent (lp_layer l) = j" "j \<in> set v" using v(2) by (auto simp: rev_eq_Cons_iff)
      then show ?thesis using v(4) by (simp add: list_all_iff)
    qed
    then have "layer_ok (lp_layer l)" using k t(4) by (simp add: layer_ok_def lp_id_def)
    then show ?thesis using v(1,3) low t(4,6) sorted_files_paths [OF overlay_files_wf] by (auto simp: layer_rank_def)
  qed
  then show "layer_ok (lp_layer l)" "sorted_wrt (<) (map fs_path (lp_files l))"
    "ly_parent (lp_layer l) = '''' \<or> (\<exists>q \<in> set (pn_layers (select ts)). lp_id q = ly_parent (lp_layer l) \<and>
         layer_rank (ly_kind (lp_layer q)) < layer_rank (ly_kind (lp_layer l)))"
    "\<exists>v. plan_view (select ts) (lp_id l) = Inr (v @ [lp_id l]) \<and> length v \<le> 2" by blast+
qed

text \<open>All the checkouts at the commit of a tree hold a path in one version.\<close>

definition agreed :: "source_tree list \<Rightarrow> source_tree \<Rightarrow> string \<Rightarrow> string \<Rightarrow> bool" where
  "agreed ts t p oid \<longleftrightarrow>
     (\<forall>u \<in> set ts. live_tree u \<and> ts_ref (so_state u) = ts_ref (so_state t) \<and> pushed_commit u = pushed_commit t \<longrightarrow>
        (\<exists>e \<in> set (so_entries u). en_path e = p \<and> \<not> en_unpushed e) \<and>
        (\<forall>e \<in> set (so_entries u). en_path e = p \<and> \<not> en_unpushed e \<longrightarrow> en_git_oid e = oid))"

lemma agreed_shown:
  assumes "agreed ts t p oid" "oid \<noteq> ''''" "us = group_sources (filter (in_group def (ts_ref (so_state t), pushed_commit t)) (live_trees ts))" "us \<noteq> []"
  shows "\<exists>f. om_get (stack base (branch_files base us)) p = Some f \<and> fs_git_oid f = oid"
proof -
  let ?es = "filter (\<lambda>e. en_path e = p) (concat (map so_entries us))"
  have us: "u \<in> set us \<Longrightarrow> u \<in> set ts \<and> live_tree u \<and> ts_ref (so_state u) = ts_ref (so_state t) \<and> pushed_commit u = pushed_commit t" for u
    using assms(3) by (auto simp: group_sources_def Let_def in_group_def live_trees_set split: if_splits)
  have a: "\<forall>e \<in> set ?es. \<not> en_unpushed e \<longrightarrow> en_git_oid e = oid" using assms(1) us by (fastforce simp: agreed_def)
  obtain u where "u \<in> set us" using assms(4) by (cases us) auto
  then obtain e where "e \<in> set ?es" "\<not> en_unpushed e" using assms(1) us [of u] by (fastforce simp: agreed_def)
  then have ne: "?es \<noteq> []" "filter (\<lambda>e. \<not> en_unpushed e) ?es \<noteq> []" by (force, meson filter_empty_conv)
  let ?k = "fold know_entry ?es no_knowledge"
  have "kn_oids ?k = [(oid, length (filter (\<lambda>e. \<not> en_unpushed e) ?es))]"
    using know_entries_oids [OF a assms(2), of no_knowledge 0] ne(2) by (simp add: no_knowledge_def Let_def)
  then have k: "kn_oids ?k \<noteq> []" "argmax (kn_oids ?k) = oid" using ne(2) by simp_all
  then obtain f where f: "present_file p ?k = Some f" by (auto simp: present_file_def resolve_path_def Let_def)
  have g: "om_get (pushed_knowledge us) p = Some ?k" using ne(1) by (simp add: knowledge_get split: list.split)
  have "fs_git_oid f = oid" using present_fileD [OF f] k(2) by simp
  then show ?thesis unfolding branch_shows g using f by (auto split: option.split)
qed


end
