(* ===== verification/Parse_Facts.thy ===== *)
theory Parse_Facts
  imports Go_Path Prelude
begin

text \<open>
  What the indexer needs of one file version (\<open>codeparse/facts.go\<close>), the cache of it
  (\<open>codeparse/cache.go\<close>), and the language a file is parsed as (\<open>codeparse/detect.go\<close>). SHA-256 in
  hexadecimal is the parameter \<open>sha256\<close>; the two regular expressions for headers are arguments.
\<close>

section \<open>Facts\<close>

record src_pos =
  po_line :: int
  po_column :: int
  po_offset :: int

record fact_symbol =
  fy_id :: string
  fy_kind :: string
  fy_name :: string
  fy_qual :: string
  fy_signature :: string
  fy_doc :: string
  fy_start :: src_pos
  fy_end :: src_pos
  fy_parent :: string
  fy_exported :: bool

record fact_import =
  fi_spec :: string
  fi_alias :: string
  fi_names :: "string list"
  fi_kind :: string
  fi_start :: src_pos

record fact_ref =
  fr_name :: string
  fr_qualifier :: string
  fr_kind :: string
  fr_start :: src_pos
  fr_enclosing :: string

record fact_chunk =
  fc_id :: string
  fc_kind :: string
  fc_symbol :: string
  fc_start :: src_pos
  fc_end :: src_pos
  fc_text :: string
  fc_hash :: string

record parsed_facts =
  pf_lang :: string
  pf_dialect :: string
  pf_package :: string
  pf_symbols :: "fact_symbol list"
  pf_imports :: "fact_import list"
  pf_refs :: "fact_ref list"
  pf_chunks :: "fact_chunk list"
  pf_parse_error :: string

definition no_facts :: parsed_facts where
  "no_facts = \<lparr>pf_lang = '''', pf_dialect = '''', pf_package = '''', pf_symbols = [], pf_imports = [], pf_refs = [],
     pf_chunks = [], pf_parse_error = ''''\<rparr>"

definition markdown_lang :: string where
  "markdown_lang = ''markdown''"

definition pos_before :: "src_pos \<Rightarrow> src_pos \<Rightarrow> bool" where
  "pos_before p q \<longleftrightarrow> po_offset p < po_offset q"

definition pos_valid :: "src_pos \<Rightarrow> bool" where
  "pos_valid p \<longleftrightarrow> 1 \<le> po_line p \<and> 0 \<le> po_column p \<and> 0 \<le> po_offset p"

definition ref_kinds :: "string list" where
  "ref_kinds = [''call'', ''type'', ''value'', ''extends'', ''implements'']"

text \<open>Ids of symbols and chunks within a file.\<close>

definition fact_symbol_id :: "string \<Rightarrow> nat \<Rightarrow> string" where
  "fact_symbol_id qual n = (if n \<le> 1 then qual else qual @ ''~'' @ itoa n)"

definition fact_chunk_id :: "string \<Rightarrow> nat \<Rightarrow> nat \<Rightarrow> string" where
  "fact_chunk_id symbol line part = (if symbol = '''' then ''L'' @ itoa line else symbol) @ ''#'' @ itoa part"

definition lower_letter :: "char \<Rightarrow> bool" where
  "lower_letter c \<longleftrightarrow> 97 \<le> byte c \<and> byte c \<le> 122"

definition valid_word :: "string \<Rightarrow> bool" where
  "valid_word s \<longleftrightarrow>
     (case s of [] \<Rightarrow> False | c # r \<Rightarrow> lower_letter c \<and> list_all (\<lambda>x. lower_letter x \<or> is_digit x \<or> x = CHR ''_'') r)"

definition span_ok :: "src_pos \<Rightarrow> src_pos \<Rightarrow> bool" where
  "span_ok a b \<longleftrightarrow> pos_valid a \<and> pos_valid b \<and> \<not> (pos_before b a \<or> po_line b < po_line a)"

definition fact_symbols_ok :: "fact_symbol list \<Rightarrow> bool" where
  "fact_symbols_ok ss \<longleftrightarrow>
     distinct (map fy_id ss) \<and>
     list_all (\<lambda>s. fy_id s \<noteq> '''' \<and> fy_name s \<noteq> '''' \<and> valid_word (fy_kind s) \<and> span_ok (fy_start s) (fy_end s) \<and>
       (fy_parent s = '''' \<or> fy_parent s \<noteq> fy_id s \<and> fy_parent s \<in> set (map fy_id ss))) ss"

definition fact_chunks_ok :: "(string \<Rightarrow> string) \<Rightarrow> string list \<Rightarrow> fact_chunk list \<Rightarrow> bool" where
  "fact_chunks_ok sha256 ids cs \<longleftrightarrow>
     distinct (map fc_id cs) \<and>
     list_all (\<lambda>c. fc_id c \<noteq> '''' \<and> valid_word (fc_kind c) \<and> (fc_symbol c = '''' \<or> fc_symbol c \<in> set ids) \<and>
       span_ok (fc_start c) (fc_end c) \<and> fc_hash c = sha256 (fc_text c)) cs"

definition facts_valid :: "(string \<Rightarrow> string) \<Rightarrow> parsed_facts \<Rightarrow> bool" where
  "facts_valid sha256 f \<longleftrightarrow>
     (pf_lang f = '''' \<or> pf_lang f = markdown_lang \<or> valid_word (pf_lang f)) \<and>
     (pf_dialect f = '''' \<or> valid_word (pf_dialect f)) \<and>
     (pf_parse_error f \<noteq> '''' \<longrightarrow> pf_symbols f = [] \<and> pf_imports f = [] \<and> pf_refs f = []) \<and>
     fact_symbols_ok (pf_symbols f) \<and>
     list_all (\<lambda>i. fi_spec i \<noteq> '''' \<and> (fi_kind i = '''' \<or> valid_word (fi_kind i)) \<and> pos_valid (fi_start i)) (pf_imports f) \<and>
     list_all (\<lambda>r. fr_name r \<noteq> '''' \<and> fr_kind r \<in> set ref_kinds \<and> pos_valid (fr_start r) \<and>
       (fr_enclosing r = '''' \<or> fr_enclosing r \<in> set (map fy_id (pf_symbols f)))) (pf_refs f) \<and>
     fact_chunks_ok sha256 (map fy_id (pf_symbols f)) (pf_chunks f)"

section \<open>The cache\<close>

type_synonym cache_key = "string \<times> string"

definition cache_key_ok :: "cache_key \<Rightarrow> bool" where
  "cache_key_ok k \<longleftrightarrow> length (fst k) = 64 \<and> snd k \<noteq> '''' \<and>
     list_all (\<lambda>c. (48 \<le> byte c \<and> byte c \<le> 57) \<or> (97 \<le> byte c \<and> byte c \<le> 102)) (fst k)"

text \<open>The most recently used entry first.\<close>

record facts_cache =
  mc_max :: int
  mc_entries :: "(cache_key \<times> parsed_facts) list"

definition new_cache :: "int \<Rightarrow> facts_cache" where
  "new_cache n = \<lparr>mc_max = n, mc_entries = []\<rparr>"

definition mc_front :: "cache_key \<Rightarrow> parsed_facts \<Rightarrow> facts_cache \<Rightarrow> facts_cache" where
  "mc_front k f c = c\<lparr>mc_entries := (k, f) # filter (\<lambda>e. fst e \<noteq> k) (mc_entries c)\<rparr>"

definition mc_get :: "cache_key \<Rightarrow> facts_cache \<Rightarrow> facts_cache \<times> parsed_facts option" where
  "mc_get k c =
     (if \<not> cache_key_ok k then (c, None)
      else (case map_of (mc_entries c) k of None \<Rightarrow> (c, None) | Some f \<Rightarrow> (mc_front k f c, Some f)))"

definition mc_put :: "cache_key \<Rightarrow> parsed_facts \<Rightarrow> facts_cache \<Rightarrow> facts_cache" where
  "mc_put k f c =
     (if \<not> cache_key_ok k then c
      else
        (let c1 = mc_front k f c
         in if map_of (mc_entries c) k \<noteq> None \<or> mc_max c \<le> 0 then c1
            else c1\<lparr>mc_entries := take (nat (mc_max c)) (mc_entries c1)\<rparr>))"

definition mc_len :: "facts_cache \<Rightarrow> nat" where
  "mc_len c = length (mc_entries c)"

text \<open>
  What a user of a cache relies on: what it answers was put there under that key. \<open>has c k f\<close> says
  that the cache may answer \<open>f\<close> for \<open>k\<close>.
\<close>

locale parse_cache =
  fixes get :: "cache_key \<Rightarrow> 'c \<Rightarrow> 'c \<times> parsed_facts option"
    and put :: "cache_key \<Rightarrow> parsed_facts \<Rightarrow> 'c \<Rightarrow> 'c"
    and has :: "'c \<Rightarrow> cache_key \<Rightarrow> parsed_facts \<Rightarrow> bool"
  assumes get_has: "get k c = (c1, Some f) \<Longrightarrow> has c k f"
    and get_keeps: "get k c = (c1, r) \<Longrightarrow> has c1 k2 f \<Longrightarrow> has c k2 f"
    and put_keeps: "has (put k f c) k2 g \<Longrightarrow> (k2 = k \<and> g = f) \<or> has c k2 g"

text \<open>
  \<open>Cached\<close>: the facts of a key from the cache, parsing on a miss. \<open>parse\<close> is what the parse would
  answer, \<open>None\<close> for an error.
\<close>

definition cached ::
  "(cache_key \<Rightarrow> 'c \<Rightarrow> 'c \<times> parsed_facts option) \<Rightarrow> (cache_key \<Rightarrow> parsed_facts \<Rightarrow> 'c \<Rightarrow> 'c) \<Rightarrow>
   cache_key \<Rightarrow> parsed_facts option \<Rightarrow> 'c \<Rightarrow> 'c \<times> parsed_facts option" where
  "cached get put k parse c =
     (if \<not> cache_key_ok k then (c, None)
      else (case get k c of
              (c1, Some f) \<Rightarrow> (c1, Some f)
            | (c1, None) \<Rightarrow> (case parse of None \<Rightarrow> (c1, None) | Some f \<Rightarrow> (put k f c1, Some f))))"

context parse_cache
begin

lemma cached_sound:
  assumes good: "\<And>k f. has c k f \<Longrightarrow> parse k = Some f"
    and run: "cached get put k (parse k) c = (c1, r)"
  shows "r = (if cache_key_ok k then parse k else None)" and "has c1 k2 f \<Longrightarrow> parse k2 = Some f"
proof -
  obtain c2 a where g: "get k c = (c2, a)" by (cases "get k c")
  have keep: "has c2 k2 f \<Longrightarrow> parse k2 = Some f" for k2 f using good get_keeps [OF g] by blast
  show "r = (if cache_key_ok k then parse k else None)"
  proof (cases a)
    case None
    with g run show ?thesis by (auto simp: cached_def split: option.splits if_splits)
  next
    case (Some x)
    with good [OF get_has [OF g [unfolded Some]]] g run show ?thesis by (auto simp: cached_def split: if_splits)
  qed
  show "parse k2 = Some f" if "has c1 k2 f"
    using run g that keep put_keeps [of k _ c2 k2 f] good
    by (fastforce simp: cached_def split: option.splits if_splits)
qed

end

section \<open>Languages\<close>

record language =
  la_id :: string
  la_name :: string
  la_family :: string
  la_extensions :: "string list"
  la_filenames :: "string list"
  la_dialects :: "(string \<times> string) list"

definition lang :: "string \<Rightarrow> string \<Rightarrow> string \<Rightarrow> string list \<Rightarrow> language" where
  "lang i n f es = \<lparr>la_id = i, la_name = n, la_family = f, la_extensions = es, la_filenames = [], la_dialects = []\<rparr>"

definition languages :: "language list" where
  "languages =
     [lang ''go'' ''Go'' ''go'' [''.go''],
      lang ''python'' ''Python'' ''python'' [''.py'', ''.pyi''],
      lang ''javascript'' ''JavaScript'' ''jsts'' [''.js'', ''.mjs'', ''.cjs'', ''.jsx''],
      (lang ''typescript'' ''TypeScript'' ''jsts'' [''.ts'', ''.tsx'', ''.mts'', ''.cts'', ''.d.ts''])
        \<lparr>la_dialects := [(''.tsx'', ''tsx'')]\<rparr>,
      lang ''java'' ''Java'' ''jvm'' [''.java''],
      lang ''kotlin'' ''Kotlin'' ''jvm'' [''.kt'', ''.kts''],
      lang ''csharp'' ''C#'' ''csharp'' [''.cs''],
      lang ''rust'' ''Rust'' ''rust'' [''.rs''],
      lang ''c'' ''C'' ''cfamily'' [''.c'', ''.h''],
      lang ''cpp'' ''C++'' ''cfamily'' [''.cc'', ''.cpp'', ''.cxx'', ''.hpp'', ''.hh'', ''.h''],
      lang ''objc'' ''Objective-C'' ''cfamily'' [''.m'', ''.mm'', ''.h''],
      lang ''swift'' ''Swift'' ''swift'' [''.swift''],
      lang ''dart'' ''Dart'' ''dart'' [''.dart''],
      lang ''php'' ''PHP'' ''php'' [''.php''],
      (lang ''ruby'' ''Ruby'' ''ruby'' [''.rb'', ''.rake''])\<lparr>la_filenames := [''Gemfile'']\<rparr>,
      lang ''sql'' ''SQL'' ''sql'' [''.sql''],
      lang ''perl'' ''Perl'' ''perl'' [''.pl'', ''.pm'', ''.t''],
      (lang ''ocaml'' ''OCaml'' ''ocaml'' [''.ml'', ''.mli''])\<lparr>la_dialects := [(''.mli'', ''interface'')]\<rparr>,
      lang ''lua'' ''Lua'' ''lua'' [''.lua''],
      (lang ''lisp'' ''Lisp'' ''lisp''
         [''.lisp'', ''.lsp'', ''.cl'', ''.asd'', ''.el'', ''.clj'', ''.cljs'', ''.cljc'', ''.edn'', ''.scm'', ''.ss'', ''.rkt''])
        \<lparr>la_dialects := [(''.lisp'', ''commonlisp''), (''.lsp'', ''commonlisp''), (''.cl'', ''commonlisp''), (''.asd'', ''commonlisp''),
           (''.el'', ''elisp''), (''.clj'', ''clojure''), (''.cljs'', ''clojure''), (''.cljc'', ''clojure''), (''.edn'', ''clojure''),
           (''.scm'', ''scheme''), (''.ss'', ''scheme''), (''.rkt'', ''racket'')]\<rparr>]"

definition markdown_extensions :: "string list" where
  "markdown_extensions = [''.md'', ''.markdown'', ''.mdx'']"

definition by_extension :: "string \<Rightarrow> string list" where
  "by_extension ext =
     (if ext \<in> set markdown_extensions then [markdown_lang]
      else map la_id (filter (\<lambda>l. ext \<in> set (la_extensions l)) languages))"

definition by_filename :: "string \<Rightarrow> string option" where
  "by_filename name = map_option la_id (find (\<lambda>l. name \<in> set (la_filenames l)) languages)"

definition lookup_language :: "string \<Rightarrow> language option" where
  "lookup_language i = find (\<lambda>l. la_id l = i) languages"

definition lang_families :: "string list" where
  "lang_families = sort (remdups (map la_family languages))"

record detection =
  dt_lang :: string
  dt_dialect :: string
  dt_by :: string

text \<open>The longest known suffix that starts at a dot; the first character is skipped.\<close>

definition match_extension :: "string \<Rightarrow> string \<times> string list" where
  "match_extension base0 =
     (let lower = to_lower base0
      in case find (\<lambda>i. lower ! i = CHR ''.'' \<and> by_extension (drop i lower) \<noteq> []) [1..<length lower] of
           None \<Rightarrow> ('''', [])
         | Some i \<Rightarrow> (drop i lower, by_extension (drop i lower)))"

text \<open>Comments, strings and characters of the C family are blanked.\<close>

fun skip_block :: "string \<Rightarrow> string \<times> string" where
  "skip_block [] = ([], [])"
| "skip_block (c # s) =
     (if c = CHR ''*'' \<and> s \<noteq> [] \<and> s ! 0 = CHR ''/'' then ([], tl s)
      else (case skip_block s of (ns, r) \<Rightarrow> ((if c = CHR 0x0A then c # ns else ns), r)))"

fun skip_literal :: "char \<Rightarrow> string \<Rightarrow> string" where
  "skip_literal q [] = []"
| "skip_literal q [c] = []"
| "skip_literal q (c # d # s) =
     (if c = q \<or> c = CHR 0x0A then d # s
      else if c = CHR 0x5C then skip_literal q s
      else skip_literal q (d # s))"

lemma skip_block_shorter: "length (snd (skip_block s)) \<le> length s"
  by (induction s) (auto split: prod.split)

lemma skip_literal_shorter: "length (skip_literal q s) \<le> length s"
  by (induction q s rule: skip_literal.induct) auto

lemma dropWhile_shorter: "length (dropWhile P s) \<le> length s"
  by (induction s) auto

function strip_code :: "string \<Rightarrow> string" where
  "strip_code [] = []"
| "strip_code (c # s) =
     (if c = CHR ''/'' \<and> s \<noteq> [] \<and> s ! 0 = CHR ''/'' then
        (case dropWhile (\<lambda>x. x \<noteq> CHR 0x0A) s of [] \<Rightarrow> [] | n # r \<Rightarrow> CHR 0x0A # strip_code r)
      else if c = CHR ''/'' \<and> s \<noteq> [] \<and> s ! 0 = CHR ''*'' then
        fst (skip_block (tl s)) @ CHR '' '' # strip_code (snd (skip_block (tl s)))
      else if c = CHR 0x22 \<or> c = CHR 0x27 then CHR '' '' # strip_code (skip_literal c s)
      else c # strip_code s)"
  by pat_completeness auto

termination
proof (relation "measure length", goal_cases)
  case (2 c s n r)
  then have "length (n # r) \<le> length s" using dropWhile_shorter by metis
  then show ?case by simp
next
  case (3 c s)
  then show ?case using skip_block_shorter [of "tl s"] by (cases s) auto
next
  case (4 c s)
  then show ?case using skip_literal_shorter [of c s] by simp
qed simp_all

definition header_scan_limit :: nat where
  "header_scan_limit = 262144"

record header_rx =
  hx_objc :: "string \<Rightarrow> bool"
  hx_cpp :: "string \<Rightarrow> bool"

definition header_by_content :: "header_rx \<Rightarrow> string \<Rightarrow> string" where
  "header_by_content rx content =
     (let text = strip_code (take header_scan_limit content)
      in if hx_objc rx text then ''objc'' else if hx_cpp rx text then ''cpp'' else '''')"

definition header_by_neighbours :: "string \<Rightarrow> string list \<Rightarrow> string" where
  "header_by_neighbours self ns =
     (let exts = map (\<lambda>n. to_lower (path_ext n)) (filter (\<lambda>n. n \<noteq> self) (map path_base ns))
      in if list_ex (\<lambda>e. e \<in> set [''.m'', ''.mm'']) exts then ''objc''
         else if list_ex (\<lambda>e. e \<in> set [''.cc'', ''.cpp'', ''.cxx'', ''.hpp'', ''.hh'']) exts then ''cpp''
         else if list_ex (\<lambda>e. e = ''.c'') exts then ''c'' else '''')"

definition detect :: "header_rx \<Rightarrow> string \<Rightarrow> string \<Rightarrow> string list \<Rightarrow> detection" where
  "detect rx file_path content neighbours =
     (let base = path_base file_path
      in case by_filename base of
           Some i \<Rightarrow> \<lparr>dt_lang = i, dt_dialect = '''', dt_by = ''filename''\<rparr>
         | None \<Rightarrow>
             (case match_extension base of
                (ext, []) \<Rightarrow> \<lparr>dt_lang = '''', dt_dialect = '''', dt_by = ''''\<rparr>
              | (ext, [i]) \<Rightarrow>
                  \<lparr>dt_lang = i,
                   dt_dialect = (case lookup_language i of None \<Rightarrow> '''' | Some l \<Rightarrow> (case map_of (la_dialects l) ext of None \<Rightarrow> '''' | Some d \<Rightarrow> d)),
                   dt_by = ''extension''\<rparr>
              | (ext, i # j # is) \<Rightarrow>
                  if ext \<noteq> ''.h'' then \<lparr>dt_lang = i, dt_dialect = '''', dt_by = ''default''\<rparr>
                  else if header_by_content rx content \<noteq> '''' then
                    \<lparr>dt_lang = header_by_content rx content, dt_dialect = '''', dt_by = ''content''\<rparr>
                  else if header_by_neighbours base neighbours \<noteq> '''' then
                    \<lparr>dt_lang = header_by_neighbours base neighbours, dt_dialect = '''', dt_by = ''neighbours''\<rparr>
                  else \<lparr>dt_lang = ''c'', dt_dialect = '''', dt_by = ''default''\<rparr>))"

section \<open>The memory cache is a cache\<close>

lemma mc_front_get: "map_of (mc_entries (mc_front k f c)) k2 = (if k2 = k then Some f else map_of (mc_entries c) k2)"
proof -
  have "map_of (filter (\<lambda>e. fst e \<noteq> k) xs) k2 = (if k2 = k then None else map_of xs k2)" for xs :: "(cache_key \<times> parsed_facts) list"
    by (induction xs) auto
  then show ?thesis by (simp add: mc_front_def)
qed

lemma map_of_take: "map_of (take n xs) k = Some v \<Longrightarrow> map_of xs k = Some v"
  by (induction xs arbitrary: n) (auto simp: take_Cons split: nat.splits if_splits)

interpretation memory_cache: parse_cache mc_get mc_put "\<lambda>c k f. map_of (mc_entries c) k = Some f"
proof
  show "map_of (mc_entries c) k = Some f" if "mc_get k c = (c1, Some f)" for k c c1 f
    using that by (auto simp: mc_get_def split: if_splits option.splits)
  show "map_of (mc_entries c) k2 = Some f" if "mc_get k c = (c1, r)" "map_of (mc_entries c1) k2 = Some f" for k c c1 r k2 f
    using that by (auto simp: mc_get_def mc_front_get split: if_splits option.splits)
  show "(k2 = k \<and> g = f) \<or> map_of (mc_entries c) k2 = Some g" if "map_of (mc_entries (mc_put k f c)) k2 = Some g" for k f c k2 g
    using that mc_front_get [of k f c k2] map_of_take [of "nat (mc_max c)" "mc_entries (mc_front k f c)" k2 g]
    by (auto simp: mc_put_def Let_def split: if_splits)
qed

text \<open>One entry per key, and no more of them than the capacity when there is one.\<close>

definition mc_wf :: "facts_cache \<Rightarrow> bool" where
  "mc_wf c \<longleftrightarrow> distinct (map fst (mc_entries c)) \<and> (0 < mc_max c \<longrightarrow> int (mc_len c) \<le> mc_max c)"

lemma distinct_map_filter_fst: "distinct (map fst xs) \<Longrightarrow> distinct (map fst (filter P xs))"
  by (induction xs) auto

lemma length_without_key:
  assumes "distinct (map fst xs)" "map_of xs k = Some v"
  shows "Suc (length (filter (\<lambda>e. fst e \<noteq> k) xs)) = length xs"
  using assms
proof (induction xs)
  case (Cons e es)
  show ?case
  proof (cases "fst e = k")
    case True
    have "fst x \<noteq> k" if "x \<in> set es" for x
    proof
      assume "fst x = k"
      then have "fst e \<in> set (map fst es)" using that True imageI [OF that, of fst] by simp
      with Cons.prems(1) show False by simp
    qed
    then have "filter (\<lambda>e. fst e \<noteq> k) es = es" by (simp add: filter_id_conv)
    with True show ?thesis by simp
  qed (use Cons in auto)
qed simp

lemma mc_front_wf:
  assumes "mc_wf c" "map_of (mc_entries c) k = Some v"
  shows "mc_wf (mc_front k f c)"
  using assms length_without_key [of "mc_entries c" k v]
  by (auto simp: mc_wf_def mc_front_def mc_len_def distinct_map_filter_fst)

lemma mc_get_wf: "mc_wf c \<Longrightarrow> mc_wf (fst (mc_get k c)) \<and> mc_max (fst (mc_get k c)) = mc_max c"
  by (auto simp: mc_get_def mc_front_def [of k _ c, THEN arg_cong [where f = mc_max]] intro: mc_front_wf split: option.splits)

lemma mc_put_wf: "mc_wf c \<Longrightarrow> mc_wf (mc_put k f c) \<and> mc_max (mc_put k f c) = mc_max c"
proof (cases "map_of (mc_entries c) k = None \<and> cache_key_ok k")
  case True
  assume "mc_wf c"
  then have d: "distinct (map fst (mc_entries (mc_front k f c)))"
    by (auto simp: mc_wf_def mc_front_def distinct_map_filter_fst)
  then have "distinct (map fst (take n (mc_entries (mc_front k f c))))" for n
    by (simp only: take_map [symmetric] distinct_take)
  with d True show ?thesis
    by (auto simp: mc_put_def Let_def mc_wf_def mc_len_def) (simp_all add: mc_front_def)
next
  case False
  assume "mc_wf c"
  with False show ?thesis
    by (auto simp: mc_put_def Let_def mc_front_def [of k _ c, THEN arg_cong [where f = mc_max]] intro: mc_front_wf)
qed

lemma cached_wf:
  assumes "mc_wf c"
  shows "mc_wf (fst (cached mc_get mc_put k p c)) \<and> mc_max (fst (cached mc_get mc_put k p c)) = mc_max c"
proof -
  obtain c1 a where g: "mc_get k c = (c1, a)" by (cases "mc_get k c")
  with mc_get_wf [OF assms, of k] have "mc_wf c1" "mc_max c1 = mc_max c" by simp_all
  with mc_put_wf [of c1 k] g assms show ?thesis by (auto simp: cached_def split: option.splits)
qed

text \<open>A run of parses, each through the cache.\<close>

fun cached_run :: "(cache_key \<Rightarrow> parsed_facts option) \<Rightarrow> cache_key list \<Rightarrow> facts_cache \<Rightarrow> facts_cache \<times> parsed_facts option list" where
  "cached_run parse [] c = (c, [])"
| "cached_run parse (k # ks) c =
     (case cached mc_get mc_put k (parse k) c of (c1, r) \<Rightarrow>
        (case cached_run parse ks c1 of (c2, rs) \<Rightarrow> (c2, r # rs)))"

lemma cached_run_sound:
  assumes "mc_wf c" "\<forall>k f. map_of (mc_entries c) k = Some f \<longrightarrow> parse k = Some f"
  shows "snd (cached_run parse ks c) = map (\<lambda>k. if cache_key_ok k then parse k else None) ks \<and>
    mc_wf (fst (cached_run parse ks c)) \<and> mc_max (fst (cached_run parse ks c)) = mc_max c"
  using assms
proof (induction ks arbitrary: c)
  case (Cons k ks)
  obtain c1 r where c: "cached mc_get mc_put k (parse k) c = (c1, r)" by (cases "cached mc_get mc_put k (parse k) c")
  have keep: "map_of (mc_entries c1) k2 = Some f \<Longrightarrow> parse k2 = Some f" for k2 f
    using memory_cache.cached_sound(2) [of c parse, OF _ c] Cons.prems(2) by blast
  have r: "r = (if cache_key_ok k then parse k else None)"
    using memory_cache.cached_sound(1) [of c parse, OF _ c] Cons.prems(2) by blast
  have w: "mc_wf c1" "mc_max c1 = mc_max c" using cached_wf [OF Cons.prems(1), of k "parse k"] c by simp_all
  from Cons.IH [OF w(1)] keep have
    "snd (cached_run parse ks c1) = map (\<lambda>k. if cache_key_ok k then parse k else None) ks \<and>
     mc_wf (fst (cached_run parse ks c1)) \<and> mc_max (fst (cached_run parse ks c1)) = mc_max c1" by blast
  moreover obtain c2 rs where "cached_run parse ks c1 = (c2, rs)" by (cases "cached_run parse ks c1")
  ultimately show ?case using c r w(2) by simp
qed simp

text \<open>C34. The cache of parsed facts is transparent: starting from an empty cache of any capacity, every
  parse of a run answers what parsing that content would answer (an invalid key gives an error and
  nothing else does), whatever was cached or evicted in between; and a cache with a capacity never
  holds more entries than it, nor two for a key.\<close>

theorem cache_transparent:
  "snd (cached_run parse ks (new_cache n)) = map (\<lambda>k. if cache_key_ok k then parse k else None) ks \<and>
   mc_wf (fst (cached_run parse ks (new_cache n))) \<and> mc_max (fst (cached_run parse ks (new_cache n))) = n"
proof -
  have "mc_wf (new_cache n)" "mc_entries (new_cache n) = []" "mc_max (new_cache n) = n"
    by (simp_all add: mc_wf_def new_cache_def mc_len_def)
  then show ?thesis using cached_run_sound [of "new_cache n" parse ks] by simp
qed

section \<open>What detection answers\<close>

lemma shared_extensions: "list_all (\<lambda>e. 2 \<le> length (by_extension e) \<longrightarrow> e = ''.h'') (concat (map la_extensions languages))"
  by code_simp

lemma shared_extension:
  assumes "by_extension e = i # j # ks"
  shows "e = ''.h''"
proof -
  have m: "e \<notin> set markdown_extensions" using assms by (auto simp: by_extension_def)
  then have "filter (\<lambda>l. e \<in> set (la_extensions l)) languages \<noteq> []" using assms by (auto simp: by_extension_def)
  then have "e \<in> set (concat (map la_extensions languages))" by (auto simp: filter_empty_conv)
  then show ?thesis using shared_extensions assms by (auto simp: list_all_iff)
qed

lemma by_extension_known: "i \<in> set (by_extension e) \<Longrightarrow> i = markdown_lang \<or> lookup_language i \<noteq> None"
  by (auto simp: by_extension_def lookup_language_def find_None_iff split: if_splits)

lemma by_filename_known: "by_filename n = Some i \<Longrightarrow> lookup_language i \<noteq> None"
  by (auto simp: by_filename_def lookup_language_def find_None_iff find_Some_iff) (metis nth_mem)

lemma match_extension_by: "match_extension b = (e, is) \<Longrightarrow> is = [] \<or> is = by_extension e"
  by (auto simp: match_extension_def Let_def split: option.splits)

lemma header_languages:
  "header_by_content rx c \<in> {'''', ''objc'', ''cpp''}" "header_by_neighbours b ns \<in> {'''', ''objc'', ''cpp'', ''c''}"
  by (auto simp: header_by_content_def header_by_neighbours_def Let_def)

lemma header_languages_known: "list_all (\<lambda>i. lookup_language i \<noteq> None) [''objc'', ''cpp'', ''c'']"
  by code_simp

text \<open>C35. A file's detected language is none (the file is indexed as text), Markdown, or a language of the
  table, so its family and profile exist; and the content and the neighbours of a file matter for
  headers alone: any other path has one language, whatever the file and its directory hold.\<close>

theorem detection_by_name:
  "(dt_lang (detect rx p c ns) = '''' \<or> dt_lang (detect rx p c ns) = markdown_lang \<or>
    lookup_language (dt_lang (detect rx p c ns)) \<noteq> None) \<and>
   (detect rx p c ns = detect rx2 p c2 ns2 \<or>
    fst (match_extension (path_base p)) = ''.h'' \<and> dt_lang (detect rx p c ns) \<in> {''c'', ''cpp'', ''objc''})"
proof (cases "by_filename (path_base p)")
  case (Some i)
  then show ?thesis by (simp add: detect_def Let_def by_filename_known)
next
  case None
  obtain e ids where m: "match_extension (path_base p) = (e, ids)" by (cases "match_extension (path_base p)")
  consider "ids = []" | i where "ids = [i]" | i j k where "ids = i # j # k" by (metis list.exhaust)
  then show ?thesis
  proof cases
    case 1
    with None m show ?thesis by (simp add: detect_def Let_def)
  next
    case (2 i)
    with match_extension_by [OF m] have "by_extension e = [i]" by simp
    then have "i \<in> set (by_extension e)" by simp
    with 2 None m show ?thesis using by_extension_known [of i e] by (simp add: detect_def Let_def)
  next
    case (3 i j k)
    with match_extension_by [OF m] have e: "e = ''.h''" using shared_extension [of e i j k] by simp
    let ?d = "dt_lang (detect rx p c ns)"
    have "?d = ''c'' \<or> ?d = header_by_content rx c \<and> header_by_content rx c \<noteq> '''' \<or>
        ?d = header_by_neighbours (path_base p) ns \<and> header_by_neighbours (path_base p) ns \<noteq> ''''"
      using 3 None m e by (simp add: detect_def Let_def)
    then have "?d \<in> {''c'', ''cpp'', ''objc''}"
      using header_languages(1) [of rx c] header_languages(2) [of "path_base p" ns] by auto
    moreover then have "lookup_language ?d \<noteq> None" using header_languages_known by auto
    ultimately show ?thesis using m e by simp
  qed
qed

text \<open>
  Blanking keeps the newlines of comments, but not the one that ends an unterminated literal: the
  text after it joins the line of the quote.
\<close>

lemma strip_open_literal:
  assumes "q = CHR 0x22 \<or> q = CHR 0x27" "list_all (\<lambda>c. c \<noteq> q \<and> c \<noteq> CHR 0x0A \<and> c \<noteq> CHR 0x5C) a"
  shows "strip_code (q # a @ CHR 0x0A # s) = CHR '' '' # strip_code s"
proof -
  have "skip_literal q (a @ CHR 0x0A # s) = s"
    using assms(2)
  proof (induction a)
    case Nil
    show ?case by (cases s) auto
  next
    case (Cons c a)
    then show ?case by (cases a) auto
  qed
  with assms(1) show ?thesis by auto
qed

end
