(* ===== verification/Examples_Index.thy ===== *)
theory Examples_Index
  imports Index_Views Parse_Facts
begin

text \<open>
  Two trees of a repository, on which the properties of the selection of layers are applied once: the
  default branch as the remote has it, and a checkout of a pushed branch with a file changed and one
  deleted.
\<close>

definition ix_oid :: "char \<Rightarrow> string" where
  "ix_oid c = replicate 40 c"

definition ix_entry :: "string \<Rightarrow> char \<Rightarrow> bool \<Rightarrow> code_entry" where
  "ix_entry p c dirty = \<lparr>en_path = p, en_sha = replicate 64 c, en_size = 1, en_mode = ''644'', en_lang = ''go'', en_git_oid = ix_oid c,
     en_dirty = dirty, en_unpushed = False, en_session = ''''\<rparr>"

definition ix_tree :: "string \<Rightarrow> string \<Rightarrow> string \<Rightarrow> string \<Rightarrow> code_entry list \<Rightarrow> source_tree" where
  "ix_tree source i ref oid es =
     \<lparr>so_worktree = \<lparr>wt_id = i, wt_owner = ''u1'', wt_source = source, wt_root = '''', wt_host = '''', wt_origin = '''',
        wt_default_branch = ''main'', wt_refs = [ref], wt_sessions = [], wt_removed = False, wt_updated = 0\<rparr>,
      so_state = \<lparr>ts_worktree = i, ts_ref = ref, ts_owner = ''u1'', ts_head = oid, ts_upstream = oid, ts_upstream_seq = 1,
        ts_seq = 1\<rparr>,
      so_entries = es\<rparr>"

definition ix_remote :: source_tree where
  "ix_remote = ix_tree ''github'' ''gh_7'' ''main'' (ix_oid CHR ''1'')
     [ix_entry ''a.go'' CHR ''a'' False, ix_entry ''b.go'' CHR ''b'' False, ix_entry ''c.go'' CHR ''c'' False]"

definition ix_checkout :: source_tree where
  "ix_checkout = ix_tree ''client'' ''wt_0123456789abcdef'' ''topic'' (ix_oid CHR ''2'')
     [ix_entry ''a.go'' CHR ''d'' True, ix_entry ''b.go'' CHR ''e'' False]"

definition ix_trees :: "source_tree list" where
  "ix_trees = [ix_checkout, ix_remote]"

lemma ix_trees_ok: "trees_ok ix_trees"
  by code_simp

theorem selection_layered_witness:
  "map lp_id (pn_layers (select ix_trees)) =
     [base_layer, branch_layer ''topic'' (ix_oid CHR ''2''), worktree_layer ''wt_0123456789abcdef'' ''topic''] \<and>
   distinct (map lp_id (pn_layers (select ix_trees)))"
proof
  show "distinct (map lp_id (pn_layers (select ix_trees)))" by (rule conjunct1 [OF selection_layered [OF ix_trees_ok]])
qed code_simp

lemma ix_agreed: "agreed ix_trees ix_checkout ''b.go'' (ix_oid CHR ''e'')"
  by (simp add: agreed_def ix_trees_def) (simp add: ix_checkout_def ix_remote_def ix_tree_def ix_entry_def)

lemma ix_checkout_facts:
  "ix_checkout \<in> set ix_trees" "live_tree ix_checkout" "\<not> is_github ix_checkout" "distinct (map en_path (so_entries ix_checkout))"
  by (simp add: ix_trees_def, code_simp+)

lemma ix_entries:
  "ix_entry ''a.go'' CHR ''d'' True \<in> set (so_entries ix_checkout)" "ix_entry ''b.go'' CHR ''e'' False \<in> set (so_entries ix_checkout)"
  by (simp_all add: ix_checkout_def ix_tree_def)

lemma ix_pushed:
  "pushed_commit ix_checkout \<noteq> ''''" "ts_ref (so_state ix_checkout) \<noteq> pn_default (select ix_trees)" "ix_oid CHR ''e'' \<noteq> ''''"
  by code_simp+

lemma ix_entry_simps [simp]:
  "en_path (ix_entry p c d) = p" "en_dirty (ix_entry p c d) = d" "en_unpushed (ix_entry p c d) = False" "en_git_oid (ix_entry p c d) = ix_oid c"
  by (simp_all add: ix_entry_def)


text \<open>A Go file and a header next to a C++ source.\<close>

definition ix_rx :: header_rx where
  "ix_rx = \<lparr>hx_objc = (\<lambda>_. False), hx_cpp = (\<lambda>_. False)\<rparr>"

theorem detection_by_name_witness:
  "dt_lang (detect ix_rx ''src/main.go'' ''package'' []) = ''go'' \<and>
   dt_lang (detect ix_rx ''src/a.h'' '''' [''src/a.cpp'']) = ''cpp'' \<and>
   detect ix_rx ''src/main.go'' ''package'' [] = detect ix_rx ''src/main.go'' ''class'' [''src/a.cpp'']"
proof -
  have e: "fst (match_extension (path_base ''src/main.go'')) \<noteq> ''.h''" by code_simp
  have "dt_lang (detect ix_rx ''src/main.go'' ''package'' []) = ''go''" "dt_lang (detect ix_rx ''src/a.h'' '''' [''src/a.cpp'']) = ''cpp''"
    by code_simp+
  then show ?thesis
    using e detection_by_name [of ix_rx "''src/main.go''" "''package''" "[]" ix_rx "''class''" "[''src/a.cpp'']"] by blast
qed

end
