(* ===== verification/Spec2Isabelle.thy ===== *)
theory Spec2Isabelle
  imports Examples Examples_Code Examples_Sessions Examples_Auth Examples_Index
begin

text \<open>
  The palace: plans and stories as Markdown documents, edited through services and kept in
  stores. All source paths are below \<open>src/mind-palace/\<close>.

  \<^bold>\<open>The program.\<close> A document is a front matter, a content and a path (\<open>model\<close>). Two kinds of
  document, plans and stories (\<open>kind\<close>), each have a service (\<open>service\<close>) with the operations
  that clients call: create, list, set a field, patch, link, report progress, claim, delete.
  Every operation that writes goes through \<open>save\<close>: the document is brought to its canonical form,
  checked against the schema and the invariants, put into the store and announced on the event
  bus (\<open>events\<close>). The store of a palace is a fan-out store (\<open>store\<close>) of a primary, which decides,
  and copies, which follow and whose failures are reported without undoing the write. What a
  status, a type or a priority may be, and which status may follow which, is configured
  (\<open>config\<close>). The content is Markdown whose headings, numbered sections and check lists the
  services read and rewrite (\<open>markdown\<close>).

  \<^bold>\<open>The theories.\<close>
  \<^item> \<open>Prelude\<close>: association lists in key order for Go maps, and shared facts on lists and options.
  \<^item> \<open>Go_Strings\<close>, \<open>Go_Time\<close>: what the program uses of the Go packages \<open>strings\<close>, \<open>strconv\<close>,
    \<open>fmt\<close> and \<open>time\<close>, written from their documentation.
  \<^item> \<open>Documents\<close>: \<open>model/model.go\<close>, \<open>model/canonical.go\<close>.
  \<^item> \<open>Kinds\<close>: \<open>kind/kind.go\<close>.
  \<^item> \<open>Kind_Config\<close>: \<open>config/config.go\<close>.
  \<^item> \<open>Markdown_Doc\<close>: \<open>markdown/markdown.go\<close>, \<open>markdown/sections.go\<close>.
  \<^item> \<open>Doc_Store\<close>: \<open>store/store.go\<close>, \<open>store/memstore/memstore.go\<close>, with the locale of a
    document store, which the memory store and the fan-out store over it interpret.
  \<^item> \<open>Doc_Sync\<close>: \<open>store/sync.go\<close>.
  \<^item> \<open>Event_Bus\<close>: \<open>events/events.go\<close>.
  \<^item> \<open>Palace_Core\<close>: \<open>service/errors.go\<close>, \<open>service/service.go\<close>: palace, service, \<open>save\<close>, and the
    contract of an operation that edits one document (\<open>document_operation\<close>), a locale that
    every service operation interprets in the theory that defines it.
  \<^item> \<open>Service_Workflow\<close>, \<open>Service_Planning\<close>, \<open>Service_Claims\<close>: \<open>service/schedule.go\<close>,
    \<open>service/dependencies.go\<close>.
  \<^item> \<open>Service_Fields\<close>: \<open>service/fields.go\<close>.
  \<^item> \<open>Service_Links\<close>: \<open>service/links.go\<close>.
  \<^item> \<open>Service_Progress\<close>: \<open>service/progress.go\<close>,
    \<open>service/criteria.go\<close>.
  \<^item> \<open>Service_Documents\<close>: \<open>service/documents.go\<close>, \<open>service/templates.go\<close>.
  \<^item> \<open>Service_Review\<close>: \<open>service/review.go\<close>.
  \<^item> \<open>Go_Path\<close>: what the program uses of the Go packages \<open>path\<close>, \<open>path/filepath\<close> and \<open>unicode/utf8\<close>.
  \<^item> \<open>Job_Queue\<close>: \<open>ghsync/jobs.go\<close>, \<open>ghsync/memjobs.go\<close>, the queue of GitHub work.
  \<^item> \<open>Branch_Policy\<close>: \<open>ghsync/policy.go\<close>, which branches are kept.
  \<^item> \<open>Code_Filter\<close>: \<open>codefilter/codefilter.go\<close>, which files of a checkout are recorded.
  \<^item> \<open>Code_Store\<close>: \<open>code/model.go\<close>, \<open>code/validate.go\<close>, \<open>code/memcode/memcode.go\<close>.
  \<^item> \<open>Code_Graph\<close>: \<open>codegraph/graph.go\<close>, \<open>codegraph/schema.go\<close>, \<open>codegraph/view.go\<close>.
  \<^item> \<open>Graph_Store\<close>: \<open>codegraph/memgraph/memgraph.go\<close>.
  \<^item> \<open>Parse_Facts\<close>: \<open>codeparse/facts.go\<close>, \<open>codeparse/cache.go\<close>, \<open>codeparse/detect.go\<close>, with the locale of a
    cache of parsed facts (\<open>parse_cache\<close>), which the cache in memory interprets.
  \<^item> \<open>Index_Layers\<close>, \<open>Index_Facts\<close>, \<open>Index_Views\<close>: \<open>codeindex/layers.go\<close>, which trees make up which layers.
  \<^item> \<open>Projects\<close>: \<open>server/projects/projects.go\<close>, the slug of a repository and the storage stamped with it.
  \<^item> \<open>Session_Doc\<close>: \<open>session/doc.go\<close>, \<open>session/model.go\<close>, \<open>session/linetime.go\<close> and the types and
    \<open>WithoutContent\<close> of \<open>session/store.go\<close>.
  \<^item> \<open>Session_Store\<close>, \<open>Session_Queries\<close>, \<open>Session_Usage\<close>: \<open>session/memsession/memsession.go\<close>, with
    \<open>session/aggregate.go\<close> and \<open>session/usage.go\<close>: what changes the store, what is read, and the totals.
  \<^item> \<open>Session_Facts\<close>, \<open>Session_Isolation\<close>: the invariant of that store, and what one account can see of
    what another does.
  \<^item> \<open>Live_State\<close>: \<open>session/livestate/livestate.go\<close>, \<open>session/modeltrack/modeltrack.go\<close>.
  \<^item> \<open>Auth_Tokens\<close>, \<open>Auth_Facts\<close>, \<open>Auth_Limits\<close>: \<open>server/auth/auth.go\<close>, the tokens of the server, with
    the locale of a store that mints tokens (\<open>token_minter\<close>), which the token file interprets.
  \<^item> \<open>Device_Login\<close>, \<open>Device_Facts\<close>: \<open>server/device/device.go\<close>, over any store that mints tokens.
  \<^item> \<open>Palace_Run\<close>: the requests as data, and the steps a palace takes when it serves them.
  \<^item> \<open>Examples\<close>, \<open>Examples_Code\<close>, \<open>Examples_Sessions\<close>, \<open>Examples_Auth\<close>, \<open>Examples_Index\<close>: a small palace, job queue, code
    store, code graph, store of sessions, token file and selection of layers on which every property with a hypothesis is applied.

  \<^bold>\<open>State and operations.\<close> A Go method on a pointer receiver is a function from the state to a
  result and the new state. A palace is a record of its two services, the store, the bus, the
  clock with a count of its readings and the random source with a count of its draws, so time
  stamps and new ids are the values the streams give. Results are \<open>Done\<close>, \<open>Fail\<close>, or \<open>Partial\<close> for a
  write that only a copy refused; errors carry their kind and, where the code collects
  them, the problems found. A loop over a slice is structural recursion. The polling loop for a
  lease takes the list of polls it makes, each with what the other holders did meanwhile; the
  hundred attempts at a free id are a count, as in the code. The recursion that builds the outline
  of a file carries a bound, the number of its symbols, which \<open>outline_terminates\<close> shows is never
  reached. Nothing here can diverge.

  \<^bold>\<open>Conventions.\<close> A nil slice and an empty one are the same list, a Go map is listed in the order of
  its keys, letters change case only in ASCII, and the texts of messages are kept only where a
  later operation reads them. Cloning is the identity, since values cannot be shared. A mutex
  makes the operation it guards one step. \<open>sort.Slice\<close> is a stable sort.

  \<^bold>\<open>Parameters.\<close> The validator of the JSON schema, the decoder of YAML front matter, the decoder of the
  input of a creation, the parser and the executor of templates and the built-in templates are
  arguments of the definitions that use them.

  \<^bold>\<open>What is shown.\<close> In \<open>Palace_Core\<close> to \<open>Service_Documents\<close>: each operation meets its contract, so
  it changes at most its own document, keeps the palace well formed, and a failure changes none.
  From this follow the invariant of every run and the local effect of a
  step. The other facts state what an operation does on each branch: status rules, claims and
  their exclusion, the ready queue, allocation, links, review, listing, validation, templates.
  \<open>Doc_Store\<close> shows what a fan-out write leaves on each store, that conditional puts lose no
  update and that a lease has one holder. \<open>Doc_Sync\<close> shows that synchronising copies
  everything, never goes back in time in newer mode, and is idempotent. \<open>Event_Bus\<close> shows who
  receives an event and that queues are bounded.

  \<^bold>\<open>Code memory.\<close> A checkout's files pass the filter, its changes are committed to the code store, an
  indexer writes what it parsed into the code graph, layer by layer, and readers ask through a
  view. \<open>Job_Queue\<close> shows that a job is never lost or doubled, that jobs of a key run one at a
  time and in order; \<open>Code_Store\<close> that the log of changes determines the trees, that what a tree
  names is held, and what a commit and a page of the log are; \<open>Code_Graph\<close> the two forms of a
  layer id and the shape of an outline; \<open>Graph_Store\<close> that no write leaves loose ends, that a
  search answers with exactly the symbols the view shows and that a walk lists exactly the edges
  within its depth, each once, under the hop that first reaches it.

  The layers come from the trees of the code store: \<open>Index_Views\<close> shows that a selection is layered (a base,
  branches over it, checkouts over these) and that the view of a checkout shows what the checkout
  holds. \<open>Parse_Facts\<close> shows that caching what was parsed changes no answer and that a file's
  language is decided by its name, but for C headers.

  \<^bold>\<open>Sessions.\<close> The capture writes what an assistant's sessions do as documents of six collections, stamped
  with an account: session records, hook events, lines of the transcript and of subagents, side
  files and OpenTelemetry events. A document is a map from names to values, a time the number of
  nanoseconds since Go's zero time, a \<open>float64\<close> a mantissa with an exponent of two, a
  collection the list of its documents in the order of insertion. The regular expressions of Go are
  the parameter \<open>rx\<close>, its parser of URLs \<open>up\<close>. \<open>Session_Facts\<close> shows that the keys of every collection
  stay unique, \<open>Session_Doc\<close> what is left of an event without its content, \<open>Session_Isolation\<close> that
  what one account does changes no answer given to another, as long as it writes under keys of its
  own, \<open>Live_State\<close> that the recorded changes of a session's state lead to the state it is in, and
  \<open>Projects\<close> that every slug is one the server accepts, that the forms of a remote agree, and how
  far stamped definitions keep two projects apart.

  \<^bold>\<open>The server's tokens.\<close> A token file holds hashed tokens and environment keys; a key is exchanged for tokens
  that expire, and a machine without a token logs in with a device code that somebody approves. What
  each system call of an operation answers is an argument (\<open>file_io\<close>), another process may replace the
  file between operations, and the SHA-256 function is the parameter \<open>sha\<close>. \<open>Auth_Facts\<close> shows that the
  tokens stay sound whatever fails and that a revoked key stays out, \<open>Auth_Limits\<close> how often a key is
  exchanged and for how long a token is accepted, \<open>Device_Facts\<close> that a minted token is handed over
  once, to the machine whose code was approved, and what it may open.

  \<^bold>\<open>Not modelled.\<close> Stores that talk to files, databases or servers, HTTP and MCP transport, the command line,
  and the rendering of templates do input and output or call libraries. The manifest lists
  every part with the reason. Synchronising into the primary of a palace is left out of the steps: it
  imports documents no service has checked, and the invariant does not survive it.
\<close>

section \<open>Properties that span the components\<close>

text \<open>C1. Every palace that requests, creations, deletions, template writes, synchronisation into a copy
  and subscribers can reach from a well-formed one is well formed: each stored document is of
  the kind and under the id it is stored with, is in its normal form and passes the schema
  and the invariants of its service.\<close>

theorem reachable_palace_wf:
  assumes "palace_wf p" "palace_run p p'" "lookup p' k i = Inr d"
  shows "doc_kind d = k \<and> doc_id d = i \<and> id_re i \<and> valid_doc (service_for p' k) d \<and>
    first_h1 (doc_content d) = Some (fm_title (doc_fm d)) \<and>
    (has_prefix (doc_path d) ''archive/'' \<longleftrightarrow> fm_status (doc_fm d) = ''archived'')"
proof -
  note l = palace_wf_lookup [OF palace_run_wf [OF assms(2,1)] assms(3)]
  then have v: "valid_doc (service_for p' k) d" by blast
  then show ?thesis using l valid_facts(3) [OF v] by (auto elim: valid_path)
qed

theorem reachable_palace_wf_witness:
  "\<exists>q d. palace_run ex_palace q \<and> lookup q ''story'' ''0001-aaa'' = Inr d \<and> fm_status (doc_fm d) = ''in_progress'' \<and>
     first_h1 (doc_content d) = Some (fm_title (doc_fm d))"
proof -
  obtain d q where c: "claim (pl_stories ex_palace) ''0001-aaa'' ''gh:bob'' False [ex_try] ex_palace = (Done d, q)"
      "doc_id d = ''0001-aaa''"
    using ex_claimed by blast
  have "palace_step ex_palace (snd (run_request (pl_stories ex_palace) (Work (Claim ''0001-aaa'' ''gh:bob'' False [ex_try])) ex_palace))"
    by (intro palace_step.served served_step.edit ex_parts(2))
  then have run: "palace_run ex_palace q" using c by simp
  have l: "lookup q ''story'' ''0001-aaa'' = Inr d" "fm_status (doc_fm d) = ''in_progress''"
    using claim_taken [OF ex_wf ex_parts(2) c(1)] c ex_claim_steps(10,12) by (auto simp: ex_parts)
  show ?thesis using reachable_palace_wf [OF ex_wf run l(1)] run l by blast
qed

text \<open>One step of a well-formed palace changes at most one document: every other lookup answers as
  before, and a document that is rewritten keeps the time of its creation.\<close>

theorem step_changes_one:
  assumes "palace_wf p" "palace_step p p'"
  shows "\<exists>k i. (\<forall>k' i'. k' \<noteq> k \<or> i' \<noteq> i \<longrightarrow> lookup p' k' i' = lookup p k' i') \<and>
    (\<forall>d d'. lookup p k i = Inr d \<and> lookup p' k i = Inr d' \<longrightarrow>
       fm_created (doc_fm d') = fm_created (doc_fm d))"
  using palace_step_one [OF assms(2,1)] by (simp add: one_change_def)

theorem step_changes_one_witness:
  "\<exists>q k i. palace_step ex_palace q \<and> (\<forall>k' i'. k' \<noteq> k \<or> i' \<noteq> i \<longrightarrow> lookup q k' i' = lookup ex_palace k' i')"
proof -
  let ?q = "snd (delete_document (pl_stories ex_palace) ''0001-aaa'' True ex_palace)"
  have s: "palace_step ex_palace ?q" by (intro palace_step.served served_step.delete ex_parts(2))
  show ?thesis using step_changes_one [OF ex_wf s] s by blast
qed

end
